(* ===== verification/DAQ_Prelude.thy ===== *)
theory DAQ_Prelude
  imports Main "HOL-Library.Word"
begin

unbundle bit_operations_syntax

text \<open>
  Shared vocabulary of the development: fallible computations (a Python exception is
  the left summand), byte strings, and the part of Python's \<^verbatim>\<open>struct\<close> and
  \<^verbatim>\<open>int.to_bytes\<close> that the ThingDAQ SDK uses (unsigned little-endian scalars).
\<close>

named_theorems res_simps "characterisation of successful fallible computations"
named_theorems raises_intros "which exceptions a fallible computation can raise"
named_theorems wire_simps "lengths and round trips of wire scalars"

section \<open>Fallible computations\<close>

text \<open>
  A Python function that may raise is a function into \<open>'e + 'a\<close>.
  \<open>require\<close> is the guard \<^verbatim>\<open>if not condition: raise\<close>, \<open>bind_res\<close> is
  sequencing: an exception of the first computation propagates.
\<close>

definition require :: "bool \<Rightarrow> 'e \<Rightarrow> 'e + 'a \<Rightarrow> 'e + 'a" where
  "require c e k = (if c then k else Inl e)"

definition bind_res :: "'e + 'a \<Rightarrow> ('a \<Rightarrow> 'e + 'b) \<Rightarrow> 'e + 'b" where
  "bind_res m f = (case m of Inl e \<Rightarrow> Inl e | Inr x \<Rightarrow> f x)"

definition res_of_option :: "'e \<Rightarrow> 'a option \<Rightarrow> 'e + 'a" where
  "res_of_option e m = (case m of None \<Rightarrow> Inl e | Some x \<Rightarrow> Inr x)"

text \<open>A comprehension over a fallible element function: it raises at the first failure.\<close>

fun map_res :: "('a \<Rightarrow> 'e + 'b) \<Rightarrow> 'a list \<Rightarrow> 'e + 'b list" where
  "map_res f [] = Inr []"
| "map_res f (x # xs) = bind_res (f x) (\<lambda>y. bind_res (map_res f xs) (\<lambda>ys. Inr (y # ys)))"

lemma require_eq_Inr [res_simps]: "require c e k = Inr x \<longleftrightarrow> c \<and> k = Inr x"
  by (simp add: require_def)

lemma require_eq_Inl [res_simps]: "require c e k = Inl x \<longleftrightarrow> (\<not> c \<and> x = e) \<or> (c \<and> k = Inl x)"
  by (auto simp: require_def)

lemma require_simps [simp]: "require True e k = k" "require False e k = Inl e"
  by (simp_all add: require_def)

lemma bind_res_eq_Inr [res_simps]: "bind_res m f = Inr y \<longleftrightarrow> (\<exists>x. m = Inr x \<and> f x = Inr y)"
  by (cases m) (auto simp: bind_res_def)

lemma bind_res_eq_Inl [res_simps]:
  "bind_res m f = Inl e \<longleftrightarrow> m = Inl e \<or> (\<exists>x. m = Inr x \<and> f x = Inl e)"
  by (cases m) (auto simp: bind_res_def)

lemma bind_res_simps [simp]: "bind_res (Inr x) f = f x" "bind_res (Inl e) f = Inl e"
  by (simp_all add: bind_res_def)

lemma res_of_option_eq_Inr [res_simps]: "res_of_option e m = Inr x \<longleftrightarrow> m = Some x"
  by (cases m) (auto simp: res_of_option_def)

lemma res_of_option_simps [simp]: "res_of_option e (Some x) = Inr x" "res_of_option e None = Inl e"
  by (simp_all add: res_of_option_def)

lemma map_res_eq_Inr:
  "map_res f xs = Inr ys \<longleftrightarrow> length xs = length ys \<and> (\<forall>i < length xs. f (xs ! i) = Inr (ys ! i))"
proof (induction xs arbitrary: ys)
  case Nil
  then show ?case by auto
next
  case (Cons x xs)
  show ?case
    by (cases ys) (auto simp: res_simps Cons.IH less_Suc_eq_0_disj)
qed

lemma map_res_length: "map_res f xs = Inr ys \<Longrightarrow> length ys = length xs"
  by (simp add: map_res_eq_Inr)

lemma map_res_Inr_map: "(\<And>x. x \<in> set xs \<Longrightarrow> f x = Inr (g x)) \<Longrightarrow> map_res f xs = Inr (map g xs)"
  by (induction xs) auto

text \<open>
  \<open>raises_only E m\<close>: every exception that \<open>m\<close> can raise is in \<open>E\<close>; the rules follow the
  shape of the computation.
\<close>

definition raises_only :: "'e set \<Rightarrow> 'e + 'a \<Rightarrow> bool" where
  "raises_only E m \<longleftrightarrow> (\<forall>e. m = Inl e \<longrightarrow> e \<in> E)"

lemma raises_only_Inr [raises_intros]: "raises_only E (Inr x)"
  by (simp add: raises_only_def)

lemma raises_only_Inl [raises_intros]: "e \<in> E \<Longrightarrow> raises_only E (Inl e)"
  by (simp add: raises_only_def)

lemma raises_only_require [raises_intros]:
  "e \<in> E \<Longrightarrow> (c \<Longrightarrow> raises_only E k) \<Longrightarrow> raises_only E (require c e k)"
  by (simp add: raises_only_def require_def)

lemma raises_only_bind [raises_intros]:
  "raises_only E m \<Longrightarrow> (\<And>x. m = Inr x \<Longrightarrow> raises_only E (f x)) \<Longrightarrow> raises_only E (bind_res m f)"
  by (cases m) (auto simp: raises_only_def)

lemma raises_only_option [raises_intros]: "e \<in> E \<Longrightarrow> raises_only E (res_of_option e m)"
  by (cases m) (auto simp: raises_only_def)

lemma raises_only_if [raises_intros]:
  "(c \<Longrightarrow> raises_only E a) \<Longrightarrow> (\<not> c \<Longrightarrow> raises_only E b) \<Longrightarrow> raises_only E (if c then a else b)"
  by simp

lemma raises_only_map_res [raises_intros]:
  "(\<And>x. x \<in> set xs \<Longrightarrow> raises_only E (f x)) \<Longrightarrow> raises_only E (map_res f xs)"
  by (induction xs) (auto intro!: raises_intros)

lemma raises_onlyD: "raises_only E m \<Longrightarrow> m = Inl e \<Longrightarrow> e \<in> E"
  by (simp add: raises_only_def)

lemma raises_only_mono: "raises_only E m \<Longrightarrow> E \<subseteq> F \<Longrightarrow> raises_only F m"
  by (auto simp: raises_only_def)

section \<open>Bytes and little-endian scalars\<close>

type_synonym byte = "8 word"
type_synonym bytes = "byte list"

text \<open>\<^verbatim>\<open>value.to_bytes(n, "little")\<close> on the low \<open>n\<close> bytes, and \<^verbatim>\<open>int.from_bytes(.., "little")\<close>.\<close>

fun le_bytes :: "nat \<Rightarrow> int \<Rightarrow> bytes" where
  "le_bytes 0 x = []"
| "le_bytes (Suc n) x = word_of_int x # le_bytes n (x div 256)"

fun le_int :: "bytes \<Rightarrow> int" where
  "le_int [] = 0"
| "le_int (b # bs) = uint b + 256 * le_int bs"

lemma length_le_bytes [simp]: "length (le_bytes n x) = n"
  by (induction n arbitrary: x) auto

lemma byte_uint_bounds [simp]: "0 \<le> uint (b :: byte)" "uint (b :: byte) < 256"
  using uint_bounded [of b] by simp_all

lemma le_int_nonneg [simp]: "0 \<le> le_int bs"
  by (induction bs) auto

lemma le_int_less: "le_int bs < 256 ^ length bs"
proof (induction bs)
  case (Cons b bs)
  have "uint b + 256 * le_int bs < 256 + 256 * le_int bs" by simp
  also have "\<dots> \<le> 256 * 256 ^ length bs" using Cons.IH by simp
  finally show ?case by simp
qed simp

lemma uint_byte_of_int: "uint (word_of_int x :: byte) = x mod 256"
  by (simp add: uint_word_of_int)

lemma le_int_le_bytes: "le_int (le_bytes n x) = x mod 256 ^ n"
proof (induction n arbitrary: x)
  case (Suc n)
  have "x mod (256 * 256 ^ n) = 256 * (x div 256 mod 256 ^ n) + x mod 256"
    by (rule zmod_zmult2_eq) simp
  then show ?case by (simp add: Suc.IH uint_byte_of_int)
qed simp

lemma le_int_le_bytes_id [wire_simps]:
  "0 \<le> x \<Longrightarrow> x < 256 ^ n \<Longrightarrow> le_int (le_bytes n x) = x"
  by (simp add: le_int_le_bytes)

lemma le_bytes_le_int [wire_simps]: "le_bytes (length bs) (le_int bs) = bs"
proof (induction bs)
  case (Cons b bs)
  have "(uint b + 256 * le_int bs) div 256 = le_int bs"
    by (simp add: div_add1_eq)
  moreover have "word_of_int (uint b + 256 * le_int bs) = b"
  proof -
    have "uint (word_of_int (uint b + 256 * le_int bs) :: byte) = uint b"
      by (subst uint_byte_of_int) simp
    then show ?thesis by (simp only: word_uint_eq_iff)
  qed
  ultimately show ?case by (simp add: Cons.IH)
qed simp

lemma le_int_append: "le_int (xs @ ys) = le_int xs + 256 ^ length xs * le_int ys"
  by (induction xs) (simp_all add: algebra_simps)

lemma le_int_inject: "length xs = length ys \<Longrightarrow> le_int xs = le_int ys \<Longrightarrow> xs = ys"
  by (metis le_bytes_le_int)

section \<open>The struct module\<close>

text \<open>
  A format string \<^verbatim>\<open>"<BHIQ.."\<close> is the list of its field widths in bytes (B = 1, H = 2,
  I = 4, Q = 8; no padding under \<^verbatim>\<open><\<close>). \<open>struct_pack\<close> is \<open>None\<close> where
  \<^verbatim>\<open>struct.pack\<close> raises \<^verbatim>\<open>struct.error\<close>: wrong arity or a value out of range.
\<close>

fun struct_pack :: "nat list \<Rightarrow> int list \<Rightarrow> bytes option" where
  "struct_pack [] [] = Some []"
| "struct_pack (w # ws) (v # vs) =
     (if 0 \<le> v \<and> v < 256 ^ w then map_option (\<lambda>bs. le_bytes w v @ bs) (struct_pack ws vs) else None)"
| "struct_pack _ _ = None"

text \<open>\<open>struct_unpack ws bs\<close> reads the fields from the front of \<open>bs\<close> (\<^verbatim>\<open>unpack_from\<close>).\<close>

fun struct_unpack :: "nat list \<Rightarrow> bytes \<Rightarrow> int list" where
  "struct_unpack [] bs = []"
| "struct_unpack (w # ws) bs = le_int (take w bs) # struct_unpack ws (drop w bs)"

fun fields_in_range :: "nat list \<Rightarrow> int list \<Rightarrow> bool" where
  "fields_in_range [] [] = True"
| "fields_in_range (w # ws) (v # vs) = (0 \<le> v \<and> v < 256 ^ w \<and> fields_in_range ws vs)"
| "fields_in_range _ _ = False"

lemma struct_pack_Some_iff: "(\<exists>bs. struct_pack ws vs = Some bs) \<longleftrightarrow> fields_in_range ws vs"
  by (induction ws vs rule: struct_pack.induct) auto

lemma struct_pack_length [wire_simps]: "struct_pack ws vs = Some bs \<Longrightarrow> length bs = sum_list ws"
  by (induction ws vs arbitrary: bs rule: struct_pack.induct) (auto split: if_splits)

lemma struct_unpack_pack:
  "struct_pack ws vs = Some bs \<Longrightarrow> struct_unpack ws (bs @ rest) = vs"
  by (induction ws vs arbitrary: bs rule: struct_pack.induct)
     (auto split: if_splits simp: wire_simps)

lemma struct_pack_unpack:
  "sum_list ws \<le> length bs \<Longrightarrow>
   struct_pack ws (struct_unpack ws bs) = Some (take (sum_list ws) bs)"
proof (induction ws arbitrary: bs)
  case (Cons w ws)
  have len: "length (take w bs) = w" and rest: "sum_list ws \<le> length (drop w bs)"
    using Cons.prems by simp_all
  have rng: "le_int (take w bs) < 256 ^ w" using le_int_less [of "take w bs"] len by simp
  have enc: "le_bytes w (le_int (take w bs)) = take w bs"
    using le_bytes_le_int [of "take w bs"] len by simp
  have "take (w + sum_list ws) bs = take w bs @ take (sum_list ws) (drop w bs)"
    by (simp add: take_add)
  with rng enc Cons.IH [OF rest] show ?case by simp
qed simp

lemma struct_unpack_take:
  "struct_unpack ws (take (sum_list ws + n) bs) = struct_unpack ws bs"
proof (induction ws arbitrary: bs)
  case (Cons w ws)
  have "drop w (take (w + sum_list ws + n) bs) = take (sum_list ws + n) (drop w bs)"
    by (simp add: drop_take add.assoc)
  with Cons.IH [of "drop w bs"] show ?case by (simp add: min_absorb1 add.assoc)
qed simp

lemma struct_unpack_length [simp]: "length (struct_unpack ws bs) = length ws"
  by (induction ws arbitrary: bs) auto

lemma struct_unpack_nonneg: "v \<in> set (struct_unpack ws bs) \<Longrightarrow> 0 \<le> v"
  by (induction ws arbitrary: bs) auto

lemma struct_unpack_in_range:
  "sum_list ws \<le> length bs \<Longrightarrow> fields_in_range ws (struct_unpack ws bs)"
  using struct_pack_unpack struct_pack_Some_iff by blast

section \<open>Slices\<close>

text \<open>\<^verbatim>\<open>data[a:b]\<close> for \<open>0 \<le> a\<close> and \<open>0 \<le> b\<close>: out-of-range bounds are clipped.\<close>

definition py_slice :: "nat \<Rightarrow> nat \<Rightarrow> 'a list \<Rightarrow> 'a list" where
  "py_slice a b xs = take (b - a) (drop a xs)"

lemma length_py_slice [simp]: "length (py_slice a b xs) = min (b - a) (length xs - a)"
  by (simp add: py_slice_def)

end
