(* ===== verification/Checksum.thy ===== *)
theory Checksum
  imports DAQ_Prelude
begin

unbundle bit_operations_syntax

text \<open>
  The checksum backends of \<^verbatim>\<open>checksum.py\<close>: the pure-Python Adler-32 with bounded
  chunks, the slicing-by-four table CRC, the accelerated standard-library functions
  (\<^verbatim>\<open>zlib.adler32\<close> and \<^verbatim>\<open>zlib.crc32\<close>, written from their documented definitions),
  and the dispatch tables. Python integers are \<open>int\<close>; \<^verbatim>\<open>>>\<close>, \<^verbatim>\<open>^\<close>, \<^verbatim>\<open>&\<close>
  are \<open>drop_bit\<close>, \<open>XOR\<close>, \<open>AND\<close>.
\<close>

section \<open>Definitions\<close>

datatype ChecksumAlgorithm = NONE_RESERVED | ADLER32 | CRC32C | CRC32_ISO_HDLC

definition UINT32_MAX :: int where
  "UINT32_MAX = 0xFFFFFFFF"

subsection \<open>Adler-32\<close>

text \<open>The inner \<^verbatim>\<open>for value in view[offset:end]\<close> loop: no reduction inside a chunk.\<close>

fun adler_chunk :: "bytes \<Rightarrow> int \<Rightarrow> int \<Rightarrow> int \<times> int" where
  "adler_chunk [] sum_1 sum_2 = (sum_1, sum_2)"
| "adler_chunk (v # vs) sum_1 sum_2 = adler_chunk vs (sum_1 + uint v) (sum_2 + (sum_1 + uint v))"

function adler_loop :: "bytes \<Rightarrow> nat \<Rightarrow> int \<Rightarrow> int \<Rightarrow> int \<times> int" where
  "adler_loop view offset sum_1 sum_2 =
     (if offset < length view then
        (let stop = min (offset + 5552) (length view);
             (s1, s2) = adler_chunk (py_slice offset stop view) sum_1 sum_2
         in adler_loop view stop (s1 mod 65521) (s2 mod 65521))
      else (sum_1, sum_2))"
  by pat_completeness auto
termination
  by (relation "measure (\<lambda>(view, offset, s1, s2). length view - offset)") auto

declare adler_loop.simps [simp del]

definition pure_adler32 :: "bytes \<Rightarrow> int" where
  "pure_adler32 data =
     (let (sum_1, sum_2) = adler_loop data 0 1 0 in push_bit 16 sum_2 OR sum_1)"

text \<open>
  \<^verbatim>\<open>zlib.adler32(data, value)\<close> as RFC 1950 defines it: both sums reduced modulo 65521
  at every byte, starting from the halves of \<^verbatim>\<open>value\<close>.
\<close>

fun rfc1950_sums :: "bytes \<Rightarrow> int \<Rightarrow> int \<Rightarrow> int \<times> int" where
  "rfc1950_sums [] a b = (a, b)"
| "rfc1950_sums (v # vs) a b =
     (let a' = (a + uint v) mod 65521 in rfc1950_sums vs a' ((b + a') mod 65521))"

definition zlib_adler32 :: "bytes \<Rightarrow> int \<Rightarrow> int" where
  "zlib_adler32 data val =
     (let (a, b) = rfc1950_sums data (val AND 0xFFFF) (drop_bit 16 val AND 0xFFFF)
      in b * 65536 + a)"

definition accelerated_adler32 :: "bytes \<Rightarrow> int" where
  "accelerated_adler32 data = zlib_adler32 data 1 AND UINT32_MAX"

subsection \<open>Reflected CRC-32, slicing by four\<close>

text \<open>One pass of \<^verbatim>\<open>(remainder >> 1) ^ (polynomial if remainder & 1 else 0)\<close>.\<close>

definition crc_bit :: "int \<Rightarrow> int \<Rightarrow> int" where
  "crc_bit polynomial remainder =
     drop_bit 1 remainder XOR (if remainder AND 1 \<noteq> 0 then polynomial else 0)"

definition crc_first_slice :: "int \<Rightarrow> int list" where
  "crc_first_slice polynomial = map (\<lambda>index. (crc_bit polynomial ^^ 8) (int index)) [0..<256]"

definition crc_next_slice :: "int list \<Rightarrow> int list \<Rightarrow> int list" where
  "crc_next_slice first previous =
     map (\<lambda>value. drop_bit 8 value XOR first ! nat (value AND 0xFF)) previous"

definition make_reflected_crc_table :: "int \<Rightarrow> int list list" where
  "make_reflected_crc_table polynomial =
     (let s0 = crc_first_slice polynomial;
          s1 = crc_next_slice s0 s0;
          s2 = crc_next_slice s0 s1;
          s3 = crc_next_slice s0 s2
      in [s0, s1, s2, s3])"

definition CRC32C_POLYNOMIAL :: int where "CRC32C_POLYNOMIAL = 0x82F63B78"
definition CRC32_ISO_HDLC_POLYNOMIAL :: int where "CRC32_ISO_HDLC_POLYNOMIAL = 0xEDB88320"

definition CRC32C_TABLE :: "int list list" where
  "CRC32C_TABLE = make_reflected_crc_table CRC32C_POLYNOMIAL"

definition CRC32_ISO_HDLC_TABLE :: "int list list" where
  "CRC32_ISO_HDLC_TABLE = make_reflected_crc_table CRC32_ISO_HDLC_POLYNOMIAL"

definition crc_word_step :: "int list list \<Rightarrow> int \<Rightarrow> int" where
  "crc_word_step table remainder =
     table ! 3 ! nat (remainder AND 0xFF)
     XOR table ! 2 ! nat (drop_bit 8 remainder AND 0xFF)
     XOR table ! 1 ! nat (drop_bit 16 remainder AND 0xFF)
     XOR table ! 0 ! nat (drop_bit 24 remainder)"

text \<open>
  The loop over little-endian 32-bit words of \<^verbatim>\<open>view[:word_bytes]\<close>; the big-endian
  branch of the source reads the same words with \<^verbatim>\<open>int.from_bytes(.., "little")\<close>.
\<close>

fun crc_words :: "int list list \<Rightarrow> int \<Rightarrow> bytes \<Rightarrow> int" where
  "crc_words table remainder (a # b # c # d # rest) =
     crc_words table (crc_word_step table (remainder XOR le_int [a, b, c, d])) rest"
| "crc_words table remainder _ = remainder"

definition crc_tail_step :: "int list list \<Rightarrow> int \<Rightarrow> byte \<Rightarrow> int" where
  "crc_tail_step table remainder value =
     drop_bit 8 remainder XOR table ! 0 ! nat ((remainder XOR uint value) AND 0xFF)"

definition pure_reflected_crc32 :: "bytes \<Rightarrow> int list list \<Rightarrow> int" where
  "pure_reflected_crc32 data table =
     (let word_bytes = nat (int (length data) AND NOT 3);
          remainder = crc_words table UINT32_MAX (take word_bytes data);
          remainder = foldl (crc_tail_step table) remainder (drop word_bytes data)
      in remainder XOR UINT32_MAX)"

definition pure_crc32c :: "bytes \<Rightarrow> int" where
  "pure_crc32c data = pure_reflected_crc32 data CRC32C_TABLE"

definition pure_crc32_iso_hdlc :: "bytes \<Rightarrow> int" where
  "pure_crc32_iso_hdlc data = pure_reflected_crc32 data CRC32_ISO_HDLC_TABLE"

text \<open>
  The bit-serial definition of a reflected CRC-32 with initial value and final XOR
  \<^verbatim>\<open>0xFFFFFFFF\<close>: one message byte at a time, eight shifts per byte. It is the reference
  the table code is compared with, and the documented meaning of \<^verbatim>\<open>zlib.crc32\<close>.
\<close>

definition crc_byte_step :: "int \<Rightarrow> int \<Rightarrow> byte \<Rightarrow> int" where
  "crc_byte_step polynomial remainder value = (crc_bit polynomial ^^ 8) (remainder XOR uint value)"

definition bitwise_crc32 :: "int \<Rightarrow> bytes \<Rightarrow> int" where
  "bitwise_crc32 polynomial data = foldl (crc_byte_step polynomial) UINT32_MAX data XOR UINT32_MAX"

definition zlib_crc32 :: "bytes \<Rightarrow> int" where
  "zlib_crc32 data = bitwise_crc32 CRC32_ISO_HDLC_POLYNOMIAL data"

definition accelerated_crc32_iso_hdlc :: "bytes \<Rightarrow> int" where
  "accelerated_crc32_iso_hdlc data = zlib_crc32 data AND UINT32_MAX"

subsection \<open>Dispatch\<close>

record ChecksumBackend =
  backend_algorithm :: ChecksumAlgorithm
  implementation :: string
  accelerated :: bool
  fallback_implementation :: string

fun CHECKSUM_FUNCTIONS :: "ChecksumAlgorithm \<Rightarrow> (bytes \<Rightarrow> int) option" where
  "CHECKSUM_FUNCTIONS ADLER32 = Some accelerated_adler32"
| "CHECKSUM_FUNCTIONS CRC32C = Some pure_crc32c"
| "CHECKSUM_FUNCTIONS CRC32_ISO_HDLC = Some accelerated_crc32_iso_hdlc"
| "CHECKSUM_FUNCTIONS NONE_RESERVED = None"

fun FALLBACK_FUNCTIONS :: "ChecksumAlgorithm \<Rightarrow> (bytes \<Rightarrow> int) option" where
  "FALLBACK_FUNCTIONS ADLER32 = Some pure_adler32"
| "FALLBACK_FUNCTIONS CRC32C = Some pure_crc32c"
| "FALLBACK_FUNCTIONS CRC32_ISO_HDLC = Some pure_crc32_iso_hdlc"
| "FALLBACK_FUNCTIONS NONE_RESERVED = None"

fun checksum_backend :: "ChecksumAlgorithm \<Rightarrow> ChecksumBackend option" where
  "checksum_backend ADLER32 = Some \<lparr>backend_algorithm = ADLER32, implementation = ''zlib.adler32'',
     accelerated = True, fallback_implementation = ''python.adler32''\<rparr>"
| "checksum_backend CRC32C = Some \<lparr>backend_algorithm = CRC32C,
     implementation = ''python.slicing_by_four.crc32c'',
     accelerated = False, fallback_implementation = ''python.slicing_by_four.crc32c''\<rparr>"
| "checksum_backend CRC32_ISO_HDLC = Some \<lparr>backend_algorithm = CRC32_ISO_HDLC,
     implementation = ''zlib.crc32'',
     accelerated = True, fallback_implementation = ''python.slicing_by_four.crc32_iso_hdlc''\<rparr>"
| "checksum_backend NONE_RESERVED = None"

definition compute_checksum_value :: "bytes \<Rightarrow> ChecksumAlgorithm \<Rightarrow> int option" where
  "compute_checksum_value data algorithm =
     (case CHECKSUM_FUNCTIONS algorithm of None \<Rightarrow> None | Some f \<Rightarrow> Some (f data))"

definition compute_checksum_fallback :: "bytes \<Rightarrow> ChecksumAlgorithm \<Rightarrow> int option" where
  "compute_checksum_fallback data algorithm =
     (case FALLBACK_FUNCTIONS algorithm of None \<Rightarrow> None | Some f \<Rightarrow> Some (f data))"

section \<open>Adler-32: the chunked sums are the RFC 1950 sums\<close>

lemma rfc1950_sums_mod: "rfc1950_sums data (a mod 65521) (b mod 65521) =
    map_prod (\<lambda>x. x mod 65521) (\<lambda>x. x mod 65521) (adler_chunk data a b)"
proof (induction data arbitrary: a b)
  case (Cons v vs)
  have "rfc1950_sums (v # vs) (a mod 65521) (b mod 65521)
      = rfc1950_sums vs ((a + uint v) mod 65521) ((b + (a + uint v)) mod 65521)"
    by (simp add: Let_def mod_simps)
  also have "\<dots> = map_prod (\<lambda>x. x mod 65521) (\<lambda>x. x mod 65521)
      (adler_chunk vs (a + uint v) (b + (a + uint v)))"
    by (rule Cons.IH)
  finally show ?case by simp
qed simp

lemma rfc1950_sums_append:
  "rfc1950_sums (xs @ ys) a b = (case rfc1950_sums xs a b of (a', b') \<Rightarrow> rfc1950_sums ys a' b')"
  by (induction xs arbitrary: a b) (auto simp: Let_def)

lemma adler_loop_rfc1950:
  assumes "0 \<le> a" "a < 65521" "0 \<le> b" "b < 65521"
  shows "adler_loop view offset a b = rfc1950_sums (drop offset view) a b"
  using assms
proof (induction view offset a b rule: adler_loop.induct)
  case (1 view offset a b)
  show ?case
  proof (cases "offset < length view")
    case True
    define stop where "stop = min (offset + 5552) (length view)"
    obtain s1 s2 where s: "adler_chunk (py_slice offset stop view) a b = (s1, s2)" by force
    have split: "drop offset view = py_slice offset stop view @ drop stop view"
    proof -
      have "drop stop view = drop (stop - offset) (drop offset view)"
        using True by (simp add: stop_def)
      then show ?thesis by (simp only: py_slice_def append_take_drop_id)
    qed
    have chunk: "rfc1950_sums (py_slice offset stop view) a b = (s1 mod 65521, s2 mod 65521)"
      using rfc1950_sums_mod [of "py_slice offset stop view" a b] "1.prems" s by simp
    have "adler_loop view stop (s1 mod 65521) (s2 mod 65521)
        = rfc1950_sums (drop stop view) (s1 mod 65521) (s2 mod 65521)"
      using "1.IH" [OF True stop_def s [symmetric] refl] by simp
    then show ?thesis
      using True s chunk by (simp add: adler_loop.simps [of view offset] split rfc1950_sums_append
          flip: stop_def)
  qed (simp add: adler_loop.simps [of view offset])
qed

lemma rfc1950_sums_bounds:
  assumes "0 \<le> a" "a < 65521" "0 \<le> b" "b < 65521" "rfc1950_sums data a b = (a', b')"
  shows "0 \<le> a' \<and> a' < 65521 \<and> 0 \<le> b' \<and> b' < 65521"
  using assms
proof (induction data arbitrary: a b)
  case (Cons v vs)
  from Cons.prems(5) have
    "rfc1950_sums vs ((a + uint v) mod 65521) ((b + (a + uint v) mod 65521) mod 65521) = (a', b')"
    by (simp add: Let_def)
  then show ?case by (rule Cons.IH [rotated 4]) simp_all
qed auto

text \<open>\<^verbatim>\<open>(b << 16) | a\<close> is \<^verbatim>\<open>65536*b + a\<close> when \<open>a\<close> fits in 16 bits.\<close>

lemma push_or_eq_add:
  assumes "0 \<le> a" "a < 2 ^ n"
  shows "push_bit n b OR a = b * 2 ^ n + (a :: int)"
proof -
  have "take_bit n a = a" using assms by (simp add: take_bit_int_eq_self)
  then have low: "bit a m \<Longrightarrow> m < n" for m by (metis bit_take_bit_iff)
  have "push_bit n b AND a = 0"
    by (rule bit_eqI) (auto simp: bit_simps dest: low)
  then show ?thesis by (simp add: disjunctive_add_eq_or push_bit_eq_mult flip: disjunctive_add_eq_or)
qed

lemma pure_adler32_zlib: "pure_adler32 data = zlib_adler32 data 1"
proof -
  obtain a b where ab: "rfc1950_sums data 1 0 = (a, b)" by force
  have "adler_loop data 0 1 0 = (a, b)" using adler_loop_rfc1950 [of 1 0 data 0] ab by simp
  moreover have "0 \<le> a \<and> a < 2 ^ 16"
    using rfc1950_sums_bounds [OF _ _ _ _ ab] by auto
  ultimately show ?thesis
    using ab by (simp add: pure_adler32_def zlib_adler32_def push_or_eq_add)
qed

lemma zlib_adler32_bounds: "0 \<le> zlib_adler32 data 1 \<and> zlib_adler32 data 1 < 2 ^ 32"
proof -
  obtain a b where ab: "rfc1950_sums data 1 0 = (a, b)" by force
  then have "0 \<le> a \<and> a < 65521 \<and> 0 \<le> b \<and> b < 65521"
    using rfc1950_sums_bounds [OF _ _ _ _ ab] by auto
  then show ?thesis using ab by (simp add: zlib_adler32_def)
qed

lemma and_UINT32_MAX: "0 \<le> x \<Longrightarrow> x < 2 ^ 32 \<Longrightarrow> x AND UINT32_MAX = x"
  using take_bit_int_eq_self [of x 32] by (simp add: UINT32_MAX_def take_bit_eq_mask mask_eq_exp_minus_1)

lemma accelerated_adler32_eq: "accelerated_adler32 data = zlib_adler32 data 1"
  using zlib_adler32_bounds [of data] by (simp add: accelerated_adler32_def and_UINT32_MAX)

section \<open>CRC-32: the sliced tables compute the bit-serial remainder\<close>

text \<open>The shift step is linear over XOR; a word with empty low bits is only shifted.\<close>

lemma crc_bit_odd: "crc_bit p r = drop_bit 1 r XOR (if odd r then p else 0)"
  by (simp add: crc_bit_def and_one_eq odd_iff_mod_2_eq_one)

lemma crc_bit_xor: "crc_bit p (a XOR b) = crc_bit p a XOR crc_bit p b"
proof -
  have "odd (a XOR b) \<longleftrightarrow> odd a \<noteq> odd b" by (auto simp: even_xor_iff)
  then show ?thesis
    by (simp add: crc_bit_odd drop_bit_xor xor.assoc xor.left_commute)
qed

lemma crc_bits_xor: "(crc_bit p ^^ k) (a XOR b) = (crc_bit p ^^ k) a XOR (crc_bit p ^^ k) b"
  by (induction k) (simp_all add: crc_bit_xor)

lemma crc_bits_push: "(crc_bit p ^^ k) (push_bit (k + m) a) = push_bit m a"
proof (induction k arbitrary: m)
  case (Suc k)
  have "(crc_bit p ^^ Suc k) (push_bit (Suc k + m) a) = crc_bit p ((crc_bit p ^^ k) (push_bit (k + Suc m) a))"
    by simp
  also have "\<dots> = crc_bit p (push_bit (Suc m) a)" by (simp only: Suc.IH)
  also have "\<dots> = push_bit m a" by (simp add: crc_bit_odd push_bit_double drop_bit_Suc)
  finally show ?case .
qed simp

lemma crc_bits_shift: "(crc_bit p ^^ k) (push_bit k a) = a"
  using crc_bits_push [of k p 0 a] by simp

lemma crc_bits_add: "(crc_bit p ^^ (m + n)) a = (crc_bit p ^^ m) ((crc_bit p ^^ n) a)"
  by (simp add: funpow_add)

lemma crc_bits_push_more: "(crc_bit p ^^ (m + k)) (push_bit k a) = (crc_bit p ^^ m) a"
  by (simp add: crc_bits_add crc_bits_shift)

lemma split_low_byte: "x = (x AND 0xFF) XOR push_bit 8 (drop_bit 8 (x::int))"
proof -
  have "x AND 0xFF = take_bit 8 x" by (simp add: take_bit_eq_mask mask_eq_exp_minus_1)
  then show ?thesis
    by (intro bit_eqI) (auto simp: bit_xor_iff bit_take_bit_iff bit_push_bit_iff bit_drop_bit_eq)
qed

lemma byte_index: "nat (x AND 0xFF) < 256" "int (nat (x AND 0xFF)) = (x::int) AND 0xFF"
proof -
  have "x AND 0xFF = x mod 256"
    using take_bit_eq_mod [of 8 x] by (simp add: take_bit_eq_mask mask_eq_exp_minus_1)
  then show "nat (x AND 0xFF) < 256" "int (nat (x AND 0xFF)) = x AND 0xFF"
    by (simp_all add: nat_less_iff)
qed

lemma crc_first_slice_nth: "i < 256 \<Longrightarrow> crc_first_slice p ! i = (crc_bit p ^^ 8) (int i)"
  by (simp add: crc_first_slice_def)

lemma crc_step_8: "drop_bit 8 x XOR crc_first_slice p ! nat (x AND 0xFF) = (crc_bit p ^^ 8) x"
proof -
  have "(crc_bit p ^^ 8) x = (crc_bit p ^^ 8) (x AND 0xFF) XOR drop_bit 8 x"
    by (subst split_low_byte) (simp only: crc_bits_xor crc_bits_shift)
  then show ?thesis by (simp add: crc_first_slice_nth byte_index xor.commute)
qed

lemma crc_next_slice_nth:
  assumes "length prev = 256" "\<And>i. i < 256 \<Longrightarrow> prev ! i = (crc_bit p ^^ k) (int i)" "i < 256"
  shows "crc_next_slice (crc_first_slice p) prev ! i = (crc_bit p ^^ (8 + k)) (int i)"
  using assms by (simp add: crc_next_slice_def crc_step_8 crc_bits_add)

lemma crc_slice_lengths [simp]:
  "length (crc_first_slice p) = 256" "length (crc_next_slice f prev) = length prev"
  by (simp_all add: crc_first_slice_def crc_next_slice_def)

lemma crc_table_nth:
  assumes "i < 256"
  shows "make_reflected_crc_table p ! 0 ! i = (crc_bit p ^^ 8) (int i)"
    and "make_reflected_crc_table p ! 1 ! i = (crc_bit p ^^ 16) (int i)"
    and "make_reflected_crc_table p ! 2 ! i = (crc_bit p ^^ 24) (int i)"
    and "make_reflected_crc_table p ! 3 ! i = (crc_bit p ^^ 32) (int i)"
proof -
  let ?s0 = "crc_first_slice p"
  let ?s1 = "crc_next_slice ?s0 ?s0"
  let ?s2 = "crc_next_slice ?s0 ?s1"
  have s1: "?s1 ! i = (crc_bit p ^^ 16) (int i)" if "i < 256" for i
    using crc_next_slice_nth [where prev = ?s0 and k = 8] that by (simp add: crc_first_slice_nth)
  have s2: "?s2 ! i = (crc_bit p ^^ 24) (int i)" if "i < 256" for i
    using crc_next_slice_nth [where prev = ?s1 and k = 16] that by (simp add: s1)
  have s3: "crc_next_slice ?s0 ?s2 ! i = (crc_bit p ^^ 32) (int i)" if "i < 256" for i
    using crc_next_slice_nth [where prev = ?s2 and k = 24] that by (simp add: s2)
  show "make_reflected_crc_table p ! 0 ! i = (crc_bit p ^^ 8) (int i)"
    and "make_reflected_crc_table p ! 1 ! i = (crc_bit p ^^ 16) (int i)"
    and "make_reflected_crc_table p ! 2 ! i = (crc_bit p ^^ 24) (int i)"
    and "make_reflected_crc_table p ! 3 ! i = (crc_bit p ^^ 32) (int i)"
    using assms by (simp_all add: make_reflected_crc_table_def Let_def crc_first_slice_nth s1 s2 s3)
qed

lemma crc_tail_step_eq: "crc_tail_step (make_reflected_crc_table p) r v = crc_byte_step p r v"
proof -
  have "drop_bit 8 (r XOR uint v) = drop_bit 8 r"
  proof -
    have "drop_bit 8 (uint v) = 0" by (simp add: drop_bit_eq_div div_pos_pos_trivial)
    then show ?thesis by (simp add: drop_bit_xor)
  qed
  moreover have "make_reflected_crc_table p ! 0 = crc_first_slice p"
    by (simp add: make_reflected_crc_table_def Let_def)
  ultimately show ?thesis
    using crc_step_8 [of "r XOR uint v" p] by (simp add: crc_tail_step_def crc_byte_step_def)
qed

text \<open>A 32-bit remainder is the XOR of its four shifted bytes.\<close>

lemma crc_word_step_eq:
  assumes "0 \<le> x" "x < 2 ^ 32"
  shows "crc_word_step (make_reflected_crc_table p) x = (crc_bit p ^^ 32) x"
proof -
  let ?b0 = "x AND 0xFF" and ?b1 = "drop_bit 8 x AND 0xFF" and ?b2 = "drop_bit 16 x AND 0xFF"
  let ?b3 = "drop_bit 24 x"
  have b3: "0 \<le> ?b3" "?b3 < 256" "int (nat ?b3) = ?b3"
    using assms by (simp_all add: drop_bit_eq_div)
  have "x = ?b0 XOR push_bit 8 (drop_bit 8 x)" by (rule split_low_byte)
  also have "drop_bit 8 x = ?b1 XOR push_bit 8 (drop_bit 16 x)"
    using split_low_byte [of "drop_bit 8 x"] by simp
  also have "drop_bit 16 x = ?b2 XOR push_bit 8 ?b3"
    using split_low_byte [of "drop_bit 16 x"] by simp
  finally have x: "x = ?b0 XOR (push_bit 8 ?b1 XOR (push_bit 16 ?b2 XOR push_bit 24 ?b3))"
    by (simp add: push_bit_xor)
  have shifts: "(crc_bit p ^^ 32) (push_bit 8 y) = (crc_bit p ^^ 24) y"
    "(crc_bit p ^^ 32) (push_bit 16 y) = (crc_bit p ^^ 16) y"
    "(crc_bit p ^^ 32) (push_bit 24 y) = (crc_bit p ^^ 8) y" for y
    using crc_bits_push_more [of 24 8 p y] crc_bits_push_more [of 16 16 p y]
      crc_bits_push_more [of 8 24 p y] by simp_all
  have "(crc_bit p ^^ 32) x = (crc_bit p ^^ 32) ?b0 XOR
      ((crc_bit p ^^ 24) ?b1 XOR ((crc_bit p ^^ 16) ?b2 XOR (crc_bit p ^^ 8) ?b3))"
    by (subst x) (simp only: crc_bits_xor shifts)
  then show ?thesis
    using b3 by (simp add: crc_word_step_def crc_table_nth byte_index nat_less_iff xor.assoc
        del: One_nat_def)
qed

text \<open>Four bit-serial byte steps are one 32-bit step on the little-endian word.\<close>

lemma uint_push_xor: "uint (b::byte) + 256 * y = uint b XOR push_bit 8 (y::int)"
proof -
  have low: "bit b m \<Longrightarrow> m < 8" for m using bit_imp_le_length [of b m] by simp
  have "uint b AND push_bit 8 y = 0"
    by (rule bit_eqI) (auto simp: bit_simps dest: low)
  then have "uint b + push_bit 8 y = uint b XOR push_bit 8 y" by (rule disjunctive_add_eq_xor)
  then show ?thesis by (simp add: push_bit_eq_mult mult.commute)
qed

lemma crc_byte_steps_word:
  "foldl (crc_byte_step p) r [a, b, c, d] = (crc_bit p ^^ 32) (r XOR le_int [a, b, c, d])"
proof -
  have word: "le_int [a, b, c, d] = uint a XOR (push_bit 8 (uint b) XOR
      (push_bit 16 (uint c) XOR push_bit 24 (uint d)))"
    using uint_push_xor [of d 0] by (simp only: le_int.simps) (simp add: uint_push_xor push_bit_xor)
  have absorb: "(crc_bit p ^^ k) s XOR y = (crc_bit p ^^ k) (s XOR push_bit k y)" for k s y
    by (simp add: crc_bits_xor crc_bits_shift)
  have "foldl (crc_byte_step p) r [a, b, c, d] =
    (crc_bit p ^^ 8) ((crc_bit p ^^ 8) ((crc_bit p ^^ 8) ((crc_bit p ^^ 8)
       (r XOR uint a) XOR uint b) XOR uint c) XOR uint d)"
    by (simp add: crc_byte_step_def)
  also have "\<dots> = (crc_bit p ^^ 32) (r XOR uint a XOR push_bit 8 (uint b)
      XOR push_bit 16 (uint c) XOR push_bit 24 (uint d))"
    by (simp add: absorb crc_bits_add [symmetric] xor.assoc)
  finally show ?thesis by (simp only: word xor.assoc)
qed

lemma crc_bit_bounds:
  assumes "0 \<le> p" "p < 2 ^ 32" "0 \<le> r" "r < 2 ^ 32"
  shows "0 \<le> crc_bit p r \<and> crc_bit p r < 2 ^ 32"
proof -
  have d: "0 \<le> drop_bit 1 r" "drop_bit 1 r < 2 ^ 32"
    using assms by (simp_all add: drop_bit_eq_div)
  have "0 \<le> crc_bit p r" using assms d by (auto simp: crc_bit_def)
  moreover have "crc_bit p r < 2 ^ 32"
    unfolding crc_bit_def using assms d by (intro XOR_upper) auto
  ultimately show ?thesis by simp
qed

lemma crc_bits_bounds:
  assumes "0 \<le> p" "p < 2 ^ 32" "0 \<le> r" "r < 2 ^ 32"
  shows "0 \<le> (crc_bit p ^^ k) r \<and> (crc_bit p ^^ k) r < 2 ^ 32"
  using crc_bit_bounds [OF assms(1,2)] assms(3,4) by (induction k) auto

lemma crc_words_eq:
  assumes "0 \<le> p" "p < 2 ^ 32" "0 \<le> r" "r < 2 ^ 32" "4 dvd length data"
  shows "crc_words (make_reflected_crc_table p) r data = foldl (crc_byte_step p) r data"
  using assms(3-)
proof (induction "make_reflected_crc_table p" r data rule: crc_words.induct)
  case (1 r a b c d rest)
  have rest: "4 dvd length rest"
    using "1.prems"(3) dvd_add_right_iff [of 4 4 "length rest"] by (simp add: eval_nat_numeral)
  have "le_int [a, b, c, d] < 2 ^ 32" using le_int_less [of "[a, b, c, d]"] by simp
  then have x: "0 \<le> r XOR le_int [a, b, c, d]" "r XOR le_int [a, b, c, d] < 2 ^ 32"
    using "1.prems" le_int_nonneg [of "[a, b, c, d]"]
    by (auto intro: XOR_upper simp del: le_int.simps power_numeral)
  have "crc_words (make_reflected_crc_table p) r (a # b # c # d # rest)
      = crc_words (make_reflected_crc_table p) ((crc_bit p ^^ 32) (r XOR le_int [a, b, c, d])) rest"
    by (simp add: crc_word_step_eq [OF x] del: le_int.simps)
  also have "\<dots> = foldl (crc_byte_step p) ((crc_bit p ^^ 32) (r XOR le_int [a, b, c, d])) rest"
    using "1.hyps" crc_bits_bounds [OF assms(1,2) x, of 32] rest
    by (simp only: crc_word_step_eq [OF x])
  finally show ?case
    using crc_byte_steps_word [of p r a b c d] by (simp del: le_int.simps)
qed (auto dest: dvd_imp_le)

lemma and_not_mask: "k AND NOT (mask m) = push_bit m (drop_bit m (k::int))"
  by (rule bit_eqI) (auto simp: bit_and_iff bit_not_iff bit_mask_iff bit_push_bit_iff bit_drop_bit_eq)

lemma and_not_3: "nat (int n AND NOT 3) = 4 * (n div 4)"
proof -
  have "int n AND NOT (mask 2) = push_bit 2 (drop_bit 2 (int n))" by (rule and_not_mask)
  then have "int n AND NOT 3 = int (4 * (n div 4))"
    by (simp add: mask_eq_exp_minus_1 push_bit_eq_mult drop_bit_eq_div zdiv_int)
  then show ?thesis by simp
qed

lemma pure_reflected_crc32_bitwise:
  assumes "0 \<le> p" "p < 2 ^ 32"
  shows "pure_reflected_crc32 data (make_reflected_crc_table p) = bitwise_crc32 p data"
proof -
  let ?n = "nat (int (length data) AND NOT 3)" and ?T = "make_reflected_crc_table p"
  have "4 dvd length (take ?n data)"
    by (simp only: and_not_3 length_take min_absorb2 times_div_less_eq_dividend dvd_triv_left)
  then have words: "crc_words ?T UINT32_MAX (take ?n data)
      = foldl (crc_byte_step p) UINT32_MAX (take ?n data)"
    using crc_words_eq [OF assms] by (simp add: UINT32_MAX_def)
  have tail: "crc_tail_step ?T = crc_byte_step p"
    by (intro ext) (rule crc_tail_step_eq)
  have "foldl (crc_byte_step p) (foldl (crc_byte_step p) UINT32_MAX (take ?n data)) (drop ?n data)
      = foldl (crc_byte_step p) UINT32_MAX data"
    by (metis append_take_drop_id foldl_append)
  then show ?thesis by (simp only: pure_reflected_crc32_def bitwise_crc32_def words tail Let_def)
qed

lemma bitwise_crc32_bounds:
  assumes "0 \<le> p" "p < 2 ^ 32"
  shows "0 \<le> bitwise_crc32 p data \<and> bitwise_crc32 p data < 2 ^ 32"
proof -
  have "0 \<le> foldl (crc_byte_step p) r data \<and> foldl (crc_byte_step p) r data < 2 ^ 32"
    if "0 \<le> r" "r < 2 ^ 32" for r
    using that
  proof (induction data arbitrary: r)
    case (Cons v vs)
    have "uint v < 2 ^ 32" by (rule less_trans [OF byte_uint_bounds(2)]) simp
    then have "0 \<le> r XOR uint v" "r XOR uint v < 2 ^ 32"
      using Cons.prems by (auto intro: XOR_upper simp del: power_numeral)
    then show ?case using Cons.IH crc_bits_bounds [OF assms] by (simp add: crc_byte_step_def)
  qed simp
  from this [of UINT32_MAX] have "0 \<le> foldl (crc_byte_step p) UINT32_MAX data"
    "foldl (crc_byte_step p) UINT32_MAX data < 2 ^ 32"
    by (simp_all add: UINT32_MAX_def)
  moreover have "0 \<le> UINT32_MAX" "UINT32_MAX < 2 ^ 32" by (simp_all add: UINT32_MAX_def)
  ultimately show ?thesis
    by (auto simp: bitwise_crc32_def intro: XOR_upper simp del: power_numeral)
qed

section \<open>Properties\<close>

text \<open>
  Property C39. The selected backend of every algorithm and the pure-Python fallback
  return the same checksum (or both refuse the algorithm) for every byte string.
\<close>

theorem checksum_backends_agree:
  "compute_checksum_value data algorithm = compute_checksum_fallback data algorithm"
proof (cases algorithm)
  case CRC32_ISO_HDLC
  have "0 \<le> CRC32_ISO_HDLC_POLYNOMIAL \<and> CRC32_ISO_HDLC_POLYNOMIAL < 2 ^ 32"
    by (simp add: CRC32_ISO_HDLC_POLYNOMIAL_def)
  then have "accelerated_crc32_iso_hdlc data = pure_crc32_iso_hdlc data"
    using bitwise_crc32_bounds [of CRC32_ISO_HDLC_POLYNOMIAL data]
    by (simp add: accelerated_crc32_iso_hdlc_def pure_crc32_iso_hdlc_def zlib_crc32_def and_UINT32_MAX
        CRC32_ISO_HDLC_TABLE_def pure_reflected_crc32_bitwise)
  with CRC32_ISO_HDLC show ?thesis
    by (simp add: compute_checksum_value_def compute_checksum_fallback_def)
qed (simp_all add: compute_checksum_value_def compute_checksum_fallback_def
      pure_adler32_zlib accelerated_adler32_eq)

text \<open>
  Property C40. The slicing-by-four CRC-32C of the host is the bit-serial reflected CRC
  with the Castagnoli polynomial, for inputs of every length.
\<close>

theorem pure_crc32c_bitwise: "pure_crc32c data = bitwise_crc32 0x82F63B78 data"
  by (simp add: pure_crc32c_def CRC32C_TABLE_def CRC32C_POLYNOMIAL_def pure_reflected_crc32_bitwise)

text \<open>Every checksum the host computes fits the unsigned 32-bit frame trailer.\<close>

lemma checksum_value_uint32:
  assumes "compute_checksum_value data algorithm = Some v"
  shows "0 \<le> v \<and> v < 2 ^ 32"
  using assms zlib_adler32_bounds [of data] bitwise_crc32_bounds [of CRC32_ISO_HDLC_POLYNOMIAL data]
    bitwise_crc32_bounds [of "0x82F63B78" data]
  by (cases algorithm)
     (auto simp: compute_checksum_value_def accelerated_adler32_eq accelerated_crc32_iso_hdlc_def
        zlib_crc32_def and_UINT32_MAX pure_crc32c_def CRC32C_TABLE_def CRC32C_POLYNOMIAL_def
        pure_reflected_crc32_bitwise CRC32_ISO_HDLC_POLYNOMIAL_def)

lemma checksum_value_Adler: "compute_checksum_value data ADLER32 = Some (zlib_adler32 data 1)"
  by (simp add: compute_checksum_value_def accelerated_adler32_eq)

lemma rfc1950_fst: "fst (rfc1950_sums data a b) mod 65521 = (a + sum_list (map uint data)) mod 65521"
  by (induction data arbitrary: a b) (simp_all add: Let_def mod_simps add.assoc)

lemma adler32_single_byte:
  assumes "b \<noteq> c"
  shows "compute_checksum_value (xs @ b # ys) ADLER32 \<noteq> compute_checksum_value (xs @ c # ys) ADLER32"
proof
  assume eq: "compute_checksum_value (xs @ b # ys) ADLER32 = compute_checksum_value (xs @ c # ys) ADLER32"
  have low: "zlib_adler32 d 1 mod 65536 mod 65521 = (1 + sum_list (map uint d)) mod 65521" for d
  proof -
    obtain s t where st: "rfc1950_sums d 1 0 = (s, t)" by force
    have "0 \<le> s \<and> s < 65521" using rfc1950_sums_bounds [OF _ _ _ _ st] by simp
    then show ?thesis using st rfc1950_fst [of d 1 0] by (simp add: zlib_adler32_def)
  qed
  let ?r = "1 + sum_list (map uint xs) + sum_list (map uint ys)"
  have "(?r + uint b) mod 65521 = (?r + uint c) mod 65521"
    using eq low [of "xs @ b # ys"] low [of "xs @ c # ys"]
    by (simp add: checksum_value_Adler algebra_simps)
  then have "uint b mod 65521 = uint c mod 65521" by (simp add: mod_eq_dvd_iff)
  moreover have "uint b < 65521" "uint c < 65521"
    by (auto intro: less_trans [OF byte_uint_bounds(2)])
  ultimately have "uint b = uint c" by simp
  with assms show False by (simp add: word_uint_eq_iff)
qed

end
