(* ===== verification/Incremental.thy ===== *)
theory Incremental
  imports DAQ_Prelude
begin

text \<open>
  The version-neutral bounded scanner of \<^verbatim>\<open>_incremental.py\<close>
  (\<^verbatim>\<open>BoundedIncrementalParser\<close>). The constructor arguments are the record
  \<open>parser_config\<close>; the mutable attributes are the record \<open>parser_state\<close>. The
  callbacks are fields of the configuration, so every protocol version and the device
  simulator instantiate the same definitions. What a callback must satisfy is the
  locale \<open>framing\<close>; its lemmas are proved once and reach each instance through an
  interpretation.
\<close>

section \<open>Configuration and state\<close>

text \<open>
  \<open>validation_error\<close> and \<open>checksum_error\<close> stand for \<^verbatim>\<open>isinstance\<close> tests on the
  raised exception (the second class is a subclass of the first in every instance).
\<close>

record ('h, 'f, 'e) parser_config =
  magic_bytes :: bytes
  header_size :: nat
  max_frame_bytes :: nat
  decode_header :: "bytes \<Rightarrow> nat \<Rightarrow> 'e + 'h"
  decode_frame :: "bytes \<Rightarrow> nat \<Rightarrow> 'h \<Rightarrow> 'e + 'f"
  header_total_length :: "'h \<Rightarrow> nat"
  validation_error :: "'e \<Rightarrow> bool"
  checksum_error :: "'e \<Rightarrow> bool"

record 'h parser_state =
  parser_buffer :: bytes
  scan_start :: nat
  pending_header :: "'h option"
  resynchronizing :: bool
  bytes_received :: nat
  frames_decoded :: nat
  corruption_events :: nat
  header_errors :: nat
  checksum_errors :: nat
  payload_errors :: nat
  resynchronizations :: nat
  bytes_discarded :: nat
  high_water_mark :: nat

text \<open>The exceptions that leave the parser: a constructor \<^verbatim>\<open>ValueError\<close>, the
  \<^verbatim>\<open>RuntimeError\<close> of \<^verbatim>\<open>feed\<close>, and a callback error that is not a validation error.\<close>

datatype 'e parser_error = ConfigError | NoBoundedProgress | CallbackError 'e

definition max_buffered_bytes :: "('h, 'f, 'e) parser_config \<Rightarrow> nat" where
  "max_buffered_bytes cfg = max_frame_bytes cfg + length (magic_bytes cfg) - 1"

definition empty_parser_state :: "'h parser_state" where
  "empty_parser_state = \<lparr>parser_buffer = [], scan_start = 0, pending_header = None,
     resynchronizing = False, bytes_received = 0, frames_decoded = 0, corruption_events = 0,
     header_errors = 0, checksum_errors = 0, payload_errors = 0, resynchronizations = 0,
     bytes_discarded = 0, high_water_mark = 0\<rparr>"

definition parser_init :: "('h, 'f, 'e) parser_config \<Rightarrow> 'e parser_error + 'h parser_state" where
  "parser_init cfg =
     require (magic_bytes cfg \<noteq> [] \<and> length (magic_bytes cfg) \<le> header_size cfg) ConfigError (
     require (header_size cfg \<le> max_frame_bytes cfg) ConfigError (
     Inr empty_parser_state))"

definition buffered_bytes :: "'h parser_state \<Rightarrow> nat" where
  "buffered_bytes s = length (parser_buffer s) - scan_start s"

text \<open>The public counter snapshot (\<^verbatim>\<open>counters\<close>).\<close>

record ParserCounters =
  c_bytes_received :: nat
  c_frames_decoded :: nat
  c_corruption_events :: nat
  c_header_errors :: nat
  c_checksum_errors :: nat
  c_payload_errors :: nat
  c_resynchronizations :: nat
  c_bytes_discarded :: nat
  c_buffered_bytes :: nat
  c_high_water_mark :: nat

definition parser_counters :: "'h parser_state \<Rightarrow> ParserCounters" where
  "parser_counters s = \<lparr>c_bytes_received = bytes_received s, c_frames_decoded = frames_decoded s,
     c_corruption_events = corruption_events s, c_header_errors = header_errors s,
     c_checksum_errors = checksum_errors s, c_payload_errors = payload_errors s,
     c_resynchronizations = resynchronizations s, c_bytes_discarded = bytes_discarded s,
     c_buffered_bytes = buffered_bytes s, c_high_water_mark = high_water_mark s\<rparr>"

definition reset_session :: "'h parser_state \<Rightarrow> 'h parser_state" where
  "reset_session s = s\<lparr>parser_buffer := [], scan_start := 0, pending_header := None,
     resynchronizing := False\<rparr>"

definition reset :: "'h parser_state \<Rightarrow> 'h parser_state" where
  "reset s = (reset_session s)\<lparr>bytes_received := 0, frames_decoded := 0, corruption_events := 0,
     header_errors := 0, checksum_errors := 0, payload_errors := 0, resynchronizations := 0,
     bytes_discarded := 0, high_water_mark := 0\<rparr>"

section \<open>The scanner\<close>

text \<open>\<^verbatim>\<open>data.find(magic)\<close>: the least position where \<open>magic\<close> occurs.\<close>

fun find_sub :: "'a list \<Rightarrow> 'a list \<Rightarrow> nat option" where
  "find_sub m [] = (if m = [] then Some 0 else None)"
| "find_sub m (x # xs) =
     (if take (length m) (x # xs) = m then Some 0 else map_option Suc (find_sub m xs))"

text \<open>\<^verbatim>\<open>buffer.find(magic, start)\<close>, with \<open>None\<close> for \<^verbatim>\<open>-1\<close>.\<close>

definition find_from :: "bytes \<Rightarrow> bytes \<Rightarrow> nat \<Rightarrow> nat option" where
  "find_from data m start = map_option (\<lambda>i. start + i) (find_sub m (drop start data))"

text \<open>\<^verbatim>\<open>data.endswith(suffix)\<close>.\<close>

definition ends_with :: "'a list \<Rightarrow> 'a list \<Rightarrow> bool" where
  "ends_with data suffix \<longleftrightarrow> length suffix \<le> length data \<and> drop (length data - length suffix) data = suffix"

text \<open>The countdown \<^verbatim>\<open>for length in range(maximum, 0, -1)\<close>.\<close>

fun suffix_search :: "bytes \<Rightarrow> bytes \<Rightarrow> nat \<Rightarrow> nat" where
  "suffix_search data m 0 = 0"
| "suffix_search data m (Suc n) = (if ends_with data (take (Suc n) m) then Suc n else suffix_search data m n)"

definition partial_magic_suffix_length :: "bytes \<Rightarrow> bytes \<Rightarrow> nat \<Rightarrow> nat" where
  "partial_magic_suffix_length data m start =
     suffix_search (drop start data) m (min (length data - start) (length m - 1))"

definition discard :: "nat \<Rightarrow> 'h parser_state \<Rightarrow> 'h parser_state" where
  "discard count s =
     (if count = 0 then s
      else (let s1 = s\<lparr>pending_header := None\<rparr>;
                s2 = (if resynchronizing s1 then s1
                      else s1\<lparr>resynchronizing := True, resynchronizations := resynchronizations s1 + 1\<rparr>)
            in s2\<lparr>scan_start := scan_start s2 + count, bytes_discarded := bytes_discarded s2 + count\<rparr>))"

datatype corruption = HeaderCorruption | ChecksumCorruption | PayloadCorruption

definition record_corruption :: "corruption \<Rightarrow> 'h parser_state \<Rightarrow> 'h parser_state" where
  "record_corruption category s =
     (let s1 = s\<lparr>corruption_events := corruption_events s + 1\<rparr> in
      case category of
        HeaderCorruption \<Rightarrow> s1\<lparr>header_errors := header_errors s1 + 1\<rparr>
      | ChecksumCorruption \<Rightarrow> s1\<lparr>checksum_errors := checksum_errors s1 + 1\<rparr>
      | PayloadCorruption \<Rightarrow> s1\<lparr>payload_errors := payload_errors s1 + 1\<rparr>)"

definition compact :: "'h parser_state \<Rightarrow> 'h parser_state" where
  "compact s = (if scan_start s \<noteq> 0
     then s\<lparr>parser_buffer := drop (scan_start s) (parser_buffer s), scan_start := 0\<rparr> else s)"

text \<open>One pass of the \<^verbatim>\<open>while True\<close> body: leave the loop, go on, or go on with a frame.\<close>

datatype ('s, 'f) drain_step = Break 's | Continue 's | Yield 's 'f

text \<open>The part of the body after a header is known.\<close>

definition drain_with_header ::
  "('h, 'f, 'e) parser_config \<Rightarrow> 'h parser_state \<Rightarrow> 'h \<Rightarrow> 'e parser_error + ('h parser_state, 'f) drain_step" where
  "drain_with_header cfg s header =
     (if buffered_bytes s < header_total_length cfg header then Inr (Break s)
      else case decode_frame cfg (parser_buffer s) (scan_start s) header of
        Inl e \<Rightarrow>
          if checksum_error cfg e then Inr (Continue (discard 1 (record_corruption ChecksumCorruption s)))
          else if validation_error cfg e then Inr (Continue (discard 1 (record_corruption PayloadCorruption s)))
          else Inl (CallbackError e)
      | Inr frame \<Rightarrow> Inr (Yield (s\<lparr>pending_header := None,
            scan_start := scan_start s + header_total_length cfg header,
            frames_decoded := frames_decoded s + 1, resynchronizing := False\<rparr>) frame))"

definition drain_body ::
  "('h, 'f, 'e) parser_config \<Rightarrow> 'h parser_state \<Rightarrow> 'e parser_error + ('h parser_state, 'f) drain_step" where
  "drain_body cfg s =
     (case pending_header s of
        Some header \<Rightarrow> drain_with_header cfg s header
      | None \<Rightarrow>
        (case find_from (parser_buffer s) (magic_bytes cfg) (scan_start s) of
           None \<Rightarrow>
             let retained = partial_magic_suffix_length (parser_buffer s) (magic_bytes cfg) (scan_start s)
             in Inr (Break (discard (buffered_bytes s - retained) s))
         | Some magic_at \<Rightarrow>
             let s1 = discard (magic_at - scan_start s) s in
             if buffered_bytes s1 < header_size cfg then Inr (Break s1)
             else case decode_header cfg (parser_buffer s1) (scan_start s1) of
               Inl e \<Rightarrow>
                 if validation_error cfg e
                 then Inr (Continue (discard 1 (record_corruption HeaderCorruption s1)))
                 else Inl (CallbackError e)
             | Inr header \<Rightarrow> drain_with_header cfg (s1\<lparr>pending_header := Some header\<rparr>) header))"

text \<open>
  The \<^verbatim>\<open>while True\<close> loop. A header callback that accepts a zero total length would make
  the source loop forever, so the loop is partial: \<open>None\<close> means that it does not return.
\<close>

partial_function (option) drain_loop ::
  "('h, 'f, 'e) parser_config \<Rightarrow> 'h parser_state \<Rightarrow> 'f list \<Rightarrow> ('e parser_error + 'h parser_state \<times> 'f list) option" where
  "drain_loop cfg s frames =
     (case drain_body cfg s of
        Inl e \<Rightarrow> Some (Inl e)
      | Inr step \<Rightarrow>
         (case step of
            Break s1 \<Rightarrow> Some (Inr (s1, frames))
          | Continue s1 \<Rightarrow> drain_loop cfg s1 frames
          | Yield s1 frame \<Rightarrow> drain_loop cfg s1 (frames @ [frame])))"

definition drain ::
  "('h, 'f, 'e) parser_config \<Rightarrow> 'h parser_state \<Rightarrow> ('e parser_error + 'h parser_state \<times> 'f list) option" where
  "drain cfg s = map_option (map_sum id (\<lambda>(s1, frames). (compact s1, frames))) (drain_loop cfg s [])"

text \<open>\<^verbatim>\<open>self._buffer.extend(...)\<close>\<close>

definition extend_buffer :: "bytes \<Rightarrow> 'h parser_state \<Rightarrow> 'h parser_state" where
  "extend_buffer extra s = s\<lparr>parser_buffer := parser_buffer s @ extra\<rparr>"

text \<open>
  The \<^verbatim>\<open>while position < len(incoming)\<close> loop; \<open>rest\<close> is \<^verbatim>\<open>incoming[position:]\<close>.
  Each pass that does not raise takes at least one byte.
\<close>

function feed_loop ::
  "('h, 'f, 'e) parser_config \<Rightarrow> 'h parser_state \<Rightarrow> bytes \<Rightarrow> 'f list \<Rightarrow> ('e parser_error + 'h parser_state \<times> 'f list) option" where
  "feed_loop cfg s rest frames =
     (case drain cfg s of
        None \<Rightarrow> None
      | Some (Inl e) \<Rightarrow> Some (Inl e)
      | Some (Inr (s1, extra)) \<Rightarrow>
          if rest = [] then Some (Inr (s1, frames @ extra))
          else if max_buffered_bytes cfg \<le> buffered_bytes s1 then Some (Inl NoBoundedProgress)
          else (let n = min (max_buffered_bytes cfg - buffered_bytes s1) (length rest);
                    s2 = extend_buffer (take n rest) s1;
                    s3 = s2\<lparr>high_water_mark := max (high_water_mark s2) (buffered_bytes s2)\<rparr>
                in feed_loop cfg s3 (drop n rest) (frames @ extra)))"
  by pat_completeness auto
termination
  by (relation "measure (\<lambda>(cfg, s, rest, frames). length rest)") auto

declare feed_loop.simps [simp del]

definition feed ::
  "('h, 'f, 'e) parser_config \<Rightarrow> 'h parser_state \<Rightarrow> bytes \<Rightarrow> ('e parser_error + 'h parser_state \<times> 'f list) option" where
  "feed cfg s chunk = feed_loop cfg (s\<lparr>bytes_received := bytes_received s + length chunk\<rparr>) chunk []"

text \<open>A sequence of reads, as the transport delivers them.\<close>

fun feed_all ::
  "('h, 'f, 'e) parser_config \<Rightarrow> 'h parser_state \<Rightarrow> bytes list \<Rightarrow> ('e parser_error + 'h parser_state \<times> 'f list) option" where
  "feed_all cfg s [] = Some (Inr (s, []))"
| "feed_all cfg s (c # cs) =
     (case feed cfg s c of
        Some (Inr (s1, fs)) \<Rightarrow>
          (case feed_all cfg s1 cs of
             Some (Inr (s2, gs)) \<Rightarrow> Some (Inr (s2, fs @ gs))
           | other \<Rightarrow> other)
      | other \<Rightarrow> other)"

section \<open>Searching\<close>

lemma find_sub_None: "m \<noteq> [] \<Longrightarrow> find_sub m xs = None \<longleftrightarrow> (\<forall>j. take (length m) (drop j xs) \<noteq> m)"
proof (induction xs)
  case (Cons x xs)
  have "(\<forall>j. P j) \<longleftrightarrow> P 0 \<and> (\<forall>j. P (Suc j))" for P :: "nat \<Rightarrow> bool"
    by (metis not0_implies_Suc)
  from this [of "\<lambda>j. take (length m) (drop j (x # xs)) \<noteq> m"] Cons show ?case by simp
qed simp

lemma find_sub_Some:
  assumes "m \<noteq> []" "find_sub m xs = Some i"
  shows "take (length m) (drop i xs) = m" and "i + length m \<le> length xs"
    and "\<And>j. j < i \<Longrightarrow> take (length m) (drop j xs) \<noteq> m"
proof -
  have "take (length m) (drop i xs) = m \<and> i + length m \<le> length xs \<and>
      (\<forall>j<i. take (length m) (drop j xs) \<noteq> m)"
    using assms(2)
  proof (induction xs arbitrary: i)
    case (Cons x xs)
    show ?case
    proof (cases "take (length m) (x # xs) = m")
      case True
      then have "length m \<le> length (x # xs)" by (metis length_take min.cobounded1)
      with True Cons.prems show ?thesis by simp
    next
      case False
      with Cons.prems obtain k where k: "find_sub m xs = Some k" "i = Suc k" by auto
      with Cons.IH [OF k(1)] False show ?thesis by (auto simp: less_Suc_eq_0_disj)
    qed
  qed (use assms(1) in simp)
  then show "take (length m) (drop i xs) = m" and "i + length m \<le> length xs"
    and "\<And>j. j < i \<Longrightarrow> take (length m) (drop j xs) \<noteq> m" by auto
qed

lemma find_sub_skip:
  "(\<And>j. j < k \<Longrightarrow> take (length m) (drop j xs) \<noteq> m) \<Longrightarrow> k \<le> length xs \<Longrightarrow>
   find_sub m xs = map_option (\<lambda>i. k + i) (find_sub m (drop k xs))"
proof (induction k arbitrary: xs)
  case 0
  then show ?case by (simp add: option.map_ident)
next
  case (Suc k)
  from Suc.prems(2) obtain y ys where xs: "xs = y # ys" by (cases xs) auto
  have "take (length m) xs \<noteq> m" using Suc.prems(1) [of 0] by simp
  moreover have "find_sub m ys = map_option (\<lambda>i. k + i) (find_sub m (drop k ys))"
    by (rule Suc.IH) (use Suc.prems xs in \<open>force+\<close>)
  ultimately show ?case by (simp add: xs option.map_comp comp_def)
qed

lemma find_sub_at_0: "m \<noteq> [] \<Longrightarrow> take (length m) xs = m \<Longrightarrow> find_sub m xs = Some 0"
  by (cases xs) auto

lemma find_sub_append:
  assumes "m \<noteq> []" "find_sub m xs = Some i"
  shows "find_sub m (xs @ ys) = Some i"
proof -
  note f = find_sub_Some [OF assms]
  have eq: "take (length m) (drop j (xs @ ys)) = take (length m) (drop j xs)" if "j \<le> i" for j
    using that f(2) by simp
  have "find_sub m (xs @ ys) = map_option (\<lambda>k. i + k) (find_sub m (drop i (xs @ ys)))"
    by (rule find_sub_skip) (use f eq in auto)
  moreover have "find_sub m (drop i (xs @ ys)) = Some 0"
    by (rule find_sub_at_0) (use assms(1) f(1) eq [of i] in auto)
  ultimately show ?thesis by simp
qed

lemma ends_with_take_length: "ends_with d (take L m) \<Longrightarrow> L \<le> length m \<Longrightarrow> L \<le> length d"
  by (auto simp: ends_with_def)

lemma suffix_search_le: "suffix_search d m n \<le> n"
  by (induction n) auto

lemma suffix_search_ends: "ends_with d (take (suffix_search d m n) m)"
  by (induction n) (auto simp: ends_with_def)

lemma suffix_search_maximal: "suffix_search d m n < L \<Longrightarrow> L \<le> n \<Longrightarrow> \<not> ends_with d (take L m)"
  by (induction n) (auto simp: le_Suc_eq split: if_splits)

lemma suffix_search_cong:
  "(\<And>L. 0 < L \<Longrightarrow> L \<le> n \<Longrightarrow> ends_with d (take L m) = ends_with d' (take L m)) \<Longrightarrow>
   suffix_search d m n = suffix_search d' m n"
  by (induction n) auto

lemma suffix_search_min:
  assumes "n \<le> length m"
  shows "suffix_search d m (min (length d) n) = suffix_search d m n"
  using assms
proof (induction n)
  case (Suc n)
  show ?case
  proof (cases "Suc n \<le> length d")
    case False
    then have "\<not> ends_with d (take (Suc n) m)" using Suc.prems by (auto simp: ends_with_def)
    moreover have "min (length d) (Suc n) = min (length d) n" using False by simp
    ultimately show ?thesis using Suc by simp
  qed (simp add: min_absorb2)
qed simp

text \<open>
  Where no magic was found, the retained suffix is all that a later chunk can complete:
  an occurrence in the extended data starts inside the retained suffix.
\<close>

lemma retained_suffix_enough:
  assumes "m \<noteq> []" "find_sub m u = None"
    and r: "r = suffix_search u m (length m - 1)"
    and L: "ends_with (u @ x) (take L m)" "L \<le> length m" "length x \<le> L" "L - length x < length m"
  shows "L \<le> r + length x"
proof (rule ccontr)
  assume n: "\<not> L \<le> r + length x"
  have "drop (length u + length x - L) (u @ x) = take L m" "L \<le> length u + length x"
    using L(1,2) by (auto simp: ends_with_def)
  then have "take (L - length x) (drop (length u + length x - L) (u @ x)) = take (L - length x) m"
    by (simp add: min_absorb1)
  then have "drop (length u - (L - length x)) u = take (L - length x) m"
    using L(3) \<open>L \<le> length u + length x\<close> by (simp add: diff_diff_right)
  then have "ends_with u (take (L - length x) m)"
    using L \<open>L \<le> length u + length x\<close> by (auto simp: ends_with_def)
  moreover have "r < L - length x" "L - length x \<le> length m - 1" using n L(4) by auto
  ultimately show False using suffix_search_maximal r by blast
qed

lemma no_early_occurrence:
  assumes "m \<noteq> []" "find_sub m u = None" and r: "r = suffix_search u m (length m - 1)"
    and j: "j < length u - r"
  shows "take (length m) (drop j (u @ x)) \<noteq> m"
proof
  assume occ: "take (length m) (drop j (u @ x)) = m"
  show False
  proof (cases "j + length m \<le> length u")
    case True
    then have "take (length m) (drop j u) = m" using occ by simp
    then show False using assms(1,2) find_sub_None by blast
  next
    case False
    define L where "L = length u - j"
    have L: "L < length m" "r < L" using False j by (auto simp: L_def)
    have "take L (drop j (u @ x)) = take L m"
      using occ L by (metis less_imp_le min_absorb1 take_take)
    then have "drop j u = take L m" using j by (simp add: L_def)
    then have "ends_with u (take L m)" using L j by (auto simp: ends_with_def L_def)
    moreover have "L \<le> length m - 1" using L(1) by linarith
    ultimately show False using suffix_search_maximal L(2) r by blast
  qed
qed

lemma retained_suffix_stable:
  assumes "m \<noteq> []" "find_sub m u = None" and r: "r = suffix_search u m (length m - 1)"
  shows "suffix_search (u @ x) m (length m - 1) = suffix_search (drop (length u - r) u @ x) m (length m - 1)"
proof (rule suffix_search_cong)
  fix L assume L: "0 < L" "L \<le> length m - 1"
  have ru: "r \<le> length u"
  proof (rule ends_with_take_length)
    show "ends_with u (take r m)" using suffix_search_ends r by blast
    show "r \<le> length m" using suffix_search_le [of u m "length m - 1"] r by simp
  qed
  have "L \<le> r + length x" if "ends_with (u @ x) (take L m)"
  proof (cases "length x \<le> L")
    case True
    show ?thesis by (rule retained_suffix_enough [OF assms that]) (use L True in auto)
  qed simp
  moreover have "drop (length u + length x - L) (u @ x) = drop (r + length x - L) (drop (length u - r) u @ x)"
    if "L \<le> r + length x"
  proof -
    have "drop (length u - r) u @ x = drop (length u - r) (u @ x)" by simp
    moreover have "r + length x - L + (length u - r) = length u + length x - L" using that ru by simp
    ultimately show ?thesis by (simp only: drop_drop)
  qed
  ultimately show "ends_with (u @ x) (take L m) = ends_with (drop (length u - r) u @ x) (take L m)"
    using L ru by (auto simp: ends_with_def)
qed

section \<open>Unread bytes, invariant and observation\<close>

text \<open>
  The scanner's behaviour depends on the unread part of the buffer only. \<open>observe\<close>
  forgets what does not influence it: where the unread part starts in the buffer, and
  the two pure statistics \<open>high_water_mark\<close> and \<open>bytes_received\<close>.
\<close>

definition unread :: "'h parser_state \<Rightarrow> bytes" where
  "unread s = drop (scan_start s) (parser_buffer s)"

definition parser_inv :: "('h, 'f, 'e) parser_config \<Rightarrow> 'h parser_state \<Rightarrow> bool" where
  "parser_inv cfg s \<longleftrightarrow> scan_start s \<le> length (parser_buffer s) \<and>
     (case pending_header s of None \<Rightarrow> True
      | Some h \<Rightarrow> header_size cfg \<le> length (unread s) \<and>
                 decode_header cfg (parser_buffer s) (scan_start s) = Inr h) \<and>
     corruption_events s = header_errors s + checksum_errors s + payload_errors s"

definition settled :: "('h, 'f, 'e) parser_config \<Rightarrow> 'h parser_state \<Rightarrow> bool" where
  "settled cfg s \<longleftrightarrow> length (unread s) <
     (case pending_header s of None \<Rightarrow> header_size cfg | Some h \<Rightarrow> header_total_length cfg h)"

definition observe :: "'h parser_state \<Rightarrow> 'h parser_state" where
  "observe s = s\<lparr>parser_buffer := unread s, scan_start := 0, high_water_mark := 0, bytes_received := 0\<rparr>"

lemma observe_eq_iff:
  "observe s = observe t \<longleftrightarrow> unread s = unread t \<and> pending_header s = pending_header t \<and>
     resynchronizing s = resynchronizing t \<and> frames_decoded s = frames_decoded t \<and>
     corruption_events s = corruption_events t \<and> header_errors s = header_errors t \<and>
     checksum_errors s = checksum_errors t \<and> payload_errors s = payload_errors t \<and>
     resynchronizations s = resynchronizations t \<and> bytes_discarded s = bytes_discarded t"
  by (cases s; cases t) (auto simp: observe_def)

lemma buffered_unread: "buffered_bytes s = length (unread s)"
  by (simp add: buffered_bytes_def unread_def)

lemma find_from_unread:
  "find_from (parser_buffer s) m (scan_start s) = map_option (\<lambda>i. scan_start s + i) (find_sub m (unread s))"
  by (simp add: find_from_def unread_def)

lemma partial_unread:
  "m \<noteq> [] \<Longrightarrow> partial_magic_suffix_length (parser_buffer s) m (scan_start s)
     = suffix_search (unread s) m (length m - 1)"
  using suffix_search_min [of "length m - 1" m "unread s"]
  by (simp add: partial_magic_suffix_length_def unread_def)

lemma discard_simps [simp]:
  "unread (discard k s) = drop k (unread s)"
  "parser_buffer (discard k s) = parser_buffer s"
  "scan_start (discard k s) = scan_start s + k"
  "pending_header (discard k s) = (if k = 0 then pending_header s else None)"
  "resynchronizing (discard k s) = (k \<noteq> 0 \<or> resynchronizing s)"
  "resynchronizations (discard k s) = resynchronizations s + of_bool (k \<noteq> 0 \<and> \<not> resynchronizing s)"
  "bytes_discarded (discard k s) = bytes_discarded s + k"
  "frames_decoded (discard k s) = frames_decoded s"
  "corruption_events (discard k s) = corruption_events s"
  "header_errors (discard k s) = header_errors s"
  "checksum_errors (discard k s) = checksum_errors s"
  "payload_errors (discard k s) = payload_errors s"
  "bytes_received (discard k s) = bytes_received s"
  "high_water_mark (discard k s) = high_water_mark s"
  by (simp_all add: discard_def Let_def unread_def add.commute)

lemma record_corruption_simps [simp]:
  "unread (record_corruption c s) = unread s"
  "parser_buffer (record_corruption c s) = parser_buffer s"
  "scan_start (record_corruption c s) = scan_start s"
  "pending_header (record_corruption c s) = pending_header s"
  "resynchronizing (record_corruption c s) = resynchronizing s"
  "resynchronizations (record_corruption c s) = resynchronizations s"
  "bytes_discarded (record_corruption c s) = bytes_discarded s"
  "frames_decoded (record_corruption c s) = frames_decoded s"
  "corruption_events (record_corruption c s) = corruption_events s + 1"
  "header_errors (record_corruption c s) = header_errors s + of_bool (c = HeaderCorruption)"
  "checksum_errors (record_corruption c s) = checksum_errors s + of_bool (c = ChecksumCorruption)"
  "payload_errors (record_corruption c s) = payload_errors s + of_bool (c = PayloadCorruption)"
  "bytes_received (record_corruption c s) = bytes_received s"
  "high_water_mark (record_corruption c s) = high_water_mark s"
  by (cases c; simp add: record_corruption_def Let_def unread_def)+

lemma compact_simps [simp]:
  "unread (compact s) = unread s" "scan_start (compact s) = 0"
  "parser_buffer (compact s) = unread s" "pending_header (compact s) = pending_header s"
  "resynchronizing (compact s) = resynchronizing s" "bytes_received (compact s) = bytes_received s"
  "frames_decoded (compact s) = frames_decoded s" "corruption_events (compact s) = corruption_events s"
  "header_errors (compact s) = header_errors s" "checksum_errors (compact s) = checksum_errors s"
  "payload_errors (compact s) = payload_errors s" "resynchronizations (compact s) = resynchronizations s"
  "bytes_discarded (compact s) = bytes_discarded s" "high_water_mark (compact s) = high_water_mark s"
  by (auto simp: compact_def unread_def)

lemma observe_compact [simp]: "observe (compact s) = observe s"
  by (simp add: observe_eq_iff)

lemma unread_field_updates [simp]:
  "unread (s\<lparr>pending_header := x\<rparr>) = unread s" "unread (s\<lparr>bytes_received := n\<rparr>) = unread s"
  "unread (s\<lparr>high_water_mark := n\<rparr>) = unread s"
  "unread (s\<lparr>frames_decoded := n, resynchronizing := b\<rparr>) = unread s"
  "unread (s\<lparr>pending_header := x, scan_start := k\<rparr>) = drop k (parser_buffer s)"
  by (simp_all add: unread_def)

lemma extend_simps [simp]:
  "parser_buffer (extend_buffer x s) = parser_buffer s @ x" "scan_start (extend_buffer x s) = scan_start s"
  "pending_header (extend_buffer x s) = pending_header s"
  "resynchronizing (extend_buffer x s) = resynchronizing s" "bytes_received (extend_buffer x s) = bytes_received s"
  "frames_decoded (extend_buffer x s) = frames_decoded s" "corruption_events (extend_buffer x s) = corruption_events s"
  "header_errors (extend_buffer x s) = header_errors s" "checksum_errors (extend_buffer x s) = checksum_errors s"
  "payload_errors (extend_buffer x s) = payload_errors s" "resynchronizations (extend_buffer x s) = resynchronizations s"
  "bytes_discarded (extend_buffer x s) = bytes_discarded s" "high_water_mark (extend_buffer x s) = high_water_mark s"
  by (simp_all add: extend_buffer_def)

lemma unread_extend: "scan_start s \<le> length (parser_buffer s) \<Longrightarrow> unread (extend_buffer x s) = unread s @ x"
  by (simp add: unread_def)

lemma extend_extend: "extend_buffer y (extend_buffer x s) = extend_buffer (x @ y) s"
  by (simp add: extend_buffer_def)

section \<open>The loop as a relation\<close>

text \<open>\<open>drains cfg s fs s'\<close>: the loop started in \<open>s\<close> yields \<open>fs\<close> and leaves in \<open>s'\<close>.\<close>

inductive drains :: "('h, 'f, 'e) parser_config \<Rightarrow> 'h parser_state \<Rightarrow> 'f list \<Rightarrow> 'h parser_state \<Rightarrow> bool"
  for cfg where
  stop: "drain_body cfg s = Inr (Break s') \<Longrightarrow> drains cfg s [] s'"
| skip: "drain_body cfg s = Inr (Continue s1) \<Longrightarrow> drains cfg s1 fs s' \<Longrightarrow> drains cfg s fs s'"
| frame: "drain_body cfg s = Inr (Yield s1 f) \<Longrightarrow> drains cfg s1 fs s' \<Longrightarrow> drains cfg s (f # fs) s'"

inductive_cases drains_elim: "drains cfg s fs s'"

lemma drains_loop: "drains cfg s fs s' \<Longrightarrow> drain_loop cfg s acc = Some (Inr (s', acc @ fs))"
  by (induction arbitrary: acc rule: drains.induct) (simp_all add: drain_loop.simps)

lemma drains_drain: "drains cfg s fs s' \<Longrightarrow> drain cfg s = Some (Inr (compact s', fs))"
  using drains_loop [of cfg s fs s' "[]"] by (simp add: drain_def)

lemma drains_deterministic:
  assumes "drains cfg s fs s'" "drains cfg s gs t'"
  shows "fs = gs \<and> s' = t'"
  using drains_loop [OF assms(1), of "[]"] drains_loop [OF assms(2), of "[]"] by simp

lemma drains_same_body:
  assumes "drain_body cfg s = drain_body cfg t" "drains cfg t fs s'"
  shows "drains cfg s fs s'"
  using assms(2)
proof (cases rule: drains.cases)
  case stop
  then show ?thesis using assms(1) by (simp add: drains.stop)
next
  case (skip s1)
  show ?thesis by (rule drains.skip) (use skip assms(1) in simp_all)
next
  case (frame s1 f fs')
  show ?thesis unfolding frame(1) by (rule drains.frame) (use frame assms(1) in simp_all)
qed

text \<open>The two shapes of a pass that starts without a pending header.\<close>

lemma body_found:
  assumes "pending_header s = None" "find_sub (magic_bytes cfg) (unread s) = Some i"
  shows "drain_body cfg s =
     (if length (drop i (unread s)) < header_size cfg then Inr (Break (discard i s))
      else case decode_header cfg (parser_buffer (discard i s)) (scan_start (discard i s)) of
        Inl e \<Rightarrow> if validation_error cfg e
               then Inr (Continue (discard 1 (record_corruption HeaderCorruption (discard i s))))
               else Inl (CallbackError e)
      | Inr h \<Rightarrow> drain_with_header cfg ((discard i s)\<lparr>pending_header := Some h\<rparr>) h)"
  using assms by (simp add: drain_body_def find_from_unread buffered_unread Let_def)

lemma body_not_found:
  assumes "pending_header s = None" "find_sub (magic_bytes cfg) (unread s) = None" "magic_bytes cfg \<noteq> []"
  shows "drain_body cfg s = Inr (Break (discard (length (unread s) -
     suffix_search (unread s) (magic_bytes cfg) (length (magic_bytes cfg) - 1)) s))"
  using assms by (simp add: drain_body_def find_from_unread buffered_unread Let_def partial_unread)

lemma discard_discard: "discard k (discard d s) = discard (d + k) s"
  by (cases s) (auto simp: discard_def Let_def)

lemma discard_0 [simp]: "discard 0 s = s"
  by (simp add: discard_def)

lemma extend_commutes:
  "extend_buffer x (discard k s) = discard k (extend_buffer x s)"
  "extend_buffer x (record_corruption c s) = record_corruption c (extend_buffer x s)"
  "extend_buffer x (s\<lparr>pending_header := p\<rparr>) = (extend_buffer x s)\<lparr>pending_header := p\<rparr>"
  by (cases s; cases c; simp add: discard_def Let_def extend_buffer_def record_corruption_def)+

lemma body_skip:
  assumes "pending_header t = None" "find_sub (magic_bytes cfg) (unread t) = Some (d + k)"
    and "find_sub (magic_bytes cfg) (drop d (unread t)) = Some k"
  shows "drain_body cfg t = drain_body cfg (discard d t)"
proof -
  have p: "pending_header (discard d t) = None" and f: "find_sub (magic_bytes cfg) (unread (discard d t)) = Some k"
    using assms by simp_all
  show ?thesis
    unfolding body_found [OF assms(1,2)] body_found [OF p f] discard_discard discard_simps(1) drop_drop
      add.commute [of k d] ..
qed

text \<open>No pass touches the two pure statistics.\<close>

lemma with_header_statistics:
  "drain_with_header cfg s h = Inr r \<Longrightarrow>
   (case r of Break t \<Rightarrow> bytes_received t = bytes_received s \<and> high_water_mark t = high_water_mark s
    | Continue t \<Rightarrow> bytes_received t = bytes_received s \<and> high_water_mark t = high_water_mark s
    | Yield t f \<Rightarrow> bytes_received t = bytes_received s \<and> high_water_mark t = high_water_mark s)"
  by (auto simp: drain_with_header_def split: if_splits sum.splits)

lemma body_statistics:
  "drain_body cfg s = Inr r \<Longrightarrow>
   (case r of Break t \<Rightarrow> bytes_received t = bytes_received s \<and> high_water_mark t = high_water_mark s
    | Continue t \<Rightarrow> bytes_received t = bytes_received s \<and> high_water_mark t = high_water_mark s
    | Yield t f \<Rightarrow> bytes_received t = bytes_received s \<and> high_water_mark t = high_water_mark s)"
  by (auto simp: drain_body_def Let_def dest!: with_header_statistics
      split: option.splits if_splits sum.splits drain_step.splits)

lemma drains_statistics:
  "drains cfg s fs t \<Longrightarrow> bytes_received t = bytes_received s \<and> high_water_mark t = high_water_mark s"
  by (induction rule: drains.induct) (fastforce dest: body_statistics)+

lemma extend_Nil [simp]: "extend_buffer [] s = s"
  by (simp add: extend_buffer_def)

section \<open>The framing interface\<close>

text \<open>
  \<open>parser_ok cfg s\<close>: a state between two calls of \<^verbatim>\<open>feed\<close>. \<open>valid_wire cfg w f\<close>: the bytes
  \<open>w\<close> are exactly one acceptable frame with value \<open>f\<close>.
\<close>

definition parser_ok :: "('h, 'f, 'e) parser_config \<Rightarrow> 'h parser_state \<Rightarrow> bool" where
  "parser_ok cfg s \<longleftrightarrow> parser_inv cfg s \<and> settled cfg s \<and> scan_start s = 0 \<and>
     high_water_mark s \<le> max_buffered_bytes cfg"

definition valid_wire :: "('h, 'f, 'e) parser_config \<Rightarrow> bytes \<Rightarrow> 'f \<Rightarrow> bool" where
  "valid_wire cfg w f \<longleftrightarrow> take (length (magic_bytes cfg)) w = magic_bytes cfg \<and>
     (\<exists>h. decode_header cfg w 0 = Inr h \<and> header_total_length cfg h = length w \<and>
          header_size cfg \<le> length w \<and> decode_frame cfg w 0 h = Inr f)"

text \<open>\<open>accepted_frame cfg f\<close>: some byte string with a valid header decodes to \<open>f\<close>.\<close>

definition accepted_frame :: "('h, 'f, 'e) parser_config \<Rightarrow> 'f \<Rightarrow> bool" where
  "accepted_frame cfg f \<longleftrightarrow> (\<exists>w h. decode_header cfg w 0 = Inr h \<and> header_total_length cfg h = length w \<and>
     decode_frame cfg w 0 h = Inr f)"

text \<open>
  What the scanner relies on from its callbacks: a header decision reads only the
  \<open>header_size\<close> bytes at the offset, an accepted header announces a length between the
  header and the frame bound, a frame decision reads only the announced bytes, and the
  callbacks raise validation errors only.
\<close>

locale framing =
  fixes cfg :: "('h, 'f, 'e) parser_config" and frame_length :: "'f \<Rightarrow> nat"
  assumes magic_nonempty: "magic_bytes cfg \<noteq> []"
    and magic_fits: "length (magic_bytes cfg) \<le> header_size cfg"
    and header_fits: "header_size cfg \<le> max_frame_bytes cfg"
    and header_local: "header_size cfg \<le> length buf - off \<Longrightarrow>
          decode_header cfg buf off = decode_header cfg (take (header_size cfg) (drop off buf)) 0"
    and header_errors_typed: "header_size cfg \<le> length buf - off \<Longrightarrow>
          decode_header cfg buf off = Inl e \<Longrightarrow> validation_error cfg e"
    and header_bounds: "decode_header cfg buf off = Inr h \<Longrightarrow>
          header_size cfg \<le> header_total_length cfg h \<and> header_total_length cfg h \<le> max_frame_bytes cfg"
    and frame_local: "decode_header cfg buf off = Inr h \<Longrightarrow> header_total_length cfg h \<le> length buf - off \<Longrightarrow>
          decode_frame cfg buf off h = decode_frame cfg (take (header_total_length cfg h) (drop off buf)) 0 h"
    and frame_errors_typed: "decode_header cfg buf off = Inr h \<Longrightarrow> header_total_length cfg h \<le> length buf - off \<Longrightarrow>
          decode_frame cfg buf off h = Inl e \<Longrightarrow> validation_error cfg e"
    and frame_length_announced: "decode_header cfg buf off = Inr h \<Longrightarrow> header_total_length cfg h \<le> length buf - off \<Longrightarrow>
          decode_frame cfg buf off h = Inr f \<Longrightarrow> frame_length f = header_total_length cfg h"
begin

lemma header_size_pos: "0 < header_size cfg"
  using magic_nonempty magic_fits by (metis length_greater_0_conv less_le_trans)

lemma header_unread:
  "header_size cfg \<le> length (unread s) \<Longrightarrow>
   decode_header cfg (parser_buffer s) (scan_start s) = decode_header cfg (take (header_size cfg) (unread s)) 0"
  using header_local [of "parser_buffer s" "scan_start s"] by (simp add: unread_def)

lemma frame_unread:
  "decode_header cfg (parser_buffer s) (scan_start s) = Inr h \<Longrightarrow>
   header_total_length cfg h \<le> length (unread s) \<Longrightarrow>
   decode_frame cfg (parser_buffer s) (scan_start s) h
     = decode_frame cfg (take (header_total_length cfg h) (unread s)) 0 h"
  using frame_local [of "parser_buffer s" "scan_start s"] by (simp add: unread_def)

lemma parser_inv_unread:
  "parser_inv cfg s \<longleftrightarrow> scan_start s \<le> length (parser_buffer s) \<and>
     (case pending_header s of None \<Rightarrow> True
      | Some h \<Rightarrow> header_size cfg \<le> length (unread s) \<and>
                 decode_header cfg (take (header_size cfg) (unread s)) 0 = Inr h) \<and>
     corruption_events s = header_errors s + checksum_errors s + payload_errors s"
  using header_unread [of s] by (auto simp: parser_inv_def split: option.splits)

text \<open>The accepted frame step, as a state update.\<close>

abbreviation "accept h s \<equiv> s\<lparr>pending_header := None, scan_start := scan_start s + header_total_length cfg h,
  frames_decoded := frames_decoded s + 1, resynchronizing := False\<rparr>"

lemma with_header_cases:
  assumes "parser_inv cfg s" "pending_header s = Some h"
  obtains (wait) "drain_with_header cfg s h = Inr (Break s)" "length (unread s) < header_total_length cfg h"
  | (reject) c where "drain_with_header cfg s h = Inr (Continue (discard 1 (record_corruption c s)))"
      "header_total_length cfg h \<le> length (unread s)"
  | (good) f where "drain_with_header cfg s h = Inr (Yield (accept h s) f)"
      "header_total_length cfg h \<le> length (unread s)" "frame_length f = header_total_length cfg h"
proof (cases "length (unread s) < header_total_length cfg h")
  case True
  with wait show ?thesis by (simp add: drain_with_header_def buffered_unread)
next
  case False
  have h: "decode_header cfg (parser_buffer s) (scan_start s) = Inr h"
    using assms by (simp add: parser_inv_def)
  have len: "header_total_length cfg h \<le> length (parser_buffer s) - scan_start s"
    using False by (simp add: unread_def)
  show ?thesis
  proof (cases "decode_frame cfg (parser_buffer s) (scan_start s) h")
    case (Inl e)
    then have "validation_error cfg e" using frame_errors_typed [OF h len] by blast
    with Inl False reject show ?thesis
      by (cases "checksum_error cfg e") (simp_all add: drain_with_header_def buffered_unread)
  next
    case (Inr f)
    then have "frame_length f = header_total_length cfg h" using frame_length_announced [OF h len] by blast
    with Inr False good show ?thesis by (simp add: drain_with_header_def buffered_unread)
  qed
qed

text \<open>
  What one pass of the loop does to a well-formed state: it never raises; leaving the
  loop it is settled; going on it consumed input, and every byte is accounted for.
\<close>

definition pass_ok :: "'h parser_state \<Rightarrow> ('h parser_state, 'f) drain_step \<Rightarrow> bool" where
  "pass_ok s r \<longleftrightarrow>
     (case r of
        Break s' \<Rightarrow> parser_inv cfg s' \<and> settled cfg s' \<and>
          bytes_discarded s' + length (unread s') = bytes_discarded s + length (unread s) \<and>
          frames_decoded s' = frames_decoded s
      | Continue s' \<Rightarrow> parser_inv cfg s' \<and> length (unread s') < length (unread s) \<and>
          bytes_discarded s' + length (unread s') = bytes_discarded s + length (unread s) \<and>
          frames_decoded s' = frames_decoded s
      | Yield s' f \<Rightarrow> parser_inv cfg s' \<and> length (unread s') < length (unread s) \<and>
          bytes_discarded s' + length (unread s') + frame_length f = bytes_discarded s + length (unread s) \<and>
          frames_decoded s' = frames_decoded s + 1)"

lemma parser_inv_discard:
  "parser_inv cfg s \<Longrightarrow> k \<le> length (unread s) \<Longrightarrow> parser_inv cfg (discard k s)"
  by (cases "k = 0") (auto simp: parser_inv_def unread_def split: option.splits)

lemma parser_inv_corrupt:
  "parser_inv cfg s \<Longrightarrow> unread s \<noteq> [] \<Longrightarrow> parser_inv cfg (discard 1 (record_corruption c s))"
  by (cases c) (auto simp: parser_inv_def unread_def)

lemma with_header_pass:
  assumes inv: "parser_inv cfg s" and pend: "pending_header s = Some h"
  shows "\<exists>r. drain_with_header cfg s h = Inr r \<and> pass_ok s r"
proof -
  have "decode_header cfg (parser_buffer s) (scan_start s) = Inr h"
    using inv pend by (simp add: parser_inv_def)
  then have pos: "0 < header_total_length cfg h" using header_bounds header_size_pos by fastforce
  from inv pend show ?thesis
  proof (cases rule: with_header_cases)
    case wait
    then show ?thesis using inv pend by (auto simp: pass_ok_def settled_def)
  next
    case (reject c)
    then have "unread s \<noteq> []" using pos by auto
    then show ?thesis using reject parser_inv_corrupt [OF inv] by (simp add: pass_ok_def)
  next
    case (good f)
    have "drop (scan_start s + header_total_length cfg h) (parser_buffer s)
        = drop (header_total_length cfg h) (unread s)"
      by (simp add: unread_def add.commute)
    moreover have "parser_inv cfg (accept h s)"
      using good(2) inv by (auto simp: parser_inv_def unread_def)
    ultimately show ?thesis using good pos by (simp add: pass_ok_def)
  qed
qed

lemma body_pass:
  assumes inv: "parser_inv cfg s"
  shows "\<exists>r. drain_body cfg s = Inr r \<and> pass_ok s r"
proof (cases "pending_header s")
  case (Some h)
  with with_header_pass [OF inv Some] show ?thesis by (simp add: drain_body_def)
next
  case None
  show ?thesis
  proof (cases "find_sub (magic_bytes cfg) (unread s)")
    case nofind: None
    let ?r = "suffix_search (unread s) (magic_bytes cfg) (length (magic_bytes cfg) - 1)"
    have "?r < length (magic_bytes cfg)"
      using suffix_search_le [of "unread s" "magic_bytes cfg" "length (magic_bytes cfg) - 1"] magic_nonempty
      by (metis diff_less le_less_trans length_greater_0_conv zero_less_one)
    then have "?r < header_size cfg" "?r \<le> length (unread s)"
      using magic_fits ends_with_take_length [OF suffix_search_ends] by fastforce+
    then show ?thesis
      using None nofind parser_inv_discard [OF inv, of "length (unread s) - ?r"]
      by (auto simp: drain_body_def find_from_unread partial_unread [OF magic_nonempty] buffered_unread
          pass_ok_def settled_def)
  next
    case (Some i)
    have i: "i \<le> length (unread s)" using find_sub_Some(2) [OF magic_nonempty Some] by simp
    let ?s1 = "discard i s"
    have inv1: "parser_inv cfg ?s1" by (rule parser_inv_discard [OF inv i])
    have pend1: "pending_header ?s1 = None" using None by simp
    note body = body_found [OF None Some, folded discard_simps(1)]
    show ?thesis
    proof (cases "length (unread ?s1) < header_size cfg")
      case True
      then show ?thesis using body inv1 pend1 i by (simp add: pass_ok_def settled_def)
    next
      case False
      then have room: "header_size cfg \<le> length (parser_buffer ?s1) - scan_start ?s1" by (simp add: unread_def)
      show ?thesis
      proof (cases "decode_header cfg (parser_buffer ?s1) (scan_start ?s1)")
        case (Inl e)
        then have "validation_error cfg e" using header_errors_typed [OF room] by blast
        moreover have ne: "unread ?s1 \<noteq> []" using False header_size_pos by auto
        ultimately show ?thesis
          using body False Inl parser_inv_corrupt [OF inv1 ne] i by (auto simp: pass_ok_def)
      next
        case (Inr h)
        have "parser_inv cfg (?s1\<lparr>pending_header := Some h\<rparr>)"
          using inv1 Inr False by (simp add: parser_inv_def)
        from with_header_pass [OF this] obtain r where
          "drain_with_header cfg (?s1\<lparr>pending_header := Some h\<rparr>) h = Inr r"
          "pass_ok (?s1\<lparr>pending_header := Some h\<rparr>) r" by auto
        then show ?thesis using body False Inr i by (auto simp: pass_ok_def split: drain_step.splits)
      qed
    qed
  qed
qed

text \<open>The loop returns on every well-formed state, settled, with all bytes accounted for.\<close>

lemma drains_total:
  "parser_inv cfg s \<Longrightarrow> \<exists>fs s'. drains cfg s fs s' \<and> parser_inv cfg s' \<and> settled cfg s' \<and>
     bytes_discarded s' + length (unread s') + sum_list (map frame_length fs) = bytes_discarded s + length (unread s) \<and>
     frames_decoded s' = frames_decoded s + length fs"
proof (induction "length (unread s)" arbitrary: s rule: less_induct)
  case less
  from body_pass [OF less.prems] obtain r where r: "drain_body cfg s = Inr r" "pass_ok s r" by blast
  show ?case
  proof (cases r)
    case (Break s')
    then show ?thesis using r by (auto simp: pass_ok_def intro!: exI [of _ "[]"] drains.stop)
  next
    case (Continue s1)
    with r less.hyps [of s1] obtain fs s' where "drains cfg s1 fs s'" "parser_inv cfg s'" "settled cfg s'"
      "bytes_discarded s' + length (unread s') + sum_list (map frame_length fs) = bytes_discarded s1 + length (unread s1)"
      "frames_decoded s' = frames_decoded s1 + length fs" by (auto simp: pass_ok_def)
    then show ?thesis using r Continue by (auto simp: pass_ok_def intro!: exI [of _ fs] drains.skip)
  next
    case (Yield s1 f)
    with r less.hyps [of s1] obtain fs s' where "drains cfg s1 fs s'" "parser_inv cfg s'" "settled cfg s'"
      "bytes_discarded s' + length (unread s') + sum_list (map frame_length fs) = bytes_discarded s1 + length (unread s1)"
      "frames_decoded s' = frames_decoded s1 + length fs" by (auto simp: pass_ok_def)
    then show ?thesis using r Yield by (auto simp: pass_ok_def intro!: exI [of _ "f # fs"] drains.frame)
  qed
qed

text \<open>Every frame the loop yields is an accepted one.\<close>

lemma with_header_accepted:
  assumes "parser_inv cfg s" "pending_header s = Some h" "drain_with_header cfg s h = Inr (Yield t f)"
  shows "accepted_frame cfg f"
proof -
  let ?w = "take (header_total_length cfg h) (unread s)"
  have h: "decode_header cfg (parser_buffer s) (scan_start s) = Inr h" "header_size cfg \<le> length (unread s)"
    using assms(1,2) by (simp_all add: parser_inv_def)
  have len: "header_total_length cfg h \<le> length (unread s)" and f: "decode_frame cfg (parser_buffer s) (scan_start s) h = Inr f"
    using assms(3) by (auto simp: drain_with_header_def buffered_unread split: if_splits sum.splits)
  have "decode_header cfg ?w 0 = Inr h"
  proof -
    have "header_size cfg \<le> header_total_length cfg h" using header_bounds [OF h(1)] by simp
    then have "take (header_size cfg) ?w = take (header_size cfg) (unread s)" "header_size cfg \<le> length ?w - 0"
      using len by (simp_all add: min_absorb1)
    then show ?thesis using header_unread [OF h(2)] h(1) header_local [of ?w 0] by simp
  qed
  moreover have "decode_frame cfg ?w 0 h = Inr f" using frame_unread [OF h(1) len] f by simp
  moreover have "header_total_length cfg h = length ?w" using len by simp
  ultimately show ?thesis unfolding accepted_frame_def by blast
qed

lemma body_accepted:
  assumes inv: "parser_inv cfg s" and y: "drain_body cfg s = Inr (Yield t f)"
  shows "accepted_frame cfg f"
proof (cases "pending_header s")
  case (Some h)
  then show ?thesis using with_header_accepted [OF inv Some] y by (simp add: drain_body_def)
next
  case None
  show ?thesis
  proof (cases "find_sub (magic_bytes cfg) (unread s)")
    case nofind: None
    then show ?thesis using y body_not_found [OF None nofind magic_nonempty] by simp
  next
    case (Some i)
    let ?s1 = "discard i s"
    have i: "i \<le> length (unread s)" using find_sub_Some(2) [OF magic_nonempty Some] by simp
    from y body_found [OF None Some] obtain h where
      h: "\<not> length (unread ?s1) < header_size cfg" "decode_header cfg (parser_buffer ?s1) (scan_start ?s1) = Inr h"
        "drain_with_header cfg (?s1\<lparr>pending_header := Some h\<rparr>) h = Inr (Yield t f)"
      by (auto split: if_splits sum.splits)
    have "parser_inv cfg (?s1\<lparr>pending_header := Some h\<rparr>)"
      using parser_inv_discard [OF inv i] h(1,2) by (simp add: parser_inv_def)
    from with_header_accepted [OF this _ h(3)] show ?thesis by simp
  qed
qed

lemma drains_accepted: "drains cfg s fs s' \<Longrightarrow> parser_inv cfg s \<Longrightarrow> f \<in> set fs \<Longrightarrow> accepted_frame cfg f"
proof (induction rule: drains.induct)
  case (skip s s1 fs s')
  then show ?case using body_pass [OF skip.prems(1)] by (auto simp: pass_ok_def)
next
  case (frame s s1 g fs s')
  then show ?case using body_pass [OF frame.prems(1)] body_accepted [OF frame.prems(1) frame.hyps(1)]
    by (auto simp: pass_ok_def)
qed simp

text \<open>
  The pass depends on the observation only: equal observations give the same kind of
  pass, the same frame and equal observations after it.
\<close>

definition same_pass ::
  "('h parser_state, 'f) drain_step \<Rightarrow> ('h parser_state, 'f) drain_step \<Rightarrow> bool" where
  "same_pass r r' \<longleftrightarrow> map_drain_step observe id r = map_drain_step observe id r'"

lemma with_header_same:
  assumes "parser_inv cfg s" "pending_header s = Some h" "parser_inv cfg t" "pending_header t = Some h"
    and eq: "observe s = observe t"
    and "drain_with_header cfg s h = Inr r" "drain_with_header cfg t h = Inr r'"
  shows "same_pass r r'"
proof -
  have hs: "decode_header cfg (parser_buffer s) (scan_start s) = Inr h"
    and ht: "decode_header cfg (parser_buffer t) (scan_start t) = Inr h"
    using assms(1-4) by (simp_all add: parser_inv_def)
  have u: "unread s = unread t" using eq by (simp add: observe_eq_iff)
  show ?thesis
  proof (cases "length (unread s) < header_total_length cfg h")
    case True
    then show ?thesis using assms u by (auto simp: drain_with_header_def buffered_unread same_pass_def)
  next
    case False
    then have fr: "decode_frame cfg (parser_buffer s) (scan_start s) h
        = decode_frame cfg (parser_buffer t) (scan_start t) h"
      using frame_unread [OF hs] frame_unread [OF ht] u by simp
    have dr: "drop (scan_start x + k) (parser_buffer x) = drop k (unread x)"
      for k and x :: "'h parser_state"
      by (simp add: unread_def add.commute)
    show ?thesis
      using assms(5-) False u fr
      by (auto simp: drain_with_header_def buffered_unread same_pass_def observe_eq_iff dr
          split: sum.splits if_splits)
  qed
qed

lemma body_same:
  assumes inv: "parser_inv cfg s" "parser_inv cfg t" and eq: "observe s = observe t"
    and r: "drain_body cfg s = Inr r" "drain_body cfg t = Inr r'"
  shows "same_pass r r'"
proof -
  have u: "unread s = unread t" and p: "pending_header s = pending_header t"
    using eq by (simp_all add: observe_eq_iff)
  show ?thesis
  proof (cases "pending_header s")
    case (Some h)
    then show ?thesis using with_header_same [OF inv(1) _ inv(2) _ eq, of h r r'] r p by (simp add: drain_body_def)
  next
    case None
    show ?thesis
    proof (cases "find_sub (magic_bytes cfg) (unread s)")
      case nofind: None
      then show ?thesis using None r p u eq body_not_found [OF _ _ magic_nonempty, of s]
          body_not_found [OF _ _ magic_nonempty, of t]
        by (auto simp: same_pass_def observe_eq_iff)
    next
      case (Some i)
      have i: "i \<le> length (unread s)" using find_sub_Some(2) [OF magic_nonempty Some] by simp
      have obs: "observe (discard i s) = observe (discard i t)" using eq by (simp add: observe_eq_iff)
      have hdr: "decode_header cfg (parser_buffer (discard i s)) (scan_start (discard i s))
          = decode_header cfg (parser_buffer (discard i t)) (scan_start (discard i t))"
        if "header_size cfg \<le> length (drop i (unread s))"
        using header_unread [of "discard i s"] header_unread [of "discard i t"] that u by simp
      have bs: "drain_body cfg s = Inr r" and bt: "drain_body cfg t = Inr r'" by fact+
      note bs = bs [unfolded body_found [OF None Some]]
      have pt: "pending_header t = None" "find_sub (magic_bytes cfg) (unread t) = Some i"
        using None Some p u by simp_all
      note bt = bt [unfolded body_found [OF pt]]
      show ?thesis
      proof (cases "length (drop i (unread s)) < header_size cfg")
        case True
        then show ?thesis using bs bt u obs by (auto simp: same_pass_def)
      next
        case room: False
        show ?thesis
        proof (cases "decode_header cfg (parser_buffer (discard i s)) (scan_start (discard i s))")
          case (Inl e)
          have room': "header_size cfg \<le> length (drop i (unread s))" using room by simp
          note Inl_t = Inl [unfolded hdr [OF room']]
          have "r = Continue (discard 1 (record_corruption HeaderCorruption (discard i s)))"
            using bs Inl room by (simp del: discard_simps split: if_splits)
          moreover have "r' = Continue (discard 1 (record_corruption HeaderCorruption (discard i t)))"
            using bt Inl_t room u by (simp del: discard_simps split: if_splits)
          moreover have "observe (discard 1 (record_corruption HeaderCorruption (discard i s)))
              = observe (discard 1 (record_corruption HeaderCorruption (discard i t)))"
            using obs by (auto simp: observe_eq_iff)
          ultimately show ?thesis by (simp add: same_pass_def)
        next
          case (Inr h)
          let ?s = "(discard i s)\<lparr>pending_header := Some h\<rparr>" and ?t = "(discard i t)\<lparr>pending_header := Some h\<rparr>"
          have room': "header_size cfg \<le> length (drop i (unread s))" using room by simp
          note Inr_t = Inr [unfolded hdr [OF room']]
          have "parser_inv cfg ?s"
            using parser_inv_discard [OF inv(1) i] Inr room' by (simp add: parser_inv_def)
          moreover have "parser_inv cfg ?t"
            using parser_inv_discard [OF inv(2), of i] i u Inr_t room' by (simp add: parser_inv_def)
          moreover have "observe ?s = observe ?t" using obs by (simp add: observe_eq_iff)
          moreover have "drain_with_header cfg ?s h = Inr r"
            using bs Inr room by (simp del: discard_simps)
          moreover have "drain_with_header cfg ?t h = Inr r'"
            using bt Inr_t room u by (simp del: discard_simps)
          ultimately show ?thesis using with_header_same [of ?s h ?t r r'] by simp
        qed
      qed
    qed
  qed
qed

lemma drains_same:
  "drains cfg s fs s' \<Longrightarrow> parser_inv cfg s \<Longrightarrow> parser_inv cfg t \<Longrightarrow> observe s = observe t \<Longrightarrow>
   \<exists>t'. drains cfg t fs t' \<and> observe s' = observe t'"
proof (induction arbitrary: t rule: drains.induct)
  case (stop s s')
  from body_pass [OF stop.prems(2)] obtain r where r: "drain_body cfg t = Inr r" by blast
  from body_same [OF stop.prems(1,2,3) stop.hyps r] r show ?case
    by (cases r) (auto simp: same_pass_def intro: drains.stop)
next
  case (skip s s1 fs s')
  from body_pass [OF skip.prems(2)] obtain r where r: "drain_body cfg t = Inr r" "pass_ok t r" by blast
  from body_pass [OF skip.prems(1)] skip.hyps have "parser_inv cfg s1" by (simp add: pass_ok_def)
  moreover from body_same [OF skip.prems(1,2,3) skip.hyps(1) r(1)] r obtain t1 where
    t1: "drain_body cfg t = Inr (Continue t1)" "observe s1 = observe t1" "parser_inv cfg t1"
    by (cases r) (auto simp: same_pass_def pass_ok_def)
  ultimately obtain t' where "drains cfg t1 fs t'" "observe s' = observe t'" using skip.IH by blast
  with t1(1) show ?case by (blast intro: drains.skip)
next
  case (frame s s1 f fs s')
  from body_pass [OF frame.prems(2)] obtain r where r: "drain_body cfg t = Inr r" "pass_ok t r" by blast
  from body_pass [OF frame.prems(1)] frame.hyps have "parser_inv cfg s1" by (simp add: pass_ok_def)
  moreover from body_same [OF frame.prems(1,2,3) frame.hyps(1) r(1)] r obtain t1 where
    t1: "drain_body cfg t = Inr (Yield t1 f)" "observe s1 = observe t1" "parser_inv cfg t1"
    by (cases r) (auto simp: same_pass_def pass_ok_def)
  ultimately obtain t' where "drains cfg t1 fs t'" "observe s' = observe t'" using frame.IH by blast
  with t1(1) show ?case by (blast intro: drains.frame)
qed

text \<open>
  Bytes that arrive later do not change what the loop has done: a pass that goes on is
  the same pass on the longer buffer, and a loop that stopped resumes where it stopped.
\<close>

lemma extend_header:
  assumes "scan_start s \<le> length (parser_buffer s)" "header_size cfg \<le> length (unread s)"
  shows "decode_header cfg (parser_buffer (extend_buffer x s)) (scan_start (extend_buffer x s))
       = decode_header cfg (parser_buffer s) (scan_start s)"
  using header_unread [of s] header_unread [of "extend_buffer x s"] assms by (simp add: unread_extend)

lemma parser_inv_extend: "parser_inv cfg s \<Longrightarrow> parser_inv cfg (extend_buffer x s)"
  using extend_header [of s x] by (auto simp: parser_inv_def unread_extend split: option.splits)

lemma with_header_extend:
  assumes inv: "parser_inv cfg s" and pend: "pending_header s = Some h"
    and len: "header_total_length cfg h \<le> length (unread s)"
  shows "drain_with_header cfg (extend_buffer x s) h
       = map_sum id (map_drain_step (extend_buffer x) id) (drain_with_header cfg s h)"
proof -
  have ss: "scan_start s \<le> length (parser_buffer s)" and h: "decode_header cfg (parser_buffer s) (scan_start s) = Inr h"
    using inv pend by (simp_all add: parser_inv_def)
  have hx: "decode_header cfg (parser_buffer (extend_buffer x s)) (scan_start (extend_buffer x s)) = Inr h"
    using parser_inv_extend [OF inv, of x] pend by (simp add: parser_inv_def)
  have "decode_frame cfg (parser_buffer (extend_buffer x s)) (scan_start (extend_buffer x s)) h
      = decode_frame cfg (parser_buffer s) (scan_start s) h"
    using frame_unread [OF h len] frame_unread [OF hx] len by (simp add: unread_extend ss)
  then show ?thesis
    using len ss
    by (auto simp: drain_with_header_def buffered_unread unread_extend extend_commutes
        simp flip: extend_commutes split: sum.splits)
qed

lemma body_extend_found:
  assumes inv: "parser_inv cfg s" and none: "pending_header s = None"
    and i: "find_sub (magic_bytes cfg) (unread s) = Some i"
  shows "drain_body cfg (extend_buffer x s) = drain_body cfg (extend_buffer x (discard i s))"
proof -
  have ss: "scan_start s \<le> length (parser_buffer s)" using inv by (simp add: parser_inv_def)
  have i_le: "i + length (magic_bytes cfg) \<le> length (unread s)" by (rule find_sub_Some(2) [OF magic_nonempty i])
  have "find_sub (magic_bytes cfg) (unread (extend_buffer x s)) = Some i"
    using find_sub_append [OF magic_nonempty i] by (simp add: unread_extend [OF ss])
  moreover have "find_sub (magic_bytes cfg) (drop i (unread s @ x)) = Some 0"
    by (rule find_sub_at_0 [OF magic_nonempty]) (use find_sub_Some(1) [OF magic_nonempty i] i_le in simp)
  ultimately show ?thesis
    using body_skip [of "extend_buffer x s" cfg i 0] none
    by (simp add: extend_commutes unread_extend [OF ss] del: drop_append)
qed

lemma body_extend_stop:
  assumes inv: "parser_inv cfg s" and b: "drain_body cfg s = Inr (Break s')"
  shows "drain_body cfg (extend_buffer x s) = drain_body cfg (extend_buffer x s')"
proof (cases "pending_header s")
  case (Some h)
  have "s' = s" using with_header_cases [OF inv Some] b Some by (fastforce simp: drain_body_def)
  then show ?thesis by simp
next
  case None
  have ss: "scan_start s \<le> length (parser_buffer s)" using inv by (simp add: parser_inv_def)
  let ?m = "magic_bytes cfg" and ?u = "unread s" and ?t = "extend_buffer x s"
  show ?thesis
  proof (cases "find_sub ?m ?u")
    case nofind: None
    define r where "r = suffix_search ?u ?m (length ?m - 1)"
    define d where "d = length ?u - r"
    have s': "s' = discard d s" using b body_not_found [OF None nofind magic_nonempty] by (simp add: r_def d_def)
    have skip: "find_sub ?m (?u @ x) = map_option (\<lambda>k. d + k) (find_sub ?m (drop d (?u @ x)))"
      by (rule find_sub_skip) (use no_early_occurrence [OF magic_nonempty nofind r_def] in \<open>auto simp: d_def\<close>)
    have u: "unread ?t = ?u @ x" "unread (discard d ?t) = drop d (?u @ x)" by (simp_all add: unread_extend [OF ss])
    show ?thesis
    proof (cases "find_sub ?m (drop d (?u @ x))")
      case later: None
      have "suffix_search (?u @ x) ?m (length ?m - 1) = suffix_search (drop d ?u @ x) ?m (length ?m - 1)"
        unfolding d_def by (rule retained_suffix_stable [OF magic_nonempty nofind r_def])
      moreover have "drop d ?u @ x = drop d (?u @ x)" by (simp add: d_def)
      ultimately have r2: "suffix_search (?u @ x) ?m (length ?m - 1) = suffix_search (drop d (?u @ x)) ?m (length ?m - 1)"
        by simp
      have le: "suffix_search (drop d (?u @ x)) ?m (length ?m - 1) \<le> length (drop d (?u @ x))"
        by (rule ends_with_take_length [OF suffix_search_ends]) (use suffix_search_le le_trans diff_le_self in blast)
      show ?thesis
        using body_not_found [of ?t cfg] body_not_found [of "discard d ?t" cfg] skip later None magic_nonempty r2 le
        by (simp add: s' extend_commutes u discard_discard d_def del: drop_append length_drop) (simp add: d_def)
    next
      case (Some k)
      then show ?thesis
        using body_skip [of ?t cfg d k] skip None by (simp add: s' extend_commutes u del: drop_append)
    qed
  next
    case (Some i)
    show ?thesis
    proof (cases "length (drop i ?u) < header_size cfg")
      case True
      then have "s' = discard i s" using b body_found [OF None Some] by simp
      then show ?thesis using body_extend_found [OF inv None Some] by simp
    next
      case room: False
      then obtain h where h: "decode_header cfg (parser_buffer (discard i s)) (scan_start (discard i s)) = Inr h"
        using b body_found [OF None Some] by (auto split: sum.splits if_splits)
      let ?s1 = "(discard i s)\<lparr>pending_header := Some h\<rparr>"
      have i: "i \<le> length ?u" using find_sub_Some(2) [OF magic_nonempty Some] by simp
      have inv1: "parser_inv cfg (discard i s)" by (rule parser_inv_discard [OF inv i])
      then have invp: "parser_inv cfg ?s1" using h room by (simp add: parser_inv_def)
      have "drain_with_header cfg ?s1 h = Inr (Break s')"
        using b body_found [OF None Some] room h by simp
      with with_header_cases [OF invp] have s1: "s' = ?s1" by fastforce
      have f: "find_sub ?m (unread ?t) = Some i"
        using find_sub_append [OF magic_nonempty Some] by (simp add: unread_extend [OF ss])
      have hx: "decode_header cfg (parser_buffer (discard i ?t)) (scan_start (discard i ?t)) = Inr h"
        using extend_header [of "discard i s" x] inv1 h room by (simp add: parser_inv_def)
      have "drain_body cfg ?t = drain_with_header cfg ((discard i ?t)\<lparr>pending_header := Some h\<rparr>) h"
        using body_found [of ?t cfg i] None f room hx by (simp add: unread_extend [OF ss])
      moreover have "drain_body cfg (extend_buffer x s') = drain_with_header cfg (extend_buffer x s') h"
        by (simp add: s1 drain_body_def)
      ultimately show ?thesis by (simp add: s1 extend_commutes)
    qed
  qed
qed

lemma body_extend_go:
  assumes inv: "parser_inv cfg s" and b: "drain_body cfg s = Inr r" and go: "\<And>s'. r \<noteq> Break s'"
  shows "drain_body cfg (extend_buffer x s) = Inr (map_drain_step (extend_buffer x) id r)"
proof (cases "pending_header s")
  case (Some h)
  have "header_total_length cfg h \<le> length (unread s)"
    using with_header_cases [OF inv Some] b go Some by (fastforce simp: drain_body_def)
  then show ?thesis using with_header_extend [OF inv Some] b Some by (simp add: drain_body_def)
next
  case None
  have ss: "scan_start s \<le> length (parser_buffer s)" using inv by (simp add: parser_inv_def)
  show ?thesis
  proof (cases "find_sub (magic_bytes cfg) (unread s)")
    case nofind: None
    then show ?thesis using b go body_not_found [OF None nofind magic_nonempty] by auto
  next
    case (Some i)
    have i: "i \<le> length (unread s)" using find_sub_Some(2) [OF magic_nonempty Some] by simp
    have inv1: "parser_inv cfg (discard i s)" by (rule parser_inv_discard [OF inv i])
    have room: "\<not> length (drop i (unread s)) < header_size cfg"
      using b go [of "discard i s"] body_found [OF None Some] by auto
    have f: "find_sub (magic_bytes cfg) (unread (extend_buffer x s)) = Some i"
      using find_sub_append [OF magic_nonempty Some] by (simp add: unread_extend [OF ss])
    note bx = body_found [OF _ f]
    have hx: "decode_header cfg (parser_buffer (discard i (extend_buffer x s))) (scan_start (discard i (extend_buffer x s)))
        = decode_header cfg (parser_buffer (discard i s)) (scan_start (discard i s))"
      using extend_header [of "discard i s" x] inv1 room by (simp add: parser_inv_def)
    show ?thesis
    proof (cases "decode_header cfg (parser_buffer (discard i s)) (scan_start (discard i s))")
      case (Inl e)
      then show ?thesis
        using b body_found [OF None Some] room bx hx None
        by (auto simp: unread_extend [OF ss] extend_commutes split: if_splits)
    next
      case (Inr h)
      let ?s1 = "(discard i s)\<lparr>pending_header := Some h\<rparr>"
      have invp: "parser_inv cfg ?s1" using inv1 Inr room by (simp add: parser_inv_def)
      have dh: "drain_with_header cfg ?s1 h = Inr r" using b body_found [OF None Some] room Inr by simp
      have "header_total_length cfg h \<le> length (unread ?s1)"
        using with_header_cases [OF invp] dh go by fastforce
      then have "drain_with_header cfg (extend_buffer x ?s1) h = Inr (map_drain_step (extend_buffer x) id r)"
        using with_header_extend [OF invp] dh by simp
      then show ?thesis
        using bx hx Inr None room by (simp add: unread_extend [OF ss] extend_commutes)
    qed
  qed
qed

lemma drains_extend:
  "drains cfg s fs s' \<Longrightarrow> parser_inv cfg s \<Longrightarrow> drains cfg (extend_buffer x s') gs t \<Longrightarrow>
   drains cfg (extend_buffer x s) (fs @ gs) t"
proof (induction rule: drains.induct)
  case (stop s s')
  show ?case
    using drains_same_body [OF body_extend_stop [OF stop.prems(1) stop.hyps] stop.prems(2)] by simp
next
  case (skip s s1 fs s')
  from body_pass [OF skip.prems(1)] skip.hyps have "parser_inv cfg s1" by (simp add: pass_ok_def)
  then show ?case
    using skip body_extend_go [OF skip.prems(1) skip.hyps(1), of x] by (auto intro: drains.skip)
next
  case (frame s s1 f fs s')
  from body_pass [OF frame.prems(1)] frame.hyps have "parser_inv cfg s1" by (simp add: pass_ok_def)
  then show ?case
    using frame body_extend_go [OF frame.prems(1) frame.hyps(1), of x] by (auto intro: drains.frame)
qed

text \<open>A settled buffer leaves room: the parser can always take at least one more byte.\<close>

lemma settled_room:
  assumes "parser_inv cfg s" "settled cfg s"
  shows "length (unread s) < max_buffered_bytes cfg"
proof -
  have "length (unread s) < max_frame_bytes cfg"
    using assms header_fits header_bounds
    by (fastforce simp: settled_def parser_inv_def split: option.splits)
  moreover have "1 \<le> length (magic_bytes cfg)"
    using magic_nonempty by (metis One_nat_def Suc_leI length_greater_0_conv)
  ultimately show ?thesis by (simp add: max_buffered_bytes_def)
qed

lemma parser_inv_observe:
  assumes "parser_inv cfg s" "observe s = observe t" "scan_start t \<le> length (parser_buffer t)"
  shows "parser_inv cfg t"
  using assms by (simp add: parser_inv_unread observe_eq_iff split: option.splits)

lemma feed_loop_spec:
  "parser_inv cfg s \<Longrightarrow> high_water_mark s \<le> max_buffered_bytes cfg \<Longrightarrow>
   \<exists>s' fs d. feed_loop cfg s rest acc = Some (Inr (s', acc @ fs)) \<and>
     drains cfg (extend_buffer rest s) fs d \<and> observe s' = observe d \<and> scan_start s' = 0 \<and>
     bytes_received s' = bytes_received s \<and> high_water_mark s' \<le> max_buffered_bytes cfg"
proof (induction "length rest" arbitrary: s rest acc rule: less_induct)
  case less
  from drains_total [OF less.prems(1)] obtain f1 d1 where
    d1: "drains cfg s f1 d1" "parser_inv cfg d1" "settled cfg d1" by blast
  note stat = drains_statistics [OF d1(1)]
  have dr: "drain cfg s = Some (Inr (compact d1, f1))" by (rule drains_drain [OF d1(1)])
  show ?case
  proof (cases "rest = []")
    case True
    then have "feed_loop cfg s rest acc = Some (Inr (compact d1, acc @ f1)) \<and>
        drains cfg (extend_buffer rest s) f1 d1 \<and> observe (compact d1) = observe d1 \<and> scan_start (compact d1) = 0 \<and>
        bytes_received (compact d1) = bytes_received s \<and> high_water_mark (compact d1) \<le> max_buffered_bytes cfg"
      using d1 dr stat less.prems(2) by (simp add: feed_loop.simps [of cfg s "[]" acc])
    then show ?thesis by blast
  next
    case False
    have room: "length (unread d1) < max_buffered_bytes cfg" by (rule settled_room [OF d1(2,3)])
    define n where "n = min (max_buffered_bytes cfg - length (unread d1)) (length rest)"
    define s2 where "s2 = extend_buffer (take n rest) (compact d1)"
    define s3 where "s3 = s2\<lparr>high_water_mark := max (high_water_mark s2) (buffered_bytes s2)\<rparr>"
    have n: "0 < n" "n \<le> length rest" "length (unread d1) + n \<le> max_buffered_bytes cfg"
      using room False by (auto simp: n_def)
    have u2: "unread s2 = unread d1 @ take n rest" by (simp add: s2_def unread_extend)
    then have inv3: "parser_inv cfg s3"
      using parser_inv_observe [of d1 "compact d1"] parser_inv_extend [of "compact d1" "take n rest"] d1(2)
      by (simp add: s3_def s2_def parser_inv_unread split: option.splits)
    have hw3: "high_water_mark s3 \<le> max_buffered_bytes cfg"
      using n less.prems(2) stat by (simp add: s3_def buffered_unread u2) (simp add: s2_def)
    have eq: "feed_loop cfg s rest acc = feed_loop cfg s3 (drop n rest) (acc @ f1)"
      using dr False room
      by (simp add: feed_loop.simps [of cfg s rest acc] buffered_unread Let_def n_def s2_def s3_def)
    have "length (drop n rest) < length rest" using n by simp
    from less.hyps [OF this inv3 hw3, of "acc @ f1"] obtain s' f2 d2 where
      s': "feed_loop cfg s3 (drop n rest) (acc @ f1) = Some (Inr (s', (acc @ f1) @ f2))"
        "drains cfg (extend_buffer (drop n rest) s3) f2 d2" "observe s' = observe d2" "scan_start s' = 0"
        "bytes_received s' = bytes_received s3" "high_water_mark s' \<le> max_buffered_bytes cfg" by blast
    have ss: "scan_start d1 \<le> length (parser_buffer d1)" "scan_start s3 \<le> length (parser_buffer s3)"
      using d1(2) inv3 by (simp_all add: parser_inv_def)
    have obs: "observe (extend_buffer (drop n rest) s3) = observe (extend_buffer rest d1)"
      by (simp add: observe_eq_iff unread_extend [OF ss(1)] unread_extend [OF ss(2)])
         (simp add: s3_def u2, simp add: s2_def)
    from drains_same [OF s'(2) parser_inv_extend [OF inv3] parser_inv_extend [OF d1(2)] obs]
    obtain d2' where d2': "drains cfg (extend_buffer rest d1) f2 d2'" "observe d2 = observe d2'" by blast
    have "drains cfg (extend_buffer rest s) (f1 @ f2) d2'"
      by (rule drains_extend [OF d1(1) less.prems(1) d2'(1)])
    moreover have "bytes_received s3 = bytes_received s" using stat by (simp add: s3_def s2_def)
    ultimately show ?thesis using s' d2'(2) eq
      by (intro exI [of _ s'] exI [of _ "f1 @ f2"] exI [of _ d2']) simp
  qed
qed

text \<open>
  The contract of \<^verbatim>\<open>feed\<close> on a well-formed state: it returns, keeps the invariant and
  the buffer bound, and accounts for every byte: received bytes are in returned frames,
  discarded, or still buffered.
\<close>

lemma feed_contract:
  assumes "parser_ok cfg s"
  obtains s' fs d where "feed cfg s chunk = Some (Inr (s', fs))" "parser_ok cfg s'"
    "drains cfg (extend_buffer chunk s) fs d" "observe s' = observe d"
    "bytes_received s' = bytes_received s + length chunk"
    "bytes_discarded s' + buffered_bytes s' + sum_list (map frame_length fs)
       = bytes_discarded s + buffered_bytes s + length chunk"
    "frames_decoded s' = frames_decoded s + length fs"
proof -
  let ?s = "s\<lparr>bytes_received := bytes_received s + length chunk\<rparr>"
  have inv: "parser_inv cfg s" "high_water_mark s \<le> max_buffered_bytes cfg" "scan_start s = 0"
    using assms by (simp_all add: parser_ok_def)
  have invs: "parser_inv cfg ?s" using inv(1) by (simp add: parser_inv_def split: option.splits)
  from feed_loop_spec [OF invs, of chunk "[]"] inv(2) obtain s' fs d where
    f: "feed cfg s chunk = Some (Inr (s', fs))" "drains cfg (extend_buffer chunk ?s) fs d" "observe s' = observe d"
      "scan_start s' = 0" "bytes_received s' = bytes_received s + length chunk"
      "high_water_mark s' \<le> max_buffered_bytes cfg"
    by (auto simp: feed_def)
  have "observe (extend_buffer chunk ?s) = observe (extend_buffer chunk s)"
    using inv(1) by (simp add: observe_eq_iff unread_extend parser_inv_def)
  from drains_same [OF f(2) parser_inv_extend [OF invs] parser_inv_extend [OF inv(1)] this]
  obtain e where e: "drains cfg (extend_buffer chunk s) fs e" "observe d = observe e" by blast
  from drains_total [OF parser_inv_extend [OF inv(1), of chunk]] obtain fs' e' where
    t: "drains cfg (extend_buffer chunk s) fs' e'" "parser_inv cfg e'" "settled cfg e'"
      "bytes_discarded e' + length (unread e') + sum_list (map frame_length fs')
         = bytes_discarded (extend_buffer chunk s) + length (unread (extend_buffer chunk s))"
      "frames_decoded e' = frames_decoded (extend_buffer chunk s) + length fs'" by blast
  have same: "fs' = fs" "e' = e" using drains_deterministic [OF t(1) e(1)] by auto
  have obs: "observe s' = observe e" using f(3) e(2) by simp
  have "parser_inv cfg s'"
    by (rule parser_inv_observe [OF t(2) [unfolded same] obs [symmetric]]) (simp add: f(4))
  moreover have "settled cfg s'" using t(3) obs same by (simp add: settled_def observe_eq_iff)
  ultimately have "parser_ok cfg s'" using f by (simp add: parser_ok_def)
  moreover have "bytes_discarded s' + buffered_bytes s' + sum_list (map frame_length fs)
       = bytes_discarded s + buffered_bytes s + length chunk"
    using t(4) obs same inv by (simp add: observe_eq_iff buffered_unread unread_extend)
  moreover have "frames_decoded s' = frames_decoded s + length fs"
    using t(5) obs same by (simp add: observe_eq_iff)
  ultimately show thesis using that f(1,5) e(1) obs by blast
qed

lemma feed_accepted:
  assumes "parser_ok cfg s" "feed cfg s chunk = Some (Inr (s', fs))" "f \<in> set fs"
  shows "accepted_frame cfg f"
  using feed_contract [OF assms(1), of chunk] assms drains_accepted [OF _ parser_inv_extend]
  by (metis Inr_inject option.inject parser_ok_def prod.inject)

text \<open>How the stream is cut into chunks does not matter.\<close>

lemma feed_append:
  assumes ok: "parser_ok cfg s" and a: "feed cfg s a = Some (Inr (s1, fs1))"
    and b: "feed cfg s1 b = Some (Inr (s2, fs2))"
  shows "\<exists>s3. feed cfg s (a @ b) = Some (Inr (s3, fs1 @ fs2)) \<and> s3\<lparr>high_water_mark := 0\<rparr> = s2\<lparr>high_water_mark := 0\<rparr>"
proof -
  obtain d1 where d1: "parser_ok cfg s1" "drains cfg (extend_buffer a s) fs1 d1" "observe s1 = observe d1"
      "bytes_received s1 = bytes_received s + length a"
    using feed_contract [OF ok, of a] a by auto
  obtain d2 where d2: "drains cfg (extend_buffer b s1) fs2 d2" "observe s2 = observe d2" "parser_ok cfg s2"
      "bytes_received s2 = bytes_received s1 + length b"
    using feed_contract [OF d1(1), of b] b by auto
  obtain s3 fs3 d3 where d3: "feed cfg s (a @ b) = Some (Inr (s3, fs3))" "parser_ok cfg s3"
      "drains cfg (extend_buffer (a @ b) s) fs3 d3" "observe s3 = observe d3"
      "bytes_received s3 = bytes_received s + length (a @ b)"
    using feed_contract [OF ok, of "a @ b"] by metis
  have inv: "parser_inv cfg s" "parser_inv cfg s1" using ok d1(1) by (simp_all add: parser_ok_def)
  have invd1: "parser_inv cfg d1"
    using drains_total [OF parser_inv_extend [OF inv(1), of a]] drains_deterministic [OF d1(2)] by blast
  have "observe (extend_buffer b s1) = observe (extend_buffer b d1)"
    using d1(3) inv(2) invd1 by (simp add: observe_eq_iff unread_extend parser_inv_def)
  from drains_same [OF d2(1) parser_inv_extend [OF inv(2)] parser_inv_extend [OF invd1] this]
  obtain e where e: "drains cfg (extend_buffer b d1) fs2 e" "observe d2 = observe e" by blast
  have "drains cfg (extend_buffer (a @ b) s) (fs1 @ fs2) e"
    using drains_extend [OF d1(2) parser_inv_extend [OF inv(1)] e(1)] by (simp add: extend_extend)
  with d3(3) have same: "fs3 = fs1 @ fs2" "d3 = e" using drains_deterministic by blast+
  have "observe s3 = observe s2" using d3(4) d2(2) e(2) same by simp
  then have "s3\<lparr>high_water_mark := 0\<rparr> = s2\<lparr>high_water_mark := 0\<rparr>"
    using d3(2,5) d2(3,4) d1(4) by (cases s3; cases s2) (simp add: observe_eq_iff parser_ok_def unread_def)
  with d3(1) same show ?thesis by blast
qed

lemma parser_ok_empty: "parser_ok cfg empty_parser_state"
  using header_size_pos by (simp add: parser_ok_def parser_inv_def settled_def empty_parser_state_def unread_def)

lemma parser_ok_reset: "parser_ok cfg (reset s)" "high_water_mark s \<le> max_buffered_bytes cfg \<Longrightarrow>
    corruption_events s = header_errors s + checksum_errors s + payload_errors s \<Longrightarrow> parser_ok cfg (reset_session s)"
  using header_size_pos
  by (simp_all add: parser_ok_def parser_inv_def settled_def reset_def reset_session_def unread_def)

text \<open>
  Cutting the whole stream differently: any sequence of reads returns the frames of the
  concatenation, and leaves the same state up to the high-water mark.
\<close>

lemma feed_all_concat:
  "parser_ok cfg s \<Longrightarrow> cs \<noteq> [] \<Longrightarrow> \<exists>s' t fs. feed_all cfg s cs = Some (Inr (s', fs)) \<and>
     feed cfg s (concat cs) = Some (Inr (t, fs)) \<and> parser_ok cfg s' \<and>
     t\<lparr>high_water_mark := 0\<rparr> = s'\<lparr>high_water_mark := 0\<rparr>"
proof (induction cs arbitrary: s)
  case (Cons c cs)
  obtain s1 fs1 where s1: "feed cfg s c = Some (Inr (s1, fs1))" "parser_ok cfg s1"
    using feed_contract [OF Cons.prems(1), of c] by metis
  show ?case
  proof (cases "cs = []")
    case True
    then show ?thesis using s1 by simp
  next
    case False
    from Cons.IH [OF s1(2) False] obtain s' t fs2 where
      r: "feed_all cfg s1 cs = Some (Inr (s', fs2))" "feed cfg s1 (concat cs) = Some (Inr (t, fs2))"
        "parser_ok cfg s'" "t\<lparr>high_water_mark := 0\<rparr> = s'\<lparr>high_water_mark := 0\<rparr>" by blast
    from feed_append [OF Cons.prems(1) s1(1) r(2)] obtain s3 where
      "feed cfg s (c @ concat cs) = Some (Inr (s3, fs1 @ fs2))"
      "s3\<lparr>high_water_mark := 0\<rparr> = t\<lparr>high_water_mark := 0\<rparr>" by blast
    then show ?thesis using s1 r by simp
  qed
qed simp

lemma body_valid_wire:
  assumes ss: "scan_start s \<le> length (parser_buffer s)" and none: "pending_header s = None"
    and u: "unread s = noise @ w @ rest" and w: "valid_wire cfg w f"
    and quiet: "find_sub (magic_bytes cfg) (noise @ w) = Some (length noise)"
  shows "\<exists>s1. drain_body cfg s = Inr (Yield s1 f) \<and> unread s1 = rest \<and> pending_header s1 = None \<and>
     scan_start s1 \<le> length (parser_buffer s1) \<and> \<not> resynchronizing s1 \<and>
     bytes_discarded s1 = bytes_discarded s + length noise \<and> corruption_events s1 = corruption_events s \<and>
     resynchronizations s1 = resynchronizations s + of_bool (noise \<noteq> [] \<and> \<not> resynchronizing s)"
proof -
  from w obtain h where h: "decode_header cfg w 0 = Inr h" "header_total_length cfg h = length w"
      "header_size cfg \<le> length w" "decode_frame cfg w 0 h = Inr f" by (auto simp: valid_wire_def)
  let ?s1 = "discard (length noise) s"
  let ?s2 = "?s1\<lparr>pending_header := Some h\<rparr>"
  have f: "find_sub (magic_bytes cfg) (unread s) = Some (length noise)"
    using find_sub_append [OF magic_nonempty quiet, of rest] by (simp add: u)
  have "decode_header cfg w 0 = decode_header cfg (take (header_size cfg) w) 0"
    using header_local [of w 0] h(3) by simp
  then have hd: "decode_header cfg (parser_buffer ?s1) (scan_start ?s1) = Inr h"
    using header_unread [of ?s1] h u by simp
  then have "decode_frame cfg (parser_buffer ?s2) (scan_start ?s2) h = Inr f"
    using frame_unread [of ?s2 h] h u by simp
  then have "drain_with_header cfg ?s2 h = Inr (Yield (accept h ?s2) f)"
    using h(2) u by (simp add: drain_with_header_def buffered_unread)
  then have b: "drain_body cfg s = Inr (Yield (accept h ?s2) f)"
    using body_found [OF none f] hd h(3) u by simp
  have "length w + length rest + length noise \<le> length (parser_buffer s) - scan_start s"
    using u by (metis add.commute add.left_commute le_refl length_append length_drop unread_def)
  moreover have "drop (scan_start s + length noise + length w) (parser_buffer s) = rest"
  proof -
    have "drop (length noise + length w) (unread s) = rest" by (simp add: u)
    then show ?thesis by (simp add: unread_def ac_simps)
  qed
  ultimately show ?thesis using b h(2) ss by (auto simp: none)
qed

lemma valid_wire_quiet: "valid_wire cfg w f \<Longrightarrow> find_sub (magic_bytes cfg) ([] @ w) = Some (length ([] :: bytes))"
  using find_sub_at_0 [OF magic_nonempty] by (simp add: valid_wire_def)

lemma drains_valid_wires:
  "list_all2 (valid_wire cfg) ws fs \<Longrightarrow> scan_start s \<le> length (parser_buffer s) \<Longrightarrow> pending_header s = None \<Longrightarrow>
   unread s = concat ws \<Longrightarrow>
   \<exists>s'. drains cfg s fs s' \<and> unread s' = [] \<and> bytes_discarded s' = bytes_discarded s \<and>
      corruption_events s' = corruption_events s \<and> resynchronizations s' = resynchronizations s \<and>
      (resynchronizing s' \<longrightarrow> fs = [] \<and> resynchronizing s)"
proof (induction ws fs arbitrary: s rule: list_all2_induct)
  case Nil
  then have "drain_body cfg s = Inr (Break s)"
    using body_not_found [of s cfg] magic_nonempty by simp
  then show ?case using Nil by (auto intro: drains.stop)
next
  case (Cons w ws f fs)
  from body_valid_wire [OF Cons.prems(1,2) _ Cons.hyps(1) valid_wire_quiet [OF Cons.hyps(1)], of "concat ws"] Cons.prems(3)
  obtain s1 where s1: "drain_body cfg s = Inr (Yield s1 f)" "unread s1 = concat ws" "pending_header s1 = None"
      "scan_start s1 \<le> length (parser_buffer s1)" "\<not> resynchronizing s1" "bytes_discarded s1 = bytes_discarded s"
      "corruption_events s1 = corruption_events s" "resynchronizations s1 = resynchronizations s"
    by auto
  from Cons.IH [OF s1(4,3,2)] s1 show ?case by (auto intro: drains.frame)
qed

lemma feed_valid_wires:
  assumes ok: "parser_ok cfg s" and clean: "pending_header s = None" "unread s = []" and ws: "list_all2 (valid_wire cfg) ws fs"
  shows "\<exists>s'. feed cfg s (concat ws) = Some (Inr (s', fs)) \<and> parser_ok cfg s' \<and> buffered_bytes s' = 0 \<and>
     bytes_discarded s' = bytes_discarded s \<and> corruption_events s' = corruption_events s \<and>
     resynchronizations s' = resynchronizations s"
proof -
  have ss: "scan_start s = 0" using ok by (simp add: parser_ok_def)
  obtain s' fs' d where f: "feed cfg s (concat ws) = Some (Inr (s', fs'))" "parser_ok cfg s'"
      "drains cfg (extend_buffer (concat ws) s) fs' d" "observe s' = observe d"
    using feed_contract [OF ok, of "concat ws"] by metis
  have "unread (extend_buffer (concat ws) s) = concat ws" using clean ss by (simp add: unread_extend)
  then obtain e where e: "drains cfg (extend_buffer (concat ws) s) fs e" "unread e = []"
      "bytes_discarded e = bytes_discarded s" "corruption_events e = corruption_events s"
      "resynchronizations e = resynchronizations s"
    using drains_valid_wires [OF ws, of "extend_buffer (concat ws) s"] clean ss by auto
  have "fs' = fs \<and> d = e" by (rule drains_deterministic [OF f(3) e(1)])
  then show ?thesis using f e by (simp add: observe_eq_iff buffered_unread)
qed

text \<open>
  Resynchronisation: leading noise that does not contain the magic costs exactly its own
  bytes and one resynchronisation; the frame behind it is returned.
\<close>

lemma feed_noise_then_frame:
  assumes ok: "parser_ok cfg s" and clean: "pending_header s = None" "unread s = []" "\<not> resynchronizing s"
    and w: "valid_wire cfg w f" and quiet: "find_sub (magic_bytes cfg) (noise @ w) = Some (length noise)"
  shows "\<exists>s'. feed cfg s (noise @ w) = Some (Inr (s', [f])) \<and> parser_ok cfg s' \<and> buffered_bytes s' = 0 \<and>
     bytes_discarded s' = bytes_discarded s + length noise \<and> corruption_events s' = corruption_events s \<and>
     resynchronizations s' = resynchronizations s + of_bool (noise \<noteq> [])"
proof -
  have ss: "scan_start s = 0" using ok by (simp add: parser_ok_def)
  let ?t = "extend_buffer (noise @ w) s"
  obtain s' fs' d where fd: "feed cfg s (noise @ w) = Some (Inr (s', fs'))" "parser_ok cfg s'"
      "drains cfg ?t fs' d" "observe s' = observe d"
    using feed_contract [OF ok, of "noise @ w"] by metis
  have "unread ?t = noise @ w @ []" using clean ss by (simp add: unread_extend)
  from body_valid_wire [OF _ _ this w quiet] ss clean obtain s1 where
    s1: "drain_body cfg ?t = Inr (Yield s1 f)" "unread s1 = []" "pending_header s1 = None"
      "scan_start s1 \<le> length (parser_buffer s1)" "bytes_discarded s1 = bytes_discarded s + length noise"
      "corruption_events s1 = corruption_events s" "resynchronizations s1 = resynchronizations s + of_bool (noise \<noteq> [])"
    by auto
  from drains_valid_wires [of "[]" "[]" s1] s1 obtain e where e: "drains cfg s1 [] e" "unread e = []"
      "bytes_discarded e = bytes_discarded s1" "corruption_events e = corruption_events s1"
      "resynchronizations e = resynchronizations s1" by auto
  have "fs' = [f] \<and> d = e" by (rule drains_deterministic [OF fd(3) drains.frame [OF s1(1) e(1)]])
  then show ?thesis using fd e s1 by (simp add: observe_eq_iff buffered_unread)
qed

end

end
