(* ===== verification/V3_Constants.thy ===== *)
theory V3_Constants
  imports DAQ_Prelude
begin

text \<open>
  The constants of \<^verbatim>\<open>_generated/protocol_v3_constants.py\<close> that the SDK uses: frame
  limits, the enumerations (an \<^verbatim>\<open>IntEnum\<close> is a datatype with its wire value and the
  partial inverse \<^verbatim>\<open>Enum(value)\<close>; \<^verbatim>\<open>IntFlag\<close> sets stay integers), and the canonical
  wire records.
\<close>

section \<open>Limits\<close>

abbreviation (input) MAGIC :: "'a :: numeral" where "MAGIC \<equiv> 3735928559"
abbreviation (input) HEADER_SIZE :: "'a :: numeral" where "HEADER_SIZE \<equiv> 44"
abbreviation (input) TRAILER_SIZE :: "'a :: numeral" where "TRAILER_SIZE \<equiv> 4"
abbreviation (input) MIN_FRAME_BYTES :: "'a :: numeral" where "MIN_FRAME_BYTES \<equiv> 48"
abbreviation (input) MAX_COMMAND_FRAME_BYTES :: "'a :: numeral" where "MAX_COMMAND_FRAME_BYTES \<equiv> 68"
abbreviation (input) MAX_CONTROL_FRAME_BYTES :: "'a :: numeral" where "MAX_CONTROL_FRAME_BYTES \<equiv> 2048"
abbreviation (input) DATA_PREFIX_BYTES :: "'a :: numeral" where "DATA_PREFIX_BYTES \<equiv> 12"
abbreviation (input) MAX_LOGICAL_PAYLOAD_BYTES :: "'a :: numeral" where "MAX_LOGICAL_PAYLOAD_BYTES \<equiv> 4048"
abbreviation (input) MAX_ENCODED_SAMPLE_BYTES :: "'a :: numeral" where "MAX_ENCODED_SAMPLE_BYTES \<equiv> 4048"
abbreviation (input) MAX_DATA_FRAME_BYTES :: "'a :: numeral" where "MAX_DATA_FRAME_BYTES \<equiv> 4108"
abbreviation (input) MAX_ADC_PAIRS :: "'a :: numeral" where "MAX_ADC_PAIRS \<equiv> 1012"
abbreviation (input) MAX_GPIO8_SAMPLES :: "'a :: numeral" where "MAX_GPIO8_SAMPLES \<equiv> 4048"
abbreviation (input) MAX_GPIO16_SAMPLES :: "'a :: numeral" where "MAX_GPIO16_SAMPLES \<equiv> 2024"
abbreviation (input) MAX_CONFIGURATION_TUPLES :: "'a :: numeral" where "MAX_CONFIGURATION_TUPLES \<equiv> 64"
abbreviation (input) ADC_PAIR_PERIOD_TICKS :: "'a :: numeral" where "ADC_PAIR_PERIOD_TICKS \<equiv> 8"
abbreviation (input) PROTOCOL_VERSION :: "'a :: numeral" where "PROTOCOL_VERSION \<equiv> 3"
abbreviation (input) STATUS_DIAGNOSTIC_COUNT :: "'a :: numeral" where "STATUS_DIAGNOSTIC_COUNT \<equiv> 37"
abbreviation (input) SETTINGS_PAYLOAD_SIZE :: "'a :: numeral" where "SETTINGS_PAYLOAD_SIZE \<equiv> 20"
abbreviation (input) RESPONSE_PREFIX_PAYLOAD_SIZE :: "'a :: numeral" where "RESPONSE_PREFIX_PAYLOAD_SIZE \<equiv> 4"
abbreviation (input) SETTINGS_RESPONSE_PAYLOAD_SIZE :: "'a :: numeral" where "SETTINGS_RESPONSE_PAYLOAD_SIZE \<equiv> 48"
abbreviation (input) INFO_RESPONSE_PAYLOAD_SIZE :: "'a :: numeral" where "INFO_RESPONSE_PAYLOAD_SIZE \<equiv> 132"
abbreviation (input) CAPABILITIES_RESPONSE_PAYLOAD_SIZE :: "'a :: numeral" where "CAPABILITIES_RESPONSE_PAYLOAD_SIZE \<equiv> 1404"
abbreviation (input) STATUS_RESPONSE_PAYLOAD_SIZE :: "'a :: numeral" where "STATUS_RESPONSE_PAYLOAD_SIZE \<equiv> 384"
abbreviation (input) STOP_RESPONSE_PAYLOAD_SIZE :: "'a :: numeral" where "STOP_RESPONSE_PAYLOAD_SIZE \<equiv> 16"
abbreviation (input) ERROR_RESPONSE_PAYLOAD_SIZE :: "'a :: numeral" where "ERROR_RESPONSE_PAYLOAD_SIZE \<equiv> 8"
abbreviation (input) MAX_CPU_PROFILES :: "'a :: numeral" where "MAX_CPU_PROFILES \<equiv> 2"
abbreviation (input) MAX_RATE_PROFILES :: "'a :: one" where "MAX_RATE_PROFILES \<equiv> 1"

text \<open>Flag bits of \<^verbatim>\<open>FrameFlag\<close> and \<^verbatim>\<open>StreamMask\<close>.\<close>

abbreviation (input) FLAG_SYNTHETIC :: int where "FLAG_SYNTHETIC \<equiv> 1"
abbreviation (input) FLAG_GAP_BEFORE :: int where "FLAG_GAP_BEFORE \<equiv> 2"
abbreviation (input) FLAG_EPOCH_START :: int where "FLAG_EPOCH_START \<equiv> 4"
abbreviation (input) FLAG_OVERRUN_BEFORE :: int where "FLAG_OVERRUN_BEFORE \<equiv> 8"
abbreviation (input) FLAG_RESPONSE_ERROR :: int where "FLAG_RESPONSE_ERROR \<equiv> 32768"
abbreviation (input) STREAM_ADC :: int where "STREAM_ADC \<equiv> 1"
abbreviation (input) STREAM_GPIO :: int where "STREAM_GPIO \<equiv> 2"

section \<open>Enumerations\<close>

datatype FrameKind =
  FK_ADC_DATA | FK_GPIO_DATA | FK_INFO_REQUEST | FK_INFO_RESPONSE | FK_CONFIGURE_REQUEST | FK_CONFIGURE_RESPONSE | FK_START_REQUEST | FK_START_RESPONSE | FK_GET_STATUS_REQUEST | FK_GET_STATUS_RESPONSE | FK_STOP_REQUEST | FK_STOP_RESPONSE | FK_GET_CAPABILITIES_REQUEST | FK_GET_CAPABILITIES_RESPONSE | FK_GET_SETTINGS_REQUEST | FK_GET_SETTINGS_RESPONSE | FK_ERROR_RESPONSE

fun FrameKind_value :: "FrameKind \<Rightarrow> int" where
  "FrameKind_value FK_ADC_DATA = 1"
| "FrameKind_value FK_GPIO_DATA = 2"
| "FrameKind_value FK_INFO_REQUEST = 16"
| "FrameKind_value FK_INFO_RESPONSE = 144"
| "FrameKind_value FK_CONFIGURE_REQUEST = 17"
| "FrameKind_value FK_CONFIGURE_RESPONSE = 145"
| "FrameKind_value FK_START_REQUEST = 18"
| "FrameKind_value FK_START_RESPONSE = 146"
| "FrameKind_value FK_GET_STATUS_REQUEST = 19"
| "FrameKind_value FK_GET_STATUS_RESPONSE = 147"
| "FrameKind_value FK_STOP_REQUEST = 20"
| "FrameKind_value FK_STOP_RESPONSE = 148"
| "FrameKind_value FK_GET_CAPABILITIES_REQUEST = 28"
| "FrameKind_value FK_GET_CAPABILITIES_RESPONSE = 156"
| "FrameKind_value FK_GET_SETTINGS_REQUEST = 29"
| "FrameKind_value FK_GET_SETTINGS_RESPONSE = 157"
| "FrameKind_value FK_ERROR_RESPONSE = 159"

definition FrameKind_of_int :: "int \<Rightarrow> FrameKind option" where
  "FrameKind_of_int v = List.find (\<lambda>e. FrameKind_value e = v) [FK_ADC_DATA, FK_GPIO_DATA, FK_INFO_REQUEST, FK_INFO_RESPONSE, FK_CONFIGURE_REQUEST, FK_CONFIGURE_RESPONSE, FK_START_REQUEST, FK_START_RESPONSE, FK_GET_STATUS_REQUEST, FK_GET_STATUS_RESPONSE, FK_STOP_REQUEST, FK_STOP_RESPONSE, FK_GET_CAPABILITIES_REQUEST, FK_GET_CAPABILITIES_RESPONSE, FK_GET_SETTINGS_REQUEST, FK_GET_SETTINGS_RESPONSE, FK_ERROR_RESPONSE]"

lemma FrameKind_of_value [simp]: "FrameKind_of_int (FrameKind_value e) = Some e"
  by (cases e) (simp_all add: FrameKind_of_int_def)

lemma FrameKind_of_int_Some: "FrameKind_of_int v = Some e \<Longrightarrow> FrameKind_value e = v"
  by (auto simp: FrameKind_of_int_def find_Some_iff simp del: find.simps)

lemma FrameKind_value_range: "0 \<le> FrameKind_value e \<and> FrameKind_value e < 256"
  by (cases e) simp_all

datatype CommandKind =
  CK_INFO | CK_CONFIGURE | CK_START | CK_GET_STATUS | CK_STOP | CK_GET_CAPABILITIES | CK_GET_SETTINGS

fun CommandKind_value :: "CommandKind \<Rightarrow> int" where
  "CommandKind_value CK_INFO = 16"
| "CommandKind_value CK_CONFIGURE = 17"
| "CommandKind_value CK_START = 18"
| "CommandKind_value CK_GET_STATUS = 19"
| "CommandKind_value CK_STOP = 20"
| "CommandKind_value CK_GET_CAPABILITIES = 28"
| "CommandKind_value CK_GET_SETTINGS = 29"

definition CommandKind_of_int :: "int \<Rightarrow> CommandKind option" where
  "CommandKind_of_int v = List.find (\<lambda>e. CommandKind_value e = v) [CK_INFO, CK_CONFIGURE, CK_START, CK_GET_STATUS, CK_STOP, CK_GET_CAPABILITIES, CK_GET_SETTINGS]"

lemma CommandKind_of_value [simp]: "CommandKind_of_int (CommandKind_value e) = Some e"
  by (cases e) (simp_all add: CommandKind_of_int_def)

lemma CommandKind_of_int_Some: "CommandKind_of_int v = Some e \<Longrightarrow> CommandKind_value e = v"
  by (auto simp: CommandKind_of_int_def find_Some_iff simp del: find.simps)

lemma CommandKind_value_range: "0 \<le> CommandKind_value e \<and> CommandKind_value e < 256"
  by (cases e) simp_all

datatype ResponseStatus =
  RS_OK | RS_ERROR

fun ResponseStatus_value :: "ResponseStatus \<Rightarrow> int" where
  "ResponseStatus_value RS_OK = 0"
| "ResponseStatus_value RS_ERROR = 1"

definition ResponseStatus_of_int :: "int \<Rightarrow> ResponseStatus option" where
  "ResponseStatus_of_int v = List.find (\<lambda>e. ResponseStatus_value e = v) [RS_OK, RS_ERROR]"

lemma ResponseStatus_of_value [simp]: "ResponseStatus_of_int (ResponseStatus_value e) = Some e"
  by (cases e) (simp_all add: ResponseStatus_of_int_def)

lemma ResponseStatus_of_int_Some: "ResponseStatus_of_int v = Some e \<Longrightarrow> ResponseStatus_value e = v"
  by (auto simp: ResponseStatus_of_int_def find_Some_iff simp del: find.simps)

lemma ResponseStatus_value_range: "0 \<le> ResponseStatus_value e \<and> ResponseStatus_value e < 256"
  by (cases e) simp_all

datatype ErrorCode =
  EC_OK | EC_UNSUPPORTED_VERSION | EC_UNKNOWN_FRAME_KIND | EC_INVALID_FLAGS | EC_INVALID_LENGTH | EC_INVALID_PAYLOAD | EC_UNSUPPORTED_CHECKSUM | EC_INVALID_STATE | EC_UNSUPPORTED_CONFIGURATION | EC_INVALID_REQUEST_ID | EC_BUSY | EC_INTERNAL_ERROR | EC_CHECKSUM_MISMATCH

fun ErrorCode_value :: "ErrorCode \<Rightarrow> int" where
  "ErrorCode_value EC_OK = 0"
| "ErrorCode_value EC_UNSUPPORTED_VERSION = 1"
| "ErrorCode_value EC_UNKNOWN_FRAME_KIND = 2"
| "ErrorCode_value EC_INVALID_FLAGS = 3"
| "ErrorCode_value EC_INVALID_LENGTH = 4"
| "ErrorCode_value EC_INVALID_PAYLOAD = 5"
| "ErrorCode_value EC_UNSUPPORTED_CHECKSUM = 6"
| "ErrorCode_value EC_INVALID_STATE = 7"
| "ErrorCode_value EC_UNSUPPORTED_CONFIGURATION = 8"
| "ErrorCode_value EC_INVALID_REQUEST_ID = 9"
| "ErrorCode_value EC_BUSY = 10"
| "ErrorCode_value EC_INTERNAL_ERROR = 11"
| "ErrorCode_value EC_CHECKSUM_MISMATCH = 12"

definition ErrorCode_of_int :: "int \<Rightarrow> ErrorCode option" where
  "ErrorCode_of_int v = List.find (\<lambda>e. ErrorCode_value e = v) [EC_OK, EC_UNSUPPORTED_VERSION, EC_UNKNOWN_FRAME_KIND, EC_INVALID_FLAGS, EC_INVALID_LENGTH, EC_INVALID_PAYLOAD, EC_UNSUPPORTED_CHECKSUM, EC_INVALID_STATE, EC_UNSUPPORTED_CONFIGURATION, EC_INVALID_REQUEST_ID, EC_BUSY, EC_INTERNAL_ERROR, EC_CHECKSUM_MISMATCH]"

lemma ErrorCode_of_value [simp]: "ErrorCode_of_int (ErrorCode_value e) = Some e"
  by (cases e) (simp_all add: ErrorCode_of_int_def)

lemma ErrorCode_of_int_Some: "ErrorCode_of_int v = Some e \<Longrightarrow> ErrorCode_value e = v"
  by (auto simp: ErrorCode_of_int_def find_Some_iff simp del: find.simps)

lemma ErrorCode_value_range: "0 \<le> ErrorCode_value e \<and> ErrorCode_value e < 256"
  by (cases e) simp_all

datatype Source =
  SRC_HARDWARE | SRC_SYNTHETIC

fun Source_value :: "Source \<Rightarrow> int" where
  "Source_value SRC_HARDWARE = 0"
| "Source_value SRC_SYNTHETIC = 1"

definition Source_of_int :: "int \<Rightarrow> Source option" where
  "Source_of_int v = List.find (\<lambda>e. Source_value e = v) [SRC_HARDWARE, SRC_SYNTHETIC]"

lemma Source_of_value [simp]: "Source_of_int (Source_value e) = Some e"
  by (cases e) (simp_all add: Source_of_int_def)

lemma Source_of_int_Some: "Source_of_int v = Some e \<Longrightarrow> Source_value e = v"
  by (auto simp: Source_of_int_def find_Some_iff simp del: find.simps)

lemma Source_value_range: "0 \<le> Source_value e \<and> Source_value e < 256"
  by (cases e) simp_all

datatype AuxBankMode =
  AUX_DISABLED | AUX_INPUT

fun AuxBankMode_value :: "AuxBankMode \<Rightarrow> int" where
  "AuxBankMode_value AUX_DISABLED = 0"
| "AuxBankMode_value AUX_INPUT = 1"

definition AuxBankMode_of_int :: "int \<Rightarrow> AuxBankMode option" where
  "AuxBankMode_of_int v = List.find (\<lambda>e. AuxBankMode_value e = v) [AUX_DISABLED, AUX_INPUT]"

lemma AuxBankMode_of_value [simp]: "AuxBankMode_of_int (AuxBankMode_value e) = Some e"
  by (cases e) (simp_all add: AuxBankMode_of_int_def)

lemma AuxBankMode_of_int_Some: "AuxBankMode_of_int v = Some e \<Longrightarrow> AuxBankMode_value e = v"
  by (auto simp: AuxBankMode_of_int_def find_Some_iff simp del: find.simps)

lemma AuxBankMode_value_range: "0 \<le> AuxBankMode_value e \<and> AuxBankMode_value e < 256"
  by (cases e) simp_all

datatype DeviceState =
  DS_STOPPED | DS_RUNNING | DS_DRAINING

fun DeviceState_value :: "DeviceState \<Rightarrow> int" where
  "DeviceState_value DS_STOPPED = 1"
| "DeviceState_value DS_RUNNING = 3"
| "DeviceState_value DS_DRAINING = 4"

definition DeviceState_of_int :: "int \<Rightarrow> DeviceState option" where
  "DeviceState_of_int v = List.find (\<lambda>e. DeviceState_value e = v) [DS_STOPPED, DS_RUNNING, DS_DRAINING]"

lemma DeviceState_of_value [simp]: "DeviceState_of_int (DeviceState_value e) = Some e"
  by (cases e) (simp_all add: DeviceState_of_int_def)

lemma DeviceState_of_int_Some: "DeviceState_of_int v = Some e \<Longrightarrow> DeviceState_value e = v"
  by (auto simp: DeviceState_of_int_def find_Some_iff simp del: find.simps)

lemma DeviceState_value_range: "0 \<le> DeviceState_value e \<and> DeviceState_value e < 256"
  by (cases e) simp_all

datatype BoardId =
  BOARD_TEENSY_40

fun BoardId_value :: "BoardId \<Rightarrow> int" where
  "BoardId_value BOARD_TEENSY_40 = 1"

definition BoardId_of_int :: "int \<Rightarrow> BoardId option" where
  "BoardId_of_int v = List.find (\<lambda>e. BoardId_value e = v) [BOARD_TEENSY_40]"

lemma BoardId_of_value [simp]: "BoardId_of_int (BoardId_value e) = Some e"
  by (cases e) (simp_all add: BoardId_of_int_def)

lemma BoardId_of_int_Some: "BoardId_of_int v = Some e \<Longrightarrow> BoardId_value e = v"
  by (auto simp: BoardId_of_int_def find_Some_iff simp del: find.simps)

lemma BoardId_value_range: "0 \<le> BoardId_value e \<and> BoardId_value e < 256"
  by (cases e) simp_all

datatype McuId =
  MCU_IMXRT1062

fun McuId_value :: "McuId \<Rightarrow> int" where
  "McuId_value MCU_IMXRT1062 = 1"

definition McuId_of_int :: "int \<Rightarrow> McuId option" where
  "McuId_of_int v = List.find (\<lambda>e. McuId_value e = v) [MCU_IMXRT1062]"

lemma McuId_of_value [simp]: "McuId_of_int (McuId_value e) = Some e"
  by (cases e) (simp_all add: McuId_of_int_def)

lemma McuId_of_int_Some: "McuId_of_int v = Some e \<Longrightarrow> McuId_value e = v"
  by (auto simp: McuId_of_int_def find_Some_iff simp del: find.simps)

lemma McuId_value_range: "0 \<le> McuId_value e \<and> McuId_value e < 256"
  by (cases e) simp_all

datatype CpuProfile =
  CPU_600MHZ | CPU_450MHZ

fun CpuProfile_value :: "CpuProfile \<Rightarrow> int" where
  "CpuProfile_value CPU_600MHZ = 1"
| "CpuProfile_value CPU_450MHZ = 2"

definition CpuProfile_of_int :: "int \<Rightarrow> CpuProfile option" where
  "CpuProfile_of_int v = List.find (\<lambda>e. CpuProfile_value e = v) [CPU_600MHZ, CPU_450MHZ]"

lemma CpuProfile_of_value [simp]: "CpuProfile_of_int (CpuProfile_value e) = Some e"
  by (cases e) (simp_all add: CpuProfile_of_int_def)

lemma CpuProfile_of_int_Some: "CpuProfile_of_int v = Some e \<Longrightarrow> CpuProfile_value e = v"
  by (auto simp: CpuProfile_of_int_def find_Some_iff simp del: find.simps)

lemma CpuProfile_value_range: "0 \<le> CpuProfile_value e \<and> CpuProfile_value e < 256"
  by (cases e) simp_all

datatype RateProfile =
  ADC_1MHZ_GPIO_1MHZ

fun RateProfile_value :: "RateProfile \<Rightarrow> int" where
  "RateProfile_value ADC_1MHZ_GPIO_1MHZ = 4"

definition RateProfile_of_int :: "int \<Rightarrow> RateProfile option" where
  "RateProfile_of_int v = List.find (\<lambda>e. RateProfile_value e = v) [ADC_1MHZ_GPIO_1MHZ]"

lemma RateProfile_of_value [simp]: "RateProfile_of_int (RateProfile_value e) = Some e"
  by (cases e) (simp_all add: RateProfile_of_int_def)

lemma RateProfile_of_int_Some: "RateProfile_of_int v = Some e \<Longrightarrow> RateProfile_value e = v"
  by (auto simp: RateProfile_of_int_def find_Some_iff simp del: find.simps)

lemma RateProfile_value_range: "0 \<le> RateProfile_value e \<and> RateProfile_value e < 256"
  by (cases e) simp_all

datatype GpioPolicy =
  GP_RAW | GP_RLE_AUTO

fun GpioPolicy_value :: "GpioPolicy \<Rightarrow> int" where
  "GpioPolicy_value GP_RAW = 0"
| "GpioPolicy_value GP_RLE_AUTO = 1"

definition GpioPolicy_of_int :: "int \<Rightarrow> GpioPolicy option" where
  "GpioPolicy_of_int v = List.find (\<lambda>e. GpioPolicy_value e = v) [GP_RAW, GP_RLE_AUTO]"

lemma GpioPolicy_of_value [simp]: "GpioPolicy_of_int (GpioPolicy_value e) = Some e"
  by (cases e) (simp_all add: GpioPolicy_of_int_def)

lemma GpioPolicy_of_int_Some: "GpioPolicy_of_int v = Some e \<Longrightarrow> GpioPolicy_value e = v"
  by (auto simp: GpioPolicy_of_int_def find_Some_iff simp del: find.simps)

lemma GpioPolicy_value_range: "0 \<le> GpioPolicy_value e \<and> GpioPolicy_value e < 256"
  by (cases e) simp_all

datatype AdcPolicy =
  AP_RAW | AP_PACK12

fun AdcPolicy_value :: "AdcPolicy \<Rightarrow> int" where
  "AdcPolicy_value AP_RAW = 0"
| "AdcPolicy_value AP_PACK12 = 1"

definition AdcPolicy_of_int :: "int \<Rightarrow> AdcPolicy option" where
  "AdcPolicy_of_int v = List.find (\<lambda>e. AdcPolicy_value e = v) [AP_RAW, AP_PACK12]"

lemma AdcPolicy_of_value [simp]: "AdcPolicy_of_int (AdcPolicy_value e) = Some e"
  by (cases e) (simp_all add: AdcPolicy_of_int_def)

lemma AdcPolicy_of_int_Some: "AdcPolicy_of_int v = Some e \<Longrightarrow> AdcPolicy_value e = v"
  by (auto simp: AdcPolicy_of_int_def find_Some_iff simp del: find.simps)

lemma AdcPolicy_value_range: "0 \<le> AdcPolicy_value e \<and> AdcPolicy_value e < 256"
  by (cases e) simp_all

datatype Encoding =
  ENC_RAW | ENC_GPIO_RLE | ENC_ADC_PACK12

fun Encoding_value :: "Encoding \<Rightarrow> int" where
  "Encoding_value ENC_RAW = 0"
| "Encoding_value ENC_GPIO_RLE = 1"
| "Encoding_value ENC_ADC_PACK12 = 2"

definition Encoding_of_int :: "int \<Rightarrow> Encoding option" where
  "Encoding_of_int v = List.find (\<lambda>e. Encoding_value e = v) [ENC_RAW, ENC_GPIO_RLE, ENC_ADC_PACK12]"

lemma Encoding_of_value [simp]: "Encoding_of_int (Encoding_value e) = Some e"
  by (cases e) (simp_all add: Encoding_of_int_def)

lemma Encoding_of_int_Some: "Encoding_of_int v = Some e \<Longrightarrow> Encoding_value e = v"
  by (auto simp: Encoding_of_int_def find_Some_iff simp del: find.simps)

lemma Encoding_value_range: "0 \<le> Encoding_value e \<and> Encoding_value e < 256"
  by (cases e) simp_all

text \<open>\<^verbatim>\<open>ChecksumAlgorithm\<close> of version 3 has the one member ADLER32 = 1.\<close>

datatype V3ChecksumAlgorithm = V3_ADLER32

fun V3ChecksumAlgorithm_value :: "V3ChecksumAlgorithm \<Rightarrow> int" where
  "V3ChecksumAlgorithm_value V3_ADLER32 = 1"

definition V3ChecksumAlgorithm_of_int :: "int \<Rightarrow> V3ChecksumAlgorithm option" where
  "V3ChecksumAlgorithm_of_int v = (if v = 1 then Some V3_ADLER32 else None)"

lemma V3ChecksumAlgorithm_of_value [simp]: "V3ChecksumAlgorithm_of_int (V3ChecksumAlgorithm_value e) = Some e"
  by (cases e) (simp add: V3ChecksumAlgorithm_of_int_def)

lemma V3ChecksumAlgorithm_of_int_Some: "V3ChecksumAlgorithm_of_int v = Some e \<Longrightarrow> V3ChecksumAlgorithm_value e = v"
  by (auto simp: V3ChecksumAlgorithm_of_int_def split: if_splits)

fun COMMAND_RESPONSE_KINDS :: "CommandKind \<Rightarrow> FrameKind" where
  "COMMAND_RESPONSE_KINDS CK_INFO = FK_INFO_RESPONSE"
| "COMMAND_RESPONSE_KINDS CK_CONFIGURE = FK_CONFIGURE_RESPONSE"
| "COMMAND_RESPONSE_KINDS CK_START = FK_START_RESPONSE"
| "COMMAND_RESPONSE_KINDS CK_GET_STATUS = FK_GET_STATUS_RESPONSE"
| "COMMAND_RESPONSE_KINDS CK_STOP = FK_STOP_RESPONSE"
| "COMMAND_RESPONSE_KINDS CK_GET_CAPABILITIES = FK_GET_CAPABILITIES_RESPONSE"
| "COMMAND_RESPONSE_KINDS CK_GET_SETTINGS = FK_GET_SETTINGS_RESPONSE"

section \<open>Formats and canonical records\<close>

text \<open>Field widths of the struct format strings.\<close>

definition HEADER_FORMAT :: "nat list" where
  "HEADER_FORMAT = [4, 1, 1, 2, 2, 1, 1, 4, 4, 4, 4, 4, 8, 4]" \<comment> \<open>\<^verbatim>\<open><IBBHHBBIIIIIQI\<close>\<close>

definition RESPONSE_PREFIX_FORMAT :: "nat list" where
  "RESPONSE_PREFIX_FORMAT = [1, 1, 2]" \<comment> \<open>\<^verbatim>\<open><BBH\<close>\<close>

definition SETTINGS_FORMAT :: "nat list" where
  "SETTINGS_FORMAT = [1, 1, 1, 1, 1, 1, 1, 1, 1, 1, 1, 1, 4, 4]" \<comment> \<open>\<^verbatim>\<open><BBBBBBBBBBBBII\<close>\<close>

definition CPU_PROFILE_INFO_FORMAT :: "nat list" where
  "CPU_PROFILE_INFO_FORMAT = [1, 1, 2, 4, 4, 4, 4, 4]" \<comment> \<open>\<^verbatim>\<open><BBHIIIII\<close>\<close>

definition RATE_PROFILE_INFO_FORMAT :: "nat list" where
  "RATE_PROFILE_INFO_FORMAT = [1, 1, 2, 4, 4, 2, 2, 2, 2]" \<comment> \<open>\<^verbatim>\<open><BBHIIHHHH\<close>\<close>

definition STOP_RESPONSE_FORMAT :: "nat list" where
  "STOP_RESPONSE_FORMAT = [1, 1, 2, 1, 1, 2, 4, 4]" \<comment> \<open>\<^verbatim>\<open><BBHBBHII\<close>\<close>

definition DATA_PREFIX_FORMAT :: "nat list" where
  "DATA_PREFIX_FORMAT = [1, 1, 2, 4, 4]" \<comment> \<open>\<^verbatim>\<open><BBHII\<close>\<close>

definition DEFAULT_SETTINGS :: bytes where
  "DEFAULT_SETTINGS = [3, 0, 1, 3, 1, 4, 0, 8, 1, 1, 12, 0, 64, 66, 15, 0, 64, 66, 15, 0]"

definition CPU_PROFILES :: "bytes list" where
  "CPU_PROFILES = [
    [1, 0, 0, 0, 0, 70, 195, 35, 128, 209, 240, 8, 96, 52, 60, 2, 0, 54, 110, 1, 0, 18, 122, 0],
    [2, 0, 0, 0, 128, 116, 210, 26, 128, 209, 240, 8, 96, 52, 60, 2, 0, 54, 110, 1, 0, 18, 122, 0]]"

definition RATE_PROFILES :: "bytes list" where
  "RATE_PROFILES = [[4, 0, 0, 0, 64, 66, 15, 0, 64, 66, 15, 0, 8, 0, 8, 0, 4, 0, 0, 0]]"

text \<open>
  Every selectable tuple differs from the others only in stream mask, source, CPU profile,
  auxiliary mode, GPIO width, GPIO policy and ADC policy; the remaining bytes are common.
\<close>

definition selectable_row :: "byte \<times> byte \<times> byte \<times> byte \<times> byte \<times> byte \<times> byte \<Rightarrow> bytes" where
  "selectable_row = (\<lambda>(mask, source, cpu, aux, width, gpio, adc).
     [mask, source, 1, 3, cpu, 4, aux, width, gpio, adc, 12, 0, 64, 66, 15, 0, 64, 66, 15, 0])"

definition SELECTABLE_CONFIGURATIONS :: "bytes list" where
  "SELECTABLE_CONFIGURATIONS = map selectable_row [
     (1,0,1,0,8,0,0), (1,1,1,0,8,0,0), (2,0,1,0,8,0,0), (2,1,1,0,8,0,0), (3,0,1,0,8,0,0), (3,1,1,0,8,0,0),
     (1,0,1,0,8,0,1), (1,1,1,0,8,0,1), (2,0,1,0,8,0,1), (2,1,1,0,8,0,1), (3,0,1,0,8,0,1), (3,1,1,0,8,0,1),
     (1,0,1,0,8,1,0), (1,1,1,0,8,1,0), (2,0,1,0,8,1,0), (2,1,1,0,8,1,0), (3,0,1,0,8,1,0), (3,1,1,0,8,1,0),
     (1,0,1,0,8,1,1), (1,1,1,0,8,1,1), (2,0,1,0,8,1,1), (2,1,1,0,8,1,1), (3,0,1,0,8,1,1), (3,1,1,0,8,1,1),
     (1,0,1,1,16,0,0), (1,1,1,1,16,0,0), (2,0,1,1,16,0,0), (2,1,1,1,16,0,0), (3,0,1,1,16,0,0), (3,1,1,1,16,0,0),
     (1,0,1,1,16,0,1), (1,1,1,1,16,0,1), (2,0,1,1,16,0,1), (2,1,1,1,16,0,1), (3,0,1,1,16,0,1), (3,1,1,1,16,0,1),
     (1,0,1,1,16,1,0), (1,1,1,1,16,1,0), (2,0,1,1,16,1,0), (2,1,1,1,16,1,0), (3,0,1,1,16,1,0), (3,1,1,1,16,1,0),
     (1,0,1,1,16,1,1), (1,1,1,1,16,1,1), (2,0,1,1,16,1,1), (2,1,1,1,16,1,1), (3,0,1,1,16,1,1), (3,1,1,1,16,1,1),
     (1,0,2,0,8,0,0), (1,1,2,0,8,0,0), (2,0,2,0,8,0,0), (2,1,2,0,8,0,0), (3,0,2,0,8,0,0), (3,1,2,0,8,0,0),
     (1,0,2,1,16,0,0), (1,1,2,1,16,0,0), (2,0,2,1,16,0,0), (2,1,2,1,16,0,0), (3,0,2,1,16,0,0), (3,1,2,1,16,0,0)]"

end
