(* ===== verification/V3_Header.thy ===== *)
theory V3_Header
  imports V3_Constants Checksum "HOL-Library.Log_Nat"
begin

text \<open>
  The frame header of protocol version 3 (\<^verbatim>\<open>protocol_v3.py\<close>): the exception classes, the
  header record with its serialisation, and \<^verbatim>\<open>_decode_v3_header\<close>, the validation that every
  received and every emitted frame passes.
\<close>

section \<open>Errors\<close>

text \<open>
  An exception is its class with the data a handler can observe: the \<^verbatim>\<open>error_code\<close> attribute,
  and the two checksums of a mismatch. Message texts are dropped.
\<close>

datatype v3_error =
  V3FrameValidationError ErrorCode
| V3ChecksumMismatchError int int

abbreviation INVALID :: v3_error where
  "INVALID \<equiv> V3FrameValidationError EC_INVALID_PAYLOAD"

abbreviation UNSUPPORTED :: v3_error where
  "UNSUPPORTED \<equiv> V3FrameValidationError EC_UNSUPPORTED_CONFIGURATION"

fun error_code :: "v3_error \<Rightarrow> ErrorCode" where
  "error_code (V3FrameValidationError e) = e"
| "error_code (V3ChecksumMismatchError expected observed) = EC_CHECKSUM_MISMATCH"

text \<open>\<^verbatim>\<open>V3ChecksumMismatchError\<close> is a subclass of \<^verbatim>\<open>V3FrameValidationError\<close>.\<close>

fun is_checksum_error :: "v3_error \<Rightarrow> bool" where
  "is_checksum_error (V3ChecksumMismatchError _ _) = True"
| "is_checksum_error (V3FrameValidationError _) = False"

definition bounded_bytes :: "bytes \<Rightarrow> nat \<Rightarrow> nat \<Rightarrow> v3_error + bytes" where
  "bounded_bytes data minimum maximum =
     require (minimum \<le> length data \<and> length data \<le> maximum) INVALID (Inr data)"

lemma bounded_bytes_eq_Inr [res_simps]:
  "bounded_bytes data lo hi = Inr d \<longleftrightarrow> lo \<le> length data \<and> length data \<le> hi \<and> d = data"
  by (auto simp: bounded_bytes_def res_simps)

text \<open>The \<^verbatim>\<open>assert\<close> of \<^verbatim>\<open>compute_v3_checksum\<close> never fires (lemma \<open>compute_v3_checksum_eq\<close>).\<close>

definition compute_v3_checksum :: "bytes \<Rightarrow> int" where
  "compute_v3_checksum data = the (compute_checksum_value data ADLER32)"

lemma compute_v3_checksum_eq: "compute_checksum_value data ADLER32 = Some (compute_v3_checksum data)"
  by (simp add: compute_v3_checksum_def checksum_value_Adler)

lemma compute_v3_checksum_range: "0 \<le> compute_v3_checksum data \<and> compute_v3_checksum data < 256 ^ 4"
  using zlib_adler32_bounds [of data] by (simp add: compute_v3_checksum_def checksum_value_Adler)

text \<open>
  \<^verbatim>\<open>IntFlag(value)\<close> with the default KEEP boundary: a negative value is the complement within the
  flag's bits (or, below that range, within its own bit length); others are kept as they are.
\<close>

definition int_flag :: "int \<Rightarrow> int \<Rightarrow> int" where
  "int_flag all_bits v =
     (if 0 \<le> v then v
      else if - (all_bits + 1) \<le> v then all_bits + 1 + v
      else 2 ^ floorlog 2 (nat (- v)) + v)"

definition FrameFlag :: "int \<Rightarrow> int" where
  "FrameFlag v = int_flag 65535 v"

lemma FrameFlag_nonneg [simp]: "0 \<le> v \<Longrightarrow> FrameFlag v = v"
  by (simp add: FrameFlag_def int_flag_def)

section \<open>The header record\<close>

record V3FrameHeader =
  hdr_kind :: FrameKind
  hdr_flags :: int
  hdr_total_length :: int
  hdr_payload_length :: int
  hdr_run_id :: int
  hdr_sequence :: int
  hdr_request_id :: int
  hdr_first_sample_ticks :: int
  hdr_item_count :: int
  hdr_version :: int
  hdr_header_length :: int
  hdr_checksum_algorithm :: V3ChecksumAlgorithm

text \<open>The constructor with the three defaulted fields.\<close>

definition V3FrameHeader ::
  "FrameKind \<Rightarrow> int \<Rightarrow> int \<Rightarrow> int \<Rightarrow> int \<Rightarrow> int \<Rightarrow> int \<Rightarrow> int \<Rightarrow> int \<Rightarrow> V3FrameHeader" where
  "V3FrameHeader kind flags total_length payload run sequence request ticks count =
     \<lparr>hdr_kind = kind, hdr_flags = flags, hdr_total_length = total_length, hdr_payload_length = payload,
      hdr_run_id = run, hdr_sequence = sequence, hdr_request_id = request,
      hdr_first_sample_ticks = ticks, hdr_item_count = count, hdr_version = PROTOCOL_VERSION,
      hdr_header_length = HEADER_SIZE, hdr_checksum_algorithm = V3_ADLER32\<rparr>"

definition header_to_bytes :: "V3FrameHeader \<Rightarrow> v3_error + bytes" where
  "header_to_bytes h = res_of_option INVALID (struct_pack HEADER_FORMAT
     [MAGIC, hdr_version h, FrameKind_value (hdr_kind h), hdr_flags h, hdr_header_length h,
      V3ChecksumAlgorithm_value (hdr_checksum_algorithm h), 0, hdr_total_length h,
      hdr_payload_length h, hdr_run_id h, hdr_sequence h, hdr_request_id h,
      hdr_first_sample_ticks h, hdr_item_count h])"

fun is_data_kind :: "FrameKind \<Rightarrow> bool" where
  "is_data_kind FK_ADC_DATA = True"
| "is_data_kind FK_GPIO_DATA = True"
| "is_data_kind _ = False"

definition is_request_kind :: "FrameKind \<Rightarrow> bool" where
  "is_request_kind kind \<longleftrightarrow> CommandKind_of_int (FrameKind_value kind) \<noteq> None"

text \<open>\<^verbatim>\<open>_RESPONSE_SIZES\<close>; \<open>None\<close> is a missing key.\<close>

fun RESPONSE_SIZES :: "FrameKind \<Rightarrow> int option" where
  "RESPONSE_SIZES FK_INFO_RESPONSE = Some INFO_RESPONSE_PAYLOAD_SIZE"
| "RESPONSE_SIZES FK_CONFIGURE_RESPONSE = Some SETTINGS_RESPONSE_PAYLOAD_SIZE"
| "RESPONSE_SIZES FK_START_RESPONSE = Some SETTINGS_RESPONSE_PAYLOAD_SIZE"
| "RESPONSE_SIZES FK_GET_STATUS_RESPONSE = Some STATUS_RESPONSE_PAYLOAD_SIZE"
| "RESPONSE_SIZES FK_STOP_RESPONSE = Some STOP_RESPONSE_PAYLOAD_SIZE"
| "RESPONSE_SIZES FK_GET_CAPABILITIES_RESPONSE = Some CAPABILITIES_RESPONSE_PAYLOAD_SIZE"
| "RESPONSE_SIZES FK_GET_SETTINGS_RESPONSE = Some SETTINGS_RESPONSE_PAYLOAD_SIZE"
| "RESPONSE_SIZES FK_ERROR_RESPONSE = Some ERROR_RESPONSE_PAYLOAD_SIZE"
| "RESPONSE_SIZES _ = None"

section \<open>Header validation\<close>

text \<open>
  The checks on the fields of a data frame, of a request and of a response. A
  \<^verbatim>\<open>KeyError\<close> of \<^verbatim>\<open>_RESPONSE_SIZES\<close> cannot occur: every kind that is neither data nor
  a request is a key (lemma \<open>RESPONSE_SIZES_total\<close>).
\<close>

definition check_data_header :: "V3FrameHeader \<Rightarrow> v3_error + unit" where
  "check_data_header h = (let flags = hdr_flags h; payload = hdr_payload_length h;
       count = hdr_item_count h; ticks = hdr_first_sample_ticks h;
       maximum = (if hdr_kind h = FK_ADC_DATA then MAX_ADC_PAIRS else MAX_GPIO8_SAMPLES) in
     require (DATA_PREFIX_BYTES < payload \<and> payload \<le> DATA_PREFIX_BYTES + MAX_ENCODED_SAMPLE_BYTES) INVALID (
     require (flags AND NOT 15 = 0) INVALID (
     require (flags AND FLAG_OVERRUN_BEFORE = 0 \<or> flags AND FLAG_GAP_BEFORE \<noteq> 0) INVALID (
     require (hdr_run_id h \<noteq> 0 \<and> hdr_request_id h = 0) INVALID (
     require (1 \<le> count \<and> count \<le> maximum) INVALID (
     require (ticks mod ADC_PAIR_PERIOD_TICKS = 0) INVALID (
     require (ticks + count * ADC_PAIR_PERIOD_TICKS \<le> 2 ^ 64 - 1) INVALID (
     Inr ()))))))))"

definition request_payload_size :: "FrameKind \<Rightarrow> int" where
  "request_payload_size kind = (if kind = FK_CONFIGURE_REQUEST then SETTINGS_PAYLOAD_SIZE else 0)"

definition check_request_header :: "V3FrameHeader \<Rightarrow> v3_error + int" where
  "check_request_header h =
     require (hdr_flags h = 0 \<and> hdr_run_id h = 0 \<and> hdr_request_id h \<noteq> 0) INVALID (
     Inr (request_payload_size (hdr_kind h)))"

definition check_response_header :: "V3FrameHeader \<Rightarrow> v3_error + int" where
  "check_response_header h = (let flags = hdr_flags h; is_error = (flags AND FLAG_RESPONSE_ERROR \<noteq> 0) in
     require (flags AND NOT FLAG_RESPONSE_ERROR = 0) INVALID (
     require (hdr_request_id h \<noteq> 0 \<or> is_error) INVALID (
     bind_res (if hdr_kind h = FK_ERROR_RESPONSE
               then require is_error INVALID (Inr ERROR_RESPONSE_PAYLOAD_SIZE)
               else Inr (if is_error then RESPONSE_PREFIX_PAYLOAD_SIZE else the (RESPONSE_SIZES (hdr_kind h))))
       (\<lambda>expected.
     require (hdr_kind h = FK_START_RESPONSE \<and> \<not> is_error \<longrightarrow> hdr_run_id h \<noteq> 0) INVALID (
     Inr expected)))))"

definition check_control_header :: "V3FrameHeader \<Rightarrow> v3_error + unit" where
  "check_control_header h =
     require (hdr_total_length h \<le> MAX_CONTROL_FRAME_BYTES) INVALID (
     require (hdr_sequence h = 0 \<and> hdr_first_sample_ticks h = 0 \<and> hdr_item_count h = 0) INVALID (
     bind_res (if is_request_kind (hdr_kind h) then check_request_header h else check_response_header h)
       (\<lambda>expected.
     require (hdr_payload_length h = expected) INVALID (Inr ()))))"

text \<open>
  \<^verbatim>\<open>_decode_v3_header(data, offset)\<close>; the offset is a list position, so the guard
  \<^verbatim>\<open>offset >= 0\<close> holds by its type.
\<close>

definition decode_v3_header :: "bytes \<Rightarrow> nat \<Rightarrow> v3_error + V3FrameHeader" where
  "decode_v3_header data offset =
     require (offset + HEADER_SIZE \<le> length data) INVALID (
     let f = struct_unpack HEADER_FORMAT (drop offset data);
         magic = f ! 0; version = f ! 1; kind = f ! 2; flags = f ! 3; size = f ! 4;
         checksum = f ! 5; reserved = f ! 6; total = f ! 7; payload = f ! 8; run = f ! 9;
         sequence = f ! 10; request = f ! 11; ticks = f ! 12; count = f ! 13 in
     require (magic = MAGIC \<and> version = PROTOCOL_VERSION) INVALID (
     require (size = HEADER_SIZE \<and> reserved = 0) INVALID (
     require (checksum = V3ChecksumAlgorithm_value V3_ADLER32) INVALID (
     bind_res (res_of_option INVALID (FrameKind_of_int kind)) (\<lambda>frame_kind.
     let header = V3FrameHeader frame_kind (FrameFlag flags) total payload run sequence request ticks count in
     require (total = MIN_FRAME_BYTES + payload) INVALID (
     bind_res (if is_data_kind frame_kind then check_data_header header else check_control_header header)
       (\<lambda>_. Inr header)))))))"

lemma RESPONSE_SIZES_total:
  "\<not> is_data_kind kind \<Longrightarrow> \<not> is_request_kind kind \<Longrightarrow> RESPONSE_SIZES kind \<noteq> None"
  by (cases kind) (simp_all add: is_request_kind_def CommandKind_of_int_def)

text \<open>The checks that \<open>decode_v3_header\<close> runs on the assembled header.\<close>

definition header_valid :: "V3FrameHeader \<Rightarrow> bool" where
  "header_valid h \<longleftrightarrow>
     hdr_version h = PROTOCOL_VERSION \<and> hdr_header_length h = HEADER_SIZE \<and>
     hdr_total_length h = MIN_FRAME_BYTES + hdr_payload_length h \<and>
     (if is_data_kind (hdr_kind h) then check_data_header h else check_control_header h) = Inr ()"

definition header_fields :: "V3FrameHeader \<Rightarrow> int list" where
  "header_fields h = [MAGIC, PROTOCOL_VERSION, FrameKind_value (hdr_kind h), hdr_flags h, HEADER_SIZE, 1, 0,
     hdr_total_length h, hdr_payload_length h, hdr_run_id h, hdr_sequence h, hdr_request_id h,
     hdr_first_sample_ticks h, hdr_item_count h]"

lemma sum_HEADER_FORMAT [simp]: "sum_list HEADER_FORMAT = 44" "length HEADER_FORMAT = 14"
  by (simp_all add: HEADER_FORMAT_def)

lemma list_14: "length f = 14 \<Longrightarrow>
  f = [f!0, f!1, f!2, f!3, f!4, f!5, f!6, f!7, f!8, f!9, f!10, f!11, f!12, f!13]"
  by (rule nth_equalityI) (auto simp: less_Suc_eq numeral_eq_Suc)

lemma header_valid_to_bytes:
  "header_valid h \<Longrightarrow> header_to_bytes h = res_of_option INVALID (struct_pack HEADER_FORMAT (header_fields h))"
  by (cases "hdr_checksum_algorithm h") (simp add: header_valid_def header_to_bytes_def header_fields_def)

lemma unpacked_flags_nonneg: "0 \<le> struct_unpack HEADER_FORMAT data ! 3"
  by (simp add: HEADER_FORMAT_def)

lemma decode_v3_header_eq_Inr:
  "decode_v3_header data offset = Inr h \<longleftrightarrow>
     offset + 44 \<le> length data \<and> header_valid h \<and>
     struct_unpack HEADER_FORMAT (drop offset data) = header_fields h"
proof
  let ?f = "struct_unpack HEADER_FORMAT (drop offset data)"
  assume dec: "decode_v3_header data offset = Inr h"
  obtain k where k: "FrameKind_of_int (?f ! 2) = Some k"
    using dec by (auto simp: decode_v3_header_def Let_def res_simps)
  from FrameKind_of_int_Some [OF k] have kv: "?f ! 2 = FrameKind_value k" ..
  have h: "h = V3FrameHeader k (?f ! 3) (?f ! 7) (?f ! 8) (?f ! 9) (?f ! 10) (?f ! 11) (?f ! 12) (?f ! 13)"
    using dec k unpacked_flags_nonneg by (auto simp: decode_v3_header_def Let_def res_simps)
  have valid: "header_valid h"
    using dec k unpacked_flags_nonneg
    by (auto simp: decode_v3_header_def Let_def res_simps h header_valid_def V3FrameHeader_def split: if_splits)
  have "?f ! 0 = MAGIC" "?f ! 1 = PROTOCOL_VERSION" "?f ! 4 = HEADER_SIZE" "?f ! 5 = 1" "?f ! 6 = 0"
    using dec by (auto simp: decode_v3_header_def Let_def res_simps)
  then have "?f = header_fields h"
    using list_14 [of ?f] kv unfolding h by (simp add: header_fields_def V3FrameHeader_def)
  moreover have "offset + 44 \<le> length data"
    using dec by (auto simp: decode_v3_header_def res_simps)
  ultimately show "offset + 44 \<le> length data \<and> header_valid h \<and> ?f = header_fields h"
    using valid by simp
next
  let ?f = "struct_unpack HEADER_FORMAT (drop offset data)"
  assume hyp: "offset + 44 \<le> length data \<and> header_valid h \<and> ?f = header_fields h"
  then have f: "?f = header_fields h" by simp
  have flags: "0 \<le> hdr_flags h"
    using unpacked_flags_nonneg [of "drop offset data"] by (simp add: f header_fields_def)
  have "V3FrameHeader (hdr_kind h) (hdr_flags h) (hdr_total_length h) (hdr_payload_length h) (hdr_run_id h)
      (hdr_sequence h) (hdr_request_id h) (hdr_first_sample_ticks h) (hdr_item_count h) = h"
    using hyp by (cases h; cases "hdr_checksum_algorithm h") (simp add: V3FrameHeader_def header_valid_def)
  then show "decode_v3_header data offset = Inr h"
    using hyp flags
    by (simp add: decode_v3_header_def f header_fields_def Let_def header_valid_def split: if_splits)
qed

lemma check_header_raises [raises_intros]:
  "raises_only {INVALID} (check_data_header h)"
  "raises_only {INVALID} (check_control_header h)"
  unfolding check_data_header_def check_control_header_def check_request_header_def
    check_response_header_def Let_def
  by (intro raises_intros; simp)+

lemma decode_v3_header_raises [raises_intros]: "raises_only {INVALID} (decode_v3_header data offset)"
  unfolding decode_v3_header_def Let_def by (intro raises_intros; simp)

section \<open>Round trips, bounds, locality\<close>

lemma header_to_bytes_length: "header_to_bytes h = Inr bs \<Longrightarrow> length bs = 44"
  by (auto simp: header_to_bytes_def res_simps dest: struct_pack_length)

lemma decode_v3_header_offset:
  "decode_v3_header data offset = decode_v3_header (take (44 + n) (drop offset data)) 0"
  if "44 \<le> length data - offset"
proof -
  have "struct_unpack HEADER_FORMAT (take (44 + n) (drop offset data)) = struct_unpack HEADER_FORMAT (drop offset data)"
    using struct_unpack_take [of HEADER_FORMAT n] by simp
  moreover have "(44 \<le> min (length data - offset) (44 + n)) = (offset + 44 \<le> length data)"
    using that by auto
  ultimately show ?thesis by (simp add: decode_v3_header_def)
qed

text \<open>An accepted header serialises back to the bytes it was read from.\<close>

lemma decode_header_to_bytes:
  assumes "decode_v3_header data offset = Inr h"
  shows "header_to_bytes h = Inr (take 44 (drop offset data))"
proof -
  have d: "offset + 44 \<le> length data" "header_valid h"
      "header_fields h = struct_unpack HEADER_FORMAT (drop offset data)"
    using assms by (simp_all add: decode_v3_header_eq_Inr)
  then have "struct_pack HEADER_FORMAT (header_fields h) = Some (take 44 (drop offset data))"
    using struct_pack_unpack [of HEADER_FORMAT "drop offset data"] by simp
  with d(2) show ?thesis by (simp add: header_valid_to_bytes)
qed

text \<open>A valid header that serialises is accepted again, unchanged.\<close>

lemma header_to_bytes_decode:
  assumes "header_valid h" "header_to_bytes h = Inr bs"
  shows "decode_v3_header (bs @ rest) 0 = Inr h"
proof -
  have pack: "struct_pack HEADER_FORMAT (header_fields h) = Some bs"
    using assms by (simp add: header_valid_to_bytes res_simps)
  then have "length bs = 44" using struct_pack_length by force
  with struct_unpack_pack [OF pack, of rest] assms(1) show ?thesis
    by (simp add: decode_v3_header_eq_Inr)
qed

text \<open>The constructor's result is re-validated before anything is sent.\<close>

lemma decode_constructed_header:
  assumes "header_to_bytes h = Inr bs" "decode_v3_header bs 0 = Inr h'"
    and "hdr_version h = PROTOCOL_VERSION" "hdr_header_length h = HEADER_SIZE"
  shows "h' = h"
proof -
  have pack: "struct_pack HEADER_FORMAT (header_fields h) = Some bs"
    using assms by (cases "hdr_checksum_algorithm h") (auto simp: header_to_bytes_def header_fields_def res_simps)
  from struct_unpack_pack [OF pack, of "[]"] assms(2) have eq: "header_fields h = header_fields h'" "header_valid h'"
    by (simp_all add: decode_v3_header_eq_Inr)
  then have "FrameKind_value (hdr_kind h') = FrameKind_value (hdr_kind h)"
    by (simp add: header_fields_def)
  then have "hdr_kind h' = hdr_kind h" by (metis FrameKind_of_value option.inject)
  moreover have "hdr_checksum_algorithm h' = hdr_checksum_algorithm h"
    by (cases "hdr_checksum_algorithm h"; cases "hdr_checksum_algorithm h'") simp
  moreover have "hdr_version h' = PROTOCOL_VERSION" "hdr_header_length h' = HEADER_SIZE"
    using eq(2) by (simp_all add: header_valid_def)
  ultimately show ?thesis using eq(1) assms(3,4) by (simp add: header_fields_def)
qed

lemma check_data_header_upper: "check_data_header h = Inr () \<Longrightarrow> hdr_payload_length h \<le> 4060"
  by (simp add: check_data_header_def Let_def require_eq_Inr)

lemma check_control_header_upper: "check_control_header h = Inr () \<Longrightarrow> hdr_total_length h \<le> 2048"
  by (simp add: check_control_header_def require_eq_Inr)

lemma header_valid_upper: "header_valid h \<Longrightarrow> hdr_total_length h \<le> MAX_DATA_FRAME_BYTES"
  using check_data_header_upper [of h] check_control_header_upper [of h]
  by (simp add: header_valid_def split: if_splits)

lemma decode_v3_header_bounds:
  assumes "decode_v3_header data offset = Inr h"
  shows "MIN_FRAME_BYTES \<le> hdr_total_length h" "hdr_total_length h \<le> MAX_DATA_FRAME_BYTES"
    "hdr_total_length h = MIN_FRAME_BYTES + hdr_payload_length h" "0 \<le> hdr_payload_length h"
proof -
  have v: "header_valid h" and f: "struct_unpack HEADER_FORMAT (drop offset data) = header_fields h"
    using assms by (simp_all add: decode_v3_header_eq_Inr)
  have "0 \<le> struct_unpack HEADER_FORMAT (drop offset data) ! 8" by (simp add: HEADER_FORMAT_def)
  then show "0 \<le> hdr_payload_length h" unfolding f by (simp add: header_fields_def)
  then show "MIN_FRAME_BYTES \<le> hdr_total_length h" "hdr_total_length h = MIN_FRAME_BYTES + hdr_payload_length h"
    using v by (simp_all add: header_valid_def)
  show "hdr_total_length h \<le> MAX_DATA_FRAME_BYTES" using v by (rule header_valid_upper)
qed

end
