(* ===== verification/V3_Records.thy ===== *)
theory V3_Records
  imports V3_Header
begin

text \<open>
  The fixed-size records of \<^verbatim>\<open>models_v3.py\<close>: settings tuples, CPU clock records, rate
  records and the applied-settings response, each with \<^verbatim>\<open>to_bytes\<close> and \<^verbatim>\<open>from_bytes\<close>.
  The locale \<open>wire_codec\<close> states what a record codec promises its users: encoding and
  decoding are inverse partial functions.
\<close>

section \<open>The codec interface\<close>

locale wire_codec =
  fixes enc :: "'a \<Rightarrow> v3_error + bytes" and dec :: "bytes \<Rightarrow> v3_error + 'a"
  assumes dec_enc: "enc x = Inr bs \<Longrightarrow> dec bs = Inr x"
    and enc_dec: "dec bs = Inr x \<Longrightarrow> enc x = Inr bs"
begin

lemma dec_iff_enc: "dec bs = Inr x \<longleftrightarrow> enc x = Inr bs"
  using dec_enc enc_dec by blast

lemma enc_injective: "enc x = Inr bs \<Longrightarrow> enc y = Inr bs \<Longrightarrow> x = y"
  by (metis dec_enc Inr_inject)

lemma dec_injective: "dec bs = Inr x \<Longrightarrow> dec cs = Inr x \<Longrightarrow> bs = cs"
  by (metis enc_dec Inr_inject)

text \<open>Tables of records: element-wise decoding inverts element-wise encoding.\<close>

lemma dec_all_iff: "map_res dec bss = Inr xs \<longleftrightarrow> map_res enc xs = Inr bss"
  by (auto simp: map_res_eq_Inr dec_iff_enc)

lemma enc_all_distinct: "map_res enc xs = Inr bss \<Longrightarrow> distinct bss = distinct xs"
  unfolding map_res_eq_Inr distinct_conv_nth by (metis enc_injective Inr_inject)

end

section \<open>Settings\<close>

record V3Settings =
  st_stream_mask :: int
  st_source :: Source
  st_checksum_algorithm :: V3ChecksumAlgorithm
  st_wire_version :: int
  st_cpu_profile :: CpuProfile
  st_rate_profile :: RateProfile
  st_aux_bank_mode :: AuxBankMode
  st_gpio_width_bits :: int
  st_gpio_policy :: GpioPolicy
  st_adc_policy :: AdcPolicy
  st_adc_resolution_bits :: int
  st_adc_pair_rate_hz :: int
  st_gpio_sample_rate_hz :: int

text \<open>The thirteen fields in declaration order, as integers.\<close>

definition settings_fields :: "V3Settings \<Rightarrow> int list" where
  "settings_fields s = [st_stream_mask s, Source_value (st_source s),
     V3ChecksumAlgorithm_value (st_checksum_algorithm s), st_wire_version s,
     CpuProfile_value (st_cpu_profile s), RateProfile_value (st_rate_profile s),
     AuxBankMode_value (st_aux_bank_mode s), st_gpio_width_bits s, GpioPolicy_value (st_gpio_policy s),
     AdcPolicy_value (st_adc_policy s), st_adc_resolution_bits s, st_adc_pair_rate_hz s,
     st_gpio_sample_rate_hz s]"

definition pack :: "nat list \<Rightarrow> int list \<Rightarrow> v3_error + bytes" where
  "pack fmt vs = res_of_option INVALID (struct_pack fmt vs)"

definition settings_to_bytes :: "V3Settings \<Rightarrow> v3_error + bytes" where
  "settings_to_bytes s =
     bind_res (pack SETTINGS_FORMAT (take 11 (settings_fields s) @ [0] @ drop 11 (settings_fields s))) (\<lambda>data.
     require (data \<in> set SELECTABLE_CONFIGURATIONS) UNSUPPORTED (Inr data))"

text \<open>The constructor with its \<^verbatim>\<open>__post_init__\<close>: enum conversion, mask range, and a trial \<^verbatim>\<open>to_bytes\<close>.\<close>

definition V3Settings_new :: "int list \<Rightarrow> v3_error + V3Settings" where
  "V3Settings_new f =
     (let mask = int_flag 3 (f ! 0) in
     bind_res (res_of_option INVALID (Source_of_int (f ! 1))) (\<lambda>source.
     bind_res (res_of_option INVALID (V3ChecksumAlgorithm_of_int (f ! 2))) (\<lambda>checksum.
     bind_res (res_of_option INVALID (CpuProfile_of_int (f ! 4))) (\<lambda>cpu.
     bind_res (res_of_option INVALID (RateProfile_of_int (f ! 5))) (\<lambda>rate.
     bind_res (res_of_option INVALID (AuxBankMode_of_int (f ! 6))) (\<lambda>aux.
     bind_res (res_of_option INVALID (GpioPolicy_of_int (f ! 8))) (\<lambda>gpio.
     bind_res (res_of_option INVALID (AdcPolicy_of_int (f ! 9))) (\<lambda>adc.
     require (1 \<le> mask \<and> mask \<le> 3) INVALID (
     let s = \<lparr>st_stream_mask = mask, st_source = source, st_checksum_algorithm = checksum,
        st_wire_version = f ! 3, st_cpu_profile = cpu, st_rate_profile = rate, st_aux_bank_mode = aux,
        st_gpio_width_bits = f ! 7, st_gpio_policy = gpio, st_adc_policy = adc,
        st_adc_resolution_bits = f ! 10, st_adc_pair_rate_hz = f ! 11, st_gpio_sample_rate_hz = f ! 12\<rparr> in
     bind_res (settings_to_bytes s) (\<lambda>_. Inr s))))))))))"

definition settings_from_bytes :: "bytes \<Rightarrow> v3_error + V3Settings" where
  "settings_from_bytes payload =
     bind_res (bounded_bytes payload SETTINGS_PAYLOAD_SIZE SETTINGS_PAYLOAD_SIZE) (\<lambda>data.
     let fields = struct_unpack SETTINGS_FORMAT data in
     require (fields ! 11 = 0) INVALID (
     V3Settings_new (take 11 fields @ drop 12 fields)))"

definition default_settings :: "v3_error + V3Settings" where
  "default_settings = settings_from_bytes DEFAULT_SETTINGS"

section \<open>Clocks and rates\<close>

record V3Clocks =
  cl_cpu_profile :: CpuProfile
  cl_cpu_clock_hz :: int
  cl_ipg_clock_hz :: int
  cl_adc_clock_hz :: int
  cl_pit_clock_hz :: int
  cl_timestamp_hz :: int

definition clocks_to_bytes :: "V3Clocks \<Rightarrow> v3_error + bytes" where
  "clocks_to_bytes k =
     bind_res (pack CPU_PROFILE_INFO_FORMAT [CpuProfile_value (cl_cpu_profile k), 0, 0, cl_cpu_clock_hz k,
       cl_ipg_clock_hz k, cl_adc_clock_hz k, cl_pit_clock_hz k, cl_timestamp_hz k]) (\<lambda>data.
     require (data \<in> set CPU_PROFILES) INVALID (Inr data))"

text \<open>The enum conversion cannot fail: every record of the table has a known profile.\<close>

definition clocks_from_bytes :: "bytes \<Rightarrow> v3_error + V3Clocks" where
  "clocks_from_bytes payload =
     bind_res (bounded_bytes payload (sum_list CPU_PROFILE_INFO_FORMAT) (sum_list CPU_PROFILE_INFO_FORMAT)) (\<lambda>data.
     require (data \<in> set CPU_PROFILES) INVALID (
     let f = struct_unpack CPU_PROFILE_INFO_FORMAT data in
     Inr \<lparr>cl_cpu_profile = the (CpuProfile_of_int (f ! 0)), cl_cpu_clock_hz = f ! 3, cl_ipg_clock_hz = f ! 4,
          cl_adc_clock_hz = f ! 5, cl_pit_clock_hz = f ! 6, cl_timestamp_hz = f ! 7\<rparr>))"

definition clocks_for_profile :: "CpuProfile \<Rightarrow> v3_error + V3Clocks" where
  "clocks_for_profile profile =
     (case List.find (\<lambda>data. uint (data ! 0) = CpuProfile_value profile) CPU_PROFILES of
        Some data \<Rightarrow> clocks_from_bytes data
      | None \<Rightarrow> Inl INVALID)"

record V3Rate =
  rt_rate_profile :: RateProfile
  rt_adc_pair_rate_hz :: int
  rt_gpio_sample_rate_hz :: int
  rt_adc_pair_period_ticks :: int
  rt_gpio_sample_period_ticks :: int
  rt_adc1_phase_ticks :: int

definition rate_to_bytes :: "V3Rate \<Rightarrow> v3_error + bytes" where
  "rate_to_bytes r =
     bind_res (pack RATE_PROFILE_INFO_FORMAT [RateProfile_value (rt_rate_profile r), 0, 0, rt_adc_pair_rate_hz r,
       rt_gpio_sample_rate_hz r, rt_adc_pair_period_ticks r, rt_gpio_sample_period_ticks r,
       rt_adc1_phase_ticks r, 0]) (\<lambda>data.
     require (data \<in> set RATE_PROFILES) INVALID (Inr data))"

definition rate_from_bytes :: "bytes \<Rightarrow> v3_error + V3Rate" where
  "rate_from_bytes payload =
     bind_res (bounded_bytes payload (sum_list RATE_PROFILE_INFO_FORMAT) (sum_list RATE_PROFILE_INFO_FORMAT)) (\<lambda>data.
     require (data \<in> set RATE_PROFILES) INVALID (
     let f = struct_unpack RATE_PROFILE_INFO_FORMAT data in
     Inr \<lparr>rt_rate_profile = the (RateProfile_of_int (f ! 0)), rt_adc_pair_rate_hz = f ! 3,
          rt_gpio_sample_rate_hz = f ! 4, rt_adc_pair_period_ticks = f ! 5,
          rt_gpio_sample_period_ticks = f ! 6, rt_adc1_phase_ticks = f ! 7\<rparr>))"

section \<open>Applied settings\<close>

definition OK_PREFIX :: bytes where
  "OK_PREFIX = replicate RESPONSE_PREFIX_PAYLOAD_SIZE 0"

definition success :: "bytes \<Rightarrow> nat \<Rightarrow> v3_error + bytes" where
  "success payload n =
     bind_res (bounded_bytes payload n n) (\<lambda>data.
     require (take 4 data = OK_PREFIX) INVALID (Inr data))"

record V3AppliedSettings =
  ap_settings :: V3Settings
  ap_clocks :: V3Clocks

definition applied_to_payload :: "V3AppliedSettings \<Rightarrow> v3_error + bytes" where
  "applied_to_payload a =
     require (st_cpu_profile (ap_settings a) = cl_cpu_profile (ap_clocks a)) INVALID (
     bind_res (settings_to_bytes (ap_settings a)) (\<lambda>s.
     bind_res (clocks_to_bytes (ap_clocks a)) (\<lambda>k.
     Inr (OK_PREFIX @ s @ k))))"

definition applied_from_payload :: "bytes \<Rightarrow> v3_error + V3AppliedSettings" where
  "applied_from_payload payload =
     bind_res (success payload SETTINGS_RESPONSE_PAYLOAD_SIZE) (\<lambda>data.
     bind_res (settings_from_bytes (py_slice 4 24 data)) (\<lambda>s.
     bind_res (clocks_from_bytes (drop 24 data)) (\<lambda>k.
     let result = \<lparr>ap_settings = s, ap_clocks = k\<rparr> in
     bind_res (applied_to_payload result) (\<lambda>_. Inr result))))"

section \<open>Codec laws\<close>

lemma pack_eq_Inr [res_simps]: "pack fmt vs = Inr bs \<longleftrightarrow> struct_pack fmt vs = Some bs"
  by (simp add: pack_def res_of_option_eq_Inr)

lemma pack_unpack_iff:
  "struct_pack ws vs = Some bs \<longleftrightarrow> length bs = sum_list ws \<and> struct_unpack ws bs = vs"
proof
  assume "struct_pack ws vs = Some bs"
  then show "length bs = sum_list ws \<and> struct_unpack ws bs = vs"
    using struct_pack_length struct_unpack_pack [of ws vs bs "[]"] by simp
next
  assume "length bs = sum_list ws \<and> struct_unpack ws bs = vs"
  then show "struct_pack ws vs = Some bs" using struct_pack_unpack [of ws bs] by auto
qed

lemma selectable_rows:
  "row \<in> set SELECTABLE_CONFIGURATIONS \<Longrightarrow> length row = 20 \<and> row ! 11 = 0 \<and> 1 \<le> uint (row ! 0) \<and> uint (row ! 0) \<le> 3"
proof -
  have "\<forall>row \<in> set SELECTABLE_CONFIGURATIONS. length row = 20 \<and> row ! 11 = 0 \<and> 1 \<le> uint (row ! 0) \<and> uint (row ! 0) \<le> 3"
    by code_simp
  then show "row \<in> set SELECTABLE_CONFIGURATIONS \<Longrightarrow> ?thesis" by blast
qed

lemma settings_new_iff:
  assumes "length f = 13" "0 \<le> f ! 0"
  shows "V3Settings_new f = Inr s \<longleftrightarrow>
    settings_fields s = f \<and> 1 \<le> st_stream_mask s \<and> st_stream_mask s \<le> 3 \<and> (\<exists>b. settings_to_bytes s = Inr b)"
proof
  assume new: "V3Settings_new f = Inr s"
  have mask: "int_flag 3 (f ! 0) = f ! 0" using assms by (simp add: int_flag_def)
  have f: "f = [f!0, f!1, f!2, f!3, f!4, f!5, f!6, f!7, f!8, f!9, f!10, f!11, f!12]"
    using assms(1) by (intro nth_equalityI) (auto simp: less_Suc_eq numeral_eq_Suc)
  show "settings_fields s = f \<and> 1 \<le> st_stream_mask s \<and> st_stream_mask s \<le> 3 \<and> (\<exists>b. settings_to_bytes s = Inr b)"
    using new mask
    by (subst f) (auto simp: V3Settings_new_def Let_def res_simps settings_fields_def
      dest!: Source_of_int_Some V3ChecksumAlgorithm_of_int_Some CpuProfile_of_int_Some RateProfile_of_int_Some
        AuxBankMode_of_int_Some GpioPolicy_of_int_Some AdcPolicy_of_int_Some)
next
  assume s: "settings_fields s = f \<and> 1 \<le> st_stream_mask s \<and> st_stream_mask s \<le> 3 \<and> (\<exists>b. settings_to_bytes s = Inr b)"
  then have "f = settings_fields s" by simp
  then show "V3Settings_new f = Inr s"
    using s by (cases s) (auto simp: V3Settings_new_def settings_fields_def Let_def int_flag_def)
qed

lemma list_insert_at: "k \<le> length g \<Longrightarrow> length f = Suc (length g) \<Longrightarrow>
    (take k g @ [v] @ drop k g = f) \<longleftrightarrow> (f ! k = v \<and> take k f @ drop (Suc k) f = g)"
proof
  assume k: "k \<le> length g" "length f = Suc (length g)" and "take k g @ [v] @ drop k g = f"
  then show "f ! k = v \<and> take k f @ drop (Suc k) f = g" by (auto simp: nth_append)
next
  assume k: "k \<le> length g" "length f = Suc (length g)" and f: "f ! k = v \<and> take k f @ drop (Suc k) f = g"
  then have g: "g = take k f @ drop (Suc k) f" by blast
  have kf: "length (take k f) = k" "k < length f" using k by simp_all
  have "take k g = take k f" "drop k g = drop (Suc k) f" unfolding g using kf by simp_all
  moreover have "f = take k f @ f ! k # drop (Suc k) f" by (rule id_take_nth_drop [OF kf(2)])
  ultimately show "take k g @ [v] @ drop k g = f" by (metis append_Cons append_Nil f)
qed

lemma settings_from_bytes_iff: "settings_from_bytes b = Inr s \<longleftrightarrow> settings_to_bytes s = Inr b"
proof -
  let ?g = "struct_unpack SETTINGS_FORMAT b"
  have lens: "length (settings_fields s) = 13" "length ?g = 14" "sum_list SETTINGS_FORMAT = 20"
    by (simp_all add: settings_fields_def SETTINGS_FORMAT_def)
  have g0: "0 \<le> (take 11 ?g @ drop 12 ?g) ! 0" by (simp add: SETTINGS_FORMAT_def)
  have wire: "take 11 (settings_fields s) @ [0] @ drop 11 (settings_fields s) = ?g \<longleftrightarrow>
      ?g ! 11 = 0 \<and> settings_fields s = take 11 ?g @ drop 12 ?g"
    using list_insert_at [of 11 "settings_fields s" ?g 0] lens by auto
  have to: "settings_to_bytes s = Inr b' \<longleftrightarrow> b' \<in> set SELECTABLE_CONFIGURATIONS \<and>
      struct_pack SETTINGS_FORMAT (take 11 (settings_fields s) @ [0] @ drop 11 (settings_fields s)) = Some b'" for b'
    by (auto simp: settings_to_bytes_def res_simps)
  show ?thesis
  proof
    assume "settings_from_bytes b = Inr s"
    then have b: "length b = 20" "?g ! 11 = 0" "V3Settings_new (take 11 ?g @ drop 12 ?g) = Inr s"
      by (auto simp: settings_from_bytes_def Let_def res_simps)
    then obtain b' where s: "settings_fields s = take 11 ?g @ drop 12 ?g" "settings_to_bytes s = Inr b'"
      using settings_new_iff [OF _ g0] lens by auto
    have "struct_pack SETTINGS_FORMAT (take 11 (settings_fields s) @ [0] @ drop 11 (settings_fields s)) = Some b"
      using wire s(1) b lens by (simp add: pack_unpack_iff)
    with s(2) to show "settings_to_bytes s = Inr b" by auto
  next
    assume b: "settings_to_bytes s = Inr b"
    then have sel: "b \<in> set SELECTABLE_CONFIGURATIONS" and u: "length b = 20"
        "take 11 (settings_fields s) @ [0] @ drop 11 (settings_fields s) = ?g"
      using to lens by (auto simp: pack_unpack_iff)
    have "st_stream_mask s = ?g ! 0" using u(2) by (metis settings_fields_def append_Cons nth_Cons_0 take_Suc_Cons numeral_eq_Suc)
    also have "?g ! 0 = uint (b ! 0)" using u(1) by (cases b) (simp_all add: SETTINGS_FORMAT_def)
    finally have "1 \<le> st_stream_mask s \<and> st_stream_mask s \<le> 3" using selectable_rows [OF sel] by simp
    then show "settings_from_bytes b = Inr s"
      using b u wire lens settings_new_iff [OF _ g0] by (auto simp: settings_from_bytes_def Let_def res_simps)
  qed
qed

interpretation settings_codec: wire_codec settings_to_bytes settings_from_bytes
  by unfold_locales (simp_all add: settings_from_bytes_iff)

lemma cpu_profile_rows:
  "b \<in> set CPU_PROFILES \<Longrightarrow> length b = 24 \<and> (let g = struct_unpack CPU_PROFILE_INFO_FORMAT b in
     g ! 1 = 0 \<and> g ! 2 = 0 \<and> CpuProfile_of_int (g ! 0) \<noteq> None)"
proof -
  have "\<forall>b \<in> set CPU_PROFILES. length b = 24 \<and> (let g = struct_unpack CPU_PROFILE_INFO_FORMAT b in
     g ! 1 = 0 \<and> g ! 2 = 0 \<and> CpuProfile_of_int (g ! 0) \<noteq> None)" by code_simp
  then show "b \<in> set CPU_PROFILES \<Longrightarrow> ?thesis" by blast
qed

lemma clocks_from_bytes_iff: "clocks_from_bytes b = Inr k \<longleftrightarrow> clocks_to_bytes k = Inr b"
proof -
  let ?g = "struct_unpack CPU_PROFILE_INFO_FORMAT b"
  have fmt: "sum_list CPU_PROFILE_INFO_FORMAT = 24" "length ?g = 8" by (simp_all add: CPU_PROFILE_INFO_FORMAT_def)
  have g: "?g = [?g!0, ?g!1, ?g!2, ?g!3, ?g!4, ?g!5, ?g!6, ?g!7]"
    using fmt by (intro nth_equalityI) (auto simp: less_Suc_eq numeral_eq_Suc)
  have to: "clocks_to_bytes k = Inr b \<longleftrightarrow> b \<in> set CPU_PROFILES \<and> length b = 24 \<and>
      ?g = [CpuProfile_value (cl_cpu_profile k), 0, 0, cl_cpu_clock_hz k,
       cl_ipg_clock_hz k, cl_adc_clock_hz k, cl_pit_clock_hz k, cl_timestamp_hz k]"
    using fmt by (auto simp: clocks_to_bytes_def res_simps pack_unpack_iff)
  have "clocks_from_bytes b = Inr k \<longleftrightarrow> b \<in> set CPU_PROFILES \<and> length b = 24 \<and>
      k = \<lparr>cl_cpu_profile = the (CpuProfile_of_int (?g ! 0)), cl_cpu_clock_hz = ?g ! 3, cl_ipg_clock_hz = ?g ! 4,
          cl_adc_clock_hz = ?g ! 5, cl_pit_clock_hz = ?g ! 6, cl_timestamp_hz = ?g ! 7\<rparr>"
    using fmt by (auto simp: clocks_from_bytes_def Let_def res_simps)
  also have "\<dots> \<longleftrightarrow> clocks_to_bytes k = Inr b"
  proof (cases "b \<in> set CPU_PROFILES")
    case True
    with cpu_profile_rows obtain p where p: "CpuProfile_of_int (?g ! 0) = Some p" "?g ! 1 = 0" "?g ! 2 = 0"
      by (fastforce simp: Let_def)
    from CpuProfile_of_int_Some [OF p(1)] have "?g ! 0 = CpuProfile_value p" ..
    then show ?thesis unfolding to using p
      by (subst (2) g) (cases k, auto dest: arg_cong [of _ _ CpuProfile_of_int])
  qed (simp add: to)
  finally show ?thesis .
qed

interpretation clocks_codec: wire_codec clocks_to_bytes clocks_from_bytes
  by unfold_locales (simp_all add: clocks_from_bytes_iff)

lemma rate_profile_rows:
  "b \<in> set RATE_PROFILES \<Longrightarrow> length b = 20 \<and> (let g = struct_unpack RATE_PROFILE_INFO_FORMAT b in
     g ! 1 = 0 \<and> g ! 2 = 0 \<and> g ! 8 = 0 \<and> RateProfile_of_int (g ! 0) \<noteq> None)"
proof -
  have "\<forall>b \<in> set RATE_PROFILES. length b = 20 \<and> (let g = struct_unpack RATE_PROFILE_INFO_FORMAT b in
     g ! 1 = 0 \<and> g ! 2 = 0 \<and> g ! 8 = 0 \<and> RateProfile_of_int (g ! 0) \<noteq> None)" by code_simp
  then show "b \<in> set RATE_PROFILES \<Longrightarrow> ?thesis" by blast
qed

lemma rate_from_bytes_iff: "rate_from_bytes b = Inr r \<longleftrightarrow> rate_to_bytes r = Inr b"
proof -
  let ?g = "struct_unpack RATE_PROFILE_INFO_FORMAT b"
  have fmt: "sum_list RATE_PROFILE_INFO_FORMAT = 20" "length ?g = 9" by (simp_all add: RATE_PROFILE_INFO_FORMAT_def)
  have g: "?g = [?g!0, ?g!1, ?g!2, ?g!3, ?g!4, ?g!5, ?g!6, ?g!7, ?g!8]"
    using fmt by (intro nth_equalityI) (auto simp: less_Suc_eq numeral_eq_Suc)
  have to: "rate_to_bytes r = Inr b \<longleftrightarrow> b \<in> set RATE_PROFILES \<and> length b = 20 \<and>
      ?g = [RateProfile_value (rt_rate_profile r), 0, 0, rt_adc_pair_rate_hz r, rt_gpio_sample_rate_hz r,
       rt_adc_pair_period_ticks r, rt_gpio_sample_period_ticks r, rt_adc1_phase_ticks r, 0]"
    using fmt by (auto simp: rate_to_bytes_def res_simps pack_unpack_iff)
  have "rate_from_bytes b = Inr r \<longleftrightarrow> b \<in> set RATE_PROFILES \<and> length b = 20 \<and>
      r = \<lparr>rt_rate_profile = the (RateProfile_of_int (?g ! 0)), rt_adc_pair_rate_hz = ?g ! 3,
          rt_gpio_sample_rate_hz = ?g ! 4, rt_adc_pair_period_ticks = ?g ! 5,
          rt_gpio_sample_period_ticks = ?g ! 6, rt_adc1_phase_ticks = ?g ! 7\<rparr>"
    using fmt by (auto simp: rate_from_bytes_def Let_def res_simps)
  also have "\<dots> \<longleftrightarrow> rate_to_bytes r = Inr b"
  proof (cases "b \<in> set RATE_PROFILES")
    case True
    with rate_profile_rows obtain p where p: "RateProfile_of_int (?g ! 0) = Some p" "?g ! 1 = 0" "?g ! 2 = 0" "?g ! 8 = 0"
      by (fastforce simp: Let_def)
    from RateProfile_of_int_Some [OF p(1)] have "?g ! 0 = RateProfile_value p" ..
    then show ?thesis unfolding to using p
      by (subst (2) g) (cases r, auto dest: arg_cong [of _ _ RateProfile_of_int])
  qed (simp add: to)
  finally show ?thesis .
qed

interpretation rate_codec: wire_codec rate_to_bytes rate_from_bytes
  by unfold_locales (simp_all add: rate_from_bytes_iff)

lemma record_lengths:
  "settings_to_bytes s = Inr b \<Longrightarrow> length b = 20"
  "clocks_to_bytes k = Inr c \<Longrightarrow> length c = 24"
  "rate_to_bytes r = Inr d \<Longrightarrow> length d = 20"
  using selectable_rows cpu_profile_rows rate_profile_rows
  by (auto simp: settings_to_bytes_def clocks_to_bytes_def rate_to_bytes_def res_simps)

lemma success_eq_Inr [res_simps]: "success p n = Inr d \<longleftrightarrow> d = p \<and> length p = n \<and> take 4 p = OK_PREFIX"
  by (auto simp: success_def res_simps)

lemma length_OK_PREFIX [simp]: "length OK_PREFIX = 4"
  by (simp add: OK_PREFIX_def)

lemma applied_from_payload_iff: "applied_from_payload p = Inr a \<longleftrightarrow> applied_to_payload a = Inr p"
proof
  assume "applied_from_payload p = Inr a"
  then obtain s k p' where p: "length p = 48" "take 4 p = OK_PREFIX"
    and s: "settings_to_bytes s = Inr (py_slice 4 24 p)" and k: "clocks_to_bytes k = Inr (drop 24 p)"
    and a: "a = \<lparr>ap_settings = s, ap_clocks = k\<rparr>" "applied_to_payload a = Inr p'"
    by (auto simp: applied_from_payload_def Let_def res_simps settings_from_bytes_iff clocks_from_bytes_iff)
  have "p = OK_PREFIX @ py_slice 4 24 p @ drop 24 p"
    using p(2) append_take_drop_id [of 4 p] append_take_drop_id [of 20 "drop 4 p"] by (simp add: py_slice_def)
  then show "applied_to_payload a = Inr p"
    using a s k by (auto simp: applied_to_payload_def res_simps)
next
  assume to: "applied_to_payload a = Inr p"
  then obtain s k where b: "settings_to_bytes (ap_settings a) = Inr s" "clocks_to_bytes (ap_clocks a) = Inr k"
    "p = OK_PREFIX @ s @ k" by (auto simp: applied_to_payload_def res_simps)
  then have l: "length s = 20" "length k = 24" using record_lengths by auto
  then have "py_slice 4 24 p = s" "drop 24 p = k" "length p = 48" "take 4 p = OK_PREFIX"
    using b(3) by (simp_all add: py_slice_def)
  then show "applied_from_payload p = Inr a"
    using to b(1,2) by (cases a) (simp add: applied_from_payload_def Let_def res_simps settings_from_bytes_iff clocks_from_bytes_iff)
qed

interpretation applied_codec: wire_codec applied_to_payload applied_from_payload
  by unfold_locales (simp_all add: applied_from_payload_iff)

lemma applied_length: "applied_to_payload a = Inr p \<Longrightarrow> length p = 48 \<and> take 4 p = OK_PREFIX"
  unfolding applied_from_payload_iff [symmetric] by (auto simp: applied_from_payload_def res_simps)

lemma settings_decodable: "b \<in> set SELECTABLE_CONFIGURATIONS \<Longrightarrow> \<exists>s. settings_from_bytes b = Inr s"
proof -
  have all: "\<forall>b \<in> set SELECTABLE_CONFIGURATIONS. case settings_from_bytes b of Inr s \<Rightarrow> True | Inl e \<Rightarrow> False"
    by code_simp
  assume "b \<in> set SELECTABLE_CONFIGURATIONS"
  with bspec [OF all] show ?thesis by (cases "settings_from_bytes b") fastforce+
qed

text \<open>
  Property C13. A settings record decodes exactly when it is one of the selectable
  configurations, and then it serialises back to the same bytes.
\<close>

theorem settings_from_bytes_selectable:
  "((\<exists>s. settings_from_bytes b = Inr s) \<longleftrightarrow> b \<in> set SELECTABLE_CONFIGURATIONS) \<and>
   (settings_from_bytes b = Inr s \<longleftrightarrow> settings_to_bytes s = Inr b)"
proof -
  have "b \<in> set SELECTABLE_CONFIGURATIONS" if "settings_from_bytes b = Inr s" for s
    using that by (auto simp: settings_from_bytes_iff settings_to_bytes_def res_simps)
  then show ?thesis using settings_decodable settings_from_bytes_iff by blast
qed

end
