(* ===== verification/V3_Codec.thy ===== *)
theory V3_Codec
  imports V3_Header
begin

text \<open>
  The lossless sample codecs of \<^verbatim>\<open>protocol_v3.py\<close>: RAW and PACK12 for ADC pairs, RAW and
  run-length records for GPIO samples, with the bounded decoder that the frame validation runs.
\<close>

section \<open>Byte lanes\<close>

text \<open>\<^verbatim>\<open>xs[a::n]\<close>, and the extended slice assignment \<^verbatim>\<open>xs[a::n] = ys\<close> for a \<open>ys\<close> of the slice's length.\<close>

definition py_stride :: "nat \<Rightarrow> nat \<Rightarrow> 'a list \<Rightarrow> 'a list" where
  "py_stride a n xs = map (\<lambda>i. xs ! (a + i * n)) [0..<(length xs - a + n - 1) div n]"

definition set_stride :: "nat \<Rightarrow> nat \<Rightarrow> 'a list \<Rightarrow> 'a list \<Rightarrow> 'a list" where
  "set_stride a n xs ys =
     map (\<lambda>j. if a \<le> j \<and> (j - a) mod n = 0 then ys ! ((j - a) div n) else xs ! j) [0..<length xs]"

text \<open>\<^verbatim>\<open>bytes.translate(table)\<close> and the three nibble tables.\<close>

definition translate :: "bytes \<Rightarrow> bytes \<Rightarrow> bytes" where
  "translate table bs = map (\<lambda>b. table ! unat b) bs"

definition LOW_NIBBLE :: bytes where
  "LOW_NIBBLE = map (\<lambda>i. word_of_int (int i AND 15)) [0..<256]"

definition HIGH_NIBBLE :: bytes where
  "HIGH_NIBBLE = map (\<lambda>i. word_of_int (drop_bit 4 (int i))) [0..<256]"

definition LOW_NIBBLE_SHIFT :: bytes where
  "LOW_NIBBLE_SHIFT = map (\<lambda>i. word_of_int (push_bit 4 (int i AND 15))) [0..<256]"

text \<open>
  \<^verbatim>\<open>adc_payload_codes_valid\<close>: deleting the bytes 0..15 from the odd lane leaves nothing.
\<close>

definition adc_payload_codes_valid :: "bytes \<Rightarrow> bool" where
  "adc_payload_codes_valid payload \<longleftrightarrow> filter (\<lambda>b. \<not> uint b < 16) (py_stride 1 2 payload) = []"

text \<open>The PACK12 branch of \<^verbatim>\<open>decode_data_payload\<close>, lane by lane.\<close>

definition unpack12 :: "nat \<Rightarrow> bytes \<Rightarrow> bytes" where
  "unpack12 item_count samples = (
     let middle = py_stride 1 3 samples; high = py_stride 2 3 samples;
         expanded = replicate (4 * item_count) 0;
         expanded = set_stride 0 4 expanded (py_stride 0 3 samples);
         expanded = set_stride 1 4 expanded (translate LOW_NIBBLE middle);
         expanded = set_stride 2 4 expanded
           (le_bytes item_count (le_int (translate HIGH_NIBBLE middle) OR le_int (translate LOW_NIBBLE_SHIFT high)));
         expanded = set_stride 3 4 expanded (translate HIGH_NIBBLE high)
     in expanded)"

section \<open>Run-length records\<close>

text \<open>\<^verbatim>\<open>struct.iter_unpack("<HB" or "<HH", samples)\<close>: pairs of run length and value.\<close>

definition rle_records :: "nat \<Rightarrow> bytes \<Rightarrow> (int \<times> int) list" where
  "rle_records width samples =
     map (\<lambda>i. let f = struct_unpack [2, width] (drop (i * (2 + width)) samples) in (f ! 0, f ! 1))
       [0..<length samples div (2 + width)]"

fun check_runs :: "int \<Rightarrow> (int \<times> int) list \<Rightarrow> int \<Rightarrow> int option \<Rightarrow> v3_error + int" where
  "check_runs item_count [] covered previous = Inr covered"
| "check_runs item_count ((run, v) # rs) covered previous =
     require (0 < run \<and> covered + run \<le> item_count) INVALID (
     require (Some v \<noteq> previous) INVALID (
     check_runs item_count rs (covered + run) (Some v)))"

definition expand_runs :: "nat \<Rightarrow> (int \<times> int) list \<Rightarrow> bytes" where
  "expand_runs width rs = concat (map (\<lambda>(run, v). concat (replicate (nat run) (le_bytes width v))) rs)"

section \<open>Decoding\<close>

record V3DecodedData =
  dd_encoding :: Encoding
  dd_item_bytes :: int
  dd_item_count :: int
  dd_payload :: bytes
  dd_encoded_sample_bytes :: nat

definition decoded_bytes :: "V3DecodedData \<Rightarrow> nat" where
  "decoded_bytes d = length (dd_payload d)"

definition decode_raw :: "FrameKind \<Rightarrow> bytes \<Rightarrow> int \<Rightarrow> int \<Rightarrow> v3_error + bytes" where
  "decode_raw kind samples decoded runs =
     require (runs = 0 \<and> int (length samples) = decoded) INVALID (
     require (kind = FK_ADC_DATA \<longrightarrow> adc_payload_codes_valid samples) INVALID (
     Inr samples))"

definition decode_pack12 :: "FrameKind \<Rightarrow> bytes \<Rightarrow> int \<Rightarrow> int \<Rightarrow> v3_error + bytes" where
  "decode_pack12 kind samples item_count runs =
     require (kind = FK_ADC_DATA \<and> runs = 0) INVALID (
     require (int (length samples) = 3 * item_count) INVALID (
     Inr (unpack12 (nat item_count) samples)))"

definition decode_rle :: "FrameKind \<Rightarrow> bytes \<Rightarrow> int \<Rightarrow> int \<Rightarrow> int \<Rightarrow> int \<Rightarrow> v3_error + bytes" where
  "decode_rle kind samples width item_count decoded runs =
     require (kind = FK_GPIO_DATA) INVALID (
     require (1 \<le> runs \<and> runs \<le> item_count \<and> int (length samples) = runs * (2 + width)) INVALID (
     require (int (length samples) < decoded) INVALID (
     let rs = rle_records (nat width) samples in
     bind_res (check_runs item_count rs 0 None) (\<lambda>covered.
     require (covered = item_count) INVALID (
     Inr (expand_runs (nat width) rs))))))"

definition decode_data_payload :: "FrameKind \<Rightarrow> bytes \<Rightarrow> int \<Rightarrow> v3_error + V3DecodedData" where
  "decode_data_payload kind payload item_count =
     bind_res (bounded_bytes payload DATA_PREFIX_BYTES (DATA_PREFIX_BYTES + MAX_ENCODED_SAMPLE_BYTES)) (\<lambda>data.
     let f = struct_unpack DATA_PREFIX_FORMAT data;
         encoding = f ! 0; width = f ! 1; reserved = f ! 2; decoded = f ! 3; runs = f ! 4 in
     require (is_data_kind kind) INVALID (
     require (reserved = 0) INVALID (
     require (if kind = FK_ADC_DATA then width = 4 else width \<in> {1, 2}) INVALID (
     require (1 \<le> item_count \<and> item_count \<le> MAX_LOGICAL_PAYLOAD_BYTES div width) INVALID (
     require (decoded = item_count * width) INVALID (
     let samples = drop DATA_PREFIX_BYTES data in
     bind_res (
       if encoding = Encoding_value ENC_RAW
       then map_sum id (Pair ENC_RAW) (decode_raw kind samples decoded runs)
       else if encoding = Encoding_value ENC_ADC_PACK12
       then map_sum id (Pair ENC_ADC_PACK12) (decode_pack12 kind samples item_count runs)
       else if encoding = Encoding_value ENC_GPIO_RLE
       then map_sum id (Pair ENC_GPIO_RLE) (decode_rle kind samples width item_count decoded runs)
       else Inl INVALID) (\<lambda>(enc, raw).
     Inr \<lparr>dd_encoding = enc, dd_item_bytes = width, dd_item_count = item_count, dd_payload = raw,
          dd_encoded_sample_bytes = length samples\<rparr>)))))))"

section \<open>Encoding\<close>

text \<open>\<^verbatim>\<open>_PREFIX.pack\<close>; every call has its five fields in range.\<close>

definition data_prefix :: "Encoding \<Rightarrow> int \<Rightarrow> int \<Rightarrow> int \<Rightarrow> bytes" where
  "data_prefix encoding width decoded runs =
     the (struct_pack DATA_PREFIX_FORMAT [Encoding_value encoding, width, 0, decoded, runs])"

definition encode_adc_pair :: "AdcPolicy \<Rightarrow> int \<times> int \<Rightarrow> v3_error + bytes" where
  "encode_adc_pair policy = (\<lambda>(a, b).
     require (0 \<le> a \<and> a \<le> 4095 \<and> 0 \<le> b \<and> b \<le> 4095) INVALID (Inr (
       case policy of
         AP_PACK12 \<Rightarrow> [word_of_int (a AND 255), word_of_int (drop_bit 8 a OR push_bit 4 (b AND 15)),
                       word_of_int (drop_bit 4 b)]
       | AP_RAW \<Rightarrow> le_bytes 2 a @ le_bytes 2 b)))"

definition encode_adc_payload :: "(int \<times> int) list \<Rightarrow> AdcPolicy \<Rightarrow> v3_error + bytes" where
  "encode_adc_payload pairs policy =
     require (1 \<le> length pairs \<and> length pairs \<le> MAX_ADC_PAIRS) INVALID (
     bind_res (map_res (encode_adc_pair policy) pairs) (\<lambda>samples.
     Inr (data_prefix (if policy = AP_PACK12 then ENC_ADC_PACK12 else ENC_RAW) 4 (4 * int (length pairs)) 0
          @ concat samples)))"

text \<open>
  The state of the \<^verbatim>\<open>encode_gpio_payload\<close> loop. \<^verbatim>\<open>length.to_bytes(2)\<close> cannot overflow: a
  block has at most 4048 samples.
\<close>

record gpio_state =
  g_raw :: bytes
  g_rle :: bytes
  g_previous :: "int option"
  g_length :: int
  g_runs :: int

definition rle_record :: "nat \<Rightarrow> int \<Rightarrow> int \<Rightarrow> bytes" where
  "rle_record width run v = le_bytes 2 run @ le_bytes width v"

definition gpio_step :: "nat \<Rightarrow> int \<Rightarrow> gpio_state \<Rightarrow> gpio_state" where
  "gpio_step width v st = (
     let st = st\<lparr>g_raw := g_raw st @ le_bytes width v\<rparr> in
     if Some v = g_previous st then st\<lparr>g_length := g_length st + 1\<rparr>
     else (let st = (case g_previous st of None \<Rightarrow> st
                     | Some p \<Rightarrow> st\<lparr>g_rle := g_rle st @ rle_record width (g_length st) p, g_runs := g_runs st + 1\<rparr>)
           in st\<lparr>g_previous := Some v, g_length := 1\<rparr>))"

fun gpio_loop :: "nat \<Rightarrow> int list \<Rightarrow> gpio_state \<Rightarrow> v3_error + gpio_state" where
  "gpio_loop width [] st = Inr st"
| "gpio_loop width (v # vs) st =
     require (0 \<le> v \<and> v < 2 ^ (8 * width)) INVALID (gpio_loop width vs (gpio_step width v st))"

definition encode_gpio_payload :: "int list \<Rightarrow> int \<Rightarrow> GpioPolicy \<Rightarrow> v3_error + bytes" where
  "encode_gpio_payload values width_bits policy =
     require (width_bits \<in> {8, 16}) INVALID (
     let width = nat (width_bits div 8) in
     require (1 \<le> length values \<and> length values \<le> MAX_LOGICAL_PAYLOAD_BYTES div width) INVALID (
     bind_res (gpio_loop width values
       \<lparr>g_raw = [], g_rle = [], g_previous = None, g_length = 0, g_runs = 0\<rparr>) (\<lambda>st.
     let raw = g_raw st;
         rle = g_rle st @ rle_record width (g_length st) (the (g_previous st));
         runs = g_runs st + 1 in
     if policy = GP_RLE_AUTO \<and> length rle < length raw
     then Inr (data_prefix ENC_GPIO_RLE (int width) (int (length raw)) runs @ rle)
     else Inr (data_prefix ENC_RAW (int width) (int (length raw)) 0 @ raw))))"

section \<open>Lanes, equationally\<close>

lemma length_py_stride: "a < n \<Longrightarrow> length xs = n * k \<Longrightarrow> length (py_stride a n xs) = k"
proof -
  assume a: "a < n" and l: "length xs = n * k"
  have "(n * k - a + n - 1) div n = k" if "0 < k"
  proof -
    have "n * k - a + n - 1 = (n - 1 - a) + k * n"
      using a that by (cases k) (auto simp: algebra_simps)
    moreover have "((n - 1 - a) + k * n) div n = (n - 1 - a) div n + k"
      using a div_mult_self1 [of n "n - 1 - a" k] by linarith
    ultimately show ?thesis using a by simp
  qed
  moreover have "(n * k - a + n - 1) div n = k" if "k = 0" using a that by simp
  ultimately have "(n * k - a + n - 1) div n = k" by (metis neq0_conv)
  then show ?thesis by (simp add: py_stride_def l)
qed

lemma nth_py_stride: "i < length (py_stride a n xs) \<Longrightarrow> py_stride a n xs ! i = xs ! (a + i * n)"
  by (simp add: py_stride_def)

lemma length_set_stride [simp]: "length (set_stride a n xs ys) = length xs"
  by (simp add: set_stride_def)

lemma nth_set_stride:
  "c < n \<Longrightarrow> a < n \<Longrightarrow> i * n + c < length xs \<Longrightarrow>
   set_stride a n xs ys ! (i * n + c) = (if c = a then ys ! i else xs ! (i * n + c))"
proof -
  assume c: "c < n" and a: "a < n" and l: "i * n + c < length xs"
  have "(a \<le> i * n + c \<and> (i * n + c - a) mod n = 0) = (c = a)"
  proof (cases "a \<le> c")
    case True
    then have "i * n + c - a = (c - a) + i * n" by simp
    then have "(i * n + c - a) mod n = c - a" using c by simp
    then show ?thesis using True by auto
  next
    case False
    show ?thesis
    proof (cases i)
      case 0
      then show ?thesis using False by simp
    next
      case (Suc j)
      then have "i * n + c - a = (n + c - a) + j * n" using a False by simp
      moreover have "((n + c - a) + j * n) mod n = (n + c - a) mod n" by (rule mod_mult_self1)
      ultimately have "(i * n + c - a) mod n = n + c - a" using a False by simp
      then show ?thesis using False a by auto
    qed
  qed
  moreover have "(i * n + a - a) div n = i" using a by simp
  ultimately show ?thesis using l by (simp add: set_stride_def)
qed

lemma eq_concat_chunks:
  "length xs = k * n \<Longrightarrow> (\<And>i. i < k \<Longrightarrow> length (f i) = n) \<Longrightarrow>
   (\<And>i c. i < k \<Longrightarrow> c < n \<Longrightarrow> xs ! (i * n + c) = f i ! c) \<Longrightarrow> xs = concat (map f [0..<k])"
proof (induction k arbitrary: xs)
  case (Suc k)
  have "take (k * n) xs = concat (map f [0..<k])"
  proof (rule Suc.IH)
    fix i c assume "i < k" "c < n"
    moreover have "i * n + c < k * n"
    proof -
      have "i * n + c < Suc i * n" using \<open>c < n\<close> by simp
      also have "\<dots> \<le> k * n" using \<open>i < k\<close> by (intro mult_le_mono1) simp
      finally show ?thesis .
    qed
    ultimately show "take (k * n) xs ! (i * n + c) = f i ! c" using Suc.prems(3) by simp
  qed (use Suc.prems in auto)
  moreover have "drop (k * n) xs = f k"
    by (rule nth_equalityI) (use Suc.prems in auto)
  ultimately show ?case by (metis append_take_drop_id concat.simps concat_append map_append self_append_conv2 upt_Suc_append list.simps(8,9) append_Nil2 zero_le)
qed simp

lemma le_bytes_or:
  "length xs = length ys \<Longrightarrow>
   le_bytes (length xs) (le_int xs OR le_int ys) = map2 (OR) xs ys"
proof (induction xs ys rule: list_induct2)
  case (Cons x xs y ys)
  have low: "take_bit 8 (uint x + 256 * X) = uint x" for x :: byte and X
    by (simp add: take_bit_eq_mod)
  have high: "(uint x + 256 * X) div 256 = X" for x :: byte and X by simp
  let ?a = "uint x + 256 * le_int xs" and ?b = "uint y + 256 * le_int ys"
  have "uint (word_of_int (?a OR ?b) :: byte) = uint (x OR y)"
    using low [of x "le_int xs"] low [of y "le_int ys"]
    by (simp add: uint_word_of_int_eq take_bit_or uint_or)
  then have "word_of_int (?a OR ?b) = x OR y" by (simp only: word_uint_eq_iff)
  moreover have "(?a OR ?b) div 256 = le_int xs OR le_int ys"
    using high [of x "le_int xs"] high [of y "le_int ys"] drop_bit_or [of 8 ?a ?b]
    by (simp add: drop_bit_eq_div)
  ultimately show ?case using Cons.IH by simp
qed simp

lemma nibble_tables:
  "LOW_NIBBLE ! unat b = b AND 15" "HIGH_NIBBLE ! unat b = drop_bit 4 b"
  "LOW_NIBBLE_SHIFT ! unat b = push_bit 4 (b AND 15)"
proof -
  have lt: "unat b < 256" using unsigned_less [of b] by simp
  have of_int: "word_of_int (int (unat b)) = b" by simp
  have *: "LOW_NIBBLE ! unat b = word_of_int (uint b AND 15)" "HIGH_NIBBLE ! unat b = word_of_int (drop_bit 4 (uint b))"
    "LOW_NIBBLE_SHIFT ! unat b = word_of_int (push_bit 4 (uint b AND 15))"
    using lt by (simp_all add: LOW_NIBBLE_def HIGH_NIBBLE_def LOW_NIBBLE_SHIFT_def)
  show "LOW_NIBBLE ! unat b = b AND 15" unfolding * by (rule bit_word_eqI) (simp add: bit_simps)
  show "HIGH_NIBBLE ! unat b = drop_bit 4 b" unfolding * by (rule bit_word_eqI) (auto simp add: bit_simps dest: bit_imp_le_length)
  show "LOW_NIBBLE_SHIFT ! unat b = push_bit 4 (b AND 15)" unfolding * by (rule bit_word_eqI) (auto simp add: bit_simps)
qed

definition unpack12_pair :: "byte \<Rightarrow> byte \<Rightarrow> byte \<Rightarrow> bytes" where
  "unpack12_pair x y z = [x, y AND 15, drop_bit 4 y OR push_bit 4 (z AND 15), drop_bit 4 z]"

lemma unpack12_pairs:
  assumes l: "length samples = 3 * k"
  shows "unpack12 k samples
    = concat (map (\<lambda>i. unpack12_pair (samples ! (i * 3)) (samples ! (i * 3 + 1)) (samples ! (i * 3 + 2))) [0..<k])"
proof (rule eq_concat_chunks)
  have lanes: "length (py_stride 0 3 samples) = k" "length (py_stride 1 3 samples) = k" "length (py_stride 2 3 samples) = k"
    using l by (simp_all add: length_py_stride)
  have lane: "i < k \<Longrightarrow> py_stride a 3 samples ! i = samples ! (i * 3 + a)" if "a < 3" for a i
    using nth_py_stride [of i a 3 samples] length_py_stride [OF that l] by (simp add: add.commute)
  have mid: "le_bytes k (le_int (translate HIGH_NIBBLE (py_stride 1 3 samples)) OR
      le_int (translate LOW_NIBBLE_SHIFT (py_stride 2 3 samples)))
    = map2 (OR) (translate HIGH_NIBBLE (py_stride 1 3 samples)) (translate LOW_NIBBLE_SHIFT (py_stride 2 3 samples))"
    using le_bytes_or [of "translate HIGH_NIBBLE (py_stride 1 3 samples)" "translate LOW_NIBBLE_SHIFT (py_stride 2 3 samples)"]
    by (simp add: translate_def lanes [unfolded One_nat_def])
  show "length (unpack12 k samples) = k * 4" by (simp add: unpack12_def Let_def)
  fix i c :: nat assume i: "i < k" and c: "c < 4"
  have len: "i * 4 + c < length (replicate (4 * k) (0::byte))" using i c by simp
  have "unpack12 k samples ! (i * 4 + c) =
     (if c = 3 then translate HIGH_NIBBLE (py_stride 2 3 samples) ! i
      else if c = 2 then map2 (OR) (translate HIGH_NIBBLE (py_stride 1 3 samples))
        (translate LOW_NIBBLE_SHIFT (py_stride 2 3 samples)) ! i
      else if c = 1 then translate LOW_NIBBLE (py_stride 1 3 samples) ! i
      else py_stride 0 3 samples ! i)"
    using c len unfolding unpack12_def Let_def mid by (simp add: nth_set_stride)
  moreover have "c = 0 \<or> c = 1 \<or> c = 2 \<or> c = 3" using c by auto
  ultimately show "unpack12 k samples ! (i * 4 + c) =
      unpack12_pair (samples ! (i * 3)) (samples ! (i * 3 + 1)) (samples ! (i * 3 + 2)) ! c"
    using i lane [of 0 i] lane [of 1 i] lane [of 2 i] lanes
    by (elim disjE) (simp_all add: translate_def nibble_tables unpack12_pair_def)
qed (simp add: unpack12_pair_def)

lemma length_concat_chunks: "(\<And>x. x \<in> set xss \<Longrightarrow> length x = n) \<Longrightarrow> length (concat xss) = length xss * n"
  by (induction xss) auto

lemma nth_concat_chunks:
  "(\<And>x. x \<in> set xss \<Longrightarrow> length x = n) \<Longrightarrow> i < length xss \<Longrightarrow> c < n \<Longrightarrow> concat xss ! (i * n + c) = xss ! i ! c"
proof (induction xss arbitrary: i)
  case (Cons x xss)
  have x: "length x = n" using Cons.prems by simp
  show ?case
  proof (cases i)
    case (Suc j)
    then have "concat (x # xss) ! (i * n + c) = concat xss ! (j * n + c)"
      using x by (simp add: nth_append)
    then show ?thesis using Cons.IH [of j] Cons.prems Suc by simp
  qed (use x Cons.prems in \<open>simp add: nth_append\<close>)
qed simp

section \<open>ADC round trip\<close>

definition adc_code_ok :: "int \<times> int \<Rightarrow> bool" where
  "adc_code_ok = (\<lambda>(a, b). 0 \<le> a \<and> a \<le> 4095 \<and> 0 \<le> b \<and> b \<le> 4095)"

definition adc_raw_pair :: "int \<times> int \<Rightarrow> bytes" where
  "adc_raw_pair = (\<lambda>(a, b). le_bytes 2 a @ le_bytes 2 b)"

lemma bit_code: "0 \<le> a \<Longrightarrow> a \<le> 4095 \<Longrightarrow> bit (a::int) n \<Longrightarrow> n < 12"
proof -
  assume "0 \<le> a" "a \<le> 4095" "bit a n"
  then have "take_bit 12 a = a" by (simp add: take_bit_int_eq_self_iff)
  with \<open>bit a n\<close> show ?thesis by (metis bit_take_bit_iff)
qed

lemma unpack12_pack12:
  assumes a: "0 \<le> a" "a \<le> 4095" and b: "0 \<le> b" "b \<le> 4095"
  shows "unpack12_pair (word_of_int (a AND 255)) (word_of_int (drop_bit 8 a OR push_bit 4 (b AND 15)))
      (word_of_int (drop_bit 4 b)) = le_bytes 2 a @ le_bytes 2 b"
proof -
  let ?y = "word_of_int (drop_bit 8 a OR push_bit 4 (b AND 15)) :: byte" and ?z = "word_of_int (drop_bit 4 b) :: byte"
  have m: "(15::int) = mask 4" "(15::byte) = mask 4" "(255::int) = mask 8" by (simp_all add: mask_eq_exp_minus_1)
  note bits = bit_simps bit_mask_iff
  note A = bit_code [OF a] and B = bit_code [OF b]
  have 1: "word_of_int (a AND 255) = (word_of_int a :: byte)"
    unfolding m by (rule bit_word_eqI) (auto simp: bits)
  have 2: "?y AND 15 = word_of_int (drop_bit 8 a)"
    unfolding m by (rule bit_word_eqI) (auto simp: bits dest: A)
  have 3: "drop_bit 4 ?y OR push_bit 4 (?z AND 15) = word_of_int b"
    unfolding m by (rule bit_word_eqI) (auto simp: bits dest: A)
  have 4: "drop_bit 4 ?z = word_of_int (drop_bit 8 b)"
    by (rule bit_word_eqI) (auto simp: bits dest: B)
  show ?thesis unfolding unpack12_pair_def 1 2 3 4
    by (simp add: numeral_2_eq_2 drop_bit_eq_div)
qed

lemma encode_adc_pair_unpack:
  assumes "adc_code_ok p" "encode_adc_pair AP_PACK12 p = Inr s"
  shows "unpack12_pair (s ! 0) (s ! 1) (s ! 2) = adc_raw_pair p" "length s = 3"
  using assms unpack12_pack12
  by (auto simp: encode_adc_pair_def adc_code_ok_def adc_raw_pair_def res_simps split: prod.splits)

lemma unpack12_encoded:
  assumes ok: "\<And>p. p \<in> set pairs \<Longrightarrow> adc_code_ok p" and enc: "map_res (encode_adc_pair AP_PACK12) pairs = Inr ss"
  shows "unpack12 (length pairs) (concat ss) = concat (map adc_raw_pair pairs)" "length (concat ss) = 3 * length pairs"
proof -
  have ss: "length ss = length pairs" "i < length pairs \<Longrightarrow> encode_adc_pair AP_PACK12 (pairs ! i) = Inr (ss ! i)" for i
    using enc by (simp_all add: map_res_eq_Inr)
  have l: "length s = 3" if "s \<in> set ss" for s
    using that ss encode_adc_pair_unpack(2) ok by (metis in_set_conv_nth)
  show len: "length (concat ss) = 3 * length pairs" using length_concat_chunks [OF l] ss by simp
  have "map (\<lambda>i. unpack12_pair (concat ss ! (i * 3)) (concat ss ! (i * 3 + 1)) (concat ss ! (i * 3 + 2))) [0..<length pairs]
      = map (\<lambda>i. adc_raw_pair (pairs ! i)) [0..<length pairs]"
  proof (rule map_cong [OF refl])
    fix i assume "i \<in> set [0..<length pairs]"
    then have i: "i < length pairs" by simp
    have "concat ss ! (i * 3 + c) = ss ! i ! c" if "c < 3" for c
      using nth_concat_chunks [OF l _ that] i ss by simp
    from this [of 0] this [of 1] this [of 2] show
      "unpack12_pair (concat ss ! (i * 3)) (concat ss ! (i * 3 + 1)) (concat ss ! (i * 3 + 2)) = adc_raw_pair (pairs ! i)"
      using encode_adc_pair_unpack(1) [OF ok ss(2) [OF i]] i by simp
  qed
  also have "\<dots> = map adc_raw_pair pairs" by (rule nth_equalityI) simp_all
  finally show "unpack12 (length pairs) (concat ss) = concat (map adc_raw_pair pairs)"
    by (simp only: unpack12_pairs [OF len])
qed

lemma codes_valid_iff:
  assumes "length payload = 2 * k"
  shows "adc_payload_codes_valid payload \<longleftrightarrow> (\<forall>i < k. uint (payload ! (2 * i + 1)) < 16)"
proof -
  have l: "length (py_stride 1 2 payload) = k" using length_py_stride [of 1 2 payload k] assms by simp
  have "adc_payload_codes_valid payload \<longleftrightarrow> (\<forall>i < k. uint (py_stride 1 2 payload ! i) < 16)"
    using l by (auto simp: adc_payload_codes_valid_def filter_empty_conv all_set_conv_all_nth)
  also have "\<dots> \<longleftrightarrow> (\<forall>i < k. uint (payload ! (2 * i + 1)) < 16)"
    using l nth_py_stride [of _ 1 2 payload] by (simp add: mult.commute)
  finally show ?thesis .
qed

lemma codes_valid_pairs:
  assumes "\<And>i. i < k \<Longrightarrow> length (f i) = 4 \<and> uint (f i ! 1) < 16 \<and> uint (f i ! 3) < 16"
  shows "adc_payload_codes_valid (concat (map f [0..<k]))"
proof -
  let ?p = "concat (map f [0..<k])"
  have l: "length x = 4" if "x \<in> set (map f [0..<k])" for x using that assms by auto
  have len: "length ?p = 2 * (2 * k)" using length_concat_chunks [of "map f [0..<k]", OF l] by simp
  show ?thesis unfolding codes_valid_iff [OF len]
  proof (intro allI impI)
    fix j assume j: "j < 2 * k"
    then have i: "j div 2 < k" by linarith
    have nth: "?p ! (j div 2 * 4 + c) = f (j div 2) ! c" if "c < 4" for c
      using nth_concat_chunks [OF l _ that, of "map f [0..<k]" "j div 2"] i by simp
    show "uint (?p ! (2 * j + 1)) < 16"
    proof (cases "even j")
      case True
      then have eq: "2 * j + 1 = j div 2 * 4 + 1" by presburger
      show ?thesis unfolding eq using nth [of 1] assms [OF i] by simp
    next
      case False
      then have eq: "2 * j + 1 = j div 2 * 4 + 3" by presburger
      show ?thesis unfolding eq using nth [of 3] assms [OF i] by simp
    qed
  qed
qed

lemma codes_valid_raw_pairs:
  assumes "\<And>p. p \<in> set pairs \<Longrightarrow> adc_code_ok p"
  shows "adc_payload_codes_valid (concat (map adc_raw_pair pairs))"
proof -
  have "length (adc_raw_pair p) = 4 \<and> uint (adc_raw_pair p ! 1) < 16 \<and> uint (adc_raw_pair p ! 3) < 16"
    if "adc_code_ok p" for p
    using that by (auto simp: adc_raw_pair_def adc_code_ok_def numeral_eq_Suc uint_byte_of_int)
  with assms have "adc_payload_codes_valid (concat (map (\<lambda>i. adc_raw_pair (pairs ! i)) [0..<length pairs]))"
    by (intro codes_valid_pairs) simp
  moreover have "map (\<lambda>i. adc_raw_pair (pairs ! i)) [0..<length pairs] = map adc_raw_pair pairs"
    by (rule nth_equalityI) simp_all
  ultimately show ?thesis by simp
qed

lemma codes_valid_unpack12:
  assumes "length samples = 3 * k"
  shows "adc_payload_codes_valid (unpack12 k samples)"
proof -
  have lo: "uint (y AND 15 :: byte) < 16" for y
    using AND_upper2'' [of 15 16 "uint y"] by (simp add: uint_and)
  have hi: "uint (drop_bit 4 (y :: byte)) < 16" for y
  proof -
    have "uint (drop_bit 4 y) = uint y div 16"
      by (simp only: unsigned_drop_bit_eq) (simp add: drop_bit_eq_div take_bit_eq_mod)
    then show ?thesis using byte_uint_bounds(2) [of y] by linarith
  qed
  show ?thesis unfolding unpack12_pairs [OF assms]
    by (rule codes_valid_pairs) (simp add: unpack12_pair_def lo hi)
qed

section \<open>The data prefix\<close>

lemma data_prefix_wire:
  assumes "0 \<le> width" "width < 256" "0 \<le> decoded" "decoded < 256 ^ 4" "0 \<le> runs" "runs < 256 ^ 4"
  shows "length (data_prefix e width decoded runs) = 12"
    "struct_unpack DATA_PREFIX_FORMAT (data_prefix e width decoded runs @ rest)
       = [Encoding_value e, width, 0, decoded, runs]"
proof -
  have "fields_in_range DATA_PREFIX_FORMAT [Encoding_value e, width, 0, decoded, runs]"
    using assms Encoding_value_range [of e] by (simp add: DATA_PREFIX_FORMAT_def)
  then obtain bs where bs: "struct_pack DATA_PREFIX_FORMAT [Encoding_value e, width, 0, decoded, runs] = Some bs"
    using struct_pack_Some_iff by blast
  then show "length (data_prefix e width decoded runs) = 12"
    using struct_pack_length [OF bs] by (simp add: data_prefix_def DATA_PREFIX_FORMAT_def)
  show "struct_unpack DATA_PREFIX_FORMAT (data_prefix e width decoded runs @ rest)
       = [Encoding_value e, width, 0, decoded, runs]"
    using struct_unpack_pack [OF bs] by (simp add: data_prefix_def bs)
qed

definition decode_samples :: "Encoding \<Rightarrow> FrameKind \<Rightarrow> bytes \<Rightarrow> int \<Rightarrow> int \<Rightarrow> int \<Rightarrow> int \<Rightarrow> v3_error + bytes" where
  "decode_samples e kind samples width item_count decoded runs =
     (case e of ENC_RAW \<Rightarrow> decode_raw kind samples decoded runs
      | ENC_ADC_PACK12 \<Rightarrow> decode_pack12 kind samples item_count runs
      | ENC_GPIO_RLE \<Rightarrow> decode_rle kind samples width item_count decoded runs)"

lemma map_sum_eq_Inr: "map_sum id (Pair e) m = Inr (e', r) \<longleftrightarrow> e' = e \<and> m = Inr r"
  by (cases m) auto

lemma decode_data_payload_eq_Inr:
  "decode_data_payload kind payload item_count = Inr d \<longleftrightarrow>
     12 \<le> length payload \<and> length payload \<le> 4060 \<and> is_data_kind kind \<and>
     (\<exists>runs. struct_unpack DATA_PREFIX_FORMAT payload
        = [Encoding_value (dd_encoding d), dd_item_bytes d, 0, item_count * dd_item_bytes d, runs] \<and>
      decode_samples (dd_encoding d) kind (drop 12 payload) (dd_item_bytes d) item_count (item_count * dd_item_bytes d) runs
        = Inr (dd_payload d)) \<and>
     (if kind = FK_ADC_DATA then dd_item_bytes d = 4 else dd_item_bytes d \<in> {1, 2}) \<and>
     1 \<le> item_count \<and> item_count \<le> 4048 div dd_item_bytes d \<and>
     dd_item_count d = item_count \<and> dd_encoded_sample_bytes d = length payload - 12"
  (is "?L = ?R")
proof -
  let ?f = "struct_unpack DATA_PREFIX_FORMAT payload"
  have "length ?f = 5" by (simp add: DATA_PREFIX_FORMAT_def)
  then have f: "?f = [?f ! 0, ?f ! 1, ?f ! 2, ?f ! 3, ?f ! 4]"
    by (intro nth_equalityI) (auto simp: less_Suc_eq numeral_eq_Suc)
  define e w r dc runs where fs: "e = ?f ! 0" "w = ?f ! 1" "r = ?f ! 2" "dc = ?f ! 3" "runs = ?f ! 4"
  have unp: "?f = [e, w, r, dc, runs]" using f fs by simp
  have kinds: "e = Encoding_value ENC_RAW \<or> e = Encoding_value ENC_ADC_PACK12 \<or> e = Encoding_value ENC_GPIO_RLE \<or>
     (e \<noteq> Encoding_value ENC_RAW \<and> e \<noteq> Encoding_value ENC_ADC_PACK12 \<and> e \<noteq> Encoding_value ENC_GPIO_RLE)" by blast
  show ?thesis
  proof
    assume ?L
    with kinds show ?R
      unfolding decode_data_payload_def Let_def unp
      by (elim disjE) (auto simp: res_simps unp map_sum_eq_Inr decode_samples_def split: if_splits)
  next
    assume R: ?R
    then have "dd_encoding d = ENC_RAW \<or> dd_encoding d = ENC_ADC_PACK12 \<or> dd_encoding d = ENC_GPIO_RLE"
      by (metis Encoding.exhaust)
    with R show ?L
      unfolding decode_data_payload_def Let_def unp
      by (elim disjE) (cases d; auto simp: res_simps unp map_sum_eq_Inr decode_samples_def)+
  qed
qed

lemma decode_prefixed:
  assumes "is_data_kind kind" "if kind = FK_ADC_DATA then width = 4 else width \<in> {1, 2}"
    "1 \<le> item_count" "item_count \<le> 4048 div width" "0 \<le> runs" "runs \<le> 4048" "length samples \<le> 4048"
    "decode_samples e kind samples width item_count (item_count * width) runs = Inr raw"
  shows "decode_data_payload kind (data_prefix e width (item_count * width) runs @ samples) item_count
    = Inr \<lparr>dd_encoding = e, dd_item_bytes = width, dd_item_count = item_count, dd_payload = raw,
           dd_encoded_sample_bytes = length samples\<rparr>"
proof -
  have w: "0 \<le> width" "width < 256" and n: "0 \<le> item_count * width" "item_count * width < 256 ^ 4"
    using assms by (auto split: if_splits)
  have r: "runs < 256 ^ 4" using assms by simp
  show ?thesis
    unfolding decode_data_payload_eq_Inr using assms data_prefix_wire [OF w n assms(5) r, of e]
    by (simp split: if_splits)
qed

lemma adc_roundtrip:
  assumes "1 \<le> length pairs" "length pairs \<le> 1012" "\<forall>(a, b) \<in> set pairs. 0 \<le> a \<and> a \<le> 4095 \<and> 0 \<le> b \<and> b \<le> 4095"
  shows "\<exists>p. encode_adc_payload pairs policy = Inr p \<and>
     decode_data_payload FK_ADC_DATA p (int (length pairs)) = Inr
       \<lparr>dd_encoding = (case policy of AP_PACK12 \<Rightarrow> ENC_ADC_PACK12 | AP_RAW \<Rightarrow> ENC_RAW), dd_item_bytes = 4,
        dd_item_count = int (length pairs), dd_payload = concat (map (\<lambda>(a, b). le_bytes 2 a @ le_bytes 2 b) pairs),
        dd_encoded_sample_bytes = (case policy of AP_PACK12 \<Rightarrow> 3 | AP_RAW \<Rightarrow> 4) * length pairs\<rparr>"
proof -
  have ok: "adc_code_ok p" if "p \<in> set pairs" for p using that assms(3) by (auto simp: adc_code_ok_def)
  then obtain ss where ss: "map_res (encode_adc_pair policy) pairs = Inr ss"
    using map_res_Inr_map [of pairs "encode_adc_pair policy" "\<lambda>p. projr (encode_adc_pair policy p)"]
    by (auto simp: encode_adc_pair_def adc_code_ok_def split: prod.splits)
  let ?e = "case policy of AP_PACK12 \<Rightarrow> ENC_ADC_PACK12 | AP_RAW \<Rightarrow> ENC_RAW"
  have enc: "encode_adc_payload pairs policy = Inr (data_prefix ?e 4 (int (length pairs) * 4) 0 @ concat ss)"
    using assms ss by (cases policy) (simp_all add: encode_adc_payload_def mult.commute)
  have "decode_samples ?e FK_ADC_DATA (concat ss) 4 (int (length pairs)) (int (length pairs) * 4) 0
        = Inr (concat (map adc_raw_pair pairs)) \<and> length (concat ss) = (case policy of AP_PACK12 \<Rightarrow> 3 | AP_RAW \<Rightarrow> 4) * length pairs"
  proof (cases policy)
    case AP_PACK12
    then show ?thesis using unpack12_encoded [OF ok ss [unfolded AP_PACK12]]
      by (simp add: decode_samples_def decode_pack12_def)
  next
    case AP_RAW
    have "map_res (encode_adc_pair AP_RAW) pairs = Inr (map adc_raw_pair pairs)"
      using ok by (intro map_res_Inr_map) (auto simp: encode_adc_pair_def adc_raw_pair_def adc_code_ok_def)
    then have "ss = map adc_raw_pair pairs" using ss AP_RAW by simp
    moreover have "length (concat (map adc_raw_pair pairs)) = length pairs * 4"
      by (subst length_concat_chunks [where n = 4]) (auto simp: adc_raw_pair_def)
    ultimately show ?thesis using AP_RAW codes_valid_raw_pairs [OF ok]
      by (simp add: decode_samples_def decode_raw_def)
  qed
  moreover from this have "length (concat ss) \<le> 4048" using assms by (cases policy) simp_all
  moreover have "concat (map adc_raw_pair pairs) = concat (map (\<lambda>(a, b). le_bytes 2 a @ le_bytes 2 b) pairs)"
    by (simp add: adc_raw_pair_def)
  ultimately show ?thesis
    using enc decode_prefixed [of FK_ADC_DATA 4 "int (length pairs)" 0 "concat ss" ?e "concat (map adc_raw_pair pairs)"] assms
    by auto
qed

text \<open>
  Property C8. The encoder accepts every block of at most 1012 pairs of 12-bit codes under
  both policies, and the decoder returns from its output exactly the little-endian raw pairs;
  PACK12 takes three bytes per pair, RAW four.
\<close>

theorem adc_payload_roundtrip:
  assumes "1 \<le> length pairs" "length pairs \<le> 1012" "\<forall>(a, b) \<in> set pairs. 0 \<le> a \<and> a \<le> 4095 \<and> 0 \<le> b \<and> b \<le> 4095"
  shows "\<exists>p. encode_adc_payload pairs policy = Inr p \<and>
     decode_data_payload FK_ADC_DATA p (int (length pairs)) = Inr
       \<lparr>dd_encoding = (case policy of AP_PACK12 \<Rightarrow> ENC_ADC_PACK12 | AP_RAW \<Rightarrow> ENC_RAW), dd_item_bytes = 4,
        dd_item_count = int (length pairs), dd_payload = concat (map (\<lambda>(a, b). le_bytes 2 a @ le_bytes 2 b) pairs),
        dd_encoded_sample_bytes = (case policy of AP_PACK12 \<Rightarrow> 3 | AP_RAW \<Rightarrow> 4) * length pairs\<rparr>"
  using assms by (rule adc_roundtrip)

theorem adc_payload_roundtrip_witness:
  "\<exists>p. encode_adc_payload [(0x123, 0xABC), (4095, 0)] AP_PACK12 = Inr p \<and>
     decode_data_payload FK_ADC_DATA p 2 = Inr
       \<lparr>dd_encoding = ENC_ADC_PACK12, dd_item_bytes = 4, dd_item_count = 2,
        dd_payload = le_bytes 2 0x123 @ le_bytes 2 0xABC @ le_bytes 2 4095 @ le_bytes 2 0, dd_encoded_sample_bytes = 6\<rparr>"
  using adc_payload_roundtrip [of "[(0x123, 0xABC), (4095, 0)]" AP_PACK12] by simp

section \<open>Run lists\<close>

definition run_values :: "(int \<times> int) list \<Rightarrow> int list" where
  "run_values rs = concat (map (\<lambda>(run, v). replicate (nat run) v) rs)"

definition rle_wire :: "nat \<Rightarrow> (int \<times> int) list \<Rightarrow> bytes" where
  "rle_wire width rs = concat (map (\<lambda>(run, v). rle_record width run v) rs)"

fun runs_ok :: "int option \<Rightarrow> (int \<times> int) list \<Rightarrow> bool" where
  "runs_ok previous [] = True"
| "runs_ok previous ((run, v) # rs) = (0 < run \<and> Some v \<noteq> previous \<and> runs_ok (Some v) rs)"

definition run_total :: "(int \<times> int) list \<Rightarrow> int" where
  "run_total rs = sum_list (map fst rs)"

lemma run_simps [simp]:
  "run_values [] = []" "run_values ((n, v) # rs) = replicate (nat n) v @ run_values rs"
  "run_values (rs @ ss) = run_values rs @ run_values ss"
  "rle_wire w [] = []" "rle_wire w ((n, v) # rs) = rle_record w n v @ rle_wire w rs"
  "rle_wire w (rs @ ss) = rle_wire w rs @ rle_wire w ss"
  "run_total [] = 0" "run_total ((n, v) # rs) = n + run_total rs"
  "length (rle_record w n v) = 2 + w"
  by (simp_all add: run_values_def rle_wire_def run_total_def rle_record_def)

lemma expand_runs_values: "expand_runs w rs = concat (map (le_bytes w) (run_values rs))"
  by (induction rs) (auto simp: expand_runs_def map_replicate)

lemma length_rle_wire: "length (rle_wire w rs) = length rs * (2 + w)"
  by (induction rs) auto

lemma run_total_nonneg: "runs_ok p rs \<Longrightarrow> 0 \<le> run_total rs"
  by (induction p rs rule: runs_ok.induct) auto

lemma length_run_values: "runs_ok p rs \<Longrightarrow> int (length (run_values rs)) = run_total rs"
  by (induction p rs rule: runs_ok.induct) auto

lemma check_runs_eq_Inr:
  "check_runs n rs c p = Inr t \<longleftrightarrow> runs_ok p rs \<and> t = c + run_total rs \<and> (rs = [] \<or> c + run_total rs \<le> n)"
proof (induction n rs c p arbitrary: t rule: check_runs.induct)
  case (2 n run v rs c p)
  have "check_runs n ((run, v) # rs) c p = Inr t \<longleftrightarrow>
      0 < run \<and> c + run \<le> n \<and> Some v \<noteq> p \<and> check_runs n rs (c + run) (Some v) = Inr t"
    by (simp add: require_eq_Inr)
  also have "\<dots> \<longleftrightarrow> 0 < run \<and> c + run \<le> n \<and> Some v \<noteq> p \<and> runs_ok (Some v) rs \<and>
      t = c + run + run_total rs \<and> (rs = [] \<or> c + run + run_total rs \<le> n)"
    using "2.IH" by metis
  also have "\<dots> \<longleftrightarrow> 0 < run \<and> Some v \<noteq> p \<and> runs_ok (Some v) rs \<and> t = c + run + run_total rs \<and> c + run + run_total rs \<le> n"
    using run_total_nonneg [of "Some v" rs] by (cases "rs = []") auto
  finally show ?case by auto
qed auto

lemma runs_ok_bounds:
  "runs_ok p rs \<Longrightarrow> (n, v) \<in> set rs \<Longrightarrow> 0 < n \<and> n \<le> run_total rs \<and> v \<in> set (run_values rs)"
proof (induction p rs rule: runs_ok.induct)
  case (2 p m u rs)
  then show ?case using run_total_nonneg [of "Some u" rs] by auto
qed simp

lemma runs_ok_snoc:
  "runs_ok p (rs @ [(n, v)]) \<longleftrightarrow> runs_ok p rs \<and> 0 < n \<and> Some v \<noteq> (if rs = [] then p else Some (snd (last rs)))"
  by (induction p rs rule: runs_ok.induct) auto

lemma runs_ok_start: "runs_ok (Some v) rs \<Longrightarrow> takeWhile (\<lambda>x. x = v) (run_values rs) = []"
proof (cases rs)
  case (Cons r rs')
  moreover assume "runs_ok (Some v) rs"
  ultimately show ?thesis by (cases r; cases "nat (fst r)") auto
qed simp

lemma runs_unique:
  "runs_ok p rs \<Longrightarrow> runs_ok q ss \<Longrightarrow> run_values rs = run_values ss \<Longrightarrow> rs = ss"
proof (induction p rs arbitrary: q ss rule: runs_ok.induct)
  case (1 p)
  then show ?case by (cases ss) auto
next
  case (2 p n v rs)
  obtain m u ss' where ss: "ss = (m, u) # ss'"
    using 2 by (cases ss) auto
  have pos: "0 < n" "0 < m" using 2 ss by auto
  have eq: "replicate (nat n) v @ run_values rs = replicate (nat m) u @ run_values ss'"
    using 2 ss by simp
  have "v = u" using eq pos by (cases "nat n"; cases "nat m") auto
  moreover have "length (takeWhile (\<lambda>x. x = v) (replicate (nat n) v @ run_values rs)) = nat n"
    using runs_ok_start [of v rs] "2.prems"(1) by (subst takeWhile_append2) auto
  moreover have "length (takeWhile (\<lambda>x. x = u) (replicate (nat m) u @ run_values ss')) = nat m"
    using runs_ok_start [of u ss'] "2.prems"(2) ss by (subst takeWhile_append2) auto
  ultimately have "v = u" "n = m" using eq pos by auto
  then show ?case using 2 ss eq by auto
qed

lemma rle_records_Nil [simp]: "rle_records w [] = []"
  by (simp add: rle_records_def)

lemma rle_records_Cons:
  assumes "length r = 2 + w"
  shows "rle_records w (r @ bs) = (le_int (take 2 r), le_int (drop 2 r)) # rle_records w bs"
proof -
  let ?g = "\<lambda>xs i. let f = struct_unpack [2, w] (drop (i * (2 + w)) xs) in (f ! 0, f ! 1)"
  have len: "length (r @ bs) div (2 + w) = Suc (length bs div (2 + w))"
    using assms div_add_self1 [of "2 + w" "length bs"] by simp
  have "map (?g (r @ bs)) [0..<Suc k] = ?g (r @ bs) 0 # map (?g bs) [0..<k]" for k
  proof -
    have "map (?g (r @ bs)) [0..<Suc k] = ?g (r @ bs) 0 # map (?g (r @ bs)) (map Suc [0..<k])"
      unfolding map_Suc_upt by (simp only: upt_conv_Cons zero_less_Suc list.map)
    moreover have "drop (Suc i * (2 + w)) (r @ bs) = drop (i * (2 + w)) bs" for i using assms by simp
    then have "?g (r @ bs) (Suc i) = ?g bs i" for i by (simp only:)
    ultimately show ?thesis by (simp only: map_map comp_def)
  qed
  then have "rle_records w (r @ bs) = ?g (r @ bs) 0 # rle_records w bs"
    unfolding rle_records_def len by simp
  moreover have "?g (r @ bs) 0 = (le_int (take 2 r), le_int (drop 2 r))"
    using assms by (simp add: Let_def numeral_2_eq_2)
  ultimately show ?thesis by simp
qed

lemma rle_records_wire:
  "(\<And>n v. (n, v) \<in> set rs \<Longrightarrow> 0 \<le> n \<and> n < 256 ^ 2 \<and> 0 \<le> v \<and> v < 256 ^ w) \<Longrightarrow> rle_records w (rle_wire w rs) = rs"
proof (induction rs)
  case (Cons r rs)
  obtain n v where r: "r = (n, v)" by force
  have "0 \<le> n" "n < 256 ^ 2" "0 \<le> v" "v < 256 ^ w" using Cons.prems r by auto
  then have "le_int (take 2 (rle_record w n v)) = n" "le_int (drop 2 (rle_record w n v)) = v"
    by (simp_all add: rle_record_def le_int_le_bytes)
  moreover have "rle_records w (rle_wire w rs) = rs" by (rule Cons.IH) (use Cons.prems in auto)
  ultimately show ?case using r rle_records_Cons [of "rle_record w n v" w "rle_wire w rs"] by simp
qed simp

lemma rle_wire_records:
  "length samples = k * (2 + w) \<Longrightarrow> rle_wire w (rle_records w samples) = samples \<and> length (rle_records w samples) = k \<and>
    (\<forall>(n, v) \<in> set (rle_records w samples). 0 \<le> v \<and> v < 256 ^ w)"
proof (induction k arbitrary: samples)
  case (Suc k)
  let ?r = "take (2 + w) samples" and ?s = "drop (2 + w) samples"
  have l: "length ?r = 2 + w" using Suc.prems by simp
  have "rle_record w (le_int (take 2 ?r)) (le_int (drop 2 ?r)) = ?r"
    using le_bytes_le_int [of "take 2 ?r"] le_bytes_le_int [of "drop 2 ?r"] l
    by (metis (no_types, lifting) rle_record_def append_take_drop_id length_drop length_take add_diff_cancel_left' min_absorb2 le_add1)
  moreover have "le_int (drop 2 ?r) < 256 ^ w" using le_int_less [of "drop 2 ?r"] l by simp
  moreover have "rle_records w samples = (le_int (take 2 ?r), le_int (drop 2 ?r)) # rle_records w ?s"
    using rle_records_Cons [OF l, of ?s] by simp
  ultimately show ?case using Suc.IH [of ?s] Suc.prems by (auto simp: append_take_drop_id)
qed simp

section \<open>GPIO round trip\<close>

text \<open>What the encoder loop has built after the samples \<open>vs\<close>.\<close>

definition gpio_rep :: "nat \<Rightarrow> int list \<Rightarrow> gpio_state \<Rightarrow> bool" where
  "gpio_rep w vs st \<longleftrightarrow> g_raw st = concat (map (le_bytes w) vs) \<and>
     (case g_previous st of
        None \<Rightarrow> vs = [] \<and> g_rle st = [] \<and> g_runs st = 0
      | Some p \<Rightarrow> \<exists>rs. g_rle st = rle_wire w rs \<and> g_runs st = int (length rs) \<and>
          runs_ok None (rs @ [(g_length st, p)]) \<and> run_values (rs @ [(g_length st, p)]) = vs)"

lemma replicate_nat_Suc: "0 < n \<Longrightarrow> replicate (nat n) v @ [v] = replicate (nat (n + 1)) v"
  by (simp add: nat_add_distrib replicate_append_same)

lemma gpio_rep_step:
  assumes "gpio_rep w vs st"
  shows "gpio_rep w (vs @ [v]) (gpio_step w v st)"
proof (cases "g_previous st")
  case None
  then show ?thesis using assms
    by (auto simp: gpio_rep_def gpio_step_def Let_def intro!: exI [of _ "[]"])
next
  case (Some p)
  then obtain rs where rs: "g_rle st = rle_wire w rs" "g_runs st = int (length rs)"
      "runs_ok None (rs @ [(g_length st, p)])" "run_values (rs @ [(g_length st, p)]) = vs"
    using assms by (auto simp: gpio_rep_def)
  show ?thesis
  proof (cases "v = p")
    case True
    have "runs_ok None (rs @ [(g_length st + 1, p)])" using rs(3) by (auto simp: runs_ok_snoc)
    moreover have "run_values (rs @ [(g_length st + 1, p)]) = vs @ [p]"
      using rs(3,4) replicate_nat_Suc [of "g_length st" p] by (auto simp: runs_ok_snoc)
    ultimately show ?thesis using assms Some True rs(1,2) by (auto simp: gpio_rep_def gpio_step_def Let_def)
  next
    case False
    then have "runs_ok None ((rs @ [(g_length st, p)]) @ [(1, v)])"
      using rs(3) by (subst runs_ok_snoc) auto
    moreover have "run_values ((rs @ [(g_length st, p)]) @ [(1, v)]) = vs @ [v]" using rs(4) by simp
    ultimately show ?thesis using assms Some False rs(1,2)
      by (auto simp: gpio_rep_def gpio_step_def Let_def intro!: exI [of _ "rs @ [(g_length st, p)]"])
  qed
qed

lemma gpio_loop_rep:
  "gpio_rep w us st \<Longrightarrow> (\<And>v. v \<in> set vs \<Longrightarrow> 0 \<le> v \<and> v < 2 ^ (8 * w)) \<Longrightarrow>
   \<exists>st'. gpio_loop w vs st = Inr st' \<and> gpio_rep w (us @ vs) st'"
proof (induction vs arbitrary: us st)
  case (Cons v vs)
  then show ?case using Cons.IH [OF gpio_rep_step [OF Cons.prems(1), of v]] by simp
qed simp

text \<open>The encoder's result, over the unique run list of the samples.\<close>

lemma encode_gpio_payload_runs:
  assumes w: "w = 1 \<or> w = 2" and n: "vs \<noteq> []" "length vs \<le> 4048 div w"
    and rng: "\<And>v. v \<in> set vs \<Longrightarrow> 0 \<le> v \<and> v < 2 ^ (8 * w)"
  obtains rs where "runs_ok None rs" "run_values rs = vs" "rs \<noteq> []"
    "encode_gpio_payload vs (8 * int w) policy = Inr (
       if policy = GP_RLE_AUTO \<and> length (rle_wire w rs) < length (concat (map (le_bytes w) vs))
       then data_prefix ENC_GPIO_RLE (int w) (int (length (concat (map (le_bytes w) vs)))) (int (length rs)) @ rle_wire w rs
       else data_prefix ENC_RAW (int w) (int (length (concat (map (le_bytes w) vs)))) 0 @ concat (map (le_bytes w) vs))"
proof -
  let ?st = "\<lparr>g_raw = [], g_rle = [], g_previous = None, g_length = 0, g_runs = 0\<rparr>"
  have "gpio_rep w [] ?st" by (simp add: gpio_rep_def)
  from gpio_loop_rep [OF this rng] obtain st where st: "gpio_loop w vs ?st = Inr st" "gpio_rep w vs st" by auto
  then obtain p rs where p: "g_previous st = Some p" "g_rle st = rle_wire w rs" "g_runs st = int (length rs)"
      "runs_ok None (rs @ [(g_length st, p)])" "run_values (rs @ [(g_length st, p)]) = vs"
    using n by (auto simp: gpio_rep_def split: option.splits)
  have raw: "g_raw st = concat (map (le_bytes w) vs)" using st(2) by (simp add: gpio_rep_def)
  have wd: "8 * int w \<in> {8, 16}" "nat (8 * int w div 8) = w" using w by auto
  have "1 \<le> length vs" using n by (cases vs) auto
  then have "encode_gpio_payload vs (8 * int w) policy = Inr (
       if policy = GP_RLE_AUTO \<and> length (rle_wire w (rs @ [(g_length st, p)])) < length (concat (map (le_bytes w) vs))
       then data_prefix ENC_GPIO_RLE (int w) (int (length (concat (map (le_bytes w) vs)))) (int (length (rs @ [(g_length st, p)])))
              @ rle_wire w (rs @ [(g_length st, p)])
       else data_prefix ENC_RAW (int w) (int (length (concat (map (le_bytes w) vs)))) 0 @ concat (map (le_bytes w) vs))"
    using n st(1) p(1-3) raw wd by (simp add: encode_gpio_payload_def Let_def add.commute)
  from that [OF p(4,5) _ this] show thesis by blast
qed

lemma raw_length: "length (concat (map (le_bytes w) vs)) = length vs * w"
  by (induction vs) auto

lemma gpio_roundtrip:
  assumes w: "w = 1 \<or> w = 2" and n: "1 \<le> length vs" "length vs \<le> 4048 div w"
    and rng: "\<forall>v \<in> set vs. 0 \<le> v \<and> v < 2 ^ (8 * w)"
  shows "\<exists>p d. encode_gpio_payload vs (8 * int w) policy = Inr p \<and>
     decode_data_payload FK_GPIO_DATA p (int (length vs)) = Inr d \<and>
     dd_payload d = concat (map (le_bytes w) vs) \<and> dd_item_bytes d = int w \<and>
     (dd_encoding d = ENC_RAW \<and> length p = 12 + w * length vs \<or>
      dd_encoding d = ENC_GPIO_RLE \<and> policy = GP_RLE_AUTO \<and> length p < 12 + w * length vs)"
proof -
  let ?raw = "concat (map (le_bytes w) vs)" and ?n = "int (length vs)"
  have ne: "vs \<noteq> []" using n by auto
  obtain rs where rs: "runs_ok None rs" "run_values rs = vs" "rs \<noteq> []"
    and enc: "encode_gpio_payload vs (8 * int w) policy = Inr (
       if policy = GP_RLE_AUTO \<and> length (rle_wire w rs) < length ?raw
       then data_prefix ENC_GPIO_RLE (int w) (int (length ?raw)) (int (length rs)) @ rle_wire w rs
       else data_prefix ENC_RAW (int w) (int (length ?raw)) 0 @ ?raw)"
    using encode_gpio_payload_runs [OF w ne n(2)] rng by metis
  have total: "run_total rs = ?n" using length_run_values [OF rs(1)] rs(2) by simp
  have raw: "int (length ?raw) = ?n * int w" "length ?raw \<le> 4048" "length ?raw = w * length vs"
    using n w by (auto simp: raw_length)
  have cap: "1 \<le> ?n" "?n \<le> 4048 div int w" using n w by auto
  have wk: "is_data_kind FK_GPIO_DATA" "if FK_GPIO_DATA = FK_ADC_DATA then int w = 4 else int w \<in> {1, 2}"
    using w by auto
  have pre: "length (data_prefix e (int w) (?n * int w) r) = 12" if "0 \<le> r" "r \<le> 4048" for e r
    using data_prefix_wire(1) [of "int w" "?n * int w" r e] w n that by auto
  show ?thesis
  proof (cases "policy = GP_RLE_AUTO \<and> length (rle_wire w rs) < length ?raw")
    case True
    have "0 \<le> m \<and> m < 256 ^ 2 \<and> 0 \<le> v \<and> v < 256 ^ w" if "(m, v) \<in> set rs" for m v
    proof -
      have b: "0 < m" "m \<le> ?n" "v \<in> set vs" using runs_ok_bounds [OF rs(1) that] rs(2) total by auto
      have "?n \<le> 4048" using n w by auto
      moreover have "(2::int) ^ (8 * w) = 256 ^ w" by (simp add: power_mult)
      ultimately show ?thesis using b rng by auto
    qed
    then have recs: "rle_records w (rle_wire w rs) = rs" by (rule rle_records_wire)
    have len: "int (length rs) \<le> ?n" "length rs \<le> 4048"
      using True w raw by (auto simp: length_rle_wire)
    have "decode_samples ENC_GPIO_RLE FK_GPIO_DATA (rle_wire w rs) (int w) ?n (?n * int w) (int (length rs)) = Inr ?raw"
    proof -
      have "check_runs ?n rs 0 None = Inr ?n" using rs total by (simp add: check_runs_eq_Inr)
      moreover have "int (length (rle_wire w rs)) = int (length rs) * (2 + int w)"
        by (simp add: length_rle_wire algebra_simps)
      moreover have "1 \<le> length rs" using rs(3) by (cases rs) auto
      moreover have "int (length (rle_wire w rs)) < ?n * int w" using True raw(1) by linarith
      ultimately show ?thesis using len recs rs(2)
        by (simp add: decode_samples_def decode_rle_def expand_runs_values)
    qed
    from decode_prefixed [OF wk cap _ _ _ this] len True raw(2)
    have dec: "decode_data_payload FK_GPIO_DATA (data_prefix ENC_GPIO_RLE (int w) (?n * int w) (int (length rs)) @ rle_wire w rs) ?n
        = Inr \<lparr>dd_encoding = ENC_GPIO_RLE, dd_item_bytes = int w, dd_item_count = ?n, dd_payload = ?raw,
            dd_encoded_sample_bytes = length (rle_wire w rs)\<rparr>" by simp
    have "length (data_prefix ENC_GPIO_RLE (int w) (?n * int w) (int (length rs)) @ rle_wire w rs) < 12 + w * length vs"
      using True raw(3) pre [of "int (length rs)" ENC_GPIO_RLE] len by simp
    with True dec enc [unfolded raw(1)] show ?thesis by auto
  next
    case False
    have "decode_samples ENC_RAW FK_GPIO_DATA ?raw (int w) ?n (?n * int w) 0 = Inr ?raw"
      using raw(1) by (simp add: decode_samples_def decode_raw_def)
    from decode_prefixed [OF wk cap _ _ _ this] raw(2)
    have dec: "decode_data_payload FK_GPIO_DATA (data_prefix ENC_RAW (int w) (?n * int w) 0 @ ?raw) ?n
        = Inr \<lparr>dd_encoding = ENC_RAW, dd_item_bytes = int w, dd_item_count = ?n, dd_payload = ?raw,
            dd_encoded_sample_bytes = length ?raw\<rparr>" by simp
    have "length (data_prefix ENC_RAW (int w) (?n * int w) 0 @ ?raw) = 12 + w * length vs"
      using raw(3) pre [of 0 ENC_RAW] by simp
    with False dec enc [unfolded raw(1)] show ?thesis by auto
  qed
qed

text \<open>
  Property C9. GPIO samples survive the encoder and the decoder under both policies and
  both widths; the run-length form is used only under RLE_AUTO and only where it is strictly
  shorter than RAW, so an encoded payload never exceeds the prefix plus the raw bytes.
\<close>

theorem gpio_payload_roundtrip:
  assumes w: "w = 1 \<or> w = 2" and n: "1 \<le> length vs" "length vs \<le> 4048 div w"
    and rng: "\<forall>v \<in> set vs. 0 \<le> v \<and> v < 2 ^ (8 * w)"
  shows "\<exists>p d. encode_gpio_payload vs (8 * int w) policy = Inr p \<and>
     decode_data_payload FK_GPIO_DATA p (int (length vs)) = Inr d \<and>
     dd_payload d = concat (map (le_bytes w) vs) \<and> dd_item_bytes d = int w \<and>
     (dd_encoding d = ENC_RAW \<and> length p = 12 + w * length vs \<or>
      dd_encoding d = ENC_GPIO_RLE \<and> policy = GP_RLE_AUTO \<and> length p < 12 + w * length vs)"
  using assms by (rule gpio_roundtrip)

theorem gpio_payload_roundtrip_witness:
  "\<exists>p d. encode_gpio_payload (replicate 9 5 @ [7]) 16 GP_RLE_AUTO = Inr p \<and>
     decode_data_payload FK_GPIO_DATA p 10 = Inr d \<and>
     dd_payload d = concat (map (le_bytes 2) (replicate 9 5 @ [7])) \<and> dd_item_bytes d = 2 \<and>
     (dd_encoding d = ENC_RAW \<and> length p = 32 \<or> dd_encoding d = ENC_GPIO_RLE \<and> length p < 32)"
  using gpio_payload_roundtrip [of 2 "replicate 9 5 @ [7]" GP_RLE_AUTO] by simp

text \<open>
  Every payload the decoder accepts expands to exactly the announced number of
  bytes, never more than the logical limit of 4048, and decoded ADC samples are 12-bit codes.
\<close>

lemma decode_data_payload_bounded:
  assumes "decode_data_payload kind payload item_count = Inr d"
  shows "int (decoded_bytes d) = item_count * dd_item_bytes d \<and> decoded_bytes d \<le> 4048 \<and>
     (kind = FK_ADC_DATA \<longrightarrow> adc_payload_codes_valid (dd_payload d))"
proof -
  let ?w = "dd_item_bytes d" and ?s = "drop 12 payload"
  from assms obtain runs where r:
    "decode_samples (dd_encoding d) kind ?s ?w item_count (item_count * ?w) runs = Inr (dd_payload d)"
    and w: "if kind = FK_ADC_DATA then ?w = 4 else ?w \<in> {1, 2}" and n: "1 \<le> item_count" "item_count \<le> 4048 div ?w"
    unfolding decode_data_payload_eq_Inr by blast
  have cap: "item_count * ?w \<le> 4048" using w n by (auto split: if_splits)
  have "int (length (dd_payload d)) = item_count * ?w \<and> (kind = FK_ADC_DATA \<longrightarrow> adc_payload_codes_valid (dd_payload d))"
  proof (cases "dd_encoding d")
    case ENC_RAW
    then show ?thesis using r by (auto simp: decode_samples_def decode_raw_def require_eq_Inr simp del: length_drop)
  next
    case ENC_ADC_PACK12
    then have k: "kind = FK_ADC_DATA" and l: "int (length ?s) = 3 * item_count" and p: "dd_payload d = unpack12 (nat item_count) ?s"
      using r by (auto simp: decode_samples_def decode_pack12_def require_eq_Inr)
    have l': "length ?s = 3 * nat item_count" using l n by linarith
    have "length (unpack12 (nat item_count) ?s) = 4 * nat item_count" by (simp add: unpack12_def Let_def)
    then show ?thesis using codes_valid_unpack12 [OF l'] p k w n by simp
  next
    case ENC_GPIO_RLE
    then have k: "kind = FK_GPIO_DATA" and c: "check_runs item_count (rle_records (nat ?w) ?s) 0 None = Inr item_count"
      and p: "dd_payload d = expand_runs (nat ?w) (rle_records (nat ?w) ?s)"
      using r by (auto simp: decode_samples_def decode_rle_def Let_def require_eq_Inr bind_res_eq_Inr)
    have "int (length (run_values (rle_records (nat ?w) ?s))) = item_count"
      using c length_run_values by (auto simp: check_runs_eq_Inr)
    then show ?thesis using p k w by (auto simp: expand_runs_values raw_length)
  qed
  then show ?thesis using cap by (simp add: decoded_bytes_def)
qed

lemma decode_data_payload_raises [raises_intros]: "raises_only {INVALID} (decode_data_payload kind payload n)"
proof -
  have "raises_only {INVALID} (check_runs n rs c p)" for n rs c p
    by (induction n rs c p rule: check_runs.induct) (auto intro!: raises_intros)
  then have rle: "raises_only {INVALID} (decode_rle k s w n dc r)" for k s w n dc r
    unfolding decode_rle_def Let_def by (auto intro!: raises_intros)
  have ms: "raises_only E (map_sum id g m) = raises_only E m" for E :: "v3_error set" and g :: "bytes \<Rightarrow> Encoding \<times> bytes" and m
    by (cases m) (auto simp: raises_only_def)
  show ?thesis
    unfolding decode_data_payload_def Let_def bounded_bytes_def decode_raw_def decode_pack12_def
    by (auto intro!: raises_intros simp: ms rle split: prod.splits)
qed

text \<open>
  Property C10. Run-length payloads are canonical: whenever the decoder accepts one, the
  encoder under RLE_AUTO produces exactly those bytes from the decoded samples.
\<close>

theorem rle_payload_canonical:
  assumes dec: "decode_data_payload FK_GPIO_DATA p item_count = Inr d" and rle: "dd_encoding d = ENC_GPIO_RLE"
  shows "\<exists>vs. dd_payload d = concat (map (le_bytes (nat (dd_item_bytes d))) vs) \<and> int (length vs) = item_count \<and>
     encode_gpio_payload vs (8 * dd_item_bytes d) GP_RLE_AUTO = Inr p"
proof -
  define w where "w = nat (dd_item_bytes d)"
  let ?s = "drop 12 p" and ?rs = "rle_records w (drop 12 p)"
  from dec rle obtain runs where
    pre: "struct_unpack DATA_PREFIX_FORMAT p = [Encoding_value ENC_GPIO_RLE, dd_item_bytes d, 0, item_count * dd_item_bytes d, runs]"
    and smp: "decode_rle FK_GPIO_DATA ?s (dd_item_bytes d) item_count (item_count * dd_item_bytes d) runs = Inr (dd_payload d)"
    and wd: "dd_item_bytes d \<in> {1, 2}" and n: "1 \<le> item_count" "item_count \<le> 4048 div dd_item_bytes d"
    and len: "12 \<le> length p"
    unfolding decode_data_payload_eq_Inr by (auto simp: decode_samples_def)
  have w: "dd_item_bytes d = int w" "w = 1 \<or> w = 2" using wd by (auto simp: w_def)
  from smp have r: "1 \<le> runs" "int (length ?s) = runs * (2 + int w)" "int (length ?s) < item_count * int w"
      "check_runs item_count ?rs 0 None = Inr item_count" and pay: "dd_payload d = expand_runs w ?rs"
    using w by (auto simp: decode_rle_def Let_def require_eq_Inr bind_res_eq_Inr)
  define vs where "vs = run_values ?rs"
  have ok: "runs_ok None ?rs" "run_total ?rs = item_count" using r by (auto simp: check_runs_eq_Inr)
  have nvs: "int (length vs) = item_count" using length_run_values [OF ok(1)] ok(2) by (simp add: vs_def)
  have "length ?s = nat runs * (2 + w)"
    using r(1,2) by (metis (no_types, lifting) nat_int nat_mult_distrib int_ops(2,4) nat_0_le of_nat_mult of_nat_add of_nat_numeral order.trans zero_le_one)
  note recs = rle_wire_records [OF this]
  have rng: "0 \<le> v \<and> v < 2 ^ (8 * w)" if "v \<in> set vs" for v
  proof -
    from that obtain m where "(m, v) \<in> set ?rs" by (auto simp: vs_def run_values_def)
    then show ?thesis using recs by (auto simp: power_mult)
  qed
  have "vs \<noteq> []" "length vs \<le> 4048 div w" using nvs n w by auto
  from encode_gpio_payload_runs [OF w(2) this rng, where policy = GP_RLE_AUTO] obtain rs where
    rs: "runs_ok None rs" "run_values rs = vs" and enc: "encode_gpio_payload vs (8 * int w) GP_RLE_AUTO = Inr (
       if length (rle_wire w rs) < length (concat (map (le_bytes w) vs))
       then data_prefix ENC_GPIO_RLE (int w) (int (length (concat (map (le_bytes w) vs)))) (int (length rs)) @ rle_wire w rs
       else data_prefix ENC_RAW (int w) (int (length (concat (map (le_bytes w) vs)))) 0 @ concat (map (le_bytes w) vs))"
    by auto
  have same: "rs = ?rs" using runs_unique [OF rs(1) ok(1)] rs(2) by (simp add: vs_def)
  have lens: "int (length rs) = runs" using recs r(1) same by simp
  have "struct_pack DATA_PREFIX_FORMAT (struct_unpack DATA_PREFIX_FORMAT p) = Some (take 12 p)"
    using struct_pack_unpack [of DATA_PREFIX_FORMAT p] len by (simp add: DATA_PREFIX_FORMAT_def)
  then have "data_prefix ENC_GPIO_RLE (int w) (item_count * int w) runs = take 12 p"
    using pre w by (simp add: data_prefix_def)
  moreover have "length ?s < length vs * w"
    using r(3) nvs by (metis of_nat_less_iff of_nat_mult)
  ultimately have "encode_gpio_payload vs (8 * dd_item_bytes d) GP_RLE_AUTO = Inr p"
    using enc recs same lens nvs w by (simp add: raw_length)
  moreover have "dd_payload d = concat (map (le_bytes w) vs)" using pay by (simp add: expand_runs_values vs_def)
  ultimately show ?thesis using nvs unfolding w_def by blast
qed

theorem rle_payload_canonical_witness:
  "\<exists>vs d. decode_data_payload FK_GPIO_DATA [1, 1, 0, 0, 4, 0, 0, 0, 1, 0, 0, 0, 4, 0, 9] 4 = Inr d \<and>
     dd_payload d = concat (map (le_bytes 1) vs) \<and> length vs = 4 \<and>
     encode_gpio_payload vs 8 GP_RLE_AUTO = Inr [1, 1, 0, 0, 4, 0, 0, 0, 1, 0, 0, 0, 4, 0, 9]"
proof -
  let ?p = "[1, 1, 0, 0, 4, 0, 0, 0, 1, 0, 0, 0, 4, 0, 9] :: bytes"
  have "case decode_data_payload FK_GPIO_DATA ?p 4 of Inr d \<Rightarrow> dd_encoding d = ENC_GPIO_RLE \<and> dd_item_bytes d = 1 | Inl e \<Rightarrow> False"
    by code_simp
  then obtain d where d: "decode_data_payload FK_GPIO_DATA ?p 4 = Inr d" "dd_encoding d = ENC_GPIO_RLE" "dd_item_bytes d = 1"
    by (auto split: sum.splits)
  from rle_payload_canonical [OF d(1,2)] d show ?thesis by auto
qed

end
