(* ===== verification/V3_Control.thy ===== *)
theory V3_Control
  imports V3_Records V3_Codec
begin

text \<open>
  The variable-content control payloads of \<^verbatim>\<open>models_v3.py\<close>: device identity
  (\<^verbatim>\<open>V3Info\<close>), capabilities with their tables and the settings selection, and the
  state reports \<^verbatim>\<open>V3Stop\<close> and \<^verbatim>\<open>V3Status\<close>. Every one of them is a \<open>wire_codec\<close>.
\<close>

section \<open>Identity\<close>

text \<open>
  Identity strings are \<open>string\<close>s: a code point above 255 is outside the model's type, and the
  code rejects it like every other non-printable character.
\<close>

definition printable :: "byte \<Rightarrow> bool" where
  "printable b \<longleftrightarrow> 32 \<le> uint b \<and> uint b \<le> 126"

definition byte_of_char :: "char \<Rightarrow> byte" where
  "byte_of_char ch = word_of_nat (of_char ch)"

definition char_of_byte :: "byte \<Rightarrow> char" where
  "char_of_byte b = char_of (unat b)"

definition ascii_encode :: "string \<Rightarrow> nat \<Rightarrow> v3_error + bytes" where
  "ascii_encode v n =
     require (0 < length v \<and> length v < n \<and> list_all (\<lambda>ch. printable (byte_of_char ch)) v) INVALID (
     Inr (map byte_of_char v @ replicate (n - length v) 0))"

definition ascii_decode :: "bytes \<Rightarrow> v3_error + string" where
  "ascii_decode data = (
     let txt = takeWhile (\<lambda>b. b \<noteq> 0) data; rest = dropWhile (\<lambda>b. b \<noteq> 0) data in
     require (txt \<noteq> [] \<and> rest \<noteq> [] \<and> list_all (\<lambda>b. b = 0) (tl rest) \<and> list_all printable txt) INVALID (
     Inr (map char_of_byte txt)))"

record V3Info =
  in_board_id :: BoardId
  in_mcu_id :: McuId
  in_simulated :: bool
  in_hardware_serial :: string
  in_firmware_version :: string
  in_build_id :: string
  in_clocks :: V3Clocks
  in_protocol_version :: int
  in_adc_resolution_bits :: int

text \<open>The scalar part of \<^verbatim>\<open>"<BBHHHBBBB32s16s48s24s"\<close>; the byte strings follow.\<close>

definition INFO_SCALARS_FORMAT :: "nat list" where
  "INFO_SCALARS_FORMAT = [1, 1, 2, 2, 2, 1, 1, 1, 1]"

definition info_to_payload :: "V3Info \<Rightarrow> v3_error + bytes" where
  "info_to_payload i =
     require (in_board_id i = BOARD_TEENSY_40 \<and> in_mcu_id i = MCU_IMXRT1062) INVALID (
     require (in_protocol_version i = PROTOCOL_VERSION \<and> in_adc_resolution_bits i = 12) INVALID (
     require (\<not> in_simulated i \<or> take 4 (in_hardware_serial i) = ''SIM-'') INVALID (
     bind_res (ascii_encode (in_hardware_serial i) 32) (\<lambda>serial.
     bind_res (ascii_encode (in_firmware_version i) 16) (\<lambda>firmware.
     bind_res (ascii_encode (in_build_id i) 48) (\<lambda>build.
     bind_res (clocks_to_bytes (in_clocks i)) (\<lambda>clocks.
     bind_res (pack INFO_SCALARS_FORMAT [0, 0, 0, BoardId_value (in_board_id i), McuId_value (in_mcu_id i),
        of_bool (in_simulated i), in_protocol_version i, in_adc_resolution_bits i, 0]) (\<lambda>scalars.
     Inr (scalars @ serial @ firmware @ build @ clocks)))))))))"

definition info_from_payload :: "bytes \<Rightarrow> v3_error + V3Info" where
  "info_from_payload payload =
     bind_res (success payload INFO_RESPONSE_PAYLOAD_SIZE) (\<lambda>data.
     let f = struct_unpack INFO_SCALARS_FORMAT data;
         board = f ! 3; mcu = f ! 4; simulated = f ! 5; version = f ! 6; resolution = f ! 7; reserved = f ! 8 in
     require (reserved = 0 \<and> simulated \<in> {0, 1}) INVALID (
     require (board = BoardId_value BOARD_TEENSY_40 \<and> mcu = McuId_value MCU_IMXRT1062) INVALID (
     bind_res (ascii_decode (py_slice 12 44 data)) (\<lambda>serial.
     bind_res (ascii_decode (py_slice 44 60 data)) (\<lambda>firmware.
     bind_res (ascii_decode (py_slice 60 108 data)) (\<lambda>build.
     bind_res (clocks_from_bytes (drop 108 data)) (\<lambda>clocks.
     let result = \<lparr>in_board_id = BOARD_TEENSY_40, in_mcu_id = MCU_IMXRT1062, in_simulated = (simulated \<noteq> 0),
         in_hardware_serial = serial, in_firmware_version = firmware, in_build_id = build, in_clocks = clocks,
         in_protocol_version = version, in_adc_resolution_bits = resolution\<rparr> in
     bind_res (info_to_payload result) (\<lambda>_. Inr result))))))))"

section \<open>Device state\<close>

record V3Stop =
  sp_state :: DeviceState
  sp_run_id :: int
  sp_pending_frames :: int

definition stop_to_payload :: "V3Stop \<Rightarrow> v3_error + bytes" where
  "stop_to_payload s =
     require (sp_state s \<noteq> DS_STOPPED \<or> sp_pending_frames s = 0) INVALID (
     require (sp_state s \<noteq> DS_DRAINING \<or> sp_pending_frames s > 0) INVALID (
     require (sp_state s = DS_STOPPED \<or> sp_run_id s \<noteq> 0) INVALID (
     pack STOP_RESPONSE_FORMAT [0, 0, 0, DeviceState_value (sp_state s), 0, 0, sp_run_id s, sp_pending_frames s])))"

definition stop_from_payload :: "bytes \<Rightarrow> v3_error + V3Stop" where
  "stop_from_payload payload =
     bind_res (success payload STOP_RESPONSE_PAYLOAD_SIZE) (\<lambda>data.
     let f = struct_unpack STOP_RESPONSE_FORMAT data in
     require (f ! 4 = 0 \<and> f ! 5 = 0) INVALID (
     bind_res (res_of_option INVALID (DeviceState_of_int (f ! 3))) (\<lambda>state.
     let result = \<lparr>sp_state = state, sp_run_id = f ! 6, sp_pending_frames = f ! 7\<rparr> in
     bind_res (stop_to_payload result) (\<lambda>_. Inr result))))"

text \<open>
  \<^verbatim>\<open>V3Status(V3Stop)\<close>: the eight produced and dropped counters, and the 37 optional
  diagnostics (\<^verbatim>\<open>adc_codec_completed\<close> to \<^verbatim>\<open>packet_encoding_rejections\<close>) as one list in
  field order, \<open>None\<close> where unavailable. A list of another length has no encoding.
\<close>

record V3Status =
  ss_stop :: V3Stop
  ss_adc_frames_produced :: int
  ss_adc_frames_dropped :: int
  ss_adc_items_produced :: int
  ss_adc_items_dropped :: int
  ss_gpio_frames_produced :: int
  ss_gpio_frames_dropped :: int
  ss_gpio_items_produced :: int
  ss_gpio_items_dropped :: int
  ss_diagnostics :: "int option list"

definition status_counts :: "V3Status \<Rightarrow> int list" where
  "status_counts s = [ss_adc_frames_produced s, ss_adc_frames_dropped s, ss_adc_items_produced s,
     ss_adc_items_dropped s, ss_gpio_frames_produced s, ss_gpio_frames_dropped s, ss_gpio_items_produced s,
     ss_gpio_items_dropped s]"

definition status_validity :: "int option list \<Rightarrow> int" where
  "status_validity diagnostics =
     sum_list (map (\<lambda>(i, v). if v \<noteq> None then 2 ^ i else 0) (enumerate 0 diagnostics))"

definition status_words :: "nat list" where
  "status_words = replicate (8 + STATUS_DIAGNOSTIC_COUNT + 1) 8"

fun dropped_within_produced :: "int list \<Rightarrow> bool" where
  "dropped_within_produced (produced # dropped # cs) =
     (0 \<le> dropped \<and> dropped \<le> produced \<and> dropped_within_produced cs)"
| "dropped_within_produced _ = True"

definition status_to_payload :: "V3Status \<Rightarrow> v3_error + bytes" where
  "status_to_payload s =
     bind_res (stop_to_payload (ss_stop s)) (\<lambda>prefix.
     require (dropped_within_produced (status_counts s)) INVALID (
     bind_res (pack status_words (status_counts s @
        map (\<lambda>v. case v of None \<Rightarrow> 0 | Some x \<Rightarrow> x) (ss_diagnostics s) @ [status_validity (ss_diagnostics s)])) (\<lambda>body.
     Inr (prefix @ body))))"

text \<open>\<^verbatim>\<open>cls(stop.state, .., *values[:8], *diagnostics)\<close>.\<close>

definition status_of_values :: "V3Stop \<Rightarrow> int list \<Rightarrow> int option list \<Rightarrow> V3Status" where
  "status_of_values stop vals diagnostics =
     \<lparr>ss_stop = stop, ss_adc_frames_produced = vals ! 0, ss_adc_frames_dropped = vals ! 1,
      ss_adc_items_produced = vals ! 2, ss_adc_items_dropped = vals ! 3, ss_gpio_frames_produced = vals ! 4,
      ss_gpio_frames_dropped = vals ! 5, ss_gpio_items_produced = vals ! 6, ss_gpio_items_dropped = vals ! 7,
      ss_diagnostics = diagnostics\<rparr>"

definition status_diagnostics :: "int \<Rightarrow> int list \<Rightarrow> int option list" where
  "status_diagnostics validity diag =
     map (\<lambda>(i, v). if validity AND 2 ^ i \<noteq> 0 then Some v else None) (enumerate 0 diag)"

definition unavailable_are_zero :: "int \<Rightarrow> int list \<Rightarrow> bool" where
  "unavailable_are_zero validity diag \<longleftrightarrow>
     list_all (\<lambda>(i, v). v = 0 \<or> validity AND 2 ^ i \<noteq> 0) (enumerate 0 diag)"

definition status_from_payload :: "bytes \<Rightarrow> v3_error + V3Status" where
  "status_from_payload payload =
     bind_res (success payload STATUS_RESPONSE_PAYLOAD_SIZE) (\<lambda>data.
     bind_res (stop_from_payload (take STOP_RESPONSE_PAYLOAD_SIZE data)) (\<lambda>stop.
     let vals = struct_unpack status_words (drop STOP_RESPONSE_PAYLOAD_SIZE data);
         validity = last vals; diag = butlast (drop 8 vals) in
     require (validity < 2 ^ STATUS_DIAGNOSTIC_COUNT) INVALID (
     require (unavailable_are_zero validity diag) INVALID (
     let result = status_of_values stop vals (status_diagnostics validity diag) in
     bind_res (status_to_payload result) (\<lambda>_. Inr result)))))"

section \<open>Capabilities\<close>

record V3Capabilities =
  cap_defaults :: V3Settings
  cap_cpu_profiles :: "V3Clocks list"
  cap_rate_profiles :: "V3Rate list"
  cap_configurations :: "V3Settings list"
  cap_max_data_frame_bytes :: int
  cap_max_control_frame_bytes :: int
  cap_max_logical_payload_bytes :: int
  cap_max_encoded_sample_bytes :: int
  cap_max_adc_pairs :: int
  cap_max_gpio8_samples :: int
  cap_max_gpio16_samples :: int

definition LIMITS :: "int list" where
  "LIMITS = [MAX_DATA_FRAME_BYTES, MAX_CONTROL_FRAME_BYTES, MAX_LOGICAL_PAYLOAD_BYTES, MAX_ENCODED_SAMPLE_BYTES,
     MAX_ADC_PAIRS, MAX_GPIO8_SAMPLES, MAX_GPIO16_SAMPLES]"

definition validate_limits :: "int list \<Rightarrow> v3_error + unit" where
  "validate_limits limits =
     require (list_all2 (\<lambda>v maximum. 0 < v \<and> v \<le> maximum) limits LIMITS) INVALID (
     let frame = limits ! 0; control = limits ! 1; logical = limits ! 2; encoded = limits ! 3;
         adc = limits ! 4; gpio8 = limits ! 5; gpio16 = limits ! 6 in
     require (control \<ge> MIN_FRAME_BYTES + CAPABILITIES_RESPONSE_PAYLOAD_SIZE \<and>
       frame \<ge> MIN_FRAME_BYTES + DATA_PREFIX_BYTES + encoded \<and>
       adc * 4 \<le> logical \<and> gpio8 \<le> logical \<and> gpio16 * 2 \<le> logical) INVALID (Inr ()))"

definition cap_limits :: "V3Capabilities \<Rightarrow> int list" where
  "cap_limits c = [cap_max_data_frame_bytes c, cap_max_control_frame_bytes c, cap_max_logical_payload_bytes c,
     cap_max_encoded_sample_bytes c, cap_max_adc_pairs c, cap_max_gpio8_samples c, cap_max_gpio16_samples c]"

text \<open>The scalar part of \<^verbatim>\<open>"<BBHBBBBIIIIIII20s48s20s1280s"\<close>.\<close>

definition CAPABILITIES_SCALARS_FORMAT :: "nat list" where
  "CAPABILITIES_SCALARS_FORMAT = [1, 1, 2, 1, 1, 1, 1, 4, 4, 4, 4, 4, 4, 4]"

definition ljust :: "nat \<Rightarrow> bytes \<Rightarrow> bytes" where
  "ljust n bs = bs @ replicate (n - length bs) 0"

definition capabilities_to_payload :: "V3Capabilities \<Rightarrow> v3_error + bytes" where
  "capabilities_to_payload c = (
     let nc = length (cap_cpu_profiles c); nr = length (cap_rate_profiles c); ns = length (cap_configurations c) in
     bind_res (validate_limits (cap_limits c)) (\<lambda>_.
     require (1 \<le> nc \<and> nc \<le> MAX_CPU_PROFILES \<and> 1 \<le> nr \<and> nr \<le> MAX_RATE_PROFILES \<and>
       1 \<le> ns \<and> ns \<le> MAX_CONFIGURATION_TUPLES) INVALID (
     bind_res (map_res clocks_to_bytes (cap_cpu_profiles c)) (\<lambda>cpus.
     bind_res (map_res rate_to_bytes (cap_rate_profiles c)) (\<lambda>rates.
     bind_res (map_res settings_to_bytes (cap_configurations c)) (\<lambda>settings.
     require (distinct cpus \<and> distinct rates \<and> distinct settings) INVALID (
     bind_res (settings_to_bytes (cap_defaults c)) (\<lambda>dflt.
     require (cap_defaults c \<in> set (cap_configurations c)) INVALID (
     require (list_all (\<lambda>s. st_cpu_profile s \<in> cl_cpu_profile ` set (cap_cpu_profiles c) \<and>
        st_rate_profile s \<in> rt_rate_profile ` set (cap_rate_profiles c)) (cap_configurations c)) INVALID (
     bind_res (pack CAPABILITIES_SCALARS_FORMAT ([0, 0, 0, int nc, int nr, int ns, 0] @ cap_limits c)) (\<lambda>scalars.
     Inr (scalars @ dflt @ ljust (MAX_CPU_PROFILES * 24) (concat cpus) @ ljust (MAX_RATE_PROFILES * 20) (concat rates)
       @ ljust (MAX_CONFIGURATION_TUPLES * 20) (concat settings)))))))))))))"

definition table :: "bytes \<Rightarrow> int \<Rightarrow> nat \<Rightarrow> nat \<Rightarrow> v3_error + bytes list" where
  "table data count capacity width =
     require (1 \<le> count \<and> count \<le> int capacity) INVALID (
     let n = nat count in
     require (list_all (\<lambda>b. b = 0) (drop (n * width) data)) INVALID (
     let records = map (\<lambda>i. py_slice (i * width) ((i + 1) * width) data) [0..<n] in
     require (distinct records) INVALID (Inr records)))"

definition capabilities_of ::
  "V3Settings \<Rightarrow> V3Clocks list \<Rightarrow> V3Rate list \<Rightarrow> V3Settings list \<Rightarrow> int list \<Rightarrow> V3Capabilities" where
  "capabilities_of dflt cpus rates settings limits =
     \<lparr>cap_defaults = dflt, cap_cpu_profiles = cpus, cap_rate_profiles = rates,
      cap_configurations = settings, cap_max_data_frame_bytes = limits ! 0,
      cap_max_control_frame_bytes = limits ! 1, cap_max_logical_payload_bytes = limits ! 2,
      cap_max_encoded_sample_bytes = limits ! 3, cap_max_adc_pairs = limits ! 4,
      cap_max_gpio8_samples = limits ! 5, cap_max_gpio16_samples = limits ! 6\<rparr>"

definition capabilities_from_payload :: "bytes \<Rightarrow> v3_error + V3Capabilities" where
  "capabilities_from_payload payload =
     bind_res (success payload CAPABILITIES_RESPONSE_PAYLOAD_SIZE) (\<lambda>data.
     let f = struct_unpack CAPABILITIES_SCALARS_FORMAT data; limits = drop 7 f in
     require (f ! 6 = 0) INVALID (
     bind_res (validate_limits limits) (\<lambda>_.
     bind_res (table (py_slice 56 104 data) (f ! 3) MAX_CPU_PROFILES 24) (\<lambda>cpu_records.
     bind_res (table (py_slice 104 124 data) (f ! 4) MAX_RATE_PROFILES 20) (\<lambda>rate_records.
     bind_res (table (drop 124 data) (f ! 5) MAX_CONFIGURATION_TUPLES 20) (\<lambda>settings_records.
     bind_res (settings_from_bytes (py_slice 36 56 data)) (\<lambda>dflt.
     bind_res (map_res clocks_from_bytes cpu_records) (\<lambda>cpus.
     bind_res (map_res rate_from_bytes rate_records) (\<lambda>rates.
     bind_res (map_res settings_from_bytes settings_records) (\<lambda>settings.
     let result = capabilities_of dflt cpus rates settings limits in
     bind_res (capabilities_to_payload result) (\<lambda>_. Inr result)))))))))))"

text \<open>\<^verbatim>\<open>V3Capabilities.canonical()\<close>, with the dflt limits of the dataclass.\<close>

definition canonical_capabilities :: "v3_error + V3Capabilities" where
  "canonical_capabilities =
     bind_res default_settings (\<lambda>dflt.
     bind_res (map_res clocks_from_bytes CPU_PROFILES) (\<lambda>cpus.
     bind_res (map_res rate_from_bytes RATE_PROFILES) (\<lambda>rates.
     bind_res (map_res settings_from_bytes SELECTABLE_CONFIGURATIONS) (\<lambda>settings.
     Inr (capabilities_of dflt cpus rates settings LIMITS)))))"

definition require_supported :: "V3Capabilities \<Rightarrow> V3Settings \<Rightarrow> v3_error + unit" where
  "require_supported c s =
     bind_res (capabilities_to_payload c) (\<lambda>_.
     bind_res (settings_to_bytes s) (\<lambda>_.
     require (s \<in> set (cap_configurations c)) UNSUPPORTED (Inr ())))"

text \<open>The keyword arguments of \<^verbatim>\<open>select_settings\<close>; \<open>None\<close> is an omitted option.\<close>

record v3_selection =
  sel_adc :: "bool option"
  sel_gpio :: "bool option"
  sel_source :: "int option"
  sel_checksum_algorithm :: "int option"
  sel_cpu_profile :: "int option"
  sel_rate_profile :: "int option"
  sel_aux_bank_mode :: "int option"
  sel_gpio_policy :: "int option"
  sel_adc_policy :: "int option"
  sel_adc_resolution_bits :: "int option"
  sel_adc_pair_rate_hz :: "int option"
  sel_gpio_sample_rate_hz :: "int option"

definition override :: "'a \<Rightarrow> 'a option \<Rightarrow> 'a" where
  "override d v = (case v of None \<Rightarrow> d | Some x \<Rightarrow> x)"

definition select_mask :: "int \<Rightarrow> bool option \<Rightarrow> int \<Rightarrow> int" where
  "select_mask m enabled b =
     (case enabled of None \<Rightarrow> m | Some True \<Rightarrow> m OR b | Some False \<Rightarrow> m AND NOT b)"

definition select_width :: "V3Capabilities \<Rightarrow> int option \<Rightarrow> int \<Rightarrow> int" where
  "select_width c aux width = (case aux of None \<Rightarrow> width
     | Some mode \<Rightarrow> (case remdups (map st_gpio_width_bits
           (filter (\<lambda>s. AuxBankMode_value (st_aux_bank_mode s) = mode) (cap_configurations c))) of
         [w] \<Rightarrow> w | _ \<Rightarrow> width))"

definition rate_matches :: "v3_selection \<Rightarrow> V3Rate \<Rightarrow> bool" where
  "rate_matches opts r \<longleftrightarrow>
     (sel_rate_profile opts = None \<or> RateProfile_value (rt_rate_profile r) = the (sel_rate_profile opts)) \<and>
     (sel_adc_pair_rate_hz opts = None \<or> rt_adc_pair_rate_hz r = the (sel_adc_pair_rate_hz opts)) \<and>
     (sel_gpio_sample_rate_hz opts = None \<or> rt_gpio_sample_rate_hz r = the (sel_gpio_sample_rate_hz opts))"

text \<open>
  The requested tuple: the defaults, overridden by the given options, and by the one matching
  rate record where a rate option is given.
\<close>

definition requested_fields :: "V3Capabilities \<Rightarrow> v3_selection \<Rightarrow> v3_error + int list" where
  "requested_fields c opts = (
     let d = settings_fields (cap_defaults c);
         mask = select_mask (select_mask (d ! 0) (sel_adc opts) STREAM_ADC) (sel_gpio opts) STREAM_GPIO;
         tuple = (\<lambda>profile adc_hz gpio_hz. [mask, override (d ! 1) (sel_source opts), override (d ! 2) (sel_checksum_algorithm opts),
            d ! 3, override (d ! 4) (sel_cpu_profile opts), profile, override (d ! 6) (sel_aux_bank_mode opts),
            select_width c (sel_aux_bank_mode opts) (d ! 7), override (d ! 8) (sel_gpio_policy opts),
            override (d ! 9) (sel_adc_policy opts), override (d ! 10) (sel_adc_resolution_bits opts), adc_hz, gpio_hz]) in
     if sel_rate_profile opts \<noteq> None \<or> sel_adc_pair_rate_hz opts \<noteq> None \<or> sel_gpio_sample_rate_hz opts \<noteq> None
     then (case filter (rate_matches opts) (cap_rate_profiles c) of
             [r] \<Rightarrow> Inr (tuple (RateProfile_value (rt_rate_profile r)) (rt_adc_pair_rate_hz r) (rt_gpio_sample_rate_hz r))
           | _ \<Rightarrow> Inl UNSUPPORTED)
     else Inr (tuple (d ! 5) (d ! 11) (d ! 12)))"

definition select_settings :: "V3Capabilities \<Rightarrow> v3_selection \<Rightarrow> v3_error + V3Settings" where
  "select_settings c opts =
     bind_res (capabilities_to_payload c) (\<lambda>_.
     bind_res (requested_fields c opts) (\<lambda>requested.
     res_of_option UNSUPPORTED (List.find (\<lambda>s. settings_fields s = requested) (cap_configurations c))))"

section \<open>Codec laws\<close>

subsection \<open>Identity strings\<close>

lemma char_byte_roundtrip [simp]: "char_of_byte (byte_of_char ch) = ch" "byte_of_char (char_of_byte b) = b"
proof -
  have "of_char ch < (256::nat)" by simp
  then show "char_of_byte (byte_of_char ch) = ch" by (simp add: char_of_byte_def byte_of_char_def unat_of_nat)
  have "unat b < 256" using unsigned_less [of b] by simp
  then show "byte_of_char (char_of_byte b) = b" by (simp add: char_of_byte_def byte_of_char_def of_char_of)
qed

lemma printable_nonzero: "printable b \<Longrightarrow> b \<noteq> 0"
  by (auto simp: printable_def)

lemma ascii_decode_encode:
  assumes "ascii_encode v n = Inr b"
  shows "length b = n" "ascii_decode b = Inr v"
proof -
  let ?t = "map byte_of_char v"
  have b: "b = ?t @ replicate (n - length v) 0" "0 < length v" "length v < n" "list_all printable ?t"
    using assms by (auto simp: ascii_encode_def res_simps list_all_iff)
  show "length b = n" using b by simp
  have nz: "x \<noteq> 0" if "x \<in> set ?t" for x using b(4) that printable_nonzero by (auto simp: list_all_iff)
  have "n - length v = Suc (n - length v - 1)" using b(3) by simp
  then obtain k where k: "n - length v = Suc k" by blast
  have "takeWhile (\<lambda>x. x \<noteq> 0) b = ?t" "dropWhile (\<lambda>x. x \<noteq> 0) b = replicate (Suc k) 0"
    unfolding b(1) k using nz by (subst takeWhile_append2 dropWhile_append2; auto)+
  then show "ascii_decode b = Inr v"
    using b(2,4) by (auto simp: ascii_decode_def list_all_iff comp_def)
qed

lemma ascii_encode_decode:
  assumes "ascii_decode b = Inr v"
  shows "ascii_encode v (length b) = Inr b"
proof -
  let ?t = "takeWhile (\<lambda>x. x \<noteq> 0) b" and ?r = "dropWhile (\<lambda>x. x \<noteq> 0) b"
  have t: "?t \<noteq> []" "?r \<noteq> []" "list_all (\<lambda>x. x = 0) (tl ?r)" "list_all printable ?t" "v = map char_of_byte ?t"
    using assms by (auto simp: ascii_decode_def Let_def res_simps)
  have "hd ?r = 0" using hd_dropWhile [OF t(2)] by simp
  then have "list_all (\<lambda>x. x = 0) ?r" using t(2,3) by (cases ?r) auto
  then have "\<forall>x \<in> set ?r. x = 0" unfolding list_all_iff .
  then have r: "replicate (length ?r) 0 = ?r" by (rule replicate_length_same)
  have b: "?t @ ?r = b" by simp
  then have len: "length b = length ?t + length ?r" by (metis length_append)
  then have "length b - length ?t = length ?r" by simp
  with r b have "b = ?t @ replicate (length b - length ?t) 0" by (simp only:)
  moreover have "0 < length ?t" "length ?t < length b" using t(1,2) len by auto
  ultimately show ?thesis
    using t(4,5) by (simp add: ascii_encode_def comp_def list_all_length)
qed

subsection \<open>Identity\<close>

lemma sum_INFO_SCALARS [simp]: "sum_list INFO_SCALARS_FORMAT = 12"
  by (simp add: INFO_SCALARS_FORMAT_def)

lemma info_split:
  assumes "length p = 132"
  shows "p = take 12 p @ py_slice 12 44 p @ py_slice 44 60 p @ py_slice 60 108 p @ drop 108 p"
    "length (py_slice 12 44 p) = 32" "length (py_slice 44 60 p) = 16" "length (py_slice 60 108 p) = 48"
proof -
  have "drop a p = take n (drop a p) @ drop (a + n) p" for a n by (metis append_take_drop_id drop_drop add.commute)
  from this [of 12 32] this [of 44 16] this [of 60 48]
  show "p = take 12 p @ py_slice 12 44 p @ py_slice 44 60 p @ py_slice 60 108 p @ drop 108 p"
    by (simp add: py_slice_def)
qed (use assms in simp_all)

lemma OK_PREFIX_scalars: "take 4 p = OK_PREFIX \<longleftrightarrow> struct_unpack [1, 1, 2] p = [0, 0, 0] \<and> 4 \<le> length p"
proof
  assume p: "take 4 p = OK_PREFIX"
  have s4: "sum_list [1, 1, 2] + 0 = (4::nat)" by simp
  from p have l: "4 \<le> length p" by (metis length_OK_PREFIX length_take min.cobounded1)
  have "struct_unpack [1, 1, 2] p = struct_unpack [1, 1, 2] (take 4 p)"
    using struct_unpack_take [of "[1, 1, 2]" 0 p, unfolded s4] by (rule sym)
  also have "\<dots> = [0, 0, 0]" unfolding p OK_PREFIX_def by (simp add: numeral_eq_Suc)
  finally show "struct_unpack [1, 1, 2] p = [0, 0, 0] \<and> 4 \<le> length p" using l by simp
next
  assume p: "struct_unpack [1, 1, 2] p = [0, 0, 0] \<and> 4 \<le> length p"
  then have "struct_pack [1, 1, 2] [0, 0, 0] = Some (take 4 p)"
    using struct_pack_unpack [of "[1, 1, 2]" p] by (simp add: numeral_eq_Suc)
  moreover have "struct_pack [1, 1, 2] [0, 0, 0] = Some OK_PREFIX" by (simp add: OK_PREFIX_def numeral_eq_Suc)
  ultimately show "take 4 p = OK_PREFIX" by simp
qed

lemma info_from_payload_iff: "info_from_payload p = Inr i \<longleftrightarrow> info_to_payload i = Inr p"
proof
  let ?f = "struct_unpack INFO_SCALARS_FORMAT p"
  assume "info_from_payload p = Inr i"
  then obtain p' where p: "length p = 132" "take 4 p = OK_PREFIX" and to: "info_to_payload i = Inr p'"
    and f: "?f ! 8 = 0" "?f ! 5 \<in> {0, 1}" "?f ! 3 = 1" "?f ! 4 = 1"
    and i: "in_simulated i = (?f ! 5 \<noteq> 0)" "in_protocol_version i = ?f ! 6" "in_adc_resolution_bits i = ?f ! 7"
      "in_board_id i = BOARD_TEENSY_40" "in_mcu_id i = MCU_IMXRT1062"
    and strings: "ascii_decode (py_slice 12 44 p) = Inr (in_hardware_serial i)"
      "ascii_decode (py_slice 44 60 p) = Inr (in_firmware_version i)"
      "ascii_decode (py_slice 60 108 p) = Inr (in_build_id i)" "clocks_from_bytes (drop 108 p) = Inr (in_clocks i)"
    by (auto simp: info_from_payload_def Let_def res_simps)
  have z: "?f!0 = 0" "?f!1 = 0" "?f!2 = 0"
    using p(2) by (simp_all add: OK_PREFIX_scalars INFO_SCALARS_FORMAT_def)
  have s: "?f ! 5 = of_bool (in_simulated i)" using f i by auto
  have "?f = [?f!0, ?f!1, ?f!2, ?f!3, ?f!4, ?f!5, ?f!6, ?f!7, ?f!8]"
    by (intro nth_equalityI) (auto simp: less_Suc_eq numeral_eq_Suc INFO_SCALARS_FORMAT_def)
  also have "\<dots> = [0, 0, 0, 1, 1, of_bool (in_simulated i), in_protocol_version i, in_adc_resolution_bits i, 0]"
    using f(1,3,4) i(2,3) z s by simp
  finally have "struct_pack INFO_SCALARS_FORMAT [0, 0, 0, 1, 1, of_bool (in_simulated i), in_protocol_version i, in_adc_resolution_bits i, 0]
      = Some (take 12 p)"
    using struct_pack_unpack [of INFO_SCALARS_FORMAT p] p(1) by simp
  moreover note ascii_encode_decode [OF strings(1)] ascii_encode_decode [OF strings(2)] ascii_encode_decode [OF strings(3)]
    strings(4) [unfolded clocks_from_bytes_iff] info_split [OF p(1)]
  ultimately show "info_to_payload i = Inr p"
    using to i by (auto simp: info_to_payload_def res_simps)
next
  assume to: "info_to_payload i = Inr p"
  then obtain sc s fw b k where guards: "in_board_id i = BOARD_TEENSY_40" "in_mcu_id i = MCU_IMXRT1062"
    and e: "ascii_encode (in_hardware_serial i) 32 = Inr s" "ascii_encode (in_firmware_version i) 16 = Inr fw"
      "ascii_encode (in_build_id i) 48 = Inr b" "clocks_to_bytes (in_clocks i) = Inr k"
    and sc: "struct_pack INFO_SCALARS_FORMAT [0, 0, 0, BoardId_value (in_board_id i), McuId_value (in_mcu_id i),
        of_bool (in_simulated i), in_protocol_version i, in_adc_resolution_bits i, 0] = Some sc"
    and p: "p = sc @ s @ fw @ b @ k"
    by (auto simp: info_to_payload_def res_simps)
  have l: "length sc = 12" "length s = 32" "length fw = 16" "length b = 48" "length k = 24"
    using struct_pack_length [OF sc] ascii_decode_encode(1) [OF e(1)] ascii_decode_encode(1) [OF e(2)]
      ascii_decode_encode(1) [OF e(3)] record_lengths(2) [OF e(4)] by simp_all
  have f: "struct_unpack INFO_SCALARS_FORMAT p = [0, 0, 0, 1, 1, of_bool (in_simulated i), in_protocol_version i, in_adc_resolution_bits i, 0]"
    using struct_unpack_pack [OF sc] p guards by simp
  then have "struct_unpack [1, 1, 2] p = [0, 0, 0]" by (simp add: INFO_SCALARS_FORMAT_def)
  then have pre: "take 4 p = OK_PREFIX" using l p by (simp add: OK_PREFIX_scalars)
  have sl: "py_slice 12 44 p = s" "py_slice 44 60 p = fw" "py_slice 60 108 p = b" "drop 108 p = k" "length p = 132"
    using l p by (simp_all add: py_slice_def)
  show "info_from_payload p = Inr i"
    using to sl pre e f guards ascii_decode_encode(2) [OF e(1)] ascii_decode_encode(2) [OF e(2)] ascii_decode_encode(2) [OF e(3)]
    by (cases i) (simp add: info_from_payload_def Let_def res_simps clocks_from_bytes_iff)
qed

interpretation info_codec: wire_codec info_to_payload info_from_payload
  by unfold_locales (simp_all add: info_from_payload_iff)

subsection \<open>Device state\<close>

lemma sum_STOP_RESPONSE [simp]: "sum_list STOP_RESPONSE_FORMAT = 16"
  by (simp add: STOP_RESPONSE_FORMAT_def)

lemma stop_payload_length: "stop_to_payload s = Inr p \<Longrightarrow> length p = 16"
  by (auto simp: stop_to_payload_def res_simps pack_unpack_iff)

lemma stop_from_payload_iff: "stop_from_payload p = Inr s \<longleftrightarrow> stop_to_payload s = Inr p"
proof
  let ?f = "struct_unpack STOP_RESPONSE_FORMAT p"
  assume "stop_from_payload p = Inr s"
  then obtain p' where p: "length p = 16" "take 4 p = OK_PREFIX" and to: "stop_to_payload s = Inr p'"
    and f: "?f ! 4 = 0" "?f ! 5 = 0" "DeviceState_of_int (?f ! 3) = Some (sp_state s)"
      "sp_run_id s = ?f ! 6" "sp_pending_frames s = ?f ! 7"
    by (auto simp: stop_from_payload_def Let_def res_simps)
  have z: "?f!0 = 0" "?f!1 = 0" "?f!2 = 0"
    using p(2) by (simp_all add: OK_PREFIX_scalars STOP_RESPONSE_FORMAT_def)
  have "?f = [?f!0, ?f!1, ?f!2, ?f!3, ?f!4, ?f!5, ?f!6, ?f!7]"
    by (intro nth_equalityI) (auto simp: less_Suc_eq numeral_eq_Suc STOP_RESPONSE_FORMAT_def)
  also have "\<dots> = [0, 0, 0, DeviceState_value (sp_state s), 0, 0, sp_run_id s, sp_pending_frames s]"
    using f z DeviceState_of_int_Some [OF f(3)] by simp
  finally have "struct_pack STOP_RESPONSE_FORMAT [0, 0, 0, DeviceState_value (sp_state s), 0, 0, sp_run_id s, sp_pending_frames s] = Some p"
    using p(1) by (simp add: pack_unpack_iff)
  with to show "stop_to_payload s = Inr p" by (auto simp: stop_to_payload_def res_simps)
next
  assume to: "stop_to_payload s = Inr p"
  then have p: "struct_pack STOP_RESPONSE_FORMAT [0, 0, 0, DeviceState_value (sp_state s), 0, 0, sp_run_id s, sp_pending_frames s] = Some p"
    by (auto simp: stop_to_payload_def res_simps)
  then have f: "struct_unpack STOP_RESPONSE_FORMAT p = [0, 0, 0, DeviceState_value (sp_state s), 0, 0, sp_run_id s, sp_pending_frames s]"
    by (simp add: pack_unpack_iff)
  have l: "length p = 16" by (rule stop_payload_length [OF to])
  have "struct_unpack [1, 1, 2] p = [0, 0, 0]" using f by (simp add: STOP_RESPONSE_FORMAT_def)
  then have "take 4 p = OK_PREFIX" using l by (simp add: OK_PREFIX_scalars)
  then show "stop_from_payload p = Inr s"
    using to f l by (cases s) (simp add: stop_from_payload_def Let_def res_simps)
qed

interpretation stop_codec: wire_codec stop_to_payload stop_from_payload
  by unfold_locales (simp_all add: stop_from_payload_iff)

lemma stop_payload_prefix: "stop_to_payload s = Inr p \<Longrightarrow> take 4 p = OK_PREFIX"
  unfolding stop_from_payload_iff [symmetric] by (auto simp: stop_from_payload_def res_simps)

subsection \<open>Status diagnostics\<close>

lemma status_validity_horner: "status_validity ds = horner_sum of_bool 2 (map (\<lambda>v. v \<noteq> None) ds)"
proof (induction ds rule: rev_induct)
  case (snoc v ds)
  have "horner_sum of_bool (2 :: int) (map (\<lambda>v. v \<noteq> None) (ds @ [v]))
      = horner_sum of_bool 2 (map (\<lambda>v. v \<noteq> None) ds) + 2 ^ length ds * of_bool (v \<noteq> None)"
    by (simp add: horner_sum_append)
  then show ?case using snoc by (simp add: status_validity_def enumerate_append_eq)
qed (simp add: status_validity_def)

lemma status_validity_bit: "bit (status_validity ds) i \<longleftrightarrow> i < length ds \<and> ds ! i \<noteq> None"
  by (auto simp: status_validity_horner bit_horner_sum_bit_iff)

lemma status_validity_range: "0 \<le> status_validity ds" "status_validity ds < 2 ^ length ds"
proof -
  show "0 \<le> status_validity ds"
    unfolding status_validity_def by (rule sum_list_nonneg) auto
  show "status_validity ds < 2 ^ length ds"
    unfolding status_validity_horner by (rule order.strict_trans2 [OF horner_sum_of_bool_2_less]) simp
qed

lemma and_exp_nonzero: "(v :: int) AND 2 ^ i \<noteq> 0 \<longleftrightarrow> bit v i"
  by (simp add: and_exp_eq_0_iff_not_bit)

lemma validity_unique:
  assumes "0 \<le> v" "v < 2 ^ length ds" "\<And>i. i < length ds \<Longrightarrow> bit v i \<longleftrightarrow> ds ! i \<noteq> None"
  shows "v = status_validity ds"
proof (rule bit_eqI)
  fix i
  have "take_bit (length ds) v = v" using assms(1,2) by (simp add: take_bit_int_eq_self_iff)
  then have "bit v i \<longleftrightarrow> i < length ds \<and> bit v i" by (metis bit_take_bit_iff)
  then show "bit v i \<longleftrightarrow> bit (status_validity ds) i" using assms(3) by (auto simp: status_validity_bit)
qed

definition diagnostic_values :: "int option list \<Rightarrow> int list" where
  "diagnostic_values = map (\<lambda>v. case v of None \<Rightarrow> 0 | Some x \<Rightarrow> x)"

lemma diagnostics_decode:
  assumes "0 \<le> v" "v < 2 ^ length vs"
    and "unavailable_are_zero v vs"
  defines "ds \<equiv> status_diagnostics v vs"
  shows "diagnostic_values ds = vs" "status_validity ds = v"
proof -
  have l: "length ds = length vs" by (simp add: ds_def status_diagnostics_def)
  have nth: "ds ! i = (if bit v i then Some (vs ! i) else None)" if "i < length vs" for i
    using that by (simp add: ds_def status_diagnostics_def nth_enumerate_eq and_exp_nonzero)
  have z: "vs ! i = 0 \<or> bit v i" if "i < length vs" for i
    using assms(3) that by (auto simp: unavailable_are_zero_def list_all_length nth_enumerate_eq and_exp_nonzero)
  show "diagnostic_values ds = vs"
    by (rule nth_equalityI) (use l nth z in \<open>auto simp: diagnostic_values_def\<close>)
  show "status_validity ds = v"
    using validity_unique [of v ds] assms(1,2) l nth by auto
qed

lemma diagnostics_encode:
  "status_diagnostics (status_validity ds) (diagnostic_values ds) = ds"
  "unavailable_are_zero (status_validity ds) (diagnostic_values ds)"
proof -
  have nth: "enumerate 0 (diagnostic_values ds) ! i = (i, case ds ! i of None \<Rightarrow> 0 | Some x \<Rightarrow> x)" if "i < length ds" for i
    using that by (simp add: nth_enumerate_eq diagnostic_values_def)
  have l: "length (diagnostic_values ds) = length ds" by (simp add: diagnostic_values_def)
  show "status_diagnostics (status_validity ds) (diagnostic_values ds) = ds"
    unfolding status_diagnostics_def by (rule nth_equalityI) (auto simp: nth l and_exp_nonzero status_validity_bit)
  show "unavailable_are_zero (status_validity ds) (diagnostic_values ds)"
    by (auto simp: unavailable_are_zero_def list_all_length nth l and_exp_nonzero status_validity_bit)
qed

lemma status_words_simps [simp]: "length status_words = 46" "sum_list status_words = 368"
  by (simp_all add: status_words_def sum_list_replicate)

lemma length_status_counts: "length (status_counts s) = 8"
  by (simp add: status_counts_def)

lemma status_from_payload_iff: "status_from_payload p = Inr s \<longleftrightarrow> status_to_payload s = Inr p"
proof
  let ?v = "struct_unpack status_words (drop 16 p)"
  assume "status_from_payload p = Inr s"
  then obtain stop p' where p: "length p = 384" and st: "stop_to_payload stop = Inr (take 16 p)"
    and v: "last ?v < 2 ^ 37" and z: "unavailable_are_zero (last ?v) (butlast (drop 8 ?v))"
    and s: "s = status_of_values stop ?v (status_diagnostics (last ?v) (butlast (drop 8 ?v)))"
    and to: "status_to_payload s = Inr p'"
    by (auto simp: status_from_payload_def Let_def res_simps stop_from_payload_iff)
  have d: "ss_diagnostics s = status_diagnostics (last ?v) (butlast (drop 8 ?v))"
    and stop: "stop_to_payload (ss_stop s) = Inr (take 16 p)"
    and c: "status_counts s = [?v!0, ?v!1, ?v!2, ?v!3, ?v!4, ?v!5, ?v!6, ?v!7]"
    using st by (simp_all add: s status_counts_def status_of_values_def)
  have l: "length ?v = 46" by simp
  have "length ?v \<noteq> 0" "length (drop 8 ?v) \<noteq> 0" by simp_all
  then have ne: "?v \<noteq> []" "drop 8 ?v \<noteq> []" unfolding length_0_conv .
  have nonneg: "0 \<le> last ?v" by (rule struct_unpack_nonneg [OF last_in_set [OF ne(1)]])
  have len: "length (butlast (drop 8 ?v)) = 37" by simp
  have dec: "diagnostic_values (ss_diagnostics s) = butlast (drop 8 ?v)" "status_validity (ss_diagnostics s) = last ?v"
    using diagnostics_decode [of "last ?v" "butlast (drop 8 ?v)"] nonneg v z unfolding len d by auto
  have "last (drop 8 ?v) = last ?v" using l by (simp add: last_drop)
  then have "butlast (drop 8 ?v) @ [last ?v] = drop 8 ?v" using append_butlast_last_id [OF ne(2)] by (simp only:)
  then have "?v = take 8 ?v @ butlast (drop 8 ?v) @ [last ?v]" by (simp only: append_take_drop_id)
  also have "take 8 ?v = status_counts s"
    unfolding c by (intro nth_equalityI) (auto simp: less_Suc_eq numeral_eq_Suc)
  finally have "struct_pack status_words (status_counts s @ diagnostic_values (ss_diagnostics s) @ [status_validity (ss_diagnostics s)]) = Some (drop 16 p)"
    using p(1) dec by (simp add: pack_unpack_iff)
  with to stop show "status_to_payload s = Inr p"
    by (auto simp: status_to_payload_def res_simps diagnostic_values_def)
next
  assume to: "status_to_payload s = Inr p"
  then obtain pre body where st: "stop_to_payload (ss_stop s) = Inr pre" and p: "p = pre @ body"
    and b: "struct_pack status_words (status_counts s @ diagnostic_values (ss_diagnostics s) @ [status_validity (ss_diagnostics s)]) = Some body"
    by (auto simp: status_to_payload_def res_simps diagnostic_values_def)
  have l: "length pre = 16" "length body = 368"
    using stop_payload_length [OF st] struct_pack_length [OF b] by simp_all
  have v: "struct_unpack status_words body = status_counts s @ diagnostic_values (ss_diagnostics s) @ [status_validity (ss_diagnostics s)]"
    using b by (simp add: pack_unpack_iff)
  then have "length (status_counts s @ diagnostic_values (ss_diagnostics s) @ [status_validity (ss_diagnostics s)]) = 46"
    using struct_unpack_length [of status_words body] by simp
  then have ld: "length (ss_diagnostics s) = 37" by (simp add: status_counts_def diagnostic_values_def)
  have "last (struct_unpack status_words body) = status_validity (ss_diagnostics s)"
    "butlast (drop 8 (struct_unpack status_words body)) = diagnostic_values (ss_diagnostics s)"
    unfolding v by (simp_all add: status_counts_def butlast_append)
  moreover have "struct_unpack status_words body ! i = status_counts s ! i" if "i < 8" for i
    unfolding v using that by (simp add: nth_append length_status_counts)
  moreover have "take 4 p = OK_PREFIX" using stop_payload_prefix [OF st] p l by simp
  moreover have "status_validity (ss_diagnostics s) < 2 ^ 37"
    using status_validity_range(2) [of "ss_diagnostics s"] unfolding ld by simp
  ultimately show "status_from_payload p = Inr s"
    using to st l diagnostics_encode [of "ss_diagnostics s"]
    by (cases s) (simp add: status_from_payload_def Let_def res_simps p stop_from_payload_iff status_counts_def status_of_values_def)
qed

interpretation status_codec: wire_codec status_to_payload status_from_payload
  by unfold_locales (simp_all add: status_from_payload_iff)

subsection \<open>Capability tables\<close>

lemma table_eq_Inr:
  assumes "length data = capacity * width"
  shows "table data count capacity width = Inr records \<longleftrightarrow>
    count = int (length records) \<and> 1 \<le> length records \<and> length records \<le> capacity \<and> distinct records \<and>
    list_all (\<lambda>r. length r = width) records \<and> data = ljust (capacity * width) (concat records)"
proof
  assume tab: "table data count capacity width = Inr records"
  define n where "n = nat count"
  have n: "count = int n" "1 \<le> n" "n \<le> capacity" and z: "list_all (\<lambda>b. b = 0) (drop (n * width) data)" "distinct records"
    and r: "records = map (\<lambda>i. py_slice (i * width) ((i + 1) * width) data) [0..<n]"
    using tab by (auto simp: table_def Let_def res_simps n_def)
  have fits: "i * width + width \<le> length data" if "i < n" for i
  proof -
    have "Suc i * width \<le> capacity * width" using that n(3) by (intro mult_le_mono1) simp
    then show ?thesis using assms by simp
  qed
  have len: "length (py_slice (i * width) ((i + 1) * width) data) = width" if "i < n" for i
    using fits [OF that] by simp
  have "take (n * width) data = concat records" unfolding r
  proof (rule eq_concat_chunks)
    show "length (take (n * width) data) = n * width" using assms mult_le_mono1 [OF n(3), of width] by simp
  next
    fix i c assume ic: "i < n" "c < width"
    have "i * width + c < Suc i * width" using ic(2) by simp
    also have "\<dots> \<le> n * width" using ic(1) by (intro mult_le_mono1) simp
    finally have "i * width + c < n * width" .
    then show "take (n * width) data ! (i * width + c) = py_slice (i * width) ((i + 1) * width) data ! c"
      using ic fits [OF ic(1)] by (simp add: py_slice_def)
  qed (rule len)
  moreover have "drop (n * width) data = replicate (length data - n * width) 0"
  proof -
    have "\<forall>b \<in> set (drop (n * width) data). b = 0" using z(1) unfolding list_all_iff .
    then have "replicate (length (drop (n * width) data)) 0 = drop (n * width) data" by (rule replicate_length_same)
    then show ?thesis by simp
  qed
  moreover have cl: "length (concat records) = n * width"
  proof -
    have "length x = width" if "x \<in> set records" for x
      using that len by (auto simp: r simp del: length_py_slice)
    then have "length (concat records) = length records * width" by (rule length_concat_chunks)
    then show ?thesis by (simp add: r)
  qed
  ultimately have "data = ljust (capacity * width) (concat records)"
    unfolding ljust_def assms [symmetric] by (metis append_take_drop_id)
  moreover have "length records = n" "list_all (\<lambda>r. length r = width) records"
    using len by (auto simp: r list_all_iff simp del: length_py_slice)
  ultimately show "count = int (length records) \<and> 1 \<le> length records \<and> length records \<le> capacity \<and> distinct records \<and>
    list_all (\<lambda>r. length r = width) records \<and> data = ljust (capacity * width) (concat records)"
    using n z(2) by simp
next
  assume r: "count = int (length records) \<and> 1 \<le> length records \<and> length records \<le> capacity \<and> distinct records \<and>
    list_all (\<lambda>r. length r = width) records \<and> data = ljust (capacity * width) (concat records)"
  let ?n = "length records"
  have len: "length x = width" if "x \<in> set records" for x using r that by (auto simp: list_all_iff)
  have cl: "length (concat records) = ?n * width" using length_concat_chunks [OF len] by simp
  have data: "data = concat records @ replicate (capacity * width - ?n * width) 0" using r cl by (simp add: ljust_def)
  have "map (\<lambda>i. py_slice (i * width) ((i + 1) * width) data) [0..<?n] = records"
  proof (rule nth_equalityI)
    fix i assume "i < length (map (\<lambda>i. py_slice (i * width) ((i + 1) * width) data) [0..<?n])"
    then have i: "i < ?n" by simp
    have "records = take i records @ records ! i # drop (Suc i) records" by (rule id_take_nth_drop [OF i])
    then have "concat records = concat (take i records) @ records ! i @ concat (drop (Suc i) records)"
      by (metis concat.simps(2) concat_append)
    moreover have "length (concat (take i records)) = i * width"
      using length_concat_chunks [of "take i records" width] len i by (auto dest: in_set_takeD)
    moreover have "length (records ! i) = width" using len i by simp
    ultimately show "map (\<lambda>i. py_slice (i * width) ((i + 1) * width) data) [0..<?n] ! i = records ! i"
      using i by (simp add: py_slice_def data)
  qed simp
  moreover have "list_all (\<lambda>b. b = 0) (drop (?n * width) data)" using cl by (simp add: data list_all_iff)
  ultimately show "table data count capacity width = Inr records"
    using r by (simp add: table_def Let_def)
qed

lemma encoded_table_lengths:
  "map_res clocks_to_bytes ks = Inr bs \<Longrightarrow> list_all (\<lambda>r. length r = 24) bs \<and> length bs = length ks"
  "map_res rate_to_bytes rs = Inr cs \<Longrightarrow> list_all (\<lambda>r. length r = 20) cs \<and> length cs = length rs"
  "map_res settings_to_bytes ss = Inr ds \<Longrightarrow> list_all (\<lambda>r. length r = 20) ds \<and> length ds = length ss"
  using record_lengths by (auto simp: map_res_eq_Inr list_all_length)

definition caps_consistent :: "V3Capabilities \<Rightarrow> bool" where
  "caps_consistent c \<longleftrightarrow> validate_limits (cap_limits c) = Inr () \<and> cap_defaults c \<in> set (cap_configurations c) \<and>
     list_all (\<lambda>s. st_cpu_profile s \<in> cl_cpu_profile ` set (cap_cpu_profiles c) \<and>
        st_rate_profile s \<in> rt_rate_profile ` set (cap_rate_profiles c)) (cap_configurations c)"

definition caps_wire :: "V3Capabilities \<Rightarrow> bytes list \<Rightarrow> bytes list \<Rightarrow> bytes list \<Rightarrow> bytes \<Rightarrow> bytes \<Rightarrow> bool" where
  "caps_wire c cpus rates settings dflt scalars \<longleftrightarrow>
     map_res clocks_to_bytes (cap_cpu_profiles c) = Inr cpus \<and> map_res rate_to_bytes (cap_rate_profiles c) = Inr rates \<and>
     map_res settings_to_bytes (cap_configurations c) = Inr settings \<and> settings_to_bytes (cap_defaults c) = Inr dflt \<and>
     1 \<le> length cpus \<and> length cpus \<le> 2 \<and> 1 \<le> length rates \<and> length rates \<le> 1 \<and> 1 \<le> length settings \<and> length settings \<le> 64 \<and>
     distinct cpus \<and> distinct rates \<and> distinct settings \<and>
     struct_pack CAPABILITIES_SCALARS_FORMAT ([0, 0, 0, int (length cpus), int (length rates), int (length settings), 0]
       @ cap_limits c) = Some scalars"

lemma capabilities_to_payload_eq_Inr:
  "capabilities_to_payload c = Inr p \<longleftrightarrow> caps_consistent c \<and> (\<exists>cpus rates settings dflt scalars.
     caps_wire c cpus rates settings dflt scalars \<and>
     p = scalars @ dflt @ ljust 48 (concat cpus) @ ljust 20 (concat rates) @ ljust 1280 (concat settings))"
  unfolding capabilities_to_payload_def Let_def bind_res_eq_Inr require_eq_Inr pack_eq_Inr sum.inject
    caps_consistent_def caps_wire_def
  using map_res_length [of clocks_to_bytes "cap_cpu_profiles c"] map_res_length [of rate_to_bytes "cap_rate_profiles c"]
    map_res_length [of settings_to_bytes "cap_configurations c"]
  by auto

lemma caps_wire_lengths:
  assumes "caps_wire c cpus rates settings dflt scalars"
  shows "length scalars = 36" "length dflt = 20" "list_all (\<lambda>r. length r = 24) cpus" "list_all (\<lambda>r. length r = 20) rates"
    "list_all (\<lambda>r. length r = 20) settings" "length (concat cpus) \<le> 48" "length (concat rates) \<le> 20"
    "length (concat settings) \<le> 1280"
proof -
  show s: "length scalars = 36" "length dflt = 20" "list_all (\<lambda>r. length r = 24) cpus" "list_all (\<lambda>r. length r = 20) rates"
    "list_all (\<lambda>r. length r = 20) settings"
    using assms encoded_table_lengths record_lengths
    by (auto simp: caps_wire_def pack_unpack_iff CAPABILITIES_SCALARS_FORMAT_def)
  have cc: "length (concat xs) = length xs * w" if "list_all (\<lambda>r. length r = w) xs" for w and xs :: "bytes list"
    using that by (intro length_concat_chunks) (auto simp: list_all_iff)
  have "length cpus \<le> 2" "length rates \<le> 1" "length settings \<le> 64" using assms by (auto simp: caps_wire_def)
  then show "length (concat cpus) \<le> 48" "length (concat rates) \<le> 20" "length (concat settings) \<le> 1280"
    using cc [OF s(3)] cc [OF s(4)] cc [OF s(5)] by simp_all
qed

lemma length_ljust: "length bs \<le> n \<Longrightarrow> length (ljust n bs) = n"
  by (simp add: ljust_def)

lemma capabilities_of_fields:
  "length limits = 7 \<Longrightarrow> cap_limits (capabilities_of d k r s limits) = limits"
  "cap_defaults (capabilities_of d k r s limits) = d" "cap_cpu_profiles (capabilities_of d k r s limits) = k"
  "cap_rate_profiles (capabilities_of d k r s limits) = r" "cap_configurations (capabilities_of d k r s limits) = s"
  "capabilities_of (cap_defaults c) (cap_cpu_profiles c) (cap_rate_profiles c) (cap_configurations c) (cap_limits c) = c"
proof -
  show "length limits = 7 \<Longrightarrow> cap_limits (capabilities_of d k r s limits) = limits"
    by (intro nth_equalityI) (auto simp: cap_limits_def capabilities_of_def less_Suc_eq numeral_eq_Suc)
qed (simp_all add: capabilities_of_def cap_limits_def)

lemma capabilities_split:
  assumes "length p = 1404"
  shows "p = take 36 p @ py_slice 36 56 p @ py_slice 56 104 p @ py_slice 104 124 p @ drop 124 p"
proof -
  have "drop a p = take n (drop a p) @ drop (a + n) p" for a n by (metis append_take_drop_id drop_drop add.commute)
  from this [of 36 20] this [of 56 48] this [of 104 20] show ?thesis by (simp add: py_slice_def)
qed

lemma capabilities_from_payload_iff: "capabilities_from_payload p = Inr c \<longleftrightarrow> capabilities_to_payload c = Inr p"
proof
  let ?f = "struct_unpack CAPABILITIES_SCALARS_FORMAT p"
  assume "capabilities_from_payload p = Inr c"
  then obtain cpus rates settings d k r s p' where p: "length p = 1404" "take 4 p = OK_PREFIX" and f6: "?f ! 6 = 0"
    and t: "table (py_slice 56 104 p) (?f ! 3) 2 24 = Inr cpus" "table (py_slice 104 124 p) (?f ! 4) 1 20 = Inr rates"
      "table (drop 124 p) (?f ! 5) 64 20 = Inr settings"
    and e: "settings_to_bytes d = Inr (py_slice 36 56 p)" "map_res clocks_to_bytes k = Inr cpus"
      "map_res rate_to_bytes r = Inr rates" "map_res settings_to_bytes s = Inr settings"
    and c: "c = capabilities_of d k r s (drop 7 ?f)" and to: "capabilities_to_payload c = Inr p'"
    by (auto simp: capabilities_from_payload_def Let_def res_simps settings_from_bytes_iff
      clocks_codec.dec_all_iff rate_codec.dec_all_iff settings_codec.dec_all_iff)
  have l: "length ?f = 14" by (simp add: CAPABILITIES_SCALARS_FORMAT_def)
  have tabs: "?f ! 3 = int (length cpus)" "py_slice 56 104 p = ljust 48 (concat cpus)"
    "?f ! 4 = int (length rates)" "py_slice 104 124 p = ljust 20 (concat rates)"
    "?f ! 5 = int (length settings)" "drop 124 p = ljust 1280 (concat settings)"
    using t p(1) by (simp_all add: table_eq_Inr)
  have z: "?f!0 = 0" "?f!1 = 0" "?f!2 = 0"
    using p(2) by (simp_all add: OK_PREFIX_scalars CAPABILITIES_SCALARS_FORMAT_def)
  have cl: "cap_limits c = drop 7 ?f" using capabilities_of_fields(1) [of "drop 7 ?f" d k r s] l by (simp add: c)
  have "take 7 ?f = [?f!0, ?f!1, ?f!2, ?f!3, ?f!4, ?f!5, ?f!6]"
    using l by (intro nth_equalityI) (auto simp: less_Suc_eq numeral_eq_Suc)
  also have "\<dots> = [0, 0, 0, int (length cpus), int (length rates), int (length settings), 0]"
    using z tabs(1,3,5) f6 by simp
  finally have "?f = [0, 0, 0, int (length cpus), int (length rates), int (length settings), 0] @ cap_limits c"
    using append_take_drop_id [of 7 ?f] cl by metis
  then have sc: "struct_pack CAPABILITIES_SCALARS_FORMAT ([0, 0, 0, int (length cpus), int (length rates), int (length settings), 0] @ cap_limits c)
      = Some (take 36 p)"
    using struct_pack_unpack [of CAPABILITIES_SCALARS_FORMAT p] p(1) by (simp add: CAPABILITIES_SCALARS_FORMAT_def)
  have ce: "settings_to_bytes (cap_defaults c) = Inr (py_slice 36 56 p)" "map_res clocks_to_bytes (cap_cpu_profiles c) = Inr cpus"
      "map_res rate_to_bytes (cap_rate_profiles c) = Inr rates" "map_res settings_to_bytes (cap_configurations c) = Inr settings"
    using e by (simp_all add: c capabilities_of_fields)
  from to obtain cpus' rates' settings' d' sc' where "caps_consistent c" and w: "caps_wire c cpus' rates' settings' d' sc'"
    unfolding capabilities_to_payload_eq_Inr by blast
  moreover have "caps_wire c cpus rates settings (py_slice 36 56 p) (take 36 p)"
    using w ce sc by (auto simp: caps_wire_def)
  moreover have "p = take 36 p @ py_slice 36 56 p @ ljust 48 (concat cpus) @ ljust 20 (concat rates) @ ljust 1280 (concat settings)"
    using capabilities_split [OF p(1)] tabs(2,4,6) by simp
  ultimately show "capabilities_to_payload c = Inr p" unfolding capabilities_to_payload_eq_Inr by blast
next
  assume to: "capabilities_to_payload c = Inr p"
  then obtain cpus rates settings dflt sc where cons: "caps_consistent c" and w: "caps_wire c cpus rates settings dflt sc"
    and p: "p = sc @ dflt @ ljust 48 (concat cpus) @ ljust 20 (concat rates) @ ljust 1280 (concat settings)"
    unfolding capabilities_to_payload_eq_Inr by blast
  note l = caps_wire_lengths [OF w]
  have lj: "length (ljust 48 (concat cpus)) = 48" "length (ljust 20 (concat rates)) = 20" "length (ljust 1280 (concat settings)) = 1280"
    using l by (simp_all add: length_ljust)
  have sl: "length p = 1404" "py_slice 36 56 p = dflt" "py_slice 56 104 p = ljust 48 (concat cpus)"
    "py_slice 104 124 p = ljust 20 (concat rates)" "drop 124 p = ljust 1280 (concat settings)"
    using l lj by (simp_all add: p py_slice_def)
  have f: "struct_unpack CAPABILITIES_SCALARS_FORMAT p =
      [0, 0, 0, int (length cpus), int (length rates), int (length settings), 0] @ cap_limits c"
    using w struct_unpack_pack [of CAPABILITIES_SCALARS_FORMAT _ sc] by (simp add: caps_wire_def p)
  then have "struct_unpack [1, 1, 2] p = [0, 0, 0]" by (simp add: CAPABILITIES_SCALARS_FORMAT_def)
  then have pre: "take 4 p = OK_PREFIX" using sl(1) by (simp add: OK_PREFIX_scalars)
  have t: "table (py_slice 56 104 p) (int (length cpus)) 2 24 = Inr cpus" "table (py_slice 104 124 p) (int (length rates)) 1 20 = Inr rates"
      "table (drop 124 p) (int (length settings)) 64 20 = Inr settings"
    using w l lj by (simp_all add: sl table_eq_Inr caps_wire_def)
  have d: "settings_from_bytes dflt = Inr (cap_defaults c)" "map_res clocks_from_bytes cpus = Inr (cap_cpu_profiles c)"
    "map_res rate_from_bytes rates = Inr (cap_rate_profiles c)" "map_res settings_from_bytes settings = Inr (cap_configurations c)"
    using w by (simp_all add: caps_wire_def settings_from_bytes_iff clocks_codec.dec_all_iff rate_codec.dec_all_iff settings_codec.dec_all_iff)
  have "validate_limits (cap_limits c) = Inr ()" using cons by (simp add: caps_consistent_def)
  then show "capabilities_from_payload p = Inr c"
    using to sl(1,2) pre f t d
    by (simp add: capabilities_from_payload_def Let_def res_simps capabilities_of_fields)
qed

interpretation capabilities_codec: wire_codec capabilities_to_payload capabilities_from_payload
  by unfold_locales (simp_all add: capabilities_from_payload_iff)

section \<open>Properties\<close>

text \<open>
  Property C12. Identity, capabilities, status, stop and applied-settings payloads: a payload
  decodes to a value exactly when that value encodes to the payload, so decoding inverts
  encoding and every accepted payload is the canonical encoding of its value.
\<close>

theorem control_payload_codecs:
  "(info_from_payload p = Inr i \<longleftrightarrow> info_to_payload i = Inr p) \<and>
   (capabilities_from_payload p = Inr c \<longleftrightarrow> capabilities_to_payload c = Inr p) \<and>
   (status_from_payload p = Inr s \<longleftrightarrow> status_to_payload s = Inr p) \<and>
   (stop_from_payload p = Inr t \<longleftrightarrow> stop_to_payload t = Inr p) \<and>
   (applied_from_payload p = Inr a \<longleftrightarrow> applied_to_payload a = Inr p)"
  by (intro conjI info_codec.dec_iff_enc capabilities_codec.dec_iff_enc status_codec.dec_iff_enc
      stop_codec.dec_iff_enc applied_codec.dec_iff_enc)

lemma settings_fields_inject: "settings_fields s = settings_fields t \<Longrightarrow> s = t"
proof -
  have inj: "Source_value a = Source_value b \<Longrightarrow> a = b" "CpuProfile_value c = CpuProfile_value d \<Longrightarrow> c = d"
    "AuxBankMode_value e = AuxBankMode_value f \<Longrightarrow> e = f" "GpioPolicy_value g = GpioPolicy_value h \<Longrightarrow> g = h"
    "AdcPolicy_value i = AdcPolicy_value j \<Longrightarrow> i = j" "(k :: RateProfile) = l" "(m :: V3ChecksumAlgorithm) = n"
    for a b c d e f g h i j k l m n
    by (metis Source_of_value option.inject, metis CpuProfile_of_value option.inject, metis AuxBankMode_of_value option.inject,
      metis GpioPolicy_of_value option.inject, metis AdcPolicy_of_value option.inject, metis RateProfile.exhaust,
      metis V3ChecksumAlgorithm.exhaust)
  assume "settings_fields s = settings_fields t"
  then show "s = t"
    using inj(6) [of "st_rate_profile s" "st_rate_profile t"] inj(7) [of "st_checksum_algorithm s" "st_checksum_algorithm t"]
    by (cases s; cases t) (auto simp: settings_fields_def dest: inj(1-5))
qed

lemma select_mask_bits:
  "bit (select_mask (select_mask m adc STREAM_ADC) gpio STREAM_GPIO) 0 = override (bit m 0) adc"
  "bit (select_mask (select_mask m adc STREAM_ADC) gpio STREAM_GPIO) 1 = override (bit m 1) gpio"
  by (cases adc; cases gpio; auto simp: select_mask_def override_def bit_simps split: bool.splits)+

lemma select_settings_eq_Inr:
  "select_settings c opts = Inr s \<longleftrightarrow> (\<exists>p. capabilities_to_payload c = Inr p) \<and>
     requested_fields c opts = Inr (settings_fields s) \<and> s \<in> set (cap_configurations c)"
proof -
  have "List.find (\<lambda>s. settings_fields s = r) cs = Some s \<longleftrightarrow> r = settings_fields s \<and> s \<in> set cs" for r cs
  proof (induction cs)
    case (Cons a cs)
    then show ?case using settings_fields_inject [of a s] by auto
  qed simp
  then show ?thesis by (auto simp: select_settings_def res_simps)
qed

text \<open>
  Property C14. A selected tuple is one the device advertises (so \<^verbatim>\<open>require_supported\<close>
  accepts it) and honours every option that was given: streams, source, CPU profile, rates,
  auxiliary bank, encoding policies and resolution.
\<close>

theorem select_settings_honours_options:
  assumes "select_settings c opts = Inr s"
  shows "s \<in> set (cap_configurations c) \<and> require_supported c s = Inr () \<and>
    bit (st_stream_mask s) 0 = override (bit (st_stream_mask (cap_defaults c)) 0) (sel_adc opts) \<and>
    bit (st_stream_mask s) 1 = override (bit (st_stream_mask (cap_defaults c)) 1) (sel_gpio opts) \<and>
    Source_value (st_source s) = override (Source_value (st_source (cap_defaults c))) (sel_source opts) \<and>
    CpuProfile_value (st_cpu_profile s) = override (CpuProfile_value (st_cpu_profile (cap_defaults c))) (sel_cpu_profile opts) \<and>
    AuxBankMode_value (st_aux_bank_mode s) = override (AuxBankMode_value (st_aux_bank_mode (cap_defaults c))) (sel_aux_bank_mode opts) \<and>
    GpioPolicy_value (st_gpio_policy s) = override (GpioPolicy_value (st_gpio_policy (cap_defaults c))) (sel_gpio_policy opts) \<and>
    AdcPolicy_value (st_adc_policy s) = override (AdcPolicy_value (st_adc_policy (cap_defaults c))) (sel_adc_policy opts) \<and>
    st_adc_resolution_bits s = override (st_adc_resolution_bits (cap_defaults c)) (sel_adc_resolution_bits opts) \<and>
    (\<forall>v. sel_rate_profile opts = Some v \<longrightarrow> RateProfile_value (st_rate_profile s) = v) \<and>
    (\<forall>v. sel_adc_pair_rate_hz opts = Some v \<longrightarrow> st_adc_pair_rate_hz s = v) \<and>
    (\<forall>v. sel_gpio_sample_rate_hz opts = Some v \<longrightarrow> st_gpio_sample_rate_hz s = v)"
proof -
  from assms obtain p where p: "capabilities_to_payload c = Inr p" and req: "requested_fields c opts = Inr (settings_fields s)"
    and mem: "s \<in> set (cap_configurations c)" unfolding select_settings_eq_Inr by blast
  have "\<exists>b. settings_to_bytes s = Inr b"
    using p mem by (auto simp: capabilities_to_payload_eq_Inr caps_wire_def map_res_eq_Inr in_set_conv_nth)
  then have "require_supported c s = Inr ()" using p mem by (auto simp: require_supported_def res_simps)
  moreover have "st_stream_mask s = select_mask (select_mask (st_stream_mask (cap_defaults c)) (sel_adc opts) STREAM_ADC) (sel_gpio opts) STREAM_GPIO"
    using req by (auto simp: requested_fields_def Let_def settings_fields_def split: if_splits list.splits)
  moreover have "Source_value (st_source s) = override (Source_value (st_source (cap_defaults c))) (sel_source opts) \<and>
    CpuProfile_value (st_cpu_profile s) = override (CpuProfile_value (st_cpu_profile (cap_defaults c))) (sel_cpu_profile opts) \<and>
    AuxBankMode_value (st_aux_bank_mode s) = override (AuxBankMode_value (st_aux_bank_mode (cap_defaults c))) (sel_aux_bank_mode opts) \<and>
    GpioPolicy_value (st_gpio_policy s) = override (GpioPolicy_value (st_gpio_policy (cap_defaults c))) (sel_gpio_policy opts) \<and>
    AdcPolicy_value (st_adc_policy s) = override (AdcPolicy_value (st_adc_policy (cap_defaults c))) (sel_adc_policy opts) \<and>
    st_adc_resolution_bits s = override (st_adc_resolution_bits (cap_defaults c)) (sel_adc_resolution_bits opts)"
    using req by (auto simp: requested_fields_def Let_def settings_fields_def split: if_splits list.splits)
  moreover have "(sel_rate_profile opts = Some v \<longrightarrow> RateProfile_value (st_rate_profile s) = v) \<and>
    (sel_adc_pair_rate_hz opts = Some v \<longrightarrow> st_adc_pair_rate_hz s = v) \<and>
    (sel_gpio_sample_rate_hz opts = Some v \<longrightarrow> st_gpio_sample_rate_hz s = v)" for v
  proof (cases "sel_rate_profile opts \<noteq> None \<or> sel_adc_pair_rate_hz opts \<noteq> None \<or> sel_gpio_sample_rate_hz opts \<noteq> None")
    case True
    with req obtain r where r: "filter (rate_matches opts) (cap_rate_profiles c) = [r]"
      "RateProfile_value (st_rate_profile s) = RateProfile_value (rt_rate_profile r)"
      "st_adc_pair_rate_hz s = rt_adc_pair_rate_hz r" "st_gpio_sample_rate_hz s = rt_gpio_sample_rate_hz r"
      by (auto simp: requested_fields_def Let_def settings_fields_def split: if_splits list.splits)
    then have "r \<in> set (filter (rate_matches opts) (cap_rate_profiles c))" by simp
    then have "rate_matches opts r" by simp
    with r show ?thesis by (auto simp: rate_matches_def)
  qed auto
  ultimately show ?thesis using mem select_mask_bits by simp
qed

definition no_selection :: v3_selection where
  "no_selection = \<lparr>sel_adc = None, sel_gpio = None, sel_source = None, sel_checksum_algorithm = None,
     sel_cpu_profile = None, sel_rate_profile = None, sel_aux_bank_mode = None, sel_gpio_policy = None,
     sel_adc_policy = None, sel_adc_resolution_bits = None, sel_adc_pair_rate_hz = None,
     sel_gpio_sample_rate_hz = None\<rparr>"

lemma select_no_selection:
  assumes "capabilities_to_payload c = Inr p"
  shows "select_settings c no_selection = Inr (cap_defaults c)"
proof -
  have "requested_fields c no_selection = Inr (settings_fields (cap_defaults c))"
    by (simp add: requested_fields_def no_selection_def Let_def select_mask_def select_width_def override_def settings_fields_def)
  moreover have "cap_defaults c \<in> set (cap_configurations c)"
    using assms by (simp add: capabilities_to_payload_eq_Inr caps_consistent_def)
  ultimately show ?thesis using assms by (simp add: select_settings_eq_Inr)
qed

lemma map_res_total: "(\<And>x. x \<in> set xs \<Longrightarrow> \<exists>y. f x = Inr y) \<Longrightarrow> \<exists>ys. map_res f xs = Inr ys"
  by (induction xs) (auto simp: res_simps)

lemma canonical_rows:
  "distinct CPU_PROFILES" "distinct RATE_PROFILES" "distinct SELECTABLE_CONFIGURATIONS"
  "length CPU_PROFILES = 2" "length RATE_PROFILES = 1" "length SELECTABLE_CONFIGURATIONS = 60"
  "DEFAULT_SETTINGS \<in> set SELECTABLE_CONFIGURATIONS"
  by code_simp+

lemma clocks_from_bytes_profile:
  "clocks_from_bytes b = Inr k \<Longrightarrow> cl_cpu_profile k = the (CpuProfile_of_int (struct_unpack CPU_PROFILE_INFO_FORMAT b ! 0))"
  by (auto simp: clocks_from_bytes_def Let_def res_simps)

lemma canonical_capabilities_wire:
  "\<exists>c p. canonical_capabilities = Inr c \<and> capabilities_to_payload c = Inr p \<and> cap_limits c = LIMITS \<and>
     map_res settings_to_bytes (cap_configurations c) = Inr SELECTABLE_CONFIGURATIONS"
proof -
  have rows: "\<exists>k. clocks_from_bytes b = Inr k" if "b \<in> set CPU_PROFILES" for b
    using that cpu_profile_rows [OF that] by (auto simp: clocks_from_bytes_def bounded_bytes_def CPU_PROFILE_INFO_FORMAT_def)
  obtain ks where ks: "map_res clocks_from_bytes CPU_PROFILES = Inr ks" using map_res_total rows by blast
  have "\<exists>r. rate_from_bytes b = Inr r" if "b \<in> set RATE_PROFILES" for b
    using that rate_profile_rows [OF that] by (auto simp: rate_from_bytes_def bounded_bytes_def RATE_PROFILE_INFO_FORMAT_def)
  then obtain rs where rs: "map_res rate_from_bytes RATE_PROFILES = Inr rs" using map_res_total by blast
  obtain ss where ss: "map_res settings_from_bytes SELECTABLE_CONFIGURATIONS = Inr ss"
    using map_res_total settings_decodable by blast
  obtain d where d: "default_settings = Inr d"
    using settings_decodable [OF canonical_rows(7)] by (auto simp: default_settings_def)
  define c where "c = capabilities_of d ks rs ss LIMITS"
  have can: "canonical_capabilities = Inr c" by (simp add: canonical_capabilities_def d ks rs ss c_def)
  have enc: "map_res clocks_to_bytes ks = Inr CPU_PROFILES" "map_res rate_to_bytes rs = Inr RATE_PROFILES"
    "map_res settings_to_bytes ss = Inr SELECTABLE_CONFIGURATIONS" "settings_to_bytes d = Inr DEFAULT_SETTINGS"
    using ks rs ss d by (simp_all add: clocks_codec.dec_all_iff rate_codec.dec_all_iff settings_codec.dec_all_iff
      default_settings_def settings_from_bytes_iff)
  have lim: "cap_limits c = LIMITS" by (simp add: c_def capabilities_of_fields LIMITS_def)
  have "d \<in> set ss"
  proof -
    obtain i where i: "i < length SELECTABLE_CONFIGURATIONS" "SELECTABLE_CONFIGURATIONS ! i = DEFAULT_SETTINGS"
      using canonical_rows(7) by (metis in_set_conv_nth)
    then have "settings_to_bytes (ss ! i) = Inr DEFAULT_SETTINGS" "i < length ss"
      using enc(3) by (auto simp: map_res_eq_Inr)
    then show ?thesis using settings_codec.enc_injective [OF enc(4)] by (metis nth_mem)
  qed
  moreover have "cl_cpu_profile ` set ks = UNIV"
  proof -
    have "map (\<lambda>b. the (CpuProfile_of_int (struct_unpack CPU_PROFILE_INFO_FORMAT b ! 0))) CPU_PROFILES = [CPU_600MHZ, CPU_450MHZ]"
      by code_simp
    moreover have "map cl_cpu_profile ks = map (\<lambda>b. the (CpuProfile_of_int (struct_unpack CPU_PROFILE_INFO_FORMAT b ! 0))) CPU_PROFILES"
      using ks by (intro nth_equalityI) (auto simp: map_res_eq_Inr clocks_from_bytes_profile)
    ultimately have "cl_cpu_profile ` set ks = {CPU_600MHZ, CPU_450MHZ}" by (metis list.set_map list.simps(15) empty_set)
    then show ?thesis using CpuProfile.exhaust by auto
  qed
  moreover have "rt_rate_profile ` set rs = UNIV"
  proof -
    have "rs \<noteq> []" using map_res_length [OF enc(2)] canonical_rows(5) by auto
    then obtain r where "r \<in> set rs" by (meson list.set_sel(1))
    then show ?thesis using RateProfile.exhaust by (metis (full_types) UNIV_eq_I imageI)
  qed
  moreover have "validate_limits LIMITS = Inr ()" by (simp add: validate_limits_def LIMITS_def)
  ultimately have "caps_consistent c" by (simp add: caps_consistent_def lim) (simp add: c_def capabilities_of_fields list_all_iff)
  moreover obtain sc where "caps_wire c CPU_PROFILES RATE_PROFILES SELECTABLE_CONFIGURATIONS DEFAULT_SETTINGS sc"
  proof -
    have "fields_in_range CAPABILITIES_SCALARS_FORMAT ([0, 0, 0, 2, 1, 60, 0] @ LIMITS)"
      by (simp add: CAPABILITIES_SCALARS_FORMAT_def LIMITS_def)
    then obtain sc where "struct_pack CAPABILITIES_SCALARS_FORMAT ([0, 0, 0, 2, 1, 60, 0] @ LIMITS) = Some sc"
      using struct_pack_Some_iff by blast
    then have "caps_wire c CPU_PROFILES RATE_PROFILES SELECTABLE_CONFIGURATIONS DEFAULT_SETTINGS sc"
      using enc by (simp add: caps_wire_def lim canonical_rows) (simp add: c_def capabilities_of_fields)
    then show thesis by (rule that)
  qed
  ultimately obtain p where "capabilities_to_payload c = Inr p" unfolding capabilities_to_payload_eq_Inr by blast
  moreover have "map_res settings_to_bytes (cap_configurations c) = Inr SELECTABLE_CONFIGURATIONS"
    using enc(3) by (simp add: c_def capabilities_of_fields)
  ultimately show ?thesis using can lim by blast
qed

text \<open>A device that advertises two configurations, for the witness below.\<close>

definition example_capabilities :: "v3_error + V3Capabilities" where
  "example_capabilities =
     bind_res (settings_from_bytes (selectable_row (3, 0, 1, 0, 8, 1, 1))) (\<lambda>a.
     bind_res (settings_from_bytes (selectable_row (1, 1, 1, 0, 8, 1, 1))) (\<lambda>b.
     bind_res (clocks_for_profile CPU_600MHZ) (\<lambda>k.
     bind_res (map_res rate_from_bytes RATE_PROFILES) (\<lambda>r.
     Inr (capabilities_of a [k] r [a, b] LIMITS)))))"

abbreviation example_selection :: v3_selection where
  "example_selection \<equiv> no_selection\<lparr>sel_gpio := Some False, sel_source := Some 1, sel_adc_pair_rate_hz := Some 1000000\<rparr>"

theorem select_settings_honours_options_witness:
  "\<exists>c s. example_capabilities = Inr c \<and> select_settings c example_selection = Inr s \<and>
     s \<in> set (cap_configurations c) \<and> \<not> bit (st_stream_mask s) 1 \<and> Source_value (st_source s) = 1 \<and> st_adc_pair_rate_hz s = 1000000"
proof -
  have "case example_capabilities of Inr c \<Rightarrow>
      (case select_settings c example_selection of Inr s \<Rightarrow> True | Inl e \<Rightarrow> False) | Inl e \<Rightarrow> False"
    by code_simp
  then obtain c s where "example_capabilities = Inr c" "select_settings c example_selection = Inr s"
    by (auto split: sum.splits)
  with select_settings_honours_options [of c example_selection s] show ?thesis by (auto simp: override_def)
qed

end
