(* ===== verification/V3_Frame.thy ===== *)
theory V3_Frame
  imports V3_Control Incremental
begin

text \<open>
  Complete version 3 frames: responses and commands (\<^verbatim>\<open>models_v3.py\<close>), frame encoding,
  decoding and validation, and \<^verbatim>\<open>V3FrameParser\<close> (\<^verbatim>\<open>protocol_v3.py\<close>), the instance of the
  bounded incremental parser with these callbacks.
\<close>

record V3Frame =
  fr_header :: V3FrameHeader
  fr_payload :: bytes
  fr_checksum :: int

definition frame_to_bytes :: "V3Frame \<Rightarrow> v3_error + bytes" where
  "frame_to_bytes f =
     bind_res (header_to_bytes (fr_header f)) (\<lambda>h.
     bind_res (pack [4] [fr_checksum f]) (\<lambda>t.
     Inr (h @ fr_payload f @ t)))"

section \<open>Responses\<close>

datatype V3ResponseValue =
  InfoValue V3Info
| CapabilitiesValue V3Capabilities
| AppliedValue V3AppliedSettings
| StopValue V3Stop
| StatusValue V3Status

fun value_to_payload :: "V3ResponseValue \<Rightarrow> v3_error + bytes" where
  "value_to_payload (InfoValue v) = info_to_payload v"
| "value_to_payload (CapabilitiesValue v) = capabilities_to_payload v"
| "value_to_payload (AppliedValue v) = applied_to_payload v"
| "value_to_payload (StopValue v) = stop_to_payload v"
| "value_to_payload (StatusValue v) = status_to_payload v"

record V3Response =
  rp_kind :: FrameKind
  rp_request_id :: int
  rp_run_id :: int
  rp_status :: ResponseStatus
  rp_error_code :: ErrorCode
  rp_value :: "V3ResponseValue option"
  rp_rejected_kind :: "int option"

definition response_ok :: "V3Response \<Rightarrow> bool" where
  "response_ok r \<longleftrightarrow> rp_status r = RS_OK"

definition is_response_kind :: "FrameKind \<Rightarrow> bool" where
  "is_response_kind kind \<longleftrightarrow>
     kind \<in> COMMAND_RESPONSE_KINDS ` {CK_INFO, CK_CONFIGURE, CK_START, CK_GET_STATUS, CK_STOP, CK_GET_CAPABILITIES, CK_GET_SETTINGS}
     \<or> kind = FK_ERROR_RESPONSE"

text \<open>The typed payload of a successful response, by kind.\<close>

definition decode_response_value :: "FrameKind \<Rightarrow> bytes \<Rightarrow> v3_error + V3ResponseValue" where
  "decode_response_value kind data =
     (if kind = FK_INFO_RESPONSE then map_sum id InfoValue (info_from_payload data)
      else if kind = FK_GET_CAPABILITIES_RESPONSE then map_sum id CapabilitiesValue (capabilities_from_payload data)
      else if kind \<in> {FK_CONFIGURE_RESPONSE, FK_START_RESPONSE, FK_GET_SETTINGS_RESPONSE}
      then map_sum id AppliedValue (applied_from_payload data)
      else if kind = FK_GET_STATUS_RESPONSE then map_sum id StatusValue (status_from_payload data)
      else if kind = FK_STOP_RESPONSE
      then bind_res (stop_from_payload data) (\<lambda>v. require (sp_state v \<noteq> DS_RUNNING) INVALID (Inr (StopValue v)))
      else Inl INVALID)"

text \<open>\<^verbatim>\<open>isinstance(value, V3Stop)\<close>: stop reports and, by inheritance, status reports.\<close>

fun value_run_id :: "V3ResponseValue \<Rightarrow> int option" where
  "value_run_id (StopValue v) = Some (sp_run_id v)"
| "value_run_id (StatusValue v) = Some (sp_run_id (ss_stop v))"
| "value_run_id _ = None"

definition decode_v3_response :: "V3Frame \<Rightarrow> v3_error + V3Response" where
  "decode_v3_response frame = (
     let h = fr_header frame; kind = hdr_kind h in
     require (is_response_kind kind) INVALID (
     bind_res (bounded_bytes (fr_payload frame) RESPONSE_PREFIX_PAYLOAD_SIZE
         (MAX_CONTROL_FRAME_BYTES - MIN_FRAME_BYTES)) (\<lambda>data.
     let f = struct_unpack RESPONSE_PREFIX_FORMAT data; reserved = f ! 1 in
     bind_res (res_of_option INVALID (ResponseStatus_of_int (f ! 0))) (\<lambda>status.
     bind_res (res_of_option INVALID (ErrorCode_of_int (f ! 2))) (\<lambda>error.
     require (reserved = 0) INVALID (
     require ((hdr_flags h AND FLAG_RESPONSE_ERROR \<noteq> 0) = (status = RS_ERROR) \<and>
        (status = RS_OK) = (error = EC_OK)) INVALID (
     require (hdr_request_id h \<noteq> 0 \<or> error = EC_INVALID_REQUEST_ID) INVALID (
     bind_res (
       if status = RS_ERROR then
         (if kind = FK_ERROR_RESPONSE
          then require (length data = ERROR_RESPONSE_PAYLOAD_SIZE \<and> list_all (\<lambda>b. b = 0) (drop 5 data)) INVALID
                 (Inr (None, Some (uint (data ! 4))))
          else require (length data = RESPONSE_PREFIX_PAYLOAD_SIZE) INVALID (Inr (None, None)))
       else map_sum id (\<lambda>v. (Some v, None)) (decode_response_value kind data)) (\<lambda>(v, rejected).
     require (case v of None \<Rightarrow> True
              | Some x \<Rightarrow> (case value_run_id x of None \<Rightarrow> True | Some run \<Rightarrow> run = hdr_run_id h)) INVALID (
     Inr \<lparr>rp_kind = kind, rp_request_id = hdr_request_id h, rp_run_id = hdr_run_id h, rp_status = status,
          rp_error_code = error, rp_value = v, rp_rejected_kind = rejected\<rparr>))))))))))"

section \<open>Frames\<close>

definition validate_payload :: "V3Frame \<Rightarrow> v3_error + unit" where
  "validate_payload frame = (
     let kind = hdr_kind (fr_header frame) in
     if is_data_kind kind
     then bind_res (decode_data_payload kind (fr_payload frame) (hdr_item_count (fr_header frame))) (\<lambda>_. Inr ())
     else if kind = FK_CONFIGURE_REQUEST then bind_res (settings_from_bytes (fr_payload frame)) (\<lambda>_. Inr ())
     else if \<not> is_request_kind kind then bind_res (decode_v3_response frame) (\<lambda>_. Inr ())
     else Inr ())"

text \<open>The callers guarantee that the announced bytes are in the buffer.\<close>

definition decode_buffered_v3_frame :: "bytes \<Rightarrow> nat \<Rightarrow> V3FrameHeader \<Rightarrow> v3_error + V3Frame" where
  "decode_buffered_v3_frame data offset header = (
     let stop = offset + nat (hdr_total_length header) - TRAILER_SIZE;
         expected = compute_v3_checksum (py_slice offset stop data);
         observed = le_int (take 4 (drop stop data)) in
     if expected \<noteq> observed then Inl (V3ChecksumMismatchError expected observed)
     else (let frame = \<lparr>fr_header = header, fr_payload = py_slice (offset + HEADER_SIZE) stop data, fr_checksum = observed\<rparr> in
       bind_res (validate_payload frame) (\<lambda>_. Inr frame)))"

definition decode_v3_frame :: "bytes \<Rightarrow> v3_error + V3Frame" where
  "decode_v3_frame data =
     bind_res (bounded_bytes data MIN_FRAME_BYTES MAX_DATA_FRAME_BYTES) (\<lambda>wire.
     bind_res (decode_v3_header wire 0) (\<lambda>header.
     require (int (length wire) = hdr_total_length header) INVALID (
     decode_buffered_v3_frame wire 0 header)))"

definition encode_v3_frame ::
  "int \<Rightarrow> bytes \<Rightarrow> int \<Rightarrow> int \<Rightarrow> int \<Rightarrow> int \<Rightarrow> int \<Rightarrow> int \<Rightarrow> v3_error + bytes" where
  "encode_v3_frame kind payload flags run_id sequence request_id first_sample_ticks item_count =
     bind_res (bounded_bytes payload 0 (DATA_PREFIX_BYTES + MAX_ENCODED_SAMPLE_BYTES)) (\<lambda>data.
     bind_res (res_of_option INVALID (FrameKind_of_int kind)) (\<lambda>frame_kind.
     let header = V3FrameHeader frame_kind (FrameFlag flags) (MIN_FRAME_BYTES + int (length data)) (int (length data))
           run_id sequence request_id first_sample_ticks item_count in
     bind_res (header_to_bytes header) (\<lambda>hb.
     bind_res (decode_v3_header hb 0) (\<lambda>header'.
     bind_res (validate_payload \<lparr>fr_header = header', fr_payload = data, fr_checksum = 0\<rparr>) (\<lambda>_.
     bind_res (header_to_bytes header') (\<lambda>hb'.
     let wire = hb' @ data in
     Inr (wire @ le_bytes 4 (compute_v3_checksum wire))))))))"

section \<open>Commands and response correlation\<close>

record V3Command =
  cm_kind :: CommandKind
  cm_request_id :: int
  cm_settings :: "V3Settings option"

definition command_to_bytes :: "V3Command \<Rightarrow> v3_error + bytes" where
  "command_to_bytes c =
     require ((cm_kind c = CK_CONFIGURE) = (cm_settings c \<noteq> None)) INVALID (
     bind_res (case cm_settings c of None \<Rightarrow> Inr [] | Some s \<Rightarrow> settings_to_bytes s) (\<lambda>payload.
     encode_v3_frame (CommandKind_value (cm_kind c)) payload 0 0 0 (cm_request_id c) 0 0))"

definition command_from_frame :: "V3Frame \<Rightarrow> v3_error + V3Command" where
  "command_from_frame f =
     bind_res (frame_to_bytes f) (\<lambda>bs.
     bind_res (decode_v3_frame bs) (\<lambda>frame.
     bind_res (res_of_option INVALID (CommandKind_of_int (FrameKind_value (hdr_kind (fr_header frame))))) (\<lambda>kind.
     bind_res (if kind = CK_CONFIGURE then map_sum id Some (settings_from_bytes (fr_payload frame)) else Inr None) (\<lambda>settings.
     Inr \<lparr>cm_kind = kind, cm_request_id = hdr_request_id (fr_header frame), cm_settings = settings\<rparr>))))"

definition response_to_bytes :: "V3Response \<Rightarrow> v3_error + bytes" where
  "response_to_bytes r =
     (if rp_status r = RS_OK then
        require (rp_error_code r = EC_OK \<and> rp_value r \<noteq> None \<and> rp_rejected_kind r = None) INVALID (
        bind_res (value_to_payload (the (rp_value r))) (\<lambda>payload.
        encode_v3_frame (FrameKind_value (rp_kind r)) payload 0 (rp_run_id r) 0 (rp_request_id r) 0 0))
      else
        require (rp_error_code r \<noteq> EC_OK \<and> rp_value r = None) INVALID (
        bind_res (pack RESPONSE_PREFIX_FORMAT [ResponseStatus_value (rp_status r), 0, ErrorCode_value (rp_error_code r)]) (\<lambda>prefix.
        bind_res (
          if rp_kind r = FK_ERROR_RESPONSE
          then require (rp_rejected_kind r \<noteq> None) INVALID (
               bind_res (pack [1, 1, 2] [the (rp_rejected_kind r), 0, 0]) (\<lambda>rejected. Inr (prefix @ rejected)))
          else require (rp_rejected_kind r = None) INVALID (Inr prefix)) (\<lambda>payload.
        encode_v3_frame (FrameKind_value (rp_kind r)) payload FLAG_RESPONSE_ERROR (rp_run_id r) 0 (rp_request_id r) 0 0))))"

definition validate_for :: "V3Response \<Rightarrow> V3Command \<Rightarrow> v3_error + unit" where
  "validate_for r c =
     require (rp_request_id r = cm_request_id c) INVALID (
     require (rp_kind r = COMMAND_RESPONSE_KINDS (cm_kind c)) INVALID (
     require (rp_status r = RS_OK \<and> cm_kind c = CK_CONFIGURE \<longrightarrow>
        (case rp_value r of Some (AppliedValue a) \<Rightarrow> Some (ap_settings a) = cm_settings c | _ \<Rightarrow> False)) INVALID (
     Inr ())))"

section \<open>The parser\<close>

definition v3_parser :: "(V3FrameHeader, V3Frame, v3_error) parser_config" where
  "v3_parser = \<lparr>magic_bytes = le_bytes 4 MAGIC, header_size = HEADER_SIZE, max_frame_bytes = MAX_DATA_FRAME_BYTES,
     decode_header = decode_v3_header, decode_frame = decode_buffered_v3_frame,
     header_total_length = (\<lambda>h. nat (hdr_total_length h)), validation_error = (\<lambda>e. True),
     checksum_error = is_checksum_error\<rparr>"

definition frame_length :: "V3Frame \<Rightarrow> nat" where
  "frame_length f = nat (hdr_total_length (fr_header f))"

section \<open>Slices of a frame\<close>

lemma decode_buffered_local:
  assumes "48 \<le> hdr_total_length h"
  shows "decode_buffered_v3_frame data off h
    = decode_buffered_v3_frame (take (nat (hdr_total_length h)) (drop off data)) 0 h"
proof -
  define n where "n = nat (hdr_total_length h)"
  have n: "48 \<le> n" using assms by (simp add: n_def)
  let ?w = "take n (drop off data)"
  have "py_slice off (off + n - 4) data = py_slice 0 (n - 4) ?w"
    using n by (simp add: py_slice_def)
  moreover have "take 4 (drop (off + n - 4) data) = take 4 (drop (n - 4) ?w)"
    using n by (simp add: drop_take add.commute)
  moreover have "py_slice (off + 44) (off + n - 4) data = py_slice 44 (n - 4) ?w"
    using n by (simp add: py_slice_def drop_take min_def add.commute)
  ultimately show ?thesis
    by (simp add: decode_buffered_v3_frame_def n_def [symmetric] Let_def)
qed

text \<open>A received frame, read back from its bytes.\<close>

lemma decode_buffered_eq_Inr:
  assumes "length w = nat (hdr_total_length h)" "48 \<le> length w"
  shows "decode_buffered_v3_frame w 0 h = Inr f \<longleftrightarrow>
    fr_header f = h \<and> fr_payload f = py_slice 44 (length w - 4) w \<and>
    fr_checksum f = le_int (drop (length w - 4) w) \<and>
    compute_v3_checksum (take (length w - 4) w) = fr_checksum f \<and> validate_payload f = Inr ()"
proof -
  have a: "py_slice 0 (length w - 4) w = take (length w - 4) w" by (simp add: py_slice_def)
  have b: "take 4 (drop (length w - 4) w) = drop (length w - 4) w" by simp
  show ?thesis using assms(2)
    by (cases f) (auto simp: decode_buffered_v3_frame_def assms(1) [symmetric] a b Let_def bind_res_eq_Inr)
qed

lemma decode_v3_frame_eq_Inr:
  "decode_v3_frame w = Inr f \<longleftrightarrow> 48 \<le> length w \<and> length w \<le> 4108 \<and>
     decode_v3_header w 0 = Inr (fr_header f) \<and> hdr_total_length (fr_header f) = int (length w) \<and>
     fr_payload f = py_slice 44 (length w - 4) w \<and> fr_checksum f = le_int (drop (length w - 4) w) \<and>
     compute_v3_checksum (take (length w - 4) w) = fr_checksum f \<and> validate_payload f = Inr ()"
proof -
  have "decode_v3_frame w = Inr f \<longleftrightarrow> 48 \<le> length w \<and> length w \<le> 4108 \<and>
      (\<exists>h. decode_v3_header w 0 = Inr h \<and> hdr_total_length h = int (length w) \<and> decode_buffered_v3_frame w 0 h = Inr f)"
    by (auto simp: decode_v3_frame_def res_simps)
  also have "\<dots> \<longleftrightarrow> 48 \<le> length w \<and> length w \<le> 4108 \<and>
      (\<exists>h. decode_v3_header w 0 = Inr h \<and> hdr_total_length h = int (length w) \<and>
        fr_header f = h \<and> fr_payload f = py_slice 44 (length w - 4) w \<and> fr_checksum f = le_int (drop (length w - 4) w) \<and>
        compute_v3_checksum (take (length w - 4) w) = fr_checksum f \<and> validate_payload f = Inr ())"
  proof (cases "48 \<le> length w")
    case True
    have "hdr_total_length h = int (length w) \<Longrightarrow> length w = nat (hdr_total_length h)" for h by simp
    then show ?thesis using decode_buffered_eq_Inr [OF _ True, of _ f] by (intro conj_cong refl ex_cong1) auto
  qed simp
  finally show ?thesis by blast
qed

section \<open>The framing contract\<close>

interpretation v3: framing v3_parser frame_length
proof
  fix buf :: bytes and off :: nat and h :: V3FrameHeader and e :: v3_error and f :: V3Frame
  show "magic_bytes v3_parser \<noteq> []" by (simp add: v3_parser_def numeral_eq_Suc)
  show "length (magic_bytes v3_parser) \<le> header_size v3_parser" "header_size v3_parser \<le> max_frame_bytes v3_parser"
    by (simp_all add: v3_parser_def)
  show "header_size v3_parser \<le> length buf - off \<Longrightarrow>
      decode_header v3_parser buf off = decode_header v3_parser (take (header_size v3_parser) (drop off buf)) 0"
    using decode_v3_header_offset [of buf off 0] by (simp add: v3_parser_def)
  show "validation_error v3_parser e" by (simp add: v3_parser_def)
  show "validation_error v3_parser e" by (simp add: v3_parser_def)
  assume "decode_header v3_parser buf off = Inr h"
  then have h: "decode_v3_header buf off = Inr h" by (simp add: v3_parser_def)
  note bounds = decode_v3_header_bounds [OF h]
  show "header_size v3_parser \<le> header_total_length v3_parser h \<and> header_total_length v3_parser h \<le> max_frame_bytes v3_parser"
    using bounds(1,2) by (simp add: v3_parser_def del: bounds(3)) linarith
  show "decode_frame v3_parser buf off h
      = decode_frame v3_parser (take (header_total_length v3_parser h) (drop off buf)) 0 h"
    using decode_buffered_local [OF bounds(1), of buf off] by (simp add: v3_parser_def)
  show "decode_frame v3_parser buf off h = Inr f \<Longrightarrow> frame_length f = header_total_length v3_parser h"
    by (auto simp: v3_parser_def frame_length_def decode_buffered_v3_frame_def Let_def res_simps split: if_splits)
qed

lemma v3_valid_wire: "decode_v3_frame w = Inr f \<Longrightarrow> valid_wire v3_parser w f"
proof -
  assume dec: "decode_v3_frame w = Inr f"
  then have d: "48 \<le> length w" "decode_v3_header w 0 = Inr (fr_header f)" "hdr_total_length (fr_header f) = int (length w)"
    by (simp_all add: decode_v3_frame_eq_Inr)
  then have buf: "decode_buffered_v3_frame w 0 (fr_header f) = Inr f"
    using dec decode_buffered_eq_Inr [of w "fr_header f" f] by (simp add: decode_v3_frame_eq_Inr)
  have "struct_unpack HEADER_FORMAT w ! 0 = MAGIC"
    using d(2) by (simp add: decode_v3_header_eq_Inr header_fields_def)
  then have "le_int (take 4 w) = MAGIC" by (simp add: HEADER_FORMAT_def)
  moreover have "length (take 4 w) = 4" using d(1) by simp
  ultimately have "take 4 w = le_bytes 4 MAGIC" by (metis le_bytes_le_int)
  then show ?thesis using d buf by (auto simp: valid_wire_def v3_parser_def)
qed

section \<open>Frame codec\<close>

lemma validate_payload_checksum:
  "validate_payload \<lparr>fr_header = h, fr_payload = p, fr_checksum = c\<rparr> = Inr () \<longleftrightarrow>
   validate_payload \<lparr>fr_header = h, fr_payload = p, fr_checksum = 0\<rparr> = Inr ()"
  by (simp add: validate_payload_def decode_v3_response_def Let_def)

lemma V3FrameHeader_sel [simp]:
  "hdr_kind (V3FrameHeader k fl t p r s q ti n) = k" "hdr_flags (V3FrameHeader k fl t p r s q ti n) = fl"
  "hdr_total_length (V3FrameHeader k fl t p r s q ti n) = t" "hdr_payload_length (V3FrameHeader k fl t p r s q ti n) = p"
  "hdr_run_id (V3FrameHeader k fl t p r s q ti n) = r" "hdr_sequence (V3FrameHeader k fl t p r s q ti n) = s"
  "hdr_request_id (V3FrameHeader k fl t p r s q ti n) = q" "hdr_first_sample_ticks (V3FrameHeader k fl t p r s q ti n) = ti"
  "hdr_item_count (V3FrameHeader k fl t p r s q ti n) = n" "hdr_version (V3FrameHeader k fl t p r s q ti n) = 3"
  "hdr_header_length (V3FrameHeader k fl t p r s q ti n) = 44"
  by (simp_all add: V3FrameHeader_def)

lemma header_valid_eta:
  "header_valid h \<Longrightarrow> V3FrameHeader (hdr_kind h) (hdr_flags h) (hdr_total_length h) (hdr_payload_length h) (hdr_run_id h)
      (hdr_sequence h) (hdr_request_id h) (hdr_first_sample_ticks h) (hdr_item_count h) = h"
  by (cases h; cases "hdr_checksum_algorithm h") (simp add: V3FrameHeader_def header_valid_def)

lemma encode_v3_frame_wire:
  assumes "encode_v3_frame kind payload flags run sequence request ticks count = Inr w"
  obtains fk hb where "FrameKind_of_int kind = Some fk" "length payload \<le> 4060"
    "header_to_bytes (V3FrameHeader fk (FrameFlag flags) (48 + int (length payload)) (int (length payload)) run sequence request ticks count) = Inr hb"
    "header_valid (V3FrameHeader fk (FrameFlag flags) (48 + int (length payload)) (int (length payload)) run sequence request ticks count)"
    "validate_payload \<lparr>fr_header = V3FrameHeader fk (FrameFlag flags) (48 + int (length payload)) (int (length payload)) run sequence request ticks count,
       fr_payload = payload, fr_checksum = 0\<rparr> = Inr ()"
    "w = hb @ payload @ le_bytes 4 (compute_v3_checksum (hb @ payload))"
proof -
  from assms obtain fk where fk: "FrameKind_of_int kind = Some fk" by (auto simp: encode_v3_frame_def Let_def res_simps)
  let ?h = "V3FrameHeader fk (FrameFlag flags) (48 + int (length payload)) (int (length payload)) run sequence request ticks count"
  obtain hb h' hb' where s: "length payload \<le> 4060" "header_to_bytes ?h = Inr hb" "decode_v3_header hb 0 = Inr h'"
      "validate_payload \<lparr>fr_header = h', fr_payload = payload, fr_checksum = 0\<rparr> = Inr ()" "header_to_bytes h' = Inr hb'"
      "w = hb' @ payload @ le_bytes 4 (compute_v3_checksum (hb' @ payload))"
    using assms fk by (auto simp: encode_v3_frame_def Let_def res_simps)
  have "h' = ?h" using decode_constructed_header [OF s(2,3)] by simp
  moreover have "header_valid h'" using s(3) by (simp add: decode_v3_header_eq_Inr)
  ultimately show thesis using that [OF fk s(1,2)] s by simp
qed

lemma v3_encode_decode:
  assumes "encode_v3_frame kind payload flags run sequence request ticks count = Inr w"
  shows "\<exists>fk. FrameKind_of_int kind = Some fk \<and> length w = 48 + length payload \<and> length payload \<le> 4060 \<and>
    decode_v3_frame w = Inr \<lparr>fr_header = V3FrameHeader fk (FrameFlag flags) (48 + int (length payload)) (int (length payload))
       run sequence request ticks count, fr_payload = payload,
       fr_checksum = compute_v3_checksum (take (44 + length payload) w)\<rparr>"
proof -
  from encode_v3_frame_wire [OF assms] obtain fk hb where fk: "FrameKind_of_int kind = Some fk" and p: "length payload \<le> 4060"
    and hb: "header_to_bytes (V3FrameHeader fk (FrameFlag flags) (48 + int (length payload)) (int (length payload)) run sequence request ticks count) = Inr hb"
    and hv: "header_valid (V3FrameHeader fk (FrameFlag flags) (48 + int (length payload)) (int (length payload)) run sequence request ticks count)"
    and vp: "validate_payload \<lparr>fr_header = V3FrameHeader fk (FrameFlag flags) (48 + int (length payload)) (int (length payload)) run sequence request ticks count,
       fr_payload = payload, fr_checksum = 0\<rparr> = Inr ()"
    and w: "w = hb @ payload @ le_bytes 4 (compute_v3_checksum (hb @ payload))" .
  have l: "length hb = 44" by (rule header_to_bytes_length [OF hb])
  then have lw: "length w = 48 + length payload" by (simp add: w)
  have t: "take (44 + length payload) w = hb @ payload" using l by (simp add: w)
  have d: "drop (44 + length payload) w = le_bytes 4 (compute_v3_checksum (hb @ payload))" using l by (simp add: w)
  have s: "py_slice 44 (44 + length payload) w = payload" using l by (simp add: w py_slice_def)
  have cs: "le_int (le_bytes 4 (compute_v3_checksum (hb @ payload))) = compute_v3_checksum (hb @ payload)"
    using compute_v3_checksum_range by (simp add: le_int_le_bytes_id)
  have "validate_payload \<lparr>fr_header = V3FrameHeader fk (FrameFlag flags) (48 + int (length payload)) (int (length payload)) run sequence request ticks count,
       fr_payload = payload, fr_checksum = compute_v3_checksum (hb @ payload)\<rparr> = Inr ()"
    using vp validate_payload_checksum by blast
  moreover have "decode_v3_header w 0 = Inr (V3FrameHeader fk (FrameFlag flags) (48 + int (length payload)) (int (length payload)) run sequence request ticks count)"
    using header_to_bytes_decode [OF hv hb] by (simp add: w)
  moreover have lw4: "length w - 4 = 44 + length payload" using lw by simp
  ultimately show ?thesis
    using fk p lw unfolding decode_v3_frame_eq_Inr lw4 t d s cs by simp
qed

lemma v3_decode_encode:
  assumes "decode_v3_frame w = Inr f"
  shows "encode_v3_frame (FrameKind_value (hdr_kind (fr_header f))) (fr_payload f) (hdr_flags (fr_header f))
      (hdr_run_id (fr_header f)) (hdr_sequence (fr_header f)) (hdr_request_id (fr_header f))
      (hdr_first_sample_ticks (fr_header f)) (hdr_item_count (fr_header f)) = Inr w"
    "frame_to_bytes f = Inr w"
proof -
  let ?h = "fr_header f"
  have d: "48 \<le> length w" "length w \<le> 4108" "decode_v3_header w 0 = Inr ?h" "hdr_total_length ?h = int (length w)"
    "fr_payload f = py_slice 44 (length w - 4) w" "fr_checksum f = le_int (drop (length w - 4) w)"
    "compute_v3_checksum (take (length w - 4) w) = fr_checksum f" "validate_payload f = Inr ()"
    using assms by (simp_all add: decode_v3_frame_eq_Inr)
  have hv: "header_valid ?h" and fields: "struct_unpack HEADER_FORMAT w = header_fields ?h"
    using d(3) by (simp_all add: decode_v3_header_eq_Inr)
  have hb: "header_to_bytes ?h = Inr (take 44 w)" using decode_header_to_bytes [OF d(3)] by simp
  have pl: "length (fr_payload f) = length w - 48" using d(1,5) by simp
  have tot: "hdr_total_length ?h = 48 + int (length (fr_payload f))" "hdr_payload_length ?h = int (length (fr_payload f))"
    using d(1,4) pl hv by (auto simp: header_valid_def)
  have flags: "0 \<le> hdr_flags ?h"
    using unpacked_flags_nonneg [of w] by (simp add: fields header_fields_def)
  have eta: "V3FrameHeader (hdr_kind ?h) (FrameFlag (hdr_flags ?h)) (48 + int (length (fr_payload f))) (int (length (fr_payload f)))
      (hdr_run_id ?h) (hdr_sequence ?h) (hdr_request_id ?h) (hdr_first_sample_ticks ?h) (hdr_item_count ?h) = ?h"
    using header_valid_eta [OF hv] tot flags by simp
  have redec: "decode_v3_header (take 44 w) 0 = Inr ?h"
    using header_to_bytes_decode [OF hv hb, of "[]"] by simp
  have vp: "validate_payload \<lparr>fr_header = ?h, fr_payload = fr_payload f, fr_checksum = 0\<rparr> = Inr ()"
    using d(8) by (cases f) (metis validate_payload_checksum V3Frame.select_convs(1,2))
  have body: "take 44 w @ fr_payload f = take (length w - 4) w"
  proof -
    have "take (length w - 4) w = take 44 w @ take (length w - 48) (drop 44 w)"
      using d(1) take_add [of 44 "length w - 48" w] by simp
    then show ?thesis using d(1,5) by (simp add: py_slice_def)
  qed
  have tail: "le_bytes 4 (compute_v3_checksum (take (length w - 4) w)) = drop (length w - 4) w"
    using le_bytes_le_int [of "drop (length w - 4) w"] d(1,6,7) by simp
  have wire: "take (length w - 4) w @ drop (length w - 4) w = w" by simp
  have joined: "take 44 w @ fr_payload f @ drop (length w - 4) w = w" by (metis append.assoc body wire)
  show "encode_v3_frame (FrameKind_value (hdr_kind ?h)) (fr_payload f) (hdr_flags ?h) (hdr_run_id ?h) (hdr_sequence ?h)
      (hdr_request_id ?h) (hdr_first_sample_ticks ?h) (hdr_item_count ?h) = Inr w"
  proof -
    have "bounded_bytes (fr_payload f) 0 (12 + 4048) = Inr (fr_payload f)" using pl d(2) by (simp add: bounded_bytes_eq_Inr)
    then show ?thesis using hb redec vp body tail joined by (simp add: encode_v3_frame_def eta Let_def)
  qed
  have "struct_pack [4] [fr_checksum f] = Some (drop (length w - 4) w)"
    using struct_pack_unpack [of "[4]" "drop (length w - 4) w"] d(1,6) by simp
  then show "frame_to_bytes f = Inr w"
    using hb joined by (simp add: frame_to_bytes_def pack_def del: struct_pack.simps)
qed

section \<open>Properties of the frame codec\<close>

text \<open>A frame to use in witnesses: an INFO request with request ID 7.\<close>

definition info_request_wire :: bytes where
  "info_request_wire = (case encode_v3_frame 16 [] 0 0 0 7 0 0 of Inr w \<Rightarrow> w | Inl e \<Rightarrow> [])"

lemma info_request_encoded: "encode_v3_frame 16 [] 0 0 0 7 0 0 = Inr info_request_wire"
proof -
  have "case encode_v3_frame 16 [] 0 0 0 7 0 0 of Inr w \<Rightarrow> True | Inl e \<Rightarrow> False" by code_simp
  then show ?thesis by (auto simp: info_request_wire_def split: sum.splits)
qed

text \<open>
  Property C1. What \<^verbatim>\<open>encode_v3_frame\<close> emits, \<^verbatim>\<open>decode_v3_frame\<close> accepts, and returns the
  very fields and payload that were encoded; the wire length is the payload plus 48 bytes,
  at most 4108.
\<close>

theorem v3_frame_encode_decode:
  assumes "encode_v3_frame kind payload flags run sequence request ticks count = Inr w"
  shows "\<exists>fk. FrameKind_of_int kind = Some fk \<and> length w = 48 + length payload \<and> length w \<le> 4108 \<and>
    decode_v3_frame w = Inr \<lparr>fr_header = V3FrameHeader fk (FrameFlag flags) (48 + int (length payload)) (int (length payload))
       run sequence request ticks count, fr_payload = payload,
       fr_checksum = compute_v3_checksum (take (44 + length payload) w)\<rparr>"
  using v3_encode_decode [OF assms] by auto

theorem v3_frame_encode_decode_witness:
  "\<exists>f. decode_v3_frame info_request_wire = Inr f \<and> hdr_kind (fr_header f) = FK_INFO_REQUEST \<and>
     hdr_request_id (fr_header f) = 7 \<and> fr_payload f = [] \<and> length info_request_wire = 48"
proof -
  obtain fk where fk: "FrameKind_of_int 16 = Some fk" and d: "length info_request_wire = 48 + length ([] :: bytes)"
    "decode_v3_frame info_request_wire = Inr \<lparr>fr_header = V3FrameHeader fk (FrameFlag 0) (48 + int (length ([] :: bytes)))
      (int (length ([] :: bytes))) 0 0 7 0 0, fr_payload = [], fr_checksum = compute_v3_checksum (take (44 + length ([] :: bytes)) info_request_wire)\<rparr>"
    using v3_frame_encode_decode [OF info_request_encoded] by blast
  have "fk = FK_INFO_REQUEST" using fk by (simp add: FrameKind_of_int_def)
  with d show ?thesis by simp
qed

text \<open>
  Property C6. Accepted frames are canonical: a byte string that decodes is exactly what the
  encoder produces from the decoded fields, and what the decoded frame serialises to.
\<close>

theorem v3_frame_decode_encode:
  assumes "decode_v3_frame w = Inr f"
  shows "encode_v3_frame (FrameKind_value (hdr_kind (fr_header f))) (fr_payload f) (hdr_flags (fr_header f))
      (hdr_run_id (fr_header f)) (hdr_sequence (fr_header f)) (hdr_request_id (fr_header f))
      (hdr_first_sample_ticks (fr_header f)) (hdr_item_count (fr_header f)) = Inr w \<and> frame_to_bytes f = Inr w"
  using v3_decode_encode [OF assms] by blast

lemma info_request_decodes: "\<exists>f. decode_v3_frame info_request_wire = Inr f"
  using v3_encode_decode [OF info_request_encoded] by blast

theorem v3_frame_decode_encode_witness:
  "\<exists>f. decode_v3_frame info_request_wire = Inr f \<and> frame_to_bytes f = Inr info_request_wire"
  using info_request_decodes v3_frame_decode_encode by blast

text \<open>
  Property C7. No single-byte corruption of a valid frame goes unnoticed: changing any one
  byte, in the header, the payload or the checksum trailer, makes the decoder reject it.
\<close>

theorem v3_frame_detects_byte_error:
  assumes dec: "decode_v3_frame (xs @ b # ys) = Inr f" and ne: "b \<noteq> c"
  shows "\<exists>e. decode_v3_frame (xs @ c # ys) = Inl e"
proof (cases "decode_v3_frame (xs @ c # ys)")
  case (Inr g)
  let ?w = "xs @ b # ys" and ?v = "xs @ c # ys"
  define n where "n = length ?w - 4"
  have n: "length ?w - 4 = n" "length ?v - 4 = n" "4 \<le> length ?w" using dec by (auto simp: n_def decode_v3_frame_eq_Inr)
  have W: "compute_v3_checksum (take n ?w) = le_int (drop n ?w)" and V: "compute_v3_checksum (take n ?v) = le_int (drop n ?v)"
    using dec Inr n by (auto simp: decode_v3_frame_eq_Inr)
  show ?thesis
  proof (cases "length xs < n")
    case True
    then obtain k where k: "n - length xs = Suc k" by (metis Suc_diff_Suc)
    have "take n ?w = xs @ b # take k ys" "take n ?v = xs @ c # take k ys" "drop n ?w = drop n ?v"
      using True k by simp_all
    then have "compute_v3_checksum (xs @ b # take k ys) = compute_v3_checksum (xs @ c # take k ys)" using W V by simp
    then have "compute_checksum_value (xs @ b # take k ys) ADLER32 = compute_checksum_value (xs @ c # take k ys) ADLER32"
      by (simp add: compute_v3_checksum_eq)
    with adler32_single_byte [OF ne] show ?thesis by blast
  next
    case False
    then have "take n ?w = take n ?v" "drop n ?w = drop n xs @ b # ys" "drop n ?v = drop n xs @ c # ys" by simp_all
    then have "le_int (drop n xs @ b # ys) = le_int (drop n xs @ c # ys)" using W V by simp
    then have "drop n xs @ b # ys = drop n xs @ c # ys" by (rule le_int_inject [rotated]) simp
    with ne show ?thesis by simp
  qed
qed blast

theorem v3_frame_detects_byte_error_witness:
  "\<exists>e. decode_v3_frame (butlast info_request_wire @ [last info_request_wire + 1]) = Inl e"
proof -
  obtain f where f: "decode_v3_frame info_request_wire = Inr f" using info_request_decodes by blast
  then have "info_request_wire \<noteq> []" by (auto simp: decode_v3_frame_eq_Inr)
  with f have "decode_v3_frame (butlast info_request_wire @ last info_request_wire # []) = Inr f" by simp
  from v3_frame_detects_byte_error [OF this, of "last info_request_wire + 1"] show ?thesis by simp
qed

section \<open>Properties of the parser\<close>

text \<open>
  Property C3. From every state the parser can be in between calls, \<^verbatim>\<open>feed\<close> returns for
  every input, raises nothing, keeps fewer than 4111 bytes, and accounts for every byte: the
  bytes received are in the returned frames, counted as discarded, or still buffered.
\<close>

theorem v3_parser_feed_total:
  assumes "parser_ok v3_parser s"
  shows "\<exists>s' fs. feed v3_parser s chunk = Some (Inr (s', fs)) \<and> parser_ok v3_parser s' \<and>
     buffered_bytes s' < 4111 \<and> high_water_mark s' \<le> 4111 \<and>
     bytes_received s' = bytes_received s + length chunk \<and> frames_decoded s' = frames_decoded s + length fs \<and>
     bytes_discarded s' + buffered_bytes s' + sum_list (map frame_length fs)
       = bytes_discarded s + buffered_bytes s + length chunk"
proof -
  from v3.feed_contract [OF assms, of chunk] obtain s' fs where f: "feed v3_parser s chunk = Some (Inr (s', fs))" "parser_ok v3_parser s'"
    "bytes_received s' = bytes_received s + length chunk" "frames_decoded s' = frames_decoded s + length fs"
    "bytes_discarded s' + buffered_bytes s' + sum_list (map frame_length fs)
       = bytes_discarded s + buffered_bytes s + length chunk" by metis
  have cap: "max_buffered_bytes v3_parser = 4111" by (simp add: max_buffered_bytes_def v3_parser_def)
  have "buffered_bytes s' < 4111" using f(2) v3.settled_room [of s'] cap by (simp add: parser_ok_def buffered_unread)
  moreover have "high_water_mark s' \<le> 4111" using f(2) cap by (simp add: parser_ok_def)
  ultimately show ?thesis using f by blast
qed

theorem v3_parser_feed_total_witness:
  "\<exists>s' fs. feed v3_parser empty_parser_state [1, 2, 3] = Some (Inr (s', fs)) \<and> bytes_received s' = 3"
  using v3_parser_feed_total [OF v3.parser_ok_empty, of "[1, 2, 3]"] by (auto simp: empty_parser_state_def)

text \<open>
  Property C4. The way the transport cuts the stream into reads does not matter: every
  sequence of chunks returns the same frames as one read of the whole stream, and leaves the
  same parser state except for the high-water statistic.
\<close>

theorem v3_parser_chunking:
  assumes "parser_ok v3_parser s" "cs \<noteq> []"
  shows "\<exists>s' t fs. feed_all v3_parser s cs = Some (Inr (s', fs)) \<and> feed v3_parser s (concat cs) = Some (Inr (t, fs)) \<and>
     t\<lparr>high_water_mark := 0\<rparr> = s'\<lparr>high_water_mark := 0\<rparr>"
  using v3.feed_all_concat [OF assms] by blast

theorem v3_parser_chunking_witness:
  "\<exists>s' t fs. feed_all v3_parser empty_parser_state [[0xEF, 0xBE], [0xAD, 0xDE]] = Some (Inr (s', fs)) \<and>
     feed v3_parser empty_parser_state [0xEF, 0xBE, 0xAD, 0xDE] = Some (Inr (t, fs))"
  using v3_parser_chunking [OF v3.parser_ok_empty, of "[[0xEF, 0xBE], [0xAD, 0xDE]]"] by auto

lemma v3_stream_frames:
  assumes "list_all2 (\<lambda>w f. decode_v3_frame w = Inr f) ws fs" "concat cs = concat ws" "cs \<noteq> []"
  shows "\<exists>s'. feed_all v3_parser empty_parser_state cs = Some (Inr (s', fs)) \<and> buffered_bytes s' = 0 \<and>
     bytes_discarded s' = 0 \<and> corruption_events s' = 0 \<and> resynchronizations s' = 0"
proof -
  have ws: "list_all2 (valid_wire v3_parser) ws fs"
    using assms(1) by (rule list.rel_mono_strong) (rule v3_valid_wire)
  obtain t where t: "feed v3_parser empty_parser_state (concat cs) = Some (Inr (t, fs))" "buffered_bytes t = 0"
     "bytes_discarded t = 0" "corruption_events t = 0" "resynchronizations t = 0"
    using v3.feed_valid_wires [OF v3.parser_ok_empty _ _ ws] unfolding assms(2)
    by (auto simp: empty_parser_state_def unread_def)
  obtain s' where s': "feed_all v3_parser empty_parser_state cs = Some (Inr (s', fs))"
     "t\<lparr>high_water_mark := 0\<rparr> = s'\<lparr>high_water_mark := 0\<rparr>"
    using v3.feed_all_concat [OF v3.parser_ok_empty assms(3)] t(1) by auto
  then show ?thesis using t by (cases s'; cases t) (auto simp: buffered_bytes_def)
qed

text \<open>
  Property C2. A stream of valid frames, in whatever chunks it arrives at a fresh parser, is
  returned frame by frame in order; nothing is discarded, no corruption is counted, and
  nothing stays in the buffer.
\<close>

theorem v3_parser_recovers_frames:
  assumes "list_all2 (\<lambda>w f. decode_v3_frame w = Inr f) ws fs" "concat cs = concat ws" "cs \<noteq> []"
  shows "\<exists>s'. feed_all v3_parser empty_parser_state cs = Some (Inr (s', fs)) \<and> buffered_bytes s' = 0 \<and>
     bytes_discarded s' = 0 \<and> corruption_events s' = 0 \<and> resynchronizations s' = 0"
  using assms by (rule v3_stream_frames)

theorem v3_parser_recovers_frames_witness:
  "\<exists>s' f. feed_all v3_parser empty_parser_state [take 20 info_request_wire, drop 20 info_request_wire @ info_request_wire]
      = Some (Inr (s', [f, f])) \<and> bytes_discarded s' = 0"
proof -
  obtain f where "decode_v3_frame info_request_wire = Inr f" using info_request_decodes by blast
  then have "list_all2 (\<lambda>w f. decode_v3_frame w = Inr f) [info_request_wire, info_request_wire] [f, f]" by simp
  from v3_parser_recovers_frames [OF this, of "[take 20 info_request_wire, drop 20 info_request_wire @ info_request_wire]"]
  show ?thesis by auto
qed

text \<open>
  Property C5. Resynchronisation: noise in front of a valid frame that does not contain or
  complete the magic costs exactly its own bytes and one resynchronisation event; the frame
  behind it is delivered.
\<close>

theorem v3_parser_resynchronises:
  assumes "decode_v3_frame w = Inr f" "find_sub (le_bytes 4 MAGIC) (noise @ w) = Some (length noise)"
  shows "\<exists>s'. feed v3_parser empty_parser_state (noise @ w) = Some (Inr (s', [f])) \<and> buffered_bytes s' = 0 \<and>
     bytes_discarded s' = length noise \<and> corruption_events s' = 0 \<and> resynchronizations s' = of_bool (noise \<noteq> [])"
  using v3.feed_noise_then_frame [OF v3.parser_ok_empty _ _ _ v3_valid_wire [OF assms(1)], of noise] assms(2)
  by (auto simp: empty_parser_state_def unread_def v3_parser_def)

theorem v3_parser_resynchronises_witness:
  "\<exists>s' f. feed v3_parser empty_parser_state ([0, 0xEF, 0xBE] @ info_request_wire) = Some (Inr (s', [f])) \<and>
     bytes_discarded s' = 3 \<and> resynchronizations s' = 1"
proof -
  obtain f where f: "decode_v3_frame info_request_wire = Inr f" using info_request_decodes by blast
  have "find_sub (le_bytes 4 MAGIC) ([0, 0xEF, 0xBE] @ info_request_wire) = Some (length ([0, 0xEF, 0xBE] :: bytes))"
    by code_simp
  from v3_parser_resynchronises [OF f this] show ?thesis by auto
qed

section \<open>Commands and responses survive the wire\<close>

lemma value_payload_length:
  "value_to_payload v = Inr p \<Longrightarrow> length p = (case v of InfoValue _ \<Rightarrow> 132 | CapabilitiesValue _ \<Rightarrow> 1404 | AppliedValue _ \<Rightarrow> 48
     | StopValue _ \<Rightarrow> 16 | StatusValue _ \<Rightarrow> 384) \<and> take 4 p = OK_PREFIX"
proof (cases v)
  case (InfoValue i)
  assume "value_to_payload v = Inr p"
  then have "info_from_payload p = Inr i" using InfoValue by (simp add: info_from_payload_iff)
  then show ?thesis using InfoValue by (auto simp: info_from_payload_def bind_res_eq_Inr success_eq_Inr)
next
  case (CapabilitiesValue c)
  assume "value_to_payload v = Inr p"
  then have "capabilities_from_payload p = Inr c" using CapabilitiesValue by (simp add: capabilities_from_payload_iff)
  then show ?thesis using CapabilitiesValue by (auto simp: capabilities_from_payload_def bind_res_eq_Inr success_eq_Inr)
next
  case (AppliedValue a)
  assume "value_to_payload v = Inr p"
  then show ?thesis using AppliedValue applied_length by simp
next
  case (StopValue s)
  assume "value_to_payload v = Inr p"
  then show ?thesis using StopValue stop_payload_length stop_payload_prefix by simp
next
  case (StatusValue s)
  assume "value_to_payload v = Inr p"
  then have "status_from_payload p = Inr s" using StatusValue by (simp add: status_from_payload_iff)
  then show ?thesis using StatusValue by (auto simp: status_from_payload_def bind_res_eq_Inr success_eq_Inr)
qed

lemma value_to_payload_inject:
  assumes "value_to_payload v = Inr p" "value_to_payload u = Inr p"
  shows "v = u"
  using assms value_payload_length [OF assms(1)] value_payload_length [OF assms(2)]
    info_codec.enc_injective capabilities_codec.enc_injective applied_codec.enc_injective
    stop_codec.enc_injective status_codec.enc_injective
  by (cases v; cases u) auto

lemma decode_response_value_encode: "decode_response_value kind p = Inr v \<Longrightarrow> value_to_payload v = Inr p"
proof -
  have ms: "map_sum id C m = Inr v \<longleftrightarrow> (\<exists>x. m = Inr x \<and> v = C x)" for C and m :: "v3_error + 'x"
    by (cases m) auto
  show "decode_response_value kind p = Inr v \<Longrightarrow> value_to_payload v = Inr p"
    by (auto simp: decode_response_value_def ms res_simps info_from_payload_iff capabilities_from_payload_iff
      applied_from_payload_iff status_from_payload_iff stop_from_payload_iff split: if_splits)
qed

lemma decode_v3_response_eq_Inr:
  assumes "decode_v3_response f = Inr r"
  shows "is_response_kind (hdr_kind (fr_header f))" "rp_kind r = hdr_kind (fr_header f)"
    "rp_request_id r = hdr_request_id (fr_header f)" "rp_run_id r = hdr_run_id (fr_header f)"
    "struct_unpack RESPONSE_PREFIX_FORMAT (fr_payload f) = [ResponseStatus_value (rp_status r), 0, ErrorCode_value (rp_error_code r)]"
    "rp_status r = RS_ERROR \<Longrightarrow> rp_value r = None \<and>
       rp_rejected_kind r = (if rp_kind r = FK_ERROR_RESPONSE then Some (uint (fr_payload f ! 4)) else None)"
    "rp_status r = RS_OK \<Longrightarrow> rp_rejected_kind r = None \<and> (\<exists>v. rp_value r = Some v \<and> value_to_payload v = Inr (fr_payload f))"
proof -
  let ?f = "struct_unpack RESPONSE_PREFIX_FORMAT (fr_payload f)"
  have ms: "map_sum id C m = Inr y \<longleftrightarrow> (\<exists>x. m = Inr x \<and> y = C x)" for C :: "V3ResponseValue \<Rightarrow> 'y" and m :: "v3_error + V3ResponseValue" and y
    by (cases m) auto
  obtain st er v rej where s: "is_response_kind (hdr_kind (fr_header f))" "ResponseStatus_of_int (?f ! 0) = Some st"
      "ErrorCode_of_int (?f ! 2) = Some er" "?f ! 1 = 0"
    and b: "(if st = RS_ERROR then
         (if hdr_kind (fr_header f) = FK_ERROR_RESPONSE
          then require (length (fr_payload f) = 8 \<and> list_all (\<lambda>b. b = 0) (drop 5 (fr_payload f))) INVALID
                 (Inr (None, Some (uint (fr_payload f ! 4))))
          else require (length (fr_payload f) = 4) INVALID (Inr (None, None)))
       else map_sum id (\<lambda>v. (Some v, None)) (decode_response_value (hdr_kind (fr_header f)) (fr_payload f))) = Inr (v, rej)"
    and r: "r = \<lparr>rp_kind = hdr_kind (fr_header f), rp_request_id = hdr_request_id (fr_header f), rp_run_id = hdr_run_id (fr_header f),
        rp_status = st, rp_error_code = er, rp_value = v, rp_rejected_kind = rej\<rparr>"
    using assms unfolding decode_v3_response_def Let_def bind_res_eq_Inr require_eq_Inr res_of_option_eq_Inr bounded_bytes_eq_Inr
    by (auto simp: res_simps split: prod.splits)
  show "is_response_kind (hdr_kind (fr_header f))" "rp_kind r = hdr_kind (fr_header f)"
    "rp_request_id r = hdr_request_id (fr_header f)" "rp_run_id r = hdr_run_id (fr_header f)"
    using s(1) by (simp_all add: r)
  have "?f = [?f!0, ?f!1, ?f!2]" by (intro nth_equalityI) (auto simp: less_Suc_eq numeral_eq_Suc RESPONSE_PREFIX_FORMAT_def)
  also have "\<dots> = [ResponseStatus_value st, 0, ErrorCode_value er]"
    using ResponseStatus_of_int_Some [OF s(2)] ErrorCode_of_int_Some [OF s(3)] s(4) by simp
  finally show "?f = [ResponseStatus_value (rp_status r), 0, ErrorCode_value (rp_error_code r)]" by (simp add: r)
  show "rp_status r = RS_ERROR \<Longrightarrow> rp_value r = None \<and>
       rp_rejected_kind r = (if rp_kind r = FK_ERROR_RESPONSE then Some (uint (fr_payload f ! 4)) else None)"
    using b by (auto simp: r res_simps split: if_splits)
  show "rp_status r = RS_OK \<Longrightarrow> rp_rejected_kind r = None \<and> (\<exists>v. rp_value r = Some v \<and> value_to_payload v = Inr (fr_payload f))"
    using b decode_response_value_encode by (auto simp: r ms)
qed

lemma FrameKind_value_inject: "FrameKind_value a = FrameKind_value b \<longleftrightarrow> a = b"
  by (metis FrameKind_of_value option.inject)

lemma ErrorCode_value_inject: "ErrorCode_value a = ErrorCode_value b \<longleftrightarrow> a = b"
  by (metis ErrorCode_of_value option.inject)

lemma ResponseStatus_value_inject: "ResponseStatus_value a = ResponseStatus_value b \<longleftrightarrow> a = b"
  by (metis ResponseStatus_of_value option.inject)

text \<open>A control frame whose payload is no request payload decodes as a response.\<close>

lemma encoded_response_decodes:
  assumes "encode_v3_frame (FrameKind_value k) payload flags run 0 request 0 0 = Inr w" "length payload \<notin> {0, 20}"
  obtains f r where "decode_v3_frame w = Inr f" "decode_v3_response f = Inr r" "fr_payload f = payload"
    "hdr_kind (fr_header f) = k" "hdr_request_id (fr_header f) = request" "hdr_run_id (fr_header f) = run"
proof -
  from v3_encode_decode [OF assms(1)] obtain f where f: "decode_v3_frame w = Inr f" "fr_payload f = payload"
      "hdr_kind (fr_header f) = k" "hdr_request_id (fr_header f) = request" "hdr_run_id (fr_header f) = run"
      "hdr_payload_length (fr_header f) = int (length payload)" "hdr_item_count (fr_header f) = 0"
    by force
  have hv: "header_valid (fr_header f)" and vp: "validate_payload f = Inr ()"
    using f(1) by (simp_all add: decode_v3_frame_eq_Inr decode_v3_header_eq_Inr)
  have "\<not> is_data_kind k"
  proof
    assume "is_data_kind k"
    then have "check_data_header (fr_header f) = Inr ()" using hv f(3) by (simp add: header_valid_def)
    then show False using f(7) by (simp add: check_data_header_def Let_def require_eq_Inr)
  qed
  moreover have "\<not> is_request_kind k"
  proof
    assume req: "is_request_kind k"
    then have "check_control_header (fr_header f) = Inr ()"
      using hv f(3) \<open>\<not> is_data_kind k\<close> by (simp add: header_valid_def)
    then have "hdr_payload_length (fr_header f) = request_payload_size k"
      using req f(3) by (auto simp: check_control_header_def check_request_header_def require_eq_Inr bind_res_eq_Inr)
    then show False using f(6) assms(2) by (auto simp: request_payload_size_def split: if_splits)
  qed
  moreover have "k \<noteq> FK_CONFIGURE_REQUEST"
    using \<open>\<not> is_request_kind k\<close> by (auto simp: is_request_kind_def CommandKind_of_int_def)
  ultimately obtain r where "decode_v3_response f = Inr r"
    using vp f(3) by (auto simp: validate_payload_def Let_def bind_res_eq_Inr)
  then show thesis using that f by blast
qed

lemma response_roundtrip:
  assumes "response_to_bytes r = Inr w"
  shows "\<exists>f. decode_v3_frame w = Inr f \<and> decode_v3_response f = Inr r"
proof (cases "rp_status r")
  case RS_OK
  then obtain v payload where v: "rp_value r = Some v" "rp_error_code r = EC_OK" "rp_rejected_kind r = None"
    "value_to_payload v = Inr payload"
    and enc: "encode_v3_frame (FrameKind_value (rp_kind r)) payload 0 (rp_run_id r) 0 (rp_request_id r) 0 0 = Inr w"
    using assms by (auto simp: response_to_bytes_def res_simps)
  note l = value_payload_length [OF v(4)]
  have "length payload \<notin> {0, 20}" using l by (cases v) auto
  from encoded_response_decodes [OF enc this] obtain f r' where f: "decode_v3_frame w = Inr f" "decode_v3_response f = Inr r'"
    "fr_payload f = payload" "hdr_kind (fr_header f) = rp_kind r" "hdr_request_id (fr_header f) = rp_request_id r"
    "hdr_run_id (fr_header f) = rp_run_id r" by metis
  note d = decode_v3_response_eq_Inr [OF f(2)]
  have "struct_unpack RESPONSE_PREFIX_FORMAT payload = [0, 0, 0]"
    using l OK_PREFIX_scalars [of payload] by (simp add: RESPONSE_PREFIX_FORMAT_def)
  then have ok: "rp_status r' = RS_OK" "rp_error_code r' = EC_OK"
    using d(5) f(3) ResponseStatus_value_inject [of "rp_status r'" RS_OK] ErrorCode_value_inject [of "rp_error_code r'" EC_OK] by auto
  then obtain v' where "rp_rejected_kind r' = None" "rp_value r' = Some v'" "value_to_payload v' = Inr payload"
    using d(7) f(3) by auto
  then have "r' = r" using d(2-4) f(4-6) ok v RS_OK value_to_payload_inject by (cases r; cases r') auto
  then show ?thesis using f by blast
next
  case RS_ERROR
  then obtain prefix payload where g: "rp_error_code r \<noteq> EC_OK" "rp_value r = None"
    and pre: "struct_pack RESPONSE_PREFIX_FORMAT [1, 0, ErrorCode_value (rp_error_code r)] = Some prefix"
    and pay: "(if rp_kind r = FK_ERROR_RESPONSE
          then require (rp_rejected_kind r \<noteq> None) INVALID (
               bind_res (pack [1, 1, 2] [the (rp_rejected_kind r), 0, 0]) (\<lambda>rejected. Inr (prefix @ rejected)))
          else require (rp_rejected_kind r = None) INVALID (Inr prefix)) = Inr payload"
    and enc: "encode_v3_frame (FrameKind_value (rp_kind r)) payload FLAG_RESPONSE_ERROR (rp_run_id r) 0 (rp_request_id r) 0 0 = Inr w"
    using assms unfolding response_to_bytes_def by (auto simp: bind_res_eq_Inr require_eq_Inr pack_eq_Inr simp del: struct_pack.simps)
  have lp: "length prefix = 4" using struct_pack_length [OF pre] by (simp add: RESPONSE_PREFIX_FORMAT_def)
  have shape: "\<exists>rest. payload = prefix @ rest \<and> length payload \<in> {4, 8} \<and>
      rp_rejected_kind r = (if rp_kind r = FK_ERROR_RESPONSE then Some (uint (payload ! 4)) else None)"
  proof (cases "rp_kind r = FK_ERROR_RESPONSE")
    case True
    then obtain x rest where x: "rp_rejected_kind r = Some x" "struct_pack [1, 1, 2] [x, 0, 0] = Some rest" "payload = prefix @ rest"
      using pay by (auto simp: bind_res_eq_Inr require_eq_Inr pack_eq_Inr simp del: struct_pack.simps)
    have lr: "length rest = 4" "struct_unpack [1, 1, 2] rest = [x, 0, 0]" using x(2) by (auto simp: pack_unpack_iff simp del: struct_pack.simps)
    then have "uint (rest ! 0) = x" by (cases rest) auto
    then show ?thesis using x lr lp True by (auto simp: nth_append)
  next
    case False
    then show ?thesis using pay lp by (auto simp: require_eq_Inr)
  qed
  then have "length payload \<notin> {0, 20}" by auto
  from encoded_response_decodes [OF enc this] obtain f r' where f: "decode_v3_frame w = Inr f" "decode_v3_response f = Inr r'"
    "fr_payload f = payload" "hdr_kind (fr_header f) = rp_kind r" "hdr_request_id (fr_header f) = rp_request_id r"
    "hdr_run_id (fr_header f) = rp_run_id r" by metis
  note d = decode_v3_response_eq_Inr [OF f(2)]
  have "struct_unpack RESPONSE_PREFIX_FORMAT payload = [1, 0, ErrorCode_value (rp_error_code r)]"
    using shape struct_unpack_pack [OF pre] by auto
  then have er: "rp_status r' = RS_ERROR" "rp_error_code r' = rp_error_code r"
    using d(5) f(3) ResponseStatus_value_inject [of "rp_status r'" RS_ERROR] ErrorCode_value_inject by auto
  then have "r' = r" using d(2-4) d(6) f(3-6) g RS_ERROR shape by (cases r; cases r') auto
  then show ?thesis using f by blast
qed

text \<open>
  Property C11. Every response that the SDK serialises, success or error, is decoded from its
  wire bytes to exactly the same response: kind, correlation and run IDs, status, error code,
  typed value and rejected kind.
\<close>

theorem v3_response_roundtrip:
  assumes "response_to_bytes r = Inr w"
  shows "\<exists>f. decode_v3_frame w = Inr f \<and> decode_v3_response f = Inr r"
  using assms by (rule response_roundtrip)

abbreviation busy_response :: V3Response where
  "busy_response \<equiv> \<lparr>rp_kind = FK_ERROR_RESPONSE, rp_request_id = 5, rp_run_id = 0, rp_status = RS_ERROR,
     rp_error_code = EC_BUSY, rp_value = None, rp_rejected_kind = Some 17\<rparr>"

theorem v3_response_roundtrip_witness:
  "\<exists>w f. response_to_bytes busy_response = Inr w \<and> decode_v3_frame w = Inr f \<and> decode_v3_response f = Inr busy_response"
proof -
  have "case response_to_bytes busy_response of Inr w \<Rightarrow> True | Inl e \<Rightarrow> False" by code_simp
  then obtain w where "response_to_bytes busy_response = Inr w" by (auto split: sum.splits)
  with v3_response_roundtrip show ?thesis by blast
qed

lemma command_roundtrip:
  assumes "command_to_bytes c = Inr w"
  shows "\<exists>f. decode_v3_frame w = Inr f \<and> command_from_frame f = Inr c"
proof -
  obtain payload where conf: "(cm_kind c = CK_CONFIGURE) = (cm_settings c \<noteq> None)"
    and pay: "(case cm_settings c of None \<Rightarrow> Inr [] | Some s \<Rightarrow> settings_to_bytes s) = Inr payload"
    and enc: "encode_v3_frame (CommandKind_value (cm_kind c)) payload 0 0 0 (cm_request_id c) 0 0 = Inr w"
    using assms by (auto simp: command_to_bytes_def res_simps)
  from v3_encode_decode [OF enc] obtain fk f where fk: "FrameKind_of_int (CommandKind_value (cm_kind c)) = Some fk"
    and f: "decode_v3_frame w = Inr f" "fr_payload f = payload" "hdr_kind (fr_header f) = fk" "hdr_request_id (fr_header f) = cm_request_id c"
    by force
  have "CommandKind_of_int (FrameKind_value fk) = Some (cm_kind c)"
    using FrameKind_of_int_Some [OF fk] by simp
  moreover have "cm_kind c = CK_CONFIGURE \<Longrightarrow> map_sum id Some (settings_from_bytes payload) = Inr (cm_settings c)"
    using conf pay by (auto simp: settings_from_bytes_iff split: option.splits)
      (metis settings_from_bytes_iff map_sum.simps(2))
  ultimately have "command_from_frame f = Inr c"
    using f conf v3_decode_encode(2) [OF f(1)] by (cases c) (auto simp: command_from_frame_def)
  then show ?thesis using f by blast
qed

end
