(* ===== verification/Synthetic.thy ===== *)
theory Synthetic
  imports V3_Codec
begin

text \<open>
  The deterministic sources of \<^verbatim>\<open>synthetic.py\<close>: ADC ramps and GPIO patterns, generated by
  copying from one precomputed period, and the validators that compare a payload with the
  period segment by segment. Sample indices and counts are natural numbers, which is what
  \<^verbatim>\<open>_sample_index\<close> and the count guards enforce.
\<close>

datatype SyntheticGPIOPattern = ALL_ZERO | WALKING_BIT | COUNTER | HIGH_TRANSITION

datatype AdcConverter = ADC0 | ADC1

fun AdcConverter_value :: "AdcConverter \<Rightarrow> int" where
  "AdcConverter_value ADC0 = 0"
| "AdcConverter_value ADC1 = 1"

abbreviation (input) ADC_BYTES_PER_PAIR :: nat where "ADC_BYTES_PER_PAIR \<equiv> 4"

definition synthetic_adc_code :: "AdcConverter \<Rightarrow> nat \<Rightarrow> int" where
  "synthetic_adc_code converter sample_index = (2 * int sample_index + AdcConverter_value converter) AND (2 ^ 12 - 1)"

definition synthetic_adc0_code :: "nat \<Rightarrow> int" where
  "synthetic_adc0_code sample_index = synthetic_adc_code ADC0 sample_index"

definition synthetic_adc1_code :: "nat \<Rightarrow> int" where
  "synthetic_adc1_code sample_index = synthetic_adc_code ADC1 sample_index"

definition synthetic_gpio_byte :: "nat \<Rightarrow> int" where
  "synthetic_gpio_byte sample_index = int sample_index AND 0xFF"

fun synthetic_gpio_bank_bytes :: "nat \<Rightarrow> SyntheticGPIOPattern \<Rightarrow> int \<times> int" where
  "synthetic_gpio_bank_bytes index ALL_ZERO = (0, 0)"
| "synthetic_gpio_bank_bytes index WALKING_BIT = (push_bit (index mod 8) 1, push_bit ((index + 3) mod 8) 1)"
| "synthetic_gpio_bank_bytes index COUNTER = (int index AND 0xFF, (3 * int index + 0x55) AND 0xFF)"
| "synthetic_gpio_bank_bytes index HIGH_TRANSITION =
     (if index mod 2 = 0 then 0xAA else 0x55, if index mod 2 = 0 then 0x0F else 0xF0)"

definition synthetic_gpio_value :: "nat \<Rightarrow> AuxBankMode \<Rightarrow> SyntheticGPIOPattern \<Rightarrow> int" where
  "synthetic_gpio_value sample_index mode pattern =
     (let (primary, auxiliary) = synthetic_gpio_bank_bytes sample_index pattern in
      if mode = AUX_DISABLED then primary else primary OR push_bit 8 auxiliary)"

definition adc_pattern_cycle :: bytes where
  "adc_pattern_cycle = concat (map (\<lambda>index.
     le_bytes 2 ((2 * int index) AND (2 ^ 12 - 1)) @ le_bytes 2 ((2 * int index + 1) AND (2 ^ 12 - 1))) [0..<2 ^ 11])"

definition gpio_item_bytes :: "AuxBankMode \<Rightarrow> nat" where
  "gpio_item_bytes mode = (if mode = AUX_DISABLED then 1 else 2)"

definition gpio_pattern_cycle :: bytes where
  "gpio_pattern_cycle = map word_of_nat [0..<256]"

definition gpio_mode_pattern_cycle :: "AuxBankMode \<Rightarrow> SyntheticGPIOPattern \<Rightarrow> bytes" where
  "gpio_mode_pattern_cycle mode pattern =
     (if mode = AUX_DISABLED \<and> pattern = COUNTER then gpio_pattern_cycle
      else concat (map (\<lambda>index. le_bytes (gpio_item_bytes mode) (synthetic_gpio_value index mode pattern)) [0..<256]))"

definition cyclic_bytes :: "bytes \<Rightarrow> nat \<Rightarrow> nat \<Rightarrow> bytes" where
  "cyclic_bytes cycle start n =
     (if n = 0 then []
      else let offset = start mod length cycle; first = min n (length cycle - offset) in
        if first = n then py_slice offset (offset + n) cycle
        else let remaining = n - first; repeats = remaining div length cycle; tail = remaining mod length cycle in
          drop offset cycle @ concat (replicate repeats cycle) @ take tail cycle)"

text \<open>
  The comparison loop of \<^verbatim>\<open>_cyclic_mismatch\<close>: the arguments are the bytes still to compare,
  \<^verbatim>\<open>position\<close> and \<^verbatim>\<open>cycle_position\<close>. An empty cycle raises \<^verbatim>\<open>ZeroDivisionError\<close> in the code and
  never occurs; here it ends the loop.
\<close>

fun first_difference :: "bytes \<Rightarrow> bytes \<Rightarrow> nat \<Rightarrow> nat option" where
  "first_difference (a # as) (e # es) relative =
     (if a \<noteq> e then Some relative else first_difference as es (relative + 1))"
| "first_difference _ _ relative = None"

function mismatch_loop :: "bytes \<Rightarrow> bytes \<Rightarrow> nat \<Rightarrow> nat \<Rightarrow> nat option" where
  "mismatch_loop actual cycle position cycle_position =
     (if actual = [] \<or> length cycle \<le> cycle_position then None
      else let segment_length = min (length actual) (length cycle - cycle_position);
               actual_segment = take segment_length actual;
               expected_segment = py_slice cycle_position (cycle_position + segment_length) cycle in
        case (if actual_segment \<noteq> expected_segment then first_difference actual_segment expected_segment 0 else None) of
          Some relative \<Rightarrow> Some (position + relative)
        | None \<Rightarrow> mismatch_loop (drop segment_length actual) cycle (position + segment_length) 0)"
  by pat_completeness auto
termination
  by (relation "measure (\<lambda>(actual, _). length actual)") auto

declare mismatch_loop.simps [simp del]

definition cyclic_mismatch :: "bytes \<Rightarrow> bytes \<Rightarrow> nat \<Rightarrow> nat option" where
  "cyclic_mismatch payload cycle start = mismatch_loop payload cycle 0 (start mod length cycle)"

definition synthetic_adc_payload :: "nat \<Rightarrow> nat \<Rightarrow> bytes" where
  "synthetic_adc_payload start_index pair_count =
     cyclic_bytes adc_pattern_cycle (start_index * ADC_BYTES_PER_PAIR) (pair_count * ADC_BYTES_PER_PAIR)"

definition synthetic_gpio_payload :: "nat \<Rightarrow> nat \<Rightarrow> AuxBankMode \<Rightarrow> SyntheticGPIOPattern \<Rightarrow> bytes" where
  "synthetic_gpio_payload start_index sample_count mode pattern =
     cyclic_bytes (gpio_mode_pattern_cycle mode pattern) (start_index * gpio_item_bytes mode) (sample_count * gpio_item_bytes mode)"

text \<open>\<^verbatim>\<open>struct.pack_into("<HH", payload, offset * 4, *edge)\<close> for the offsets in the edge phases.\<close>

definition edge_pairs :: "(int \<times> int) list" where
  "edge_pairs = [(0, 0), (4095, 4095), (0xABC, 0x123), (0x555, 0xAAA)]"

definition pack_into :: "bytes \<Rightarrow> nat \<Rightarrow> int \<times> int \<Rightarrow> bytes" where
  "pack_into payload pos = (\<lambda>(a, b). take pos payload @ le_bytes 2 a @ le_bytes 2 b @ drop (pos + 4) payload)"

definition synthetic_v3_adc_payload :: "nat \<Rightarrow> nat \<Rightarrow> bytes" where
  "synthetic_v3_adc_payload first_pair_index pair_count =
     fold (\<lambda>offset payload. let phase = (first_pair_index + offset) mod 2048 in
        if phase < length edge_pairs then pack_into payload (offset * 4) (edge_pairs ! phase) else payload)
       [0..<pair_count] (synthetic_adc_payload first_pair_index pair_count)"

section \<open>Validation\<close>

text \<open>
  \<^verbatim>\<open>SyntheticPatternError\<close> with the data its message reports: the payload size and the expected size, or
  the global index of the first differing sample with the observed and the expected value.
\<close>

datatype synthetic_error =
    WrongLength nat nat
  | AdcMismatch nat "int \<times> int" "int \<times> int"
  | GpioMismatch nat int int

definition validate_synthetic_adc_payload :: "bytes \<Rightarrow> nat \<Rightarrow> nat \<Rightarrow> synthetic_error + unit" where
  "validate_synthetic_adc_payload payload start_index pair_count =
     (let expected_bytes = pair_count * ADC_BYTES_PER_PAIR in
      require (length payload = expected_bytes) (WrongLength (length payload) expected_bytes) (
      case cyclic_mismatch payload adc_pattern_cycle (start_index * ADC_BYTES_PER_PAIR) of
        None \<Rightarrow> Inr ()
      | Some mismatch \<Rightarrow>
          let pair_offset = mismatch div ADC_BYTES_PER_PAIR;
              p = pair_offset * ADC_BYTES_PER_PAIR;
              sample_index = start_index + pair_offset in
          Inl (AdcMismatch sample_index
            (le_int (py_slice p (p + 2) payload), le_int (py_slice (p + 2) (p + 4) payload))
            (synthetic_adc0_code sample_index, synthetic_adc1_code sample_index))))"

definition validate_synthetic_gpio_payload ::
  "bytes \<Rightarrow> nat \<Rightarrow> nat \<Rightarrow> AuxBankMode \<Rightarrow> SyntheticGPIOPattern \<Rightarrow> synthetic_error + unit" where
  "validate_synthetic_gpio_payload payload start_index sample_count mode pattern =
     (let item_bytes = gpio_item_bytes mode in
      require (length payload = sample_count * item_bytes) (WrongLength (length payload) (sample_count * item_bytes)) (
      case cyclic_mismatch payload (gpio_mode_pattern_cycle mode pattern) (start_index * item_bytes) of
        None \<Rightarrow> Inr ()
      | Some mismatch \<Rightarrow>
          let sample_offset = mismatch div item_bytes;
              p = sample_offset * item_bytes;
              sample_index = start_index + sample_offset in
          Inl (GpioMismatch sample_index (le_int (py_slice p (p + item_bytes) payload))
            (synthetic_gpio_value sample_index mode pattern))))"

section \<open>Cyclic reads\<close>

lemma length_cyclic_bytes: "cycle \<noteq> [] \<Longrightarrow> length (cyclic_bytes cycle start n) = n"
proof -
  assume c: "cycle \<noteq> []"
  let ?L = "length cycle" and ?o = "start mod length cycle"
  have o: "?o < ?L" using c by simp
  show ?thesis
  proof (cases "n \<le> ?L - ?o")
    case True
    then show ?thesis by (simp add: cyclic_bytes_def Let_def min_def)
  next
    case False
    have "n - (?L - ?o) = (n - (?L - ?o)) div ?L * ?L + (n - (?L - ?o)) mod ?L" by simp
    moreover have "length (concat (replicate k cycle)) = k * ?L" for k by (induction k) auto
    moreover have "(n - (?L - ?o)) mod ?L < ?L" using c by simp
    ultimately show ?thesis using False o by (simp add: cyclic_bytes_def Let_def min_def)
  qed
qed

lemma nth_concat_replicate: "i < k * length c \<Longrightarrow> concat (replicate k c) ! i = c ! (i mod length c)"
proof (induction k arbitrary: i)
  case (Suc k)
  show ?case
  proof (cases "i < length c")
    case False
    then have "concat (replicate (Suc k) c) ! i = concat (replicate k c) ! (i - length c)" by (simp add: nth_append)
    then show ?thesis using Suc False by (simp add: mod_if [of i])
  qed (simp add: nth_append)
qed simp

lemma nth_cyclic_bytes:
  assumes c: "cycle \<noteq> []" and i: "i < n"
  shows "cyclic_bytes cycle start n ! i = cycle ! ((start + i) mod length cycle)"
proof -
  let ?L = "length cycle"
  define off where "off = start mod ?L"
  have off: "off < ?L" using c by (simp add: off_def)
  have shift: "(start + i) mod ?L = (off + i) mod ?L" by (simp add: off_def mod_add_left_eq)
  show ?thesis
  proof (cases "n \<le> ?L - off")
    case True
    then show ?thesis unfolding shift using i off
      by (simp add: cyclic_bytes_def Let_def min_def py_slice_def off_def [symmetric])
  next
    case False
    define r where "r = n - (?L - off)"
    have val: "cyclic_bytes cycle start n = drop off cycle @ concat (replicate (r div ?L) cycle) @ take (r mod ?L) cycle"
      using False i by (simp add: cyclic_bytes_def Let_def min_def r_def off_def [symmetric])
    show ?thesis
    proof (cases "i < ?L - off")
      case True
      then show ?thesis unfolding shift val using off by (simp add: nth_append)
    next
      case below: False
      define j where "j = i - (?L - off)"
      have j: "j < r" using i below False by (simp add: j_def r_def)
      have "off + i = j + ?L" using below off by (simp add: j_def)
      then have "(off + i) mod ?L = j mod ?L" by simp
      moreover have "cyclic_bytes cycle start n ! i = (concat (replicate (r div ?L) cycle) @ take (r mod ?L) cycle) ! j"
        unfolding val using below by (simp add: nth_append j_def)
      moreover have "(concat (replicate (r div ?L) cycle) @ take (r mod ?L) cycle) ! j = cycle ! (j mod ?L)"
      proof (cases "j < r div ?L * ?L")
        case True
        moreover have "length (concat (replicate k cycle)) = k * ?L" for k by (induction k) auto
        ultimately show ?thesis by (simp add: nth_append nth_concat_replicate)
      next
        case beyond: False
        have split: "r = r div ?L * ?L + r mod ?L" by simp
        have below_tail: "j - r div ?L * ?L < r mod ?L" using j beyond split by linarith
        moreover have "j mod ?L = j - r div ?L * ?L"
        proof -
          have "j = (j - r div ?L * ?L) + r div ?L * ?L" using beyond by simp
          then have "j mod ?L = (j - r div ?L * ?L) mod ?L" by (metis mod_mult_self1)
          moreover have "j - r div ?L * ?L < ?L" using below_tail c by (meson length_greater_0_conv less_trans mod_less_divisor)
          ultimately show ?thesis by simp
        qed
        moreover have "length (concat (replicate k cycle)) = k * ?L" for k by (induction k) auto
        ultimately show ?thesis using beyond by (simp add: nth_append)
      qed
      ultimately show ?thesis unfolding shift by simp
    qed
  qed
qed

text \<open>Reading from a period of chunks is evaluating the chunk function at shifted indices.\<close>

lemma cyclic_bytes_chunks:
  assumes cyc: "cycle = concat (map f [0..<P])" and P: "0 < P" and w: "0 < w" and len: "\<And>k. length (f k) = w"
    and per: "\<And>k. f (k mod P) = f k"
  shows "cyclic_bytes cycle (s * w) (n * w) = concat (map (\<lambda>i. f (s + i)) [0..<n])"
proof -
  have L: "length cycle = P * w" using length_concat_chunks [of "map f [0..<P]" w] len by (auto simp: cyc)
  then have ne: "cycle \<noteq> []" using P w by auto
  show ?thesis
  proof (rule eq_concat_chunks)
    show "length (cyclic_bytes cycle (s * w) (n * w)) = n * w" by (rule length_cyclic_bytes [OF ne])
  next
    fix i c assume ic: "i < n" "c < w"
    have "i * w + c < Suc i * w" using ic(2) by simp
    also have "\<dots> \<le> n * w" using ic(1) by (intro mult_le_mono1) simp
    finally have b: "i * w + c < n * w" .
    have "(s * w + (i * w + c)) mod (P * w) = (s + i) mod P * w + c"
    proof -
      have "(s + i) * w = ((s + i) div P * P + (s + i) mod P) * w" by (simp only: div_mult_mod_eq)
      then have "s * w + i * w = (s + i) div P * (P * w) + (s + i) mod P * w" by (simp only: add_mult_distrib mult.assoc)
      then have "s * w + (i * w + c) = ((s + i) mod P * w + c) + (s + i) div P * (P * w)" by linarith
      moreover have "(s + i) mod P * w + c < P * w"
      proof -
        have "(s + i) mod P * w + c < Suc ((s + i) mod P) * w" using ic(2) by simp
        also have "\<dots> \<le> P * w" using P by (intro mult_le_mono1) (simp add: Suc_leI)
        finally show ?thesis .
      qed
      ultimately show ?thesis by (simp only: mod_mult_self3 mod_mult_self1 mod_mult_self2 mod_less)
    qed
    then have "cyclic_bytes cycle (s * w) (n * w) ! (i * w + c) = cycle ! ((s + i) mod P * w + c)"
      using nth_cyclic_bytes [OF ne b, of "s * w"] L by simp
    also have "\<dots> = f ((s + i) mod P) ! c"
      unfolding cyc using nth_concat_chunks [of "map f [0..<P]" w "(s + i) mod P" c] len P ic(2) by auto
    finally show "cyclic_bytes cycle (s * w) (n * w) ! (i * w + c) = f (s + i) ! c" by (simp add: per)
  qed (simp add: len)
qed

lemma and_mask_12: "x AND (2 ^ 12 - 1) = (x :: int) mod 4096"
  using take_bit_eq_mask [of 12 x] by (simp add: take_bit_eq_mod mask_eq_exp_minus_1)

lemma and_mask_8: "x AND 0xFF = (x :: int) mod 256"
  using take_bit_eq_mask [of 8 x] by (simp add: take_bit_eq_mod mask_eq_exp_minus_1)

definition synthetic_pair :: "nat \<Rightarrow> bytes" where
  "synthetic_pair index = le_bytes 2 (synthetic_adc0_code index) @ le_bytes 2 (synthetic_adc1_code index)"

lemma adc_code_mod: "synthetic_adc_code cv k = (2 * int k + AdcConverter_value cv) mod 4096"
  by (simp only: synthetic_adc_code_def and_mask_12)

lemma synthetic_adc_code_range: "0 \<le> synthetic_adc_code cv k" "synthetic_adc_code cv k \<le> 4095"
  by (simp_all add: adc_code_mod)

lemma adc_code_period: "synthetic_adc_code cv (k mod 2048) = synthetic_adc_code cv k"
proof -
  have "2 * int (k mod 2048) = 2 * int k mod 4096" using mult_mod_right [of 2 "int k" 2048] by (simp add: zmod_int)
  then show ?thesis unfolding adc_code_mod by (simp only: mod_add_left_eq)
qed

lemma adc_pattern_cycle_pairs: "adc_pattern_cycle = concat (map synthetic_pair [0..<2048])"
proof -
  have "(\<lambda>index. le_bytes 2 ((2 * int index) AND (2 ^ 12 - 1)) @ le_bytes 2 ((2 * int index + 1) AND (2 ^ 12 - 1))) = synthetic_pair"
    by (rule ext) (simp add: synthetic_pair_def synthetic_adc0_code_def synthetic_adc1_code_def synthetic_adc_code_def)
  then show ?thesis unfolding adc_pattern_cycle_def by simp
qed

lemma synthetic_adc_payload_pairs: "synthetic_adc_payload start n = concat (map (\<lambda>i. synthetic_pair (start + i)) [0..<n])"
  unfolding synthetic_adc_payload_def
  by (rule cyclic_bytes_chunks [OF adc_pattern_cycle_pairs])
     (simp_all add: synthetic_pair_def synthetic_adc0_code_def synthetic_adc1_code_def adc_code_period)

lemma gpio_value_period: "synthetic_gpio_value (k mod 256) mode pattern = synthetic_gpio_value k mode pattern"
proof -
  have m8: "k mod 256 mod 8 = k mod 8" "k mod 256 mod 2 = k mod 2" by (simp_all add: mod_mod_cancel)
  have m3: "(k mod 256 + 3) mod 8 = (k + 3) mod 8" by (metis m8(1) mod_add_left_eq)
  have c: "int (k mod 256) AND 0xFF = int k AND 0xFF" unfolding and_mask_8 zmod_int by simp
  have d: "(3 * int (k mod 256) + 0x55) AND 0xFF = (3 * int k + 0x55) AND 0xFF"
    unfolding and_mask_8 zmod_int by (simp add: mod_mult_right_eq mod_add_cong)
  show ?thesis using m8 m3 c d by (cases pattern) (simp_all only: synthetic_gpio_value_def synthetic_gpio_bank_bytes.simps)
qed

lemma gpio_cycle_items:
  "gpio_mode_pattern_cycle mode pattern = concat (map (\<lambda>i. le_bytes (gpio_item_bytes mode) (synthetic_gpio_value i mode pattern)) [0..<256])"
proof (cases "mode = AUX_DISABLED \<and> pattern = COUNTER")
  case True
  have "concat (map (\<lambda>i. le_bytes 1 (synthetic_gpio_value i AUX_DISABLED COUNTER)) [0..<256])
      = map (\<lambda>i. word_of_int (int i AND 0xFF)) [0..<256]"
    by (simp add: synthetic_gpio_value_def)
  also have "\<dots> = map word_of_nat [0..<256]"
    by (rule map_cong [OF refl]) (simp only: and_mask_8, simp)
  finally show ?thesis using True by (simp add: gpio_mode_pattern_cycle_def gpio_pattern_cycle_def gpio_item_bytes_def)
qed (auto simp: gpio_mode_pattern_cycle_def)

lemma synthetic_gpio_payload_items:
  "synthetic_gpio_payload start n mode pattern
     = concat (map (\<lambda>i. le_bytes (gpio_item_bytes mode) (synthetic_gpio_value (start + i) mode pattern)) [0..<n])"
  unfolding synthetic_gpio_payload_def
  by (rule cyclic_bytes_chunks [OF gpio_cycle_items]) (simp_all add: gpio_item_bytes_def gpio_value_period)

section \<open>The comparison loop\<close>

lemma first_difference_None: "length as = length es \<Longrightarrow> first_difference as es r = None \<longleftrightarrow> as = es"
  by (induction as es arbitrary: r rule: list_induct2) auto

lemma first_difference_append:
  "length as = length es \<Longrightarrow> first_difference (as @ bs) (es @ fs) r
     = (case first_difference as es r of Some d \<Rightarrow> Some d | None \<Rightarrow> first_difference bs fs (r + length as))"
  by (induction as es arbitrary: r rule: list_induct2) (auto split: option.split)

lemma first_difference_shift:
  "length as = length es \<Longrightarrow> first_difference as es (p + r) = map_option ((+) p) (first_difference as es r)"
proof (induction as es arbitrary: r rule: list_induct2)
  case (Cons x xs y ys)
  then show ?case using Cons.IH [of "Suc r"] by simp
qed simp

lemma first_difference_Some:
  "length as = length es \<Longrightarrow> first_difference as es r = Some d \<Longrightarrow>
     r \<le> d \<and> d - r < length as \<and> as ! (d - r) \<noteq> es ! (d - r) \<and> take (d - r) as = take (d - r) es"
proof (induction as es arbitrary: r rule: list_induct2)
  case (Cons x xs y ys)
  show ?case
  proof (cases "x = y")
    case True
    then have b: "Suc r \<le> d" "d - Suc r < length xs" "xs ! (d - Suc r) \<noteq> ys ! (d - Suc r)" "take (d - Suc r) xs = take (d - Suc r) ys"
      using Cons by auto
    then have "d - r = Suc (d - Suc r)" by simp
    with b True show ?thesis by simp
  qed (use Cons in auto)
qed simp

lemma cyclic_bytes_split:
  assumes c: "cycle \<noteq> []" and off: "off < length cycle" and k: "k = min n (length cycle - off)"
  shows "cyclic_bytes cycle off n = py_slice off (off + k) cycle @ cyclic_bytes cycle 0 (n - k)"
proof (rule nth_equalityI)
  have l: "length (py_slice off (off + k) cycle) = k" using k off by auto
  show "length (cyclic_bytes cycle off n) = length (py_slice off (off + k) cycle @ cyclic_bytes cycle 0 (n - k))"
    using l k by (simp add: length_cyclic_bytes [OF c])
  fix i assume "i < length (cyclic_bytes cycle off n)"
  then have i: "i < n" by (simp add: length_cyclic_bytes [OF c])
  show "cyclic_bytes cycle off n ! i = (py_slice off (off + k) cycle @ cyclic_bytes cycle 0 (n - k)) ! i"
  proof (cases "i < k")
    case True
    then show ?thesis using k off i l by (simp add: nth_cyclic_bytes [OF c] nth_append) (simp add: py_slice_def)
  next
    case False
    then have full: "k = length cycle - off" using i k by auto
    then have "off + i = length cycle + (i - k)" using False off by simp
    then have "(off + i) mod length cycle = (i - k) mod length cycle" by simp
    then show ?thesis using False i l by (simp add: nth_cyclic_bytes [OF c] nth_append)
  qed
qed

text \<open>The segmented comparison finds the first difference from the expanded reference payload.\<close>

lemma mismatch_loop_reference:
  "cp < length cycle \<Longrightarrow>
     mismatch_loop actual cycle p cp = first_difference actual (cyclic_bytes cycle cp (length actual)) p"
proof (induction actual cycle p cp rule: mismatch_loop.induct)
  case (1 actual cycle p cp)
  then have c: "cycle \<noteq> []" by auto
  show ?case
  proof (cases "actual = []")
    case False
    define n where "n = min (length actual) (length cycle - cp)"
    let ?e = "py_slice cp (cp + n) cycle"
    have le: "length ?e = n" and ln: "length (take n actual) = n" using 1(2) by (auto simp: n_def)
    have ref: "first_difference actual (cyclic_bytes cycle cp (length actual)) p
      = (case first_difference (take n actual) ?e p of Some d \<Rightarrow> Some d
         | None \<Rightarrow> first_difference (drop n actual) (cyclic_bytes cycle 0 (length (drop n actual))) (p + n))"
      using first_difference_append [of "take n actual" ?e "drop n actual" "cyclic_bytes cycle 0 (length (drop n actual))" p] le ln
        cyclic_bytes_split [OF c 1(2) n_def] by (simp only: append_take_drop_id length_drop)
    have sh: "first_difference (take n actual) ?e p = map_option ((+) p) (first_difference (take n actual) ?e 0)"
      using first_difference_shift [of "take n actual" ?e p 0] le ln by simp
    have fd: "(if take n actual \<noteq> ?e then first_difference (take n actual) ?e 0 else None) = first_difference (take n actual) ?e 0"
      using first_difference_None [of "take n actual" ?e 0] le ln by metis
    have go: "mismatch_loop actual cycle p cp = (case first_difference (take n actual) ?e 0 of Some d \<Rightarrow> Some (p + d)
        | None \<Rightarrow> mismatch_loop (drop n actual) cycle (p + n) 0)"
      using False 1(2) by (subst mismatch_loop.simps) (simp add: Let_def n_def [symmetric] fd)
    show ?thesis
    proof (cases "first_difference (take n actual) ?e 0")
      case None
      have "mismatch_loop (drop n actual) cycle (p + n) 0
          = first_difference (drop n actual) (cyclic_bytes cycle 0 (length (drop n actual))) (p + n)"
        by (rule 1(1) [OF _ n_def refl refl]) (use False 1(2) None fd c in auto)
      then show ?thesis unfolding go ref sh using None by simp
    qed (simp add: go ref sh)
  qed (simp add: mismatch_loop.simps)
qed

lemma cyclic_mismatch_reference:
  assumes c: "cycle \<noteq> []"
  shows "cyclic_mismatch payload cycle start = first_difference payload (cyclic_bytes cycle start (length payload)) 0"
proof -
  have "cyclic_bytes cycle (start mod length cycle) m = cyclic_bytes cycle start m" for m
    by (simp add: cyclic_bytes_def)
  then show ?thesis using mismatch_loop_reference [of "start mod length cycle" cycle payload 0] c
    by (simp add: cyclic_mismatch_def)
qed

lemma adc_cycle_ne [simp]: "adc_pattern_cycle \<noteq> []"
proof -
  have "length adc_pattern_cycle = 2048 * 4"
    unfolding adc_pattern_cycle_pairs by (subst length_concat_chunks [where n = 4]) (auto simp: synthetic_pair_def)
  then show ?thesis by auto
qed

lemma gpio_cycle_ne [simp]: "gpio_mode_pattern_cycle mode pattern \<noteq> []"
proof -
  have "length (gpio_mode_pattern_cycle mode pattern) = 256 * gpio_item_bytes mode"
    unfolding gpio_cycle_items by (subst length_concat_chunks [where n = "gpio_item_bytes mode"]) auto
  then show ?thesis by (auto simp: gpio_item_bytes_def split: if_splits)
qed

lemma cyclic_bytes_take: "c \<noteq> [] \<Longrightarrow> m \<le> n \<Longrightarrow> take m (cyclic_bytes c s n) = cyclic_bytes c s m"
  by (rule nth_equalityI) (auto simp: length_cyclic_bytes nth_cyclic_bytes)

text \<open>
  What a mismatch position says about the item it falls into: every earlier item is the
  generated one and this item is not.
\<close>

lemma cyclic_mismatch_item:
  assumes c: "cycle \<noteq> []" and w: "0 < w" and len: "length payload = n * w"
    and mis: "cyclic_mismatch payload cycle s = Some d"
  shows "d div w < n"
    and "take (d div w * w) payload = cyclic_bytes cycle s (d div w * w)"
    and "py_slice (d div w * w) (d div w * w + w) payload \<noteq> py_slice (d div w * w) (d div w * w + w) (cyclic_bytes cycle s (n * w))"
proof -
  let ?ref = "cyclic_bytes cycle s (n * w)" and ?q = "d div w * w"
  have fd: "first_difference payload ?ref 0 = Some d" using mis len by (simp add: cyclic_mismatch_reference [OF c])
  have d: "d < n * w" "payload ! d \<noteq> ?ref ! d" "take d payload = take d ?ref"
    using first_difference_Some [OF _ fd] len by (auto simp: length_cyclic_bytes [OF c])
  show "d div w < n" using d(1) w by (simp add: less_mult_imp_div_less)
  have q: "?q \<le> d" by simp
  have "take ?q payload = take ?q ?ref" using arg_cong [OF d(3), of "take ?q"] q by (simp add: min_absorb1)
  then show "take ?q payload = cyclic_bytes cycle s ?q" using cyclic_bytes_take [OF c, of ?q "n * w" s] q d(1) by (metis le_less_trans less_imp_le)
  have inside: "d - ?q < w" using w by (simp add: modulo_nat_def [symmetric] minus_div_mult_eq_mod)
  have nth: "py_slice ?q (?q + w) xs ! (d - ?q) = xs ! d" if "length xs = n * w" for xs :: bytes
  proof -
    have "drop ?q xs ! (d - ?q) = xs ! (?q + (d - ?q))" by (rule nth_drop) (use that q d(1) in linarith)
    then show ?thesis using inside q by (simp add: py_slice_def)
  qed
  show "py_slice ?q (?q + w) payload \<noteq> py_slice ?q (?q + w) ?ref"
    using nth [OF len] nth [of ?ref] d(2) by (auto simp: length_cyclic_bytes [OF c])
qed

lemma py_slice_concat_chunks:
  "(\<And>i. length (f i) = w) \<Longrightarrow> k < n \<Longrightarrow> py_slice (k * w) (k * w + w) (concat (map f [0..<n])) = f k"
proof (induction n)
  case (Suc n)
  have l: "length (concat (map f [0..<n])) = n * w" using length_concat_chunks [of "map f [0..<n]" w] Suc.prems(1) by auto
  show ?case
  proof (cases "k = n")
    case True
    then show ?thesis using l Suc.prems(1) by (simp add: py_slice_def)
  next
    case False
    then have k: "k < n" using Suc.prems by simp
    then have "Suc k * w \<le> n * w" by (intro mult_le_mono1) simp
    then have "py_slice (k * w) (k * w + w) (concat (map f [0..<Suc n])) = py_slice (k * w) (k * w + w) (concat (map f [0..<n]))"
      using l by (simp add: py_slice_def)
    then show ?thesis using Suc.IH [OF Suc.prems(1) k] by simp
  qed
qed simp

lemma py_slice_pair:
  "length p = 4 \<Longrightarrow> le_int (py_slice 0 2 p) = a \<Longrightarrow> le_int (py_slice 2 4 p) = b \<Longrightarrow> p = le_bytes 2 a @ le_bytes 2 b"
proof -
  assume "length p = 4" "le_int (py_slice 0 2 p) = a" "le_int (py_slice 2 4 p) = b"
  moreover from this have "py_slice 0 2 p = le_bytes 2 a" "py_slice 2 4 p = le_bytes 2 b"
    using le_bytes_le_int [of "py_slice 0 2 p"] le_bytes_le_int [of "py_slice 2 4 p"] by auto
  moreover have "p = py_slice 0 2 p @ py_slice 2 4 p" using calculation(1) by (simp add: py_slice_def)
  ultimately show ?thesis by metis
qed

section \<open>The version-3 source\<close>

definition v3_source_pair :: "nat \<Rightarrow> int \<times> int" where
  "v3_source_pair k = (if k mod 2048 < 4 then edge_pairs ! (k mod 2048) else (synthetic_adc0_code k, synthetic_adc1_code k))"

lemma pack_into_chunk:
  "(\<And>x. x \<in> set xss \<Longrightarrow> length x = 4) \<Longrightarrow> i < length xss \<Longrightarrow> pack_into (concat xss) (i * 4) e = concat (xss[i := adc_raw_pair e])"
proof (induction xss arbitrary: i)
  case (Cons x xss)
  have x: "length x = 4" using Cons.prems by simp
  show ?case
  proof (cases i)
    case 0
    then show ?thesis using x by (cases e) (simp add: pack_into_def adc_raw_pair_def)
  next
    case (Suc j)
    then have "pack_into (concat (x # xss)) (i * 4) e = x @ pack_into (concat xss) (j * 4) e"
      using x by (cases e) (simp add: pack_into_def add.commute)
    then show ?thesis using Cons.IH [of j] Cons.prems Suc by simp
  qed
qed simp

lemma v3_adc_payload_pairs: "synthetic_v3_adc_payload s n = concat (map (\<lambda>i. adc_raw_pair (v3_source_pair (s + i))) [0..<n])"
proof -
  let ?step = "\<lambda>offset payload. let phase = (s + offset) mod 2048 in
        if phase < length edge_pairs then pack_into payload (offset * 4) (edge_pairs ! phase) else payload"
  let ?mix = "\<lambda>m. map (\<lambda>i. if i < m then adc_raw_pair (v3_source_pair (s + i)) else synthetic_pair (s + i)) [0..<n]"
  have len: "length x = 4" if "x \<in> set (?mix m)" for x m
    using that by (auto simp: adc_raw_pair_def synthetic_pair_def split: prod.splits if_splits)
  have "fold ?step [0..<m] (synthetic_adc_payload s n) = concat (?mix m)" if "m \<le> n" for m
    using that
  proof (induction m)
    case 0
    then show ?case by (simp add: synthetic_adc_payload_pairs)
  next
    case (Suc m)
    have m: "m < n" using Suc.prems by simp
    have upd: "?mix (Suc m) = (?mix m)[m := adc_raw_pair (v3_source_pair (s + m))]"
      using m by (auto simp: list_eq_iff_nth_eq nth_list_update)
    have keep: "adc_raw_pair (v3_source_pair (s + m)) = ?mix m ! m" if "\<not> (s + m) mod 2048 < 4"
      using that m by (simp add: v3_source_pair_def synthetic_pair_def adc_raw_pair_def)
    have "?step m (concat (?mix m)) = concat (?mix (Suc m))"
    proof (cases "(s + m) mod 2048 < 4")
      case True
      have "pack_into (concat (?mix m)) (m * 4) (edge_pairs ! ((s + m) mod 2048))
          = concat ((?mix m)[m := adc_raw_pair (edge_pairs ! ((s + m) mod 2048))])"
        by (rule pack_into_chunk [OF len]) (use m in simp_all)
      moreover have "v3_source_pair (s + m) = edge_pairs ! ((s + m) mod 2048)" using True by (simp add: v3_source_pair_def)
      moreover have "length edge_pairs = 4" by (simp add: edge_pairs_def)
      ultimately show ?thesis unfolding upd using True by (simp only: Let_def if_True)
    next
      case False
      then show ?thesis unfolding upd keep [OF False] by (simp add: edge_pairs_def)
    qed
    then show ?case using Suc.IH m by (simp only: upt_Suc_append fold_append fold.simps o_apply id_apply less_imp_le zero_le)
  qed
  moreover have "?mix n = map (\<lambda>i. adc_raw_pair (v3_source_pair (s + i))) [0..<n]" by (rule map_cong) auto
  ultimately show ?thesis unfolding synthetic_v3_adc_payload_def by (simp only: order_refl)
qed

lemma v3_source_pair_range:
  "v3_source_pair k = (a, b) \<Longrightarrow> 0 \<le> a \<and> a \<le> 4095 \<and> 0 \<le> b \<and> b \<le> 4095"
proof -
  have e: "x \<in> set edge_pairs \<Longrightarrow> 0 \<le> fst x \<and> fst x \<le> 4095 \<and> 0 \<le> snd x \<and> snd x \<le> 4095" for x
    by (auto simp: edge_pairs_def)
  have "edge_pairs ! (k mod 2048) \<in> set edge_pairs" if "k mod 2048 < 4"
    using that nth_mem [of "k mod 2048" edge_pairs] by (simp add: edge_pairs_def)
  moreover assume "v3_source_pair k = (a, b)"
  ultimately show ?thesis using e [of "edge_pairs ! (k mod 2048)"]
    by (auto simp: v3_source_pair_def synthetic_adc0_code_def synthetic_adc1_code_def synthetic_adc_code_range split: if_splits)
qed

section \<open>Properties\<close>

text \<open>
  Property C15. The cyclic copy generates the advertised formulas: payload item \<open>i\<close> of a block
  starting at global index \<open>start\<close> is the code pair, GPIO value or version-3 source pair of
  index \<open>start + i\<close>, for every start, count, bank mode and pattern.
\<close>

theorem synthetic_payload_formula:
  "synthetic_adc_payload start n = concat (map (\<lambda>i. le_bytes 2 ((2 * int (start + i)) mod 4096)
       @ le_bytes 2 ((2 * int (start + i) + 1) mod 4096)) [0..<n])
   \<and> synthetic_gpio_payload start n mode pattern
     = concat (map (\<lambda>i. le_bytes (gpio_item_bytes mode) (synthetic_gpio_value (start + i) mode pattern)) [0..<n])
   \<and> synthetic_v3_adc_payload start n = concat (map (\<lambda>i. let k = start + i;
         (a, b) = if k mod 2048 < 4 then edge_pairs ! (k mod 2048) else (2 * int k mod 4096, (2 * int k + 1) mod 4096)
       in le_bytes 2 a @ le_bytes 2 b) [0..<n])"
  by (simp add: synthetic_adc_payload_pairs synthetic_gpio_payload_items v3_adc_payload_pairs synthetic_pair_def
    synthetic_adc0_code_def synthetic_adc1_code_def adc_code_mod v3_source_pair_def adc_raw_pair_def Let_def
    cong: if_cong)

text \<open>
  Property C16. The validators accept exactly the generated payload of the announced start and count.
\<close>

theorem synthetic_validators_exact:
  "(validate_synthetic_adc_payload payload start n = Inr () \<longleftrightarrow> payload = synthetic_adc_payload start n)
   \<and> (validate_synthetic_gpio_payload payload start n mode pattern = Inr ()
        \<longleftrightarrow> payload = synthetic_gpio_payload start n mode pattern)"
proof -
  have acc: "length payload = k \<and> cyclic_mismatch payload c s = None \<longleftrightarrow> payload = cyclic_bytes c s k" if "c \<noteq> []" for c s k
    using first_difference_None [of payload "cyclic_bytes c s (length payload)" 0] length_cyclic_bytes [OF that]
    by (metis cyclic_mismatch_reference [OF that])
  have "(validate_synthetic_adc_payload payload start n = Inr ()) \<longleftrightarrow> payload = synthetic_adc_payload start n"
    unfolding synthetic_adc_payload_def acc [OF adc_cycle_ne, symmetric]
    by (auto simp: validate_synthetic_adc_payload_def Let_def res_simps split: option.splits)
  moreover have "(validate_synthetic_gpio_payload payload start n mode pattern = Inr ())
      \<longleftrightarrow> payload = synthetic_gpio_payload start n mode pattern"
    unfolding synthetic_gpio_payload_def acc [OF gpio_cycle_ne, symmetric]
    by (auto simp: validate_synthetic_gpio_payload_def Let_def res_simps split: option.splits)
  ultimately show ?thesis by blast
qed

text \<open>
  A reported ADC mismatch names the first pair that differs: the index lies in the
  block, the observed pair is not the expected one, the expected pair is the formula's, and all
  earlier pairs are the generated ones.
\<close>

lemma adc_mismatch_located:
  assumes "validate_synthetic_adc_payload payload start n = Inl (AdcMismatch k observed expected)"
  shows "start \<le> k \<and> k < start + n \<and> observed \<noteq> expected
     \<and> expected = (2 * int k mod 4096, (2 * int k + 1) mod 4096)
     \<and> take ((k - start) * 4) payload = synthetic_adc_payload start (k - start)"
proof -
  from assms obtain d where len: "length payload = n * 4" and mis: "cyclic_mismatch payload adc_pattern_cycle (start * 4) = Some d"
    and k: "k = start + d div 4"
    and obs: "observed = (le_int (py_slice (d div 4 * 4) (d div 4 * 4 + 2) payload), le_int (py_slice (d div 4 * 4 + 2) (d div 4 * 4 + 4) payload))"
    and ex: "expected = (synthetic_adc0_code k, synthetic_adc1_code k)"
    by (auto simp: validate_synthetic_adc_payload_def Let_def require_def split: option.splits if_splits)
  let ?q = "d div 4 * 4"
  note item = cyclic_mismatch_item [OF adc_cycle_ne _ len mis, simplified]
  have "cyclic_bytes adc_pattern_cycle (start * 4) (n * 4) = concat (map (\<lambda>i. synthetic_pair (start + i)) [0..<n])"
    using synthetic_adc_payload_pairs by (simp add: synthetic_adc_payload_def)
  then have ne: "py_slice ?q (?q + 4) payload \<noteq> synthetic_pair k"
    using item(3) item(1) k py_slice_concat_chunks [of "\<lambda>i. synthetic_pair (start + i)" 4 "d div 4" n] by (simp add: synthetic_pair_def)
  have "?q + 4 \<le> n * 4" using item(1) by simp
  then have l4: "length (py_slice ?q (?q + 4) payload) = 4" using len by simp
  have parts: "py_slice 0 2 (py_slice ?q (?q + 4) payload) = py_slice ?q (?q + 2) payload"
    "py_slice 2 4 (py_slice ?q (?q + 4) payload) = py_slice (?q + 2) (?q + 4) payload"
    by (simp_all add: py_slice_def drop_take add.commute)
  have "observed \<noteq> expected"
    using ne py_slice_pair [OF l4] unfolding obs ex parts synthetic_pair_def by auto
  then show ?thesis using item k ex
    by (simp add: synthetic_adc_payload_def synthetic_adc0_code_def synthetic_adc1_code_def adc_code_mod)
qed

end
