(* ===== verification/V3_Simulator.thy ===== *)
theory V3_Simulator
  imports V3_Frame Synthetic
begin

text \<open>
  The simulated version-3 device of \<^verbatim>\<open>simulator_v3.py\<close>: its request framing (a second instance of
  the bounded parser), command handling with replay protection, and data frame production. The
  attributes of \<^verbatim>\<open>SimulatedV3Device\<close> are the record \<open>sim_state\<close>; every method returns the new
  state, and where it can raise, the error or the result beside it.
\<close>

section \<open>Request framing\<close>

record Envelope =
  env_total_length :: int

definition request_header :: "bytes \<Rightarrow> nat \<Rightarrow> v3_error + Envelope" where
  "request_header data offset =
     (let f = struct_unpack HEADER_FORMAT (drop offset data);
          magic = f ! 0; version = f ! 1; hsize = f ! 4; checksum = f ! 5; length_total = f ! 7; payload = f ! 8 in
      if magic \<noteq> MAGIC \<or> version \<noteq> PROTOCOL_VERSION \<or> hsize \<noteq> HEADER_SIZE
         \<or> checksum \<noteq> V3ChecksumAlgorithm_value V3_ADLER32 \<or> length_total \<noteq> MIN_FRAME_BYTES + payload
         \<or> \<not> (MIN_FRAME_BYTES \<le> length_total \<and> length_total \<le> MAX_COMMAND_FRAME_BYTES)
      then Inl INVALID else Inr \<lparr>env_total_length = length_total\<rparr>)"

definition request_bytes :: "bytes \<Rightarrow> nat \<Rightarrow> Envelope \<Rightarrow> v3_error + bytes" where
  "request_bytes data offset header =
     (let wire = py_slice offset (offset + nat (env_total_length header)) data;
          expected = compute_v3_checksum (take (length wire - 4) wire);
          observed = le_int (take 4 (drop (length wire - 4) wire)) in
      if expected \<noteq> observed then Inl (V3ChecksumMismatchError expected observed) else Inr wire)"

definition request_parser :: "(Envelope, bytes, v3_error) parser_config" where
  "request_parser = \<lparr>magic_bytes = le_bytes 4 MAGIC, header_size = HEADER_SIZE, max_frame_bytes = MAX_COMMAND_FRAME_BYTES,
     decode_header = request_header, decode_frame = request_bytes,
     header_total_length = (\<lambda>h. nat (env_total_length h)), validation_error = (\<lambda>e. True),
     checksum_error = is_checksum_error\<rparr>"

section \<open>Device state\<close>

abbreviation (input) U64_MAX :: nat where "U64_MAX \<equiv> 2 ^ 64 - 1"

record sim_state =
  sim_build_id :: string
  sim_max_receive_bytes :: nat
  sim_max_requests :: nat
  sim_capabilities :: V3Capabilities
  sim_parser :: "Envelope parser_state"
  sim_recent :: "int list"
  sim_settings :: V3Settings
  sim_device_state :: DeviceState
  sim_run_id :: int
  sim_pending :: bool
  sim_transport_errors :: nat
  sim_frames :: "nat list"
  sim_items :: "nat list"
  sim_frames_dropped :: "nat list"
  sim_items_dropped :: "nat list"
  sim_gap_before :: "bool list"
  sim_epoch_start :: "bool list"
  sim_last_epoch_start :: bool
  sim_next_stream :: nat
  sim_last_stream :: nat
  sim_last_item_count :: nat

datatype sim_error = SimValueError | SimulatorInputError | SimV3Error v3_error | SimParserError

definition reset_epoch :: "sim_state \<Rightarrow> sim_state" where
  "reset_epoch d = d\<lparr>sim_frames := [0, 0], sim_items := [0, 0], sim_frames_dropped := [0, 0],
     sim_items_dropped := [0, 0], sim_gap_before := [False, False], sim_epoch_start := [True, True],
     sim_last_epoch_start := False, sim_next_stream := 0, sim_last_stream := 0, sim_last_item_count := 0\<rparr>"

definition reboot :: "sim_state \<Rightarrow> sim_state" where
  "reboot d = (let d1 = reset_epoch (d\<lparr>sim_settings := cap_defaults (sim_capabilities d), sim_device_state := DS_STOPPED,
       sim_run_id := 0, sim_pending := False, sim_transport_errors := 0\<rparr>) in
     d1\<lparr>sim_parser := reset (sim_parser d1), sim_recent := []\<rparr>)"

definition begin_host_session :: "sim_state \<Rightarrow> sim_state" where
  "begin_host_session d = d\<lparr>sim_parser := reset_session (sim_parser d), sim_recent := []\<rparr>"

definition record_transport_error :: "sim_state \<Rightarrow> sim_state" where
  "record_transport_error d = d\<lparr>sim_transport_errors := min (sim_transport_errors d + 1) U64_MAX\<rparr>"

definition set_transport_pending_data :: "bool \<Rightarrow> sim_state \<Rightarrow> sim_state" where
  "set_transport_pending_data pending d =
     (let d1 = d\<lparr>sim_pending := pending\<rparr> in
      if \<not> pending \<and> sim_device_state d1 = DS_DRAINING then d1\<lparr>sim_device_state := DS_STOPPED\<rparr> else d1)"

definition discard_transport_data :: "sim_state \<Rightarrow> sim_state" where
  "discard_transport_data d = set_transport_pending_data False
     (if sim_pending d then (let stream = sim_last_stream d in
        d\<lparr>sim_frames_dropped := (sim_frames_dropped d)[stream := min (sim_frames_dropped d ! stream + 1) U64_MAX],
          sim_items_dropped := (sim_items_dropped d)[stream := min (sim_items_dropped d ! stream + sim_last_item_count d) U64_MAX],
          sim_gap_before := (sim_gap_before d)[stream := True],
          sim_epoch_start := (sim_epoch_start d)[stream := sim_last_epoch_start d]\<rparr>)
      else d)"

definition sim_info :: "sim_state \<Rightarrow> v3_error + V3Info" where
  "sim_info d = bind_res (clocks_for_profile (st_cpu_profile (sim_settings d))) (\<lambda>clocks.
     Inr \<lparr>in_board_id = BOARD_TEENSY_40, in_mcu_id = MCU_IMXRT1062, in_simulated = True,
       in_hardware_serial = ''SIM-TEENSY40-V3'', in_firmware_version = ''0.3.0-sim'', in_build_id = sim_build_id d,
       in_clocks = clocks, in_protocol_version = PROTOCOL_VERSION, in_adc_resolution_bits = 12\<rparr>)"

definition sim_status :: "sim_state \<Rightarrow> V3Status" where
  "sim_status d = \<lparr>ss_stop = \<lparr>sp_state = sim_device_state d, sp_run_id = sim_run_id d, sp_pending_frames = of_bool (sim_pending d)\<rparr>,
     ss_adc_frames_produced = int (sim_frames d ! 0), ss_adc_frames_dropped = int (sim_frames_dropped d ! 0),
     ss_adc_items_produced = int (sim_items d ! 0), ss_adc_items_dropped = int (sim_items_dropped d ! 0),
     ss_gpio_frames_produced = int (sim_frames d ! 1), ss_gpio_frames_dropped = int (sim_frames_dropped d ! 1),
     ss_gpio_items_produced = int (sim_items d ! 1), ss_gpio_items_dropped = int (sim_items_dropped d ! 1),
     ss_diagnostics = replicate STATUS_DIAGNOSTIC_COUNT None\<rparr>"

text \<open>The capabilities of the fixed-clock device: the canonical ones restricted to the default CPU profile.\<close>

definition sim_restrict :: "V3Capabilities \<Rightarrow> V3Capabilities" where
  "sim_restrict c = (let cpu = st_cpu_profile (cap_defaults c) in
     c\<lparr>cap_cpu_profiles := filter (\<lambda>p. cl_cpu_profile p = cpu) (cap_cpu_profiles c),
       cap_configurations := filter (\<lambda>s. st_cpu_profile s = cpu) (cap_configurations c)\<rparr>)"

text \<open>
  The constructor. The attributes that \<^verbatim>\<open>reboot\<close> assigns are overwritten there, so their
  values before it do not matter.
\<close>

definition sim_allocate :: "string \<Rightarrow> nat \<Rightarrow> nat \<Rightarrow> V3Capabilities \<Rightarrow> sim_state" where
  "sim_allocate build_id max_receive_bytes max_requests_per_receive caps =
     \<lparr>sim_build_id = build_id, sim_max_receive_bytes = max_receive_bytes,
      sim_max_requests = max_requests_per_receive, sim_capabilities = caps, sim_parser = empty_parser_state,
      sim_recent = [], sim_settings = cap_defaults caps, sim_device_state = DS_STOPPED, sim_run_id = 0,
      sim_pending = False, sim_transport_errors = 0, sim_frames = [], sim_items = [], sim_frames_dropped = [],
      sim_items_dropped = [], sim_gap_before = [], sim_epoch_start = [], sim_last_epoch_start = False,
      sim_next_stream = 0, sim_last_stream = 0, sim_last_item_count = 0\<rparr>"

definition SimulatedV3Device :: "string \<Rightarrow> int \<Rightarrow> int \<Rightarrow> sim_error + sim_state" where
  "SimulatedV3Device build_id max_receive_bytes max_requests_per_receive =
     require (MIN_FRAME_BYTES \<le> max_receive_bytes) SimValueError (
     require (0 < max_requests_per_receive) SimValueError (
     bind_res (map_sum SimV3Error id canonical_capabilities) (\<lambda>canonical.
     let device = reboot (sim_allocate build_id (nat max_receive_bytes) (nat max_requests_per_receive) (sim_restrict canonical)) in
     bind_res (map_sum SimV3Error id (bind_res (sim_info device) info_to_payload)) (\<lambda>_.
     Inr device))))"

section \<open>Command handling\<close>

text \<open>\<^verbatim>\<open>_reply\<close>: a typed response for a known command kind, a generic error otherwise.\<close>

definition sim_reply :: "sim_state \<Rightarrow> int \<Rightarrow> int \<Rightarrow> V3ResponseValue option \<Rightarrow> ErrorCode \<Rightarrow> v3_error + bytes" where
  "sim_reply d kind request_id val error = response_to_bytes
     \<lparr>rp_kind = (case CommandKind_of_int kind of Some ck \<Rightarrow> COMMAND_RESPONSE_KINDS ck | None \<Rightarrow> FK_ERROR_RESPONSE),
      rp_request_id = request_id, rp_run_id = sim_run_id d,
      rp_status = (if error = EC_OK then RS_OK else RS_ERROR), rp_error_code = error, rp_value = val,
      rp_rejected_kind = (case CommandKind_of_int kind of Some ck \<Rightarrow> None | None \<Rightarrow> Some kind)\<rparr>"

text \<open>\<^verbatim>\<open>deque(maxlen=16).append\<close>: the oldest identifier falls out.\<close>

definition remember :: "int \<Rightarrow> sim_state \<Rightarrow> sim_state" where
  "remember request_id d = (let ids = sim_recent d @ [request_id] in d\<lparr>sim_recent := drop (length ids - 16) ids\<rparr>)"

text \<open>
  The \<^verbatim>\<open>try\<close> block around a CONFIGURE payload: a candidate and whether it is unsupported, or the
  error code to report at once.
\<close>

definition request_candidate :: "sim_state \<Rightarrow> CommandKind \<Rightarrow> bytes \<Rightarrow> ErrorCode + V3Settings option \<times> bool" where
  "request_candidate d command payload =
     (if command = CK_CONFIGURE then
        (case settings_from_bytes payload of
           Inl e \<Rightarrow> if error_code e \<noteq> EC_UNSUPPORTED_CONFIGURATION then Inl (error_code e) else Inr (None, True)
         | Inr candidate \<Rightarrow>
            (case require_supported (sim_capabilities d) candidate of
               Inl e \<Rightarrow> if error_code e \<noteq> EC_UNSUPPORTED_CONFIGURATION then Inl (error_code e) else Inr (Some candidate, True)
             | Inr _ \<Rightarrow> Inr (Some candidate, False)))
      else Inr (None, False))"

definition next_run_id :: "int \<Rightarrow> int" where
  "next_run_id run = (let r = (run + 1) AND 0xFFFFFFFF in if r = 0 then 1 else r)"

text \<open>The commands that passed every check.\<close>

definition execute_command :: "sim_state \<Rightarrow> CommandKind \<Rightarrow> int \<Rightarrow> V3Settings option \<Rightarrow> sim_state \<times> (v3_error + bytes)" where
  "execute_command d command request_id candidate =
     (let kind = CommandKind_value command in
      case command of
        CK_INFO \<Rightarrow> (d, bind_res (sim_info d) (\<lambda>v. sim_reply d kind request_id (Some (InfoValue v)) EC_OK))
      | CK_GET_CAPABILITIES \<Rightarrow> (d, sim_reply d kind request_id (Some (CapabilitiesValue (sim_capabilities d))) EC_OK)
      | CK_GET_STATUS \<Rightarrow> (d, sim_reply d kind request_id (Some (StatusValue (sim_status d))) EC_OK)
      | CK_STOP \<Rightarrow>
          (let d1 = d\<lparr>sim_device_state := (if sim_pending d then DS_DRAINING else DS_STOPPED)\<rparr> in
           (d1, sim_reply d1 kind request_id (Some (StopValue \<lparr>sp_state = sim_device_state d1, sp_run_id = sim_run_id d1,
              sp_pending_frames = of_bool (sim_pending d1)\<rparr>)) EC_OK))
      | _ \<Rightarrow>
          (let d1 = (if command = CK_CONFIGURE then d\<lparr>sim_settings := the candidate\<rparr>
                     else if command = CK_START
                     then (reset_epoch (d\<lparr>sim_run_id := next_run_id (sim_run_id d)\<rparr>))\<lparr>sim_device_state := DS_RUNNING\<rparr>
                     else d) in
           (d1, bind_res (clocks_for_profile (st_cpu_profile (sim_settings d1))) (\<lambda>clocks.
                sim_reply d1 kind request_id (Some (AppliedValue \<lparr>ap_settings = sim_settings d1, ap_clocks = clocks\<rparr>)) EC_OK))))"

definition handle_request :: "sim_state \<Rightarrow> bytes \<Rightarrow> bool \<Rightarrow> sim_state \<times> (v3_error + bytes)" where
  "handle_request d wire busy =
     (let f = struct_unpack HEADER_FORMAT wire;
          kind = f ! 2; flags = f ! 3; reserved = f ! 6; payload_size = f ! 8; run = f ! 9;
          sequence = f ! 10; request_id = f ! 11; ticks = f ! 12; count = f ! 13 in
      case CommandKind_of_int kind of
        None \<Rightarrow>
          (let d1 = (if request_id \<noteq> 0 \<and> request_id \<notin> set (sim_recent d) then remember request_id d else d) in
           (d1, sim_reply d1 kind request_id None (if request_id \<noteq> 0 then EC_UNKNOWN_FRAME_KIND else EC_INVALID_REQUEST_ID)))
      | Some command \<Rightarrow>
          if request_id = 0 \<or> request_id \<in> set (sim_recent d)
          then (d, sim_reply d kind request_id None EC_INVALID_REQUEST_ID)
          else (let d1 = remember request_id d; refuse = (\<lambda>e. (d1, sim_reply d1 kind request_id None e)) in
            if flags \<noteq> 0 then refuse EC_INVALID_FLAGS
            else if payload_size \<noteq> (if command = CK_CONFIGURE then SETTINGS_PAYLOAD_SIZE else 0) then refuse EC_INVALID_LENGTH
            else if reserved \<noteq> 0 \<or> run \<noteq> 0 \<or> sequence \<noteq> 0 \<or> ticks \<noteq> 0 \<or> count \<noteq> 0 then refuse EC_INVALID_PAYLOAD
            else case request_candidate d1 command (py_slice HEADER_SIZE (length wire - 4) wire) of
              Inl e \<Rightarrow> refuse e
            | Inr (candidate, unsupported) \<Rightarrow>
                if busy then refuse EC_BUSY
                else if command \<in> {CK_CONFIGURE, CK_START} \<and> sim_device_state d1 = DS_RUNNING then refuse EC_INVALID_STATE
                else if command \<in> {CK_CONFIGURE, CK_START} \<and> (sim_device_state d1 = DS_DRAINING \<or> sim_pending d1) then refuse EC_BUSY
                else if unsupported then refuse EC_UNSUPPORTED_CONFIGURATION
                else execute_command d1 command request_id candidate))"

text \<open>
  \<^verbatim>\<open>receive\<close>: the requests of one read are handled in order, those beyond the limit as busy. An
  exception of a handler ends the call; the state changes made before it stay. \<open>None\<close> means
  that the parser does not return; neither that nor a parser error happens in reachable states.
\<close>

fun handle_requests :: "sim_state \<Rightarrow> nat \<Rightarrow> bytes list \<Rightarrow> sim_state \<times> (v3_error + bytes list)" where
  "handle_requests d index [] = (d, Inr [])"
| "handle_requests d index (wire # wires) =
     (case handle_request d wire (sim_max_requests d \<le> index) of
        (d1, Inl e) \<Rightarrow> (d1, Inl e)
      | (d1, Inr reply) \<Rightarrow> (case handle_requests d1 (index + 1) wires of (d2, r) \<Rightarrow> (d2, map_sum id ((#) reply) r)))"

definition receive :: "sim_state \<Rightarrow> bytes \<Rightarrow> (sim_state \<times> (sim_error + bytes list)) option" where
  "receive d data =
     (if sim_max_receive_bytes d < length data then Some (d, Inl SimulatorInputError)
      else case feed request_parser (sim_parser d) data of
        None \<Rightarrow> None
      | Some (Inl e) \<Rightarrow> Some (d, Inl SimParserError)
      | Some (Inr (p, wires)) \<Rightarrow>
          (case handle_requests (d\<lparr>sim_parser := p\<rparr>) 0 wires of (d1, r) \<Rightarrow> Some (d1, map_sum SimV3Error id r)))"

section \<open>Data frames\<close>

text \<open>\<^verbatim>\<open>struct.iter_unpack("<HH", ...)\<close> and \<^verbatim>\<open>struct.iter_unpack("<H", ...)\<close> on whole records.\<close>

fun iter_unpack_pairs :: "bytes \<Rightarrow> (int \<times> int) list" where
  "iter_unpack_pairs (a # b # c # d # rest) = (le_int [a, b], le_int [c, d]) # iter_unpack_pairs rest"
| "iter_unpack_pairs _ = []"

fun iter_unpack_words :: "bytes \<Rightarrow> int list" where
  "iter_unpack_words (a # b # rest) = le_int [a, b] # iter_unpack_words rest"
| "iter_unpack_words _ = []"

definition stream_list :: "V3Settings \<Rightarrow> nat list" where
  "stream_list s = map fst (filter (\<lambda>(index, m). st_stream_mask s AND m \<noteq> 0) [(0, STREAM_ADC), (1, STREAM_GPIO)])"

definition stream_payload :: "V3Settings \<Rightarrow> nat \<Rightarrow> nat \<Rightarrow> nat \<Rightarrow> nat \<times> (v3_error + bytes)" where
  "stream_payload s stream first sequence =
     (if stream = 0 then
        (MAX_ADC_PAIRS, encode_adc_payload (iter_unpack_pairs (synthetic_v3_adc_payload first MAX_ADC_PAIRS)) (st_adc_policy s))
      else
        (let count = MAX_LOGICAL_PAYLOAD_BYTES div (nat (st_gpio_width_bits s) div 8);
             pattern = (if sequence mod 2 = 0 then ALL_ZERO else HIGH_TRANSITION);
             raw = synthetic_gpio_payload first count (st_aux_bank_mode s) pattern;
             samples = (if st_gpio_width_bits s = 8 then map uint raw else iter_unpack_words raw) in
         (count, encode_gpio_payload samples (st_gpio_width_bits s) (st_gpio_policy s))))"

text \<open>
  \<^verbatim>\<open>next_data_frame\<close>. A stream mask without a known stream would divide by zero; settings have a
  nonempty mask.
\<close>

definition next_data_frame :: "sim_state \<Rightarrow> sim_state \<times> (v3_error + bytes option)" where
  "next_data_frame d =
     (if sim_device_state d \<noteq> DS_RUNNING \<or> sim_pending d then (d, Inr None)
      else (let s = sim_settings d; streams = stream_list s;
                stream = streams ! (sim_next_stream d mod length streams);
                first = sim_items d ! stream; sequence = sim_frames d ! stream;
                (count, payload) = stream_payload s stream first sequence;
                kind = (if stream = 0 then FK_ADC_DATA else FK_GPIO_DATA) in
        case payload of
          Inl e \<Rightarrow> (d, Inl e)
        | Inr p \<Rightarrow>
           if U64_MAX < (first + count) * ADC_PAIR_PERIOD_TICKS then (d\<lparr>sim_device_state := DS_STOPPED\<rparr>, Inr None)
           else (let flags = (if sim_epoch_start d ! stream then FLAG_EPOCH_START else 0)
                       OR (if sim_gap_before d ! stream then FLAG_GAP_BEFORE else 0)
                       OR (if st_source s = SRC_SYNTHETIC then FLAG_SYNTHETIC else 0) in
             case encode_v3_frame (FrameKind_value kind) p flags (sim_run_id d) (int sequence AND 0xFFFFFFFF) 0
                 (int first * ADC_PAIR_PERIOD_TICKS) (int count) of
               Inl e \<Rightarrow> (d, Inl e)
             | Inr wire \<Rightarrow>
                 (d\<lparr>sim_frames := (sim_frames d)[stream := min (sequence + 1) U64_MAX],
                    sim_items := (sim_items d)[stream := min (first + count) U64_MAX],
                    sim_gap_before := (sim_gap_before d)[stream := False],
                    sim_last_epoch_start := sim_epoch_start d ! stream,
                    sim_epoch_start := (sim_epoch_start d)[stream := False],
                    sim_last_stream := stream, sim_last_item_count := count,
                    sim_next_stream := (sim_next_stream d + 1) mod length streams\<rparr>, Inr (Some wire)))))"

section \<open>The request parser as a framing instance\<close>

lemma request_header_eq_Inr:
  "request_header data offset = Inr h \<longleftrightarrow>
     (let f = struct_unpack HEADER_FORMAT (drop offset data) in
      f ! 0 = MAGIC \<and> f ! 1 = 3 \<and> f ! 4 = 44 \<and> f ! 5 = 1 \<and> f ! 7 = 48 + f ! 8 \<and> 48 \<le> f ! 7 \<and> f ! 7 \<le> 68 \<and>
      h = \<lparr>env_total_length = f ! 7\<rparr>)"
  by (auto simp: request_header_def Let_def)

lemma request_header_offset:
  assumes "44 \<le> length data - offset"
  shows "request_header data offset = request_header (take 44 (drop offset data)) 0"
proof -
  have "struct_unpack HEADER_FORMAT (take 44 (drop offset data)) = struct_unpack HEADER_FORMAT (drop offset data)"
    using struct_unpack_take [of HEADER_FORMAT 0 "drop offset data"] by simp
  then show ?thesis by (simp add: request_header_def)
qed

lemma request_bytes_local:
  "request_bytes data off h = request_bytes (take (nat (env_total_length h)) (drop off data)) 0 h"
  by (simp add: request_bytes_def py_slice_def)

lemma request_bytes_eq_Inr:
  "request_bytes data 0 h = Inr w \<longleftrightarrow> w = take (nat (env_total_length h)) data \<and>
     compute_v3_checksum (take (length w - 4) w) = le_int (take 4 (drop (length w - 4) w))"
  by (auto simp: request_bytes_def py_slice_def Let_def simp del: take_take length_take)

interpretation req: framing request_parser length
proof
  fix buf :: bytes and off :: nat and h :: Envelope and e :: v3_error and f :: bytes
  show "magic_bytes request_parser \<noteq> []" by (simp add: request_parser_def numeral_eq_Suc)
  show "length (magic_bytes request_parser) \<le> header_size request_parser"
    "header_size request_parser \<le> max_frame_bytes request_parser"
    by (simp_all add: request_parser_def)
  show "header_size request_parser \<le> length buf - off \<Longrightarrow>
      decode_header request_parser buf off = decode_header request_parser (take (header_size request_parser) (drop off buf)) 0"
    using request_header_offset [of buf off] by (simp add: request_parser_def)
  show "validation_error request_parser e" "validation_error request_parser e"
    by (simp_all add: request_parser_def)
  show "header_size request_parser \<le> header_total_length request_parser h \<and>
      header_total_length request_parser h \<le> max_frame_bytes request_parser"
    if "decode_header request_parser buf off = Inr h"
    using that by (auto simp: request_parser_def request_header_eq_Inr Let_def)
  show "decode_frame request_parser buf off h =
      decode_frame request_parser (take (header_total_length request_parser h) (drop off buf)) 0 h"
    using request_bytes_local by (simp add: request_parser_def)
  show "length f = header_total_length request_parser h"
    if "decode_header request_parser buf off = Inr h" "header_total_length request_parser h \<le> length buf - off"
      "decode_frame request_parser buf off h = Inr f"
    using that request_bytes_local [of buf off h] by (auto simp: request_parser_def request_bytes_eq_Inr)
qed

text \<open>What the request parser hands to the command handler.\<close>

definition request_wire :: "bytes \<Rightarrow> bool" where
  "request_wire w \<longleftrightarrow> 48 \<le> length w \<and> length w \<le> 68 \<and> request_header w 0 = Inr \<lparr>env_total_length = int (length w)\<rparr> \<and>
     compute_v3_checksum (take (length w - 4) w) = le_int (drop (length w - 4) w)"

lemma accepted_request_wire: "accepted_frame request_parser w \<Longrightarrow> request_wire w"
proof -
  assume "accepted_frame request_parser w"
  then obtain v h where h: "request_header v 0 = Inr h" "nat (env_total_length h) = length v" "request_bytes v 0 h = Inr w"
    by (auto simp: accepted_frame_def request_parser_def)
  then have "w = v" by (simp add: request_bytes_eq_Inr)
  moreover have "48 \<le> env_total_length h" "env_total_length h \<le> 68" using h(1) by (auto simp: request_header_eq_Inr Let_def)
  ultimately show ?thesis using h by (cases h) (auto simp: request_wire_def request_bytes_eq_Inr)
qed

lemma request_wire_fields:
  assumes "request_wire w"
  shows "struct_unpack HEADER_FORMAT w ! 8 = int (length w) - 48" "0 \<le> struct_unpack HEADER_FORMAT w ! 2"
    "struct_unpack HEADER_FORMAT w ! 2 < 256" "0 \<le> struct_unpack HEADER_FORMAT w ! 11"
    "struct_unpack HEADER_FORMAT w ! 11 < 256 ^ 4"
proof -
  show "struct_unpack HEADER_FORMAT w ! 8 = int (length w) - 48"
    using assms by (auto simp: request_wire_def request_header_eq_Inr Let_def)
  have "fields_in_range HEADER_FORMAT (struct_unpack HEADER_FORMAT w)"
    using assms struct_unpack_in_range [of HEADER_FORMAT w] by (simp add: request_wire_def)
  then show "0 \<le> struct_unpack HEADER_FORMAT w ! 2" "struct_unpack HEADER_FORMAT w ! 2 < 256"
    "0 \<le> struct_unpack HEADER_FORMAT w ! 11" "struct_unpack HEADER_FORMAT w ! 11 < 256 ^ 4"
    by (simp_all add: HEADER_FORMAT_def)
qed

section \<open>Replies always encode\<close>

lemma encode_v3_frame_total:
  assumes H: "H = V3FrameHeader k fl (48 + int (length p)) (int (length p)) run sequence request ticks count"
    and "0 \<le> fl" "length p \<le> 4060" "header_valid H" "fields_in_range HEADER_FORMAT (header_fields H)"
    and "validate_payload \<lparr>fr_header = H, fr_payload = p, fr_checksum = 0\<rparr> = Inr ()"
  shows "\<exists>w. encode_v3_frame (FrameKind_value k) p fl run sequence request ticks count = Inr w"
proof -
  obtain hb where hb: "header_to_bytes H = Inr hb"
    using assms(4,5) struct_pack_Some_iff by (auto simp: header_valid_to_bytes res_simps)
  have "decode_v3_header hb 0 = Inr H" using header_to_bytes_decode [OF assms(4) hb, of "[]"] by simp
  then show ?thesis using assms hb by (simp add: encode_v3_frame_def Let_def bounded_bytes_def require_def)
qed

abbreviation "response_header k fl p run request \<equiv>
  V3FrameHeader k fl (48 + int (length p)) (int (length (p :: bytes))) run 0 request 0 0"

lemma response_header_in_range:
  assumes "length p \<le> 2000" "0 \<le> run" "run < 256 ^ 4" "0 \<le> request" "request < 256 ^ 4" "fl \<in> {0, FLAG_RESPONSE_ERROR}"
  shows "fields_in_range HEADER_FORMAT (header_fields (response_header k fl p run request))"
  using assms FrameKind_value_range [of k] by (auto simp: HEADER_FORMAT_def header_fields_def)

lemma response_kind_control:
  "is_response_kind k \<Longrightarrow> \<not> is_data_kind k \<and> \<not> is_request_kind k \<and> k \<noteq> FK_CONFIGURE_REQUEST"
  by (cases k) (auto simp: is_response_kind_def is_request_kind_def CommandKind_of_int_def)

lemma response_frame_total:
  assumes "is_response_kind k" "length p \<le> 2000" "0 \<le> run" "run < 256 ^ 4" "0 \<le> request" "request < 256 ^ 4"
    "fl \<in> {0, FLAG_RESPONSE_ERROR}"
    and "check_control_header (response_header k fl p run request) = Inr ()"
    and "\<exists>r. decode_v3_response \<lparr>fr_header = response_header k fl p run request, fr_payload = p, fr_checksum = 0\<rparr> = Inr r"
  shows "\<exists>w. encode_v3_frame (FrameKind_value k) p fl run 0 request 0 0 = Inr w"
proof (rule encode_v3_frame_total [OF refl])
  show "header_valid (response_header k fl p run request)"
    using assms(8) response_kind_control [OF assms(1)] by (simp add: header_valid_def)
  show "fields_in_range HEADER_FORMAT (header_fields (response_header k fl p run request))"
    using response_header_in_range [OF assms(2-7)] .
  show "validate_payload \<lparr>fr_header = response_header k fl p run request, fr_payload = p, fr_checksum = 0\<rparr> = Inr ()"
    using assms(9) response_kind_control [OF assms(1)] by (auto simp: validate_payload_def Let_def)
qed (use assms in auto)

lemma error_prefix:
  "e \<noteq> EC_OK \<Longrightarrow> \<exists>b. struct_pack RESPONSE_PREFIX_FORMAT [ResponseStatus_value RS_ERROR, 0, ErrorCode_value e] = Some b \<and> length b = 4"
  using struct_pack_Some_iff [of RESPONSE_PREFIX_FORMAT "[ResponseStatus_value RS_ERROR, 0, ErrorCode_value e]"]
    struct_pack_length ErrorCode_value_range [of e]
  by (fastforce simp: RESPONSE_PREFIX_FORMAT_def)

text \<open>Every error response of a known kind is encodable; a zero request ID only with its own error code.\<close>

lemma error_response_total:
  assumes k: "is_response_kind k" and e: "e \<noteq> EC_OK" and run: "0 \<le> run" "run < 256 ^ 4"
    and q: "0 \<le> request" "request < 256 ^ 4" "request = 0 \<Longrightarrow> e = EC_INVALID_REQUEST_ID"
    and rej: "case rejected of None \<Rightarrow> k \<noteq> FK_ERROR_RESPONSE | Some v \<Rightarrow> k = FK_ERROR_RESPONSE \<and> 0 \<le> v \<and> v < 256"
  shows "\<exists>w. response_to_bytes \<lparr>rp_kind = k, rp_request_id = request, rp_run_id = run, rp_status = RS_ERROR,
     rp_error_code = e, rp_value = None, rp_rejected_kind = rejected\<rparr> = Inr w"
proof -
  obtain b where b: "struct_pack RESPONSE_PREFIX_FORMAT [ResponseStatus_value RS_ERROR, 0, ErrorCode_value e] = Some b" "length b = 4"
    using error_prefix [OF e] by blast
  have u: "struct_unpack RESPONSE_PREFIX_FORMAT (b @ rest) = [ResponseStatus_value RS_ERROR, 0, ErrorCode_value e]" for rest
    using struct_unpack_pack [OF b(1)] by simp
  show ?thesis
  proof (cases rejected)
    case None
    then have k': "k \<noteq> FK_ERROR_RESPONSE" using rej by simp
    have "\<exists>w. encode_v3_frame (FrameKind_value k) b FLAG_RESPONSE_ERROR run 0 request 0 0 = Inr w"
    proof (rule response_frame_total [OF k _ run q(1,2)])
      show "check_control_header (response_header k FLAG_RESPONSE_ERROR b run request) = Inr ()"
        using response_kind_control [OF k] k' b(2) by (simp add: check_control_header_def check_response_header_def)
      show "\<exists>r. decode_v3_response \<lparr>fr_header = response_header k FLAG_RESPONSE_ERROR b run request, fr_payload = b, fr_checksum = 0\<rparr> = Inr r"
        using k k' b(2) u [of "[]"] e q(3) by (auto simp: decode_v3_response_def Let_def bounded_bytes_def require_def ResponseStatus_of_int_def)
    qed (use b(2) in auto)
    then show ?thesis using None k' e b(1) by (simp add: response_to_bytes_def pack_def require_def)
  next
    case (Some v)
    then have v: "k = FK_ERROR_RESPONSE" "0 \<le> v" "v < 256" using rej by auto
    obtain c where c: "struct_pack [1, 1, 2] [v, 0, 0] = Some c" "length c = 4"
      using struct_pack_Some_iff [of "[1, 1, 2]" "[v, 0, 0]"] v struct_pack_length by fastforce
    have cs: "c ! 0 = word_of_int v" "drop 1 c = [0, 0, 0]" using c(1) v by (auto simp: numeral_eq_Suc)
    have d: "drop 5 (b @ c) = [0, 0, 0]" "(b @ c) ! 4 = c ! 0" using b(2) cs(2) by (simp_all add: nth_append)
    have "\<exists>w. encode_v3_frame (FrameKind_value k) (b @ c) FLAG_RESPONSE_ERROR run 0 request 0 0 = Inr w"
    proof (rule response_frame_total [OF k _ run q(1,2)])
      show "check_control_header (response_header k FLAG_RESPONSE_ERROR (b @ c) run request) = Inr ()"
        using response_kind_control [OF k] v(1) b(2) c(2) by (simp add: check_control_header_def check_response_header_def)
      show "\<exists>r. decode_v3_response \<lparr>fr_header = response_header k FLAG_RESPONSE_ERROR (b @ c) run request, fr_payload = b @ c, fr_checksum = 0\<rparr> = Inr r"
        using k v(1) b(2) c(2) u [of c] e q(3) d by (auto simp: decode_v3_response_def Let_def bounded_bytes_def require_def ResponseStatus_of_int_def)
    qed (use b(2) c(2) in auto)
    then show ?thesis using Some v e b(1) c(1) by (simp add: response_to_bytes_def pack_def require_def)
  qed
qed

text \<open>A successful response is encodable when its payload is the one its kind announces.\<close>

lemma decoded_value_kind:
  assumes "decode_response_value k p = Inr v"
  shows "is_response_kind k" "k \<noteq> FK_ERROR_RESPONSE" "RESPONSE_SIZES k = Some (int (length p))" "take 4 p = OK_PREFIX" "length p \<le> 2000"
proof -
  have ms: "map_sum id C m = Inr v \<longleftrightarrow> (\<exists>x. m = Inr x \<and> v = C x)" for C and m :: "v3_error + 'x"
    by (cases m) auto
  note len = value_payload_length [OF decode_response_value_encode [OF assms]]
  have "k \<in> {FK_INFO_RESPONSE, FK_GET_CAPABILITIES_RESPONSE, FK_CONFIGURE_RESPONSE, FK_START_RESPONSE, FK_GET_SETTINGS_RESPONSE,
      FK_GET_STATUS_RESPONSE, FK_STOP_RESPONSE} \<and> RESPONSE_SIZES k = Some (int (length p)) \<and> length p \<le> 2000"
    using assms len by (auto simp: decode_response_value_def ms res_simps split: if_splits)
  then show "is_response_kind k" "k \<noteq> FK_ERROR_RESPONSE" "RESPONSE_SIZES k = Some (int (length p))" "length p \<le> 2000"
    by (auto simp: is_response_kind_def image_def)
  show "take 4 p = OK_PREFIX" using len by simp
qed

lemma ok_prefix_fields: "take 4 p = OK_PREFIX \<Longrightarrow> struct_unpack RESPONSE_PREFIX_FORMAT p = [0, 0, 0]"
  using struct_unpack_take [of RESPONSE_PREFIX_FORMAT 0 p]
  by (simp add: RESPONSE_PREFIX_FORMAT_def OK_PREFIX_def numeral_eq_Suc)

lemma success_response_total:
  assumes dec: "decode_response_value k p = Inr v" and run: "0 \<le> run" "run < 256 ^ 4" and q: "0 < request" "request < 256 ^ 4"
    and start: "k = FK_START_RESPONSE \<Longrightarrow> run \<noteq> 0" and same: "\<And>r. value_run_id v = Some r \<Longrightarrow> r = run"
  shows "\<exists>w. response_to_bytes \<lparr>rp_kind = k, rp_request_id = request, rp_run_id = run, rp_status = RS_OK,
     rp_error_code = EC_OK, rp_value = Some v, rp_rejected_kind = None\<rparr> = Inr w"
proof -
  note k = decoded_value_kind [OF dec]
  have vp: "value_to_payload v = Inr p" by (rule decode_response_value_encode [OF dec])
  have l4: "4 \<le> length p" using k(4) length_OK_PREFIX by (metis length_take min.cobounded1)
  have "\<exists>w. encode_v3_frame (FrameKind_value k) p 0 run 0 request 0 0 = Inr w"
  proof (rule response_frame_total [OF k(1,5) run _ q(2)])
    show "check_control_header (response_header k 0 p run request) = Inr ()"
      using response_kind_control [OF k(1)] k q start by (auto simp: check_control_header_def check_response_header_def)
    show "\<exists>r. decode_v3_response \<lparr>fr_header = response_header k 0 p run request, fr_payload = p, fr_checksum = 0\<rparr> = Inr r"
      using k l4 ok_prefix_fields [OF k(4)] q dec same
      by (auto simp: decode_v3_response_def Let_def bounded_bytes_def require_def ResponseStatus_of_int_def ErrorCode_of_int_def
          split: option.split)
  qed (use q in auto)
  then show ?thesis using vp by (simp add: response_to_bytes_def require_def)
qed

section \<open>Well-formed device states\<close>

text \<open>
  The invariant. The counters of a stream leave room for the frame in flight, so a discarded
  frame never makes the dropped counts exceed the produced ones; every frame has at least 1012
  items, and the item counts stay below the 64-bit tick range.
\<close>

definition in_flight :: "sim_state \<Rightarrow> nat \<Rightarrow> nat \<Rightarrow> nat" where
  "in_flight d stream n = (if sim_pending d \<and> sim_last_stream d = stream then n else 0)"

definition stream_inv :: "sim_state \<Rightarrow> nat \<Rightarrow> bool" where
  "stream_inv d i \<longleftrightarrow>
     sim_frames_dropped d ! i + in_flight d i 1 \<le> sim_frames d ! i \<and>
     sim_items_dropped d ! i + in_flight d i (sim_last_item_count d) \<le> sim_items d ! i \<and>
     sim_frames d ! i * 1012 \<le> sim_items d ! i \<and> sim_items d ! i * 8 \<le> U64_MAX"

definition counters_inv :: "sim_state \<Rightarrow> bool" where
  "counters_inv d \<longleftrightarrow> length (sim_frames d) = 2 \<and> length (sim_items d) = 2 \<and> length (sim_frames_dropped d) = 2 \<and>
     length (sim_items_dropped d) = 2 \<and> length (sim_gap_before d) = 2 \<and> length (sim_epoch_start d) = 2 \<and>
     sim_last_stream d < 2 \<and> stream_inv d 0 \<and> stream_inv d 1"

definition lifecycle_inv :: "sim_state \<Rightarrow> bool" where
  "lifecycle_inv d \<longleftrightarrow> 0 \<le> sim_run_id d \<and> sim_run_id d < 256 ^ 4 \<and>
     (sim_device_state d \<noteq> DS_STOPPED \<longrightarrow> sim_run_id d \<noteq> 0) \<and>
     (sim_device_state d = DS_DRAINING \<longrightarrow> sim_pending d) \<and> (sim_pending d \<longrightarrow> sim_device_state d \<noteq> DS_STOPPED)"

definition config_inv :: "sim_state \<Rightarrow> bool" where
  "config_inv d \<longleftrightarrow> (\<exists>p. capabilities_to_payload (sim_capabilities d) = Inr p) \<and>
     sim_settings d \<in> set (cap_configurations (sim_capabilities d)) \<and> (\<exists>b. ascii_encode (sim_build_id d) 48 = Inr b)"

definition session_inv :: "sim_state \<Rightarrow> bool" where
  "session_inv d \<longleftrightarrow> parser_ok request_parser (sim_parser d) \<and> distinct (sim_recent d) \<and> length (sim_recent d) \<le> 16 \<and>
     (\<forall>q \<in> set (sim_recent d). 0 < q \<and> q < 256 ^ 4)"

definition sim_inv :: "sim_state \<Rightarrow> bool" where
  "sim_inv d \<longleftrightarrow> counters_inv d \<and> lifecycle_inv d \<and> config_inv d \<and> session_inv d"

lemmas sim_inv_defs = sim_inv_def counters_inv_def lifecycle_inv_def config_inv_def session_inv_def stream_inv_def in_flight_def

section \<open>Values of successful replies\<close>

lemma fields_in_range_replicate:
  "fields_in_range (replicate n w) vs \<longleftrightarrow> length vs = n \<and> (\<forall>v \<in> set vs. 0 \<le> v \<and> v < 256 ^ w)"
proof (induction n arbitrary: vs)
  case (Suc n)
  then show ?case by (cases vs) auto
qed (auto split: list.splits simp: fields_in_range.simps elim: fields_in_range.elims)

lemma clocks_for_profile_total:
  "\<exists>k b. clocks_for_profile p = Inr k \<and> cl_cpu_profile k = p \<and> clocks_to_bytes k = Inr b"
proof (cases p)
  case CPU_600MHZ
  have "case clocks_for_profile CPU_600MHZ of Inr k \<Rightarrow> cl_cpu_profile k = CPU_600MHZ \<and>
      (case clocks_to_bytes k of Inr b \<Rightarrow> True | Inl e \<Rightarrow> False) | Inl e \<Rightarrow> False" by code_simp
  then show ?thesis using CPU_600MHZ by (auto split: sum.splits)
next
  case CPU_450MHZ
  have "case clocks_for_profile CPU_450MHZ of Inr k \<Rightarrow> cl_cpu_profile k = CPU_450MHZ \<and>
      (case clocks_to_bytes k of Inr b \<Rightarrow> True | Inl e \<Rightarrow> False) | Inl e \<Rightarrow> False" by code_simp
  then show ?thesis using CPU_450MHZ by (auto split: sum.splits)
qed

lemma configurations_encode:
  "capabilities_to_payload c = Inr p \<Longrightarrow> s \<in> set (cap_configurations c) \<Longrightarrow> \<exists>b. settings_to_bytes s = Inr b"
  by (auto simp: capabilities_to_payload_eq_Inr caps_wire_def map_res_eq_Inr in_set_conv_nth)

lemma sim_info_total:
  assumes "ascii_encode (sim_build_id d) 48 = Inr b"
  shows "\<exists>v p. sim_info d = Inr v \<and> info_to_payload v = Inr p"
proof -
  obtain k kb where k: "clocks_for_profile (st_cpu_profile (sim_settings d)) = Inr k" "clocks_to_bytes k = Inr kb"
    using clocks_for_profile_total by blast
  have "case ascii_encode ''SIM-TEENSY40-V3'' 32 of Inr x \<Rightarrow> True | Inl e \<Rightarrow> False"
    "case ascii_encode ''0.3.0-sim'' 16 of Inr x \<Rightarrow> True | Inl e \<Rightarrow> False" by code_simp+
  then obtain x y where xy: "ascii_encode ''SIM-TEENSY40-V3'' 32 = Inr x" "ascii_encode ''0.3.0-sim'' 16 = Inr y"
    by (auto split: sum.splits)
  obtain sc where "struct_pack INFO_SCALARS_FORMAT [0, 0, 0, BoardId_value BOARD_TEENSY_40, McuId_value MCU_IMXRT1062, 1, 3, 12, 0] = Some sc"
    using struct_pack_Some_iff [of INFO_SCALARS_FORMAT "[0, 0, 0, BoardId_value BOARD_TEENSY_40, McuId_value MCU_IMXRT1062, 1, 3, 12, 0]"]
    by (auto simp: INFO_SCALARS_FORMAT_def)
  then show ?thesis using k xy assms by (simp add: sim_info_def info_to_payload_def require_def pack_def)
qed

lemma stop_value_total:
  assumes "0 \<le> run" "run < 256 ^ 4" "st \<noteq> DS_STOPPED \<longrightarrow> run \<noteq> 0" "st = DS_DRAINING \<longrightarrow> pending" "pending \<longrightarrow> st \<noteq> DS_STOPPED"
  shows "\<exists>p. stop_to_payload \<lparr>sp_state = st, sp_run_id = run, sp_pending_frames = of_bool pending\<rparr> = Inr p"
proof -
  have "fields_in_range STOP_RESPONSE_FORMAT [0, 0, 0, DeviceState_value st, 0, 0, run, of_bool pending]"
    using assms DeviceState_value_range [of st] by (simp add: STOP_RESPONSE_FORMAT_def)
  then obtain p where "struct_pack STOP_RESPONSE_FORMAT [0, 0, 0, DeviceState_value st, 0, 0, run, of_bool pending] = Some p"
    using struct_pack_Some_iff by blast
  then show ?thesis using assms by (auto simp: stop_to_payload_def pack_def require_def)
qed

lemma sim_status_total:
  assumes "counters_inv d" "lifecycle_inv d"
  shows "\<exists>p. status_to_payload (sim_status d) = Inr p"
proof -
  obtain p where p: "stop_to_payload (ss_stop (sim_status d)) = Inr p"
    using assms(2) stop_value_total [of "sim_run_id d" "sim_device_state d" "sim_pending d"] by (auto simp: sim_status_def lifecycle_inv_def)
  have c: "dropped_within_produced (status_counts (sim_status d))"
    using assms(1) by (simp add: sim_status_def status_counts_def counters_inv_def stream_inv_def)
  have small: "int (sim_frames d ! i) < 256 ^ 8 \<and> int (sim_items d ! i) < 256 ^ 8 \<and>
      int (sim_frames_dropped d ! i) < 256 ^ 8 \<and> int (sim_items_dropped d ! i) < 256 ^ 8" if "i < 2" for i
  proof -
    have "stream_inv d i" using assms(1) that by (auto simp: counters_inv_def less_Suc_eq numeral_2_eq_2)
    then show ?thesis by (auto simp: stream_inv_def)
  qed
  have z: "status_validity (replicate 37 None) = 0" by code_simp
  have "fields_in_range status_words (status_counts (sim_status d) @
        map (\<lambda>v. case v of None \<Rightarrow> 0 | Some x \<Rightarrow> x) (ss_diagnostics (sim_status d)) @ [status_validity (ss_diagnostics (sim_status d))])"
    using small [of 0] small [of 1] z by (simp add: status_words_def fields_in_range_replicate status_counts_def sim_status_def)
  then obtain b where "struct_pack status_words (status_counts (sim_status d) @
        map (\<lambda>v. case v of None \<Rightarrow> 0 | Some x \<Rightarrow> x) (ss_diagnostics (sim_status d)) @ [status_validity (ss_diagnostics (sim_status d))]) = Some b"
    using struct_pack_Some_iff by blast
  then show ?thesis using p c by (simp add: status_to_payload_def pack_def require_def)
qed

lemma applied_value_total:
  assumes "settings_to_bytes s = Inr b" "clocks_for_profile (st_cpu_profile s) = Inr k"
  shows "\<exists>p. applied_to_payload \<lparr>ap_settings = s, ap_clocks = k\<rparr> = Inr p"
  using clocks_for_profile_total [of "st_cpu_profile s"] assms by (auto simp: applied_to_payload_def require_def)

section \<open>Every request is answered\<close>

text \<open>\<open>answers d kind request reply\<close>: the bytes are a response to that request, in the device's current run.\<close>

definition answers :: "sim_state \<Rightarrow> int \<Rightarrow> int \<Rightarrow> bytes \<Rightarrow> bool" where
  "answers d kind request reply \<longleftrightarrow> (\<exists>f r. decode_v3_frame reply = Inr f \<and> decode_v3_response f = Inr r \<and>
     rp_request_id r = request \<and> rp_run_id r = sim_run_id d \<and>
     rp_kind r = (case CommandKind_of_int kind of Some ck \<Rightarrow> COMMAND_RESPONSE_KINDS ck | None \<Rightarrow> FK_ERROR_RESPONSE))"

lemma sim_reply_answers: "sim_reply d kind request v e = Inr w \<Longrightarrow> answers d kind request w"
  unfolding sim_reply_def answers_def using response_roundtrip by fastforce

lemma command_response_kinds: "is_response_kind (COMMAND_RESPONSE_KINDS ck)" "COMMAND_RESPONSE_KINDS ck \<noteq> FK_ERROR_RESPONSE"
  by (cases ck; simp add: is_response_kind_def)+

lemma sim_reply_error:
  assumes "lifecycle_inv d" "e \<noteq> EC_OK" "0 \<le> kind" "kind < 256" "0 \<le> request" "request < 256 ^ 4"
    "request = 0 \<Longrightarrow> e = EC_INVALID_REQUEST_ID"
  shows "\<exists>w. sim_reply d kind request None e = Inr w"
proof (cases "CommandKind_of_int kind")
  case None
  have "is_response_kind FK_ERROR_RESPONSE" by (simp add: is_response_kind_def)
  from error_response_total [OF this assms(2), of "sim_run_id d" request "Some kind"] show ?thesis
    using assms None by (simp add: sim_reply_def lifecycle_inv_def)
next
  case (Some ck)
  from error_response_total [OF command_response_kinds(1) [of ck] assms(2), of "sim_run_id d" request None] show ?thesis
    using assms Some command_response_kinds(2) by (simp add: sim_reply_def lifecycle_inv_def)
qed

lemma sim_reply_success:
  assumes "lifecycle_inv d" "0 < request" "request < 256 ^ 4" "decode_response_value (COMMAND_RESPONSE_KINDS ck) p = Inr v"
    "ck = CK_START \<Longrightarrow> sim_run_id d \<noteq> 0" "\<And>r. value_run_id v = Some r \<Longrightarrow> r = sim_run_id d"
  shows "\<exists>w. sim_reply d (CommandKind_value ck) request (Some v) EC_OK = Inr w"
proof -
  have "ck = CK_START" if "COMMAND_RESPONSE_KINDS ck = FK_START_RESPONSE" using that by (cases ck) simp_all
  with success_response_total [OF assms(4), of "sim_run_id d" request] assms show ?thesis
    by (simp add: sim_reply_def lifecycle_inv_def)
qed

lemma next_run_id_range: "0 \<le> run \<Longrightarrow> 1 \<le> next_run_id run \<and> next_run_id run < 256 ^ 4"
proof -
  have "(run + 1) AND 0xFFFFFFFF = (run + 1) mod 2 ^ 32"
    using take_bit_eq_mask [of 32 "run + 1"] by (simp add: take_bit_eq_mod mask_eq_exp_minus_1)
  moreover have "0 \<le> (run + 1) mod 2 ^ 32" "(run + 1) mod 2 ^ 32 < 2 ^ 32" by simp_all
  ultimately show ?thesis unfolding next_run_id_def Let_def by auto
qed

lemma counters_reset_epoch: "\<not> sim_pending d \<Longrightarrow> counters_inv (reset_epoch d)"
  by (simp add: sim_inv_defs reset_epoch_def)

lemma counters_inv_cong:
  "counters_inv (d\<lparr>sim_recent := a\<rparr>) = counters_inv d" "counters_inv (d\<lparr>sim_settings := b\<rparr>) = counters_inv d"
  "counters_inv (d\<lparr>sim_device_state := c\<rparr>) = counters_inv d" "counters_inv (d\<lparr>sim_run_id := e\<rparr>) = counters_inv d"
  "counters_inv (d\<lparr>sim_parser := f\<rparr>) = counters_inv d"
  by (simp_all add: sim_inv_defs)

lemma execute_command_ok:
  assumes inv: "sim_inv d" and q: "0 < request" "request < 256 ^ 4"
    and conf: "ck = CK_CONFIGURE \<Longrightarrow> \<exists>s. candidate = Some s \<and> s \<in> set (cap_configurations (sim_capabilities d))"
    and idle: "ck \<in> {CK_CONFIGURE, CK_START} \<Longrightarrow> sim_device_state d = DS_STOPPED \<and> \<not> sim_pending d"
  shows "\<exists>d' w. execute_command d ck request candidate = (d', Inr w) \<and> sim_inv d' \<and> answers d' (CommandKind_value ck) request w"
proof -
  have i: "counters_inv d" "lifecycle_inv d" "config_inv d" "session_inv d" using inv by (simp_all add: sim_inv_def)
  obtain caps where caps: "capabilities_to_payload (sim_capabilities d) = Inr caps"
    and mem: "sim_settings d \<in> set (cap_configurations (sim_capabilities d))"
    and build: "\<exists>b. ascii_encode (sim_build_id d) 48 = Inr b" using i(3) by (auto simp: config_inv_def)
  let ?kind = "CommandKind_value ck"
  have applied: "\<exists>w. bind_res (clocks_for_profile (st_cpu_profile (sim_settings d1))) (\<lambda>clocks.
      sim_reply d1 ?kind request (Some (AppliedValue \<lparr>ap_settings = sim_settings d1, ap_clocks = clocks\<rparr>)) EC_OK) = Inr w
      \<and> answers d1 ?kind request w"
    if life1: "lifecycle_inv d1" and mem1: "sim_settings d1 \<in> set (cap_configurations (sim_capabilities d))"
      and start1: "ck = CK_START \<Longrightarrow> sim_run_id d1 \<noteq> 0"
      and kind1: "COMMAND_RESPONSE_KINDS ck \<in> {FK_CONFIGURE_RESPONSE, FK_START_RESPONSE, FK_GET_SETTINGS_RESPONSE}" for d1
  proof -
    obtain k where k: "clocks_for_profile (st_cpu_profile (sim_settings d1)) = Inr k" using clocks_for_profile_total by blast
    obtain b where "settings_to_bytes (sim_settings d1) = Inr b" using configurations_encode [OF caps mem1] by blast
    from applied_value_total [OF this k] obtain p where "applied_from_payload p = Inr \<lparr>ap_settings = sim_settings d1, ap_clocks = k\<rparr>"
      by (auto simp: applied_from_payload_iff)
    then have "decode_response_value (COMMAND_RESPONSE_KINDS ck) p = Inr (AppliedValue \<lparr>ap_settings = sim_settings d1, ap_clocks = k\<rparr>)"
      using kind1 by (auto simp: decode_response_value_def)
    from sim_reply_success [OF life1 q this] start1 k show ?thesis using sim_reply_answers by fastforce
  qed
  show ?thesis
  proof (cases ck)
    case CK_INFO
    obtain v p where v: "sim_info d = Inr v" "info_to_payload v = Inr p" using sim_info_total build by blast
    then have "decode_response_value (COMMAND_RESPONSE_KINDS ck) p = Inr (InfoValue v)"
      using CK_INFO by (simp add: decode_response_value_def info_from_payload_iff [symmetric])
    from sim_reply_success [OF i(2) q this] obtain w where "sim_reply d ?kind request (Some (InfoValue v)) EC_OK = Inr w" using CK_INFO by auto
    then show ?thesis using CK_INFO v(1) inv sim_reply_answers by (simp add: execute_command_def)
  next
    case CK_GET_CAPABILITIES
    have "decode_response_value (COMMAND_RESPONSE_KINDS ck) caps = Inr (CapabilitiesValue (sim_capabilities d))"
      using CK_GET_CAPABILITIES caps by (simp add: decode_response_value_def capabilities_from_payload_iff [symmetric])
    from sim_reply_success [OF i(2) q this] CK_GET_CAPABILITIES show ?thesis
      using inv sim_reply_answers by (fastforce simp: execute_command_def)
  next
    case CK_GET_STATUS
    obtain p where "status_to_payload (sim_status d) = Inr p" using sim_status_total [OF i(1,2)] by blast
    then have "decode_response_value (COMMAND_RESPONSE_KINDS ck) p = Inr (StatusValue (sim_status d))"
      using CK_GET_STATUS by (simp add: decode_response_value_def status_from_payload_iff [symmetric])
    from sim_reply_success [OF i(2) q this] CK_GET_STATUS show ?thesis
      using inv sim_reply_answers by (fastforce simp: execute_command_def sim_status_def)
  next
    case CK_STOP
    let ?st = "if sim_pending d then DS_DRAINING else DS_STOPPED"
    let ?d = "d\<lparr>sim_device_state := ?st\<rparr>"
    have life: "lifecycle_inv ?d" using i(2) by (auto simp: lifecycle_inv_def)
    then have inv': "sim_inv ?d" using i by (simp add: sim_inv_def counters_inv_cong config_inv_def session_inv_def)
    let ?v = "\<lparr>sp_state = ?st, sp_run_id = sim_run_id d, sp_pending_frames = of_bool (sim_pending d)\<rparr>"
    obtain p where "stop_to_payload ?v = Inr p"
      using life stop_value_total [of "sim_run_id d" ?st "sim_pending d"] by (auto simp: lifecycle_inv_def)
    then have "decode_response_value (COMMAND_RESPONSE_KINDS ck) p = Inr (StopValue ?v)"
      using CK_STOP by (simp add: decode_response_value_def stop_from_payload_iff [symmetric] require_def)
    from sim_reply_success [OF life q this] CK_STOP obtain w where "sim_reply ?d ?kind request (Some (StopValue ?v)) EC_OK = Inr w" by auto
    then show ?thesis using CK_STOP inv' sim_reply_answers by (simp add: execute_command_def Let_def)
  next
    case CK_CONFIGURE
    then obtain s where s: "candidate = Some s" "s \<in> set (cap_configurations (sim_capabilities d))" using conf by blast
    let ?d = "d\<lparr>sim_settings := s\<rparr>"
    have life: "lifecycle_inv ?d" using i(2) by (auto simp: lifecycle_inv_def)
    then have inv': "sim_inv ?d" using i s by (simp add: sim_inv_def counters_inv_cong config_inv_def session_inv_def)
    from applied [OF life] s CK_CONFIGURE show ?thesis using inv' by (simp add: execute_command_def Let_def)
  next
    case CK_START
    let ?d = "(reset_epoch (d\<lparr>sim_run_id := next_run_id (sim_run_id d)\<rparr>))\<lparr>sim_device_state := DS_RUNNING\<rparr>"
    have np: "\<not> sim_pending d" using idle CK_START by simp
    have run: "1 \<le> next_run_id (sim_run_id d) \<and> next_run_id (sim_run_id d) < 256 ^ 4"
      using i(2) by (intro next_run_id_range) (simp add: lifecycle_inv_def)
    then have life: "lifecycle_inv ?d" using np by (auto simp: lifecycle_inv_def reset_epoch_def)
    have "counters_inv ?d" using np counters_reset_epoch by (simp add: counters_inv_cong)
    then have inv': "sim_inv ?d" using i life by (simp add: sim_inv_def config_inv_def session_inv_def reset_epoch_def)
    have "sim_settings ?d = sim_settings d" "sim_run_id ?d \<noteq> 0" using run by (simp_all add: reset_epoch_def)
    from applied [OF life] this mem CK_START show ?thesis using inv' by (simp add: execute_command_def Let_def)
  next
    case CK_GET_SETTINGS
    from applied [OF i(2) mem] CK_GET_SETTINGS show ?thesis using inv by (simp add: execute_command_def Let_def)
  qed
qed

lemma remember_inv:
  assumes "sim_inv d" "0 < request" "request < 256 ^ 4" "request \<notin> set (sim_recent d)"
  shows "sim_inv (remember request d)"
proof -
  let ?ids = "sim_recent d @ [request]"
  have "distinct ?ids" using assms by (simp add: sim_inv_def session_inv_def)
  then have "distinct (drop (length ?ids - 16) ?ids)" by (rule distinct_drop)
  moreover have "set (drop (length ?ids - 16) ?ids) \<subseteq> insert request (set (sim_recent d))"
    using set_drop_subset [of "length ?ids - 16" ?ids] by simp
  moreover have "length (drop (length ?ids - 16) ?ids) \<le> 16" by (simp only: length_drop)
  ultimately have "session_inv (remember request d)"
    using assms unfolding sim_inv_def session_inv_def remember_def Let_def by auto
  then show ?thesis using assms(1)
    by (simp add: sim_inv_def counters_inv_cong config_inv_def lifecycle_inv_def remember_def Let_def)
qed

lemma remember_keeps [simp]:
  "sim_capabilities (remember q d) = sim_capabilities d" "sim_device_state (remember q d) = sim_device_state d"
  "sim_pending (remember q d) = sim_pending d" "sim_run_id (remember q d) = sim_run_id d"
  "sim_settings (remember q d) = sim_settings d" "sim_max_requests (remember q d) = sim_max_requests d"
  "sim_max_receive_bytes (remember q d) = sim_max_receive_bytes d"
  by (simp_all add: remember_def Let_def)

lemma error_code_not_ok: "error_code e \<noteq> EC_OK" if "e \<in> {INVALID, UNSUPPORTED}"
  using that by auto

lemma settings_from_bytes_raises: "settings_from_bytes b = Inl e \<Longrightarrow> e \<in> {INVALID, UNSUPPORTED}"
proof -
  have "raises_only {INVALID, UNSUPPORTED} (settings_from_bytes b)"
    unfolding settings_from_bytes_def bounded_bytes_def V3Settings_new_def settings_to_bytes_def pack_def Let_def
    by (intro raises_intros; simp)
  then show "settings_from_bytes b = Inl e \<Longrightarrow> ?thesis" by (simp add: raises_only_def)
qed

lemma require_supported_raises:
  "capabilities_to_payload c = Inr p \<Longrightarrow> settings_to_bytes s = Inr b \<Longrightarrow> require_supported c s = Inl e \<Longrightarrow> e = UNSUPPORTED"
  by (simp add: require_supported_def require_def split: if_splits)

lemma request_candidate_cases:
  assumes "config_inv d"
  shows "case request_candidate d ck payload of Inl e \<Rightarrow> e \<noteq> EC_OK
     | Inr (candidate, unsupported) \<Rightarrow> (ck = CK_CONFIGURE \<and> \<not> unsupported \<longrightarrow>
         (\<exists>s. candidate = Some s \<and> s \<in> set (cap_configurations (sim_capabilities d)) \<and> settings_from_bytes payload = Inr s))"
proof (cases "ck = CK_CONFIGURE")
  case True
  obtain p where p: "capabilities_to_payload (sim_capabilities d) = Inr p" using assms by (auto simp: config_inv_def)
  show ?thesis
  proof (cases "settings_from_bytes payload")
    case (Inl e)
    then show ?thesis using True settings_from_bytes_raises [OF Inl] by (auto simp: request_candidate_def)
  next
    case (Inr s)
    then have b: "settings_to_bytes s = Inr payload" by (simp add: settings_from_bytes_iff)
    show ?thesis
    proof (cases "require_supported (sim_capabilities d) s")
      case (Inl e)
      then show ?thesis using True Inr require_supported_raises [OF p b Inl] by (simp add: request_candidate_def)
    next
      case sup: (Inr u)
      then have "s \<in> set (cap_configurations (sim_capabilities d))" by (auto simp: require_supported_def res_simps)
      then show ?thesis using True Inr sup by (simp add: request_candidate_def)
    qed
  qed
qed (simp add: request_candidate_def)

abbreviation "wire_kind w \<equiv> struct_unpack HEADER_FORMAT w ! 2"
abbreviation "wire_request w \<equiv> struct_unpack HEADER_FORMAT w ! 11"

lemma handle_request_ok:
  assumes inv: "sim_inv d" and w: "request_wire w"
  shows "\<exists>d' reply. handle_request d w busy = (d', Inr reply) \<and> sim_inv d' \<and> answers d' (wire_kind w) (wire_request w) reply"
proof -
  let ?f = "struct_unpack HEADER_FORMAT w" and ?kind = "wire_kind w" and ?q = "wire_request w"
  note f = request_wire_fields [OF w]
  have err: "\<exists>reply. sim_reply d1 ?kind ?q None e = Inr reply \<and> answers d1 ?kind ?q reply"
    if "sim_inv d1" "e \<noteq> EC_OK" "?q = 0 \<Longrightarrow> e = EC_INVALID_REQUEST_ID" for d1 e
    using sim_reply_error [of d1 e ?kind ?q] f that sim_reply_answers by (fastforce simp: sim_inv_def)
  have mem: "sim_inv (remember ?q d)" if "?q \<noteq> 0" "?q \<notin> set (sim_recent d)"
    using remember_inv [OF inv _ f(5) that(2)] f(4) that(1) by simp
  show ?thesis
  proof (cases "CommandKind_of_int ?kind")
    case None
    let ?d = "if ?q \<noteq> 0 \<and> ?q \<notin> set (sim_recent d) then remember ?q d else d"
    have "sim_inv ?d" using mem inv by simp
    from err [OF this, of "if ?q \<noteq> 0 then EC_UNKNOWN_FRAME_KIND else EC_INVALID_REQUEST_ID"] this None show ?thesis
      by (auto simp: handle_request_def Let_def)
  next
    case (Some ck)
    then have kind: "?kind = CommandKind_value ck" using CommandKind_of_int_Some by metis
    show ?thesis
    proof (cases "?q = 0 \<or> ?q \<in> set (sim_recent d)")
      case True
      with err [OF inv, of EC_INVALID_REQUEST_ID] inv Some show ?thesis by (auto simp: handle_request_def Let_def)
    next
      case False
      let ?d = "remember ?q d"
      have invd: "sim_inv ?d" using mem False by simp
      have refuse: "\<exists>d' reply. (?d, sim_reply ?d ?kind ?q None e) = (d', Inr reply) \<and> sim_inv d' \<and> answers d' ?kind ?q reply"
        if "e \<noteq> EC_OK" for e
        using err [OF invd that] False invd by auto
      let ?c = "request_candidate ?d ck (py_slice 44 (length w - 4) w)"
      have cand: "case ?c of Inl e \<Rightarrow> e \<noteq> EC_OK | Inr (candidate, unsupported) \<Rightarrow> (ck = CK_CONFIGURE \<and> \<not> unsupported \<longrightarrow>
         (\<exists>s. candidate = Some s \<and> s \<in> set (cap_configurations (sim_capabilities ?d)) \<and>
           settings_from_bytes (py_slice 44 (length w - 4) w) = Inr s))"
        using request_candidate_cases [of ?d ck "py_slice 44 (length w - 4) w"] invd by (simp add: sim_inv_def)
      have exec: "\<exists>d' reply. execute_command ?d ck ?q candidate = (d', Inr reply) \<and> sim_inv d' \<and> answers d' ?kind ?q reply"
        if "?c = Inr (candidate, False)" "\<not> (ck \<in> {CK_CONFIGURE, CK_START} \<and> sim_device_state ?d = DS_RUNNING)"
          "\<not> (ck \<in> {CK_CONFIGURE, CK_START} \<and> (sim_device_state ?d = DS_DRAINING \<or> sim_pending ?d))" for candidate
        using execute_command_ok [OF invd, of ?q ck candidate] f(4,5) False that cand DeviceState.exhaust kind by auto
      show ?thesis
        unfolding handle_request_def Let_def Some option.case
        using False refuse exec cand by (auto split: sum.splits)
    qed
  qed
qed

lemma handle_requests_ok:
  "sim_inv d \<Longrightarrow> list_all request_wire ws \<Longrightarrow>
     \<exists>d' replies. handle_requests d i ws = (d', Inr replies) \<and> sim_inv d' \<and>
       list_all2 (\<lambda>w reply. \<exists>d1. answers d1 (wire_kind w) (wire_request w) reply) ws replies"
proof (induction ws arbitrary: d i)
  case (Cons w ws)
  then obtain d1 reply where h: "handle_request d w (sim_max_requests d \<le> i) = (d1, Inr reply)" "sim_inv d1"
    "answers d1 (wire_kind w) (wire_request w) reply" using handle_request_ok by fastforce
  from Cons.IH [OF h(2), of "Suc i"] Cons.prems h show ?case by auto
qed simp

lemma receive_ok:
  assumes inv: "sim_inv d" and len: "length data \<le> sim_max_receive_bytes d"
  shows "\<exists>d' replies p ws. receive d data = Some (d', Inr replies) \<and> sim_inv d' \<and>
     feed request_parser (sim_parser d) data = Some (Inr (p, ws)) \<and>
     list_all2 (\<lambda>w reply. \<exists>d1. answers d1 (wire_kind w) (wire_request w) reply) ws replies"
proof -
  have ok: "parser_ok request_parser (sim_parser d)" using inv by (simp add: sim_inv_def session_inv_def)
  obtain p ws where f: "feed request_parser (sim_parser d) data = Some (Inr (p, ws))" "parser_ok request_parser p"
    using req.feed_contract [OF ok, of data] by metis
  have "list_all request_wire ws"
    using req.feed_accepted [OF ok f(1)] accepted_request_wire by (auto simp: list_all_iff)
  moreover have "sim_inv (d\<lparr>sim_parser := p\<rparr>)"
    using inv f(2) by (simp add: sim_inv_def counters_inv_cong config_inv_def session_inv_def lifecycle_inv_def)
  ultimately obtain d' replies where "handle_requests (d\<lparr>sim_parser := p\<rparr>) 0 ws = (d', Inr replies)" "sim_inv d'"
    "list_all2 (\<lambda>w reply. \<exists>d1. answers d1 (wire_kind w) (wire_request w) reply) ws replies"
    using handle_requests_ok by blast
  then show ?thesis using f(1) len by (auto simp: receive_def)
qed

section \<open>The other operations keep the invariant\<close>

lemma set_pending_False_inv: "sim_inv d \<Longrightarrow> sim_inv (set_transport_pending_data False d)"
  by (auto simp: sim_inv_defs set_transport_pending_data_def Let_def)

lemma record_transport_error_inv: "sim_inv d \<Longrightarrow> sim_inv (record_transport_error d)"
  by (simp add: sim_inv_defs record_transport_error_def)

lemma begin_host_session_inv: "sim_inv d \<Longrightarrow> sim_inv (begin_host_session d)"
proof -
  assume inv: "sim_inv d"
  then have "parser_ok request_parser (reset_session (sim_parser d))"
    using req.parser_ok_reset(2) [of "sim_parser d"] by (simp add: sim_inv_def session_inv_def parser_ok_def parser_inv_def)
  then show ?thesis using inv
    by (simp add: sim_inv_def session_inv_def lifecycle_inv_def config_inv_def counters_inv_cong begin_host_session_def)
qed

lemma reboot_inv:
  assumes "sim_inv d"
  shows "sim_inv (reboot d)"
proof -
  have "cap_defaults (sim_capabilities d) \<in> set (cap_configurations (sim_capabilities d))"
    using assms by (auto simp: sim_inv_def config_inv_def capabilities_to_payload_eq_Inr caps_consistent_def)
  then show ?thesis using assms req.parser_ok_reset(1)
    by (simp add: sim_inv_defs reboot_def reset_epoch_def Let_def)
qed

lemma discard_transport_data_inv:
  assumes inv: "sim_inv d"
  shows "sim_inv (discard_transport_data d)"
proof (cases "sim_pending d")
  case False
  then have "discard_transport_data d = set_transport_pending_data False d" by (simp add: discard_transport_data_def)
  then show ?thesis using set_pending_False_inv [OF inv] by simp
next
  case True
  let ?s = "sim_last_stream d"
  let ?d = "d\<lparr>sim_frames_dropped := (sim_frames_dropped d)[?s := min (sim_frames_dropped d ! ?s + 1) U64_MAX],
          sim_items_dropped := (sim_items_dropped d)[?s := min (sim_items_dropped d ! ?s + sim_last_item_count d) U64_MAX],
          sim_gap_before := (sim_gap_before d)[?s := True],
          sim_epoch_start := (sim_epoch_start d)[?s := sim_last_epoch_start d]\<rparr>"
  have "counters_inv d" using inv by (simp add: sim_inv_def)
  then have lens: "length (sim_frames_dropped d) = 2" "length (sim_items_dropped d) = 2" and s: "?s < 2"
    and si: "stream_inv d 0" "stream_inv d 1" by (simp_all add: counters_inv_def)
  have "stream_inv (set_transport_pending_data False ?d) i" if "i < 2" for i
  proof -
    have "stream_inv d i" using si that by (auto simp: less_Suc_eq numeral_2_eq_2)
    then show ?thesis using True lens s that
      by (cases "i = ?s") (auto simp: stream_inv_def in_flight_def set_transport_pending_data_def Let_def)
  qed
  then have "stream_inv (set_transport_pending_data False ?d) 0" "stream_inv (set_transport_pending_data False ?d) 1" by simp_all
  then have "counters_inv (set_transport_pending_data False ?d)"
    using \<open>counters_inv d\<close> by (simp add: counters_inv_def) (simp add: set_transport_pending_data_def Let_def)
  moreover have "lifecycle_inv (set_transport_pending_data False ?d) \<and> config_inv (set_transport_pending_data False ?d) \<and>
      session_inv (set_transport_pending_data False ?d)"
    using inv by (auto simp: sim_inv_def lifecycle_inv_def config_inv_def session_inv_def set_transport_pending_data_def Let_def)
  ultimately show ?thesis using True by (simp add: sim_inv_def discard_transport_data_def Let_def)
qed

section \<open>Data frame production\<close>

lemma settings_shape:
  assumes "settings_to_bytes s = Inr b"
  shows "st_gpio_width_bits s = 8 \<and> st_aux_bank_mode s = AUX_DISABLED \<or> st_gpio_width_bits s = 16 \<and> st_aux_bank_mode s = AUX_INPUT"
    "1 \<le> st_stream_mask s" "st_stream_mask s \<le> 3"
proof -
  have all: "\<forall>b \<in> set SELECTABLE_CONFIGURATIONS. case settings_from_bytes b of Inl e \<Rightarrow> False
     | Inr s \<Rightarrow> (st_gpio_width_bits s = 8 \<and> st_aux_bank_mode s = AUX_DISABLED \<or> st_gpio_width_bits s = 16 \<and> st_aux_bank_mode s = AUX_INPUT)
         \<and> 1 \<le> st_stream_mask s \<and> st_stream_mask s \<le> 3" by code_simp
  have "b \<in> set SELECTABLE_CONFIGURATIONS" using assms by (auto simp: settings_to_bytes_def res_simps)
  from bspec [OF all this] assms show
    "st_gpio_width_bits s = 8 \<and> st_aux_bank_mode s = AUX_DISABLED \<or> st_gpio_width_bits s = 16 \<and> st_aux_bank_mode s = AUX_INPUT"
    "1 \<le> st_stream_mask s" "st_stream_mask s \<le> 3" by (simp_all add: settings_from_bytes_iff [symmetric])
qed

lemma stream_list_cases:
  assumes "1 \<le> st_stream_mask s" "st_stream_mask s \<le> 3"
  shows "stream_list s \<noteq> []" "set (stream_list s) \<subseteq> {0, 1}"
proof -
  have "st_stream_mask s \<in> {1, 2, 3}" using assms by auto
  then show "stream_list s \<noteq> []" "set (stream_list s) \<subseteq> {0, 1}" by (auto simp: stream_list_def)
qed

lemma iter_unpack_pairs_raw:
  "\<forall>(a, b) \<in> set ps. 0 \<le> a \<and> a \<le> 4095 \<and> 0 \<le> b \<and> b \<le> 4095 \<Longrightarrow> iter_unpack_pairs (concat (map adc_raw_pair ps)) = ps"
proof (induction ps)
  case (Cons p ps)
  obtain a b where p: "p = (a, b)" by force
  have two: "\<exists>x y. le_bytes 2 v = [x, y]" for v by (simp add: numeral_2_eq_2)
  then obtain x y u v where bs: "le_bytes 2 a = [x, y]" "le_bytes 2 b = [u, v]" by blast
  have "le_int [x, y] = a" "le_int [u, v] = b"
    using le_int_le_bytes_id [of a 2] le_int_le_bytes_id [of b 2] Cons.prems by (auto simp: p bs)
  then show ?case using Cons by (simp add: p adc_raw_pair_def bs)
qed simp

lemma iter_unpack_words_raw: "\<forall>v \<in> set vs. 0 \<le> v \<and> v < 2 ^ 16 \<Longrightarrow> iter_unpack_words (concat (map (le_bytes 2) vs)) = vs"
proof (induction vs)
  case (Cons v vs)
  obtain x y where bs: "le_bytes 2 v = [x, y]" by (simp add: numeral_2_eq_2)
  have "le_int [x, y] = v" using le_int_le_bytes_id [of v 2] Cons.prems by (auto simp: bs)
  then show ?case using Cons by (simp add: bs)
qed simp

lemma uint_bytes_raw: "\<forall>v \<in> set vs. 0 \<le> v \<and> v < 2 ^ 8 \<Longrightarrow> map uint (concat (map (le_bytes 1) vs)) = vs"
  by (induction vs) (auto simp: uint_word_of_int)

lemma gpio_value_range:
  "0 \<le> synthetic_gpio_value k mode pattern \<and> synthetic_gpio_value k mode pattern < 2 ^ (8 * gpio_item_bytes mode)"
proof -
  obtain p a where pa: "synthetic_gpio_bank_bytes k pattern = (p, a)" by force
  have pw: "push_bit n (1 :: int) < 256" if "n < 8" for n
    using that power_strict_increasing [of n 8 "2 :: int"] by (simp add: push_bit_eq_mult)
  have b: "0 \<le> p \<and> p < 256 \<and> 0 \<le> a \<and> a < 256"
    using pa pw [of "k mod 8"] pw [of "(k + 3) mod 8"] by (cases pattern) (auto simp: and_mask_8 split: if_splits)
  have "take_bit 16 (p OR push_bit 8 a) = p OR push_bit 8 a"
  proof -
    have "take_bit 8 p = p" "take_bit 8 a = a" using b by (simp_all add: take_bit_int_eq_self)
    then have "take_bit 16 p = p" "take_bit 16 (push_bit 8 a) = push_bit 8 a"
      using take_bit_take_bit [of 16 8 p] take_bit_push_bit [of 16 8 a] by simp_all
    then show ?thesis by simp
  qed
  then have "0 \<le> p OR push_bit 8 a \<and> p OR push_bit 8 a < 2 ^ 16"
    using take_bit_int_less_exp [of 16 "p OR push_bit 8 a"] take_bit_nonnegative [of 16 "p OR push_bit 8 a"] by simp
  then show ?thesis using b by (simp add: synthetic_gpio_value_def pa gpio_item_bytes_def)
qed

text \<open>The samples a frame carries: the deterministic source at the stream's position.\<close>

definition source_bytes :: "V3Settings \<Rightarrow> nat \<Rightarrow> nat \<Rightarrow> nat \<Rightarrow> nat \<Rightarrow> bytes" where
  "source_bytes s stream first sequence count =
     (if stream = 0 then synthetic_v3_adc_payload first count
      else synthetic_gpio_payload first count (st_aux_bank_mode s) (if sequence mod 2 = 0 then ALL_ZERO else HIGH_TRANSITION))"

definition stream_count :: "V3Settings \<Rightarrow> nat \<Rightarrow> nat" where
  "stream_count s stream = (if stream = 0 then 1012 else if st_gpio_width_bits s = 8 then 4048 else 2024)"

definition stream_kind :: "nat \<Rightarrow> FrameKind" where
  "stream_kind stream = (if stream = 0 then FK_ADC_DATA else FK_GPIO_DATA)"

lemma gpio_payload_nonempty: "decode_data_payload FK_GPIO_DATA p n = Inr dd \<Longrightarrow> 12 < length p"
proof (rule ccontr)
  assume d: "decode_data_payload FK_GPIO_DATA p n = Inr dd" and "\<not> 12 < length p"
  then have p: "drop 12 p = []" "1 \<le> n" "dd_item_bytes dd \<in> {1, 2}" by (simp_all add: decode_data_payload_eq_Inr)
  obtain runs where "decode_samples (dd_encoding dd) FK_GPIO_DATA [] (dd_item_bytes dd) n (n * dd_item_bytes dd) runs = Inr (dd_payload dd)"
    using d p(1) by (auto simp: decode_data_payload_eq_Inr)
  then show False using p(2,3)
    by (cases "dd_encoding dd") (auto simp: decode_samples_def decode_raw_def decode_pack12_def decode_rle_def require_eq_Inr)
qed

text \<open>The encoding that the settings ask for.\<close>

definition stream_encoding_ok :: "V3Settings \<Rightarrow> nat \<Rightarrow> V3DecodedData \<Rightarrow> bool" where
  "stream_encoding_ok s stream dd \<longleftrightarrow>
     (if stream = 0 then dd_encoding dd = (if st_adc_policy s = AP_PACK12 then ENC_ADC_PACK12 else ENC_RAW)
      else dd_item_bytes dd * 8 = st_gpio_width_bits s \<and> (st_gpio_policy s = GP_RLE_AUTO \<or> dd_encoding dd = ENC_RAW))"

lemma stream_payload_ok:
  assumes "settings_to_bytes s = Inr b"
  obtains p dd where "stream_payload s stream first sequence = (stream_count s stream, Inr p)"
    "decode_data_payload (stream_kind stream) p (int (stream_count s stream)) = Inr dd"
    "dd_payload dd = source_bytes s stream first sequence (stream_count s stream)" "12 < length p" "length p \<le> 4060"
    "stream_encoding_ok s stream dd"
proof (cases "stream = 0")
  case True
  let ?ps = "map (\<lambda>i. v3_source_pair (first + i)) [0..<1012]"
  have rng: "\<forall>(a, b) \<in> set ?ps. 0 \<le> a \<and> a \<le> 4095 \<and> 0 \<le> b \<and> b \<le> 4095"
  proof (rule ballI)
    fix q assume "q \<in> set ?ps"
    then obtain i where "q = v3_source_pair (first + i)" unfolding set_map by blast
    then show "case q of (a, b) \<Rightarrow> 0 \<le> a \<and> a \<le> 4095 \<and> 0 \<le> b \<and> b \<le> 4095"
      using v3_source_pair_range [of "first + i" "fst q" "snd q"] by (simp add: split_beta)
  qed
  have src: "synthetic_v3_adc_payload first 1012 = concat (map adc_raw_pair ?ps)"
    unfolding v3_adc_payload_pairs map_map comp_def ..
  then have un: "iter_unpack_pairs (synthetic_v3_adc_payload first 1012) = ?ps" using iter_unpack_pairs_raw [OF rng] by simp
  obtain p dd where p: "encode_adc_payload ?ps (st_adc_policy s) = Inr p" "decode_data_payload FK_ADC_DATA p 1012 = Inr dd"
    "dd_payload dd = concat (map adc_raw_pair ?ps)" "dd_encoded_sample_bytes dd = (case st_adc_policy s of AP_PACK12 \<Rightarrow> 3 | AP_RAW \<Rightarrow> 4) * 1012"
    "dd_encoding dd = (case st_adc_policy s of AP_PACK12 \<Rightarrow> ENC_ADC_PACK12 | AP_RAW \<Rightarrow> ENC_RAW)"
    using adc_roundtrip [of ?ps "st_adc_policy s"] rng unfolding adc_raw_pair_def by (auto simp del: upt_rec_numeral)
  have "12 < length p \<and> length p \<le> 4060"
    using p(2,4) by (auto simp: decode_data_payload_eq_Inr split: AdcPolicy.splits)
  moreover have "stream_payload s stream first sequence = (1012, Inr p)"
    using True p(1) un by (simp add: stream_payload_def del: upt_rec_numeral)
  moreover have "stream_encoding_ok s stream dd" using p(5) True by (cases "st_adc_policy s") (simp_all add: stream_encoding_ok_def)
  ultimately show ?thesis using that [of p dd] p(2,3) src True
    by (simp add: stream_count_def stream_kind_def source_bytes_def del: upt_rec_numeral)
next
  case False
  let ?w = "gpio_item_bytes (st_aux_bank_mode s)" and ?n = "stream_count s stream"
  let ?pat = "if sequence mod 2 = 0 then ALL_ZERO else HIGH_TRANSITION"
  let ?vs = "map (\<lambda>i. synthetic_gpio_value (first + i) (st_aux_bank_mode s) ?pat) [0..<?n]"
  note shape = settings_shape [OF assms]
  have w: "?w = 1 \<or> ?w = 2" "st_gpio_width_bits s = 8 * int ?w" "1 \<le> ?n" "?n \<le> 4048 div ?w"
      "?n = 4048 div (nat (st_gpio_width_bits s) div 8)"
    using shape(1) False by (auto simp: gpio_item_bytes_def stream_count_def)
  have rng: "\<forall>v \<in> set ?vs. 0 \<le> v \<and> v < 2 ^ (8 * ?w)" using gpio_value_range by auto
  let ?raw = "synthetic_gpio_payload first ?n (st_aux_bank_mode s) ?pat"
  have src: "?raw = concat (map (le_bytes ?w) ?vs)"
    unfolding synthetic_gpio_payload_items map_map comp_def ..
  have samples: "(if st_gpio_width_bits s = 8 then map uint ?raw else iter_unpack_words ?raw) = ?vs"
  proof (cases "st_gpio_width_bits s = 8")
    case True
    then have "?w = 1" using w(2) by simp
    then show ?thesis using True uint_bytes_raw [of ?vs] rng src by simp
  next
    case False
    then have "?w = 2" using w(1,2) by auto
    then show ?thesis using False iter_unpack_words_raw [of ?vs] rng src by simp
  qed
  have ln: "1 \<le> length ?vs" "length ?vs \<le> 4048 div ?w" "length ?vs = ?n" using w by auto
  obtain p dd where p: "encode_gpio_payload ?vs (st_gpio_width_bits s) (st_gpio_policy s) = Inr p"
    "decode_data_payload FK_GPIO_DATA p (int ?n) = Inr dd" "dd_payload dd = concat (map (le_bytes ?w) ?vs)"
    "dd_encoding dd = ENC_RAW \<or> st_gpio_policy s = GP_RLE_AUTO" "dd_item_bytes dd = int ?w"
    using gpio_roundtrip [OF w(1) ln(1,2) rng, of "st_gpio_policy s"] unfolding w(2) ln(3) by blast
  have "length p \<le> 4060 \<and> 12 \<le> length p" using p(2) by (simp add: decode_data_payload_eq_Inr)
  moreover have "12 < length p" using gpio_payload_nonempty [OF p(2)] .
  moreover have "stream_payload s stream first sequence = (?n, Inr p)"
    unfolding stream_payload_def Let_def w(5) [symmetric] samples p(1) using False by (simp only: if_False)
  moreover have "stream_encoding_ok s stream dd" using p(4,5) w(2) False by (auto simp: stream_encoding_ok_def)
  ultimately show ?thesis using that [of p dd] p(2,3) src False
    by (simp add: stream_kind_def source_bytes_def)
qed

text \<open>
  What \<^verbatim>\<open>next_data_frame\<close> returns while running: at the end of the 64-bit tick range the run
  stops; otherwise a frame that continues the stream exactly where the previous one ended.
\<close>

definition next_stream :: "sim_state \<Rightarrow> nat" where
  "next_stream d = stream_list (sim_settings d) ! (sim_next_stream d mod length (stream_list (sim_settings d)))"

definition data_flags :: "sim_state \<Rightarrow> nat \<Rightarrow> int" where
  "data_flags d stream = (if sim_epoch_start d ! stream then FLAG_EPOCH_START else 0)
     OR (if sim_gap_before d ! stream then FLAG_GAP_BEFORE else 0)
     OR (if st_source (sim_settings d) = SRC_SYNTHETIC then FLAG_SYNTHETIC else 0)"

definition after_frame :: "sim_state \<Rightarrow> sim_state" where
  "after_frame d = (let stream = next_stream d; count = stream_count (sim_settings d) stream in
     d\<lparr>sim_frames := (sim_frames d)[stream := sim_frames d ! stream + 1],
       sim_items := (sim_items d)[stream := sim_items d ! stream + count],
       sim_gap_before := (sim_gap_before d)[stream := False],
       sim_last_epoch_start := sim_epoch_start d ! stream,
       sim_epoch_start := (sim_epoch_start d)[stream := False],
       sim_last_stream := stream, sim_last_item_count := count,
       sim_next_stream := (sim_next_stream d + 1) mod length (stream_list (sim_settings d))\<rparr>)"

lemma data_flags_valid: "0 \<le> data_flags d i" "data_flags d i < 65536" "data_flags d i AND NOT 15 = 0" "data_flags d i AND FLAG_OVERRUN_BEFORE = 0"
  by (auto simp: data_flags_def)

lemma sim_inv_settings: "sim_inv d \<Longrightarrow> \<exists>b. settings_to_bytes (sim_settings d) = Inr b"
  using configurations_encode by (auto simp: sim_inv_def config_inv_def)

lemma next_stream_less:
  assumes "sim_inv d"
  shows "next_stream d < 2" "0 < length (stream_list (sim_settings d))"
proof -
  obtain b where "settings_to_bytes (sim_settings d) = Inr b" using sim_inv_settings [OF assms] by blast
  note st = stream_list_cases [OF settings_shape(2,3) [OF this]]
  then show l: "0 < length (stream_list (sim_settings d))" by simp
  then have "next_stream d \<in> set (stream_list (sim_settings d))" by (simp add: next_stream_def)
  with st(2) show "next_stream d < 2" by auto
qed

lemma stream_invD:
  assumes "sim_inv d" "i < 2"
  shows "stream_inv d i"
  using assms by (auto simp: sim_inv_def counters_inv_def less_Suc_eq numeral_2_eq_2)

lemma next_data_frame_ok:
  assumes inv: "sim_inv d" and run: "sim_device_state d = DS_RUNNING" "\<not> sim_pending d"
    and room: "(sim_items d ! next_stream d + stream_count (sim_settings d) (next_stream d)) * 8 \<le> U64_MAX"
  obtains wire f dd where "next_data_frame d = (after_frame d, Inr (Some wire))" "decode_v3_frame wire = Inr f"
    "hdr_kind (fr_header f) = stream_kind (next_stream d)" "hdr_run_id (fr_header f) = sim_run_id d"
    "hdr_sequence (fr_header f) = int (sim_frames d ! next_stream d) mod 2 ^ 32"
    "hdr_first_sample_ticks (fr_header f) = int (sim_items d ! next_stream d) * 8"
    "hdr_item_count (fr_header f) = int (stream_count (sim_settings d) (next_stream d))"
    "hdr_flags (fr_header f) = data_flags d (next_stream d)"
    "decode_data_payload (hdr_kind (fr_header f)) (fr_payload f) (hdr_item_count (fr_header f)) = Inr dd"
    "dd_payload dd = source_bytes (sim_settings d) (next_stream d) (sim_items d ! next_stream d)
       (sim_frames d ! next_stream d) (stream_count (sim_settings d) (next_stream d))"
    "stream_encoding_ok (sim_settings d) (next_stream d) dd"
proof -
  let ?i = "next_stream d" and ?s = "sim_settings d"
  let ?first = "sim_items d ! ?i" and ?seq = "sim_frames d ! ?i" and ?n = "stream_count ?s ?i"
  let ?k = "stream_kind ?i" and ?fl = "data_flags d ?i"
  obtain b where b: "settings_to_bytes ?s = Inr b" using sim_inv_settings [OF inv] by blast
  obtain p dd where p: "stream_payload ?s ?i ?first ?seq = (?n, Inr p)" "decode_data_payload ?k p (int ?n) = Inr dd"
    "dd_payload dd = source_bytes ?s ?i ?first ?seq ?n" "12 < length p" "length p \<le> 4060"
    "stream_encoding_ok ?s ?i dd"
    by (rule stream_payload_ok [OF b])
  have life: "sim_run_id d \<noteq> 0" "0 \<le> sim_run_id d" "sim_run_id d < 256 ^ 4"
    using inv run by (simp_all add: sim_inv_def lifecycle_inv_def)
  define seq where "seq = int ?seq mod 2 ^ 32"
  have seqand: "int ?seq AND 0xFFFFFFFF = seq"
    using take_bit_eq_mask [of 32 "int ?seq"] by (simp add: seq_def take_bit_eq_mod mask_eq_exp_minus_1)
  have seq: "0 \<le> seq" "seq < 256 ^ 4" by (simp_all add: seq_def)
  have cnt: "1 \<le> ?n" "?n \<le> (if ?k = FK_ADC_DATA then 1012 else 4048)" by (auto simp: stream_count_def stream_kind_def)
  have room': "int ?first * 8 + int ?n * 8 \<le> 2 ^ 64 - 1"
  proof -
    have "int ((?first + ?n) * 8) \<le> int U64_MAX" using room by (simp only: of_nat_le_iff)
    then show ?thesis by (simp add: algebra_simps)
  qed
  let ?H = "V3FrameHeader ?k ?fl (48 + int (length p)) (int (length p)) (sim_run_id d) seq 0 (int ?first * 8) (int ?n)"
  have data: "is_data_kind ?k" by (simp add: stream_kind_def)
  have valid: "header_valid ?H"
    using data p(4,5) life cnt room' data_flags_valid [of d ?i]
    by (simp add: header_valid_def check_data_header_def Let_def require_def split: if_splits)
  have range: "fields_in_range HEADER_FORMAT (header_fields ?H)"
    using p(5) life seq cnt room' data_flags_valid(1,2) [of d ?i] FrameKind_value_range [of ?k]
    by (simp add: HEADER_FORMAT_def header_fields_def split: if_splits)
  have pay: "validate_payload \<lparr>fr_header = ?H, fr_payload = p, fr_checksum = 0\<rparr> = Inr ()"
    using data p(2) by (simp add: validate_payload_def Let_def)
  obtain wire where enc: "encode_v3_frame (FrameKind_value ?k) p ?fl (sim_run_id d) seq 0 (int ?first * 8) (int ?n) = Inr wire"
    using encode_v3_frame_total [OF refl data_flags_valid(1) p(5) valid range pay] by blast
  obtain f where f: "decode_v3_frame wire = Inr f" "fr_header f = ?H" "fr_payload f = p"
    using v3_encode_decode [OF enc] data_flags_valid(1) [of d ?i] by auto
  have small: "?seq + 1 \<le> U64_MAX" "?first + ?n \<le> U64_MAX"
  proof -
    show "?first + ?n \<le> U64_MAX" using room by simp
    have "?seq * 1012 \<le> ?first" using stream_invD [OF inv next_stream_less(1) [OF inv]] by (simp add: stream_inv_def)
    then show "?seq + 1 \<le> U64_MAX" using room cnt(1) by simp
  qed
  have "next_data_frame d = (after_frame d, Inr (Some wire))"
    using run p(1) room enc small
    by (simp add: next_data_frame_def Let_def next_stream_def [symmetric] seqand data_flags_def [symmetric]
        stream_kind_def [symmetric] after_frame_def min_absorb1)
  then show thesis using that [of wire f dd] f p(2,3,6) by (simp add: seq_def)
qed

end
