(* ===== verification/V3_Device.thy ===== *)
theory V3_Device
  imports V3_Simulator
begin

text \<open>
  The simulated device as a state machine: construction, the steps its users can take (requests,
  frame production, the transport's delivery reports, reconnects), the states they reach, and
  the properties of those states.
\<close>

section \<open>Construction\<close>

lemma remember_items [simp]: "sim_items (remember q d) = sim_items d"
  by (simp add: remember_def Let_def)

lemma map_res_filter:
  "map_res f xs = Inr ys \<Longrightarrow> \<exists>zs. map_res f (filter P xs) = Inr zs \<and> length zs = length (filter P xs)"
proof -
  assume m: "map_res f xs = Inr ys"
  have "\<exists>y. f x = Inr y" if "x \<in> set (filter P xs)" for x
    using that m by (auto simp: map_res_eq_Inr in_set_conv_nth)
  then obtain zs where "map_res f (filter P xs) = Inr zs" using map_res_total by blast
  then show ?thesis using map_res_length by fastforce
qed

lemma map_sum_Inr: "map_sum f id m = Inr x \<longleftrightarrow> m = Inr x"
  by (cases m) auto

lemma sim_restrict_ok:
  assumes c: "capabilities_to_payload c = Inr p"
  shows "\<exists>q. capabilities_to_payload (sim_restrict c) = Inr q"
proof -
  let ?cpu = "st_cpu_profile (cap_defaults c)" and ?r = "sim_restrict c"
  obtain cpus rates settings dflt scalars where con: "caps_consistent c" and w: "caps_wire c cpus rates settings dflt scalars"
    using c unfolding capabilities_to_payload_eq_Inr by blast
  have r: "cap_limits ?r = cap_limits c" "cap_defaults ?r = cap_defaults c" "cap_rate_profiles ?r = cap_rate_profiles c"
    "cap_cpu_profiles ?r = filter (\<lambda>p. cl_cpu_profile p = ?cpu) (cap_cpu_profiles c)"
    "cap_configurations ?r = filter (\<lambda>s. st_cpu_profile s = ?cpu) (cap_configurations c)"
    by (simp_all add: sim_restrict_def Let_def cap_limits_def)
  have con': "caps_consistent ?r" using con unfolding caps_consistent_def r list_all_iff by (force simp: image_iff)
  have m: "map_res clocks_to_bytes (cap_cpu_profiles c) = Inr cpus" "map_res settings_to_bytes (cap_configurations c) = Inr settings"
    "distinct cpus" "distinct settings" "length cpus \<le> 2" "length settings \<le> 64" using w by (simp_all add: caps_wire_def)
  obtain cpus' where k: "map_res clocks_to_bytes (cap_cpu_profiles ?r) = Inr cpus'" "length cpus' = length (cap_cpu_profiles ?r)"
    using map_res_filter [OF m(1)] unfolding r by blast
  obtain settings' where s: "map_res settings_to_bytes (cap_configurations ?r) = Inr settings'" "length settings' = length (cap_configurations ?r)"
    using map_res_filter [OF m(2)] unfolding r by blast
  have dist: "distinct cpus'" "distinct settings'"
    using clocks_codec.enc_all_distinct [OF m(1)] clocks_codec.enc_all_distinct [OF k(1)]
      settings_codec.enc_all_distinct [OF m(2)] settings_codec.enc_all_distinct [OF s(1)] m(3,4)
    by (simp_all add: r)
  have ub: "length cpus' \<le> 2" "length settings' \<le> 64"
    using k(2) s(2) m(5,6) map_res_length [OF m(1)] map_res_length [OF m(2)] unfolding r
    by (metis length_filter_le order_trans)+
  have dm: "cap_defaults c \<in> set (cap_configurations ?r)" using con' by (simp add: caps_consistent_def r)
  then have lb2: "1 \<le> length settings'" using s(2) by (cases "cap_configurations ?r") auto
  have "?cpu \<in> cl_cpu_profile ` set (cap_cpu_profiles ?r)" using con' dm by (auto simp: caps_consistent_def list_all_iff)
  then have lb1: "1 \<le> length cpus'" using k(2) by (cases "cap_cpu_profiles ?r") auto
  have "fields_in_range CAPABILITIES_SCALARS_FORMAT ([0, 0, 0, int (length cpus'), int (length rates), int (length settings'), 0] @ cap_limits c)"
  proof -
    have "fields_in_range CAPABILITIES_SCALARS_FORMAT ([0, 0, 0, int (length cpus), int (length rates), int (length settings), 0] @ cap_limits c)"
      using w struct_pack_Some_iff by (auto simp: caps_wire_def)
    then show ?thesis using ub by (simp add: CAPABILITIES_SCALARS_FORMAT_def cap_limits_def)
  qed
  then obtain sc where "struct_pack CAPABILITIES_SCALARS_FORMAT ([0, 0, 0, int (length cpus'), int (length rates), int (length settings'), 0] @ cap_limits c) = Some sc"
    using struct_pack_Some_iff by blast
  then have "caps_wire ?r cpus' rates settings' dflt sc"
    using w k s dist ub lb1 lb2 unfolding caps_wire_def r by simp
  then show ?thesis using con' unfolding capabilities_to_payload_eq_Inr by blast
qed

lemma device_initial:
  assumes "SimulatedV3Device build mr mq = Inr d"
  shows "sim_inv d" "sim_device_state d = DS_STOPPED" "sim_run_id d = 0" "sim_max_receive_bytes d = nat mr" "sim_max_requests d = nat mq"
proof -
  obtain c p where c: "canonical_capabilities = Inr c" "capabilities_to_payload c = Inr p" using canonical_capabilities_wire by blast
  obtain q where q: "capabilities_to_payload (sim_restrict c) = Inr q" using sim_restrict_ok [OF c(2)] by blast
  have dm: "cap_defaults (sim_restrict c) \<in> set (cap_configurations (sim_restrict c))"
    using q by (auto simp: capabilities_to_payload_eq_Inr caps_consistent_def)
  let ?d0 = "sim_allocate build (nat mr) (nat mq) (sim_restrict c)"
  have d: "d = reboot ?d0" and info: "\<exists>v. bind_res (sim_info d) info_to_payload = Inr v"
    using assms unfolding SimulatedV3Device_def c(1) Let_def
    by (auto simp: require_def map_sum_Inr bind_res_eq_Inr split: if_splits)
  have d0: "sim_capabilities ?d0 = sim_restrict c" "sim_build_id ?d0 = build" "sim_parser ?d0 = empty_parser_state"
    "sim_max_receive_bytes ?d0 = nat mr" "sim_max_requests ?d0 = nat mq" by (simp_all add: sim_allocate_def)
  have "\<exists>b. ascii_encode build 48 = Inr b"
    using info d0(2) by (auto simp: d reboot_def reset_epoch_def Let_def sim_info_def res_simps info_to_payload_def)
  then show "sim_inv d" unfolding d
    using q dm d0 req.parser_ok_reset(1) by (simp add: sim_inv_defs reboot_def reset_epoch_def Let_def)
  show "sim_device_state d = DS_STOPPED" "sim_run_id d = 0" "sim_max_receive_bytes d = nat mr" "sim_max_requests d = nat mq"
    using d0 by (simp_all add: d reboot_def reset_epoch_def Let_def)
qed

lemma device_constructible:
  assumes "48 \<le> mr" "0 < mq" "ascii_encode build 48 = Inr b"
  shows "\<exists>d. SimulatedV3Device build mr mq = Inr d"
proof -
  obtain c where c: "canonical_capabilities = Inr c" using canonical_capabilities_wire by blast
  let ?d = "reboot (sim_allocate build (nat mr) (nat mq) (sim_restrict c))"
  have "sim_build_id ?d = build" by (simp add: reboot_def reset_epoch_def Let_def sim_allocate_def)
  then obtain v p where "sim_info ?d = Inr v" "info_to_payload v = Inr p" using sim_info_total [of ?d b] assms(3) by auto
  then show ?thesis using assms(1,2) unfolding SimulatedV3Device_def c Let_def by (simp add: require_def)
qed

section \<open>Steps and reachable states\<close>

lemma after_frame_inv:
  assumes inv: "sim_inv d" and run: "sim_device_state d = DS_RUNNING" "\<not> sim_pending d"
    and room: "(sim_items d ! next_stream d + stream_count (sim_settings d) (next_stream d)) * 8 \<le> U64_MAX"
  shows "sim_inv (after_frame d)" "sim_inv (set_transport_pending_data True (after_frame d))"
proof -
  let ?i = "next_stream d" and ?n = "stream_count (sim_settings d) (next_stream d)"
  have i: "?i < 2" using next_stream_less(1) [OF inv] .
  have n: "1012 \<le> ?n" by (simp add: stream_count_def)
  have ci: "counters_inv d" using inv by (simp add: sim_inv_def)
  have fr: "sim_frames (after_frame d) = (sim_frames d)[?i := sim_frames d ! ?i + 1]"
    "sim_items (after_frame d) = (sim_items d)[?i := sim_items d ! ?i + ?n]"
    "sim_frames_dropped (after_frame d) = sim_frames_dropped d" "sim_items_dropped (after_frame d) = sim_items_dropped d"
    "sim_last_stream (after_frame d) = ?i" "sim_last_item_count (after_frame d) = ?n" "sim_pending (after_frame d) = sim_pending d"
    by (simp_all add: after_frame_def Let_def)
  have st: "stream_inv (after_frame d) j \<and> stream_inv ((after_frame d)\<lparr>sim_pending := True\<rparr>) j" if "j < 2" for j
  proof -
    have "stream_inv d j" by (rule stream_invD [OF inv that])
    then show ?thesis using ci i n room run(2) that
      by (cases "j = ?i") (auto simp: stream_inv_def in_flight_def fr counters_inv_def)
  qed
  have "counters_inv (after_frame d)" "counters_inv ((after_frame d)\<lparr>sim_pending := True\<rparr>)"
    using ci i st [of 0] st [of 1] unfolding counters_inv_def by (simp_all add: after_frame_def Let_def)
  moreover have "lifecycle_inv (after_frame d)" "lifecycle_inv ((after_frame d)\<lparr>sim_pending := True\<rparr>)"
    "config_inv (after_frame d)" "config_inv ((after_frame d)\<lparr>sim_pending := True\<rparr>)"
    "session_inv (after_frame d)" "session_inv ((after_frame d)\<lparr>sim_pending := True\<rparr>)"
    using inv run by (simp_all add: sim_inv_def lifecycle_inv_def config_inv_def session_inv_def after_frame_def Let_def)
  ultimately show "sim_inv (after_frame d)" "sim_inv (set_transport_pending_data True (after_frame d))"
    by (simp_all add: sim_inv_def set_transport_pending_data_def)
qed

lemma next_data_frame_cases:
  assumes inv: "sim_inv d"
  obtains (idle) "next_data_frame d = (d, Inr None)" "sim_device_state d \<noteq> DS_RUNNING \<or> sim_pending d"
  | (limit) "next_data_frame d = (d\<lparr>sim_device_state := DS_STOPPED\<rparr>, Inr None)" "\<not> sim_pending d"
  | (frame) wire where "next_data_frame d = (after_frame d, Inr (Some wire))"
      "sim_device_state d = DS_RUNNING" "\<not> sim_pending d"
      "(sim_items d ! next_stream d + stream_count (sim_settings d) (next_stream d)) * 8 \<le> U64_MAX"
proof (cases "sim_device_state d \<noteq> DS_RUNNING \<or> sim_pending d")
  case True
  then show thesis using idle by (simp add: next_data_frame_def)
next
  case run: False
  show thesis
  proof (cases "(sim_items d ! next_stream d + stream_count (sim_settings d) (next_stream d)) * 8 \<le> U64_MAX")
    case True
    with run next_data_frame_ok [OF inv _ _ True] frame show thesis by metis
  next
    case False
    obtain b where b: "settings_to_bytes (sim_settings d) = Inr b" using sim_inv_settings [OF inv] by blast
    obtain p where "stream_payload (sim_settings d) (next_stream d) (sim_items d ! next_stream d) (sim_frames d ! next_stream d)
        = (stream_count (sim_settings d) (next_stream d), Inr p)"
      using stream_payload_ok [OF b] by metis
    then have "next_data_frame d = (d\<lparr>sim_device_state := DS_STOPPED\<rparr>, Inr None)"
      using run False by (simp add: next_data_frame_def Let_def next_stream_def [symmetric])
    then show thesis using limit run by blast
  qed
qed

text \<open>
  \<^verbatim>\<open>delivered\<close>, \<^verbatim>\<open>closed\<close> and \<^verbatim>\<open>queued\<close> are the transport's reports; \<^verbatim>\<open>direct\<close> is a caller that takes
  whole frames, as the class comment allows.
\<close>

inductive sim_step :: "sim_state \<Rightarrow> sim_state \<Rightarrow> bool" where
  request: "receive d data = Some (d', r) \<Longrightarrow> sim_step d d'"
| queued: "next_data_frame d = (d', Inr (Some wire)) \<Longrightarrow> sim_step d (set_transport_pending_data True d')"
| direct: "next_data_frame d = (d', r) \<Longrightarrow> sim_step d d'"
| delivered: "sim_step d (set_transport_pending_data False d)"
| closed: "sim_step d (discard_transport_data d)"
| reconnect: "sim_step d (begin_host_session d)"
| restart: "sim_step d (reboot d)"
| fault: "sim_step d (record_transport_error d)"

inductive sim_reachable :: "sim_state \<Rightarrow> bool" where
  start: "SimulatedV3Device build mr mq = Inr d \<Longrightarrow> sim_reachable d"
| step: "sim_reachable d \<Longrightarrow> sim_step d d' \<Longrightarrow> sim_reachable d'"

lemma sim_step_inv: "sim_step d d' \<Longrightarrow> sim_inv d \<Longrightarrow> sim_inv d'"
proof (induction rule: sim_step.induct)
  case (request d data d' r)
  then show ?case using receive_ok [of d data] by (cases "length data \<le> sim_max_receive_bytes d") (auto simp: receive_def)
next
  case (queued d d' wire)
  then show ?case using after_frame_inv(2) [of d] by (auto elim!: next_data_frame_cases)
next
  case (direct d d' r)
  show ?case
  proof (rule next_data_frame_cases [OF direct.prems])
    assume l: "next_data_frame d = (d\<lparr>sim_device_state := DS_STOPPED\<rparr>, Inr None)" "\<not> sim_pending d"
    have "sim_inv (d\<lparr>sim_device_state := DS_STOPPED\<rparr>)"
      using direct.prems l(2) by (simp add: sim_inv_def counters_inv_cong lifecycle_inv_def config_inv_def session_inv_def)
    then show ?case using l direct.hyps by simp
  qed (use direct after_frame_inv(1) [of d] in auto)
qed (simp_all add: set_pending_False_inv discard_transport_data_inv begin_host_session_inv reboot_inv record_transport_error_inv)

lemma sim_reachable_inv: "sim_reachable d \<Longrightarrow> sim_inv d"
  by (induction rule: sim_reachable.induct) (auto intro: device_initial(1) sim_step_inv)

section \<open>Commands from the host\<close>

text \<open>What the device reads in a command that the host serialised.\<close>

lemma request_kind_control: "is_request_kind k \<Longrightarrow> \<not> is_data_kind k"
  by (cases k) (simp_all add: is_request_kind_def CommandKind_of_int_def)

lemma command_wire:
  assumes "command_to_bytes c = Inr w"
  obtains payload where "struct_unpack HEADER_FORMAT w = [MAGIC, 3, CommandKind_value (cm_kind c), 0, 44, 1, 0,
      48 + int (length payload), int (length payload), 0, 0, cm_request_id c, 0, 0]"
    "py_slice 44 (length w - 4) w = payload" "length w = 48 + length payload"
    "length payload = (if cm_kind c = CK_CONFIGURE then 20 else 0)"
    "(cm_kind c = CK_CONFIGURE) = (cm_settings c \<noteq> None)" "cm_kind c = CK_CONFIGURE \<Longrightarrow> settings_to_bytes (the (cm_settings c)) = Inr payload"
    "0 < cm_request_id c" "cm_request_id c < 256 ^ 4" "request_wire w" "valid_wire request_parser w w"
proof -
  obtain payload where conf: "(cm_kind c = CK_CONFIGURE) = (cm_settings c \<noteq> None)"
    and pay: "(case cm_settings c of None \<Rightarrow> Inr [] | Some s \<Rightarrow> settings_to_bytes s) = Inr payload"
    and enc: "encode_v3_frame (CommandKind_value (cm_kind c)) payload 0 0 0 (cm_request_id c) 0 0 = Inr w"
    using assms by (auto simp: command_to_bytes_def res_simps)
  from v3_encode_decode [OF enc] obtain fk where fk: "FrameKind_of_int (CommandKind_value (cm_kind c)) = Some fk"
    and len: "length w = 48 + length payload"
    and dec: "decode_v3_frame w = Inr \<lparr>fr_header = V3FrameHeader fk 0 (48 + int (length payload)) (int (length payload)) 0 0
        (cm_request_id c) 0 0, fr_payload = payload, fr_checksum = compute_v3_checksum (take (44 + length payload) w)\<rparr>" by auto
  have kind: "FrameKind_value fk = CommandKind_value (cm_kind c)" using FrameKind_of_int_Some [OF fk] by simp
  note d = dec [unfolded decode_v3_frame_eq_Inr, simplified]
  have fields: "struct_unpack HEADER_FORMAT w = [MAGIC, 3, CommandKind_value (cm_kind c), 0, 44, 1, 0,
      48 + int (length payload), int (length payload), 0, 0, cm_request_id c, 0, 0]"
    using d kind by (simp add: decode_v3_header_eq_Inr header_fields_def)
  have plen: "length payload = (if cm_kind c = CK_CONFIGURE then 20 else 0)"
    using conf pay record_lengths(1) by (auto split: option.splits)
  have slice: "py_slice 44 (length w - 4) w = payload" using d by argo
  have nd: "is_request_kind fk" "\<not> is_data_kind fk" using request_kind_control by (simp_all add: is_request_kind_def kind)
  have q0: "cm_request_id c \<noteq> 0"
  proof -
    let ?h = "V3FrameHeader fk 0 (48 + int (length payload)) (int (length payload)) 0 0 (cm_request_id c) 0 0"
    have "decode_v3_header w 0 = Inr ?h" using d by blast
    then have "check_control_header ?h = Inr ()" unfolding decode_v3_header_eq_Inr header_valid_def using nd(2) by simp
    then show ?thesis using nd(1) by (auto simp: check_control_header_def check_request_header_def res_simps split: if_splits)
  qed
  have rng: "0 \<le> cm_request_id c \<and> cm_request_id c < 256 ^ 4"
    using struct_unpack_in_range [of HEADER_FORMAT w] len unfolding fields by (simp add: HEADER_FORMAT_def)
  have hdr: "request_header w 0 = Inr \<lparr>env_total_length = int (length w)\<rparr>"
    using fields plen len by (simp add: request_header_eq_Inr Let_def)
  have sum: "compute_v3_checksum (take (length w - 4) w) = le_int (drop (length w - 4) w)" using d by argo
  have rw: "request_wire w" using hdr sum len plen by (simp add: request_wire_def)
  have "request_bytes w 0 \<lparr>env_total_length = int (length w)\<rparr> = Inr w"
    using sum len by (simp add: request_bytes_eq_Inr)
  moreover have "take 4 w = le_bytes 4 MAGIC"
    using v3_valid_wire [OF dec] by (simp add: valid_wire_def v3_parser_def)
  ultimately have "valid_wire request_parser w w" using hdr len by (auto simp: valid_wire_def request_parser_def)
  with that [OF fields slice len plen conf] pay conf q0 rng rw show thesis by force
qed

text \<open>A fresh command passes the header checks; what remains is the lifecycle and the capabilities.\<close>

definition command_refusal :: "sim_state \<Rightarrow> V3Command \<Rightarrow> ErrorCode" where
  "command_refusal d c =
     (if cm_kind c \<in> {CK_CONFIGURE, CK_START} \<and> sim_device_state d = DS_RUNNING then EC_INVALID_STATE
      else if cm_kind c \<in> {CK_CONFIGURE, CK_START} \<and> sim_device_state d = DS_DRAINING then EC_BUSY
      else if cm_kind c = CK_CONFIGURE \<and> the (cm_settings c) \<notin> set (cap_configurations (sim_capabilities d))
      then EC_UNSUPPORTED_CONFIGURATION else EC_OK)"

lemma handle_command:
  assumes inv: "sim_inv d" and c: "command_to_bytes c = Inr w" and fresh: "cm_request_id c \<notin> set (sim_recent d)"
  shows "handle_request d w False = (let d1 = remember (cm_request_id c) d in
    if command_refusal d c \<noteq> EC_OK then (d1, sim_reply d1 (CommandKind_value (cm_kind c)) (cm_request_id c) None (command_refusal d c))
    else execute_command d1 (cm_kind c) (cm_request_id c) (cm_settings c))"
proof -
  from command_wire [OF c] obtain payload where f: "struct_unpack HEADER_FORMAT w = [MAGIC, 3, CommandKind_value (cm_kind c), 0, 44, 1, 0,
      48 + int (length payload), int (length payload), 0, 0, cm_request_id c, 0, 0]"
    and p: "py_slice 44 (length w - 4) w = payload" "length payload = (if cm_kind c = CK_CONFIGURE then 20 else 0)"
    and conf: "(cm_kind c = CK_CONFIGURE) = (cm_settings c \<noteq> None)"
    and s: "cm_kind c = CK_CONFIGURE \<Longrightarrow> settings_to_bytes (the (cm_settings c)) = Inr payload" and q: "0 < cm_request_id c" by metis
  obtain caps where caps: "capabilities_to_payload (sim_capabilities d) = Inr caps"
    using inv by (auto simp: sim_inv_def config_inv_def)
  let ?ok = "cm_kind c = CK_CONFIGURE \<longrightarrow> the (cm_settings c) \<in> set (cap_configurations (sim_capabilities d))"
  have cand: "request_candidate (remember (cm_request_id c) d) (cm_kind c) payload = Inr (cm_settings c, \<not> ?ok)"
    using conf s caps settings_from_bytes_iff [of payload "the (cm_settings c)"]
    by (cases "cm_kind c = CK_CONFIGURE") (auto simp: request_candidate_def require_supported_def require_def)
  have pend: "sim_pending d \<Longrightarrow> sim_device_state d = DS_RUNNING \<or> sim_device_state d = DS_DRAINING"
    using inv by (cases "sim_device_state d") (auto simp: sim_inv_def lifecycle_inv_def)
  show ?thesis
    unfolding handle_request_def f Let_def p(1)
    using q fresh cand p(2) pend by (auto simp: command_refusal_def)
qed

lemma sim_reply_response:
  "sim_reply d (CommandKind_value ck) request v e = Inr w \<Longrightarrow>
     \<exists>f. decode_v3_frame w = Inr f \<and> decode_v3_response f = Inr \<lparr>rp_kind = COMMAND_RESPONSE_KINDS ck, rp_request_id = request,
       rp_run_id = sim_run_id d, rp_status = (if e = EC_OK then RS_OK else RS_ERROR), rp_error_code = e, rp_value = v,
       rp_rejected_kind = None\<rparr>"
  unfolding sim_reply_def CommandKind_of_value option.case by (rule response_roundtrip)

text \<open>What a successful command reports, and the state it leaves.\<close>

definition reported :: "sim_state \<Rightarrow> CommandKind \<Rightarrow> V3ResponseValue \<Rightarrow> bool" where
  "reported d ck v = (case ck of
       CK_INFO \<Rightarrow> \<exists>i. sim_info d = Inr i \<and> v = InfoValue i
     | CK_GET_CAPABILITIES \<Rightarrow> v = CapabilitiesValue (sim_capabilities d)
     | CK_GET_STATUS \<Rightarrow> v = StatusValue (sim_status d)
     | CK_STOP \<Rightarrow> v = StopValue (ss_stop (sim_status d))
     | _ \<Rightarrow> \<exists>k. clocks_for_profile (st_cpu_profile (sim_settings d)) = Inr k \<and> v = AppliedValue \<lparr>ap_settings = sim_settings d, ap_clocks = k\<rparr>)"

definition command_state :: "sim_state \<Rightarrow> CommandKind \<Rightarrow> V3Settings option \<Rightarrow> sim_state" where
  "command_state d ck candidate = (case ck of
       CK_CONFIGURE \<Rightarrow> d\<lparr>sim_settings := the candidate\<rparr>
     | CK_START \<Rightarrow> (reset_epoch (d\<lparr>sim_run_id := next_run_id (sim_run_id d)\<rparr>))\<lparr>sim_device_state := DS_RUNNING\<rparr>
     | CK_STOP \<Rightarrow> d\<lparr>sim_device_state := (if sim_pending d then DS_DRAINING else DS_STOPPED)\<rparr>
     | _ \<Rightarrow> d)"

lemma execute_command_state: "execute_command d ck request candidate = (d', r) \<Longrightarrow> d' = command_state d ck candidate"
  by (cases ck) (auto simp: execute_command_def command_state_def Let_def)

lemma execute_command_reply:
  "execute_command d ck request candidate = (d', Inr w) \<Longrightarrow> \<exists>v. sim_reply d' (CommandKind_value ck) request (Some v) EC_OK = Inr w \<and> reported d' ck v"
  by (cases ck) (auto simp: execute_command_def Let_def res_simps reported_def sim_status_def)

lemma execute_command_effect:
  "execute_command d ck request candidate = (d', r) \<Longrightarrow>
     sim_settings d' = (if ck = CK_CONFIGURE then the candidate else sim_settings d) \<and>
     sim_run_id d' = (if ck = CK_START then next_run_id (sim_run_id d) else sim_run_id d) \<and>
     sim_device_state d' = (case ck of CK_START \<Rightarrow> DS_RUNNING
       | CK_STOP \<Rightarrow> if sim_pending d then DS_DRAINING else DS_STOPPED | _ \<Rightarrow> sim_device_state d) \<and>
     sim_recent d' = sim_recent d \<and> sim_pending d' = sim_pending d \<and>
     sim_items d' = (if ck = CK_START then [0, 0] else sim_items d)"
  by (cases ck) (auto simp: execute_command_def Let_def reset_epoch_def)

lemma handle_request_state:
  "handle_request d w busy = (d', r) \<Longrightarrow>
     d' = d \<and> (wire_request w = 0 \<or> wire_request w \<in> set (sim_recent d)) \<or> d' = remember (wire_request w) d \<or>
     (\<exists>ck candidate. CommandKind_of_int (wire_kind w) = Some ck \<and> \<not> busy \<and>
        (ck \<in> {CK_CONFIGURE, CK_START} \<longrightarrow> sim_device_state d = DS_STOPPED \<and> \<not> sim_pending d) \<and>
        request_candidate (remember (wire_request w) d) ck (py_slice 44 (length w - 4) w) = Inr (candidate, False) \<and>
        execute_command (remember (wire_request w) d) ck (wire_request w) candidate = (d', r))"
proof -
  assume h: "handle_request d w busy = (d', r)"
  let ?d = "remember (wire_request w) d" and ?c = "\<lambda>ck. request_candidate (remember (wire_request w) d) ck (py_slice 44 (length w - 4) w)"
  show ?thesis
  proof (cases "CommandKind_of_int (wire_kind w)")
    case None
    then show ?thesis using h by (auto simp: handle_request_def Let_def split: if_splits)
  next
    case (Some ck)
    note h' = h [unfolded handle_request_def Let_def Some option.case]
    show ?thesis
    proof (cases "?c ck")
      case (Inl e)
      then show ?thesis using h' by (auto split: if_splits)
    next
      case (Inr cu)
      then obtain candidate unsupported where cu: "?c ck = Inr (candidate, unsupported)" by (cases cu) auto
      show ?thesis
      proof (cases "wire_request w = 0 \<or> wire_request w \<in> set (sim_recent d) \<or> d' = ?d")
        case False
        then have "execute_command ?d ck (wire_request w) candidate = (d', r) \<and> \<not> unsupported \<and> \<not> busy \<and>
            \<not> (ck \<in> {CK_CONFIGURE, CK_START} \<and> (sim_device_state d = DS_RUNNING \<or> sim_device_state d = DS_DRAINING \<or> sim_pending d))"
          using h' cu by (simp split: if_splits)
        then show ?thesis using Some cu by (cases "sim_device_state d") auto
      qed (use h' in auto)
    qed
  qed
qed

text \<open>
  One command and its answer on a clean session: the state after it is known up to the parser, which is
  clean again.
\<close>

definition after_command :: "sim_state \<Rightarrow> V3Command \<Rightarrow> sim_state" where
  "after_command d c = (let d1 = remember (cm_request_id c) d in
     if command_refusal d c = EC_OK then command_state d1 (cm_kind c) (cm_settings c) else d1)"

lemma after_command_fields:
  "sim_settings (after_command d c) = (if command_refusal d c = EC_OK \<and> cm_kind c = CK_CONFIGURE then the (cm_settings c) else sim_settings d)"
  "sim_run_id (after_command d c) = (if command_refusal d c = EC_OK \<and> cm_kind c = CK_START then next_run_id (sim_run_id d) else sim_run_id d)"
  "sim_device_state (after_command d c) = (if command_refusal d c = EC_OK \<and> cm_kind c = CK_START then DS_RUNNING
      else if cm_kind c = CK_STOP then if sim_pending d then DS_DRAINING else DS_STOPPED else sim_device_state d)"
  "sim_pending (after_command d c) = sim_pending d"
  "sim_items (after_command d c) = (if command_refusal d c = EC_OK \<and> cm_kind c = CK_START then [0, 0] else sim_items d)"
  "sim_capabilities (after_command d c) = sim_capabilities d" "sim_recent (after_command d c) = sim_recent (remember (cm_request_id c) d)"
  "sim_max_receive_bytes (after_command d c) = sim_max_receive_bytes d" "sim_max_requests (after_command d c) = sim_max_requests d"
  "sim_build_id (after_command d c) = sim_build_id d"
  by (cases "cm_kind c"; auto simp: after_command_def command_state_def command_refusal_def reset_epoch_def remember_def Let_def)+

lemma exchange:
  assumes inv: "sim_inv d" and c: "command_to_bytes c = Inr w" and fresh: "cm_request_id c \<notin> set (sim_recent d)"
    and clean: "pending_header (sim_parser d) = None" "unread (sim_parser d) = []"
    and limits: "length w \<le> sim_max_receive_bytes d" "0 < sim_max_requests d"
  shows "\<exists>d' reply f r p. receive d w = Some (d', Inr [reply]) \<and> decode_v3_frame reply = Inr f \<and> decode_v3_response f = Inr r \<and>
    validate_for r c = Inr () \<and> rp_error_code r = command_refusal d c \<and> rp_run_id r = sim_run_id d' \<and> sim_inv d' \<and>
    d' = after_command (d\<lparr>sim_parser := p\<rparr>) c \<and> sim_parser d' = p \<and> pending_header p = None \<and> unread p = [] \<and>
    (command_refusal d c = EC_OK \<longrightarrow> (\<exists>v. rp_value r = Some v \<and> reported d' (cm_kind c) v))"
proof -
  let ?q = "cm_request_id c" and ?k = "CommandKind_value (cm_kind c)"
  obtain v: "valid_wire request_parser w w" and rw: "request_wire w" and conf: "(cm_kind c = CK_CONFIGURE) = (cm_settings c \<noteq> None)"
    using command_wire [OF c] by metis
  have ok: "parser_ok request_parser (sim_parser d)" using inv by (simp add: sim_inv_def session_inv_def)
  obtain p where f: "feed request_parser (sim_parser d) w = Some (Inr (p, [w]))" "parser_ok request_parser p" "buffered_bytes p = 0"
    using req.feed_valid_wires [OF ok clean, of "[w]" "[w]"] v by auto
  have p: "unread p = []" "pending_header p = None"
    using f(2,3) req.header_size_pos by (auto simp: buffered_unread parser_ok_def parser_inv_def split: option.splits)
  let ?d = "d\<lparr>sim_parser := p\<rparr>"
  have invd: "sim_inv ?d"
    using inv f(2) by (simp add: sim_inv_def counters_inv_cong config_inv_def session_inv_def lifecycle_inv_def)
  have ref: "command_refusal ?d c = command_refusal d c" by (simp add: command_refusal_def)
  obtain d' reply where h: "handle_request ?d w False = (d', Inr reply)" "sim_inv d'" using handle_request_ok [OF invd rw] by blast
  have rcv: "receive d w = Some (d', Inr [reply])" using f(1) h(1) limits by (simp add: receive_def)
  have reply: "\<exists>f r. decode_v3_frame reply = Inr f \<and> decode_v3_response f = Inr r \<and> validate_for r c = Inr () \<and>
      rp_error_code r = e \<and> rp_run_id r = sim_run_id d' \<and> rp_value r = v"
    if "sim_reply d' ?k ?q v e = Inr reply"
      "e = EC_OK \<Longrightarrow> cm_kind c = CK_CONFIGURE \<Longrightarrow> \<exists>a. v = Some (AppliedValue a) \<and> Some (ap_settings a) = cm_settings c" for v e
    using sim_reply_response [OF that(1)] that(2) by (fastforce simp: validate_for_def require_def)
  note hc = handle_command [OF invd c, simplified ref, unfolded Let_def]
  have pp: "sim_parser (after_command ?d c) = p"
    by (cases "cm_kind c") (simp_all add: after_command_def command_state_def reset_epoch_def remember_def Let_def)
  have "\<exists>f r. decode_v3_frame reply = Inr f \<and> decode_v3_response f = Inr r \<and> validate_for r c = Inr () \<and>
      rp_error_code r = command_refusal d c \<and> rp_run_id r = sim_run_id d' \<and> d' = after_command ?d c \<and>
      (command_refusal d c = EC_OK \<longrightarrow> (\<exists>v. rp_value r = Some v \<and> reported d' (cm_kind c) v))"
  proof (cases "command_refusal d c = EC_OK")
    case False
    then have d': "d' = remember ?q ?d" "sim_reply d' ?k ?q None (command_refusal d c) = Inr reply"
      using hc fresh h(1) by auto
    then show ?thesis using reply [OF d'(2)] False by (simp add: after_command_def ref) blast
  next
    case True
    then have ex: "execute_command (remember ?q ?d) (cm_kind c) ?q (cm_settings c) = (d', Inr reply)" using hc fresh h(1) by simp
    note d' = execute_command_state [OF ex]
    from execute_command_reply [OF ex] obtain v where v: "sim_reply d' ?k ?q (Some v) EC_OK = Inr reply" "reported d' (cm_kind c) v" by blast
    from v(2) conf have "cm_kind c = CK_CONFIGURE \<Longrightarrow> \<exists>a. Some v = Some (AppliedValue a) \<and> Some (ap_settings a) = cm_settings c"
      by (auto simp: reported_def d' command_state_def)
    from reply [OF v(1) this] d' v(2) True show ?thesis by (simp add: after_command_def ref) blast
  qed
  then show ?thesis using rcv h(2) p pp by blast
qed

text \<open>An accepted identifier stays in the replay window for the next fifteen requests.\<close>

definition recently :: "nat \<Rightarrow> int \<Rightarrow> sim_state \<Rightarrow> bool" where
  "recently k q d \<longleftrightarrow> q \<in> set (drop (length (sim_recent d) - k) (sim_recent d))"

lemma recently_mono: "recently k q d \<Longrightarrow> k \<le> j \<Longrightarrow> recently j q d"
  unfolding recently_def by (rule subsetD [OF set_drop_subset_set_drop]) auto

lemma recently_remember:
  assumes "recently k q d \<or> q = x" "k < 16"
  shows "recently (Suc k) q (remember x d)"
proof -
  let ?xs = "sim_recent d"
  have "drop (length ?xs - 15 + (Suc (length ?xs) - (length ?xs - 15) - Suc k)) (?xs @ [x]) = drop (length ?xs - k) ?xs @ [x]"
    using assms(2) by (cases "k \<le> length ?xs") (auto simp: add.commute)
  then show ?thesis using assms(1) by (auto simp: recently_def remember_def Let_def add.commute)
qed

lemma handle_request_recently:
  assumes "handle_request d w busy = (d', r)" "recently k q d" "k < 16"
  shows "recently (Suc k) q d'"
  using handle_request_state [OF assms(1)] recently_mono [OF assms(2), of "Suc k"] recently_remember [of k q d] assms(2,3)
  by (auto simp: recently_def dest: execute_command_effect)

lemma handle_requests_recently:
  "handle_requests d i ws = (d', r) \<Longrightarrow> recently k q d \<Longrightarrow> k + length ws \<le> 16 \<Longrightarrow> recently (k + length ws) q d'"
proof (induction ws arbitrary: d i d' r k)
  case (Cons w ws)
  obtain d1 r1 where h: "handle_request d w (sim_max_requests d \<le> i) = (d1, r1)" by fastforce
  have r: "recently (Suc k) q d1" using handle_request_recently [OF h Cons.prems(2)] Cons.prems(3) by simp
  show ?case
  proof (cases r1)
    case (Inl e)
    then have "d' = d1" using Cons.prems(1) h by simp
    then show ?thesis using recently_mono [OF r] by simp
  next
    case (Inr reply)
    then obtain r2 where "handle_requests d1 (i + 1) ws = (d', r2)" using Cons.prems(1) h by (auto split: prod.splits)
    from Cons.IH [OF this r] Cons.prems(3) show ?thesis by simp
  qed
qed simp

section \<open>Properties\<close>

abbreviation start_command :: V3Command where
  "start_command \<equiv> \<lparr>cm_kind = CK_START, cm_request_id = 3, cm_settings = None\<rparr>"

lemma default_device: "\<exists>d. SimulatedV3Device ''thingdaq-simulator-v3'' 2048 8 = Inr d"
proof -
  have "case ascii_encode ''thingdaq-simulator-v3'' 48 of Inr b \<Rightarrow> True | Inl e \<Rightarrow> False" by code_simp
  then show ?thesis using device_constructible by (auto split: sum.splits)
qed

lemma start_command_wire: "\<exists>w. command_to_bytes start_command = Inr w \<and> length w = 48"
proof -
  have "case command_to_bytes start_command of Inr w \<Rightarrow> length w = 48 | Inl e \<Rightarrow> False" by code_simp
  then show ?thesis by (auto split: sum.splits)
qed

lemma device_fresh:
  assumes "SimulatedV3Device build mr mq = Inr d"
  shows "pending_header (sim_parser d) = None" "unread (sim_parser d) = []" "sim_recent d = []" "0 < sim_max_requests d"
    "\<not> sim_pending d"
  using assms unfolding SimulatedV3Device_def
  by (auto simp: require_def bind_res_eq_Inr Let_def reboot_def reset_epoch_def sim_allocate_def reset_def reset_session_def unread_def split: if_splits)

lemma running_device:
  "\<exists>d. sim_reachable d \<and> sim_device_state d = DS_RUNNING \<and> \<not> sim_pending d \<and> sim_items d = [0, 0]"
proof -
  obtain d where d: "SimulatedV3Device ''thingdaq-simulator-v3'' 2048 8 = Inr d" using default_device by blast
  obtain w where w: "command_to_bytes start_command = Inr w" "length w = 48" using start_command_wire by blast
  note i = device_initial [OF d] and fr = device_fresh [OF d]
  have "command_refusal d start_command = EC_OK" using i(2) by (simp add: command_refusal_def)
  with exchange [OF i(1) w(1) _ fr(1,2)] fr i(4) w(2) obtain d' reply p where
    "receive d w = Some (d', Inr [reply])" "d' = after_command (d\<lparr>sim_parser := p\<rparr>) start_command" by force
  moreover from this(2) have "sim_device_state d' = DS_RUNNING" "\<not> sim_pending d'" "sim_items d' = [0, 0]"
    using i(2) fr(5) by (simp_all add: after_command_fields command_refusal_def)
  ultimately show ?thesis using sim_reachable.step [OF sim_reachable.start [OF d] sim_step.request] by blast
qed

text \<open>An advertised synthetic configuration of the fixed-clock device.\<close>

definition synthetic_row :: bytes where
  "synthetic_row = [3, 1, 1, 3, 1, 4, 0, 8, 1, 1, 12, 0, 64, 66, 15, 0, 64, 66, 15, 0]"

lemma synthetic_row_settings:
  "\<exists>s w. settings_to_bytes s = Inr synthetic_row \<and> st_source s = SRC_SYNTHETIC \<and> st_cpu_profile s = CPU_600MHZ \<and>
     command_to_bytes \<lparr>cm_kind = CK_CONFIGURE, cm_request_id = 2, cm_settings = Some s\<rparr> = Inr w \<and> length w = 68"
proof -
  have "case settings_from_bytes synthetic_row of Inl e \<Rightarrow> False | Inr s \<Rightarrow> st_source s = SRC_SYNTHETIC \<and> st_cpu_profile s = CPU_600MHZ \<and>
     (case command_to_bytes \<lparr>cm_kind = CK_CONFIGURE, cm_request_id = 2, cm_settings = Some s\<rparr> of Inl e \<Rightarrow> False | Inr w \<Rightarrow> length w = 68)"
    by code_simp
  then show ?thesis by (auto simp: settings_from_bytes_iff split: sum.splits)
qed

lemma default_settings_profile: "\<exists>s. default_settings = Inr s \<and> st_cpu_profile s = CPU_600MHZ"
proof -
  have "case default_settings of Inl e \<Rightarrow> False | Inr s \<Rightarrow> st_cpu_profile s = CPU_600MHZ" by code_simp
  then show ?thesis by (auto split: sum.splits)
qed

lemma device_supports:
  assumes d: "SimulatedV3Device build mr mq = Inr d" and s: "settings_to_bytes s = Inr b" "st_cpu_profile s = CPU_600MHZ"
  shows "s \<in> set (cap_configurations (sim_capabilities d))"
proof -
  obtain c p where c: "canonical_capabilities = Inr c" "map_res settings_to_bytes (cap_configurations c) = Inr SELECTABLE_CONFIGURATIONS"
    using canonical_capabilities_wire by blast
  obtain s0 where s0: "default_settings = Inr s0" "st_cpu_profile s0 = CPU_600MHZ" using default_settings_profile by blast
  have "st_cpu_profile (cap_defaults c) = CPU_600MHZ"
    using c(1) s0(2) by (auto simp: s0(1) canonical_capabilities_def res_simps capabilities_of_fields)
  moreover have "sim_capabilities d = sim_restrict c"
    using d by (auto simp: c(1) SimulatedV3Device_def require_def bind_res_eq_Inr Let_def reboot_def reset_epoch_def sim_allocate_def split: if_splits)
  moreover have "b \<in> set SELECTABLE_CONFIGURATIONS" using s(1) by (auto simp: settings_to_bytes_def res_simps)
  then obtain s' where "s' \<in> set (cap_configurations c)" "settings_to_bytes s' = Inr b"
    using c(2) by (force simp: map_res_eq_Inr in_set_conv_nth)
  then have "s \<in> set (cap_configurations c)" using settings_codec.enc_injective [OF s(1)] by blast
  ultimately show ?thesis using s(2) by (simp add: sim_restrict_def Let_def)
qed

text \<open>
  Property C18. In every state the device can reach: an active state has a run, draining means
  a frame in flight and a stopped device has none, the run identifier is a 32-bit word, dropped
  counters never exceed the produced ones, timestamps cannot wrap, the settings are advertised,
  the replay window is bounded, and the status report is encodable.
\<close>

theorem sim_reachable_states:
  assumes "sim_reachable d"
  shows "(sim_device_state d \<noteq> DS_STOPPED \<longrightarrow> sim_run_id d \<noteq> 0) \<and> (sim_device_state d = DS_DRAINING \<longrightarrow> sim_pending d) \<and>
    (sim_pending d \<longrightarrow> sim_device_state d \<noteq> DS_STOPPED) \<and> 0 \<le> sim_run_id d \<and> sim_run_id d < 2 ^ 32 \<and>
    (\<forall>i < 2. sim_frames_dropped d ! i \<le> sim_frames d ! i \<and> sim_items_dropped d ! i \<le> sim_items d ! i \<and>
       sim_items d ! i * 8 < 2 ^ 64) \<and>
    sim_settings d \<in> set (cap_configurations (sim_capabilities d)) \<and> length (sim_recent d) \<le> 16 \<and>
    (\<exists>p. status_to_payload (sim_status d) = Inr p)"
proof -
  have inv: "sim_inv d" using assms by (rule sim_reachable_inv)
  have "sim_frames_dropped d ! i \<le> sim_frames d ! i \<and> sim_items_dropped d ! i \<le> sim_items d ! i \<and> sim_items d ! i * 8 < 2 ^ 64"
    if "i < 2" for i using stream_invD [OF inv that] by (auto simp: stream_inv_def)
  moreover have "\<exists>p. status_to_payload (sim_status d) = Inr p" using inv sim_status_total by (simp add: sim_inv_def)
  ultimately show ?thesis using inv by (auto simp: sim_inv_def lifecycle_inv_def config_inv_def session_inv_def)
qed

theorem sim_reachable_states_witness:
  "\<exists>d. SimulatedV3Device ''thingdaq-simulator-v3'' 2048 8 = Inr d \<and> (\<exists>p. status_to_payload (sim_status d) = Inr p)"
  using default_device sim_reachable_states [OF sim_reachable.start] by blast

text \<open>
  Property C19. \<^verbatim>\<open>receive\<close> never fails on a read within its limit: it answers every request frame
  in the stream exactly once and in order, with a frame the host decodes, whose request
  identifier and kind match the request.
\<close>

theorem sim_receive_answers:
  assumes "sim_reachable d" "length data \<le> sim_max_receive_bytes d"
  shows "\<exists>d' replies p ws. receive d data = Some (d', Inr replies) \<and>
    feed request_parser (sim_parser d) data = Some (Inr (p, ws)) \<and>
    list_all2 (\<lambda>w reply. \<exists>f r. decode_v3_frame reply = Inr f \<and> decode_v3_response f = Inr r \<and>
      rp_request_id r = struct_unpack HEADER_FORMAT w ! 11 \<and>
      rp_kind r = (case CommandKind_of_int (struct_unpack HEADER_FORMAT w ! 2) of
         Some ck \<Rightarrow> COMMAND_RESPONSE_KINDS ck | None \<Rightarrow> FK_ERROR_RESPONSE)) ws replies"
proof -
  from receive_ok [OF sim_reachable_inv [OF assms(1)] assms(2)] obtain d' replies p ws where
    r: "receive d data = Some (d', Inr replies)" "feed request_parser (sim_parser d) data = Some (Inr (p, ws))"
      "list_all2 (\<lambda>w reply. \<exists>d1. answers d1 (wire_kind w) (wire_request w) reply) ws replies" by blast
  from r(3) have "list_all2 (\<lambda>w reply. \<exists>f r. decode_v3_frame reply = Inr f \<and> decode_v3_response f = Inr r \<and>
      rp_request_id r = wire_request w \<and>
      rp_kind r = (case CommandKind_of_int (wire_kind w) of
         Some ck \<Rightarrow> COMMAND_RESPONSE_KINDS ck | None \<Rightarrow> FK_ERROR_RESPONSE)) ws replies"
    by (rule list.rel_mono_strong) (auto simp: answers_def)
  with r(1,2) show ?thesis by blast
qed

theorem sim_receive_answers_witness:
  "\<exists>d d' replies. SimulatedV3Device ''thingdaq-simulator-v3'' 2048 8 = Inr d \<and> receive d info_request_wire = Some (d', Inr replies)"
proof -
  obtain d where d: "SimulatedV3Device ''thingdaq-simulator-v3'' 2048 8 = Inr d" using default_device by blast
  have "length info_request_wire = 48" by code_simp
  then show ?thesis using sim_receive_answers [OF sim_reachable.start [OF d], of info_request_wire] device_initial(4) [OF d] d by auto
qed

text \<open>
  Property C20. A running device without a frame in flight produces the next frame, unless the
  64-bit tick range is exhausted. The frame decodes; it carries the current run, the stream's
  frame count modulo \<open>2 ^ 32\<close> as sequence number, the stream's item count in ticks as timestamp,
  the gap and epoch flags, and exactly the samples of the deterministic source; the counters
  advance by what was sent.
\<close>

theorem sim_next_data_frame:
  assumes "sim_reachable d" "sim_device_state d = DS_RUNNING" "\<not> sim_pending d"
    and "(sim_items d ! next_stream d + stream_count (sim_settings d) (next_stream d)) * 8 < 2 ^ 64"
  shows "\<exists>d' wire f dd. next_data_frame d = (d', Inr (Some wire)) \<and> decode_v3_frame wire = Inr f \<and>
    hdr_kind (fr_header f) = (if next_stream d = 0 then FK_ADC_DATA else FK_GPIO_DATA) \<and>
    hdr_run_id (fr_header f) = sim_run_id d \<and>
    hdr_sequence (fr_header f) = int (sim_frames d ! next_stream d) mod 2 ^ 32 \<and>
    hdr_first_sample_ticks (fr_header f) = int (sim_items d ! next_stream d) * 8 \<and>
    hdr_flags (fr_header f) = data_flags d (next_stream d) \<and>
    decode_data_payload (hdr_kind (fr_header f)) (fr_payload f) (hdr_item_count (fr_header f)) = Inr dd \<and>
    dd_payload dd = source_bytes (sim_settings d) (next_stream d) (sim_items d ! next_stream d)
      (sim_frames d ! next_stream d) (nat (hdr_item_count (fr_header f))) \<and>
    int (sim_items d' ! next_stream d) = int (sim_items d ! next_stream d) + hdr_item_count (fr_header f) \<and>
    sim_frames d' ! next_stream d = sim_frames d ! next_stream d + 1"
proof -
  have inv: "sim_inv d" using assms(1) by (rule sim_reachable_inv)
  have room: "(sim_items d ! next_stream d + stream_count (sim_settings d) (next_stream d)) * 8 \<le> U64_MAX" using assms(4) by simp
  have l: "next_stream d < length (sim_items d)" "next_stream d < length (sim_frames d)"
    using next_stream_less(1) [OF inv] inv by (simp_all add: sim_inv_def counters_inv_def)
  from next_data_frame_ok [OF inv assms(2,3) room] obtain wire f dd where
    f: "next_data_frame d = (after_frame d, Inr (Some wire))" "decode_v3_frame wire = Inr f"
    "hdr_kind (fr_header f) = stream_kind (next_stream d)" "hdr_run_id (fr_header f) = sim_run_id d"
    "hdr_sequence (fr_header f) = int (sim_frames d ! next_stream d) mod 2 ^ 32"
    "hdr_first_sample_ticks (fr_header f) = int (sim_items d ! next_stream d) * 8"
    "hdr_item_count (fr_header f) = int (stream_count (sim_settings d) (next_stream d))"
    "hdr_flags (fr_header f) = data_flags d (next_stream d)"
    "decode_data_payload (hdr_kind (fr_header f)) (fr_payload f) (hdr_item_count (fr_header f)) = Inr dd"
    "dd_payload dd = source_bytes (sim_settings d) (next_stream d) (sim_items d ! next_stream d)
       (sim_frames d ! next_stream d) (stream_count (sim_settings d) (next_stream d))" by blast
  have "int (sim_items (after_frame d) ! next_stream d) = int (sim_items d ! next_stream d) + hdr_item_count (fr_header f)"
    "sim_frames (after_frame d) ! next_stream d = sim_frames d ! next_stream d + 1"
    using f(7) l by (simp_all add: after_frame_def Let_def)
  moreover have "dd_payload dd = source_bytes (sim_settings d) (next_stream d) (sim_items d ! next_stream d)
      (sim_frames d ! next_stream d) (nat (hdr_item_count (fr_header f)))" using f(7,10) by simp
  ultimately show ?thesis using f(1-6,8,9) unfolding stream_kind_def by blast
qed

theorem sim_next_data_frame_witness:
  "\<exists>d d' wire. sim_reachable d \<and> sim_device_state d = DS_RUNNING \<and> next_data_frame d = (d', Inr (Some wire))"
proof -
  obtain d where d: "sim_reachable d" "sim_device_state d = DS_RUNNING" "\<not> sim_pending d" "sim_items d = [0, 0]"
    using running_device by blast
  have inv: "sim_inv d" by (rule sim_reachable_inv [OF d(1)])
  have "next_stream d < 2" by (rule next_stream_less(1) [OF inv])
  then have z: "sim_items d ! next_stream d = 0" using d(4) by (auto simp: less_2_cases_iff)
  have "stream_count (sim_settings d) (next_stream d) \<le> 4048" by (simp add: stream_count_def)
  then have "(sim_items d ! next_stream d + stream_count (sim_settings d) (next_stream d)) * 8 < 2 ^ 64" using z by simp
  from sim_next_data_frame [OF d(1-3) this] d show ?thesis by blast
qed

text \<open>
  Property C17. A command that the host serialises, sent on a clean session with a fresh request
  identifier, is answered with exactly one response, which the host accepts as the answer to that
  command. It succeeds unless the device's state or capabilities forbid it, and the settings, the
  run identifier and the device state change exactly as the command says.
\<close>

theorem sim_command_exchange:
  assumes "sim_reachable d" "command_to_bytes c = Inr w" "cm_request_id c \<notin> set (sim_recent d)"
    and "pending_header (sim_parser d) = None" "unread (sim_parser d) = []"
    and "length w \<le> sim_max_receive_bytes d" "0 < sim_max_requests d"
  shows "\<exists>d' reply f r. receive d w = Some (d', Inr [reply]) \<and> decode_v3_frame reply = Inr f \<and> decode_v3_response f = Inr r \<and>
    validate_for r c = Inr () \<and> rp_error_code r = command_refusal d c \<and> rp_run_id r = sim_run_id d' \<and>
    sim_settings d' = (if command_refusal d c = EC_OK \<and> cm_kind c = CK_CONFIGURE then the (cm_settings c) else sim_settings d) \<and>
    sim_run_id d' = (if command_refusal d c = EC_OK \<and> cm_kind c = CK_START then next_run_id (sim_run_id d) else sim_run_id d) \<and>
    sim_device_state d' = (if command_refusal d c = EC_OK \<and> cm_kind c = CK_START then DS_RUNNING
      else if cm_kind c = CK_STOP then if sim_pending d then DS_DRAINING else DS_STOPPED else sim_device_state d)"
proof -
  from exchange [OF sim_reachable_inv [OF assms(1)] assms(2-7)] obtain d' reply f r p where
    r: "receive d w = Some (d', Inr [reply])" "decode_v3_frame reply = Inr f" "decode_v3_response f = Inr r"
      "validate_for r c = Inr ()" "rp_error_code r = command_refusal d c" "rp_run_id r = sim_run_id d'"
    and d': "d' = after_command (d\<lparr>sim_parser := p\<rparr>) c" by blast
  have "command_refusal (d\<lparr>sim_parser := p\<rparr>) c = command_refusal d c" by (simp add: command_refusal_def)
  then show ?thesis by (intro exI [of _ d'] exI [of _ reply] exI [of _ f] exI [of _ r]) (simp add: r d' after_command_fields)
qed

theorem sim_command_exchange_witness:
  "\<exists>d d' w reply. SimulatedV3Device ''thingdaq-simulator-v3'' 2048 8 = Inr d \<and> command_to_bytes start_command = Inr w \<and>
     receive d w = Some (d', Inr [reply]) \<and> sim_device_state d' = DS_RUNNING"
proof -
  obtain d where d: "SimulatedV3Device ''thingdaq-simulator-v3'' 2048 8 = Inr d" using default_device by blast
  obtain w where w: "command_to_bytes start_command = Inr w" "length w = 48" using start_command_wire by blast
  note fr = device_fresh [OF d] and i = device_initial [OF d]
  have "command_refusal d start_command = EC_OK" using i(2) by (simp add: command_refusal_def)
  with sim_command_exchange [OF sim_reachable.start [OF d] w(1) _ fr(1,2)] fr i(4) w(2) d w(1) show ?thesis by force
qed

text \<open>
  Property C21. Whatever the bytes of a request: the settings change only by a CONFIGURE of a stopped
  device without data in flight, to an advertised tuple that is the decoded payload; the run
  identifier changes only by a START of such a device, to the next one, and the device runs with
  its item counters at zero.
\<close>

theorem sim_request_gate:
  assumes "sim_reachable d" "handle_request d w busy = (d', r)"
  shows "(sim_settings d' \<noteq> sim_settings d \<longrightarrow> CommandKind_of_int (struct_unpack HEADER_FORMAT w ! 2) = Some CK_CONFIGURE \<and> \<not> busy \<and>
       sim_device_state d = DS_STOPPED \<and> \<not> sim_pending d \<and> settings_from_bytes (py_slice 44 (length w - 4) w) = Inr (sim_settings d') \<and>
       sim_settings d' \<in> set (cap_configurations (sim_capabilities d))) \<and>
    (sim_run_id d' \<noteq> sim_run_id d \<longrightarrow> CommandKind_of_int (struct_unpack HEADER_FORMAT w ! 2) = Some CK_START \<and> \<not> busy \<and>
       sim_device_state d = DS_STOPPED \<and> \<not> sim_pending d \<and> sim_run_id d' = next_run_id (sim_run_id d) \<and>
       sim_device_state d' = DS_RUNNING \<and> sim_items d' = [0, 0])"
proof -
  have cfg: "config_inv (remember (wire_request w) d)"
    using sim_reachable_inv [OF assms(1)] by (simp add: sim_inv_def config_inv_def remember_def Let_def)
  from handle_request_state [OF assms(2)] show ?thesis
  proof (elim disjE exE conjE)
    fix ck candidate
    assume h: "CommandKind_of_int (wire_kind w) = Some ck" "\<not> busy"
      "ck \<in> {CK_CONFIGURE, CK_START} \<longrightarrow> sim_device_state d = DS_STOPPED \<and> \<not> sim_pending d"
      "request_candidate (remember (wire_request w) d) ck (py_slice 44 (length w - 4) w) = Inr (candidate, False)"
      "execute_command (remember (wire_request w) d) ck (wire_request w) candidate = (d', r)"
    from request_candidate_cases [OF cfg, of ck "py_slice 44 (length w - 4) w"] h(1-4) execute_command_effect [OF h(5)]
    show ?thesis by auto
  qed auto
qed

theorem sim_request_gate_witness:
  "\<exists>d d' w r. SimulatedV3Device ''thingdaq-simulator-v3'' 2048 8 = Inr d \<and> command_to_bytes start_command = Inr w \<and>
     handle_request d w False = (d', r) \<and> sim_run_id d' = next_run_id (sim_run_id d)"
proof -
  obtain d where d: "SimulatedV3Device ''thingdaq-simulator-v3'' 2048 8 = Inr d" using default_device by blast
  obtain w where w: "command_to_bytes start_command = Inr w" using start_command_wire by blast
  note fr = device_fresh [OF d] and i = device_initial [OF d]
  obtain d' r where h: "handle_request d w False = (d', r)" by fastforce
  have "execute_command (remember 3 d) CK_START 3 None = (d', r)"
    using handle_command [OF i(1) w] fr(3) i(2) h by (simp add: command_refusal_def)
  from execute_command_effect [OF this] have "sim_device_state d' = DS_RUNNING" "sim_run_id d' = next_run_id 0" using i(3) by simp_all
  moreover have "next_run_id 0 \<noteq> 0" using next_run_id_range [of 0] by auto
  ultimately show ?thesis using sim_request_gate [OF sim_reachable.start [OF d] h] d w h i(3) by auto
qed

text \<open>
  Property C22. A request that the device has accepted is refused as a replay, and changes nothing,
  when the same bytes arrive again after fewer than sixteen further requests.
\<close>

theorem sim_replay_refused:
  assumes "CommandKind_of_int (struct_unpack HEADER_FORMAT w ! 2) = Some ck" "struct_unpack HEADER_FORMAT w ! 11 \<notin> set (sim_recent d)"
    and "handle_request d w busy = (d1, r1)" "handle_requests d1 i ws = (d2, r2)" "length ws < 16"
  shows "handle_request d2 w busy' = (d2, sim_reply d2 (CommandKind_value ck) (struct_unpack HEADER_FORMAT w ! 11) None EC_INVALID_REQUEST_ID)"
proof (cases "wire_request w = 0")
  case True
  then show ?thesis using assms(1) CommandKind_of_int_Some [OF assms(1)] by (simp add: handle_request_def Let_def)
next
  case False
  have "recently 1 (wire_request w) (remember (wire_request w) d)" using recently_remember [of 0] by simp
  with handle_request_state [OF assms(3)] assms(2) False have "recently 1 (wire_request w) d1"
    by (auto simp: recently_def dest!: execute_command_effect)
  from handle_requests_recently [OF assms(4) this] assms(5) have "wire_request w \<in> set (sim_recent d2)"
    by (auto simp: recently_def dest: in_set_dropD)
  then show ?thesis using assms(1) CommandKind_of_int_Some [OF assms(1)] by (simp add: handle_request_def Let_def)
qed

theorem sim_replay_refused_witness:
  "\<exists>d w d1 r1. command_to_bytes start_command = Inr w \<and> handle_request d w False = (d1, r1) \<and>
     handle_request d1 w False = (d1, sim_reply d1 (CommandKind_value CK_START) 3 None EC_INVALID_REQUEST_ID)"
proof -
  obtain d where d: "SimulatedV3Device ''thingdaq-simulator-v3'' 2048 8 = Inr d" using default_device by blast
  obtain w where w: "command_to_bytes start_command = Inr w" using start_command_wire by blast
  have f: "struct_unpack HEADER_FORMAT w ! 2 = CommandKind_value CK_START" "struct_unpack HEADER_FORMAT w ! 11 = 3"
    by (rule command_wire [OF w], simp)+
  obtain d1 r1 where h: "handle_request d w False = (d1, r1)" by fastforce
  have "CommandKind_of_int (struct_unpack HEADER_FORMAT w ! 2) = Some CK_START" unfolding f(1) by (rule CommandKind_of_value)
  from sim_replay_refused [OF this _ h handle_requests.simps(1), of False] f(2) device_fresh(3) [OF d] h w show ?thesis by auto
qed

end
