(* ===== verification/Stream_Blocks.thy ===== *)
theory Stream_Blocks
  imports V3_Device
begin

text \<open>
  The decoded data blocks of \<^verbatim>\<open>models.py\<close> and their construction checks, the stream-gap evidence they
  may carry, and \<^verbatim>\<open>decode_v3_block\<close>, which builds a block from a version-3 frame.

  A record holds a dataclass's fields; \<open>..._post_init\<close> is its \<^verbatim>\<open>__post_init__\<close>: it checks the fields
  and returns the normalised record. Protocol versions share the values of \<^verbatim>\<open>FrameKind\<close> (for data),
  \<^verbatim>\<open>Source\<close>, \<^verbatim>\<open>FrameFlag\<close> and \<^verbatim>\<open>AuxBankMode\<close>, so the types of the version-3 theories are reused.
\<close>

datatype block_error = BlockValueError | BlockTypeError | BlockFrameError v3_error

definition UINT64_MAX :: int where
  "UINT64_MAX = 0xFFFFFFFFFFFFFFFF"

definition check_unsigned :: "int \<Rightarrow> nat \<Rightarrow> block_error + 'a \<Rightarrow> block_error + 'a" where
  "check_unsigned v bits k = require (0 \<le> v \<and> v < push_bit bits 1) BlockValueError k"

definition check_nonnegative :: "int \<Rightarrow> block_error + 'a \<Rightarrow> block_error + 'a" where
  "check_nonnegative v k = require (0 \<le> v) BlockValueError k"

definition ALLOWED_DATA_FLAGS :: int where
  "ALLOWED_DATA_FLAGS = FLAG_SYNTHETIC OR FLAG_GAP_BEFORE OR FLAG_EPOCH_START OR FLAG_OVERRUN_BEFORE"

definition validated_data_flags :: "int \<Rightarrow> block_error + int" where
  "validated_data_flags v = (let flags = FrameFlag v in
     require (flags AND NOT ALLOWED_DATA_FLAGS = 0) BlockValueError (
     require (flags AND FLAG_OVERRUN_BEFORE \<noteq> 0 \<longrightarrow> flags AND FLAG_GAP_BEFORE \<noteq> 0) BlockValueError (
     Inr flags)))"

section \<open>Rate profiles and layouts\<close>

datatype V2RateProfile =
  RP_ADC_1MHZ_GPIO_4MHZ | RP_ADC_500KHZ_GPIO_2MHZ | RP_ADC_250KHZ_GPIO_1MHZ | RP_ADC_125KHZ_GPIO_500KHZ | RP_ADC_1MHZ_GPIO_1MHZ

fun V2RateProfile_value :: "V2RateProfile \<Rightarrow> int" where
  "V2RateProfile_value RP_ADC_1MHZ_GPIO_4MHZ = 0"
| "V2RateProfile_value RP_ADC_500KHZ_GPIO_2MHZ = 1"
| "V2RateProfile_value RP_ADC_250KHZ_GPIO_1MHZ = 2"
| "V2RateProfile_value RP_ADC_125KHZ_GPIO_500KHZ = 3"
| "V2RateProfile_value RP_ADC_1MHZ_GPIO_1MHZ = 4"

definition V2_RATE_PROFILES :: "V2RateProfile list" where
  "V2_RATE_PROFILES = [RP_ADC_1MHZ_GPIO_4MHZ, RP_ADC_500KHZ_GPIO_2MHZ, RP_ADC_250KHZ_GPIO_1MHZ, RP_ADC_125KHZ_GPIO_500KHZ,
     RP_ADC_1MHZ_GPIO_1MHZ]"

text \<open>The timing fields that the stream classes read; the timer register values are left out.\<close>

record RateProfileTiming =
  tm_profile :: V2RateProfile
  tm_adc_pair_rate_hz :: int
  tm_gpio_sample_rate_hz :: int
  tm_adc_pair_period_ticks :: int
  tm_adc1_phase_ticks :: int
  tm_gpio_sample_period_ticks :: int
  tm_disabled_frame_coverage_ticks :: int
  tm_input_frame_coverage_ticks :: int

fun timing_from_profile :: "V2RateProfile \<Rightarrow> RateProfileTiming" where
  "timing_from_profile RP_ADC_1MHZ_GPIO_4MHZ = \<lparr>tm_profile = RP_ADC_1MHZ_GPIO_4MHZ, tm_adc_pair_rate_hz = 1000000,
     tm_gpio_sample_rate_hz = 4000000, tm_adc_pair_period_ticks = 8, tm_adc1_phase_ticks = 4, tm_gpio_sample_period_ticks = 2,
     tm_disabled_frame_coverage_ticks = 8096, tm_input_frame_coverage_ticks = 4048\<rparr>"
| "timing_from_profile RP_ADC_500KHZ_GPIO_2MHZ = \<lparr>tm_profile = RP_ADC_500KHZ_GPIO_2MHZ, tm_adc_pair_rate_hz = 500000,
     tm_gpio_sample_rate_hz = 2000000, tm_adc_pair_period_ticks = 16, tm_adc1_phase_ticks = 8, tm_gpio_sample_period_ticks = 4,
     tm_disabled_frame_coverage_ticks = 16192, tm_input_frame_coverage_ticks = 8096\<rparr>"
| "timing_from_profile RP_ADC_250KHZ_GPIO_1MHZ = \<lparr>tm_profile = RP_ADC_250KHZ_GPIO_1MHZ, tm_adc_pair_rate_hz = 250000,
     tm_gpio_sample_rate_hz = 1000000, tm_adc_pair_period_ticks = 32, tm_adc1_phase_ticks = 16, tm_gpio_sample_period_ticks = 8,
     tm_disabled_frame_coverage_ticks = 32384, tm_input_frame_coverage_ticks = 16192\<rparr>"
| "timing_from_profile RP_ADC_125KHZ_GPIO_500KHZ = \<lparr>tm_profile = RP_ADC_125KHZ_GPIO_500KHZ, tm_adc_pair_rate_hz = 125000,
     tm_gpio_sample_rate_hz = 500000, tm_adc_pair_period_ticks = 64, tm_adc1_phase_ticks = 32, tm_gpio_sample_period_ticks = 16,
     tm_disabled_frame_coverage_ticks = 64768, tm_input_frame_coverage_ticks = 32384\<rparr>"
| "timing_from_profile RP_ADC_1MHZ_GPIO_1MHZ = \<lparr>tm_profile = RP_ADC_1MHZ_GPIO_1MHZ, tm_adc_pair_rate_hz = 1000000,
     tm_gpio_sample_rate_hz = 1000000, tm_adc_pair_period_ticks = 8, tm_adc1_phase_ticks = 4, tm_gpio_sample_period_ticks = 8,
     tm_disabled_frame_coverage_ticks = 8096, tm_input_frame_coverage_ticks = 4048\<rparr>"

definition timing_from_rates :: "int \<Rightarrow> int \<Rightarrow> block_error + RateProfileTiming" where
  "timing_from_rates adc_pair_rate_hz gpio_sample_rate_hz =
     require (0 < adc_pair_rate_hz \<and> 0 < gpio_sample_rate_hz) BlockValueError (
     res_of_option BlockValueError (List.find (\<lambda>t. tm_adc_pair_rate_hz t = adc_pair_rate_hz \<and>
       tm_gpio_sample_rate_hz t = gpio_sample_rate_hz) (map timing_from_profile V2_RATE_PROFILES)))"

definition timing_frame_coverage_ticks :: "RateProfileTiming \<Rightarrow> AuxBankMode \<Rightarrow> int" where
  "timing_frame_coverage_ticks t mode =
     (if mode = AUX_DISABLED then tm_disabled_frame_coverage_ticks t else tm_input_frame_coverage_ticks t)"

text \<open>\<^verbatim>\<open>GPIOLayout\<close> with the sizes of \<^verbatim>\<open>AUX_BANK_LAYOUTS\<close>; \<^verbatim>\<open>*_total_frame_bytes\<close> are payload plus 48.\<close>

record GPIOLayout =
  ly_aux_bank_mode :: AuxBankMode
  ly_packed_width_bits :: nat
  ly_item_bytes :: nat
  ly_items_per_frame :: nat
  ly_payload_bytes :: nat
  ly_adc_items_per_frame :: nat
  ly_adc_payload_bytes :: nat
  ly_pins_by_bit :: "nat list"

fun layout_from_mode :: "AuxBankMode \<Rightarrow> GPIOLayout" where
  "layout_from_mode AUX_DISABLED = \<lparr>ly_aux_bank_mode = AUX_DISABLED, ly_packed_width_bits = 8, ly_item_bytes = 1,
     ly_items_per_frame = 4048, ly_payload_bytes = 4048, ly_adc_items_per_frame = 1012, ly_adc_payload_bytes = 4048,
     ly_pins_by_bit = [6, 7, 8, 9, 10, 11, 12, 13]\<rparr>"
| "layout_from_mode AUX_INPUT = \<lparr>ly_aux_bank_mode = AUX_INPUT, ly_packed_width_bits = 16, ly_item_bytes = 2,
     ly_items_per_frame = 2024, ly_payload_bytes = 4048, ly_adc_items_per_frame = 506, ly_adc_payload_bytes = 2024,
     ly_pins_by_bit = [6, 7, 8, 9, 10, 11, 12, 13, 16, 17, 18, 19, 20, 21, 22, 23]\<rparr>"

section \<open>Gap evidence\<close>

record FirmwareLossEvidence =
  ev_source :: Source
  ev_gap_before :: bool
  ev_overrun_before :: bool
  ev_stats_generation :: "int option"
  ev_cumulative_dropped_frames :: "int option"
  ev_cumulative_dropped_items :: "int option"
  ev_cumulative_dropped_bytes :: "int option"
  ev_expected_cumulative_frames :: int
  ev_expected_cumulative_items :: int
  ev_flags_match :: bool
  ev_counters_match :: "bool option"
  ev_errors :: "string list"

definition opt_nonnegative :: "int option \<Rightarrow> bool" where
  "opt_nonnegative v \<longleftrightarrow> (case v of None \<Rightarrow> True | Some n \<Rightarrow> 0 \<le> n)"

definition FirmwareLossEvidence_post_init :: "FirmwareLossEvidence \<Rightarrow> block_error + FirmwareLossEvidence" where
  "FirmwareLossEvidence_post_init e =
     require (ev_overrun_before e \<longrightarrow> ev_gap_before e) BlockValueError (
     require (opt_nonnegative (ev_stats_generation e) \<and> opt_nonnegative (ev_cumulative_dropped_frames e) \<and>
       opt_nonnegative (ev_cumulative_dropped_items e) \<and> opt_nonnegative (ev_cumulative_dropped_bytes e)) BlockValueError (
     require (ev_stats_generation e \<noteq> Some 0) BlockValueError (
     check_nonnegative (ev_expected_cumulative_frames e) (
     check_nonnegative (ev_expected_cumulative_items e) (
     require (\<forall>s \<in> set (ev_errors e). s \<noteq> []) BlockValueError (
     Inr e))))))"

definition evidence_consistent :: "FirmwareLossEvidence \<Rightarrow> bool" where
  "evidence_consistent e \<longleftrightarrow> ev_flags_match e \<and> ev_counters_match e \<noteq> Some False \<and> ev_errors e = []"

text \<open>\<^verbatim>\<open>StreamGap\<close>; the optional timing fields are filled in by \<^verbatim>\<open>__post_init__\<close>.\<close>

record StreamGap =
  gp_kind :: FrameKind
  gp_run_id :: int
  gp_expected_sequence :: int
  gp_observed_sequence :: int
  gp_missing_frames :: int
  gp_missing_items :: int
  gp_expected_first_sample_ticks :: int
  gp_observed_first_sample_ticks :: int
  gp_firmware_reported :: bool
  gp_firmware_overrun :: bool
  gp_host_queue_drops :: int
  gp_source :: Source
  gp_sequence_inferred_items :: "int option"
  gp_firmware_evidence :: "FirmwareLossEvidence option"
  gp_period_ticks :: "int option"
  gp_frame_item_count :: "int option"
  gp_variable_frame_items :: bool

definition default_period :: "FrameKind \<Rightarrow> int" where
  "default_period kind = (if kind = FK_ADC_DATA then 8 else 2)"

definition default_count :: "FrameKind \<Rightarrow> int" where
  "default_count kind = (if kind = FK_ADC_DATA then 1012 else 4048)"

definition StreamGap_post_init :: "StreamGap \<Rightarrow> block_error + StreamGap" where
  "StreamGap_post_init g =
     require (gp_kind g \<in> {FK_ADC_DATA, FK_GPIO_DATA}) BlockValueError (
     check_unsigned (gp_run_id g) 32 (
     check_unsigned (gp_expected_sequence g) 32 (
     check_unsigned (gp_observed_sequence g) 32 (
     check_unsigned (gp_expected_first_sample_ticks g) 64 (
     check_unsigned (gp_observed_first_sample_ticks g) 64 (
     check_unsigned (gp_missing_frames g) 32 (
     check_unsigned (gp_missing_items g) 64 (
     check_nonnegative (gp_host_queue_drops g) (
     require (gp_run_id g \<noteq> 0) BlockValueError (
     require (gp_firmware_overrun g \<longrightarrow> gp_firmware_reported g) BlockValueError (
     let period_ticks = (case gp_period_ticks g of None \<Rightarrow> default_period (gp_kind g) | Some v \<Rightarrow> v);
         frame_item_count = (case gp_frame_item_count g of None \<Rightarrow> default_count (gp_kind g) | Some v \<Rightarrow> v) in
     require (0 < period_ticks \<and> 0 < frame_item_count) BlockValueError (
     require (gp_variable_frame_items g \<longrightarrow>
       (gp_missing_frames g \<noteq> 0) = (gp_missing_items g \<noteq> 0) \<and> gp_missing_frames g \<le> gp_missing_items g) BlockValueError (
     let sequence_items = (if gp_sequence_inferred_items g = None \<and> \<not> gp_variable_frame_items g
           then Some (gp_missing_frames g * frame_item_count) else gp_sequence_inferred_items g) in
     require (opt_nonnegative sequence_items) BlockValueError (
     require (sequence_items \<noteq> None \<longrightarrow> sequence_items = Some (gp_missing_items g)) BlockValueError (
     require (case gp_firmware_evidence g of None \<Rightarrow> True | Some e \<Rightarrow> ev_source e = gp_source g \<and>
       ev_gap_before e = gp_firmware_reported g \<and> ev_overrun_before e = gp_firmware_overrun g) BlockValueError (
     require (gp_observed_sequence g = (gp_expected_sequence g + gp_missing_frames g) AND UINT32_MAX) BlockValueError (
     require (gp_observed_first_sample_ticks g =
       (gp_expected_first_sample_ticks g + gp_missing_items g * period_ticks) AND UINT64_MAX) BlockValueError (
     Inr (g\<lparr>gp_period_ticks := Some period_ticks, gp_frame_item_count := Some frame_item_count,
       gp_sequence_inferred_items := sequence_items\<rparr>)))))))))))))))))))"

definition gap_item_period_ticks :: "StreamGap \<Rightarrow> int" where
  "gap_item_period_ticks g = the (gp_period_ticks g)"

definition gap_items_per_frame :: "StreamGap \<Rightarrow> int" where
  "gap_items_per_frame g = the (gp_frame_item_count g)"

datatype LossOrigin = OBSERVED | FIRMWARE | HOST_QUEUE | MIXED

definition gap_origin :: "StreamGap \<Rightarrow> LossOrigin" where
  "gap_origin g = (if gp_firmware_reported g \<and> gp_host_queue_drops g \<noteq> 0 then MIXED
     else if gp_firmware_reported g then FIRMWARE else if gp_host_queue_drops g \<noteq> 0 then HOST_QUEUE else OBSERVED)"

section \<open>Blocks\<close>

text \<open>
  \<^verbatim>\<open>AdcBlockMetadata\<close> without the calibration, trigger and acquisition evidence it carries along;
  of these only the calibration's configuration flags are read here.
\<close>

record AdcBlockMetadata =
  md_source :: Source
  md_timestamp_hz :: int
  md_pair_rate_hz :: int
  md_pair_period_ticks :: int
  md_adc1_phase_ticks :: int
  md_resolution_bits :: int
  md_container_bytes :: int
  md_code_min :: int
  md_code_max :: int
  md_hardware_serial :: int
  md_configuration_flags :: int

abbreviation (input) PRIMARY_12_BIT :: int where "PRIMARY_12_BIT \<equiv> 128"
abbreviation (input) FALLBACK_10_BIT :: int where "FALLBACK_10_BIT \<equiv> 256"

definition DEFAULT_ADC_CONFIGURATION_FLAGS :: int where
  "DEFAULT_ADC_CONFIGURATION_FLAGS = 2 OR 4 OR 8 OR PRIMARY_12_BIT"

definition AdcBlockMetadata_post_init :: "AdcBlockMetadata \<Rightarrow> block_error + AdcBlockMetadata" where
  "AdcBlockMetadata_post_init m =
     bind_res (res_of_option BlockValueError (List.find (\<lambda>t. tm_adc_pair_rate_hz t = md_pair_rate_hz m)
       (map timing_from_profile V2_RATE_PROFILES))) (\<lambda>timing.
     require (md_timestamp_hz m = 8000000 \<and> md_pair_period_ticks m = tm_adc_pair_period_ticks timing \<and>
       md_adc1_phase_ticks m = tm_adc1_phase_ticks timing \<and> md_container_bytes m = 2 \<and> md_code_min m = 0) BlockValueError (
     require (md_resolution_bits m \<in> {12, 10}) BlockValueError (
     require (md_code_max m = push_bit (nat (md_resolution_bits m)) 1 - 1) BlockValueError (
     check_unsigned (md_hardware_serial m) 32 (
     let selected = (if md_resolution_bits m = 12 then PRIMARY_12_BIT else FALLBACK_10_BIT);
         other = (if md_resolution_bits m = 12 then FALLBACK_10_BIT else PRIMARY_12_BIT);
         flags = md_configuration_flags m in
     require (flags AND selected \<noteq> 0 \<and> flags AND other = 0) BlockValueError (
     Inr m))))))"

definition metadata_for_rate_profile :: "V2RateProfile \<Rightarrow> Source \<Rightarrow> block_error + AdcBlockMetadata" where
  "metadata_for_rate_profile profile source = (let timing = timing_from_profile profile in
     AdcBlockMetadata_post_init \<lparr>md_source = source, md_timestamp_hz = 8000000, md_pair_rate_hz = tm_adc_pair_rate_hz timing,
       md_pair_period_ticks = tm_adc_pair_period_ticks timing, md_adc1_phase_ticks = tm_adc1_phase_ticks timing,
       md_resolution_bits = 12, md_container_bytes = 2, md_code_min = 0, md_code_max = 4095, md_hardware_serial = 0,
       md_configuration_flags = DEFAULT_ADC_CONFIGURATION_FLAGS\<rparr>)"

record ADCBlock =
  ab_run_id :: int
  ab_sequence :: int
  ab_first_sample_ticks :: int
  ab_payload :: bytes
  ab_flags :: int
  ab_checksum_algorithm :: ChecksumAlgorithm
  ab_metadata :: AdcBlockMetadata
  ab_aux_bank_mode :: AuxBankMode
  ab_rate_profile :: V2RateProfile
  ab_protocol_version :: int
  ab_gap :: "StreamGap option"
  ab_encoded_payload :: "bytes option"

record GPIOBlock =
  gb_run_id :: int
  gb_sequence :: int
  gb_first_sample_ticks :: int
  gb_payload :: bytes
  gb_flags :: int
  gb_checksum_algorithm :: ChecksumAlgorithm
  gb_aux_bank_mode :: AuxBankMode
  gb_rate_profile :: V2RateProfile
  gb_protocol_version :: int
  gb_encoded_payload :: "bytes option"

definition validate_v3_block_payload ::
  "bytes \<Rightarrow> bytes option \<Rightarrow> FrameKind \<Rightarrow> nat \<Rightarrow> V2RateProfile \<Rightarrow> int \<Rightarrow> ChecksumAlgorithm \<Rightarrow> block_error + unit" where
  "validate_v3_block_payload payload encoded_payload kind item_bytes profile first_sample_ticks checksum_algorithm =
     require (checksum_algorithm = ADLER32) BlockValueError (
     require (profile = RP_ADC_1MHZ_GPIO_1MHZ) BlockValueError (
     bind_res (res_of_option BlockTypeError encoded_payload) (\<lambda>encoded.
     require (0 < length payload \<and> length payload \<le> MAX_LOGICAL_PAYLOAD_BYTES \<and> length payload mod item_bytes = 0) BlockValueError (
     let count = length payload div item_bytes in
     require (first_sample_ticks mod ADC_PAIR_PERIOD_TICKS = 0 \<and>
       first_sample_ticks + int count * ADC_PAIR_PERIOD_TICKS \<le> UINT64_MAX) BlockValueError (
     bind_res (map_sum BlockFrameError id (decode_data_payload kind encoded (int count))) (\<lambda>decoded.
     require (dd_item_bytes decoded = int item_bytes \<and> dd_payload decoded = payload) BlockValueError (
     Inr ())))))))"

text \<open>The checks that both block classes share, up to the payload.\<close>

definition block_header_checks :: "int \<Rightarrow> int \<Rightarrow> int \<Rightarrow> int \<Rightarrow> ChecksumAlgorithm \<Rightarrow> AuxBankMode \<Rightarrow> V2RateProfile \<Rightarrow> int \<Rightarrow>
    block_error + int" where
  "block_header_checks run_id sequence first_sample_ticks flags checksum mode profile version =
     check_unsigned run_id 32 (
     check_unsigned sequence 32 (
     check_unsigned first_sample_ticks 64 (
     require (run_id \<noteq> 0) BlockValueError (
     bind_res (validated_data_flags flags) (\<lambda>flags'.
     require (CHECKSUM_FUNCTIONS checksum \<noteq> None) BlockValueError (
     require (version \<in> {1, 2, 3}) BlockValueError (
     require (version = 1 \<longrightarrow> mode = AUX_DISABLED \<and> profile = RP_ADC_1MHZ_GPIO_4MHZ) BlockValueError (
     Inr flags'))))))))"

definition ADCBlock_post_init :: "ADCBlock \<Rightarrow> block_error + ADCBlock" where
  "ADCBlock_post_init b =
     bind_res (block_header_checks (ab_run_id b) (ab_sequence b) (ab_first_sample_ticks b) (ab_flags b) (ab_checksum_algorithm b)
       (ab_aux_bank_mode b) (ab_rate_profile b) (ab_protocol_version b)) (\<lambda>flags.
     let layout = layout_from_mode (ab_aux_bank_mode b) in
     bind_res (if ab_protocol_version b = 3
       then validate_v3_block_payload (ab_payload b) (ab_encoded_payload b) FK_ADC_DATA 4 (ab_rate_profile b)
         (ab_first_sample_ticks b) (ab_checksum_algorithm b)
       else require (ab_encoded_payload b = None) BlockValueError (
         require (length (ab_payload b) = ly_adc_payload_bytes layout) BlockValueError (Inr ()))) (\<lambda>_.
     let timing = timing_from_profile (ab_rate_profile b) in
     require (md_pair_rate_hz (ab_metadata b) = tm_adc_pair_rate_hz timing \<and>
       md_pair_period_ticks (ab_metadata b) = tm_adc_pair_period_ticks timing \<and>
       md_adc1_phase_ticks (ab_metadata b) = tm_adc1_phase_ticks timing) BlockValueError (
     let wire_source = (if flags AND FLAG_SYNTHETIC \<noteq> 0 then SRC_SYNTHETIC else SRC_HARDWARE) in
     bind_res (if md_source (ab_metadata b) \<noteq> wire_source
       then AdcBlockMetadata_post_init ((ab_metadata b)\<lparr>md_source := wire_source\<rparr>) else Inr (ab_metadata b)) (\<lambda>metadata.
     require (if md_code_min metadata = 0 \<and> md_code_max metadata = 4095 then adc_payload_codes_valid (ab_payload b)
       else list_all (\<lambda>(adc0, adc1). md_code_min metadata \<le> adc0 \<and> adc0 \<le> md_code_max metadata \<and>
         md_code_min metadata \<le> adc1 \<and> adc1 \<le> md_code_max metadata) (iter_unpack_pairs (ab_payload b))) BlockValueError (
     require (case ab_gap b of None \<Rightarrow> True | Some g \<Rightarrow> gp_kind g = FK_ADC_DATA \<and> gp_run_id g = ab_run_id b \<and>
       gp_observed_sequence g = ab_sequence b \<and> gp_observed_first_sample_ticks g = ab_first_sample_ticks b) BlockValueError (
     Inr (b\<lparr>ab_flags := flags, ab_metadata := metadata\<rparr>)))))))"

definition GPIOBlock_post_init :: "GPIOBlock \<Rightarrow> block_error + GPIOBlock" where
  "GPIOBlock_post_init b =
     bind_res (block_header_checks (gb_run_id b) (gb_sequence b) (gb_first_sample_ticks b) (gb_flags b) (gb_checksum_algorithm b)
       (gb_aux_bank_mode b) (gb_rate_profile b) (gb_protocol_version b)) (\<lambda>flags.
     let layout = layout_from_mode (gb_aux_bank_mode b) in
     bind_res (if gb_protocol_version b = 3
       then validate_v3_block_payload (gb_payload b) (gb_encoded_payload b) FK_GPIO_DATA (ly_item_bytes layout) (gb_rate_profile b)
         (gb_first_sample_ticks b) (gb_checksum_algorithm b)
       else require (gb_encoded_payload b = None) BlockValueError (
         require (length (gb_payload b) = ly_payload_bytes layout) BlockValueError (Inr ()))) (\<lambda>_.
     Inr (b\<lparr>gb_flags := flags\<rparr>)))"

text \<open>\<^verbatim>\<open>ADCBlock | GPIOBlock\<close>, with the attributes the stream code reads of either class.\<close>

datatype data_block = AsADC ADCBlock | AsGPIO GPIOBlock

fun block_kind :: "data_block \<Rightarrow> FrameKind" where
  "block_kind (AsADC b) = FK_ADC_DATA"
| "block_kind (AsGPIO b) = FK_GPIO_DATA"

fun block_run_id :: "data_block \<Rightarrow> int" where
  "block_run_id (AsADC b) = ab_run_id b"
| "block_run_id (AsGPIO b) = gb_run_id b"

fun block_sequence :: "data_block \<Rightarrow> int" where
  "block_sequence (AsADC b) = ab_sequence b"
| "block_sequence (AsGPIO b) = gb_sequence b"

fun block_ticks :: "data_block \<Rightarrow> int" where
  "block_ticks (AsADC b) = ab_first_sample_ticks b"
| "block_ticks (AsGPIO b) = gb_first_sample_ticks b"

fun block_payload :: "data_block \<Rightarrow> bytes" where
  "block_payload (AsADC b) = ab_payload b"
| "block_payload (AsGPIO b) = gb_payload b"

fun block_flags :: "data_block \<Rightarrow> int" where
  "block_flags (AsADC b) = ab_flags b"
| "block_flags (AsGPIO b) = gb_flags b"

fun block_aux_bank_mode :: "data_block \<Rightarrow> AuxBankMode" where
  "block_aux_bank_mode (AsADC b) = ab_aux_bank_mode b"
| "block_aux_bank_mode (AsGPIO b) = gb_aux_bank_mode b"

fun block_rate_profile :: "data_block \<Rightarrow> V2RateProfile" where
  "block_rate_profile (AsADC b) = ab_rate_profile b"
| "block_rate_profile (AsGPIO b) = gb_rate_profile b"

fun block_protocol_version :: "data_block \<Rightarrow> int" where
  "block_protocol_version (AsADC b) = ab_protocol_version b"
| "block_protocol_version (AsGPIO b) = gb_protocol_version b"

fun block_encoded_payload :: "data_block \<Rightarrow> bytes option" where
  "block_encoded_payload (AsADC b) = ab_encoded_payload b"
| "block_encoded_payload (AsGPIO b) = gb_encoded_payload b"

fun block_gap :: "data_block \<Rightarrow> StreamGap option" where
  "block_gap (AsADC b) = ab_gap b"
| "block_gap (AsGPIO b) = None"

fun block_source :: "data_block \<Rightarrow> Source" where
  "block_source (AsADC b) = md_source (ab_metadata b)"
| "block_source (AsGPIO b) = (if gb_flags b AND FLAG_SYNTHETIC \<noteq> 0 then SRC_SYNTHETIC else SRC_HARDWARE)"

fun block_item_bytes :: "data_block \<Rightarrow> nat" where
  "block_item_bytes (AsADC b) = 4"
| "block_item_bytes (AsGPIO b) = ly_item_bytes (layout_from_mode (gb_aux_bank_mode b))"

definition block_item_count :: "data_block \<Rightarrow> int" where
  "block_item_count b = int (length (block_payload b) div block_item_bytes b)"

fun block_period_ticks :: "data_block \<Rightarrow> int" where
  "block_period_ticks (AsADC b) = md_pair_period_ticks (ab_metadata b)"
| "block_period_ticks (AsGPIO b) = tm_gpio_sample_period_ticks (timing_from_profile (gb_rate_profile b))"

definition block_end_tick_exclusive :: "data_block \<Rightarrow> int" where
  "block_end_tick_exclusive b = (block_ticks b + block_item_count b * block_period_ticks b) AND UINT64_MAX"

definition block_first_index :: "data_block \<Rightarrow> int" where
  "block_first_index b = block_ticks b div block_period_ticks b"

definition block_wire_bytes :: "data_block \<Rightarrow> nat" where
  "block_wire_bytes b = 44 + length (case block_encoded_payload b of None \<Rightarrow> block_payload b | Some e \<Rightarrow> e) + 4"

fun block_post_init :: "data_block \<Rightarrow> block_error + data_block" where
  "block_post_init (AsADC b) = map_sum id AsADC (ADCBlock_post_init b)"
| "block_post_init (AsGPIO b) = map_sum id AsGPIO (GPIOBlock_post_init b)"

text \<open>Per-item timestamps; negative indices count from the end.\<close>

definition item_index :: "data_block \<Rightarrow> int \<Rightarrow> int option" where
  "item_index b index = (let i = (if index < 0 then index + block_item_count b else index) in
     if 0 \<le> i \<and> i < block_item_count b then Some i else None)"

definition pair_ticks :: "ADCBlock \<Rightarrow> int \<Rightarrow> (int \<times> int) option" where
  "pair_ticks b index = map_option (\<lambda>i.
     let adc0 = (ab_first_sample_ticks b + i * md_pair_period_ticks (ab_metadata b)) AND UINT64_MAX in
     (adc0, (adc0 + md_adc1_phase_ticks (ab_metadata b)) AND UINT64_MAX)) (item_index (AsADC b) index)"

definition sample_ticks :: "GPIOBlock \<Rightarrow> int \<Rightarrow> int option" where
  "sample_ticks b index = map_option (\<lambda>i.
     (gb_first_sample_ticks b + i * block_period_ticks (AsGPIO b)) AND UINT64_MAX) (item_index (AsGPIO b) index)"

section \<open>Blocks from version-3 frames\<close>

fun v2_rate_profile :: "RateProfile \<Rightarrow> V2RateProfile" where
  "v2_rate_profile ADC_1MHZ_GPIO_1MHZ = RP_ADC_1MHZ_GPIO_1MHZ"

definition decode_v3_block :: "V3Frame \<Rightarrow> V3Settings \<Rightarrow> block_error + data_block" where
  "decode_v3_block frame0 settings = (let header = fr_header frame0 in
     bind_res (map_sum BlockFrameError id (bind_res (frame_to_bytes frame0) decode_v3_frame)) (\<lambda>frame.
     bind_res (map_sum BlockFrameError id (decode_data_payload (hdr_kind header) (fr_payload frame) (hdr_item_count header))) (\<lambda>data.
     bind_res (map_sum BlockFrameError id (settings_to_bytes settings)) (\<lambda>_.
     let is_adc = (hdr_kind header = FK_ADC_DATA); stream = (if is_adc then STREAM_ADC else STREAM_GPIO) in
     require (st_stream_mask settings AND stream \<noteq> 0) (BlockFrameError INVALID) (
     require ((hdr_flags header AND FLAG_SYNTHETIC \<noteq> 0) = (st_source settings = SRC_SYNTHETIC)) (BlockFrameError INVALID) (
     let profile = v2_rate_profile (st_rate_profile settings) in
     if is_adc then
       require (dd_encoding data = (if st_adc_policy settings = AP_PACK12 then ENC_ADC_PACK12 else ENC_RAW)) (BlockFrameError INVALID) (
       bind_res (metadata_for_rate_profile profile (st_source settings)) (\<lambda>metadata.
       block_post_init (AsADC \<lparr>ab_run_id = hdr_run_id header, ab_sequence = hdr_sequence header,
         ab_first_sample_ticks = hdr_first_sample_ticks header, ab_payload = dd_payload data,
         ab_flags = FrameFlag (hdr_flags header), ab_checksum_algorithm = ADLER32, ab_metadata = metadata,
         ab_aux_bank_mode = st_aux_bank_mode settings, ab_rate_profile = profile, ab_protocol_version = 3,
         ab_gap = None, ab_encoded_payload = Some (fr_payload frame)\<rparr>)))
     else
       require (dd_item_bytes data * 8 = st_gpio_width_bits settings) (BlockFrameError INVALID) (
       require (st_gpio_policy settings = GP_RLE_AUTO \<or> dd_encoding data = ENC_RAW) (BlockFrameError INVALID) (
       block_post_init (AsGPIO \<lparr>gb_run_id = hdr_run_id header, gb_sequence = hdr_sequence header,
         gb_first_sample_ticks = hdr_first_sample_ticks header, gb_payload = dd_payload data,
         gb_flags = FrameFlag (hdr_flags header), gb_checksum_algorithm = ADLER32,
         gb_aux_bank_mode = st_aux_bank_mode settings, gb_rate_profile = profile, gb_protocol_version = 3,
         gb_encoded_payload = Some (fr_payload frame)\<rparr>)))))))))"

section \<open>Validation of synthetic blocks\<close>

text \<open>Every reason is a \<^verbatim>\<open>SyntheticPatternError\<close>.\<close>

datatype synthetic_block_error = MissingSyntheticFlag | MisalignedTimestamp | SamplesDiffer | PatternError synthetic_error

definition validate_synthetic_block :: "data_block \<Rightarrow> SyntheticGPIOPattern \<Rightarrow> synthetic_block_error + unit" where
  "validate_synthetic_block b gpio_pattern =
     require (block_flags b AND FLAG_SYNTHETIC \<noteq> 0) MissingSyntheticFlag (
     let first = nat (block_first_index b); count = nat (block_item_count b) in
     if block_protocol_version b = 3 then
       (let expected = (case b of AsADC _ \<Rightarrow> synthetic_v3_adc_payload first count
          | AsGPIO _ \<Rightarrow> synthetic_gpio_payload first count (block_aux_bank_mode b)
              (if block_sequence b mod 2 = 0 then ALL_ZERO else HIGH_TRANSITION)) in
        require (block_payload b = expected) SamplesDiffer (Inr ()))
     else require (block_ticks b mod block_period_ticks b = 0) MisalignedTimestamp (
       map_sum PatternError id (case b of AsADC _ \<Rightarrow> validate_synthetic_adc_payload (block_payload b) first count
       | AsGPIO _ \<Rightarrow> validate_synthetic_gpio_payload (block_payload b) first count (block_aux_bank_mode b) gpio_pattern)))"

section \<open>Valid blocks\<close>

lemma and_UINT_MAX: "v AND UINT32_MAX = v mod 2 ^ 32" "v AND UINT64_MAX = v mod 2 ^ 64"
proof -
  have "UINT32_MAX = mask 32" "UINT64_MAX = mask 64" by (simp_all add: UINT32_MAX_def UINT64_MAX_def mask_eq_exp_minus_1)
  then show "v AND UINT32_MAX = v mod 2 ^ 32" "v AND UINT64_MAX = v mod 2 ^ 64"
    by (metis take_bit_eq_mask take_bit_eq_mod)+
qed

lemma check_unsigned_eq_Inr [res_simps]: "check_unsigned v n k = Inr x \<longleftrightarrow> 0 \<le> v \<and> v < 2 ^ n \<and> k = Inr x"
  by (auto simp: check_unsigned_def res_simps push_bit_eq_mult)

lemma check_unsigned_ok: "0 \<le> v \<Longrightarrow> v < 2 ^ n \<Longrightarrow> check_unsigned v n k = k"
  by (simp add: check_unsigned_def push_bit_eq_mult)

lemma check_nonnegative_eq_Inr [res_simps]: "check_nonnegative v k = Inr x \<longleftrightarrow> 0 \<le> v \<and> k = Inr x"
  by (auto simp: check_nonnegative_def res_simps)

lemma check_nonnegative_ok: "0 \<le> v \<Longrightarrow> check_nonnegative v k = k"
  by (simp add: check_nonnegative_def)

text \<open>A block is valid when its constructor accepts it as it is; every constructed block is.\<close>

definition block_valid :: "data_block \<Rightarrow> bool" where
  "block_valid b \<longleftrightarrow> block_post_init b = Inr b"

lemma block_header_checks_eq_Inr:
  "block_header_checks run sq ticks flags checksum mode profile version = Inr f \<longleftrightarrow>
     0 < run \<and> run < 2 ^ 32 \<and> 0 \<le> sq \<and> sq < 2 ^ 32 \<and> 0 \<le> ticks \<and> ticks < 2 ^ 64 \<and> f = FrameFlag flags \<and>
     f AND NOT 15 = 0 \<and> (f AND 8 \<noteq> 0 \<longrightarrow> f AND 2 \<noteq> 0) \<and> CHECKSUM_FUNCTIONS checksum \<noteq> None \<and> version \<in> {1, 2, 3} \<and>
     (version = 1 \<longrightarrow> mode = AUX_DISABLED \<and> profile = RP_ADC_1MHZ_GPIO_4MHZ)"
  by (auto simp: block_header_checks_def validated_data_flags_def ALLOWED_DATA_FLAGS_def Let_def res_simps)

lemma v3_payload_eq_Inr:
  "validate_v3_block_payload p e kind n profile ticks checksum = Inr () \<longleftrightarrow>
     checksum = ADLER32 \<and> profile = RP_ADC_1MHZ_GPIO_1MHZ \<and> 0 < length p \<and> length p \<le> 4048 \<and> length p mod n = 0 \<and>
     ticks mod 8 = 0 \<and> ticks + int (length p div n) * 8 \<le> UINT64_MAX \<and>
     (\<exists>enc d. e = Some enc \<and> decode_data_payload kind enc (int (length p div n)) = Inr d \<and> dd_item_bytes d = int n \<and> dd_payload d = p)"
proof -
  have "map_sum BlockFrameError id m = Inr x \<longleftrightarrow> m = Inr x" for m :: "v3_error + V3DecodedData" and x by (cases m) auto
  then show ?thesis by (auto simp: validate_v3_block_payload_def res_simps Let_def)
qed

lemma metadata_post_init_id: "AdcBlockMetadata_post_init m = Inr m' \<Longrightarrow> m' = m"
  by (auto simp: AdcBlockMetadata_post_init_def Let_def bind_res_eq_Inr require_eq_Inr check_unsigned_eq_Inr)

lemma ADCBlock_post_init_eq_Inr:
  assumes "ADCBlock_post_init b = Inr b'"
  shows "block_header_checks (ab_run_id b) (ab_sequence b) (ab_first_sample_ticks b) (ab_flags b) (ab_checksum_algorithm b)
      (ab_aux_bank_mode b) (ab_rate_profile b) (ab_protocol_version b) = Inr (ab_flags b')"
    "if ab_protocol_version b = 3 then validate_v3_block_payload (ab_payload b) (ab_encoded_payload b) FK_ADC_DATA 4 (ab_rate_profile b)
         (ab_first_sample_ticks b) (ab_checksum_algorithm b) = Inr ()
     else length (ab_payload b) = ly_adc_payload_bytes (layout_from_mode (ab_aux_bank_mode b))"
    "md_pair_period_ticks (ab_metadata b') = tm_adc_pair_period_ticks (timing_from_profile (ab_rate_profile b))"
    "md_source (ab_metadata b') = (if ab_flags b' AND FLAG_SYNTHETIC \<noteq> 0 then SRC_SYNTHETIC else SRC_HARDWARE)"
    "b' = b\<lparr>ab_flags := ab_flags b', ab_metadata := ab_metadata b'\<rparr>"
proof -
  let ?m = "ab_metadata b"
  obtain flags meta u where f: "block_header_checks (ab_run_id b) (ab_sequence b) (ab_first_sample_ticks b) (ab_flags b) (ab_checksum_algorithm b)
      (ab_aux_bank_mode b) (ab_rate_profile b) (ab_protocol_version b) = Inr flags"
    and p: "(if ab_protocol_version b = 3 then validate_v3_block_payload (ab_payload b) (ab_encoded_payload b) FK_ADC_DATA 4 (ab_rate_profile b)
         (ab_first_sample_ticks b) (ab_checksum_algorithm b) else require (ab_encoded_payload b = None) BlockValueError (
         require (length (ab_payload b) = ly_adc_payload_bytes (layout_from_mode (ab_aux_bank_mode b))) BlockValueError (Inr ()))) = Inr u"
    and t: "md_pair_period_ticks ?m = tm_adc_pair_period_ticks (timing_from_profile (ab_rate_profile b))"
    and m: "(if md_source ?m \<noteq> (if flags AND FLAG_SYNTHETIC \<noteq> 0 then SRC_SYNTHETIC else SRC_HARDWARE)
       then AdcBlockMetadata_post_init (?m\<lparr>md_source := if flags AND FLAG_SYNTHETIC \<noteq> 0 then SRC_SYNTHETIC else SRC_HARDWARE\<rparr>)
       else Inr ?m) = Inr meta"
    and b': "b' = b\<lparr>ab_flags := flags, ab_metadata := meta\<rparr>"
    using assms unfolding ADCBlock_post_init_def Let_def bind_res_eq_Inr require_eq_Inr by blast
  have meta: "meta = ?m\<lparr>md_source := if flags AND FLAG_SYNTHETIC \<noteq> 0 then SRC_SYNTHETIC else SRC_HARDWARE\<rparr>"
    using m metadata_post_init_id by (auto split: if_splits)
  show "block_header_checks (ab_run_id b) (ab_sequence b) (ab_first_sample_ticks b) (ab_flags b) (ab_checksum_algorithm b)
      (ab_aux_bank_mode b) (ab_rate_profile b) (ab_protocol_version b) = Inr (ab_flags b')" using f by (simp add: b')
  show "if ab_protocol_version b = 3 then validate_v3_block_payload (ab_payload b) (ab_encoded_payload b) FK_ADC_DATA 4 (ab_rate_profile b)
         (ab_first_sample_ticks b) (ab_checksum_algorithm b) = Inr ()
     else length (ab_payload b) = ly_adc_payload_bytes (layout_from_mode (ab_aux_bank_mode b))"
    using p by (auto simp: require_eq_Inr split: if_splits)
  show "md_pair_period_ticks (ab_metadata b') = tm_adc_pair_period_ticks (timing_from_profile (ab_rate_profile b))"
    "md_source (ab_metadata b') = (if ab_flags b' AND FLAG_SYNTHETIC \<noteq> 0 then SRC_SYNTHETIC else SRC_HARDWARE)"
    "b' = b\<lparr>ab_flags := ab_flags b', ab_metadata := ab_metadata b'\<rparr>"
    using t by (simp_all add: b' meta)
qed

lemma GPIOBlock_post_init_eq_Inr:
  assumes "GPIOBlock_post_init b = Inr b'"
  shows "block_header_checks (gb_run_id b) (gb_sequence b) (gb_first_sample_ticks b) (gb_flags b) (gb_checksum_algorithm b)
      (gb_aux_bank_mode b) (gb_rate_profile b) (gb_protocol_version b) = Inr (gb_flags b')"
    "if gb_protocol_version b = 3 then validate_v3_block_payload (gb_payload b) (gb_encoded_payload b) FK_GPIO_DATA
         (ly_item_bytes (layout_from_mode (gb_aux_bank_mode b))) (gb_rate_profile b) (gb_first_sample_ticks b) (gb_checksum_algorithm b) = Inr ()
     else length (gb_payload b) = ly_payload_bytes (layout_from_mode (gb_aux_bank_mode b))"
    "b' = b\<lparr>gb_flags := gb_flags b'\<rparr>"
  using assms unfolding GPIOBlock_post_init_def Let_def
  by (auto simp: bind_res_eq_Inr require_eq_Inr split: if_splits)

text \<open>What the stream code relies on.\<close>

definition block_facts :: "data_block \<Rightarrow> bool" where
  "block_facts b \<longleftrightarrow>
     (\<exists>checksum. block_header_checks (block_run_id b) (block_sequence b) (block_ticks b) (block_flags b) checksum
       (block_aux_bank_mode b) (block_rate_profile b) (block_protocol_version b) = Inr (block_flags b)) \<and>
     block_source b = (if block_flags b AND 1 \<noteq> 0 then SRC_SYNTHETIC else SRC_HARDWARE) \<and>
     block_period_ticks b = (case b of AsADC _ \<Rightarrow> tm_adc_pair_period_ticks (timing_from_profile (block_rate_profile b))
       | AsGPIO _ \<Rightarrow> tm_gpio_sample_period_ticks (timing_from_profile (block_rate_profile b))) \<and>
     (if block_protocol_version b = 3
      then block_rate_profile b = RP_ADC_1MHZ_GPIO_1MHZ \<and> 0 < length (block_payload b) \<and> length (block_payload b) \<le> 4048 \<and>
        length (block_payload b) mod block_item_bytes b = 0 \<and> block_ticks b mod 8 = 0 \<and>
        block_ticks b + block_item_count b * 8 \<le> UINT64_MAX
      else length (block_payload b) = (case b of AsADC _ \<Rightarrow> ly_adc_payload_bytes (layout_from_mode (block_aux_bank_mode b))
        | AsGPIO _ \<Rightarrow> ly_payload_bytes (layout_from_mode (block_aux_bank_mode b))))"

lemma block_valid_facts:
  assumes "block_valid b"
  shows "block_facts b"
proof (cases b)
  case (AsADC a)
  then have "ADCBlock_post_init a = Inr a" using assms by (cases "ADCBlock_post_init a") (auto simp: block_valid_def)
  from ADCBlock_post_init_eq_Inr [OF this] AsADC show ?thesis
    by (auto simp: block_facts_def v3_payload_eq_Inr block_item_count_def)
next
  case (AsGPIO g)
  then have "GPIOBlock_post_init g = Inr g" using assms by (cases "GPIOBlock_post_init g") (auto simp: block_valid_def)
  from GPIOBlock_post_init_eq_Inr [OF this] AsGPIO show ?thesis
    by (auto simp: block_facts_def v3_payload_eq_Inr block_item_count_def)
qed

lemma block_validD:
  assumes "block_valid b"
  shows "0 < block_run_id b" "block_run_id b < 2 ^ 32" "0 \<le> block_sequence b" "block_sequence b < 2 ^ 32"
    "0 \<le> block_ticks b" "block_ticks b < 2 ^ 64" "block_flags b AND 8 \<noteq> 0 \<Longrightarrow> block_flags b AND 2 \<noteq> 0"
    "0 < block_period_ticks b" "0 < block_item_count b" "block_item_count b \<le> 4048"
    "block_protocol_version b = 3 \<Longrightarrow> block_rate_profile b = RP_ADC_1MHZ_GPIO_1MHZ"
proof -
  note v = block_valid_facts [OF assms, unfolded block_facts_def]
  show "0 < block_run_id b" "block_run_id b < 2 ^ 32" "0 \<le> block_sequence b" "block_sequence b < 2 ^ 32"
    "0 \<le> block_ticks b" "block_ticks b < 2 ^ 64" "block_flags b AND 8 \<noteq> 0 \<Longrightarrow> block_flags b AND 2 \<noteq> 0"
    using v by (auto simp: block_header_checks_eq_Inr)
  have "block_period_ticks b = (case b of AsADC _ \<Rightarrow> tm_adc_pair_period_ticks (timing_from_profile (block_rate_profile b))
       | AsGPIO _ \<Rightarrow> tm_gpio_sample_period_ticks (timing_from_profile (block_rate_profile b)))" using v by blast
  then show "0 < block_period_ticks b" by (cases "block_rate_profile b"; cases b) simp_all
  show "block_protocol_version b = 3 \<Longrightarrow> block_rate_profile b = RP_ADC_1MHZ_GPIO_1MHZ" using v by simp
  have bytes: "block_item_bytes b \<in> {1, 2, 4}" by (cases b; cases "block_aux_bank_mode b") auto
  have len: "0 < length (block_payload b) \<and> length (block_payload b) \<le> 4048 \<and> length (block_payload b) mod block_item_bytes b = 0"
    using v by (cases "block_aux_bank_mode b"; cases b) (auto split: if_splits)
  then have "block_item_bytes b \<le> length (block_payload b)" by (intro dvd_imp_le) (auto simp: dvd_eq_mod_eq_0)
  then show "0 < block_item_count b" using bytes by (auto simp: block_item_count_def div_greater_zero_iff)
  have "length (block_payload b) div block_item_bytes b \<le> length (block_payload b)" by (rule div_le_dividend)
  then show "block_item_count b \<le> 4048" using len unfolding block_item_count_def by linarith
qed

text \<open>Outside the equal-rate profile, ADC and GPIO blocks of one configuration cover the same time.\<close>

lemma block_coverage:
  assumes "block_valid b" "block_rate_profile b \<noteq> RP_ADC_1MHZ_GPIO_1MHZ"
  shows "block_item_count b * block_period_ticks b =
    timing_frame_coverage_ticks (timing_from_profile (block_rate_profile b)) (block_aux_bank_mode b)"
  using block_valid_facts [OF assms(1), unfolded block_facts_def] assms(2)
  by (cases b; cases "block_rate_profile b"; cases "block_aux_bank_mode b")
    (auto simp: block_item_count_def timing_frame_coverage_ticks_def split: if_splits)

text \<open>Blocks of the first protocol version with all samples zero, for concrete runs.\<close>

definition zero_gpio_block :: "int \<Rightarrow> int \<Rightarrow> data_block" where
  "zero_gpio_block sequence ticks = AsGPIO \<lparr>gb_run_id = 1, gb_sequence = sequence, gb_first_sample_ticks = ticks,
     gb_payload = replicate 4048 0, gb_flags = 0, gb_checksum_algorithm = ADLER32, gb_aux_bank_mode = AUX_DISABLED,
     gb_rate_profile = RP_ADC_1MHZ_GPIO_4MHZ, gb_protocol_version = 1, gb_encoded_payload = None\<rparr>"

definition default_metadata :: AdcBlockMetadata where
  "default_metadata = \<lparr>md_source = SRC_HARDWARE, md_timestamp_hz = 8000000, md_pair_rate_hz = 1000000, md_pair_period_ticks = 8,
     md_adc1_phase_ticks = 4, md_resolution_bits = 12, md_container_bytes = 2, md_code_min = 0, md_code_max = 4095,
     md_hardware_serial = 0, md_configuration_flags = DEFAULT_ADC_CONFIGURATION_FLAGS\<rparr>"

definition zero_adc_block :: "int \<Rightarrow> int \<Rightarrow> data_block" where
  "zero_adc_block sequence ticks = AsADC \<lparr>ab_run_id = 1, ab_sequence = sequence, ab_first_sample_ticks = ticks,
     ab_payload = replicate 4048 0, ab_flags = 0, ab_checksum_algorithm = ADLER32, ab_metadata = default_metadata,
     ab_aux_bank_mode = AUX_DISABLED, ab_rate_profile = RP_ADC_1MHZ_GPIO_4MHZ, ab_protocol_version = 1, ab_gap = None,
     ab_encoded_payload = None\<rparr>"

lemma zero_blocks_valid:
  assumes "0 \<le> sequence" "sequence < 2 ^ 32" "0 \<le> ticks" "ticks < 2 ^ 64"
  shows "block_valid (zero_gpio_block sequence ticks)" "block_valid (zero_adc_block sequence ticks)"
proof -
  have codes: "adc_payload_codes_valid (replicate 4048 0)"
    by (auto simp: adc_payload_codes_valid_def py_stride_def filter_empty_conv set_map simp del: upt_rec_numeral)
  have h: "block_header_checks 1 sequence ticks 0 ADLER32 AUX_DISABLED RP_ADC_1MHZ_GPIO_4MHZ 1 = Inr 0"
    using assms by (simp add: block_header_checks_eq_Inr)
  show "block_valid (zero_gpio_block sequence ticks)"
    using h by (simp add: block_valid_def zero_gpio_block_def GPIOBlock_post_init_def require_def)
  show "block_valid (zero_adc_block sequence ticks)"
    using h codes by (simp add: block_valid_def zero_adc_block_def ADCBlock_post_init_def require_def default_metadata_def Let_def)
qed

end
