(* ===== verification/Continuity.thy ===== *)
theory Continuity
  imports Stream_Blocks
begin

text \<open>
  Stream continuity of \<^verbatim>\<open>models.py\<close>: measuring a block against the expected sequence number and
  timestamp, classification of anomalies, and the accounting of blocks evicted from host queues.
\<close>

section \<open>Gaps\<close>

definition flag_set :: "data_block \<Rightarrow> int \<Rightarrow> bool" where
  "flag_set b flag \<longleftrightarrow> block_flags b AND flag \<noteq> 0"

definition block_evidence :: "data_block \<Rightarrow> FirmwareLossEvidence" where
  "block_evidence b = \<lparr>ev_source = block_source b, ev_gap_before = flag_set b FLAG_GAP_BEFORE,
     ev_overrun_before = flag_set b FLAG_OVERRUN_BEFORE, ev_stats_generation = None, ev_cumulative_dropped_frames = None,
     ev_cumulative_dropped_items = None, ev_cumulative_dropped_bytes = None, ev_expected_cumulative_frames = 0,
     ev_expected_cumulative_items = 0, ev_flags_match = True, ev_counters_match = None, ev_errors = []\<rparr>"

definition gap_from_expected :: "data_block \<Rightarrow> int \<Rightarrow> int \<Rightarrow> int \<Rightarrow> block_error + StreamGap option" where
  "gap_from_expected current expected_sequence expected_first_sample_ticks host_queue_drops =
     check_unsigned expected_sequence 32 (
     check_unsigned expected_first_sample_ticks 64 (
     check_nonnegative host_queue_drops (
     let missing_frames = (block_sequence current - expected_sequence) AND UINT32_MAX in
     require (missing_frames \<le> UINT32_MAX div 2) BlockValueError (
     let tick_delta = (block_ticks current - expected_first_sample_ticks) AND UINT64_MAX in
     require (tick_delta \<le> UINT64_MAX div 2) BlockValueError (
     let period = block_period_ticks current in
     require (tick_delta mod period = 0) BlockValueError (
     let missing_items = tick_delta div period;
         sequence_inferred_items = (if block_protocol_version current = 3 then None
           else Some (missing_frames * block_item_count current)) in
     require (sequence_inferred_items \<noteq> None \<longrightarrow> sequence_inferred_items = Some missing_items) BlockValueError (
     let firmware_reported = flag_set current FLAG_GAP_BEFORE in
     if missing_frames = 0 \<and> missing_items = 0 \<and> \<not> firmware_reported then Inr None
     else
       let flag_errors = (if (missing_items \<noteq> 0) \<noteq> firmware_reported
             then [''GAP_BEFORE does not match the inferred stream discontinuity''] else []) in
       bind_res (FirmwareLossEvidence_post_init ((block_evidence current)\<lparr>ev_expected_cumulative_frames := missing_frames,
         ev_expected_cumulative_items := missing_items, ev_flags_match := (flag_errors = []), ev_errors := flag_errors\<rparr>)) (\<lambda>evidence.
       map_sum id Some (StreamGap_post_init
         \<lparr>gp_kind = block_kind current, gp_run_id = block_run_id current, gp_expected_sequence = expected_sequence,
          gp_observed_sequence = block_sequence current, gp_missing_frames = missing_frames, gp_missing_items = missing_items,
          gp_expected_first_sample_ticks = expected_first_sample_ticks, gp_observed_first_sample_ticks = block_ticks current,
          gp_firmware_reported = firmware_reported, gp_firmware_overrun = flag_set current FLAG_OVERRUN_BEFORE,
          gp_host_queue_drops = min host_queue_drops missing_frames, gp_source = block_source current,
          gp_sequence_inferred_items = sequence_inferred_items, gp_firmware_evidence = Some evidence,
          gp_period_ticks = Some period, gp_frame_item_count = Some (block_item_count current),
          gp_variable_frame_items = (block_protocol_version current = 3)\<rparr>)))))))))"

definition gap_between :: "data_block \<Rightarrow> data_block \<Rightarrow> block_error + StreamGap option" where
  "gap_between previous current =
     require (block_kind previous = block_kind current) BlockValueError (
     require (block_run_id previous = block_run_id current) BlockValueError (
     require (block_period_ticks previous = block_period_ticks current \<and>
       (block_protocol_version current = 3 \<or> block_item_count previous = block_item_count current) \<and>
       block_protocol_version previous = block_protocol_version current) BlockValueError (
     gap_from_expected current ((block_sequence previous + 1) AND UINT32_MAX) (block_end_tick_exclusive previous) 0)))"

section \<open>Anomalies\<close>

datatype StreamAnomalyReason = DUPLICATE | REORDERED | STALE_RUN | TIMESTAMP_INCONSISTENT | FIRMWARE_EVIDENCE_MISMATCH
  | HOST_QUEUE_RANGE_INCONSISTENT

record StreamAnomaly =
  an_reason :: StreamAnomalyReason
  an_kind :: FrameKind
  an_source :: Source
  an_active_run_id :: int
  an_observed_run_id :: int
  an_observed_sequence :: int
  an_observed_first_sample_ticks :: int
  an_expected_sequence :: "int option"
  an_expected_first_sample_ticks :: "int option"
  an_sequence_inferred_items :: "int option"
  an_timestamp_inferred_items :: "int option"
  an_firmware_evidence :: "FirmwareLossEvidence option"
  an_occurrences :: int

definition opt_unsigned :: "int option \<Rightarrow> nat \<Rightarrow> bool" where
  "opt_unsigned v bits \<longleftrightarrow> (case v of None \<Rightarrow> True | Some n \<Rightarrow> 0 \<le> n \<and> n < push_bit bits 1)"

definition StreamAnomaly_post_init :: "StreamAnomaly \<Rightarrow> block_error + StreamAnomaly" where
  "StreamAnomaly_post_init a =
     require (an_kind a \<in> {FK_ADC_DATA, FK_GPIO_DATA}) BlockValueError (
     check_unsigned (an_active_run_id a) 32 (
     check_unsigned (an_observed_run_id a) 32 (
     require (an_active_run_id a \<noteq> 0 \<and> an_observed_run_id a \<noteq> 0) BlockValueError (
     check_unsigned (an_observed_sequence a) 32 (
     check_unsigned (an_observed_first_sample_ticks a) 64 (
     require (opt_unsigned (an_expected_sequence a) 32 \<and> opt_unsigned (an_expected_first_sample_ticks a) 64) BlockValueError (
     require (opt_nonnegative (an_sequence_inferred_items a) \<and> opt_nonnegative (an_timestamp_inferred_items a)) BlockValueError (
     require (0 < an_occurrences a) BlockValueError (
     require (case an_firmware_evidence a of None \<Rightarrow> True | Some e \<Rightarrow> ev_source e = an_source a) BlockValueError (
     Inr a))))))))))"

definition anomaly_stale_run :: "data_block \<Rightarrow> int \<Rightarrow> block_error + StreamAnomaly" where
  "anomaly_stale_run b active_run_id =
     bind_res (FirmwareLossEvidence_post_init (block_evidence b)) (\<lambda>evidence.
     StreamAnomaly_post_init \<lparr>an_reason = STALE_RUN, an_kind = block_kind b, an_source = block_source b,
       an_active_run_id = active_run_id, an_observed_run_id = block_run_id b, an_observed_sequence = block_sequence b,
       an_observed_first_sample_ticks = block_ticks b, an_expected_sequence = None, an_expected_first_sample_ticks = None,
       an_sequence_inferred_items = None, an_timestamp_inferred_items = None, an_firmware_evidence = Some evidence,
       an_occurrences = 1\<rparr>)"

definition anomaly_merged_with :: "StreamAnomaly \<Rightarrow> StreamAnomaly \<Rightarrow> block_error + StreamAnomaly" where
  "anomaly_merged_with a other =
     require (an_reason a = an_reason other \<and> an_kind a = an_kind other \<and> an_source a = an_source other \<and>
       an_active_run_id a = an_active_run_id other \<and> an_observed_run_id a = an_observed_run_id other) BlockValueError (
     StreamAnomaly_post_init (other\<lparr>an_occurrences := an_occurrences a + an_occurrences other\<rparr>))"

datatype continuity = Continuous | Gap StreamGap | Anomaly StreamAnomaly

definition max_block_items :: "data_block \<Rightarrow> int" where
  "max_block_items b = (case b of AsADC _ \<Rightarrow> int MAX_ADC_PAIRS | AsGPIO _ \<Rightarrow> int (MAX_LOGICAL_PAYLOAD_BYTES div block_item_bytes b))"

definition analyze_stream_continuity :: "data_block \<Rightarrow> int \<Rightarrow> int \<Rightarrow> int \<Rightarrow> int option \<Rightarrow> block_error + continuity" where
  "analyze_stream_continuity current expected_sequence expected_first_sample_ticks active_run_id previous_sequence =
     check_unsigned expected_sequence 32 (
     check_unsigned expected_first_sample_ticks 64 (
     check_unsigned active_run_id 32 (
     bind_res (case previous_sequence of None \<Rightarrow> Inr () | Some p \<Rightarrow>
       check_unsigned p 32 (require (expected_sequence = (p + 1) AND UINT32_MAX) BlockValueError (Inr ()))) (\<lambda>_.
     bind_res (FirmwareLossEvidence_post_init (block_evidence current)) (\<lambda>evidence.
     if block_run_id current \<noteq> active_run_id then map_sum id Anomaly (anomaly_stale_run current active_run_id)
     else
       let sequence_delta = (block_sequence current - expected_sequence) AND UINT32_MAX;
           tick_delta = (block_ticks current - expected_first_sample_ticks) AND UINT64_MAX;
           period = block_period_ticks current;
           anomaly = (\<lambda>reason seq_items tick_items ev. map_sum id Anomaly (StreamAnomaly_post_init
             \<lparr>an_reason = reason, an_kind = block_kind current, an_source = block_source current,
              an_active_run_id = active_run_id, an_observed_run_id = block_run_id current,
              an_observed_sequence = block_sequence current, an_observed_first_sample_ticks = block_ticks current,
              an_expected_sequence = Some expected_sequence, an_expected_first_sample_ticks = Some expected_first_sample_ticks,
              an_sequence_inferred_items = seq_items, an_timestamp_inferred_items = tick_items, an_firmware_evidence = Some ev,
              an_occurrences = 1\<rparr>)) in
       if UINT32_MAX div 2 < sequence_delta then
         bind_res (if ev_gap_before evidence
           then FirmwareLossEvidence_post_init (evidence\<lparr>ev_flags_match := False,
             ev_errors := [''firmware marked a gap on a duplicate or reordered frame'']\<rparr>) else Inr evidence)
           (anomaly (if previous_sequence = Some (block_sequence current) then DUPLICATE else REORDERED) None None)
       else
         let sequence_items = (if block_protocol_version current = 3 then None else Some (sequence_delta * block_item_count current));
             timestamp_items = (if tick_delta \<le> UINT64_MAX div 2 \<and> tick_delta mod period = 0 then Some (tick_delta div period) else None);
             counts_consistent = (if block_protocol_version current = 3
               then (case timestamp_items of None \<Rightarrow> False
                 | Some n \<Rightarrow> sequence_delta \<le> n \<and> n \<le> sequence_delta * max_block_items current)
               else timestamp_items = sequence_items) in
         if timestamp_items = None \<or> \<not> counts_consistent then
           bind_res (if ev_gap_before evidence \<noteq> (0 < sequence_delta)
             then FirmwareLossEvidence_post_init (evidence\<lparr>ev_flags_match := False,
               ev_errors := [''GAP_BEFORE does not match the sequence-inferred stream discontinuity'']\<rparr>) else Inr evidence)
             (anomaly TIMESTAMP_INCONSISTENT sequence_items timestamp_items)
         else if sequence_delta = 0 then
           (if \<not> ev_gap_before evidence then Inr Continuous
            else bind_res (FirmwareLossEvidence_post_init (evidence\<lparr>ev_flags_match := False,
                ev_errors := [''firmware marked a gap where continuity is complete'']\<rparr>))
              (anomaly FIRMWARE_EVIDENCE_MISMATCH (Some 0) (Some 0)))
         else bind_res (gap_from_expected current expected_sequence expected_first_sample_ticks 0) (\<lambda>g.
           Inr (case g of None \<Rightarrow> Continuous | Some gap \<Rightarrow> Gap gap)))))))"

section \<open>Host queue losses\<close>

record HostQueueLoss =
  hq_kind :: FrameKind
  hq_source :: Source
  hq_run_id :: int
  hq_first_sequence :: int
  hq_last_sequence :: int
  hq_first_sample_ticks :: int
  hq_end_sample_ticks :: int
  hq_dropped_blocks :: int
  hq_dropped_items :: int
  hq_firmware_gap_blocks :: int
  hq_firmware_overrun_blocks :: int
  hq_contiguous :: bool
  hq_period_ticks :: "int option"
  hq_frame_item_count :: "int option"
  hq_variable_frame_items :: bool

text \<open>\<^verbatim>\<open>HostQueuePolicy\<close> has the single value \<^verbatim>\<open>DROP_OLDEST_COMPLETE\<close>; the field is left out.\<close>

definition HostQueueLoss_post_init :: "HostQueueLoss \<Rightarrow> block_error + HostQueueLoss" where
  "HostQueueLoss_post_init l =
     require (hq_kind l \<in> {FK_ADC_DATA, FK_GPIO_DATA}) BlockValueError (
     let period_ticks = (case hq_period_ticks l of None \<Rightarrow> default_period (hq_kind l) | Some v \<Rightarrow> v);
         frame_item_count = (case hq_frame_item_count l of None \<Rightarrow> default_count (hq_kind l) | Some v \<Rightarrow> v) in
     require (0 < period_ticks \<and> 0 < frame_item_count) BlockValueError (
     check_unsigned (hq_run_id l) 32 (
     check_unsigned (hq_first_sequence l) 32 (
     check_unsigned (hq_last_sequence l) 32 (
     check_unsigned (hq_first_sample_ticks l) 64 (
     check_unsigned (hq_end_sample_ticks l) 64 (
     check_nonnegative (hq_dropped_blocks l) (
     check_nonnegative (hq_dropped_items l) (
     check_nonnegative (hq_firmware_gap_blocks l) (
     check_nonnegative (hq_firmware_overrun_blocks l) (
     require (hq_run_id l \<noteq> 0 \<and> hq_dropped_blocks l \<noteq> 0 \<and> hq_dropped_items l \<noteq> 0) BlockValueError (
     require (hq_variable_frame_items l \<longrightarrow> hq_dropped_blocks l \<le> hq_dropped_items l) BlockValueError (
     require (\<not> hq_variable_frame_items l \<longrightarrow> hq_dropped_items l = hq_dropped_blocks l * frame_item_count) BlockValueError (
     require (hq_firmware_gap_blocks l \<le> hq_dropped_blocks l) BlockValueError (
     require (hq_firmware_overrun_blocks l \<le> hq_firmware_gap_blocks l) BlockValueError (
     require (hq_contiguous l \<longrightarrow>
       hq_last_sequence l = (hq_first_sequence l + hq_dropped_blocks l - 1) AND UINT32_MAX) BlockValueError (
     require (hq_contiguous l \<longrightarrow>
       hq_end_sample_ticks l = (hq_first_sample_ticks l + hq_dropped_items l * period_ticks) AND UINT64_MAX) BlockValueError (
     Inr (l\<lparr>hq_period_ticks := Some period_ticks, hq_frame_item_count := Some frame_item_count\<rparr>)))))))))))))))))))"

definition loss_from_block :: "data_block \<Rightarrow> block_error + HostQueueLoss" where
  "loss_from_block b = HostQueueLoss_post_init
     \<lparr>hq_kind = block_kind b, hq_source = block_source b, hq_run_id = block_run_id b, hq_first_sequence = block_sequence b,
      hq_last_sequence = block_sequence b, hq_first_sample_ticks = block_ticks b, hq_end_sample_ticks = block_end_tick_exclusive b,
      hq_dropped_blocks = 1, hq_dropped_items = block_item_count b, hq_firmware_gap_blocks = of_bool (flag_set b FLAG_GAP_BEFORE),
      hq_firmware_overrun_blocks = of_bool (flag_set b FLAG_OVERRUN_BEFORE), hq_contiguous = True,
      hq_period_ticks = Some (block_period_ticks b), hq_frame_item_count = Some (block_item_count b),
      hq_variable_frame_items = (block_protocol_version b = 3)\<rparr>"

definition same_layout :: "HostQueueLoss \<Rightarrow> HostQueueLoss \<Rightarrow> bool" where
  "same_layout l other \<longleftrightarrow> hq_kind l = hq_kind other \<and> hq_source l = hq_source other \<and> hq_run_id l = hq_run_id other \<and>
     the (hq_period_ticks l) = the (hq_period_ticks other) \<and> hq_variable_frame_items l = hq_variable_frame_items other \<and>
     (hq_variable_frame_items l \<or> the (hq_frame_item_count l) = the (hq_frame_item_count other))"

definition can_merge :: "HostQueueLoss \<Rightarrow> HostQueueLoss \<Rightarrow> bool" where
  "can_merge l other \<longleftrightarrow> same_layout l other \<and> hq_first_sequence other = (hq_last_sequence l + 1) AND UINT32_MAX \<and>
     hq_first_sample_ticks other = hq_end_sample_ticks l"

definition join_losses :: "bool \<Rightarrow> HostQueueLoss \<Rightarrow> HostQueueLoss \<Rightarrow> HostQueueLoss" where
  "join_losses contiguous l other = l\<lparr>hq_last_sequence := hq_last_sequence other, hq_end_sample_ticks := hq_end_sample_ticks other,
     hq_dropped_blocks := hq_dropped_blocks l + hq_dropped_blocks other, hq_dropped_items := hq_dropped_items l + hq_dropped_items other,
     hq_firmware_gap_blocks := hq_firmware_gap_blocks l + hq_firmware_gap_blocks other,
     hq_firmware_overrun_blocks := hq_firmware_overrun_blocks l + hq_firmware_overrun_blocks other, hq_contiguous := contiguous\<rparr>"

definition loss_merged_with :: "HostQueueLoss \<Rightarrow> HostQueueLoss \<Rightarrow> block_error + HostQueueLoss" where
  "loss_merged_with l other = require (can_merge l other) BlockValueError (HostQueueLoss_post_init (join_losses True l other))"

definition loss_aggregated_with :: "HostQueueLoss \<Rightarrow> HostQueueLoss \<Rightarrow> block_error + HostQueueLoss" where
  "loss_aggregated_with l other = require (same_layout l other) BlockValueError (
     if can_merge l other \<and> hq_contiguous l \<and> hq_contiguous other then loss_merged_with l other
     else HostQueueLoss_post_init (join_losses False l other))"

section \<open>Measuring a gap\<close>

abbreviation "seq_delta b expected \<equiv> (block_sequence b - expected) mod 2 ^ 32"
abbreviation "tick_delta b expected \<equiv> (block_ticks b - expected) mod 2 ^ 64"

lemma UINT_MAX_half: "UINT32_MAX div 2 = 2 ^ 31 - 1" "UINT64_MAX div 2 = 2 ^ 63 - 1"
  by (simp_all add: UINT32_MAX_def UINT64_MAX_def)

lemma block_kind_data [simp]: "block_kind b \<in> {FK_ADC_DATA, FK_GPIO_DATA}" "block_kind b = FK_ADC_DATA \<or> block_kind b = FK_GPIO_DATA"
  by (cases b; simp)+

lemma require_ok: "c \<Longrightarrow> require c e k = k"
  by simp

lemma delta_recovers: "(0 :: int) \<le> v \<Longrightarrow> v < m \<Longrightarrow> (e + (v - e) mod m) mod m = v"
  by (simp add: mod_add_right_eq)

lemma evidence_ok:
  "block_valid b \<Longrightarrow> 0 \<le> m \<Longrightarrow> 0 \<le> n \<Longrightarrow> \<forall>s \<in> set errs. s \<noteq> [] \<Longrightarrow>
     FirmwareLossEvidence_post_init ((block_evidence b)\<lparr>ev_expected_cumulative_frames := m, ev_expected_cumulative_items := n,
       ev_flags_match := fm, ev_errors := errs\<rparr>) =
     Inr ((block_evidence b)\<lparr>ev_expected_cumulative_frames := m, ev_expected_cumulative_items := n, ev_flags_match := fm, ev_errors := errs\<rparr>)"
  using block_validD(7) [of b]
  by (simp add: FirmwareLossEvidence_post_init_def block_evidence_def check_nonnegative_def require_def opt_nonnegative_def flag_set_def)

text \<open>The two measures agree: a whole number of items for whole frames, none for none.\<close>

definition measures_agree :: "data_block \<Rightarrow> int \<Rightarrow> int \<Rightarrow> bool" where
  "measures_agree b frames items \<longleftrightarrow>
     (if block_protocol_version b = 3 then (frames \<noteq> 0) = (items \<noteq> 0) \<and> frames \<le> items else frames * block_item_count b = items)"

lemma StreamGap_post_init_ok:
  assumes "gp_kind g \<in> {FK_ADC_DATA, FK_GPIO_DATA}" "0 < gp_run_id g" "gp_run_id g < 2 ^ 32"
    and "0 \<le> gp_expected_sequence g" "gp_expected_sequence g < 2 ^ 32" "0 \<le> gp_observed_sequence g" "gp_observed_sequence g < 2 ^ 32"
    and "0 \<le> gp_expected_first_sample_ticks g" "gp_expected_first_sample_ticks g < 2 ^ 64"
    and "0 \<le> gp_observed_first_sample_ticks g" "gp_observed_first_sample_ticks g < 2 ^ 64"
    and "0 \<le> gp_missing_frames g" "gp_missing_frames g < 2 ^ 32" "0 \<le> gp_missing_items g" "gp_missing_items g < 2 ^ 64"
    and "0 \<le> gp_host_queue_drops g" "gp_firmware_overrun g \<Longrightarrow> gp_firmware_reported g"
    and "gp_period_ticks g = Some p" "0 < p" "gp_frame_item_count g = Some n" "0 < n"
    and "gp_variable_frame_items g \<Longrightarrow>
       (gp_missing_frames g \<noteq> 0) = (gp_missing_items g \<noteq> 0) \<and> gp_missing_frames g \<le> gp_missing_items g"
    and "gp_sequence_inferred_items g = (if gp_variable_frame_items g then None else Some (gp_missing_items g))"
    and "gp_firmware_evidence g = Some e" "ev_source e = gp_source g" "ev_gap_before e = gp_firmware_reported g"
      "ev_overrun_before e = gp_firmware_overrun g"
    and "gp_observed_sequence g = (gp_expected_sequence g + gp_missing_frames g) mod 2 ^ 32"
    and "gp_observed_first_sample_ticks g = (gp_expected_first_sample_ticks g + gp_missing_items g * p) mod 2 ^ 64"
  shows "StreamGap_post_init g = Inr g"
  unfolding StreamGap_post_init_def Let_def and_UINT_MAX
  using assms by (simp add: check_unsigned_ok check_nonnegative_ok opt_nonnegative_def)

lemma gap_from_expected_ok:
  assumes b: "block_valid b" and e: "0 \<le> es" "es < 2 ^ 32" "0 \<le> et" "et < 2 ^ 64" "0 \<le> drops"
    and ff: "seq_delta b es = f" "f \<le> 2 ^ 31 - 1" and tt: "tick_delta b et = n * block_period_ticks b" "tick_delta b et \<le> 2 ^ 63 - 1"
    and agree: "measures_agree b f n"
  shows "if f = 0 \<and> n = 0 \<and> \<not> flag_set b FLAG_GAP_BEFORE then gap_from_expected b es et drops = Inr None
    else \<exists>g. gap_from_expected b es et drops = Inr (Some g) \<and> gp_kind g = block_kind b \<and> gp_run_id g = block_run_id b \<and>
      gp_expected_sequence g = es \<and> gp_observed_sequence g = block_sequence b \<and> gp_missing_frames g = f \<and>
      gp_missing_items g = n \<and> gp_expected_first_sample_ticks g = et \<and>
      gp_observed_first_sample_ticks g = block_ticks b \<and> gp_firmware_reported g = flag_set b FLAG_GAP_BEFORE \<and>
      gp_firmware_overrun g = flag_set b FLAG_OVERRUN_BEFORE \<and>
      gp_period_ticks g = Some (block_period_ticks b) \<and> gp_frame_item_count g = Some (block_item_count b)"
proof -
  let ?p = "block_period_ticks b"
  note v = block_validD [OF b]
  have f: "0 \<le> f" "f < 2 ^ 32" unfolding ff(1) [symmetric] by simp_all
  have t: "0 \<le> n * ?p" "n * ?p < 2 ^ 64" unfolding tt(1) [symmetric] by simp_all
  have n0: "0 \<le> n" using t(1) v(8) by (simp add: zero_le_mult_iff)
  have n1: "n < 2 ^ 64" using mult_left_mono [OF _ n0, of 1 ?p] v(8) t(2) by simp
  have over: "flag_set b FLAG_OVERRUN_BEFORE \<Longrightarrow> flag_set b FLAG_GAP_BEFORE" using v(7) by (simp add: flag_set_def)
  have recov: "(es + f) mod 2 ^ 32 = block_sequence b" "(et + n * ?p) mod 2 ^ 64 = block_ticks b"
    unfolding ff(1) [symmetric] tt(1) [symmetric] using v(3-6) by (simp_all add: delta_recovers)
  let ?errs = "if (n \<noteq> 0) \<noteq> flag_set b FLAG_GAP_BEFORE then [''GAP_BEFORE does not match the inferred stream discontinuity''] else []"
  let ?ev = "(block_evidence b)\<lparr>ev_expected_cumulative_frames := f, ev_expected_cumulative_items := n,
      ev_flags_match := (?errs = []), ev_errors := ?errs\<rparr>"
  let ?si = "if block_protocol_version b = 3 then None else Some (f * block_item_count b)"
  let ?g = "\<lparr>gp_kind = block_kind b, gp_run_id = block_run_id b, gp_expected_sequence = es,
          gp_observed_sequence = block_sequence b, gp_missing_frames = f, gp_missing_items = n,
          gp_expected_first_sample_ticks = et, gp_observed_first_sample_ticks = block_ticks b,
          gp_firmware_reported = flag_set b FLAG_GAP_BEFORE, gp_firmware_overrun = flag_set b FLAG_OVERRUN_BEFORE,
          gp_host_queue_drops = min drops f, gp_source = block_source b,
          gp_sequence_inferred_items = ?si, gp_firmware_evidence = Some ?ev,
          gp_period_ticks = Some ?p, gp_frame_item_count = Some (block_item_count b),
          gp_variable_frame_items = (block_protocol_version b = 3)\<rparr>"
  have ev: "FirmwareLossEvidence_post_init ?ev = Inr ?ev" using evidence_ok [OF b f(1) n0] by simp
  have gap: "StreamGap_post_init ?g = Inr ?g"
    by (rule StreamGap_post_init_ok [where p = ?p and n = "block_item_count b" and e = ?ev])
      (use v e f n0 n1 over agree recov in \<open>simp_all add: measures_agree_def block_evidence_def\<close>)
  have half: "n * ?p \<le> 2 ^ 63 - 1" using tt by simp
  have div: "n * ?p mod ?p = 0" "n * ?p div ?p = n" using v(8) by simp_all
  have si: "?si \<noteq> None \<longrightarrow> ?si = Some n" using agree by (simp add: measures_agree_def)
  have "gap_from_expected b es et drops = (if f = 0 \<and> n = 0 \<and> \<not> flag_set b FLAG_GAP_BEFORE then Inr None else Inr (Some ?g))"
    unfolding gap_from_expected_def Let_def and_UINT_MAX UINT_MAX_half ff(1) tt(1) div
    by (simp only: check_unsigned_ok [OF e(1,2)] check_unsigned_ok [OF e(3,4)] check_nonnegative_ok [OF e(5)] require_ok [OF ff(2)]
        require_ok [OF half] require_ok [OF refl] require_ok [OF si] ev bind_res_simps gap map_sum.simps)
  then show ?thesis by simp
qed

section \<open>Classification\<close>

lemma block_evidence_ok:
  "block_valid b \<Longrightarrow> FirmwareLossEvidence_post_init (block_evidence b) = Inr (block_evidence b)"
  "block_valid b \<Longrightarrow> s \<noteq> [] \<Longrightarrow> FirmwareLossEvidence_post_init ((block_evidence b)\<lparr>ev_flags_match := False, ev_errors := [s]\<rparr>)
     = Inr ((block_evidence b)\<lparr>ev_flags_match := False, ev_errors := [s]\<rparr>)"
  using block_validD(7) [of b]
  by (simp_all add: FirmwareLossEvidence_post_init_def block_evidence_def check_nonnegative_def require_def opt_nonnegative_def flag_set_def)

lemma StreamAnomaly_post_init_ok:
  assumes "block_valid b" "an_kind a = block_kind b" "an_source a = block_source b" "an_observed_run_id a = block_run_id b"
    and "0 < an_active_run_id a" "an_active_run_id a < 2 ^ 32" "an_observed_sequence a = block_sequence b"
    and "an_observed_first_sample_ticks a = block_ticks b" "an_occurrences a = 1"
    and "opt_unsigned (an_expected_sequence a) 32" "opt_unsigned (an_expected_first_sample_ticks a) 64"
    and "opt_nonnegative (an_sequence_inferred_items a)" "opt_nonnegative (an_timestamp_inferred_items a)"
    and "an_firmware_evidence a = Some e" "ev_source e = block_source b"
  shows "StreamAnomaly_post_init a = Inr a"
  unfolding StreamAnomaly_post_init_def using assms block_validD(1-6) [OF assms(1)]
  by (simp add: check_unsigned_ok)

text \<open>Timestamp and sequence number describe the same number of missing frames.\<close>

definition consistent_deltas :: "data_block \<Rightarrow> int \<Rightarrow> int \<Rightarrow> bool" where
  "consistent_deltas b f t \<longleftrightarrow> t < 2 ^ 63 \<and> t mod block_period_ticks b = 0 \<and>
     (if block_protocol_version b = 3 then f \<le> t div block_period_ticks b \<and> t div block_period_ticks b \<le> f * max_block_items b
      else t div block_period_ticks b = f * block_item_count b)"

definition continuity_holds :: "data_block \<Rightarrow> int \<Rightarrow> int \<Rightarrow> int \<Rightarrow> int option \<Rightarrow> continuity \<Rightarrow> bool" where
  "continuity_holds b es et run prev r \<longleftrightarrow> (case r of
     Continuous \<Rightarrow> block_run_id b = run \<and> block_sequence b = es \<and> block_ticks b = et \<and> \<not> flag_set b FLAG_GAP_BEFORE
   | Gap g \<Rightarrow> block_run_id b = run \<and> 0 < gp_missing_frames g \<and> gp_missing_frames g < 2 ^ 31 \<and>
       block_sequence b = (es + gp_missing_frames g) mod 2 ^ 32 \<and>
       block_ticks b = (et + gp_missing_items g * block_period_ticks b) mod 2 ^ 64 \<and>
       (if block_protocol_version b = 3
        then gp_missing_frames g \<le> gp_missing_items g \<and> gp_missing_items g \<le> gp_missing_frames g * max_block_items b
        else gp_missing_items g = gp_missing_frames g * block_item_count b) \<and>
       gp_firmware_reported g = flag_set b FLAG_GAP_BEFORE
   | Anomaly a \<Rightarrow> (case an_reason a of
       STALE_RUN \<Rightarrow> block_run_id b \<noteq> run
     | DUPLICATE \<Rightarrow> block_run_id b = run \<and> prev = Some (block_sequence b)
     | REORDERED \<Rightarrow> block_run_id b = run \<and> prev \<noteq> Some (block_sequence b) \<and> 2 ^ 31 \<le> seq_delta b es
     | TIMESTAMP_INCONSISTENT \<Rightarrow> block_run_id b = run \<and> seq_delta b es < 2 ^ 31 \<and>
         \<not> consistent_deltas b (seq_delta b es) (tick_delta b et)
     | FIRMWARE_EVIDENCE_MISMATCH \<Rightarrow> block_run_id b = run \<and> block_sequence b = es \<and> block_ticks b = et \<and> flag_set b FLAG_GAP_BEFORE
     | HOST_QUEUE_RANGE_INCONSISTENT \<Rightarrow> False))"

lemma analyze_classifies:
  assumes b: "block_valid b" and e: "0 \<le> es" "es < 2 ^ 32" "0 \<le> et" "et < 2 ^ 64" and run: "0 < run" "run < 2 ^ 32"
    and prev: "case prev of None \<Rightarrow> True | Some p \<Rightarrow> 0 \<le> p \<and> p < 2 ^ 32 \<and> es = (p + 1) mod 2 ^ 32"
  shows "\<exists>r. analyze_stream_continuity b es et run prev = Inr r \<and> continuity_holds b es et run prev r"
proof -
  define f where "f = seq_delta b es"
  define t where "t = tick_delta b et"
  let ?p = "block_period_ticks b" and ?ev = "block_evidence b"
  note v = block_validD [OF b]
  have f0: "0 \<le> f" "f < 2 ^ 32" and t0: "0 \<le> t" "t < 2 ^ 64" by (simp_all add: f_def t_def)
  have pr: "(case prev of None \<Rightarrow> Inr () | Some p \<Rightarrow> check_unsigned p 32 (require (es = (p + 1) mod 2 ^ 32) BlockValueError (Inr ()))) = Inr ()"
    using prev by (simp add: check_unsigned_ok split: option.splits)
  let ?an = "\<lambda>reason si ti ev. \<lparr>an_reason = reason, an_kind = block_kind b, an_source = block_source b,
      an_active_run_id = run, an_observed_run_id = block_run_id b, an_observed_sequence = block_sequence b,
      an_observed_first_sample_ticks = block_ticks b, an_expected_sequence = Some es, an_expected_first_sample_ticks = Some et,
      an_sequence_inferred_items = si, an_timestamp_inferred_items = ti, an_firmware_evidence = Some ev, an_occurrences = 1\<rparr>"
  have an: "StreamAnomaly_post_init (?an reason si ti ev) = Inr (?an reason si ti ev)"
    if "opt_nonnegative si" "opt_nonnegative ti" "ev_source ev = block_source b" for reason si ti ev
    by (rule StreamAnomaly_post_init_ok [OF b]) (use that run e in \<open>simp_all add: opt_unsigned_def push_bit_eq_mult\<close>)
  have src: "ev_source ?ev = block_source b" "ev_gap_before ?ev = flag_set b FLAG_GAP_BEFORE" by (simp_all add: block_evidence_def)
  note ev = block_evidence_ok [OF b]
  note checks = check_unsigned_ok [OF e(1,2)] check_unsigned_ok [OF e(3,4)] check_unsigned_ok [OF order_less_imp_le [OF run(1)] run(2)]
  note unf = analyze_stream_continuity_def Let_def and_UINT_MAX UINT_MAX_half f_def [symmetric] t_def [symmetric] pr checks ev(1) bind_res_simps
  show ?thesis
  proof (cases "block_run_id b = run")
    case False
    let ?a = "\<lparr>an_reason = STALE_RUN, an_kind = block_kind b, an_source = block_source b,
       an_active_run_id = run, an_observed_run_id = block_run_id b, an_observed_sequence = block_sequence b,
       an_observed_first_sample_ticks = block_ticks b, an_expected_sequence = None, an_expected_first_sample_ticks = None,
       an_sequence_inferred_items = None, an_timestamp_inferred_items = None, an_firmware_evidence = Some ?ev, an_occurrences = 1\<rparr>"
    have "StreamAnomaly_post_init ?a = Inr ?a"
      by (rule StreamAnomaly_post_init_ok [OF b]) (use run src in \<open>simp_all add: opt_unsigned_def opt_nonnegative_def\<close>)
    then have "analyze_stream_continuity b es et run prev = Inr (Anomaly ?a)"
      unfolding unf anomaly_stale_run_def using False by simp
    then show ?thesis using False by (simp add: continuity_holds_def)
  next
    case same: True
    show ?thesis
    proof (cases "2 ^ 31 \<le> f")
      case True
      let ?r = "if prev = Some (block_sequence b) then DUPLICATE else REORDERED"
      let ?e = "if flag_set b FLAG_GAP_BEFORE then ?ev\<lparr>ev_flags_match := False,
        ev_errors := [''firmware marked a gap on a duplicate or reordered frame'']\<rparr> else ?ev"
      have "analyze_stream_continuity b es et run prev = Inr (Anomaly (?an ?r None None ?e))"
        unfolding unf using same True src ev(2) an by (simp add: opt_nonnegative_def)
      then show ?thesis using same True by (simp add: continuity_holds_def f_def)
    next
      case small: False
      let ?si = "if block_protocol_version b = 3 then None else Some (f * block_item_count b)"
      let ?ti = "if t \<le> 2 ^ 63 - 1 \<and> t mod ?p = 0 then Some (t div ?p) else None"
      have nn: "opt_nonnegative ?si" "opt_nonnegative ?ti"
        using f0 t0 v(8,9) by (simp_all add: opt_nonnegative_def pos_imp_zdiv_nonneg_iff)
      have cons: "\<not> (?ti = None \<or> \<not> (if block_protocol_version b = 3
               then (case ?ti of None \<Rightarrow> False | Some n \<Rightarrow> f \<le> n \<and> n \<le> f * max_block_items b)
               else ?ti = ?si)) \<longleftrightarrow> consistent_deltas b f t"
        by (auto simp: consistent_deltas_def)
      show ?thesis
      proof (cases "consistent_deltas b f t")
        case False
        let ?e = "if flag_set b FLAG_GAP_BEFORE \<noteq> (0 < f) then ?ev\<lparr>ev_flags_match := False,
          ev_errors := [''GAP_BEFORE does not match the sequence-inferred stream discontinuity'']\<rparr> else ?ev"
        have "analyze_stream_continuity b es et run prev = Inr (Anomaly (?an TIMESTAMP_INCONSISTENT ?si ?ti ?e))"
          unfolding unf using same small src ev(2) an nn False cons by simp
        then show ?thesis using same small False by (simp add: continuity_holds_def f_def t_def)
      next
        case True
        have ncond: "\<not> (?ti = None \<or> \<not> (if block_protocol_version b = 3
               then (case ?ti of None \<Rightarrow> False | Some n \<Rightarrow> f \<le> n \<and> n \<le> f * max_block_items b)
               else ?ti = ?si))" using True cons by blast
        have n: "t div ?p * ?p = t" using True by (simp add: consistent_deltas_def mult.commute minus_mod_eq_mult_div [symmetric])
        show ?thesis
        proof (cases "f = 0")
          case zero: True
          have "t div ?p = 0" using True zero t0 v(8) by (auto simp: consistent_deltas_def pos_imp_zdiv_nonneg_iff split: if_splits)
          then have eq: "block_sequence b = es" "block_ticks b = et"
            using n zero delta_recovers [of "block_sequence b" "2 ^ 32" es] delta_recovers [of "block_ticks b" "2 ^ 64" et] v(3-6) e
            by (simp_all add: f_def t_def)
          let ?e = "?ev\<lparr>ev_flags_match := False, ev_errors := [''firmware marked a gap where continuity is complete'']\<rparr>"
          have "analyze_stream_continuity b es et run prev = (if flag_set b FLAG_GAP_BEFORE
              then Inr (Anomaly (?an FIRMWARE_EVIDENCE_MISMATCH (Some 0) (Some 0) ?e)) else Inr Continuous)"
            unfolding unf if_not_P [OF ncond]
            using same small src ev(2) an [of "Some 0" "Some 0" ?e] zero by (simp add: opt_nonnegative_def)
          then show ?thesis using same eq by (simp add: continuity_holds_def)
        next
          case gap: False
          have agree: "measures_agree b f (t div ?p)"
            using True gap f0 by (auto simp: measures_agree_def consistent_deltas_def split: if_splits)
          have lim: "f \<le> 2 ^ 31 - 1" "t \<le> 2 ^ 63 - 1" using small True by (simp_all add: consistent_deltas_def)
          from gap_from_expected_ok [OF b e order_refl f_def [symmetric] lim(1) _ _ agree] n lim(2) gap obtain g where
            g: "gap_from_expected b es et 0 = Inr (Some g)" "gp_missing_frames g = f" "gp_missing_items g = t div ?p"
              "gp_firmware_reported g = flag_set b FLAG_GAP_BEFORE" by (auto simp: t_def)
          have "analyze_stream_continuity b es et run prev = Inr (Gap g)"
            unfolding unf if_not_P [OF ncond] using same small gap g(1) by simp
          moreover have "block_sequence b = (es + f) mod 2 ^ 32" "block_ticks b = (et + t) mod 2 ^ 64"
            unfolding f_def t_def using v(3-6) by (simp_all add: delta_recovers)
          ultimately show ?thesis using same gap f0 lim True g n by (auto simp: continuity_holds_def consistent_deltas_def)
        qed
      qed
    qed
  qed
qed

section \<open>Eviction accounting\<close>

definition loss_ok :: "HostQueueLoss \<Rightarrow> int \<Rightarrow> int \<Rightarrow> bool" where
  "loss_ok l p n \<longleftrightarrow> hq_kind l \<in> {FK_ADC_DATA, FK_GPIO_DATA} \<and> hq_period_ticks l = Some p \<and> hq_frame_item_count l = Some n \<and>
     0 < p \<and> 0 < n \<and> 0 < hq_run_id l \<and> hq_run_id l < 2 ^ 32 \<and> 0 \<le> hq_first_sequence l \<and> hq_first_sequence l < 2 ^ 32 \<and>
     0 \<le> hq_last_sequence l \<and> hq_last_sequence l < 2 ^ 32 \<and> 0 \<le> hq_first_sample_ticks l \<and> hq_first_sample_ticks l < 2 ^ 64 \<and>
     0 \<le> hq_end_sample_ticks l \<and> hq_end_sample_ticks l < 2 ^ 64 \<and> 0 < hq_dropped_blocks l \<and> 0 < hq_dropped_items l \<and>
     0 \<le> hq_firmware_overrun_blocks l \<and> hq_firmware_overrun_blocks l \<le> hq_firmware_gap_blocks l \<and>
     hq_firmware_gap_blocks l \<le> hq_dropped_blocks l \<and>
     (if hq_variable_frame_items l then hq_dropped_blocks l \<le> hq_dropped_items l else hq_dropped_items l = hq_dropped_blocks l * n) \<and>
     (hq_contiguous l \<longrightarrow> hq_last_sequence l = (hq_first_sequence l + hq_dropped_blocks l - 1) mod 2 ^ 32 \<and>
       hq_end_sample_ticks l = (hq_first_sample_ticks l + hq_dropped_items l * p) mod 2 ^ 64)"

lemma HostQueueLoss_post_init_ok: "loss_ok l p n \<Longrightarrow> HostQueueLoss_post_init l = Inr l"
  unfolding HostQueueLoss_post_init_def Let_def and_UINT_MAX loss_ok_def
  by (simp add: check_unsigned_ok check_nonnegative_ok split: if_splits)

text \<open>The losses of a queue that evicts one block after the other.\<close>

fun evict_blocks :: "HostQueueLoss \<Rightarrow> data_block list \<Rightarrow> block_error + HostQueueLoss" where
  "evict_blocks l [] = Inr l"
| "evict_blocks l (b # bs) = bind_res (loss_from_block b) (\<lambda>other. bind_res (loss_aggregated_with l other) (\<lambda>l'. evict_blocks l' bs))"

definition same_stream :: "data_block \<Rightarrow> data_block \<Rightarrow> bool" where
  "same_stream a b \<longleftrightarrow> block_kind a = block_kind b \<and> block_source a = block_source b \<and> block_run_id a = block_run_id b \<and>
     block_period_ticks a = block_period_ticks b \<and> (block_protocol_version a = 3) = (block_protocol_version b = 3) \<and>
     (block_protocol_version a = 3 \<or> block_item_count a = block_item_count b)"

definition follows :: "data_block \<Rightarrow> data_block \<Rightarrow> bool" where
  "follows a b \<longleftrightarrow> block_sequence b = (block_sequence a + 1) mod 2 ^ 32 \<and> block_ticks b = block_end_tick_exclusive a"

text \<open>\<open>l\<close> accounts for the evicted blocks \<open>bs\<close>.\<close>

definition accounts :: "HostQueueLoss \<Rightarrow> data_block list \<Rightarrow> bool" where
  "accounts l bs \<longleftrightarrow> bs \<noteq> [] \<and> loss_ok l (block_period_ticks (hd bs)) (block_item_count (hd bs)) \<and>
     hq_kind l = block_kind (hd bs) \<and> hq_source l = block_source (hd bs) \<and> hq_run_id l = block_run_id (hd bs) \<and>
     hq_variable_frame_items l = (block_protocol_version (hd bs) = 3) \<and>
     hq_first_sequence l = block_sequence (hd bs) \<and> hq_last_sequence l = block_sequence (last bs) \<and>
     hq_first_sample_ticks l = block_ticks (hd bs) \<and> hq_end_sample_ticks l = block_end_tick_exclusive (last bs) \<and>
     hq_dropped_blocks l = int (length bs) \<and> hq_dropped_items l = (\<Sum>b\<leftarrow>bs. block_item_count b) \<and>
     hq_contiguous l = successively follows bs"

lemma loss_from_block_ok:
  assumes "block_valid b"
  shows "\<exists>l. loss_from_block b = Inr l \<and> accounts l [b] \<and> hq_contiguous l"
proof -
  let ?l = "\<lparr>hq_kind = block_kind b, hq_source = block_source b, hq_run_id = block_run_id b, hq_first_sequence = block_sequence b,
      hq_last_sequence = block_sequence b, hq_first_sample_ticks = block_ticks b, hq_end_sample_ticks = block_end_tick_exclusive b,
      hq_dropped_blocks = 1, hq_dropped_items = block_item_count b, hq_firmware_gap_blocks = of_bool (flag_set b FLAG_GAP_BEFORE),
      hq_firmware_overrun_blocks = of_bool (flag_set b FLAG_OVERRUN_BEFORE), hq_contiguous = True,
      hq_period_ticks = Some (block_period_ticks b), hq_frame_item_count = Some (block_item_count b),
      hq_variable_frame_items = (block_protocol_version b = 3)\<rparr>"
  note v = block_validD [OF assms]
  have ok: "loss_ok ?l (block_period_ticks b) (block_item_count b)"
    using v by (auto simp: loss_ok_def block_end_tick_exclusive_def and_UINT_MAX flag_set_def)
  then have "accounts ?l [b]" by (simp add: accounts_def)
  then show ?thesis using HostQueueLoss_post_init_ok [OF ok] by (simp add: loss_from_block_def)
qed

lemma join_losses_ok:
  assumes L: "loss_ok l p n" and O: "loss_ok other p m" and var: "hq_variable_frame_items l = hq_variable_frame_items other"
    "\<not> hq_variable_frame_items l \<Longrightarrow> m = n"
    and seq: "c \<Longrightarrow> hq_last_sequence other = (hq_first_sequence l + (hq_dropped_blocks l + hq_dropped_blocks other) - 1) mod 2 ^ 32 \<and>
        hq_end_sample_ticks other = (hq_first_sample_ticks l + (hq_dropped_items l + hq_dropped_items other) * p) mod 2 ^ 64"
  shows "loss_ok (join_losses c l other) p n"
proof -
  have items: "if hq_variable_frame_items l then hq_dropped_blocks l + hq_dropped_blocks other \<le> hq_dropped_items l + hq_dropped_items other
     else hq_dropped_items l + hq_dropped_items other = (hq_dropped_blocks l + hq_dropped_blocks other) * n"
    using L O var by (cases "hq_variable_frame_items l") (simp_all add: loss_ok_def distrib_right)
  show ?thesis using L [unfolded loss_ok_def] O [unfolded loss_ok_def] seq items
    unfolding loss_ok_def join_losses_def by (cases "hq_variable_frame_items l") simp_all
qed

lemma loss_aggregated_ok:
  assumes l: "accounts l bs" and o: "accounts other [b]" "hq_contiguous other" and s: "same_stream (hd bs) b"
  shows "\<exists>l'. loss_aggregated_with l other = Inr l' \<and> accounts l' (bs @ [b])"
proof -
  let ?c = "can_merge l other \<and> hq_contiguous l \<and> hq_contiguous other"
  let ?j = "join_losses ?c l other"
  have lay: "same_layout l other"
    using l o(1) s by (auto simp: accounts_def same_layout_def loss_ok_def same_stream_def)
  have c: "?c \<longleftrightarrow> successively follows (bs @ [b])"
    using l o lay by (auto simp: can_merge_def accounts_def successively_append_iff follows_def and_UINT_MAX)
  have "loss_ok ?j (block_period_ticks (hd bs)) (block_item_count (hd bs))"
  proof -
    have L: "loss_ok l (block_period_ticks (hd bs)) (block_item_count (hd bs))"
      and O: "loss_ok other (block_period_ticks b) (block_item_count b)" using l o by (simp_all add: accounts_def)
    have p: "block_period_ticks b = block_period_ticks (hd bs)" using s by (simp add: same_stream_def)
    have var: "hq_variable_frame_items l = hq_variable_frame_items other"
      "\<not> hq_variable_frame_items l \<Longrightarrow> block_item_count b = block_item_count (hd bs)"
      using l o s by (auto simp: accounts_def same_stream_def)
    have seq: "hq_last_sequence other = (hq_first_sequence l + (hq_dropped_blocks l + hq_dropped_blocks other) - 1) mod 2 ^ 32 \<and>
        hq_end_sample_ticks other = (hq_first_sample_ticks l + (hq_dropped_items l + hq_dropped_items other) * block_period_ticks (hd bs)) mod 2 ^ 64"
      if ?c
    proof -
      have "hq_last_sequence other = (hq_last_sequence l + 1) mod 2 ^ 32" "hq_dropped_blocks other = 1"
        using that o by (auto simp: can_merge_def accounts_def and_UINT_MAX)
      moreover have "hq_last_sequence l = (hq_first_sequence l + hq_dropped_blocks l - 1) mod 2 ^ 32"
        "hq_end_sample_ticks l = (hq_first_sample_ticks l + hq_dropped_items l * block_period_ticks (hd bs)) mod 2 ^ 64"
        using that L by (simp_all add: loss_ok_def)
      moreover have "hq_end_sample_ticks other = (hq_end_sample_ticks l + hq_dropped_items other * block_period_ticks (hd bs)) mod 2 ^ 64"
        using that O p by (simp add: loss_ok_def can_merge_def)
      ultimately show ?thesis by (simp add: mod_add_left_eq distrib_right add.assoc)
    qed
    show ?thesis by (rule join_losses_ok [OF L O [unfolded p] var(1) var(2) seq])
  qed
  then have "accounts ?j (bs @ [b])" using l o c by (auto simp: accounts_def join_losses_def)
  moreover have "loss_aggregated_with l other = HostQueueLoss_post_init ?j"
    using lay by (cases ?c) (simp_all add: loss_aggregated_with_def loss_merged_with_def del: de_Morgan_conj)
  ultimately show ?thesis using HostQueueLoss_post_init_ok by (auto simp: accounts_def)
qed

lemma evict_blocks_ok:
  assumes "accounts l bs" "\<forall>b \<in> set cs. block_valid b \<and> same_stream (hd bs) b"
  shows "\<exists>l'. evict_blocks l cs = Inr l' \<and> accounts l' (bs @ cs)"
  using assms
proof (induction cs arbitrary: l bs)
  case (Cons c cs)
  obtain other where o: "loss_from_block c = Inr other" "accounts other [c]" "hq_contiguous other"
    using loss_from_block_ok Cons.prems(2) by fastforce
  obtain l' where l': "loss_aggregated_with l other = Inr l'" "accounts l' (bs @ [c])"
    using loss_aggregated_ok [OF Cons.prems(1) o(2,3)] Cons.prems(2) by auto
  have "hd (bs @ [c]) = hd bs" using Cons.prems(1) by (simp add: accounts_def)
  with Cons.IH [OF l'(2)] Cons.prems(2) obtain l'' where "evict_blocks l' cs = Inr l''" "accounts l'' ((bs @ [c]) @ cs)" by auto
  then show ?case using o(1) l'(1) by simp
qed simp

section \<open>Properties\<close>

text \<open>
  Property C23. Continuity analysis never raises for a valid block and a well-formed expectation,
  and its verdict is exact: continuous only for the expected sequence number and timestamp; a gap
  only for a forward jump whose sequence and timestamp measures agree, with the missing frames and
  items that recover the block's position; otherwise the anomaly that applies.
\<close>

theorem continuity_classification:
  assumes "block_valid b" "0 \<le> es" "es < 2 ^ 32" "0 \<le> et" "et < 2 ^ 64" "0 < run" "run < 2 ^ 32"
    and "case prev of None \<Rightarrow> True | Some p \<Rightarrow> 0 \<le> p \<and> p < 2 ^ 32 \<and> es = (p + 1) mod 2 ^ 32"
  shows "\<exists>r. analyze_stream_continuity b es et run prev = Inr r \<and> (case r of
     Continuous \<Rightarrow> block_run_id b = run \<and> block_sequence b = es \<and> block_ticks b = et \<and> \<not> flag_set b FLAG_GAP_BEFORE
   | Gap g \<Rightarrow> block_run_id b = run \<and> 0 < gp_missing_frames g \<and> gp_missing_frames g < 2 ^ 31 \<and>
       block_sequence b = (es + gp_missing_frames g) mod 2 ^ 32 \<and>
       block_ticks b = (et + gp_missing_items g * block_period_ticks b) mod 2 ^ 64 \<and>
       (if block_protocol_version b = 3
        then gp_missing_frames g \<le> gp_missing_items g \<and> gp_missing_items g \<le> gp_missing_frames g * max_block_items b
        else gp_missing_items g = gp_missing_frames g * block_item_count b) \<and>
       gp_firmware_reported g = flag_set b FLAG_GAP_BEFORE
   | Anomaly a \<Rightarrow> (case an_reason a of
       STALE_RUN \<Rightarrow> block_run_id b \<noteq> run
     | DUPLICATE \<Rightarrow> block_run_id b = run \<and> prev = Some (block_sequence b)
     | REORDERED \<Rightarrow> block_run_id b = run \<and> prev \<noteq> Some (block_sequence b) \<and> 2 ^ 31 \<le> (block_sequence b - es) mod 2 ^ 32
     | TIMESTAMP_INCONSISTENT \<Rightarrow> block_run_id b = run \<and> (block_sequence b - es) mod 2 ^ 32 < 2 ^ 31 \<and>
         \<not> consistent_deltas b ((block_sequence b - es) mod 2 ^ 32) ((block_ticks b - et) mod 2 ^ 64)
     | FIRMWARE_EVIDENCE_MISMATCH \<Rightarrow> block_run_id b = run \<and> block_sequence b = es \<and> block_ticks b = et \<and> flag_set b FLAG_GAP_BEFORE
     | HOST_QUEUE_RANGE_INCONSISTENT \<Rightarrow> False))"
  using analyze_classifies [OF assms] unfolding continuity_holds_def .

theorem continuity_classification_witness:
  "\<exists>r. analyze_stream_continuity (zero_gpio_block 5 (5 * 8096)) 5 (5 * 8096) 1 (Some 4) = Inr r"
  using continuity_classification [of "zero_gpio_block 5 (5 * 8096)" 5 "5 * 8096" 1 "Some 4"] zero_blocks_valid(1) [of 5 "5 * 8096"]
  by auto

text \<open>
  Property C24. Evicting any blocks of one stream from a host queue never raises while they are
  aggregated, and the loss report has exactly their number of blocks and items, the first and the
  last position, and is marked contiguous exactly when each block follows its predecessor.
\<close>

theorem host_queue_loss_exact:
  assumes "block_valid b" "\<forall>c \<in> set bs. block_valid c \<and> same_stream b c"
  shows "\<exists>l. bind_res (loss_from_block b) (\<lambda>l. evict_blocks l bs) = Inr l \<and>
    hq_dropped_blocks l = int (length (b # bs)) \<and> hq_dropped_items l = (\<Sum>c\<leftarrow>b # bs. block_item_count c) \<and>
    hq_first_sequence l = block_sequence b \<and> hq_last_sequence l = block_sequence (last (b # bs)) \<and>
    hq_first_sample_ticks l = block_ticks b \<and> hq_end_sample_ticks l = block_end_tick_exclusive (last (b # bs)) \<and>
    hq_contiguous l = successively follows (b # bs)"
proof -
  obtain l where l: "loss_from_block b = Inr l" "accounts l [b]" using loss_from_block_ok [OF assms(1)] by blast
  obtain l' where "evict_blocks l bs = Inr l'" "accounts l' (b # bs)" using evict_blocks_ok [OF l(2), of bs] assms(2) by auto
  then show ?thesis using l(1) by (auto simp: accounts_def)
qed

theorem host_queue_loss_exact_witness:
  "\<exists>l. bind_res (loss_from_block (zero_gpio_block 5 (5 * 8096))) (\<lambda>l. evict_blocks l [zero_gpio_block 7 (7 * 8096)]) = Inr l \<and>
     hq_dropped_blocks l = 2 \<and> hq_last_sequence l = 7"
proof -
  have "\<forall>c \<in> set [zero_gpio_block 7 (7 * 8096)]. block_valid c \<and> same_stream (zero_gpio_block 5 (5 * 8096)) c"
    using zero_blocks_valid(1) [of 7 "7 * 8096"] by (simp add: same_stream_def block_item_count_def zero_gpio_block_def)
  from host_queue_loss_exact [OF zero_blocks_valid(1) this] show ?thesis by (auto simp: zero_gpio_block_def)
qed

end
