(* ===== verification/Alignment.thy ===== *)
theory Alignment
  imports Continuity "HOL-Library.AList" "HOL-Library.Multiset"
begin

text \<open>
  The timestamp aligner of \<^verbatim>\<open>alignment.py\<close>: it pairs ADC and GPIO blocks that cover the same interval,
  keeps a bounded window of unresolved intervals, and reports every interval it gives up on.
  An operation returns the new state beside its result, also when it raises; the two loops
  return \<open>None\<close> when they do not end.
\<close>

datatype align_error = TimestampAlignmentError | AlignValueError | AlignAssertionError

section \<open>Intervals and losses\<close>

abbreviation (input) BOTH_STREAMS :: int where "BOTH_STREAMS \<equiv> 3"

record AlignedInterval =
  ai_adc :: "ADCBlock option"
  ai_gpio :: "GPIOBlock option"
  ai_stream_gaps :: "StreamGap list"

definition block_coverage_ticks :: "data_block \<Rightarrow> int" where
  "block_coverage_ticks b = block_item_count b * block_period_ticks b"

definition block_profile_signature :: "data_block \<Rightarrow> int \<times> int \<times> int" where
  "block_profile_signature b = (block_protocol_version b, AuxBankMode_value (block_aux_bank_mode b), V2RateProfile_value (block_rate_profile b))"

definition gap_signature :: "StreamGap \<Rightarrow> FrameKind \<times> int list \<times> bool \<times> bool" where
  "gap_signature g = (gp_kind g, [gp_run_id g, gp_expected_sequence g, gp_observed_sequence g, gp_missing_frames g, gp_missing_items g,
     gp_expected_first_sample_ticks g, gp_observed_first_sample_ticks g, gap_item_period_ticks g, gap_items_per_frame g],
     gp_firmware_reported g, gp_firmware_overrun g)"

definition side_blocks :: "ADCBlock option \<Rightarrow> GPIOBlock option \<Rightarrow> data_block list" where
  "side_blocks adc gpio = (case adc of None \<Rightarrow> [] | Some a \<Rightarrow> [AsADC a]) @ (case gpio of None \<Rightarrow> [] | Some g \<Rightarrow> [AsGPIO g])"

fun check_interval_gaps :: "data_block list \<Rightarrow> StreamGap list \<Rightarrow> FrameKind list \<Rightarrow> bool" where
  "check_interval_gaps blocks [] seen = True"
| "check_interval_gaps blocks (g # gs) seen =
     (case List.find (\<lambda>b. block_kind b = (if gp_kind g = FK_ADC_DATA then FK_ADC_DATA else FK_GPIO_DATA)) blocks of
        None \<Rightarrow> False
      | Some b \<Rightarrow> gp_kind g \<notin> set seen \<and> gp_run_id g = block_run_id b \<and> gp_observed_sequence g = block_sequence b \<and>
          gp_observed_first_sample_ticks g = block_ticks b \<and> check_interval_gaps blocks gs (gp_kind g # seen))"

definition interval_misplaced :: "data_block \<Rightarrow> bool" where
  "interval_misplaced b \<longleftrightarrow>
     (block_end_tick_exclusive b - block_ticks b) AND UINT64_MAX \<noteq> block_coverage_ticks b \<or>
     block_ticks b mod block_coverage_ticks b \<noteq> 0 \<or> UINT64_MAX < block_ticks b + block_coverage_ticks b"

definition AlignedInterval_post_init :: "AlignedInterval \<Rightarrow> align_error + AlignedInterval" where
  "AlignedInterval_post_init i = (let blocks = side_blocks (ai_adc i) (ai_gpio i) in
     case blocks of
       [] \<Rightarrow> Inl AlignValueError
     | reference # others \<Rightarrow>
         require (\<not> interval_misplaced reference) AlignValueError (
         require (\<forall>b \<in> set others. block_run_id reference = block_run_id b \<and> block_source reference = block_source b \<and>
           block_ticks reference = block_ticks b \<and> block_end_tick_exclusive reference = block_end_tick_exclusive b \<and>
           block_profile_signature reference = block_profile_signature b) AlignValueError (
         require (check_interval_gaps blocks (ai_stream_gaps i) []) AlignValueError (
         Inr i))))"

definition present_streams :: "ADCBlock option \<Rightarrow> GPIOBlock option \<Rightarrow> int" where
  "present_streams adc gpio = (if adc \<noteq> None then STREAM_ADC else 0) OR (if gpio \<noteq> None then STREAM_GPIO else 0)"

datatype AlignmentLossReason = WINDOW_EXPIRED | EXPLICIT_FLUSH | END_OF_INPUT | RUN_BOUNDARY

record AlignmentLoss =
  lo_reason :: AlignmentLossReason
  lo_run_id :: int
  lo_source :: Source
  lo_first_sample_ticks :: int
  lo_interval_count :: int
  lo_present_streams :: int
  lo_missing_streams :: int
  lo_frame_coverage_ticks :: int

definition AlignmentLoss_post_init :: "AlignmentLoss \<Rightarrow> align_error + AlignmentLoss" where
  "AlignmentLoss_post_init l =
     require (0 \<le> lo_run_id l \<and> lo_run_id l < 2 ^ 32 \<and> 0 \<le> lo_first_sample_ticks l \<and> lo_first_sample_ticks l < 2 ^ 64) AlignValueError (
     require (lo_run_id l \<noteq> 0) AlignValueError (
     require (0 < lo_frame_coverage_ticks l) AlignValueError (
     require (lo_first_sample_ticks l mod lo_frame_coverage_ticks l = 0) AlignValueError (
     require (0 < lo_interval_count l) AlignValueError (
     require (lo_present_streams l AND NOT BOTH_STREAMS = 0 \<and> lo_missing_streams l AND NOT BOTH_STREAMS = 0) AlignValueError (
     require (lo_missing_streams l \<noteq> 0 \<and> lo_present_streams l AND lo_missing_streams l = 0 \<and>
       lo_present_streams l OR lo_missing_streams l = BOTH_STREAMS) AlignValueError (
     require (lo_first_sample_ticks l + lo_interval_count l * lo_frame_coverage_ticks l \<le> UINT64_MAX) AlignValueError (
     Inr l))))))))"

datatype AlignmentInput = BlockInput data_block | GapInput StreamGap
datatype AlignmentItem = IntervalItem AlignedInterval | LossItem AlignmentLoss | GapItem StreamGap

section \<open>The aligner\<close>

record PendingInterval =
  pi_adc :: "ADCBlock option"
  pi_gpio :: "GPIOBlock option"

definition slot_blocks :: "PendingInterval \<Rightarrow> data_block list" where
  "slot_blocks s = side_blocks (pi_adc s) (pi_gpio s)"

definition slot_complete :: "PendingInterval \<Rightarrow> bool" where
  "slot_complete s \<longleftrightarrow> pi_adc s \<noteq> None \<and> pi_gpio s \<noteq> None"

type_synonym gap_key = "FrameKind \<times> int \<times> int \<times> int"

record ContinuityResult =
  cr_block :: data_block
  cr_gap :: "StreamGap option"
  cr_emit_gap :: bool
  cr_announced_key :: "gap_key option"

record aligner =
  ta_max_pending :: nat
  ta_pending :: "(int \<times> PendingInterval) list"
  ta_announced :: "(gap_key \<times> StreamGap) list"
  ta_run_id :: "int option"
  ta_source :: "Source option"
  ta_coverage :: "int option"
  ta_signature :: "(int \<times> int \<times> int) option"
  ta_next :: int
  ta_expected_sequence :: "FrameKind \<Rightarrow> int"
  ta_expected_ticks :: "FrameKind \<Rightarrow> int"
  ta_high_water :: nat
  ta_closed :: bool

definition TimestampAligner :: "int \<Rightarrow> align_error + aligner" where
  "TimestampAligner max_pending_intervals =
     require (0 < max_pending_intervals) AlignValueError (
     Inr \<lparr>ta_max_pending = nat max_pending_intervals, ta_pending = [], ta_announced = [], ta_run_id = None, ta_source = None,
       ta_coverage = None, ta_signature = None, ta_next = 0, ta_expected_sequence = (\<lambda>_. 0), ta_expected_ticks = (\<lambda>_. 0),
       ta_high_water = 0, ta_closed = False\<rparr>)"

definition required_coverage :: "aligner \<Rightarrow> align_error + int" where
  "required_coverage t = res_of_option AlignAssertionError (ta_coverage t)"

definition alignment_loss :: "aligner \<Rightarrow> AlignmentLossReason \<Rightarrow> int \<Rightarrow> int \<Rightarrow> int \<Rightarrow> align_error + AlignmentLoss" where
  "alignment_loss t reason first_sample_ticks interval_count present =
     bind_res (res_of_option AlignAssertionError (ta_run_id t)) (\<lambda>run_id.
     bind_res (res_of_option AlignAssertionError (ta_source t)) (\<lambda>source.
     bind_res (required_coverage t) (\<lambda>coverage.
     AlignmentLoss_post_init \<lparr>lo_reason = reason, lo_run_id = run_id, lo_source = source, lo_first_sample_ticks = first_sample_ticks,
       lo_interval_count = interval_count, lo_present_streams = present, lo_missing_streams = BOTH_STREAMS XOR present,
       lo_frame_coverage_ticks = coverage\<rparr>)))"

definition advance :: "aligner \<Rightarrow> int \<Rightarrow> aligner \<times> (align_error + unit)" where
  "advance t interval_count =
     (case required_coverage t of
        Inl e \<Rightarrow> (t, Inl e)
      | Inr coverage \<Rightarrow>
          (let next_ticks = ta_next t + interval_count * coverage in
           if UINT64_MAX < next_ticks then (t, Inl TimestampAlignmentError)
           else (t\<lparr>ta_next := next_ticks, ta_announced := filter (\<lambda>((_, _, _, ticks), _). \<not> ticks < next_ticks) (ta_announced t)\<rparr>, Inr ())))"

definition continuity_result :: "aligner \<Rightarrow> data_block \<Rightarrow> align_error + ContinuityResult" where
  "continuity_result t b = (let kind = block_kind b in
     case gap_from_expected b (ta_expected_sequence t kind) (ta_expected_ticks t kind) 0 of
       Inl e \<Rightarrow> Inl TimestampAlignmentError
     | Inr computed \<Rightarrow>
         (let key = (kind, block_run_id b, block_sequence b, block_ticks b);
              announced = map_of (ta_announced t) key; embedded = block_gap b;
              supplied = (case announced of None \<Rightarrow> embedded | Some g \<Rightarrow> Some g) in
          require (\<not> (case (announced, embedded) of (Some a, Some e) \<Rightarrow> gap_signature a \<noteq> gap_signature e | _ \<Rightarrow> False))
            TimestampAlignmentError (
          require (case supplied of None \<Rightarrow> True
            | Some s \<Rightarrow> (case computed of None \<Rightarrow> False | Some c \<Rightarrow> gap_signature s = gap_signature c)) TimestampAlignmentError (
          let selected = (case supplied of None \<Rightarrow> computed | Some s \<Rightarrow> Some s) in
          Inr \<lparr>cr_block = b, cr_gap = selected, cr_emit_gap = (selected \<noteq> None \<and> announced = None),
               cr_announced_key = (if announced \<noteq> None then Some key else None)\<rparr>))))"

definition accept_result :: "ContinuityResult \<Rightarrow> aligner \<Rightarrow> aligner" where
  "accept_result r t = (let b = cr_block r; kind = block_kind b in
     t\<lparr>ta_expected_sequence := (ta_expected_sequence t)(kind := (block_sequence b + 1) AND UINT32_MAX),
       ta_expected_ticks := (ta_expected_ticks t)(kind := block_end_tick_exclusive b),
       ta_announced := (case cr_announced_key r of None \<Rightarrow> ta_announced t | Some key \<Rightarrow> AList.delete key (ta_announced t))\<rparr>)"

definition emit_slot :: "aligner \<Rightarrow> int \<Rightarrow> PendingInterval \<Rightarrow> AlignmentLossReason option \<Rightarrow> aligner \<times> (align_error + AlignmentItem list)" where
  "emit_slot t ticks slot loss_reason =
     (let prepared =
        bind_res (map_res (continuity_result t) (slot_blocks slot)) (\<lambda>continuity.
        bind_res (AlignedInterval_post_init \<lparr>ai_adc = pi_adc slot, ai_gpio = pi_gpio slot,
          ai_stream_gaps = List.map_filter cr_gap continuity\<rparr>) (\<lambda>interval.
        bind_res (case loss_reason of None \<Rightarrow> Inr []
          | Some reason \<Rightarrow> map_sum id (\<lambda>l. [LossItem l]) (alignment_loss t reason ticks 1 (present_streams (pi_adc slot) (pi_gpio slot)))) (\<lambda>loss.
        Inr (continuity, map GapItem (List.map_filter cr_gap (filter cr_emit_gap continuity)) @ loss @ [IntervalItem interval])))) in
      case prepared of
        Inl e \<Rightarrow> (t, Inl e)
      | Inr (continuity, outputs) \<Rightarrow>
          (let t1 = fold accept_result continuity t in
           case advance (t1\<lparr>ta_pending := AList.delete ticks (ta_pending t1)\<rparr>) 1 of
             (t2, Inl e) \<Rightarrow> (t2, Inl e)
           | (t2, Inr _) \<Rightarrow> (t2, Inr outputs)))"

text \<open>A loss without any block, and the step over its intervals.\<close>

definition skip_intervals :: "aligner \<Rightarrow> AlignmentLossReason \<Rightarrow> int \<Rightarrow> aligner \<times> (align_error + AlignmentItem list)" where
  "skip_intervals t reason interval_count =
     (case alignment_loss t reason (ta_next t) interval_count 0 of
        Inl e \<Rightarrow> (t, Inl e)
      | Inr l \<Rightarrow> (case advance t interval_count of (t1, Inl e) \<Rightarrow> (t1, Inl e) | (t1, Inr _) \<Rightarrow> (t1, Inr [LossItem l])))"

abbreviation "pending_ticks t \<equiv> fst ` set (ta_pending t)"

text \<open>One iteration of \<^verbatim>\<open>_drain\<close>; \<open>None\<close> leaves the loop.\<close>

definition drain_step :: "int \<Rightarrow> aligner \<Rightarrow> int \<Rightarrow> (aligner \<times> (align_error + AlignmentItem list)) option" where
  "drain_step coverage t highest_seen_ticks =
     (if ta_pending t = [] then None
      else let slot = map_of (ta_pending t) (ta_next t) in
        case slot of
          Some s \<Rightarrow>
            if slot_complete s then Some (emit_slot t (ta_next t) s None)
            else if highest_seen_ticks < ta_next t then None
            else if (highest_seen_ticks - ta_next t) div coverage < int (ta_max_pending t) then None
            else Some (emit_slot t (ta_next t) s (Some WINDOW_EXPIRED))
        | None \<Rightarrow>
            if highest_seen_ticks < ta_next t then None
            else let span = (highest_seen_ticks - ta_next t) div coverage in
              if span < int (ta_max_pending t) then None
              else (let eligible_count = span - int (ta_max_pending t) + 1;
                        pending_distance = (Min (pending_ticks t) - ta_next t) div coverage;
                        interval_count = min eligible_count pending_distance in
                if interval_count \<le> 0 then Some (t, Inl AlignAssertionError)
                else Some (skip_intervals t WINDOW_EXPIRED interval_count)))"

partial_function (option) drain_loop_al ::
  "int \<Rightarrow> aligner \<Rightarrow> int \<Rightarrow> AlignmentItem list \<Rightarrow> (aligner \<times> (align_error + AlignmentItem list)) option" where
  "drain_loop_al coverage t highest acc =
     (case drain_step coverage t highest of
        None \<Rightarrow> Some (t, Inr acc)
      | Some (t1, Inl e) \<Rightarrow> Some (t1, Inl e)
      | Some (t1, Inr outs) \<Rightarrow> drain_loop_al coverage t1 highest (acc @ outs))"

definition drain_al :: "aligner \<Rightarrow> int \<Rightarrow> (aligner \<times> (align_error + AlignmentItem list)) option" where
  "drain_al t highest = (case required_coverage t of Inl e \<Rightarrow> Some (t, Inl e) | Inr coverage \<Rightarrow> drain_loop_al coverage t highest [])"

definition flush_step :: "int \<Rightarrow> aligner \<Rightarrow> AlignmentLossReason \<Rightarrow> (aligner \<times> (align_error + AlignmentItem list)) option" where
  "flush_step coverage t reason =
     (if ta_pending t = [] then None
      else let next_pending_ticks = Min (pending_ticks t) in
        if next_pending_ticks < ta_next t then Some (t, Inl TimestampAlignmentError)
        else if ta_next t < next_pending_ticks then
          (let delta = next_pending_ticks - ta_next t in
           if delta mod coverage \<noteq> 0 then Some (t, Inl TimestampAlignmentError)
           else Some (skip_intervals t reason (delta div coverage)))
        else (case map_of (ta_pending t) next_pending_ticks of
            None \<Rightarrow> Some (t, Inl AlignAssertionError)
          | Some s \<Rightarrow> Some (emit_slot t next_pending_ticks s (if slot_complete s then None else Some reason))))"

partial_function (option) flush_loop ::
  "int \<Rightarrow> aligner \<Rightarrow> AlignmentLossReason \<Rightarrow> AlignmentItem list \<Rightarrow> (aligner \<times> (align_error + AlignmentItem list)) option" where
  "flush_loop coverage t reason acc =
     (case flush_step coverage t reason of
        None \<Rightarrow> Some (t, Inr acc)
      | Some (t1, Inl e) \<Rightarrow> Some (t1, Inl e)
      | Some (t1, Inr outs) \<Rightarrow> flush_loop coverage t1 reason (acc @ outs))"

definition flush_pending :: "aligner \<Rightarrow> AlignmentLossReason \<Rightarrow> (aligner \<times> (align_error + AlignmentItem list)) option" where
  "flush_pending t reason = (case required_coverage t of Inl e \<Rightarrow> Some (t, Inl e) | Inr coverage \<Rightarrow> flush_loop coverage t reason [])"

definition start_epoch :: "aligner \<Rightarrow> int \<Rightarrow> Source option \<Rightarrow> int \<Rightarrow> (int \<times> int \<times> int) option \<Rightarrow> aligner \<times> (align_error + unit)" where
  "start_epoch t run_id source coverage signature =
     (if \<not> (0 \<le> run_id \<and> run_id < 2 ^ 32) then (t, Inl AlignValueError)
      else if run_id = 0 \<or> coverage \<le> 0 then (t, Inl TimestampAlignmentError)
      else (t\<lparr>ta_pending := [], ta_announced := [], ta_run_id := Some run_id, ta_source := source, ta_coverage := Some coverage,
              ta_signature := signature, ta_next := 0, ta_expected_sequence := (\<lambda>_. 0), ta_expected_ticks := (\<lambda>_. 0)\<rparr>, Inr ()))"

definition activate_epoch ::
  "aligner \<Rightarrow> int \<Rightarrow> Source option \<Rightarrow> int \<Rightarrow> (int \<times> int \<times> int) option \<Rightarrow> (aligner \<times> (align_error + AlignmentItem list)) option" where
  "activate_epoch t run_id source coverage signature =
     (case ta_run_id t of
        None \<Rightarrow> (case start_epoch t run_id source coverage signature of (t1, r) \<Rightarrow> Some (t1, map_sum id (\<lambda>_. []) r))
      | Some active \<Rightarrow>
          if run_id \<noteq> active then
            (case flush_pending t RUN_BOUNDARY of
               None \<Rightarrow> None
             | Some (t1, Inl e) \<Rightarrow> Some (t1, Inl e)
             | Some (t1, Inr outs) \<Rightarrow>
                 (case start_epoch t1 run_id source coverage signature of (t2, r) \<Rightarrow> Some (t2, map_sum id (\<lambda>_. outs) r)))
          else if Some coverage \<noteq> ta_coverage t then Some (t, Inl TimestampAlignmentError)
          else if signature \<noteq> None \<and> ta_signature t \<noteq> None \<and> signature \<noteq> ta_signature t then Some (t, Inl TimestampAlignmentError)
          else (let t1 = (if signature \<noteq> None \<and> ta_signature t = None then t\<lparr>ta_signature := signature\<rparr> else t) in
            if source \<noteq> None \<and> ta_source t1 \<noteq> None \<and> source \<noteq> ta_source t1 then Some (t1, Inl TimestampAlignmentError)
            else Some (if source \<noteq> None \<and> ta_source t1 = None then t1\<lparr>ta_source := source\<rparr> else t1, Inr [])))"

definition push_announced_gap :: "aligner \<Rightarrow> StreamGap \<Rightarrow> (aligner \<times> (align_error + AlignmentItem list)) option" where
  "push_announced_gap t g =
     (let coverage = gap_item_period_ticks g * gap_items_per_frame g in
      if gp_expected_first_sample_ticks g mod coverage \<noteq> 0 \<or> gp_observed_first_sample_ticks g mod coverage \<noteq> 0
      then Some (t, Inl TimestampAlignmentError)
      else (case activate_epoch t (gp_run_id g) None coverage None of
          None \<Rightarrow> None
        | Some (t1, Inl e) \<Rightarrow> Some (t1, Inl e)
        | Some (t1, Inr outs) \<Rightarrow>
            if gp_observed_first_sample_ticks g < ta_next t1 then Some (t1, Inl TimestampAlignmentError)
            else let key = (gp_kind g, gp_run_id g, gp_observed_sequence g, gp_observed_first_sample_ticks g) in
              if map_of (ta_announced t1) key \<noteq> None then Some (t1, Inl TimestampAlignmentError)
              else if 2 * ta_max_pending t1 \<le> length (ta_announced t1) then Some (t1, Inl TimestampAlignmentError)
              else Some (t1\<lparr>ta_announced := AList.update key g (ta_announced t1)\<rparr>, Inr (outs @ [GapItem g]))))"

definition place_block :: "data_block \<Rightarrow> PendingInterval \<Rightarrow> PendingInterval option" where
  "place_block b slot = (case b of
     AsADC a \<Rightarrow> if pi_adc slot = None then Some (slot\<lparr>pi_adc := Some a\<rparr>) else None
   | AsGPIO g \<Rightarrow> if pi_gpio slot = None then Some (slot\<lparr>pi_gpio := Some g\<rparr>) else None)"

definition occupied :: "data_block \<Rightarrow> PendingInterval option \<Rightarrow> bool" where
  "occupied b slot \<longleftrightarrow> (case slot of None \<Rightarrow> False | Some s \<Rightarrow> place_block b s = None)"

definition insert_block :: "aligner \<Rightarrow> data_block \<Rightarrow> PendingInterval \<Rightarrow> aligner" where
  "insert_block t b slot = (let pending = AList.update (block_ticks b) slot (ta_pending t) in
     t\<lparr>ta_pending := pending, ta_high_water := max (ta_high_water t) (length pending)\<rparr>)"

text \<open>The second half of a push: make room, store the block, and emit what is now due.\<close>

definition store_block :: "aligner \<Rightarrow> data_block \<Rightarrow> (aligner \<times> (align_error + AlignmentItem list)) option" where
  "store_block t b =
     (case drain_al t (block_ticks b) of
        None \<Rightarrow> None
      | Some (t2, Inl e) \<Rightarrow> Some (t2, Inl e)
      | Some (t2, Inr outs2) \<Rightarrow>
          (let slot = (case map_of (ta_pending t2) (block_ticks b) of None \<Rightarrow> \<lparr>pi_adc = None, pi_gpio = None\<rparr> | Some s \<Rightarrow> s) in
           case place_block b slot of
             None \<Rightarrow> Some (t2, Inl AlignAssertionError)
           | Some slot' \<Rightarrow>
               (let t3 = insert_block t2 b slot' in
                case drain_al t3 (Max (pending_ticks t3)) of
                  None \<Rightarrow> None
                | Some (t4, Inl e) \<Rightarrow> Some (t4, Inl e)
                | Some (t4, Inr outs4) \<Rightarrow>
                    if ta_max_pending t4 < length (ta_pending t4) then Some (t4, Inl AlignAssertionError)
                    else Some (t4, Inr (outs2 @ outs4)))))"

definition push_block :: "aligner \<Rightarrow> data_block \<Rightarrow> (aligner \<times> (align_error + AlignmentItem list)) option" where
  "push_block t b =
     (if block_rate_profile b = RP_ADC_1MHZ_GPIO_1MHZ then Some (t, Inl TimestampAlignmentError)
      else if interval_misplaced b then Some (t, Inl TimestampAlignmentError)
      else (case activate_epoch t (block_run_id b) (Some (block_source b)) (block_coverage_ticks b) (Some (block_profile_signature b)) of
          None \<Rightarrow> None
        | Some (t1, Inl e) \<Rightarrow> Some (t1, Inl e)
        | Some (t1, Inr outs) \<Rightarrow>
            if block_ticks b < ta_next t1 then Some (t1, Inl TimestampAlignmentError)
            else if occupied b (map_of (ta_pending t1) (block_ticks b)) then Some (t1, Inl TimestampAlignmentError)
            else (case store_block t1 b of
                None \<Rightarrow> None
              | Some (t4, Inl e) \<Rightarrow> Some (t4, Inl e)
              | Some (t4, Inr outs4) \<Rightarrow> Some (t4, Inr (outs @ outs4)))))"

definition push :: "aligner \<Rightarrow> AlignmentInput \<Rightarrow> (aligner \<times> (align_error + AlignmentItem list)) option" where
  "push t item =
     (if ta_closed t then Some (t, Inl TimestampAlignmentError)
      else (case item of GapInput g \<Rightarrow> push_announced_gap t g | BlockInput b \<Rightarrow> push_block t b))"

definition flush :: "aligner \<Rightarrow> (aligner \<times> (align_error + AlignmentItem list)) option" where
  "flush t = (if ta_closed t then Some (t, Inr []) else flush_pending t EXPLICIT_FLUSH)"

definition finish :: "aligner \<Rightarrow> (aligner \<times> (align_error + AlignmentItem list)) option" where
  "finish t = (if ta_closed t then Some (t, Inr [])
     else (case flush_pending t END_OF_INPUT of
         None \<Rightarrow> None
       | Some (t1, Inl e) \<Rightarrow> Some (t1, Inl e)
       | Some (t1, Inr outs) \<Rightarrow> Some (t1\<lparr>ta_announced := [], ta_closed := True\<rparr>, Inr outs)))"

text \<open>
  \<^verbatim>\<open>align_by_timestamp\<close>: what the generator has yielded, and the exception that ended it, if any.
\<close>

fun push_all :: "aligner \<Rightarrow> AlignmentInput list \<Rightarrow> (aligner \<times> AlignmentItem list \<times> (align_error + unit)) option" where
  "push_all t [] = Some (t, [], Inr ())"
| "push_all t (i # is) =
     (case push t i of
        None \<Rightarrow> None
      | Some (t1, Inl e) \<Rightarrow> Some (t1, [], Inl e)
      | Some (t1, Inr outs) \<Rightarrow> (case push_all t1 is of None \<Rightarrow> None | Some (t2, more_outs, r) \<Rightarrow> Some (t2, outs @ more_outs, r)))"

definition align_by_timestamp :: "AlignmentInput list \<Rightarrow> int \<Rightarrow> (AlignmentItem list \<times> (align_error + unit)) option" where
  "align_by_timestamp items max_pending_intervals =
     (case TimestampAligner max_pending_intervals of
        Inl e \<Rightarrow> Some ([], Inl e)
      | Inr t \<Rightarrow>
         (case push_all t items of
            None \<Rightarrow> None
          | Some (t1, outs, Inl e) \<Rightarrow> Some (outs, Inl e)
          | Some (t1, outs, Inr _) \<Rightarrow>
              (case finish t1 of None \<Rightarrow> None | Some (t2, Inl e) \<Rightarrow> Some (outs, Inl e) | Some (t2, Inr fin) \<Rightarrow> Some (outs @ fin, Inr ()))))"

end
