(* ===== verification/Aligner.thy ===== *)
theory Aligner
  imports Alignment
begin

text \<open>
  Correctness of the timestamp aligner: its invariant, what one step of its loops does, that the
  loops end, and the properties of whole runs.
\<close>

section \<open>The invariant\<close>

text \<open>A block that belongs to the interval at \<open>ticks\<close> of the active epoch.\<close>

definition fits :: "aligner \<Rightarrow> int \<Rightarrow> data_block \<Rightarrow> bool" where
  "fits t ticks b \<longleftrightarrow> block_valid b \<and> \<not> interval_misplaced b \<and> block_ticks b = ticks \<and> Some (block_run_id b) = ta_run_id t \<and>
     Some (block_source b) = ta_source t \<and> Some (block_coverage_ticks b) = ta_coverage t \<and>
     Some (block_profile_signature b) = ta_signature t"

definition epoch_ok :: "aligner \<Rightarrow> bool" where
  "epoch_ok t \<longleftrightarrow> (\<exists>run cov. ta_run_id t = Some run \<and> 0 < run \<and> run < 2 ^ 32 \<and> ta_coverage t = Some cov \<and> 0 < cov \<and>
     0 \<le> ta_next t \<and> ta_next t \<le> UINT64_MAX \<and> ta_next t mod cov = 0) \<and>
     (\<forall>k. 0 \<le> ta_expected_sequence t k \<and> ta_expected_sequence t k < 2 ^ 32 \<and>
        0 \<le> ta_expected_ticks t k \<and> ta_expected_ticks t k < 2 ^ 64)"

definition pending_ok :: "aligner \<Rightarrow> bool" where
  "pending_ok t \<longleftrightarrow> distinct (map fst (ta_pending t)) \<and> (\<forall>(ticks, slot) \<in> set (ta_pending t).
     ta_next t \<le> ticks \<and> slot_blocks slot \<noteq> [] \<and> (\<forall>b \<in> set (slot_blocks slot). fits t ticks b))"

definition core_inv :: "aligner \<Rightarrow> bool" where
  "core_inv t \<longleftrightarrow> 0 < ta_max_pending t \<and> epoch_ok t \<and> pending_ok t"

abbreviation "epoch_coverage t \<equiv> the (ta_coverage t)"

text \<open>Between two calls no pending interval lies outside the window.\<close>

definition in_window :: "aligner \<Rightarrow> bool" where
  "in_window t \<longleftrightarrow> (\<forall>ticks \<in> pending_ticks t. (ticks - ta_next t) div epoch_coverage t < int (ta_max_pending t))"

definition aligner_inv :: "aligner \<Rightarrow> bool" where
  "aligner_inv t \<longleftrightarrow> (if ta_run_id t = None then 0 < ta_max_pending t \<and> ta_pending t = [] \<and> ta_coverage t = None \<and> ta_high_water t = 0
     else core_inv t \<and> in_window t \<and> ta_high_water t \<le> ta_max_pending t)"

section \<open>What the outputs account for\<close>

fun item_blocks :: "AlignmentItem \<Rightarrow> data_block list" where
  "item_blocks (IntervalItem i) = side_blocks (ai_adc i) (ai_gpio i)"
| "item_blocks _ = []"

definition out_blocks :: "AlignmentItem list \<Rightarrow> data_block multiset" where
  "out_blocks items = mset (concat (map item_blocks items))"

definition pending_blocks :: "aligner \<Rightarrow> data_block multiset" where
  "pending_blocks t = mset (concat (map (slot_blocks \<circ> snd) (ta_pending t)))"

definition interval_at :: "int \<Rightarrow> int \<Rightarrow> AlignedInterval \<Rightarrow> bool" where
  "interval_at ticks present i \<longleftrightarrow> present_streams (ai_adc i) (ai_gpio i) = present \<and>
     (\<forall>b \<in> set (item_blocks (IntervalItem i)). block_ticks b = ticks)"

text \<open>
  \<open>tiles cov a items b\<close>: the items account for the time from \<open>a\<close> to \<open>b\<close> without hole or overlap. An
  interval advances by one coverage; it has both sides, or the loss right before it names the side
  it has. A loss of empty intervals advances by their number. Gap reports take no time.
\<close>

fun tile_step :: "int \<Rightarrow> int \<times> int option \<Rightarrow> AlignmentItem \<Rightarrow> (int \<times> int option) option" where
  "tile_step cov (ticks, None) (GapItem g) = Some (ticks, None)"
| "tile_step cov (ticks, None) (LossItem l) =
     (if lo_first_sample_ticks l \<noteq> ticks \<or> lo_frame_coverage_ticks l \<noteq> cov then None
      else if lo_present_streams l = 0 then Some (ticks + lo_interval_count l * cov, None)
      else if lo_interval_count l = 1 then Some (ticks, Some (lo_present_streams l)) else None)"
| "tile_step cov (ticks, p) (IntervalItem i) =
     (if interval_at ticks (case p of None \<Rightarrow> BOTH_STREAMS | Some present \<Rightarrow> present) i then Some (ticks + cov, None) else None)"
| "tile_step cov (ticks, Some p) _ = None"

fun tile_run :: "int \<Rightarrow> int \<times> int option \<Rightarrow> AlignmentItem list \<Rightarrow> (int \<times> int option) option" where
  "tile_run cov st [] = Some st"
| "tile_run cov st (x # xs) = Option.bind (tile_step cov st x) (\<lambda>st'. tile_run cov st' xs)"

definition tiles :: "int \<Rightarrow> int \<Rightarrow> AlignmentItem list \<Rightarrow> int \<Rightarrow> bool" where
  "tiles cov a items b \<longleftrightarrow> tile_run cov (a, None) items = Some (b, None)"

lemma tile_run_append: "tile_run cov st (xs @ ys) = Option.bind (tile_run cov st xs) (\<lambda>st'. tile_run cov st' ys)"
  by (induction xs arbitrary: st) (auto simp: bind_assoc intro: Option.bind_cong split: bind_splits)

lemma tiles_append: "tiles cov a xs b \<Longrightarrow> tiles cov b ys c \<Longrightarrow> tiles cov a (xs @ ys) c"
  by (simp add: tiles_def tile_run_append)

lemma tiles_Nil [simp]: "tiles cov a [] b \<longleftrightarrow> a = b"
  by (auto simp: tiles_def)

lemma tiles_gaps: "tiles cov a (map GapItem gs) a"
  by (induction gs) (auto simp: tiles_def)

lemma out_blocks_append [simp]: "out_blocks (xs @ ys) = out_blocks xs + out_blocks ys"
  by (simp add: out_blocks_def)

lemma out_blocks_simps [simp]: "out_blocks [] = {#}" "out_blocks (map GapItem gs) = {#}" "out_blocks [LossItem l] = {#}"
  "out_blocks [IntervalItem i] = mset (side_blocks (ai_adc i) (ai_gpio i))"
  by (simp_all add: out_blocks_def comp_def)

section \<open>Gap evidence of a block\<close>

lemma StreamGap_post_init_keeps:
  assumes "StreamGap_post_init g = Inr g'"
  shows "gp_kind g' = gp_kind g \<and> gp_run_id g' = gp_run_id g \<and> gp_observed_sequence g' = gp_observed_sequence g \<and>
    gp_observed_first_sample_ticks g' = gp_observed_first_sample_ticks g"
proof -
  have "\<exists>p n i. Inr (g\<lparr>gp_period_ticks := p, gp_frame_item_count := n, gp_sequence_inferred_items := i\<rparr>) = (Inr g' :: block_error + _)"
    using assms unfolding StreamGap_post_init_def Let_def require_eq_Inr check_unsigned_eq_Inr check_nonnegative_eq_Inr by blast
  then show ?thesis by auto
qed

lemma gap_from_expected_fields:
  assumes "gap_from_expected b es et d = Inr (Some g)"
  shows "gp_kind g = block_kind b" "gp_run_id g = block_run_id b" "gp_observed_sequence g = block_sequence b"
    "gp_observed_first_sample_ticks g = block_ticks b"
proof -
  have if_None: "(if c then Inr None else m) = Inr (Some g) \<longleftrightarrow> \<not> c \<and> m = Inr (Some g)" for c and m :: "block_error + StreamGap option"
    by simp
  have ms: "map_sum id Some m = Inr (Some g) \<longleftrightarrow> m = Inr g" for m :: "block_error + StreamGap" by (cases m) auto
  obtain h where "StreamGap_post_init h = Inr g" "gp_kind h = block_kind b" "gp_run_id h = block_run_id b"
    "gp_observed_sequence h = block_sequence b" "gp_observed_first_sample_ticks h = block_ticks b"
    using assms unfolding gap_from_expected_def Let_def require_eq_Inr check_unsigned_eq_Inr check_nonnegative_eq_Inr if_None
      bind_res_eq_Inr ms by fastforce
  from StreamGap_post_init_keeps [OF this(1)] this(2-) show "gp_kind g = block_kind b" "gp_run_id g = block_run_id b"
    "gp_observed_sequence g = block_sequence b" "gp_observed_first_sample_ticks g = block_ticks b" by simp_all
qed

lemma continuity_result_gap:
  assumes "continuity_result t b = Inr r"
  shows "cr_block r = b" "cr_gap r = Some g \<Longrightarrow> gp_kind g = block_kind b \<and> gp_run_id g = block_run_id b \<and>
    gp_observed_sequence g = block_sequence b \<and> gp_observed_first_sample_ticks g = block_ticks b"
    "cr_emit_gap r \<Longrightarrow> cr_gap r \<noteq> None"
proof -
  obtain computed where c: "gap_from_expected b (ta_expected_sequence t (block_kind b)) (ta_expected_ticks t (block_kind b)) 0 = Inr computed"
    using assms by (auto simp: continuity_result_def Let_def split: sum.splits)
  let ?a = "map_of (ta_announced t) (block_kind b, block_run_id b, block_sequence b, block_ticks b)"
  let ?s = "case ?a of None \<Rightarrow> block_gap b | Some g \<Rightarrow> Some g"
  have r: "r = \<lparr>cr_block = b, cr_gap = (case ?s of None \<Rightarrow> computed | Some s \<Rightarrow> Some s),
      cr_emit_gap = ((case ?s of None \<Rightarrow> computed | Some s \<Rightarrow> Some s) \<noteq> None \<and> ?a = None),
      cr_announced_key = (if ?a \<noteq> None then Some (block_kind b, block_run_id b, block_sequence b, block_ticks b) else None)\<rparr>"
    and sup: "case ?s of None \<Rightarrow> True | Some s \<Rightarrow> (case computed of None \<Rightarrow> False | Some c \<Rightarrow> gap_signature s = gap_signature c)"
    using assms unfolding continuity_result_def Let_def c sum.case require_eq_Inr by (elim conjE, simp)+
  show "cr_block r = b" by (simp add: r)
  show "cr_emit_gap r \<Longrightarrow> cr_gap r \<noteq> None" unfolding r ContinuityResult.select_convs by (elim conjE)
  assume g: "cr_gap r = Some g"
  then obtain c where "computed = Some c" "gap_signature g = gap_signature c"
    using sup by (auto simp: r split: option.splits)
  with gap_from_expected_fields [of b _ _ _ c] c show "gp_kind g = block_kind b \<and> gp_run_id g = block_run_id b \<and>
    gp_observed_sequence g = block_sequence b \<and> gp_observed_first_sample_ticks g = block_ticks b"
    by (auto simp: gap_signature_def)
qed

lemma continuity_result_raises: "continuity_result t b = Inl e \<Longrightarrow> e = TimestampAlignmentError"
  unfolding continuity_result_def Let_def by (cases "gap_from_expected b (ta_expected_sequence t (block_kind b)) (ta_expected_ticks t (block_kind b)) 0")
    (auto simp: require_eq_Inl)

section \<open>Emitting a slot\<close>

definition same_epoch :: "aligner \<Rightarrow> aligner \<Rightarrow> bool" where
  "same_epoch t u \<longleftrightarrow> ta_max_pending u = ta_max_pending t \<and> ta_run_id u = ta_run_id t \<and> ta_source u = ta_source t \<and>
     ta_coverage u = ta_coverage t \<and> ta_signature u = ta_signature t \<and> ta_high_water u = ta_high_water t \<and> ta_closed u = ta_closed t"

lemma same_epoch_refl [simp]: "same_epoch t t"
  by (simp add: same_epoch_def)

lemma same_epoch_trans: "same_epoch t u \<Longrightarrow> same_epoch u v \<Longrightarrow> same_epoch t v"
  by (simp add: same_epoch_def)

lemma same_epoch_fits: "same_epoch t u \<Longrightarrow> fits u ticks b = fits t ticks b"
  by (simp add: same_epoch_def fits_def)

lemma slot_sides:
  assumes "slot_blocks s \<noteq> []"
  obtains a where "pi_adc s = Some a" "pi_gpio s = None" | g where "pi_adc s = None" "pi_gpio s = Some g"
  | a g where "pi_adc s = Some a" "pi_gpio s = Some g"
  using assms by (cases "pi_adc s"; cases "pi_gpio s") (auto simp: slot_blocks_def side_blocks_def)

lemma core_inv_slot:
  assumes "core_inv t" "map_of (ta_pending t) ticks = Some s"
  shows "slot_blocks s \<noteq> []" "b \<in> set (slot_blocks s) \<Longrightarrow> fits t ticks b" "ta_next t \<le> ticks" "ticks mod epoch_coverage t = 0"
    "ticks + epoch_coverage t \<le> UINT64_MAX"
proof -
  have m: "(ticks, s) \<in> set (ta_pending t)" using assms(2) by (rule map_of_SomeD)
  then show n: "slot_blocks s \<noteq> []" and f: "\<And>b. b \<in> set (slot_blocks s) \<Longrightarrow> fits t ticks b" and "ta_next t \<le> ticks"
    using assms(1) by (auto simp: core_inv_def pending_ok_def)
  from n obtain b where "b \<in> set (slot_blocks s)" by (cases "slot_blocks s") auto
  from f [OF this] have "block_ticks b = ticks" "\<not> interval_misplaced b" "ta_coverage t = Some (block_coverage_ticks b)"
    by (auto simp: fits_def)
  then show "ticks mod epoch_coverage t = 0" "ticks + epoch_coverage t \<le> UINT64_MAX" by (auto simp: interval_misplaced_def)
qed

lemma slot_interval_ok:
  assumes inv: "core_inv t" and s: "map_of (ta_pending t) ticks = Some s"
    and rs: "map_res (continuity_result t) (slot_blocks s) = Inr rs"
  shows "\<exists>i. AlignedInterval_post_init \<lparr>ai_adc = pi_adc s, ai_gpio = pi_gpio s, ai_stream_gaps = List.map_filter cr_gap rs\<rparr> = Inr i \<and>
    ai_adc i = pi_adc s \<and> ai_gpio i = pi_gpio s"
proof -
  have f: "fits t ticks b" if "b \<in> set (slot_blocks s)" for b using core_inv_slot(2) [OF inv s that] .
  have two: "block_run_id a = block_run_id b \<and> block_source a = block_source b \<and> block_ticks a = block_ticks b \<and>
      block_end_tick_exclusive a = block_end_tick_exclusive b \<and> block_profile_signature a = block_profile_signature b"
    if "fits t ticks a" "fits t ticks b" for a b
  proof -
    have "Some (block_run_id a) = Some (block_run_id b)" "Some (block_source a) = Some (block_source b)"
      "Some (block_coverage_ticks a) = Some (block_coverage_ticks b)"
      "Some (block_profile_signature a) = Some (block_profile_signature b)" "block_ticks a = block_ticks b"
      using that unfolding fits_def by metis+
    then show ?thesis by (simp add: block_end_tick_exclusive_def block_coverage_ticks_def)
  qed
  have sides: "slot_blocks s \<noteq> []" by (rule core_inv_slot(1) [OF inv s])
  have gap1: "check_interval_gaps [b] (List.map_filter cr_gap [r]) []" if "continuity_result t b = Inr r" for b r
  proof (cases "cr_gap r")
    case (Some x)
    from continuity_result_gap(2) [OF that Some] Some show ?thesis by (cases b) (simp_all add: List.map_filter_def)
  qed (simp add: List.map_filter_def)
  have gap2: "check_interval_gaps [AsADC a, AsGPIO g] (List.map_filter cr_gap [r, q]) []"
    if r: "continuity_result t (AsADC a) = Inr r" and q: "continuity_result t (AsGPIO g) = Inr q" for a g r q
  proof (cases "cr_gap r")
    case None
    show ?thesis
    proof (cases "cr_gap q")
      case (Some y)
      from continuity_result_gap(2) [OF q Some] Some None show ?thesis by (simp add: List.map_filter_def)
    qed (simp add: List.map_filter_def None)
  next
    case (Some x)
    note x = Some continuity_result_gap(2) [OF r Some]
    show ?thesis
    proof (cases "cr_gap q")
      case (Some y)
      from continuity_result_gap(2) [OF q Some] Some x show ?thesis by (simp add: List.map_filter_def)
    qed (use x in \<open>simp add: List.map_filter_def\<close>)
  qed
  from sides show ?thesis
  proof (cases rule: slot_sides)
    case (1 a)
    then have sb: "slot_blocks s = [AsADC a]" by (simp add: slot_blocks_def side_blocks_def)
    then obtain r where "rs = [r]" "continuity_result t (AsADC a) = Inr r" using rs by (auto simp: res_simps)
    moreover have "\<not> interval_misplaced (AsADC a)" using f [of "AsADC a"] sb by (simp add: fits_def)
    ultimately show ?thesis using gap1 [of "AsADC a"] 1
      by (simp only: AlignedInterval_post_init_def side_blocks_def AlignedInterval.select_convs option.case append_Nil append_Nil2 append_Cons Let_def list.case list.set ball_simps require_simps not_False_eq_True) simp
  next
    case (2 g)
    then have sb: "slot_blocks s = [AsGPIO g]" by (simp add: slot_blocks_def side_blocks_def)
    then obtain r where "rs = [r]" "continuity_result t (AsGPIO g) = Inr r" using rs by (auto simp: res_simps)
    moreover have "\<not> interval_misplaced (AsGPIO g)" using f [of "AsGPIO g"] sb by (simp add: fits_def)
    ultimately show ?thesis using gap1 [of "AsGPIO g"] 2
      by (simp only: AlignedInterval_post_init_def side_blocks_def AlignedInterval.select_convs option.case append_Nil append_Nil2 append_Cons Let_def list.case list.set ball_simps require_simps not_False_eq_True) simp
  next
    case (3 a g)
    then have sb: "slot_blocks s = [AsADC a, AsGPIO g]" by (simp add: slot_blocks_def side_blocks_def)
    then obtain r q where "rs = [r, q]" "continuity_result t (AsADC a) = Inr r" "continuity_result t (AsGPIO g) = Inr q"
      using rs by (auto simp: res_simps)
    moreover have "\<not> interval_misplaced (AsADC a)" using f [of "AsADC a"] sb by (simp add: fits_def)
    ultimately show ?thesis using gap2 two [of "AsADC a" "AsGPIO g"] f sb 3
      by (simp add: AlignedInterval_post_init_def side_blocks_def)
  qed
qed


lemma slot_present:
  assumes "slot_blocks s \<noteq> []"
  shows "present_streams (pi_adc s) (pi_gpio s) = 3 \<longleftrightarrow> slot_complete s"
    "\<not> slot_complete s \<Longrightarrow> present_streams (pi_adc s) (pi_gpio s) \<in> {1, 2}"
  using assms by (cases rule: slot_sides; simp add: present_streams_def slot_complete_def)+

text \<open>Inside an epoch with a source, the loss reports the aligner makes are well formed.\<close>

lemma alignment_loss_ok:
  assumes "core_inv t" "ta_source t = Some src" "0 \<le> ticks" "ticks mod epoch_coverage t = 0" "0 < n"
    "ticks + n * epoch_coverage t \<le> UINT64_MAX" "present \<in> {0, 1, 2}"
  shows "alignment_loss t reason ticks n present = Inr \<lparr>lo_reason = reason, lo_run_id = the (ta_run_id t), lo_source = src,
    lo_first_sample_ticks = ticks, lo_interval_count = n, lo_present_streams = present, lo_missing_streams = BOTH_STREAMS XOR present,
    lo_frame_coverage_ticks = epoch_coverage t\<rparr>"
proof -
  obtain run cov where e: "ta_run_id t = Some run" "0 < run" "run < 2 ^ 32" "ta_coverage t = Some cov" "0 < cov"
    using assms(1) by (auto simp: core_inv_def epoch_ok_def)
  have "0 < n * cov" using assms(5) e(5) by simp
  then have "ticks < 2 ^ 64" using assms(6) e(4) by (simp add: UINT64_MAX_def)
  moreover have "present AND NOT BOTH_STREAMS = 0 \<and> (BOTH_STREAMS XOR present) AND NOT BOTH_STREAMS = 0 \<and> BOTH_STREAMS XOR present \<noteq> 0 \<and>
      present AND (BOTH_STREAMS XOR present) = 0 \<and> present OR (BOTH_STREAMS XOR present) = BOTH_STREAMS"
    using assms(7) by auto
  ultimately show ?thesis using assms e
    by (simp add: alignment_loss_def required_coverage_def AlignmentLoss_post_init_def)
qed

lemma advance_ok:
  assumes "ta_coverage t = Some cov" "ta_next t + n * cov \<le> UINT64_MAX"
  shows "\<exists>u. advance t n = (u, Inr ()) \<and> same_epoch t u \<and> ta_next u = ta_next t + n * cov \<and> ta_pending u = ta_pending t \<and>
    ta_expected_sequence u = ta_expected_sequence t \<and> ta_expected_ticks u = ta_expected_ticks t"
  using assms by (simp add: advance_def required_coverage_def Let_def same_epoch_def)

definition expected_ok :: "aligner \<Rightarrow> bool" where
  "expected_ok t \<longleftrightarrow> (\<forall>k. 0 \<le> ta_expected_sequence t k \<and> ta_expected_sequence t k < 2 ^ 32 \<and>
     0 \<le> ta_expected_ticks t k \<and> ta_expected_ticks t k < 2 ^ 64)"

lemma and_max_bounds: "0 \<le> x AND UINT32_MAX \<and> x AND UINT32_MAX < 2 ^ 32" "0 \<le> x AND UINT64_MAX \<and> x AND UINT64_MAX < 2 ^ 64" for x :: int
  by (simp_all add: and_UINT_MAX)

lemma accept_results:
  "same_epoch t (fold accept_result rs t) \<and> ta_pending (fold accept_result rs t) = ta_pending t \<and>
   ta_next (fold accept_result rs t) = ta_next t \<and> (expected_ok t \<longrightarrow> expected_ok (fold accept_result rs t))"
proof (induction rs arbitrary: t)
  case (Cons r rs)
  have "same_epoch t (accept_result r t) \<and> ta_pending (accept_result r t) = ta_pending t \<and> ta_next (accept_result r t) = ta_next t"
    by (simp add: accept_result_def Let_def same_epoch_def)
  moreover have "expected_ok (accept_result r t)" if "expected_ok t"
    using that and_max_bounds unfolding expected_ok_def accept_result_def Let_def block_end_tick_exclusive_def by simp
  ultimately show ?case using Cons.IH [of "accept_result r t"] same_epoch_trans by auto
qed simp


lemma core_inv_coverage:
  assumes "core_inv t"
  obtains cov where "ta_coverage t = Some cov" "0 < cov" "0 \<le> ta_next t" "ta_next t \<le> UINT64_MAX" "ta_next t mod cov = 0" "expected_ok t"
  using assms by (auto simp: core_inv_def epoch_ok_def expected_ok_def)

lemma core_inv_advance:
  assumes t: "core_inv t" and e: "same_epoch t u" "expected_ok u" and n: "ta_next u = ta_next t + n * epoch_coverage t" "0 \<le> n" "ta_next u \<le> UINT64_MAX"
    and p: "distinct (map fst (ta_pending u))" "set (ta_pending u) \<subseteq> set (ta_pending t)" "\<And>ticks. ticks \<in> pending_ticks u \<Longrightarrow> ta_next u \<le> ticks"
  shows "core_inv u"
proof -
  obtain cov where c: "ta_coverage t = Some cov" "0 < cov" "0 \<le> ta_next t" "ta_next t mod cov = 0" by (rule core_inv_coverage [OF t])
  have "0 \<le> ta_next u" "ta_next u mod cov = 0" using c n by simp_all
  then have "epoch_ok u" using t e n(3) c by (auto simp: core_inv_def epoch_ok_def same_epoch_def expected_ok_def)
  moreover have "pending_ok u" using p t same_epoch_fits [OF e(1)] by (force simp: core_inv_def pending_ok_def)
  ultimately show ?thesis using t e(1) by (simp add: core_inv_def same_epoch_def)
qed

lemma pending_blocks_delete:
  assumes "distinct (map fst (ta_pending t))" "map_of (ta_pending t) k = Some s" "ta_pending u = AList.delete k (ta_pending t)"
  shows "pending_blocks t = mset (slot_blocks s) + pending_blocks u"
proof -
  have "mset (concat (map (slot_blocks \<circ> snd) xs)) = mset (slot_blocks s) + mset (concat (map (slot_blocks \<circ> snd) (AList.delete k xs)))"
    if "distinct (map fst xs)" "map_of xs k = Some s" for xs
    using that
  proof (induction xs)
    case (Cons x xs)
    show ?case
    proof (cases "fst x = k")
      case True
      then have "AList.delete k xs = xs" using Cons.prems(1) by simp
      with True Cons.prems show ?thesis by (cases x) simp
    next
      case False
      with Cons show ?thesis by (cases x) simp
    qed
  qed simp
  with assms show ?thesis by (simp add: pending_blocks_def)
qed

text \<open>
  What one iteration of a loop does: it raises without a change, or it moves on in time and hands
  out the blocks of the time it passes.
\<close>

definition advances :: "aligner \<Rightarrow> aligner \<Rightarrow> bool" where
  "advances t u \<longleftrightarrow> core_inv u \<and> same_epoch t u \<and> ta_next t \<le> ta_next u \<and> set (ta_pending u) \<subseteq> set (ta_pending t)"

definition yields :: "aligner \<Rightarrow> AlignmentItem list \<Rightarrow> aligner \<Rightarrow> bool" where
  "yields t outs u \<longleftrightarrow> tiles (epoch_coverage t) (ta_next t) outs (ta_next u) \<and> pending_blocks t = out_blocks outs + pending_blocks u"

definition step_ok :: "aligner \<Rightarrow> aligner \<times> (align_error + AlignmentItem list) \<Rightarrow> bool" where
  "step_ok t r \<longleftrightarrow> r = (t, Inl TimestampAlignmentError) \<or>
     (\<exists>u outs. r = (u, Inr outs) \<and> advances t u \<and> ta_next t < ta_next u \<and> yields t outs u)"

lemma advances_refl: "core_inv t \<Longrightarrow> advances t t"
  by (simp add: advances_def)

lemma advances_trans: "advances t u \<Longrightarrow> advances u v \<Longrightarrow> advances t v"
  by (auto simp: advances_def intro: same_epoch_trans)

lemma yields_Nil: "yields t [] t"
  by (simp add: yields_def)

lemma yields_append: "yields t xs u \<Longrightarrow> yields u ys v \<Longrightarrow> same_epoch t u \<Longrightarrow> yields t (xs @ ys) v"
  by (auto simp: yields_def same_epoch_def intro: tiles_append)

lemma slot_source: "core_inv t \<Longrightarrow> ta_pending t \<noteq> [] \<Longrightarrow> \<exists>src. ta_source t = Some src"
  by (cases "ta_pending t"; cases "slot_blocks (snd (hd (ta_pending t)))") (auto simp: core_inv_def pending_ok_def fits_def)

lemma core_inv_next_pending:
  assumes inv: "core_inv t" and p: "ticks \<in> pending_ticks t" and n: "ticks \<noteq> ta_next t"
  shows "ta_next t + epoch_coverage t \<le> ticks" "(ticks - ta_next t) mod epoch_coverage t = 0"
proof -
  obtain cov where c: "ta_coverage t = Some cov" "0 < cov" "ta_next t mod cov = 0" by (rule core_inv_coverage [OF inv])
  from p obtain s where s: "map_of (ta_pending t) ticks = Some s"
    using inv by (metis imageE map_of_eq_None_iff not_Some_eq)
  have "ticks mod cov = 0" "ta_next t \<le> ticks" using core_inv_slot(3,4) [OF inv s] c(1) by simp_all
  with c have "cov dvd ticks - ta_next t" "0 < ticks - ta_next t" using n by (auto simp: mod_0_imp_dvd)
  then show "ta_next t + epoch_coverage t \<le> ticks" "(ticks - ta_next t) mod epoch_coverage t = 0"
    using c(1) zdvd_imp_le [of cov "ticks - ta_next t"] by simp_all
qed

lemma emit_slot_ok:
  assumes inv: "core_inv t" and s: "map_of (ta_pending t) (ta_next t) = Some s"
    and loss: "loss = (if slot_complete s then None else Some reason)"
  shows "step_ok t (emit_slot t (ta_next t) s loss)"
proof (cases "map_res (continuity_result t) (slot_blocks s)")
  case (Inl e)
  then have "e = TimestampAlignmentError"
    using raises_onlyD [OF raises_only_map_res, of "slot_blocks s" "{TimestampAlignmentError}" "continuity_result t" e]
      continuity_result_raises by (auto simp: raises_only_def)
  with Inl show ?thesis by (simp add: emit_slot_def step_ok_def)
next
  case (Inr rs)
  obtain cov where c: "ta_coverage t = Some cov" "0 < cov" "0 \<le> ta_next t" "expected_ok t" by (rule core_inv_coverage [OF inv])
  obtain i where i: "AlignedInterval_post_init \<lparr>ai_adc = pi_adc s, ai_gpio = pi_gpio s, ai_stream_gaps = List.map_filter cr_gap rs\<rparr> = Inr i"
    "ai_adc i = pi_adc s" "ai_gpio i = pi_gpio s" using slot_interval_ok [OF inv s Inr] by blast
  define gaps where "gaps = List.map_filter cr_gap (filter cr_emit_gap rs)"
  define p where "p = present_streams (pi_adc s) (pi_gpio s)"
  note slot = core_inv_slot [OF inv s]
  have at_next: "interval_at (ta_next t) p i" using slot(2) i
    by (auto simp: interval_at_def p_def fits_def slot_blocks_def)
  obtain ls where ls: "(case loss of None \<Rightarrow> Inr []
      | Some reason \<Rightarrow> map_sum id (\<lambda>l. [LossItem l]) (alignment_loss t reason (ta_next t) 1 p)) = Inr ls"
    "out_blocks ls = {#}" "tile_run cov (ta_next t, None) (ls @ [IntervalItem i]) = Some (ta_next t + cov, None)"
  proof (cases "slot_complete s")
    case True
    then show ?thesis using that [of "[]"] loss at_next slot_present(1) [OF slot(1)] by (simp add: p_def)
  next
    case False
    obtain src where src: "ta_source t = Some src" using slot_source [OF inv] s by fastforce
    have "p \<in> {1, 2}" using slot_present(2) [OF slot(1) False] by (simp add: p_def)
    then show ?thesis using that loss False at_next alignment_loss_ok [OF inv src, of "ta_next t" 1 p reason] slot c by auto
  qed
  let ?t1 = "fold accept_result rs t"
  let ?t2 = "?t1\<lparr>ta_pending := AList.delete (ta_next t) (ta_pending ?t1)\<rparr>"
  note a = accept_results [of t rs]
  obtain u where u: "advance ?t2 1 = (u, Inr ())" "same_epoch ?t2 u" "ta_next u = ta_next ?t2 + cov" "ta_pending u = ta_pending ?t2"
    "ta_expected_sequence u = ta_expected_sequence ?t2" "ta_expected_ticks u = ta_expected_ticks ?t2"
    using advance_ok [of ?t2 cov 1] slot(5) c a by (auto simp: same_epoch_def)
  have r: "emit_slot t (ta_next t) s loss = (u, Inr (map GapItem gaps @ ls @ [IntervalItem i]))"
    unfolding emit_slot_def Inr bind_res_simps i(1) p_def [symmetric] ls(1) Let_def sum.case prod.case u(1) gaps_def ..
  have e: "same_epoch t u" using a u(2) by (simp add: same_epoch_def)
  have nx: "ta_next u = ta_next t + cov" and pd: "ta_pending u = AList.delete (ta_next t) (ta_pending t)" using a u by simp_all
  have d: "distinct (map fst (ta_pending t))" using inv by (simp add: core_inv_def pending_ok_def)
  have sub: "set (ta_pending u) \<subseteq> set (ta_pending t)" by (simp add: pd AList.delete_eq)
  have "core_inv u"
  proof (rule core_inv_advance [OF inv e, of 1])
    show "expected_ok u" using a c(4) u(5,6) by (simp add: expected_ok_def)
    show "distinct (map fst (ta_pending u))" using d by (simp add: pd AList.distinct_delete)
    show "ta_next u \<le> ticks" if "ticks \<in> pending_ticks u" for ticks
    proof -
      have "ticks \<in> pending_ticks t" "ticks \<noteq> ta_next t" using that by (auto simp: pd AList.delete_eq)
      from core_inv_next_pending(1) [OF inv this] show ?thesis using c(1) nx by simp
    qed
  qed (use nx c slot(5) sub in simp_all)
  moreover have "tiles cov (ta_next t) (map GapItem gaps @ ls @ [IntervalItem i]) (ta_next u)"
    using tiles_append [OF tiles_gaps] ls(3) nx by (simp add: tiles_def)
  moreover have "pending_blocks t = out_blocks (map GapItem gaps @ ls @ [IntervalItem i]) + pending_blocks u"
    using pending_blocks_delete [OF d s pd] ls(2) i by (simp add: slot_blocks_def)
  ultimately show ?thesis using r e sub nx c by (simp add: step_ok_def advances_def yields_def)
qed

lemma skip_intervals_ok:
  assumes inv: "core_inv t" and p: "ta_pending t \<noteq> []" and n: "0 < n" "ta_next t + n * epoch_coverage t \<le> Min (pending_ticks t)"
  shows "\<exists>u l. skip_intervals t reason n = (u, Inr [LossItem l]) \<and> ta_next u = ta_next t + n * epoch_coverage t \<and> ta_pending u = ta_pending t"
    "step_ok t (skip_intervals t reason n)"
proof -
  obtain cov where c: "ta_coverage t = Some cov" "0 < cov" "0 \<le> ta_next t" "ta_next t mod cov = 0" "expected_ok t" by (rule core_inv_coverage [OF inv])
  obtain src where src: "ta_source t = Some src" using slot_source [OF inv p] by blast
  have fin: "finite (pending_ticks t)" "pending_ticks t \<noteq> {}" using p by simp_all
  obtain s where s: "map_of (ta_pending t) (Min (pending_ticks t)) = Some s"
    using Min_in [OF fin] by (metis map_of_eq_None_iff not_Some_eq)
  have le: "ta_next t + n * cov \<le> UINT64_MAX" using core_inv_slot(5) [OF inv s] n(2) c(1,2) by simp
  obtain u where u: "advance t n = (u, Inr ())" "same_epoch t u" "ta_next u = ta_next t + n * cov" "ta_pending u = ta_pending t"
    "ta_expected_sequence u = ta_expected_sequence t" "ta_expected_ticks u = ta_expected_ticks t"
    using advance_ok [OF c(1) le] by blast
  obtain l where l: "alignment_loss t reason (ta_next t) n 0 = Inr l" "lo_first_sample_ticks l = ta_next t" "lo_interval_count l = n"
    "lo_present_streams l = 0" "lo_frame_coverage_ticks l = cov"
    using alignment_loss_ok [OF inv src, of "ta_next t" n 0 reason] c n(1) le by simp
  have r: "skip_intervals t reason n = (u, Inr [LossItem l])" by (simp add: skip_intervals_def l(1) u(1))
  then show "\<exists>u l. skip_intervals t reason n = (u, Inr [LossItem l]) \<and> ta_next u = ta_next t + n * epoch_coverage t \<and> ta_pending u = ta_pending t"
    using u c(1) by auto
  have "core_inv u"
  proof (rule core_inv_advance [OF inv u(2), of n])
    show "expected_ok u" using c(5) u(5,6) by (simp add: expected_ok_def)
    show "distinct (map fst (ta_pending u))" using inv u(4) by (simp add: core_inv_def pending_ok_def)
    show "ta_next u \<le> ticks" if "ticks \<in> pending_ticks u" for ticks
    proof -
      have "Min (pending_ticks t) \<le> ticks" using that fin u(4) by simp
      with n(2) u(3) c(1) show ?thesis by simp
    qed
  qed (use u n le c in simp_all)
  moreover have "ta_next t < ta_next u" using u(3) n(1) c(2) by simp
  moreover have "tiles cov (ta_next t) [LossItem l] (ta_next u)" using l u(3) by (simp add: tiles_def)
  moreover have "pending_blocks u = pending_blocks t" using u(4) by (simp add: pending_blocks_def)
  ultimately show "step_ok t (skip_intervals t reason n)" using r u(2,4) c(1) by (simp add: step_ok_def advances_def yields_def)
qed

section \<open>The loops\<close>

lemma drain_step_ok:
  assumes inv: "core_inv t" and c: "ta_coverage t = Some cov" and st: "drain_step cov t highest = Some r"
  shows "step_ok t r"
proof (cases "map_of (ta_pending t) (ta_next t)")
  case (Some s)
  then have "r = emit_slot t (ta_next t) s (if slot_complete s then None else Some WINDOW_EXPIRED)"
    using st by (auto simp: drain_step_def Let_def split: if_splits)
  with emit_slot_ok [OF inv Some] show ?thesis by simp
next
  case None
  let ?span = "(highest - ta_next t) div cov" and ?m = "Min (pending_ticks t)"
  let ?n = "min (?span - int (ta_max_pending t) + 1) ((?m - ta_next t) div cov)"
  have cov: "0 < cov" using inv c by (auto elim: core_inv_coverage)
  have p: "ta_pending t \<noteq> []" using st by (auto simp: drain_step_def)
  then have m: "?m \<in> pending_ticks t" by (intro Min_in) simp_all
  then have "?m \<noteq> ta_next t" using None by (metis map_of_eq_None_iff)
  note far = core_inv_next_pending [OF inv m this]
  have q: "1 \<le> (?m - ta_next t) div cov" using zdiv_mono1 [of cov "?m - ta_next t" cov] far(1) c cov by simp
  have "?n * cov \<le> (?m - ta_next t) div cov * cov" using cov by (intro mult_right_mono) simp_all
  also have "\<dots> = ?m - ta_next t" using far(2) c by (simp add: mod_0_imp_dvd)
  finally have le: "ta_next t + ?n * epoch_coverage t \<le> ?m" using c by simp
  have sp: "\<not> ?span < int (ta_max_pending t)" and h: "\<not> highest < ta_next t"
    using st None p by (auto simp: drain_step_def Let_def split: if_splits)
  then have n: "0 < ?n" using q by simp
  have "r = skip_intervals t WINDOW_EXPIRED ?n"
    using st None p sp h n unfolding drain_step_def Let_def by simp
  with skip_intervals_ok(2) [OF inv p n le] show ?thesis by simp
qed

lemma flush_step_ok:
  assumes inv: "core_inv t" and c: "ta_coverage t = Some cov" and st: "flush_step cov t reason = Some r"
  shows "step_ok t r"
proof -
  define m where "m = Min (pending_ticks t)"
  have cov: "0 < cov" using inv c by (auto elim: core_inv_coverage)
  have p: "ta_pending t \<noteq> []" using st by (auto simp: flush_step_def)
  then have m: "m \<in> pending_ticks t" unfolding m_def by (intro Min_in) simp_all
  then obtain s where s: "map_of (ta_pending t) m = Some s" by (metis map_of_eq_None_iff not_Some_eq)
  show ?thesis
  proof (cases "m = ta_next t")
    case True
    with st s p have "r = emit_slot t (ta_next t) s (if slot_complete s then None else Some reason)" by (simp add: flush_step_def m_def [symmetric])
    with emit_slot_ok [OF inv] s True show ?thesis by simp
  next
    case False
    note far = core_inv_next_pending [OF inv m False]
    then have "r = skip_intervals t reason ((m - ta_next t) div cov)" using st p c cov by (simp add: flush_step_def Let_def m_def [symmetric])
    moreover have "0 < (m - ta_next t) div cov" using far(1) c cov by (simp add: pos_imp_zdiv_pos_iff)
    moreover have "(m - ta_next t) div cov * cov = m - ta_next t" using far(2) c by (simp add: mod_0_imp_dvd)
    ultimately show ?thesis using skip_intervals_ok(2) [OF inv p] c by (simp add: m_def)
  qed
qed


text \<open>
  The drain never moves past the block it makes room for: its position stays at or before
  \<open>highest\<close> as long as the interval there is not complete.
\<close>

definition drain_keeps :: "int \<Rightarrow> int \<Rightarrow> aligner \<Rightarrow> bool" where
  "drain_keeps cov h t \<longleftrightarrow> ta_next t \<le> h \<and> h mod cov = 0 \<and> (\<forall>s. map_of (ta_pending t) h = Some s \<longrightarrow> \<not> slot_complete s)"

lemma emit_slot_next:
  "emit_slot t ticks s loss = (u, Inr outs) \<Longrightarrow> ta_coverage t = Some cov \<Longrightarrow> ta_next u = ta_next t + cov"
proof -
  assume e: "emit_slot t ticks s loss = (u, Inr outs)" and c: "ta_coverage t = Some cov"
  from e obtain rs where "advance ((fold accept_result rs t)\<lparr>ta_pending := AList.delete ticks (ta_pending (fold accept_result rs t))\<rparr>) 1 = (u, Inr ())"
    unfolding emit_slot_def Let_def by (auto split: sum.splits prod.splits)
  with accept_results [of t rs] c show "ta_next u = ta_next t + cov"
    by (auto simp: advance_def required_coverage_def same_epoch_def Let_def split: if_splits)
qed

lemma map_of_subset:
  "set xs \<subseteq> set ys \<Longrightarrow> distinct (map fst ys) \<Longrightarrow> map_of xs k = Some v \<Longrightarrow> map_of ys k = Some v"
  by (meson map_of_SomeD map_of_is_SomeI subsetD)

lemma core_inv_distinct: "core_inv t \<Longrightarrow> distinct (map fst (ta_pending t))"
  by (simp add: core_inv_def pending_ok_def)

lemma drain_step_keeps:
  assumes inv: "core_inv t" and c: "ta_coverage t = Some cov" and st: "drain_step cov t h = Some (u, Inr outs)" and k: "drain_keeps cov h t"
  shows "drain_keeps cov h u"
proof -
  have cov: "0 < cov" and nm: "ta_next t mod cov = 0" and mx: "0 < ta_max_pending t"
    using inv c by (auto simp: core_inv_def epoch_ok_def)
  have sub: "set (ta_pending u) \<subseteq> set (ta_pending t)"
    using drain_step_ok [OF inv c st] by (auto simp: step_ok_def advances_def)
  have "cov dvd h - ta_next t" using k nm by (auto simp: drain_keeps_def intro: dvd_diff mod_0_imp_dvd)
  then have d: "(h - ta_next t) div cov * cov = h - ta_next t" by simp
  have "ta_next u \<le> h"
  proof (cases "map_of (ta_pending t) (ta_next t)")
    case (Some s)
    then obtain loss where e: "emit_slot t (ta_next t) s loss = (u, Inr outs)" and cs: "slot_complete s \<or> 1 \<le> (h - ta_next t) div cov"
      using st mx by (auto simp: drain_step_def Let_def split: if_splits)
    have "ta_next t \<noteq> h" using cs Some k by (auto simp: drain_keeps_def)
    then have "0 < (h - ta_next t) div cov * cov" using k d by (simp add: drain_keeps_def)
    then have "1 \<le> (h - ta_next t) div cov" using cov by (simp add: zero_less_mult_iff)
    then have "1 * cov \<le> (h - ta_next t) div cov * cov" using cov by (intro mult_right_mono) simp_all
    then have "cov \<le> h - ta_next t" using d by simp
    then show ?thesis using emit_slot_next [OF e c] by simp
  next
    case None
    define m where "m = Min (pending_ticks t)"
    define n where "n = min ((h - ta_next t) div cov - int (ta_max_pending t) + 1) ((m - ta_next t) div cov)"
    from st None have "skip_intervals t WINDOW_EXPIRED n = (u, Inr outs)"
      by (auto simp: drain_step_def Let_def m_def [symmetric] n_def [symmetric] split: if_splits)
    then have "ta_next u = ta_next t + n * cov" using c
      by (auto simp: skip_intervals_def advance_def required_coverage_def Let_def split: sum.splits if_splits)
    moreover have "n * cov \<le> (h - ta_next t) div cov * cov" using mx cov by (intro mult_right_mono) (auto simp: n_def)
    ultimately show ?thesis using d by simp
  qed
  then show ?thesis using k map_of_subset [OF sub core_inv_distinct [OF inv]] by (auto simp: drain_keeps_def)
qed

text \<open>
  Both loops repeat a step until it declines; each such loop ends, because the output position
  grows and stays below 2 to the 64.
\<close>

locale align_loop =
  fixes cov :: int
    and step :: "aligner \<Rightarrow> (aligner \<times> (align_error + AlignmentItem list)) option"
    and loop :: "aligner \<Rightarrow> AlignmentItem list \<Rightarrow> (aligner \<times> (align_error + AlignmentItem list)) option"
    and keep :: "aligner \<Rightarrow> bool"
  assumes loop_unfold: "loop t acc = (case step t of None \<Rightarrow> Some (t, Inr acc) | Some (t1, Inl e) \<Rightarrow> Some (t1, Inl e)
      | Some (t1, Inr outs) \<Rightarrow> loop t1 (acc @ outs))"
    and step: "core_inv t \<Longrightarrow> ta_coverage t = Some cov \<Longrightarrow> step t = Some r \<Longrightarrow> step_ok t r"
    and keeps: "core_inv t \<Longrightarrow> ta_coverage t = Some cov \<Longrightarrow> step t = Some (u, Inr outs) \<Longrightarrow> keep t \<Longrightarrow> keep u"
begin

lemma loop_result:
  assumes "core_inv t" "ta_coverage t = Some cov"
  shows "\<exists>u r. loop t acc = Some (u, r) \<and> advances t u \<and> (keep t \<longrightarrow> keep u) \<and>
    ((r = Inl TimestampAlignmentError \<and> step u = Some (u, r)) \<or> (\<exists>outs. r = Inr (acc @ outs) \<and> step u = None \<and> yields t outs u))"
  using assms
proof (induction "nat (UINT64_MAX - ta_next t)" arbitrary: t acc rule: less_induct)
  case less
  show ?case
  proof (cases "step t")
    case None
    with less.prems show ?thesis by (subst loop_unfold) (auto intro: advances_refl yields_Nil)
  next
    case (Some r)
    from step [OF less.prems Some] consider "r = (t, Inl TimestampAlignmentError)"
      | u outs where "r = (u, Inr outs)" "advances t u" "ta_next t < ta_next u" "yields t outs u" unfolding step_ok_def by blast
    then show ?thesis
    proof cases
      case 1
      with Some less.prems show ?thesis by (subst loop_unfold) (auto simp: advances_refl)
    next
      case (2 u outs)
      have u: "core_inv u" "ta_coverage u = Some cov" "same_epoch t u" using 2(2) less.prems(2) by (auto simp: advances_def same_epoch_def)
      then have "ta_next u \<le> UINT64_MAX" by (auto elim: core_inv_coverage)
      with 2(3) have "nat (UINT64_MAX - ta_next u) < nat (UINT64_MAX - ta_next t)" by simp
      from less.hyps [OF this u(1,2), of "acc @ outs"] obtain v r' where
        v: "loop u (acc @ outs) = Some (v, r')" "advances u v" "(r' = Inl TimestampAlignmentError \<and> step v = Some (v, r')) \<or>
          (\<exists>rest. r' = Inr ((acc @ outs) @ rest) \<and> step v = None \<and> yields u rest v)" "keep u \<longrightarrow> keep v" by blast
      have "loop t acc = Some (v, r')" using Some 2(1) v(1) by (subst loop_unfold) simp
      moreover have "yields t (outs @ rest) v" if "yields u rest v" for rest using yields_append [OF 2(4) that u(3)] .
      moreover have "keep t \<longrightarrow> keep v" using keeps [OF less.prems] Some 2(1) v(4) by blast
      ultimately show ?thesis using v(3) advances_trans [OF 2(2) v(2)] by (metis append_assoc)
    qed
  qed
qed

end

interpretation drain: align_loop cov "\<lambda>t. drain_step cov t highest" "\<lambda>t. drain_loop_al cov t highest" "drain_keeps cov highest" for cov highest
  by unfold_locales (simp_all add: drain_loop_al.simps drain_step_ok drain_step_keeps)

interpretation flushing: align_loop cov "\<lambda>t. flush_step cov t reason" "\<lambda>t. flush_loop cov t reason" "\<lambda>_. True" for cov reason
  by unfold_locales (simp_all add: flush_loop.simps flush_step_ok)

section \<open>The window\<close>

lemma drain_al_result:
  assumes "core_inv t" "ta_coverage t = Some cov"
  obtains u r where "drain_al t h = Some (u, r)" "advances t u" "drain_keeps cov h t \<longrightarrow> drain_keeps cov h u"
    "(r = Inl TimestampAlignmentError \<and> drain_step cov u h = Some (u, r)) \<or> (\<exists>outs. r = Inr outs \<and> drain_step cov u h = None \<and> yields t outs u)"
  using drain.loop_result [OF assms, of h "[]"] assms(2) that by (auto simp: drain_al_def required_coverage_def)

lemma flush_pending_result:
  assumes "core_inv t"
  obtains u r where "flush_pending t reason = Some (u, r)" "advances t u"
    "r = Inl TimestampAlignmentError \<or> (\<exists>outs. r = Inr outs \<and> ta_pending u = [] \<and> yields t outs u)"
proof -
  obtain cov where c: "ta_coverage t = Some cov" using assms by (auto elim: core_inv_coverage)
  have "ta_pending u = []" if "flush_step cov u reason = None" for u
    using that by (auto simp: flush_step_def Let_def split: if_splits option.splits)
  with flushing.loop_result [OF assms c, of reason "[]"] c that show ?thesis
    by (auto simp: flush_pending_def required_coverage_def)
qed

lemma in_window_length:
  assumes inv: "core_inv t" and w: "in_window t"
  shows "length (ta_pending t) \<le> ta_max_pending t"
proof -
  obtain cov where c: "ta_coverage t = Some cov" "0 < cov" by (rule core_inv_coverage [OF inv])
  let ?i = "\<lambda>ticks. (ticks - ta_next t) div cov"
  have m: "?i ticks * cov = ticks - ta_next t \<and> ta_next t \<le> ticks" if "ticks \<in> pending_ticks t" for ticks
    using core_inv_next_pending [OF inv that] c by (cases "ticks = ta_next t") (auto simp: mod_0_imp_dvd)
  have "inj_on ?i (pending_ticks t)"
    by (rule inj_onI) (metis m diff_eq_diff_eq eq_iff_diff_eq_0 diff_add_cancel)
  moreover have "?i ` pending_ticks t \<subseteq> {0..<int (ta_max_pending t)}"
  proof (rule image_subsetI)
    show "?i ticks \<in> {0..<int (ta_max_pending t)}" if "ticks \<in> pending_ticks t" for ticks
      using w c m [OF that] that by (auto simp: in_window_def pos_imp_zdiv_nonneg_iff)
  qed
  ultimately have "card (pending_ticks t) \<le> card {0..<int (ta_max_pending t)}" by (intro card_inj_on_le) auto
  moreover have "card (pending_ticks t) = length (ta_pending t)"
    using distinct_card [OF core_inv_distinct [OF inv]] by simp
  ultimately show ?thesis by simp
qed

lemma in_window_advances:
  assumes w: "in_window t" and a: "advances t u" and inv: "core_inv t"
  shows "in_window u"
proof -
  obtain cov where c: "ta_coverage t = Some cov" "0 < cov" by (rule core_inv_coverage [OF inv])
  have "(ticks - ta_next u) div cov < int (ta_max_pending u)" if "ticks \<in> pending_ticks u" for ticks
  proof -
    have "ticks \<in> pending_ticks t" using that a by (auto simp: advances_def)
    moreover have "(ticks - ta_next u) div cov \<le> (ticks - ta_next t) div cov" using a c by (intro zdiv_mono1) (auto simp: advances_def)
    ultimately show ?thesis using w a c by (fastforce simp: in_window_def advances_def same_epoch_def)
  qed
  then show ?thesis using a c by (simp add: in_window_def advances_def same_epoch_def)
qed

lemma drain_step_None_window:
  assumes inv: "core_inv t" and c: "ta_coverage t = Some cov" and st: "drain_step cov t h = None"
    and h: "\<And>ticks. ticks \<in> pending_ticks t \<Longrightarrow> ticks \<le> h"
  shows "in_window t"
proof (cases "ta_pending t = []")
  case False
  have cov: "0 < cov" using inv c by (auto elim: core_inv_coverage)
  have "h < ta_next t \<or> (h - ta_next t) div cov < int (ta_max_pending t)"
    using st False by (auto simp: drain_step_def Let_def split: if_splits option.splits)
  moreover have "(h - ta_next t) div cov < 0" if "h < ta_next t" using that cov by (simp add: pos_imp_zdiv_neg_iff)
  moreover have "(ticks - ta_next t) div cov \<le> (h - ta_next t) div cov" if "ticks \<in> pending_ticks t" for ticks
    using h [OF that] cov by (intro zdiv_mono1) simp_all
  ultimately show ?thesis using c unfolding in_window_def by fastforce
qed (simp add: in_window_def)

text \<open>A lone block that is too far ahead is skipped to; that step does not raise.\<close>

lemma drain_raise_window:
  assumes inv: "core_inv t" and c: "ta_coverage t = Some cov" and st: "drain_step cov t h = Some (t, Inl e)"
    and k: "drain_keeps cov h t" and p: "pending_ticks t \<subseteq> {h}"
  shows "in_window t"
proof (rule ccontr)
  assume nw: "\<not> in_window t"
  then have pt: "pending_ticks t = {h}" using p by (auto simp: in_window_def)
  have cov: "0 < cov" using inv c by (auto elim: core_inv_coverage)
  have sp: "\<not> (h - ta_next t) div cov < int (ta_max_pending t)" using nw pt c by (simp add: in_window_def)
  have ne: "h \<noteq> ta_next t" using sp inv by (auto simp: core_inv_def)
  then have none: "map_of (ta_pending t) (ta_next t) = None" using pt by (simp add: map_of_eq_None_iff)
  have pn: "ta_pending t \<noteq> []" using pt by auto
  define n where "n = min ((h - ta_next t) div cov - int (ta_max_pending t) + 1) ((h - ta_next t) div cov)"
  have hp: "h \<in> pending_ticks t" using pt by simp
  note far = core_inv_next_pending [OF inv hp ne]
  have n0: "0 < n" using sp inv by (auto simp: n_def core_inv_def)
  have "n * cov \<le> (h - ta_next t) div cov * cov" using cov by (intro mult_right_mono) (simp_all add: n_def)
  then have "ta_next t + n * epoch_coverage t \<le> Min (pending_ticks t)" using far(2) c pt by (simp add: mod_0_imp_dvd)
  from skip_intervals_ok(1) [OF inv pn n0 this, of WINDOW_EXPIRED] obtain u l
    where sk: "skip_intervals t WINDOW_EXPIRED n = (u, Inr [LossItem l])" by blast
  have "\<not> h < ta_next t" using k by (simp add: drain_keeps_def)
  then have "drain_step cov t h = Some (skip_intervals t WINDOW_EXPIRED n)"
    using none pn sp n0 unfolding drain_step_def Let_def pt Min_singleton n_def [symmetric] by simp
  with st sk show False by simp
qed

section \<open>Calls\<close>

text \<open>
  What a call promises: the invariant, also when it raises; only \<^verbatim>\<open>TimestampAlignmentError\<close>; and, when it
  returns, every block taken in is handed out or pending, and within a run the items continue the
  time line.
\<close>

abbreviation "settings t \<equiv> (ta_max_pending t, ta_closed t)"

abbreviation "position t \<equiv> (if ta_run_id t = None then 0 else ta_next t)"

definition call_ok :: "aligner \<Rightarrow> int option \<Rightarrow> int option \<Rightarrow> data_block multiset \<Rightarrow> aligner \<Rightarrow> align_error + AlignmentItem list \<Rightarrow> bool" where
  "call_ok t run cov added u r \<longleftrightarrow> aligner_inv u \<and> settings u = settings t \<and> (r = Inl TimestampAlignmentError \<or>
     (\<exists>outs. r = Inr outs \<and> ta_run_id u = run \<and> ta_coverage u = cov \<and> pending_blocks t + added = out_blocks outs + pending_blocks u \<and>
        (ta_run_id t = run \<longrightarrow> ta_coverage u = ta_coverage t) \<and>
        (ta_run_id t = None \<or> ta_run_id t = run \<longrightarrow> tiles (epoch_coverage u) (position t) outs (position u))))"

lemma aligner_inv_core: "aligner_inv t \<Longrightarrow> ta_run_id t \<noteq> None \<Longrightarrow> core_inv t \<and> in_window t \<and> ta_high_water t \<le> ta_max_pending t"
  by (simp add: aligner_inv_def)

lemma aligner_invI:
  "core_inv t \<Longrightarrow> in_window t \<Longrightarrow> ta_high_water t \<le> ta_max_pending t \<Longrightarrow> aligner_inv t"
  by (auto simp: aligner_inv_def core_inv_def epoch_ok_def)

lemma aligner_inv_advances:
  assumes "aligner_inv t" "core_inv t" "advances t u"
  shows "aligner_inv u" "settings u = settings t"
proof -
  have "in_window t" "ta_high_water t \<le> ta_max_pending t"
    using assms(1,2) by (auto simp: aligner_inv_def core_inv_def epoch_ok_def split: if_splits)
  then show "aligner_inv u" using in_window_advances [OF _ assms(3,2)] assms(3)
    by (intro aligner_invI) (auto simp: advances_def same_epoch_def)
  show "settings u = settings t" using assms(3) by (simp add: advances_def same_epoch_def)
qed

lemma aligner_inv_length:
  assumes "aligner_inv t"
  shows "length (ta_pending t) \<le> ta_max_pending t" "ta_high_water t \<le> ta_max_pending t"
  using assms in_window_length [of t] by (auto simp: aligner_inv_def split: if_splits)

lemma flush_pending_call:
  assumes "aligner_inv t" "ta_run_id t \<noteq> None"
  obtains u r where "flush_pending t reason = Some (u, r)" "call_ok t (ta_run_id t) (ta_coverage t) {#} u r" "same_epoch t u"
    "\<And>outs. r = Inr outs \<Longrightarrow> ta_pending u = []"
proof -
  have inv: "core_inv t" using aligner_inv_core [OF assms] by simp
  obtain u r where u: "flush_pending t reason = Some (u, r)" "advances t u"
    "r = Inl TimestampAlignmentError \<or> (\<exists>outs. r = Inr outs \<and> ta_pending u = [] \<and> yields t outs u)"
    by (rule flush_pending_result [OF inv])
  moreover have "same_epoch t u" using u(2) by (simp add: advances_def)
  moreover have "call_ok t (ta_run_id t) (ta_coverage t) {#} u r" using u(3) aligner_inv_advances [OF assms(1) inv u(2)] assms(2) calculation(4)
    unfolding call_ok_def yields_def by (auto simp: same_epoch_def)
  ultimately show ?thesis using that by blast
qed

lemma start_epoch_ok:
  assumes "0 < run" "run < 2 ^ 32" "0 < cov" "0 < ta_max_pending t" "ta_high_water t \<le> ta_max_pending t"
  shows "\<exists>u. start_epoch t run src cov sig = (u, Inr ()) \<and> aligner_inv u \<and> settings u = settings t \<and> ta_pending u = [] \<and>
    ta_next u = 0 \<and> ta_run_id u = Some run \<and> ta_coverage u = Some cov \<and> ta_source u = src \<and> ta_signature u = sig"
  using assms by (auto simp: start_epoch_def aligner_inv_def core_inv_def epoch_ok_def pending_ok_def in_window_def UINT64_MAX_def)


text \<open>The epoch that a block of run \<open>run\<close> finds.\<close>

definition epoch_for :: "aligner \<Rightarrow> int \<Rightarrow> Source option \<Rightarrow> int \<Rightarrow> (int \<times> int \<times> int) option \<Rightarrow> bool" where
  "epoch_for u run src cov sig \<longleftrightarrow> ta_run_id u = Some run \<and> ta_coverage u = Some cov \<and>
     (src \<noteq> None \<longrightarrow> ta_source u = src) \<and> (sig \<noteq> None \<longrightarrow> ta_signature u = sig)"

lemma pending_ok_unset: "pending_ok t \<Longrightarrow> ta_source t = None \<or> ta_signature t = None \<Longrightarrow> ta_pending t = []"
  by (cases "ta_pending t"; cases "slot_blocks (snd (hd (ta_pending t)))") (auto simp: pending_ok_def fits_def)

lemma aligner_inv_unset:
  assumes "aligner_inv t" "ta_run_id t \<noteq> None" "ta_source t = None \<or> ta_signature t = None"
  shows "aligner_inv (t\<lparr>ta_source := src, ta_signature := sig\<rparr>)"
proof -
  have inv: "core_inv t" "ta_high_water t \<le> ta_max_pending t" using aligner_inv_core [OF assms(1,2)] by simp_all
  then have p: "ta_pending t = []" using pending_ok_unset assms(3) by (simp add: core_inv_def)
  have "core_inv (t\<lparr>ta_source := src, ta_signature := sig\<rparr>)" using inv(1) p by (simp add: core_inv_def pending_ok_def epoch_ok_def)
  then show ?thesis using inv(2) p by (intro aligner_invI) (simp_all add: in_window_def)
qed

lemma activate_epoch_call:
  assumes inv: "aligner_inv t" and v: "0 < run" "run < 2 ^ 32" "0 < cov"
  obtains u r where "activate_epoch t run src cov sig = Some (u, r)" "call_ok t (Some run) (Some cov) {#} u r"
    "\<forall>outs. r = Inr outs \<longrightarrow> epoch_for u run src cov sig"
proof (cases "ta_run_id t")
  case None
  then have "0 < ta_max_pending t" "ta_high_water t \<le> ta_max_pending t" and p: "ta_pending t = []" using inv by (simp_all add: aligner_inv_def)
  from start_epoch_ok [OF v this(1,2), of src sig] obtain u where "start_epoch t run src cov sig = (u, Inr ())" "aligner_inv u"
    "settings u = settings t" "ta_pending u = []" "ta_next u = 0" "epoch_for u run src cov sig" by (auto simp: epoch_for_def)
  with None p show ?thesis
    using that [of u "Inr []"] by (simp add: activate_epoch_def call_ok_def epoch_for_def pending_blocks_def)
next
  case (Some active)
  show ?thesis
  proof (cases "run = active")
    case False
    obtain u r where u: "flush_pending t RUN_BOUNDARY = Some (u, r)" "call_ok t (ta_run_id t) (ta_coverage t) {#} u r" "same_epoch t u"
      "\<And>outs. r = Inr outs \<Longrightarrow> ta_pending u = []" using flush_pending_call [OF inv, of RUN_BOUNDARY] Some by auto
    show ?thesis
    proof (cases r)
      case (Inl e)
      with u Some False show ?thesis using that [of u r] by (simp add: activate_epoch_def call_ok_def)
    next
      case (Inr outs)
      have "0 < ta_max_pending u" "ta_high_water u \<le> ta_max_pending u"
        using u(2) by (auto simp: call_ok_def aligner_inv_def core_inv_def split: if_splits)
      from start_epoch_ok [OF v this, of src sig] obtain w where "start_epoch u run src cov sig = (w, Inr ())" "aligner_inv w"
        "settings w = settings u" "ta_pending w = []" "epoch_for w run src cov sig" by (auto simp: epoch_for_def)
      with u Some False Inr show ?thesis
        using that [of w "Inr outs"] by (auto simp: activate_epoch_def call_ok_def epoch_for_def pending_blocks_def)
    qed
  next
    case True
    have refl: "call_ok t (Some run) (Some cov) {#} t (Inl TimestampAlignmentError)" using inv by (simp add: call_ok_def)
    define t1 where "t1 = (if sig \<noteq> None \<and> ta_signature t = None then t\<lparr>ta_signature := sig\<rparr> else t)"
    define t2 where "t2 = (if src \<noteq> None \<and> ta_source t1 = None then t1\<lparr>ta_source := src\<rparr> else t1)"
    have e1: "ta_run_id t1 = Some run" "ta_coverage t1 = ta_coverage t" "settings t1 = settings t" "pending_blocks t1 = pending_blocks t"
      "ta_next t1 = ta_next t" using Some True by (simp_all add: t1_def pending_blocks_def)
    have e2: "ta_run_id t2 = Some run" "ta_coverage t2 = ta_coverage t" "settings t2 = settings t" "pending_blocks t2 = pending_blocks t"
      "ta_next t2 = ta_next t" "ta_signature t2 = ta_signature t1" using e1 by (simp_all add: t2_def pending_blocks_def)
    have i1: "aligner_inv t1" using aligner_inv_unset [of t sig "ta_source t"] inv Some by (auto simp: t1_def)
    then have i2: "aligner_inv t2" using aligner_inv_unset [of t1 "ta_signature t1" src] e1 by (auto simp: t2_def)
    have eq: "activate_epoch t run src cov sig = (if src \<noteq> None \<and> ta_source t1 \<noteq> None \<and> src \<noteq> ta_source t1
        then Some (t1, Inl TimestampAlignmentError) else Some (t2, Inr []))"
      if c: "\<not> Some cov \<noteq> ta_coverage t" "\<not> (sig \<noteq> None \<and> ta_signature t \<noteq> None \<and> sig \<noteq> ta_signature t)"
    proof -
      have "\<not> run \<noteq> active" using True by simp
      from c this show ?thesis
        unfolding activate_epoch_def Some option.case Let_def t1_def [symmetric] t2_def [symmetric] by (simp only: if_False)
    qed
    consider "Some cov \<noteq> ta_coverage t \<or> sig \<noteq> None \<and> ta_signature t \<noteq> None \<and> sig \<noteq> ta_signature t"
      | "\<not> Some cov \<noteq> ta_coverage t" "\<not> (sig \<noteq> None \<and> ta_signature t \<noteq> None \<and> sig \<noteq> ta_signature t)" "src \<noteq> None \<and> ta_source t1 \<noteq> None \<and> src \<noteq> ta_source t1"
      | "\<not> Some cov \<noteq> ta_coverage t" "\<not> (sig \<noteq> None \<and> ta_signature t \<noteq> None \<and> sig \<noteq> ta_signature t)" "\<not> (src \<noteq> None \<and> ta_source t1 \<noteq> None \<and> src \<noteq> ta_source t1)"
      by blast
    then show ?thesis
    proof cases
      case 1
      with True Some refl show ?thesis using that [of t "Inl TimestampAlignmentError"] by (auto simp: activate_epoch_def)
    next
      case 2
      from eq [OF 2(1,2)] have "activate_epoch t run src cov sig = Some (t1, Inl TimestampAlignmentError)" unfolding if_P [OF 2(3)] .
      then show ?thesis using that i1 e1 by (simp add: call_ok_def)
    next
      case 3
      from eq [OF 3(1,2)] have "activate_epoch t run src cov sig = Some (t2, Inr [])" unfolding if_not_P [OF 3(3)] .
      moreover have "ta_source t2 = src" if "src \<noteq> None" using that 3(3) by (cases "ta_source t1") (simp_all add: t2_def)
      moreover have "ta_signature t2 = sig" if "sig \<noteq> None" using that 3(2) e2(6) by (cases "ta_signature t") (simp_all add: t1_def)
      moreover have "call_ok t (Some run) (Some cov) {#} t2 (Inr [])" using i2 e2 True Some 3(1) by (simp add: call_ok_def)
      ultimately show ?thesis using that 3(1) e2 by (simp add: epoch_for_def)
    qed
  qed
qed


lemma set_update_subset: "set (AList.update k v xs) \<subseteq> insert (k, v) (set xs)"
  by (induction xs) auto

lemma pending_blocks_update:
  "mset (concat (map (slot_blocks \<circ> snd) (AList.update k s xs))) + (case map_of xs k of None \<Rightarrow> {#} | Some s0 \<Rightarrow> mset (slot_blocks s0)) =
   mset (concat (map (slot_blocks \<circ> snd) xs)) + mset (slot_blocks s)"
  by (induction xs) (auto simp: union_ac)

lemma place_block_blocks:
  "place_block b slot = Some slot' \<Longrightarrow> mset (slot_blocks slot') = mset (slot_blocks slot) + {#b#} \<and> slot_blocks slot' \<noteq> []"
  by (cases b; cases "pi_adc slot"; cases "pi_gpio slot") (auto simp: place_block_def slot_blocks_def side_blocks_def split: if_splits)

lemma place_block_incomplete:
  "place_block b s \<noteq> None \<Longrightarrow> \<not> slot_complete s"
  by (cases b) (auto simp: place_block_def slot_complete_def split: if_splits)

lemma place_block_free:
  assumes "\<not> occupied b (map_of ys k)" "\<And>s. map_of xs k = Some s \<Longrightarrow> map_of ys k = Some s"
  shows "\<exists>slot. place_block b (case map_of xs k of None \<Rightarrow> \<lparr>pi_adc = None, pi_gpio = None\<rparr> | Some s \<Rightarrow> s) = Some slot"
  using assms by (cases b; cases "map_of xs k") (auto simp: place_block_def occupied_def split: if_splits)

lemma insert_block_ok:
  assumes inv: "core_inv t" and b: "fits t (block_ticks b) b" "ta_next t \<le> block_ticks b"
    and pl: "place_block b (case map_of (ta_pending t) (block_ticks b) of None \<Rightarrow> \<lparr>pi_adc = None, pi_gpio = None\<rparr> | Some s \<Rightarrow> s) = Some slot"
  shows "core_inv (insert_block t b slot)" "pending_blocks (insert_block t b slot) = pending_blocks t + {#b#}"
    "pending_ticks (insert_block t b slot) = insert (block_ticks b) (pending_ticks t)"
proof -
  let ?s = "case map_of (ta_pending t) (block_ticks b) of None \<Rightarrow> \<lparr>pi_adc = None, pi_gpio = None\<rparr> | Some s \<Rightarrow> s"
  note p = place_block_blocks [OF pl]
  have old: "fits t (block_ticks b) x" if "x \<in> set (slot_blocks ?s)" for x
    using that core_inv_slot(2) [OF inv, of "block_ticks b"]
    by (cases "map_of (ta_pending t) (block_ticks b)") (auto simp: slot_blocks_def side_blocks_def)
  have new: "fits t (block_ticks b) x" if "x \<in> set (slot_blocks slot)" for x
  proof -
    have "x \<in># mset (slot_blocks slot)" using that by simp
    then show ?thesis using p b(1) old by auto
  qed
  have same: "fits (insert_block t b slot) k x = fits t k x" for k x by (simp add: insert_block_def fits_def Let_def)
  have "pending_ok (insert_block t b slot)"
  proof -
    have "distinct (map fst (AList.update (block_ticks b) slot (ta_pending t)))"
      using core_inv_distinct [OF inv] by (rule AList.distinct_update)
    moreover have "ta_next t \<le> k \<and> slot_blocks s \<noteq> [] \<and> (\<forall>x \<in> set (slot_blocks s). fits t k x)"
      if "(k, s) \<in> set (AList.update (block_ticks b) slot (ta_pending t))" for k s
    proof -
      have "(k, s) = (block_ticks b, slot) \<or> (k, s) \<in> set (ta_pending t)" using that set_update_subset by fastforce
      then show ?thesis using inv b(2) new p by (auto simp: core_inv_def pending_ok_def)
    qed
    ultimately show ?thesis unfolding pending_ok_def same by (auto simp: insert_block_def Let_def)
  qed
  then show "core_inv (insert_block t b slot)" using inv by (simp add: core_inv_def epoch_ok_def insert_block_def Let_def)
  show "pending_blocks (insert_block t b slot) = pending_blocks t + {#b#}"
    using pending_blocks_update [of "block_ticks b" slot "ta_pending t"] p
    by (cases "map_of (ta_pending t) (block_ticks b)")
      (auto simp: pending_blocks_def insert_block_def Let_def slot_blocks_def side_blocks_def)
  show "pending_ticks (insert_block t b slot) = insert (block_ticks b) (pending_ticks t)"
    by (simp add: insert_block_def Let_def AList.dom_update)
qed


lemma insert_drain:
  assumes inv: "core_inv t" and w: "in_window t" "ta_high_water t \<le> ta_max_pending t" and c: "ta_coverage t = Some cov"
    and b: "fits t (block_ticks b) b" "ta_next t \<le> block_ticks b" and st: "drain_step cov t (block_ticks b) = None"
    and pl: "place_block b (case map_of (ta_pending t) (block_ticks b) of None \<Rightarrow> \<lparr>pi_adc = None, pi_gpio = None\<rparr> | Some s \<Rightarrow> s) = Some slot"
  obtains u r where "drain_al (insert_block t b slot) (Max (pending_ticks (insert_block t b slot))) = Some (u, r)" "aligner_inv u" "same_epoch (insert_block t b slot) u"
    "r = Inl TimestampAlignmentError \<or> (\<exists>outs. r = Inr outs \<and> yields (insert_block t b slot) outs u)"
proof -
  let ?t = "insert_block t b slot" and ?h = "Max (pending_ticks (insert_block t b slot))"
  note ins = insert_block_ok [OF inv b pl]
  have f: "ta_max_pending ?t = ta_max_pending t" "ta_coverage ?t = Some cov" "ta_next ?t = ta_next t"
    "ta_high_water ?t = max (ta_high_water t) (length (ta_pending ?t))" using c by (simp_all add: insert_block_def Let_def)
  have mx: "0 < ta_max_pending t" and cov: "0 < cov" using inv c by (auto simp: core_inv_def epoch_ok_def)
  obtain u r where u: "drain_al ?t ?h = Some (u, r)" "advances ?t u" "drain_keeps cov ?h ?t \<longrightarrow> drain_keeps cov ?h u"
    "(r = Inl TimestampAlignmentError \<and> drain_step cov u ?h = Some (u, r)) \<or> (\<exists>outs. r = Inr outs \<and> drain_step cov u ?h = None \<and> yields ?t outs u)"
    by (rule drain_al_result [OF ins(1) f(2), where h = ?h])
  have cu: "core_inv u" "ta_coverage u = Some cov" "same_epoch ?t u" and pu: "pending_ticks u \<subseteq> pending_ticks ?t"
    using u(2) f(2) by (auto simp: advances_def same_epoch_def)
  have "in_window u \<and> length (ta_pending ?t) \<le> ta_max_pending t"
  proof (cases "ta_pending t = []")
    case True
    then have pt: "pending_ticks ?t = {block_ticks b}" and h: "?h = block_ticks b" and len: "length (ta_pending ?t) = 1"
      using ins(3) by (simp_all add: insert_block_def Let_def)
    have "\<not> slot_complete slot" using pl True by (cases b) (auto simp: place_block_def slot_complete_def)
    moreover have "block_ticks b mod cov = 0" using b(1) c by (auto simp: fits_def interval_misplaced_def)
    ultimately have k: "drain_keeps cov ?h u" using u(3) b(2) True h f(3) by (simp add: drain_keeps_def insert_block_def Let_def)
    from u(4) have "in_window u"
    proof (elim disjE conjE exE)
      assume "r = Inl TimestampAlignmentError" "drain_step cov u ?h = Some (u, r)"
      then show ?thesis using drain_raise_window [OF cu(1,2) _ k] pu pt h by simp
    next
      fix outs assume "drain_step cov u ?h = None"
      then show ?thesis by (rule drain_step_None_window [OF cu(1,2)]) (use pu pt h in auto)
    qed
    then show ?thesis using len mx by simp
  next
    case False
    have "block_ticks b < ta_next t \<or> (block_ticks b - ta_next t) div cov < int (ta_max_pending t)"
      using st False by (auto simp: drain_step_def Let_def split: if_splits option.splits)
    then have "in_window ?t" using w(1) b(2) c f ins(3) by (simp add: in_window_def)
    then show ?thesis using in_window_advances [OF _ u(2) ins(1)] in_window_length [OF ins(1)] f(1) by simp
  qed
  then have "aligner_inv u" using cu w(2) f by (intro aligner_invI) (auto simp: same_epoch_def)
  then show ?thesis using that [OF u(1) _ cu(3)] u(4) by blast
qed


lemma call_ok_raise: "aligner_inv u \<Longrightarrow> settings u = settings t \<Longrightarrow> call_ok t run cov added u (Inl TimestampAlignmentError)"
  by (simp add: call_ok_def)

lemma call_ok_then:
  assumes "call_ok t (Some run) cov {#} u (Inr outs)" "aligner_inv v" "settings v = settings u" "ta_run_id v = Some run"
    "ta_coverage v = ta_coverage u" "tiles (epoch_coverage u) (ta_next u) rest (ta_next v)" "pending_blocks u + added = out_blocks rest + pending_blocks v"
  shows "call_ok t (Some run) cov added v (Inr (outs @ rest))"
  using assms tiles_append [OF _ assms(6)] by (auto simp: call_ok_def union_ac)

lemma store_block_call:
  assumes inv: "aligner_inv t" and fit: "fits t (block_ticks b) b"
    and room: "\<not> block_ticks b < ta_next t" "\<not> occupied b (map_of (ta_pending t) (block_ticks b))"
  obtains u r where "store_block t b = Some (u, r)" "aligner_inv u" "settings u = settings t" "ta_run_id u = ta_run_id t"
    "ta_coverage u = ta_coverage t" "r = Inl TimestampAlignmentError \<or> (\<exists>outs. r = Inr outs \<and>
      tiles (epoch_coverage t) (ta_next t) outs (ta_next u) \<and> pending_blocks t + {#b#} = out_blocks outs + pending_blocks u)"
proof -
  let ?k = "block_ticks b" and ?cov = "block_coverage_ticks b"
  have c: "ta_coverage t = Some ?cov" "ta_run_id t = Some (block_run_id b)" "?k mod ?cov = 0" using fit by (auto simp: fits_def interval_misplaced_def)
  have ci: "core_inv t" using aligner_inv_core [OF inv] c by simp
  obtain t2 r2 where d: "drain_al t ?k = Some (t2, r2)" "advances t t2" "drain_keeps ?cov ?k t \<longrightarrow> drain_keeps ?cov ?k t2"
    "(r2 = Inl TimestampAlignmentError \<and> drain_step ?cov t2 ?k = Some (t2, r2)) \<or>
     (\<exists>outs. r2 = Inr outs \<and> drain_step ?cov t2 ?k = None \<and> yields t outs t2)"
    by (rule drain_al_result [OF ci c(1), where h = ?k])
  note i2 = aligner_inv_advances [OF inv ci d(2)]
  have e2: "core_inv t2" "same_epoch t t2" and sub: "set (ta_pending t2) \<subseteq> set (ta_pending t)" using d(2) by (auto simp: advances_def)
  have ep2: "ta_coverage t2 = Some ?cov" "ta_run_id t2 = Some (block_run_id b)" "fits t2 ?k b"
    using e2(2) c fit same_epoch_fits [OF e2(2)] by (simp_all add: same_epoch_def)
  from d(4) show ?thesis
  proof (elim disjE conjE exE)
    assume "r2 = Inl TimestampAlignmentError"
    then show ?thesis using that [of t2 r2] d(1) i2 e2(2) by (simp add: store_block_def same_epoch_def)
  next
    fix outs2 assume r2: "r2 = Inr outs2" and st: "drain_step ?cov t2 ?k = None" and y: "yields t outs2 t2"
    have "drain_keeps ?cov ?k t" using room c(3) place_block_incomplete [of b] by (auto simp: drain_keeps_def occupied_def)
    then have next_le: "ta_next t2 \<le> ?k" using d(3) by (simp add: drain_keeps_def)
    have w2: "in_window t2" "ta_high_water t2 \<le> ta_max_pending t2" using aligner_inv_core [OF i2(1)] ep2(2) by simp_all
    let ?s = "case map_of (ta_pending t2) ?k of None \<Rightarrow> \<lparr>pi_adc = None, pi_gpio = None\<rparr> | Some s \<Rightarrow> s"
    obtain slot where pl: "place_block b ?s = Some slot"
      using place_block_free [OF room(2) map_of_subset [OF sub core_inv_distinct [OF ci]]] by blast
    let ?t3 = "insert_block t2 b slot"
    obtain t4 r4 where z: "drain_al ?t3 (Max (pending_ticks ?t3)) = Some (t4, r4)" "aligner_inv t4" "same_epoch ?t3 t4"
      "r4 = Inl TimestampAlignmentError \<or> (\<exists>outs. r4 = Inr outs \<and> yields ?t3 outs t4)"
      by (rule insert_drain [OF e2(1) w2 ep2(1,3) next_le st pl])
    have f3: "settings ?t3 = settings t2" "ta_run_id ?t3 = ta_run_id t2" "ta_coverage ?t3 = ta_coverage t2" "ta_next ?t3 = ta_next t2"
      by (simp_all add: insert_block_def Let_def)
    have f4: "settings t4 = settings t" "ta_run_id t4 = ta_run_id t" "ta_coverage t4 = ta_coverage t"
      using z(3) f3 e2(2) by (simp_all add: same_epoch_def)
    show ?thesis
    proof (cases r4)
      case (Inl e)
      then show ?thesis using that [of t4 r4] z d(1) r2 pl f4 by (simp add: store_block_def)
    next
      case r4: (Inr outs4)
      then have "yields ?t3 outs4 t4" using z(4) by simp
      then have "tiles ?cov (ta_next t) (outs2 @ outs4) (ta_next t4)" "pending_blocks t + {#b#} = out_blocks (outs2 @ outs4) + pending_blocks t4"
        using y f3 c(1) ep2(1) insert_block_ok(2) [OF e2(1) ep2(3) next_le pl] by (auto simp: yields_def union_ac intro: tiles_append)
      then show ?thesis using that [of t4 "Inr (outs2 @ outs4)"] z d(1) r2 r4 pl f4 c(1) aligner_inv_length(1) [OF z(2)]
        by (simp add: store_block_def)
    qed
  qed
qed

lemma push_block_call:
  assumes inv: "aligner_inv t" and v: "block_valid b"
  obtains u r where "push_block t b = Some (u, r)" "call_ok t (Some (block_run_id b)) (Some (block_coverage_ticks b)) {#b#} u r"
proof (cases "block_rate_profile b = RP_ADC_1MHZ_GPIO_1MHZ \<or> interval_misplaced b")
  case True
  then show ?thesis using that [of t "Inl TimestampAlignmentError"] call_ok_raise [OF inv refl] by (auto simp: push_block_def)
next
  case False
  let ?k = "block_ticks b" and ?cov = "block_coverage_ticks b" and ?src = "Some (block_source b)" and ?sig = "Some (block_profile_signature b)"
  note bv = block_validD [OF v]
  have cov: "0 < ?cov" using bv(8,9) by (simp add: block_coverage_ticks_def)
  obtain t1 r1 where a: "activate_epoch t (block_run_id b) ?src ?cov ?sig = Some (t1, r1)" "call_ok t (Some (block_run_id b)) (Some (block_coverage_ticks b)) {#} t1 r1"
    "\<forall>outs. r1 = Inr outs \<longrightarrow> epoch_for t1 (block_run_id b) ?src ?cov ?sig"
    by (rule activate_epoch_call [OF inv bv(1,2) cov, where src = ?src and sig = ?sig])
  have i1: "aligner_inv t1" "settings t1 = settings t" using a(2) by (simp_all add: call_ok_def)
  show ?thesis
  proof (cases r1)
    case (Inl e)
    then show ?thesis using that [of t1 r1] a False call_ok_raise [OF i1] by (auto simp: push_block_def call_ok_def)
  next
    case (Inr outs)
    note ep = a(3) [rule_format, OF Inr, unfolded epoch_for_def]
    show ?thesis
    proof (cases "?k < ta_next t1 \<or> occupied b (map_of (ta_pending t1) ?k)")
      case True
      then show ?thesis using that [of t1 "Inl TimestampAlignmentError"] call_ok_raise [OF i1] a(1) Inr False by (auto simp: push_block_def)
    next
      case room: False
      have fit: "fits t1 ?k b" using v False ep by (simp add: fits_def)
      obtain u r where u: "store_block t1 b = Some (u, r)" "aligner_inv u" "settings u = settings t1" "ta_run_id u = ta_run_id t1"
        "ta_coverage u = ta_coverage t1" "r = Inl TimestampAlignmentError \<or> (\<exists>outs. r = Inr outs \<and>
          tiles (epoch_coverage t1) (ta_next t1) outs (ta_next u) \<and> pending_blocks t1 + {#b#} = out_blocks outs + pending_blocks u)"
        using store_block_call [OF i1(1) fit] room by blast
      then show ?thesis using that [of u] call_ok_raise [OF u(2), of t] call_ok_then [OF a(2) [unfolded Inr] u(2,3)] i1 ep a(1) Inr False room
        by (auto simp: push_block_def)
    qed
  qed
qed


text \<open>Inputs are blocks and gaps that their own constructors accept.\<close>

definition gap_valid :: "StreamGap \<Rightarrow> bool" where
  "gap_valid g \<longleftrightarrow> StreamGap_post_init g = Inr g"

fun input_valid :: "AlignmentInput \<Rightarrow> bool" where
  "input_valid (BlockInput b) = block_valid b"
| "input_valid (GapInput g) = gap_valid g"

fun input_run :: "AlignmentInput \<Rightarrow> int" where
  "input_run (BlockInput b) = block_run_id b"
| "input_run (GapInput g) = gp_run_id g"

fun input_coverage :: "AlignmentInput \<Rightarrow> int" where
  "input_coverage (BlockInput b) = block_coverage_ticks b"
| "input_coverage (GapInput g) = gap_item_period_ticks g * gap_items_per_frame g"

fun input_blocks :: "AlignmentInput list \<Rightarrow> data_block multiset" where
  "input_blocks [] = {#}"
| "input_blocks (BlockInput b # is) = {#b#} + input_blocks is"
| "input_blocks (GapInput g # is) = input_blocks is"

lemma gap_validD:
  assumes "gap_valid g"
  shows "0 < gp_run_id g" "gp_run_id g < 2 ^ 32" "0 < gap_item_period_ticks g * gap_items_per_frame g"
proof -
  have "\<exists>p n i. 0 < p \<and> 0 < n \<and> 0 \<le> gp_run_id g \<and> gp_run_id g < 2 ^ 32 \<and> gp_run_id g \<noteq> 0 \<and>
      Inr (g\<lparr>gp_period_ticks := Some p, gp_frame_item_count := Some n, gp_sequence_inferred_items := i\<rparr>) = (Inr g :: block_error + _)"
    using assms unfolding gap_valid_def StreamGap_post_init_def Let_def require_eq_Inr check_unsigned_eq_Inr check_nonnegative_eq_Inr by blast
  then obtain p n i where "0 < p" "0 < n" "0 \<le> gp_run_id g" "gp_run_id g < 2 ^ 32" "gp_run_id g \<noteq> 0"
    and g: "g\<lparr>gp_period_ticks := Some p, gp_frame_item_count := Some n, gp_sequence_inferred_items := i\<rparr> = g" by blast
  moreover have "gp_period_ticks g = Some p" "gp_frame_item_count g = Some n"
    using arg_cong [OF g, of gp_period_ticks] arg_cong [OF g, of gp_frame_item_count] by simp_all
  ultimately show "0 < gp_run_id g" "gp_run_id g < 2 ^ 32" "0 < gap_item_period_ticks g * gap_items_per_frame g"
    by (simp_all add: gap_item_period_ticks_def gap_items_per_frame_def)
qed

lemma aligner_inv_irrelevant:
  "aligner_inv (t\<lparr>ta_announced := a\<rparr>) = aligner_inv t" "aligner_inv (t\<lparr>ta_announced := a, ta_closed := c\<rparr>) = aligner_inv t"
  by (simp_all add: aligner_inv_def core_inv_def epoch_ok_def pending_ok_def in_window_def fits_def)

lemma push_gap_call:
  assumes inv: "aligner_inv t" and v: "gap_valid g"
  obtains u r where "push_announced_gap t g = Some (u, r)" "call_ok t (Some (gp_run_id g)) (Some (gap_item_period_ticks g * gap_items_per_frame g)) {#} u r"
proof -
  let ?cov = "gap_item_period_ticks g * gap_items_per_frame g"
  obtain t1 r1 where a: "activate_epoch t (gp_run_id g) None ?cov None = Some (t1, r1)" "call_ok t (Some (gp_run_id g)) (Some (gap_item_period_ticks g * gap_items_per_frame g)) {#} t1 r1"
    "\<forall>outs. r1 = Inr outs \<longrightarrow> epoch_for t1 (gp_run_id g) None ?cov None"
    by (rule activate_epoch_call [OF inv gap_validD [OF v], where src = None and sig = None])
  have i1: "aligner_inv t1" "settings t1 = settings t" using a(2) by (simp_all add: call_ok_def)
  show ?thesis
  proof (cases r1)
    case (Inl e)
    then have "e = TimestampAlignmentError" using a(2) by (simp add: call_ok_def)
    then have "push_announced_gap t g \<in> {Some (t, Inl TimestampAlignmentError), Some (t1, Inl TimestampAlignmentError)}"
      using a(1) Inl by (simp add: push_announced_gap_def Let_def)
    then show ?thesis using that call_ok_raise [OF i1] call_ok_raise [OF inv refl] by blast
  next
    case (Inr outs)
    let ?u = "\<lambda>key. t1\<lparr>ta_announced := AList.update key g (ta_announced t1)\<rparr>"
    have iu: "aligner_inv (?u key)" for key using i1(1) by (simp add: aligner_inv_irrelevant)
    have ok: "call_ok t (Some (gp_run_id g)) (Some (gap_item_period_ticks g * gap_items_per_frame g)) {#} (?u key) (Inr (outs @ [GapItem g]))" for key
      using call_ok_then [OF a(2) [unfolded Inr] iu, of key "[GapItem g]" "{#}"] a(3) Inr tiles_gaps [of _ _ "[g]"]
        out_blocks_simps(2) [of "[g]"] by (simp add: epoch_for_def pending_blocks_def)
    have "push_announced_gap t g \<in> {Some (t, Inl TimestampAlignmentError), Some (t1, Inl TimestampAlignmentError),
        Some (?u (gp_kind g, gp_run_id g, gp_observed_sequence g, gp_observed_first_sample_ticks g), Inr (outs @ [GapItem g]))}"
      using a(1) Inr by (simp add: push_announced_gap_def Let_def)
    then show ?thesis using that ok call_ok_raise [OF i1] call_ok_raise [OF inv refl] by blast
  qed
qed

lemma push_call:
  assumes "aligner_inv t" "input_valid i"
  obtains u r where "push t i = Some (u, r)" "call_ok t (Some (input_run i)) (Some (input_coverage i)) (input_blocks [i]) u r"
proof (cases "ta_closed t")
  case True
  then show ?thesis using that call_ok_raise [OF assms(1) refl] by (simp add: push_def)
next
  case False
  then show ?thesis
    using that assms push_block_call push_gap_call by (cases i) (simp_all add: push_def, metis+)
qed


section \<open>Whole runs\<close>

lemma TimestampAligner_inv:
  "TimestampAligner n = Inr t \<Longrightarrow> aligner_inv t \<and> int (ta_max_pending t) = n \<and> ta_run_id t = None \<and> \<not> ta_closed t \<and> pending_blocks t = {#}"
  by (auto simp: TimestampAligner_def res_simps aligner_inv_def pending_blocks_def)

lemma flush_pending_idle: "aligner_inv t \<Longrightarrow> ta_run_id t = None \<Longrightarrow> flush_pending t reason = Some (t, Inl AlignAssertionError)"
  by (simp add: aligner_inv_def flush_pending_def required_coverage_def)

inductive aligner_reach :: "int \<Rightarrow> aligner \<Rightarrow> bool" for n where
  opened: "TimestampAligner n = Inr t \<Longrightarrow> aligner_reach n t"
| pushed: "aligner_reach n t \<Longrightarrow> input_valid i \<Longrightarrow> push t i = Some (u, r) \<Longrightarrow> aligner_reach n u"
| flushed: "aligner_reach n t \<Longrightarrow> flush t = Some (u, r) \<Longrightarrow> aligner_reach n u"
| finished: "aligner_reach n t \<Longrightarrow> finish t = Some (u, r) \<Longrightarrow> aligner_reach n u"

lemma flush_finish_call:
  assumes inv: "aligner_inv t"
  shows "\<exists>u r. flush t = Some (u, r) \<and> aligner_inv u \<and> ta_max_pending u = ta_max_pending t \<and>
      (r = Inl TimestampAlignmentError \<or> (\<exists>outs. r = Inr outs) \<or> (r = Inl AlignAssertionError \<and> ta_run_id t = None \<and> \<not> ta_closed t))"
    "\<exists>u r. finish t = Some (u, r) \<and> aligner_inv u \<and> ta_max_pending u = ta_max_pending t \<and>
      (r = Inl TimestampAlignmentError \<or> (\<exists>outs. r = Inr outs) \<or> (r = Inl AlignAssertionError \<and> ta_run_id t = None \<and> \<not> ta_closed t))"
proof -
  have "\<exists>u r. flush_pending t reason = Some (u, r) \<and> aligner_inv u \<and> ta_max_pending u = ta_max_pending t \<and>
      (r = Inl TimestampAlignmentError \<or> (\<exists>outs. r = Inr outs) \<or> (r = Inl AlignAssertionError \<and> ta_run_id t = None))" for reason
  proof (cases "ta_run_id t = None")
    case True
    with flush_pending_idle [OF inv] inv show ?thesis by simp
  next
    case False
    obtain u r where "flush_pending t reason = Some (u, r)" "call_ok t (ta_run_id t) (ta_coverage t) {#} u r"
      using flush_pending_call [OF inv False, of reason] by metis
    then show ?thesis by (auto simp: call_ok_def)
  qed
  note f = this
  show "\<exists>u r. flush t = Some (u, r) \<and> aligner_inv u \<and> ta_max_pending u = ta_max_pending t \<and>
      (r = Inl TimestampAlignmentError \<or> (\<exists>outs. r = Inr outs) \<or> (r = Inl AlignAssertionError \<and> ta_run_id t = None \<and> \<not> ta_closed t))"
    using f [of EXPLICIT_FLUSH] inv by (cases "ta_closed t") (auto simp: flush_def)
  show "\<exists>u r. finish t = Some (u, r) \<and> aligner_inv u \<and> ta_max_pending u = ta_max_pending t \<and>
      (r = Inl TimestampAlignmentError \<or> (\<exists>outs. r = Inr outs) \<or> (r = Inl AlignAssertionError \<and> ta_run_id t = None \<and> \<not> ta_closed t))"
    using f [of END_OF_INPUT] inv by (cases "ta_closed t") (auto simp: finish_def aligner_inv_irrelevant)
qed

lemma aligner_reach_inv:
  assumes "aligner_reach n t"
  shows "aligner_inv t \<and> int (ta_max_pending t) = n"
  using assms
proof induction
  case (opened t)
  then show ?case using TimestampAligner_inv by blast
next
  case (pushed t i u r)
  obtain v q where "push t i = Some (v, q)" "call_ok t (Some (input_run i)) (Some (input_coverage i)) (input_blocks [i]) v q"
    using push_call pushed.IH pushed.hyps(2) by blast
  then show ?case using pushed by (auto simp: call_ok_def)
next
  case (flushed t u r)
  then show ?case using flush_finish_call(1) [of t] by auto
next
  case (finished t u r)
  then show ?case using flush_finish_call(2) [of t] by auto
qed

lemma push_all_call:
  assumes "aligner_inv t" "list_all input_valid is"
  shows "\<exists>u outs r. push_all t is = Some (u, outs, r) \<and> aligner_inv u \<and> (r = Inl TimestampAlignmentError \<or> (r = Inr () \<and>
    settings u = settings t \<and> ta_run_id u = (if is = [] then ta_run_id t else Some (input_run (last is))) \<and>
    pending_blocks t + input_blocks is = out_blocks outs + pending_blocks u \<and>
    ((\<forall>i \<in> set is. input_run i = run) \<and> (ta_run_id t = None \<or> ta_run_id t = Some run) \<longrightarrow>
      (ta_run_id t \<noteq> None \<longrightarrow> ta_coverage u = ta_coverage t) \<and> (\<forall>i \<in> set is. ta_coverage u = Some (input_coverage i)) \<and> tiles (epoch_coverage u) (position t) outs (position u))))"
  using assms
proof (induction "is" arbitrary: t)
  case (Cons i "is")
  obtain t1 r1 where p: "push t i = Some (t1, r1)" "call_ok t (Some (input_run i)) (Some (input_coverage i)) (input_blocks [i]) t1 r1"
    using push_call Cons.prems by (metis list.pred_inject(2))
  show ?case
  proof (cases r1)
    case (Inl e)
    with p show ?thesis by (auto simp: call_ok_def)
  next
    case (Inr outs)
    note c = p(2) [unfolded call_ok_def Inr]
    obtain u outs2 r where u: "push_all t1 is = Some (u, outs2, r)" "aligner_inv u" "r = Inl TimestampAlignmentError \<or> (r = Inr () \<and>
      settings u = settings t1 \<and> ta_run_id u = (if is = [] then ta_run_id t1 else Some (input_run (last is))) \<and>
      pending_blocks t1 + input_blocks is = out_blocks outs2 + pending_blocks u \<and>
      ((\<forall>i \<in> set is. input_run i = run) \<and> (ta_run_id t1 = None \<or> ta_run_id t1 = Some run) \<longrightarrow>
        (ta_run_id t1 \<noteq> None \<longrightarrow> ta_coverage u = ta_coverage t1) \<and> (\<forall>i \<in> set is. ta_coverage u = Some (input_coverage i)) \<and> tiles (epoch_coverage u) (position t1) outs2 (position u)))"
      using Cons.IH [of t1] c Cons.prems by auto
    have eq: "push_all t (i # is) = Some (u, outs @ outs2, r)" using p(1) Inr u(1) by simp
    show ?thesis
    proof (cases "r = Inl TimestampAlignmentError")
      case True
      then show ?thesis using eq u(2) by blast
    next
      case False
      note d = u(3) [unfolded disj_imp, rule_format, OF False]
      have bl: "input_blocks (i # is) = input_blocks [i] + input_blocks is" by (cases i) simp_all
      have "pending_blocks t + input_blocks (i # is) = out_blocks (outs @ outs2) + pending_blocks u"
        using c d unfolding bl by (auto simp: union_ac)
      moreover have "tiles (epoch_coverage u) (position t) (outs @ outs2) (position u) \<and> (ta_run_id t \<noteq> None \<longrightarrow> ta_coverage u = ta_coverage t) \<and>
          (\<forall>j \<in> set (i # is). ta_coverage u = Some (input_coverage j))"
        if "(\<forall>j \<in> set (i # is). input_run j = run) \<and> (ta_run_id t = None \<or> ta_run_id t = Some run)"
        using that c d tiles_append [of "epoch_coverage u" "position t" outs "position t1" outs2 "position u"] by (auto split: if_splits)
      ultimately show ?thesis using eq u(2) c d by auto
    qed
  qed
qed simp


text \<open>\<^verbatim>\<open>align_by_timestamp\<close> returns; how it ends; and what it has put out when it ends well.\<close>

lemma align_run:
  assumes "list_all input_valid is" "0 < n"
  obtains outs r where "align_by_timestamp is n = Some (outs, r)" "r \<in> {Inl TimestampAlignmentError, Inl AlignAssertionError, Inr ()}"
    "r = Inl AlignAssertionError \<longleftrightarrow> is = []" "r = Inr () \<longrightarrow> out_blocks outs = input_blocks is"
    "r = Inr () \<and> (\<forall>i \<in> set is. input_run i = run) \<longrightarrow> (\<exists>cov b. tiles cov 0 outs b \<and> (\<forall>i \<in> set is. input_coverage i = cov))"
proof -
  obtain t where t: "TimestampAligner n = Inr t" using assms(2) by (simp add: TimestampAligner_def)
  note i = TimestampAligner_inv [OF t]
  obtain u outs r where u: "push_all t is = Some (u, outs, r)" "aligner_inv u" "r = Inl TimestampAlignmentError \<or> (r = Inr () \<and>
    settings u = settings t \<and> ta_run_id u = (if is = [] then ta_run_id t else Some (input_run (last is))) \<and>
    pending_blocks t + input_blocks is = out_blocks outs + pending_blocks u \<and>
    ((\<forall>i \<in> set is. input_run i = run) \<and> (ta_run_id t = None \<or> ta_run_id t = Some run) \<longrightarrow>
      (ta_run_id t \<noteq> None \<longrightarrow> ta_coverage u = ta_coverage t) \<and> (\<forall>i \<in> set is. ta_coverage u = Some (input_coverage i)) \<and> tiles (epoch_coverage u) (position t) outs (position u)))"
    using push_all_call [OF _ assms(1), of t run] i by blast
  consider (raise) "r = Inl TimestampAlignmentError" "is \<noteq> []" | (empty) "is = []" | (pushed) "r = Inr ()" "is \<noteq> []" using u(1,3) by (cases "is") auto
  then show ?thesis
  proof cases
    case raise
    then show ?thesis using that [of outs "Inl TimestampAlignmentError"] t u(1) by (simp add: align_by_timestamp_def)
  next
    case empty
    then have "align_by_timestamp is n = Some ([], Inl AlignAssertionError)"
      using t i flush_pending_idle [of t END_OF_INPUT] by (simp add: align_by_timestamp_def finish_def)
    then show ?thesis using that empty by simp
  next
    case pushed
    then have run: "ta_run_id u \<noteq> None" "\<not> ta_closed u" using u(3) i by auto
    obtain v q where v: "flush_pending u END_OF_INPUT = Some (v, q)" "call_ok u (ta_run_id u) (ta_coverage u) {#} v q" "\<And>outs. q = Inr outs \<Longrightarrow> ta_pending v = []"
      using flush_pending_call [OF u(2) run(1), of END_OF_INPUT] by metis
    show ?thesis
    proof (cases q)
      case (Inl e)
      then show ?thesis using that [of outs "Inl e"] t u(1) v(1,2) run pushed by (auto simp: align_by_timestamp_def finish_def call_ok_def)
    next
      case (Inr fin)
      have eq: "align_by_timestamp is n = Some (outs @ fin, Inr ())" using t u(1) v(1) Inr run pushed by (simp add: align_by_timestamp_def finish_def)
      have pv: "pending_blocks v = {#}" using v(3) [OF Inr] by (simp add: pending_blocks_def)
      have "input_blocks is = out_blocks (outs @ fin)" using u(3) v(2) Inr pushed i pv by (simp add: call_ok_def)
      moreover have "tiles (epoch_coverage u) 0 (outs @ fin) (position v) \<and> (\<forall>i \<in> set is. input_coverage i = epoch_coverage u)" if "\<forall>i \<in> set is. input_run i = run"
        using that u(3) v(2) Inr pushed i run
          tiles_append [of "epoch_coverage u" 0 outs "position u" fin "position v"] by (auto simp: call_ok_def)
      ultimately show ?thesis using that [OF eq] pushed by auto
    qed
  qed
qed


section \<open>Two complete streams\<close>

text \<open>\<open>stream_member ref k b\<close>: block number \<open>k\<close> of a run like that of \<open>ref\<close>, without loss marks.\<close>

definition stream_member :: "data_block \<Rightarrow> int \<Rightarrow> data_block \<Rightarrow> bool" where
  "stream_member ref k b \<longleftrightarrow> block_valid b \<and> \<not> interval_misplaced b \<and> block_rate_profile b \<noteq> RP_ADC_1MHZ_GPIO_1MHZ \<and>
     block_sequence b = k mod 2 ^ 32 \<and> block_ticks b = k * block_coverage_ticks ref \<and> block_run_id b = block_run_id ref \<and>
     block_source b = block_source ref \<and> block_coverage_ticks b = block_coverage_ticks ref \<and>
     block_profile_signature b = block_profile_signature ref \<and> \<not> flag_set b FLAG_GAP_BEFORE \<and> block_gap b = None"

definition in_epoch :: "data_block \<Rightarrow> aligner \<Rightarrow> bool" where
  "in_epoch ref t \<longleftrightarrow> ta_run_id t = Some (block_run_id ref) \<and> ta_source t = Some (block_source ref) \<and>
     ta_coverage t = Some (block_coverage_ticks ref) \<and> ta_signature t = Some (block_profile_signature ref) \<and> \<not> ta_closed t \<and> ta_announced t = []"

definition ready :: "data_block \<Rightarrow> int \<Rightarrow> aligner \<Rightarrow> bool" where
  "ready ref k t \<longleftrightarrow> core_inv t \<and> in_epoch ref t \<and> ta_pending t = [] \<and> ta_next t = k * block_coverage_ticks ref \<and>
     (\<forall>kind \<in> {FK_ADC_DATA, FK_GPIO_DATA}. ta_expected_sequence t kind = k mod 2 ^ 32 \<and> ta_expected_ticks t kind = k * block_coverage_ticks ref)"

lemma gap_from_expected_matching:
  assumes "block_valid b" "\<not> flag_set b FLAG_GAP_BEFORE"
  shows "gap_from_expected b (block_sequence b) (block_ticks b) 0 = Inr None"
  using assms block_validD [OF assms(1)]
  by (simp add: gap_from_expected_def check_unsigned_def check_nonnegative_def Let_def UINT32_MAX_def UINT64_MAX_def)

lemma activate_in_epoch:
  assumes "in_epoch ref t" "stream_member ref k b"
  shows "activate_epoch t (block_run_id b) (Some (block_source b)) (block_coverage_ticks b) (Some (block_profile_signature b)) = Some (t, Inr [])"
  using assms by (simp add: in_epoch_def stream_member_def activate_epoch_def)

lemma drain_al_idle:
  assumes "in_epoch ref t" "drain_step (block_coverage_ticks ref) t h = None"
  shows "drain_al t h = Some (t, Inr [])"
  using assms by (simp add: drain_al_def required_coverage_def in_epoch_def drain_loop_al.simps)

text \<open>The first block of an interval waits.\<close>

definition waiting :: "data_block \<Rightarrow> int \<Rightarrow> PendingInterval \<Rightarrow> aligner \<Rightarrow> bool" where
  "waiting ref k slot t \<longleftrightarrow> (\<exists>t0. ready ref k t0 \<and> core_inv t \<and> t = t0\<lparr>ta_pending := [(k * block_coverage_ticks ref, slot)], ta_high_water := ta_high_water t\<rparr>)"

lemma push_first:
  assumes r: "ready ref k t" and b: "stream_member ref k b" and pl: "place_block b \<lparr>pi_adc = None, pi_gpio = None\<rparr> = Some slot"
  shows "\<exists>u. store_block t b = Some (u, Inr []) \<and> waiting ref k slot u"
proof -
  let ?cov = "block_coverage_ticks ref"
  have t: "core_inv t" "in_epoch ref t" "ta_pending t = []" "ta_next t = k * ?cov" using r by (simp_all add: ready_def)
  have bt: "block_ticks b = k * ?cov" using b by (simp add: stream_member_def)
  have fit: "fits t (block_ticks b) b" using b t(2) by (simp add: fits_def stream_member_def in_epoch_def)
  have d1: "drain_al t (k * ?cov) = Some (t, Inr [])" using t(2,3) by (intro drain_al_idle) (simp_all add: drain_step_def)
  let ?u = "insert_block t b slot"
  have u: "?u = t\<lparr>ta_pending := [(k * ?cov, slot)], ta_high_water := ta_high_water ?u\<rparr>" using t(3) bt by (simp add: insert_block_def Let_def)
  have cu: "core_inv ?u" using insert_block_ok(1) [OF t(1) fit] t(3,4) bt pl by simp
  have mx: "0 < ta_max_pending t" using t(1) by (simp add: core_inv_def)
  have ns: "\<not> slot_complete slot" using pl by (cases b) (auto simp: place_block_def slot_complete_def)
  have "drain_step ?cov ?u (k * ?cov) = None" by (subst u) (use t(4) mx ns in \<open>simp add: drain_step_def\<close>)
  then have d2: "drain_al ?u (k * ?cov) = Some (?u, Inr [])" using t(2) by (intro drain_al_idle) (simp_all add: in_epoch_def insert_block_def Let_def)
  have "pending_ticks ?u = {k * ?cov}" "length (ta_pending ?u) = 1" "ta_max_pending ?u = ta_max_pending t" by (subst u, simp)+
  then have "store_block t b = Some (?u, Inr [])" using d1 d2 bt t(3) pl mx by (simp add: store_block_def Let_def)
  moreover have "waiting ref k slot ?u" unfolding waiting_def using r cu u by blast
  ultimately show ?thesis by blast
qed


lemma block_coverage_pos: "block_valid b \<Longrightarrow> 0 < block_coverage_ticks b"
  using block_validD(8,9) by (simp add: block_coverage_ticks_def)

lemma stream_member_end:
  assumes "stream_member ref k b"
  shows "block_end_tick_exclusive b = (k + 1) * block_coverage_ticks ref" "(block_sequence b + 1) AND UINT32_MAX = (k + 1) mod 2 ^ 32"
proof -
  have v: "block_valid b" "\<not> UINT64_MAX < block_ticks b + block_coverage_ticks b" using assms by (auto simp: stream_member_def interval_misplaced_def)
  have "block_ticks b + block_coverage_ticks b = (k + 1) * block_coverage_ticks ref" using assms by (simp add: stream_member_def algebra_simps)
  moreover have "0 \<le> block_ticks b + block_coverage_ticks b" "block_ticks b + block_coverage_ticks b < 2 ^ 64"
    using block_validD(5) [OF v(1)] block_coverage_pos [OF v(1)] v(2) by (simp_all add: UINT64_MAX_def)
  ultimately show "block_end_tick_exclusive b = (k + 1) * block_coverage_ticks ref"
    by (simp add: block_end_tick_exclusive_def block_coverage_ticks_def and_UINT_MAX)
  show "(block_sequence b + 1) AND UINT32_MAX = (k + 1) mod 2 ^ 32"
    using assms by (simp add: stream_member_def and_UINT_MAX mod_simps)
qed

lemma AlignedInterval_post_init_id: "AlignedInterval_post_init i = Inr j \<Longrightarrow> j = i"
  unfolding AlignedInterval_post_init_def Let_def by (auto simp: require_eq_Inr split: list.splits)

text \<open>Its partner completes the interval, which is put out at once.\<close>

lemma emit_complete:
  assumes cu: "core_inv u" and e: "in_epoch ref u" and p: "ta_pending u = [(k * block_coverage_ticks ref, \<lparr>pi_adc = Some a, pi_gpio = Some g\<rparr>)]"
    and nx: "ta_next u = k * block_coverage_ticks ref" and m: "stream_member ref k (AsADC a)" "stream_member ref k (AsGPIO g)"
    and ex: "\<forall>kind \<in> {FK_ADC_DATA, FK_GPIO_DATA}. ta_expected_sequence u kind = k mod 2 ^ 32 \<and> ta_expected_ticks u kind = k * block_coverage_ticks ref"
  shows "\<exists>v. emit_slot u (ta_next u) \<lparr>pi_adc = Some a, pi_gpio = Some g\<rparr> None =
    (v, Inr [IntervalItem \<lparr>ai_adc = Some a, ai_gpio = Some g, ai_stream_gaps = []\<rparr>]) \<and> ready ref (k + 1) v"
proof -
  let ?cov = "block_coverage_ticks ref" and ?s = "\<lparr>pi_adc = Some a, pi_gpio = Some g\<rparr>"
  have cont: "continuity_result u b = Inr \<lparr>cr_block = b, cr_gap = None, cr_emit_gap = False, cr_announced_key = None\<rparr>"
    if "b \<in> {AsADC a, AsGPIO g}" for b
  proof -
    have "gap_from_expected b (ta_expected_sequence u (block_kind b)) (ta_expected_ticks u (block_kind b)) 0 = Inr None"
      using gap_from_expected_matching [of b] that m ex by (auto simp: stream_member_def)
    then show ?thesis using e that m by (auto simp: continuity_result_def in_epoch_def stream_member_def)
  qed
  let ?rs = "map (\<lambda>b. \<lparr>cr_block = b, cr_gap = None, cr_emit_gap = False, cr_announced_key = None\<rparr>) [AsADC a, AsGPIO g]"
  have rs: "map_res (continuity_result u) (slot_blocks ?s) = Inr ?rs" using cont by (simp add: slot_blocks_def side_blocks_def)
  have s: "map_of (ta_pending u) (ta_next u) = Some ?s" by (simp add: p nx)
  have iv: "AlignedInterval_post_init \<lparr>ai_adc = Some a, ai_gpio = Some g, ai_stream_gaps = []\<rparr> = Inr \<lparr>ai_adc = Some a, ai_gpio = Some g, ai_stream_gaps = []\<rparr>"
    using slot_interval_ok [OF cu s rs] AlignedInterval_post_init_id by (fastforce simp: List.map_filter_def)
  have st: "step_ok u (emit_slot u (ta_next u) ?s None)" using emit_slot_ok [OF cu s, of None undefined] by (simp add: slot_complete_def)
  let ?u1 = "fold accept_result ?rs u"
  let ?u2 = "?u1\<lparr>ta_pending := AList.delete (ta_next u) (ta_pending ?u1)\<rparr>"
  have em: "emit_slot u (ta_next u) ?s None = (case advance ?u2 1 of (t2, Inl e) \<Rightarrow> (t2, Inl e)
      | (t2, Inr _) \<Rightarrow> (t2, Inr [IntervalItem \<lparr>ai_adc = Some a, ai_gpio = Some g, ai_stream_gaps = []\<rparr>]))"
    unfolding emit_slot_def rs using iv by (simp add: List.map_filter_def Let_def)
  have f: "ta_expected_sequence ?u1 FK_ADC_DATA = (k + 1) mod 2 ^ 32" "ta_expected_sequence ?u1 FK_GPIO_DATA = (k + 1) mod 2 ^ 32"
    "ta_expected_ticks ?u1 FK_ADC_DATA = (k + 1) * ?cov" "ta_expected_ticks ?u1 FK_GPIO_DATA = (k + 1) * ?cov" "ta_announced ?u1 = []" "ta_pending ?u1 = ta_pending u" "same_epoch u ?u1" "ta_next ?u1 = ta_next u"
    using stream_member_end [OF m(1)] stream_member_end [OF m(2)] e by (simp_all add: accept_result_def Let_def in_epoch_def same_epoch_def)
  have cov2: "ta_coverage ?u2 = Some ?cov" using f(7) e by (simp add: same_epoch_def in_epoch_def)
  have "ta_next ?u2 + 1 * ?cov \<le> UINT64_MAX" using core_inv_slot(5) [OF cu s] e f(8) by (simp add: in_epoch_def)
  then have ad: "advance ?u2 1 = (?u2\<lparr>ta_next := ta_next u + ?cov\<rparr>, Inr ())" using cov2 f(5,8)
    by (simp add: advance_def required_coverage_def Let_def)
  have "core_inv (?u2\<lparr>ta_next := ta_next u + ?cov\<rparr>)" using st unfolding em ad by (simp add: step_ok_def advances_def)
  then have "ready ref (k + 1) (?u2\<lparr>ta_next := ta_next u + ?cov\<rparr>)" using f e p nx
    by (simp add: ready_def in_epoch_def same_epoch_def algebra_simps)
  then show ?thesis unfolding em ad by simp
qed


lemma push_second:
  assumes w: "waiting ref k slot t" and b: "stream_member ref k b" and pl: "place_block b slot = Some \<lparr>pi_adc = Some a, pi_gpio = Some g\<rparr>"
    and m: "stream_member ref k (AsADC a)" "stream_member ref k (AsGPIO g)"
  shows "\<exists>u. store_block t b = Some (u, Inr [IntervalItem \<lparr>ai_adc = Some a, ai_gpio = Some g, ai_stream_gaps = []\<rparr>]) \<and> ready ref (k + 1) u"
proof -
  let ?cov = "block_coverage_ticks ref" and ?s = "\<lparr>pi_adc = Some a, pi_gpio = Some g\<rparr>"
  let ?item = "IntervalItem \<lparr>ai_adc = Some a, ai_gpio = Some g, ai_stream_gaps = []\<rparr>"
  obtain t0 where t0: "ready ref k t0" "core_inv t" "t = t0\<lparr>ta_pending := [(k * ?cov, slot)], ta_high_water := ta_high_water t\<rparr>"
    using w by (auto simp: waiting_def)
  have t: "in_epoch ref t" "ta_pending t = [(k * ?cov, slot)]" "ta_next t = k * ?cov" "0 < ta_max_pending t"
    "\<forall>kind \<in> {FK_ADC_DATA, FK_GPIO_DATA}. ta_expected_sequence t kind = k mod 2 ^ 32 \<and> ta_expected_ticks t kind = k * ?cov"
    using t0(1,2) by (subst t0(3), simp add: ready_def in_epoch_def core_inv_def)+
  have bt: "block_ticks b = k * ?cov" using b by (simp add: stream_member_def)
  have fit: "fits t (block_ticks b) b" using b t(1) by (simp add: fits_def stream_member_def in_epoch_def)
  have ns: "\<not> slot_complete slot" using place_block_incomplete [of b slot] pl by simp
  have d1: "drain_al t (k * ?cov) = Some (t, Inr [])" using t ns by (intro drain_al_idle) (simp_all add: drain_step_def)
  let ?u = "insert_block t b ?s"
  have u: "ta_pending ?u = [(k * ?cov, ?s)]" "in_epoch ref ?u" "ta_next ?u = k * ?cov" "ta_coverage ?u = Some ?cov"
    "\<forall>kind \<in> {FK_ADC_DATA, FK_GPIO_DATA}. ta_expected_sequence ?u kind = k mod 2 ^ 32 \<and> ta_expected_ticks ?u kind = k * ?cov"
    using t bt by (simp_all add: insert_block_def Let_def in_epoch_def)
  have cu: "core_inv ?u" using insert_block_ok(1) [OF t0(2) fit] t(2,3) bt pl by simp
  obtain v where v: "emit_slot ?u (ta_next ?u) ?s None = (v, Inr [?item])" "ready ref (k + 1) v" using emit_complete [OF cu u(2,1,3) m u(5)] by blast
  have "drain_step ?cov ?u (k * ?cov) = Some (v, Inr [?item])" using u v(1) by (simp add: drain_step_def slot_complete_def)
  moreover have "drain_step ?cov v (k * ?cov) = None" using v(2) by (simp add: drain_step_def ready_def)
  ultimately have "drain_loop_al ?cov ?u (k * ?cov) [] = Some (v, Inr [?item])" by (simp add: drain_loop_al.simps)
  then have "drain_al ?u (k * ?cov) = Some (v, Inr [?item])" using u(4) by (simp add: drain_al_def required_coverage_def)
  moreover have "length (ta_pending v) = 0" using v(2) by (simp add: ready_def)
  ultimately have "store_block t b = Some (v, Inr [?item])" using d1 bt t(2) pl u(1) by (simp add: store_block_def Let_def)
  with v(2) show ?thesis by blast
qed

lemma push_member:
  assumes "in_epoch ref t" "stream_member ref k b" "ta_next t = k * block_coverage_ticks ref"
    "\<not> occupied b (map_of (ta_pending t) (k * block_coverage_ticks ref))" "store_block t b = Some (u, Inr outs)"
  shows "push t (BlockInput b) = Some (u, Inr outs)"
  using assms activate_in_epoch [OF assms(1,2)] by (simp add: push_def push_block_def in_epoch_def stream_member_def)

text \<open>The two blocks of one interval, in either order.\<close>

definition pair_inputs :: "ADCBlock \<times> GPIOBlock \<times> bool \<Rightarrow> AlignmentInput list" where
  "pair_inputs p = (case p of (a, g, gpio_first) \<Rightarrow>
     if gpio_first then [BlockInput (AsGPIO g), BlockInput (AsADC a)] else [BlockInput (AsADC a), BlockInput (AsGPIO g)])"

definition pair_item :: "ADCBlock \<times> GPIOBlock \<times> bool \<Rightarrow> AlignmentItem" where
  "pair_item p = (case p of (a, g, _) \<Rightarrow> IntervalItem \<lparr>ai_adc = Some a, ai_gpio = Some g, ai_stream_gaps = []\<rparr>)"

definition pair_member :: "data_block \<Rightarrow> int \<Rightarrow> ADCBlock \<times> GPIOBlock \<times> bool \<Rightarrow> bool" where
  "pair_member ref k p = (case p of (a, g, _) \<Rightarrow> stream_member ref k (AsADC a) \<and> stream_member ref k (AsGPIO g))"

lemma push_two:
  assumes r: "ready ref k t" and m: "stream_member ref k b" "stream_member ref k c" "stream_member ref k (AsADC a)" "stream_member ref k (AsGPIO g)"
    and pl: "place_block b \<lparr>pi_adc = None, pi_gpio = None\<rparr> = Some slot" "place_block c slot = Some \<lparr>pi_adc = Some a, pi_gpio = Some g\<rparr>"
  shows "\<exists>u. push_all t [BlockInput b, BlockInput c] = Some (u, [IntervalItem \<lparr>ai_adc = Some a, ai_gpio = Some g, ai_stream_gaps = []\<rparr>], Inr ()) \<and>
    ready ref (k + 1) u"
proof -
  obtain t1 where t1: "store_block t b = Some (t1, Inr [])" "waiting ref k slot t1" using push_first [OF r m(1) pl(1)] by blast
  obtain u where u: "store_block t1 c = Some (u, Inr [IntervalItem \<lparr>ai_adc = Some a, ai_gpio = Some g, ai_stream_gaps = []\<rparr>])" "ready ref (k + 1) u"
    using push_second [OF t1(2) m(2) pl(2) m(3,4)] by blast
  obtain t0 where t0: "ready ref k t0" "t1 = t0\<lparr>ta_pending := [(k * block_coverage_ticks ref, slot)], ta_high_water := ta_high_water t1\<rparr>"
    using t1(2) by (auto simp: waiting_def)
  have e1: "in_epoch ref t1" "ta_next t1 = k * block_coverage_ticks ref" "ta_pending t1 = [(k * block_coverage_ticks ref, slot)]"
    using t0(1) by (subst t0(2), simp add: ready_def in_epoch_def)+
  have "push t (BlockInput b) = Some (t1, Inr [])"
    using push_member [OF _ m(1) _ _ t1(1)] r by (simp add: ready_def occupied_def)
  moreover have "push t1 (BlockInput c) = Some (u, Inr [IntervalItem \<lparr>ai_adc = Some a, ai_gpio = Some g, ai_stream_gaps = []\<rparr>])"
    using push_member [OF e1(1) m(2) e1(2) _ u(1)] e1(3) pl(2) by (simp add: occupied_def)
  ultimately show ?thesis using u(2) by simp
qed

lemma push_pair:
  assumes r: "ready ref k t" and m: "pair_member ref k p"
  shows "\<exists>u. push_all t (pair_inputs p) = Some (u, [pair_item p], Inr ()) \<and> ready ref (k + 1) u"
proof -
  obtain a g f where p: "p = (a, g, f)" by (cases p)
  have mm: "stream_member ref k (AsADC a)" "stream_member ref k (AsGPIO g)" using m by (simp_all add: p pair_member_def)
  show ?thesis
    using push_two [OF r mm(2,1,1,2)] push_two [OF r mm(1,2,1,2)] by (cases f) (auto simp: p pair_inputs_def pair_item_def place_block_def)
qed


lemma push_all_append:
  "push_all t xs = Some (u, outs, Inr ()) \<Longrightarrow> push_all u ys = Some (v, rest, r) \<Longrightarrow> push_all t (xs @ ys) = Some (v, outs @ rest, r)"
  by (induction xs arbitrary: t outs) (auto split: option.splits sum.splits prod.splits)

fun pairs_from :: "data_block \<Rightarrow> int \<Rightarrow> (ADCBlock \<times> GPIOBlock \<times> bool) list \<Rightarrow> bool" where
  "pairs_from ref k [] = True"
| "pairs_from ref k (p # ps) = (pair_member ref k p \<and> pairs_from ref (k + 1) ps)"

lemma push_pairs:
  "ready ref k t \<Longrightarrow> pairs_from ref k ps \<Longrightarrow>
   \<exists>u. push_all t (concat (map pair_inputs ps)) = Some (u, map pair_item ps, Inr ()) \<and> ready ref (k + int (length ps)) u"
proof (induction ps arbitrary: k t)
  case (Cons p ps)
  obtain u where u: "push_all t (pair_inputs p) = Some (u, [pair_item p], Inr ())" "ready ref (k + 1) u"
    using push_pair [of ref k t p] Cons.prems by auto
  obtain v where v: "push_all u (concat (map pair_inputs ps)) = Some (v, map pair_item ps, Inr ())" "ready ref (k + 1 + int (length ps)) v"
    using Cons.IH [OF u(2)] Cons.prems by auto
  then show ?case using push_all_append [OF u(1) v(1)] by (auto simp: algebra_simps)
qed simp

lemma start_ready:
  assumes t: "TimestampAligner n = Inr t" and b: "stream_member ref 0 b"
  shows "\<exists>u. ready ref 0 u \<and> push t (BlockInput b) = push u (BlockInput b)"
proof -
  have v: "block_valid b" and e: "block_run_id b = block_run_id ref" "block_source b = block_source ref"
    "block_coverage_ticks b = block_coverage_ticks ref" "block_profile_signature b = block_profile_signature ref" using b by (simp_all add: stream_member_def)
  have f: "ta_run_id t = None" "ta_closed t = False" "0 < ta_max_pending t" "ta_high_water t = 0" using t by (auto simp: TimestampAligner_def res_simps)
  define u where "u = t\<lparr>ta_pending := [], ta_announced := [], ta_run_id := Some (block_run_id ref), ta_source := Some (block_source ref),
    ta_coverage := Some (block_coverage_ticks ref), ta_signature := Some (block_profile_signature ref), ta_next := 0,
    ta_expected_sequence := (\<lambda>_. 0), ta_expected_ticks := (\<lambda>_. 0)\<rparr>"
  have act: "activate_epoch t (block_run_id b) (Some (block_source b)) (block_coverage_ticks b) (Some (block_profile_signature b)) = Some (u, Inr [])"
    using f block_validD(1,2) [OF v] block_coverage_pos [OF v] by (simp add: activate_epoch_def start_epoch_def u_def e)
  have r: "ready ref 0 u"
    using f block_validD(1,2) [OF v] block_coverage_pos [OF v]
    by (simp add: ready_def in_epoch_def core_inv_def epoch_ok_def pending_ok_def u_def e UINT64_MAX_def)
  then have "activate_epoch u (block_run_id b) (Some (block_source b)) (block_coverage_ticks b) (Some (block_profile_signature b)) = Some (u, Inr [])"
    using activate_in_epoch [OF _ b] by (simp add: ready_def)
  with act have "push t (BlockInput b) = push u (BlockInput b)"
    using f r b by (simp add: push_def push_block_def ready_def in_epoch_def stream_member_def)
  with r show ?thesis by blast
qed

lemma push_complete:
  assumes "TimestampAligner n = Inr t" "pairs_from ref 0 ps" "ps \<noteq> []"
  obtains u where "push_all t (concat (map pair_inputs ps)) = Some (u, map pair_item ps, Inr ())" "ready ref (int (length ps)) u"
proof -
  obtain p qs where ps: "ps = p # qs" using assms(3) by (cases ps) auto
  obtain b c where pi: "pair_inputs p = [BlockInput b, BlockInput c]" "stream_member ref 0 b"
    using assms(2) unfolding ps by (cases p; cases "snd (snd p)") (auto simp: pair_inputs_def pair_member_def)
  obtain t0 where t0: "ready ref 0 t0" "push t (BlockInput b) = push t0 (BlockInput b)" using start_ready [OF assms(1) pi(2)] by blast
  obtain u where u: "push_all t0 (concat (map pair_inputs ps)) = Some (u, map pair_item ps, Inr ())" "ready ref (int (length ps)) u"
    using push_pairs [OF t0(1) assms(2)] by auto
  have "push_all t (concat (map pair_inputs ps)) = Some (u, map pair_item ps, Inr ())"
    using u(1) t0(2) unfolding ps by (simp add: pi(1))
  then show thesis using that u(2) by blast
qed

lemma align_pairs:
  assumes "0 < n" "pairs_from ref 0 ps" "ps \<noteq> []"
  shows "align_by_timestamp (concat (map pair_inputs ps)) n = Some (map pair_item ps, Inr ())"
proof -
  obtain t where t: "TimestampAligner n = Inr t" using assms(1) by (simp add: TimestampAligner_def)
  obtain u where u: "push_all t (concat (map pair_inputs ps)) = Some (u, map pair_item ps, Inr ())" "ready ref (int (length ps)) u"
    by (rule push_complete [OF t assms(2,3)])
  moreover have "flush_pending u END_OF_INPUT = Some (u, Inr [])" "\<not> ta_closed u"
    using u(2) by (simp_all add: ready_def in_epoch_def flush_pending_def required_coverage_def flush_loop.simps flush_step_def)
  ultimately show ?thesis using t by (simp add: align_by_timestamp_def finish_def)
qed

lemma align_pairs_equal_rate:
  assumes "0 < n" "pairs_from ref 0 ps" "ps \<noteq> []" "block_rate_profile b = RP_ADC_1MHZ_GPIO_1MHZ"
  shows "align_by_timestamp (concat (map pair_inputs ps) @ BlockInput b # js) n = Some (map pair_item ps, Inl TimestampAlignmentError)"
proof -
  obtain t where t: "TimestampAligner n = Inr t" using assms(1) by (simp add: TimestampAligner_def)
  obtain u where u: "push_all t (concat (map pair_inputs ps)) = Some (u, map pair_item ps, Inr ())" "ready ref (int (length ps)) u"
    by (rule push_complete [OF t assms(2,3)])
  have "push u (BlockInput b) = Some (u, Inl TimestampAlignmentError)" using u(2) assms(4) by (simp add: push_def push_block_def ready_def in_epoch_def)
  then have "push_all u (BlockInput b # js) = Some (u, [], Inl TimestampAlignmentError)" by simp
  from push_all_append [OF u(1) this] show ?thesis using t by (simp add: align_by_timestamp_def)
qed


section \<open>Properties\<close>

text \<open>
  Property C28. Bounded buffering. However an aligner opened for \<open>n\<close> pending intervals has been used
  (pushes of valid blocks and gaps, flushes, finishes, also after calls that raised), it holds at
  most \<open>n\<close> intervals, its high-water mark is at most \<open>n\<close>, and one more push returns: with items, or with
  \<^verbatim>\<open>TimestampAlignmentError\<close>. The three internal assertions of a push never fire, and its loops end.
\<close>

theorem alignment_bounded:
  assumes "aligner_reach n t" "input_valid i"
  shows "int (length (ta_pending t)) \<le> n \<and> int (ta_high_water t) \<le> n \<and>
    (\<exists>u r. push t i = Some (u, r) \<and> (r = Inl TimestampAlignmentError \<or> (\<exists>outs. r = Inr outs)))"
proof -
  have inv: "aligner_inv t" "int (ta_max_pending t) = n" using aligner_reach_inv [OF assms(1)] by simp_all
  obtain u r where "push t i = Some (u, r)" "call_ok t (Some (input_run i)) (Some (input_coverage i)) (input_blocks [i]) u r" by (rule push_call [OF inv(1) assms(2)])
  then show ?thesis using aligner_inv_length [OF inv(1)] inv(2) by (auto simp: call_ok_def)
qed

theorem alignment_bounded_witness:
  "\<exists>t u r. TimestampAligner 2 = Inr t \<and> push t (BlockInput (zero_adc_block 0 0)) = Some (u, r)"
proof -
  obtain t where t: "TimestampAligner 2 = Inr t" by (simp add: TimestampAligner_def)
  have "input_valid (BlockInput (zero_adc_block 0 0))" using zero_blocks_valid(2) [of 0 0] by simp
  from alignment_bounded [OF aligner_reach.opened [OF t] this] t show ?thesis by blast
qed

text \<open>
  Property C25. No block is lost, duplicated or altered. For every finite input of valid blocks and gaps
  \<^verbatim>\<open>align_by_timestamp\<close> ends. It ends with \<^verbatim>\<open>AssertionError\<close> exactly when the input is empty,
  otherwise normally or with \<^verbatim>\<open>TimestampAlignmentError\<close>; when it ends normally, the blocks in its
  intervals are, with multiplicity, the blocks of the input.
\<close>

theorem alignment_conserves_blocks:
  assumes "list_all input_valid is" "0 < n"
  shows "\<exists>outs r. align_by_timestamp is n = Some (outs, r) \<and> r \<in> {Inl TimestampAlignmentError, Inl AlignAssertionError, Inr ()} \<and>
    (r = Inl AlignAssertionError \<longleftrightarrow> is = []) \<and> (r = Inr () \<longrightarrow> out_blocks outs = input_blocks is)"
  by (rule align_run [OF assms, where run = 0]) blast

theorem alignment_conserves_blocks_witness:
  "align_by_timestamp [] 8 = Some ([], Inl AlignAssertionError) \<and>
   (\<exists>outs r. align_by_timestamp [BlockInput (zero_gpio_block 3 (3 * 8096))] 1 = Some (outs, r))"
proof -
  have "list_all input_valid [BlockInput (zero_gpio_block 3 (3 * 8096))]" using zero_blocks_valid(1) [of 3 "3 * 8096"] by simp
  from alignment_conserves_blocks [OF this, of 1] show ?thesis
    by (auto simp: align_by_timestamp_def TimestampAligner_def finish_def flush_pending_def required_coverage_def)
qed

text \<open>
  Property C26. The output accounts for the whole time line. For valid inputs of a single run, whatever
  their order and gaps, a normal end means that the items cover the time from tick zero without
  hole or overlap: complete intervals, one-sided intervals each announced by a loss that names
  the side present, and losses that count the intervals nothing arrived for.
\<close>

theorem alignment_tiles_time:
  assumes "list_all input_valid is" "0 < n" "\<forall>i \<in> set is. input_run i = run" "align_by_timestamp is n = Some (outs, Inr ())"
  shows "\<exists>cov b. tiles cov 0 outs b \<and> (\<forall>i \<in> set is. input_coverage i = cov)"
proof -
  obtain o' r where "align_by_timestamp is n = Some (o', r)"
    "r = Inr () \<and> (\<forall>i \<in> set is. input_run i = run) \<longrightarrow> (\<exists>cov b. tiles cov 0 o' b \<and> (\<forall>i \<in> set is. input_coverage i = cov))"
    using align_run [OF assms(1,2), where run = run] by metis
  with assms(3,4) show ?thesis by simp
qed

text \<open>
  Property C27. Two complete streams with interval-aligned frames pair up without loss. The blocks are valid, belong to one run, source,
  timing profile and frame length (those of a reference block), and their profile is not the equal-rate one (which every version-3 block has), whose ADC and GPIO frames do not cover
  the same intervals. Block number \<open>k\<close> of each stream has sequence number \<open>k\<close> modulo 2 to the 32 and starts at tick \<open>k\<close> times the frame length; no
  interval ends beyond the 64-bit tick range, and no block has a gap flag or carries a gap. Then, the two blocks of every interval in either order, the aligner yields
  exactly one complete interval per pair, in order, and neither gap nor loss, for every window size. A block of the equal-rate profile after
  them is refused with \<^verbatim>\<open>TimestampAlignmentError\<close>, and what was paired before it has been yielded.
\<close>

theorem alignment_complete_streams:
  assumes "0 < n" "pairs_from ref 0 ps" "ps \<noteq> []"
  shows "align_by_timestamp (concat (map pair_inputs ps)) n = Some (map pair_item ps, Inr ()) \<and>
    (\<forall>b js. block_rate_profile b = RP_ADC_1MHZ_GPIO_1MHZ \<longrightarrow>
      align_by_timestamp (concat (map pair_inputs ps) @ BlockInput b # js) n = Some (map pair_item ps, Inl TimestampAlignmentError))"
  using align_pairs [OF assms] align_pairs_equal_rate [OF assms] by blast

definition zero_pair :: "int \<Rightarrow> bool \<Rightarrow> ADCBlock \<times> GPIOBlock \<times> bool" where
  "zero_pair k gpio_first = (case (zero_adc_block k (k * 8096), zero_gpio_block k (k * 8096)) of
     (AsADC a, AsGPIO g) \<Rightarrow> (a, g, gpio_first))"

lemma zero_pair_member:
  assumes "0 \<le> k" "k < 2 ^ 32"
  shows "pair_member (zero_adc_block 0 0) k (zero_pair k f)"
proof -
  have t: "0 \<le> k * 8096" "k * 8096 < 2 ^ 64" "k * 8096 + 8096 \<le> UINT64_MAX" using assms by (simp_all add: UINT64_MAX_def)
  note v = zero_blocks_valid [OF assms t(1,2)]
  have e: "(k * 8096 + 8096) AND UINT64_MAX = k * 8096 + 8096" "8096 AND UINT64_MAX = 8096" using assms by (simp_all add: and_UINT_MAX)
  have "stream_member (zero_adc_block 0 0) k b" if "b \<in> {zero_adc_block k (k * 8096), zero_gpio_block k (k * 8096)}" for b
    using that v assms t
    by (auto simp: stream_member_def zero_adc_block_def zero_gpio_block_def interval_misplaced_def block_coverage_ticks_def block_item_count_def
        block_profile_signature_def block_end_tick_exclusive_def flag_set_def default_metadata_def e)
  then show ?thesis by (simp add: pair_member_def zero_pair_def zero_adc_block_def zero_gpio_block_def)
qed

theorem alignment_complete_streams_witness:
  "align_by_timestamp (concat (map pair_inputs [zero_pair 0 False, zero_pair 1 True])) 1 =
   Some ([pair_item (zero_pair 0 False), pair_item (zero_pair 1 True)], Inr ())"
  using conjunct1 [OF alignment_complete_streams [of 1 "zero_adc_block 0 0" "[zero_pair 0 False, zero_pair 1 True]"]]
    zero_pair_member [of 0 False] zero_pair_member [of 1 True] by simp

theorem alignment_tiles_time_witness:
  "\<exists>cov b. tiles cov 0 [pair_item (zero_pair 0 False), pair_item (zero_pair 1 True)] b"
proof -
  let ?is = "concat (map pair_inputs [zero_pair 0 False, zero_pair 1 True])"
  have "align_by_timestamp ?is 1 = Some ([pair_item (zero_pair 0 False), pair_item (zero_pair 1 True)], Inr ())"
    using align_pairs [of 1 "zero_adc_block 0 0" "[zero_pair 0 False, zero_pair 1 True]"]
      zero_pair_member [of 0 False] zero_pair_member [of 1 True] by simp
  moreover have "list_all input_valid ?is" "\<forall>i \<in> set ?is. input_run i = 1"
    using zero_blocks_valid [of 0 0] zero_blocks_valid [of 1 8096]
    by (auto simp: pair_inputs_def zero_pair_def zero_adc_block_def zero_gpio_block_def)
  ultimately show ?thesis using alignment_tiles_time [of ?is 1 1] by fastforce
qed

end
