(* ===== verification/Configuration.thy ===== *)
theory Configuration
  imports Stream_Blocks
begin

text \<open>
  \<^verbatim>\<open>DAQConfiguration\<close> of \<^verbatim>\<open>models.py\<close>: the stream configuration of the first two protocol versions, the checks of its
  constructor and its wire form. Enumerations passed by number are converted by typing.
\<close>

section \<open>The record\<close>

fun ChecksumAlgorithm_value :: "ChecksumAlgorithm \<Rightarrow> int" where
  "ChecksumAlgorithm_value NONE_RESERVED = 0"
| "ChecksumAlgorithm_value ADLER32 = 1"
| "ChecksumAlgorithm_value CRC32C = 2"
| "ChecksumAlgorithm_value CRC32_ISO_HDLC = 3"

definition ChecksumAlgorithm_of_int :: "int \<Rightarrow> ChecksumAlgorithm option" where
  "ChecksumAlgorithm_of_int v = List.find (\<lambda>a. ChecksumAlgorithm_value a = v) [NONE_RESERVED, ADLER32, CRC32C, CRC32_ISO_HDLC]"

record DAQConfiguration =
  dc_stream_mask :: int
  dc_source :: Source
  dc_data_checksum_algorithm :: ChecksumAlgorithm
  dc_data_frame_bytes :: int
  dc_aux_bank_mode :: AuxBankMode
  dc_rate_profile :: V2RateProfile

definition DAQConfiguration_post_init :: "DAQConfiguration \<Rightarrow> block_error + DAQConfiguration" where
  "DAQConfiguration_post_init c =
     (let mask = int_flag 3 (dc_stream_mask c) in
     require (mask AND NOT (STREAM_ADC OR STREAM_GPIO) = 0) BlockValueError (
     require (mask = 0 \<longrightarrow> dc_source c = SRC_HARDWARE) BlockValueError (
     require (mask = 0 \<longrightarrow> dc_aux_bank_mode c = AUX_DISABLED \<and> dc_rate_profile c \<in> {RP_ADC_1MHZ_GPIO_4MHZ, RP_ADC_1MHZ_GPIO_1MHZ}) BlockValueError (
     require (dc_aux_bank_mode c = AUX_INPUT \<longrightarrow> mask AND STREAM_GPIO \<noteq> 0) BlockValueError (
     require (dc_data_checksum_algorithm c \<noteq> NONE_RESERVED) BlockValueError (
     require (CHECKSUM_FUNCTIONS (dc_data_checksum_algorithm c) \<noteq> None) BlockValueError (
     require (dc_data_frame_bytes c = 4096) BlockValueError (
     Inr (c\<lparr>dc_stream_mask := mask\<rparr>)))))))))"

definition configuration_is_control_only :: "DAQConfiguration \<Rightarrow> bool" where
  "configuration_is_control_only c \<longleftrightarrow> dc_stream_mask c = 0 \<and> dc_source c = SRC_HARDWARE"

definition configuration_protocol_version :: "DAQConfiguration \<Rightarrow> int" where
  "configuration_protocol_version c = (if dc_aux_bank_mode c = AUX_DISABLED \<and> dc_rate_profile c = RP_ADC_1MHZ_GPIO_4MHZ then 1 else 2)"

definition configuration_profile :: "DAQConfiguration \<Rightarrow> block_error + int" where
  "configuration_profile c =
     (if configuration_is_control_only c then Inr 0
      else res_of_option BlockValueError (map_of [((SRC_HARDWARE, STREAM_ADC), 1), ((SRC_HARDWARE, STREAM_GPIO), 2),
        ((SRC_HARDWARE, STREAM_ADC OR STREAM_GPIO), 4), ((SRC_SYNTHETIC, STREAM_ADC), 8), ((SRC_SYNTHETIC, STREAM_GPIO), 16),
        ((SRC_SYNTHETIC, STREAM_ADC OR STREAM_GPIO), 32)] (dc_source c, dc_stream_mask c)))"

section \<open>The wire form\<close>

definition configuration_head :: "DAQConfiguration \<Rightarrow> int \<Rightarrow> int list" where
  "configuration_head c fourth = [dc_stream_mask c, Source_value (dc_source c), ChecksumAlgorithm_value (dc_data_checksum_algorithm c),
     fourth, dc_data_frame_bytes c]"

definition configuration_to_payload :: "DAQConfiguration \<Rightarrow> int option \<Rightarrow> block_error + bytes" where
  "configuration_to_payload c protocol_version =
     (let selected = (case protocol_version of None \<Rightarrow> configuration_protocol_version c | Some v \<Rightarrow> v) in
      if selected = 1 then
        require (configuration_protocol_version c = 1) BlockValueError (
        res_of_option BlockTypeError (struct_pack [1, 1, 1, 1, 4] (configuration_head c 0)))
      else
        require (selected = 2) BlockValueError (
        res_of_option BlockTypeError (struct_pack [1, 1, 1, 1, 4, 4, 4] (configuration_head c (AuxBankMode_value (dc_aux_bank_mode c)) @
          [tm_adc_pair_rate_hz (timing_from_profile (dc_rate_profile c)), tm_gpio_sample_rate_hz (timing_from_profile (dc_rate_profile c))]))))"

definition configuration_from_fields :: "int list \<Rightarrow> AuxBankMode \<Rightarrow> V2RateProfile \<Rightarrow> block_error + DAQConfiguration" where
  "configuration_from_fields f mode profile =
     bind_res (res_of_option BlockValueError (Source_of_int (f ! 1))) (\<lambda>source.
     bind_res (res_of_option BlockValueError (ChecksumAlgorithm_of_int (f ! 2))) (\<lambda>checksum.
     DAQConfiguration_post_init \<lparr>dc_stream_mask = int_flag 3 (f ! 0), dc_source = source, dc_data_checksum_algorithm = checksum,
       dc_data_frame_bytes = f ! 4, dc_aux_bank_mode = mode, dc_rate_profile = profile\<rparr>))"

definition configuration_from_payload :: "bytes \<Rightarrow> block_error + DAQConfiguration" where
  "configuration_from_payload payload =
     (if length payload = 8 then
        let f = struct_unpack [1, 1, 1, 1, 4] payload in
        require (f ! 3 = 0) BlockValueError (configuration_from_fields f AUX_DISABLED RP_ADC_1MHZ_GPIO_4MHZ)
      else if length payload = 16 then
        let f = struct_unpack [1, 1, 1, 1, 4, 4, 4] payload in
        bind_res (res_of_option BlockValueError (AuxBankMode_of_int (f ! 3))) (\<lambda>mode.
        bind_res (timing_from_rates (f ! 5) (f ! 6)) (\<lambda>timing.
        configuration_from_fields f mode (tm_profile timing)))
      else Inl BlockValueError)"

section \<open>Properties\<close>

lemma ChecksumAlgorithm_of_int_eq: "ChecksumAlgorithm_of_int v = Some a \<longleftrightarrow> ChecksumAlgorithm_value a = v"
  by (cases a) (auto simp: ChecksumAlgorithm_of_int_def)

lemma Source_of_int_eq: "Source_of_int v = Some s \<longleftrightarrow> Source_value s = v"
  using Source_of_int_Some by auto

lemma AuxBankMode_of_int_eq: "AuxBankMode_of_int v = Some m \<longleftrightarrow> AuxBankMode_value m = v"
  using AuxBankMode_of_int_Some by auto

lemma find_timing: "List.find P (map f xs) = Some t \<Longrightarrow> (\<And>x. t = f x \<Longrightarrow> P t \<Longrightarrow> R) \<Longrightarrow> R"
  by (induction xs) (auto split: if_splits)

lemma timing_from_rates_eq:
  "timing_from_rates a g = Inr t \<longleftrightarrow> (\<exists>p. t = timing_from_profile p \<and> tm_adc_pair_rate_hz t = a \<and> tm_gpio_sample_rate_hz t = g)"
proof
  assume "timing_from_rates a g = Inr t"
  then show "\<exists>p. t = timing_from_profile p \<and> tm_adc_pair_rate_hz t = a \<and> tm_gpio_sample_rate_hz t = g"
    unfolding timing_from_rates_def require_eq_Inr res_of_option_eq_Inr by (elim conjE find_timing) blast
next
  assume "\<exists>p. t = timing_from_profile p \<and> tm_adc_pair_rate_hz t = a \<and> tm_gpio_sample_rate_hz t = g"
  then obtain p where "t = timing_from_profile p" "tm_adc_pair_rate_hz t = a" "tm_gpio_sample_rate_hz t = g" by blast
  then show "timing_from_rates a g = Inr t" by (cases p) (simp_all add: timing_from_rates_def require_def V2_RATE_PROFILES_def res_of_option_def)
qed

lemma tm_profile_from_profile [simp]: "tm_profile (timing_from_profile p) = p"
  by (cases p) simp_all

lemma post_init_mask:
  "0 \<le> dc_stream_mask c \<Longrightarrow> DAQConfiguration_post_init c = Inr d \<longleftrightarrow> d = c \<and> DAQConfiguration_post_init c = Inr c"
  by (auto simp: DAQConfiguration_post_init_def Let_def require_eq_Inr int_flag_def)

lemma from_fields_eq:
  assumes "0 \<le> f ! 0"
  shows "configuration_from_fields f mode profile = Inr c \<longleftrightarrow> DAQConfiguration_post_init c = Inr c \<and> dc_stream_mask c = f ! 0 \<and>
    Source_value (dc_source c) = f ! 1 \<and> ChecksumAlgorithm_value (dc_data_checksum_algorithm c) = f ! 2 \<and> dc_data_frame_bytes c = f ! 4 \<and>
    dc_aux_bank_mode c = mode \<and> dc_rate_profile c = profile"
proof -
  have m: "int_flag 3 (f ! 0) = f ! 0" using assms by (simp add: int_flag_def)
  let ?c = "\<lambda>source checksum. \<lparr>dc_stream_mask = f ! 0, dc_source = source, dc_data_checksum_algorithm = checksum, dc_data_frame_bytes = f ! 4,
    dc_aux_bank_mode = mode, dc_rate_profile = profile\<rparr>"
  have e: "configuration_from_fields f mode profile = Inr c \<longleftrightarrow> (\<exists>source. Source_value source = f ! 1 \<and> (\<exists>checksum.
      ChecksumAlgorithm_value checksum = f ! 2 \<and> DAQConfiguration_post_init (?c source checksum) = Inr c))"
    unfolding configuration_from_fields_def bind_res_eq_Inr res_of_option_eq_Inr Source_of_int_eq ChecksumAlgorithm_of_int_eq m ..
  have p: "DAQConfiguration_post_init (?c source checksum) = Inr c \<longleftrightarrow> c = ?c source checksum \<and> DAQConfiguration_post_init c = Inr c" for source checksum
    using post_init_mask [of "?c source checksum" c] assms by auto
  show ?thesis (is "_ \<longleftrightarrow> ?r")
  proof
    assume "configuration_from_fields f mode profile = Inr c"
    then obtain source checksum where v: "Source_value source = f ! 1" "ChecksumAlgorithm_value checksum = f ! 2" "c = ?c source checksum"
        "DAQConfiguration_post_init c = Inr c" unfolding e p by blast
    have "dc_stream_mask c = f ! 0" "dc_source c = source" "dc_data_checksum_algorithm c = checksum" "dc_data_frame_bytes c = f ! 4"
      "dc_aux_bank_mode c = mode" "dc_rate_profile c = profile" by (simp_all add: v(3))
    then show ?r using v(1,2,4) by simp
  next
    assume r: ?r
    then have "c = ?c (dc_source c) (dc_data_checksum_algorithm c)" by (cases c) simp
    with r show "configuration_from_fields f mode profile = Inr c" unfolding e p by blast
  qed
qed

lemma list_of_five: "length f = 5 \<Longrightarrow> f = [a, b, c, d, e] \<longleftrightarrow> f ! 0 = a \<and> f ! 1 = b \<and> f ! 2 = c \<and> f ! 3 = d \<and> f ! 4 = e"
  by (auto simp: numeral_eq_Suc length_Suc_conv)

lemma list_of_seven:
  "length f = 7 \<Longrightarrow> f = [a, b, c, d, e, g, h] \<longleftrightarrow> f ! 0 = a \<and> f ! 1 = b \<and> f ! 2 = c \<and> f ! 3 = d \<and> f ! 4 = e \<and> f ! 5 = g \<and> f ! 6 = h"
  by (auto simp: numeral_eq_Suc length_Suc_conv)

lemma to_payload_eq:
  "configuration_to_payload c (Some v) = Inr p \<longleftrightarrow>
     v = 1 \<and> configuration_protocol_version c = 1 \<and> length p = 8 \<and> struct_unpack [1, 1, 1, 1, 4] p = configuration_head c 0 \<or>
     v = 2 \<and> length p = 16 \<and> struct_unpack [1, 1, 1, 1, 4, 4, 4] p = configuration_head c (AuxBankMode_value (dc_aux_bank_mode c)) @
       [tm_adc_pair_rate_hz (timing_from_profile (dc_rate_profile c)), tm_gpio_sample_rate_hz (timing_from_profile (dc_rate_profile c))]"
  unfolding configuration_to_payload_def Let_def option.case
  by (auto simp: require_eq_Inr res_of_option_eq_Inr pack_unpack_iff)

lemma from_payload_eq:
  "configuration_from_payload p = Inr c \<longleftrightarrow> DAQConfiguration_post_init c = Inr c \<and> (\<exists>v. configuration_to_payload c (Some v) = Inr p)"
proof -
  consider (v1) "length p = 8" | (v2) "length p = 16" | (bad) "length p \<noteq> 8" "length p \<noteq> 16" by blast
  then show ?thesis
  proof cases
    case v1
    let ?f = "struct_unpack [1, 1, 1, 1, 4] p"
    have l: "length ?f = 5" by simp
    have "?f ! 0 \<in> set ?f" by (rule nth_mem) simp
    then have n: "0 \<le> ?f ! 0" by (rule struct_unpack_nonneg)
    have "configuration_from_payload p = Inr c \<longleftrightarrow> ?f ! 3 = 0 \<and> configuration_from_fields ?f AUX_DISABLED RP_ADC_1MHZ_GPIO_4MHZ = Inr c"
      using v1 by (simp add: configuration_from_payload_def require_eq_Inr Let_def del: struct_unpack.simps)
    also have "\<dots> \<longleftrightarrow> DAQConfiguration_post_init c = Inr c \<and> configuration_protocol_version c = 1 \<and> ?f = configuration_head c 0"
      unfolding from_fields_eq [OF n] configuration_head_def list_of_five [OF l] by (auto simp: configuration_protocol_version_def split: if_splits)
    finally show ?thesis using v1 unfolding to_payload_eq by auto
  next
    case v2
    let ?f = "struct_unpack [1, 1, 1, 1, 4, 4, 4] p" and ?t = "timing_from_profile (dc_rate_profile c)"
    have l: "length ?f = 7" by simp
    have "?f ! 0 \<in> set ?f" by (rule nth_mem) simp
    then have n: "0 \<le> ?f ! 0" by (rule struct_unpack_nonneg)
    have "configuration_from_payload p = Inr c \<longleftrightarrow> (\<exists>mode. AuxBankMode_value mode = ?f ! 3 \<and> (\<exists>t. timing_from_rates (?f ! 5) (?f ! 6) = Inr t \<and>
        configuration_from_fields ?f mode (tm_profile t) = Inr c))"
      using v2 by (simp add: configuration_from_payload_def bind_res_eq_Inr res_of_option_eq_Inr AuxBankMode_of_int_eq Let_def del: struct_unpack.simps)
    also have "\<dots> \<longleftrightarrow> DAQConfiguration_post_init c = Inr c \<and> ?f = configuration_head c (AuxBankMode_value (dc_aux_bank_mode c)) @
        [tm_adc_pair_rate_hz ?t, tm_gpio_sample_rate_hz ?t]"
      unfolding from_fields_eq [OF n] configuration_head_def append_Cons append_Nil list_of_seven [OF l] timing_from_rates_eq
      by (auto simp del: struct_unpack.simps intro!: exI [of _ "dc_aux_bank_mode c"] exI [of _ ?t])
    finally show ?thesis using v2 unfolding to_payload_eq by auto
  next
    case bad
    then show ?thesis unfolding to_payload_eq by (simp add: configuration_from_payload_def)
  qed
qed

lemma mask_range:
  assumes "DAQConfiguration_post_init c = Inr c"
  shows "0 \<le> dc_stream_mask c" "dc_stream_mask c \<le> 3" "dc_data_frame_bytes c = 4096"
proof -
  have c: "c = c\<lparr>dc_stream_mask := int_flag 3 (dc_stream_mask c)\<rparr>" "int_flag 3 (dc_stream_mask c) AND NOT 3 = 0" "dc_data_frame_bytes c = 4096"
    using assms by (auto simp: DAQConfiguration_post_init_def Let_def require_eq_Inr)
  have "int_flag 3 (dc_stream_mask c) = dc_stream_mask c" using arg_cong [OF c(1), of dc_stream_mask] by simp
  then have z: "dc_stream_mask c AND NOT 3 = 0" using c(2) by simp
  have "dc_stream_mask c = dc_stream_mask c AND (3 OR NOT 3)" by simp
  also have "\<dots> = dc_stream_mask c AND 3" unfolding bit.conj_disj_distrib z by simp
  also have "\<dots> = dc_stream_mask c mod 4" using take_bit_eq_mask [of 2 "dc_stream_mask c"] by (simp add: take_bit_eq_mod mask_eq_exp_minus_1)
  finally show "0 \<le> dc_stream_mask c" "dc_stream_mask c \<le> 3" by simp_all
  show "dc_data_frame_bytes c = 4096" by (rule c(3))
qed

lemma valid_has_payload:
  assumes "DAQConfiguration_post_init c = Inr c"
  shows "\<exists>q. configuration_to_payload c (Some (configuration_protocol_version c)) = Inr q"
proof -
  note r = mask_range [OF assms]
  have t: "0 \<le> tm_adc_pair_rate_hz (timing_from_profile p) \<and> tm_adc_pair_rate_hz (timing_from_profile p) < 256 ^ 4 \<and>
      0 \<le> tm_gpio_sample_rate_hz (timing_from_profile p) \<and> tm_gpio_sample_rate_hz (timing_from_profile p) < 256 ^ 4" for p
    by (cases p) simp_all
  have "0 \<le> ChecksumAlgorithm_value a \<and> ChecksumAlgorithm_value a < 256" for a by (cases a) simp_all
  then have "fields_in_range [1, 1, 1, 1, 4] (configuration_head c 0)"
    "fields_in_range [1, 1, 1, 1, 4, 4, 4] (configuration_head c (AuxBankMode_value (dc_aux_bank_mode c)) @
      [tm_adc_pair_rate_hz (timing_from_profile (dc_rate_profile c)), tm_gpio_sample_rate_hz (timing_from_profile (dc_rate_profile c))])"
    using r t [of "dc_rate_profile c"] Source_value_range AuxBankMode_value_range by (simp_all add: configuration_head_def)
  then obtain p q where "struct_pack [1, 1, 1, 1, 4] (configuration_head c 0) = Some p"
    "struct_pack [1, 1, 1, 1, 4, 4, 4] (configuration_head c (AuxBankMode_value (dc_aux_bank_mode c)) @
      [tm_adc_pair_rate_hz (timing_from_profile (dc_rate_profile c)), tm_gpio_sample_rate_hz (timing_from_profile (dc_rate_profile c))]) = Some q"
    using struct_pack_Some_iff by blast
  then show ?thesis by (simp add: configuration_to_payload_def require_def res_of_option_def configuration_protocol_version_def del: struct_pack.simps)
qed

text \<open>
  Property C37. The configuration codec. A body of eight or sixteen bytes decodes to a configuration if and only if the configuration
  passes its own constructor and one of the two wire forms encodes it to exactly that body. Every valid configuration
  has a wire form: the short one for the legacy defaults, the extended one otherwise; and the short form cannot carry an
  extension.
\<close>

theorem configuration_codec:
  "(configuration_from_payload p = Inr c \<longleftrightarrow> DAQConfiguration_post_init c = Inr c \<and> (\<exists>v. configuration_to_payload c (Some v) = Inr p)) \<and>
   (DAQConfiguration_post_init c = Inr c \<longrightarrow>
     (\<exists>q. configuration_to_payload c None = Inr q \<and> length q = (if configuration_protocol_version c = 1 then 8 else 16) \<and>
       configuration_from_payload q = Inr c)) \<and>
   (configuration_protocol_version c \<noteq> 1 \<longrightarrow> configuration_to_payload c (Some 1) = Inl BlockValueError)"
proof (intro conjI impI)
  show "configuration_from_payload p = Inr c \<longleftrightarrow> DAQConfiguration_post_init c = Inr c \<and> (\<exists>v. configuration_to_payload c (Some v) = Inr p)"
    by (rule from_payload_eq)
next
  assume v: "DAQConfiguration_post_init c = Inr c"
  obtain q where q: "configuration_to_payload c (Some (configuration_protocol_version c)) = Inr q" using valid_has_payload [OF v] by blast
  moreover have "configuration_to_payload c None = configuration_to_payload c (Some (configuration_protocol_version c))"
    by (simp add: configuration_to_payload_def)
  moreover have "configuration_from_payload q = Inr c" unfolding from_payload_eq using v q by blast
  ultimately show "\<exists>q. configuration_to_payload c None = Inr q \<and> length q = (if configuration_protocol_version c = 1 then 8 else 16) \<and>
       configuration_from_payload q = Inr c" using to_payload_eq by fastforce
next
  assume "configuration_protocol_version c \<noteq> 1"
  then show "configuration_to_payload c (Some 1) = Inl BlockValueError" by (simp add: configuration_to_payload_def require_def)
qed

definition example_configuration :: DAQConfiguration where
  "example_configuration = \<lparr>dc_stream_mask = 3, dc_source = SRC_SYNTHETIC, dc_data_checksum_algorithm = CRC32C, dc_data_frame_bytes = 4096,
     dc_aux_bank_mode = AUX_INPUT, dc_rate_profile = RP_ADC_250KHZ_GPIO_1MHZ\<rparr>"

lemma example_configuration_valid: "DAQConfiguration_post_init example_configuration = Inr example_configuration"
  by (simp add: example_configuration_def DAQConfiguration_post_init_def Let_def require_def int_flag_def)

theorem configuration_codec_witness:
  "\<exists>q. configuration_to_payload example_configuration None = Inr q \<and> length q = 16 \<and> configuration_from_payload q = Inr example_configuration"
  using configuration_codec [of undefined example_configuration] example_configuration_valid
  by (simp add: configuration_protocol_version_def example_configuration_def)

end
