(* ===== verification/Reader.thy ===== *)
theory Reader
  imports Continuity Configuration
begin

text \<open>
  The background reader of \<^verbatim>\<open>reader.py\<close>: request correlation, demultiplexing of decoded frames and the
  bounded queues between the reader thread and its callers. Every block \<^verbatim>\<open>with self._condition\<close> is one
  function on the state record; several threads interleave between two such blocks, never inside one.
  Clock readings are integers of an arbitrary unit. What the operating system does (sockets, threads, waiting)
  appears as arguments: the time, the bytes of a read, whether a wait has expired.

  Version-1 and version-2 frames are an abstract type with a codec passed as an argument; version-3
  frames are decoded by the modelled functions. Of \<^verbatim>\<open>CommandResponse\<close> the record below
  has the attributes the reader uses. \<open>ReaderValueError\<close> stands for the exceptions that are not reader errors: \<^verbatim>\<open>ValueError\<close>
  and what the codecs raise. The counter snapshots attached to an error are not modelled.
\<close>

section \<open>Data\<close>

datatype reader_error = RequestTimeoutError | DeviceDisconnectedError | ReaderProtocolError | ProtocolVersionRejected
  | PendingRequestLimitError | QueueWaitTimeoutError | ReaderClosedError | ReaderNotStartedError | StreamStoppedError
  | ReaderCancelled | ReaderValueError

record CommandResponse =
  cr_kind :: int
  cr_request_id :: int
  cr_run_id :: int
  cr_ok :: bool
  cr_error_code :: int
  cr_configuration :: "DAQConfiguration option"
  cr_rejected_kind :: "int option"
  cr_rejected_version :: "int option"

datatype reader_response = LegacyResponse CommandResponse | V3Reply V3Response

fun response_kind :: "reader_response \<Rightarrow> int" where
  "response_kind (LegacyResponse r) = cr_kind r"
| "response_kind (V3Reply r) = FrameKind_value (rp_kind r)"

fun response_request_id :: "reader_response \<Rightarrow> int" where
  "response_request_id (LegacyResponse r) = cr_request_id r"
| "response_request_id (V3Reply r) = rp_request_id r"

fun response_run_id :: "reader_response \<Rightarrow> int" where
  "response_run_id (LegacyResponse r) = cr_run_id r"
| "response_run_id (V3Reply r) = rp_run_id r"

fun response_is_ok :: "reader_response \<Rightarrow> bool" where
  "response_is_ok (LegacyResponse r) = cr_ok r"
| "response_is_ok (V3Reply r) = response_ok r"

fun response_error_code :: "reader_response \<Rightarrow> int" where
  "response_error_code (LegacyResponse r) = cr_error_code r"
| "response_error_code (V3Reply r) = ErrorCode_value (rp_error_code r)"

text \<open>The frame kinds the reader names; the enumerations of all versions agree on their values.\<close>

abbreviation (input) "KIND_INFO_REQUEST \<equiv> 16 :: int"
abbreviation (input) "KIND_CONFIGURE_RESPONSE \<equiv> 145 :: int"
abbreviation (input) "KIND_START_RESPONSE \<equiv> 146 :: int"
abbreviation (input) "KIND_STOP_RESPONSE \<equiv> 148 :: int"
abbreviation (input) "KIND_ERROR_RESPONSE \<equiv> 159 :: int"
abbreviation (input) "CODE_UNSUPPORTED_VERSION \<equiv> 1 :: int"

definition SUPPORTED_CHECKSUM_ALGORITHMS :: "ChecksumAlgorithm set" where
  "SUPPORTED_CHECKSUM_ALGORITHMS = {ADLER32, CRC32C, CRC32_ISO_HDLC}"

definition V1_REQUEST_RESPONSE_KIND :: "(int \<times> int) list" where
  "V1_REQUEST_RESPONSE_KIND = [(16, 144), (17, 145), (18, 146), (19, 147), (20, 148), (21, 149), (22, 150), (23, 151), (24, 152), (25, 153)]"

definition V2_REQUEST_RESPONSE_KIND :: "(int \<times> int) list" where
  "V2_REQUEST_RESPONSE_KIND = V1_REQUEST_RESPONSE_KIND @ [(26, 154), (27, 155)]"

definition V3_REQUEST_RESPONSE_KIND :: "(int \<times> int) list" where
  "V3_REQUEST_RESPONSE_KIND = map (\<lambda>k. (CommandKind_value k, FrameKind_value (COMMAND_RESPONSE_KINDS k)))
     [CK_INFO, CK_CONFIGURE, CK_START, CK_GET_STATUS, CK_STOP, CK_GET_CAPABILITIES, CK_GET_SETTINGS]"

record PendingRequest =
  pr_kind :: int
  pr_expected_kind :: int
  pr_request_id :: int
  pr_deadline :: int
  pr_completed :: bool
  pr_response :: "reader_response option"
  pr_protocol_version :: int
  pr_error :: "reader_error option"
  pr_negotiating :: bool

datatype ReaderStreamReport = HostLossReport HostQueueLoss | StaleReport StreamAnomaly

datatype ReaderStreamItem = ReportItem ReaderStreamReport | DataItem data_block

text \<open>A decoded frame on its way to its queue, and the thread's position between two critical sections.\<close>

datatype 'f message = ResponseMessage reader_response int | BlockMessage data_block | EventMessage 'f

datatype 'f current = Idle | Decoded "'f message" | Failed

text \<open>The version-1 and version-2 functions the reader calls: header attributes, \<^verbatim>\<open>decode_message\<close>, \<^verbatim>\<open>encode_frame\<close>.\<close>

datatype 'f legacy_message = LegacyReply CommandResponse | LegacyBlock data_block | LegacyEvent 'f

record 'f legacy_codec =
  lc_version :: "'f \<Rightarrow> int"
  lc_kind :: "'f \<Rightarrow> int"
  lc_decode :: "DAQConfiguration option \<Rightarrow> 'f \<Rightarrow> unit + 'f legacy_message"
  lc_encode :: "int \<Rightarrow> int \<Rightarrow> bytes \<Rightarrow> int \<Rightarrow> unit + bytes"

datatype 'f wire_frame = WireV3 V3Frame | WireLegacy 'f

text \<open>The counters of one stream (\<^verbatim>\<open>_adc_...\<close> and \<^verbatim>\<open>_gpio_...\<close>), and the others.\<close>

record stream_tally =
  sy_frames_received :: int
  sy_items_received :: int
  sy_decoded_bytes_received :: int
  sy_wire_bytes_received :: int
  sy_block_queue_drops :: int
  sy_item_queue_drops :: int
  sy_stale_blocks_discarded :: int
  sy_boundary_blocks_discarded :: int

record tally =
  ty_bytes_read :: int
  ty_read_calls :: int
  ty_frames_received :: int
  ty_responses_matched :: int
  ty_late_responses :: int
  ty_request_timeouts :: int
  ty_queue_wait_timeouts :: int
  ty_host_block_queue_drops :: int
  ty_host_event_queue_drops :: int
  ty_stale_blocks_discarded :: int
  ty_boundary_blocks_discarded :: int
  ty_protocol_failures :: int
  ty_disconnects :: int
  ty_readinto_calls :: int
  ty_maximum_read_bytes :: int
  ty_pending_request_high_water :: int
  ty_block_queue_high_water :: int
  ty_event_queue_high_water :: int
  ty_loss_report_queue_drops :: int

record 'f reader =
  rd_max_pending_requests :: nat
  rd_max_queued_blocks :: nat
  rd_max_queued_events :: nat
  rd_max_stream_reports :: nat
  rd_requests :: "PendingRequest list"
  rd_pending :: "(int \<times> nat) list"
  rd_blocks :: "data_block list"
  rd_stream_reports :: "ReaderStreamReport list"
  rd_events :: "'f list"
  rd_next_request_id :: int
  rd_active_run_id :: int
  rd_active_checksum_algorithm :: ChecksumAlgorithm
  rd_active_configuration :: "DAQConfiguration option"
  rd_active_v3_settings :: "V3Settings option"
  rd_selected_wire_version :: "int option"
  rd_stream_active :: bool
  rd_thread_alive :: bool
  rd_started :: bool
  rd_closed :: bool
  rd_stop :: bool
  rd_terminal_error :: "reader_error option"
  rd_current :: "'f current"
  rd_tally :: tally
  rd_adc :: stream_tally
  rd_gpio :: stream_tally

definition count :: "(tally \<Rightarrow> tally) \<Rightarrow> 'f reader \<Rightarrow> 'f reader" where
  "count f r = r\<lparr>rd_tally := f (rd_tally r)\<rparr>"

definition count_stream :: "data_block \<Rightarrow> (stream_tally \<Rightarrow> stream_tally) \<Rightarrow> 'f reader \<Rightarrow> 'f reader" where
  "count_stream b f r = (case b of AsADC _ \<Rightarrow> r\<lparr>rd_adc := f (rd_adc r)\<rparr> | AsGPIO _ \<Rightarrow> r\<lparr>rd_gpio := f (rd_gpio r)\<rparr>)"

definition no_stream_tally :: stream_tally where
  "no_stream_tally = \<lparr>sy_frames_received = 0, sy_items_received = 0, sy_decoded_bytes_received = 0, sy_wire_bytes_received = 0,
     sy_block_queue_drops = 0, sy_item_queue_drops = 0, sy_stale_blocks_discarded = 0, sy_boundary_blocks_discarded = 0\<rparr>"

definition no_tally :: tally where
  "no_tally = \<lparr>ty_bytes_read = 0, ty_read_calls = 0, ty_frames_received = 0, ty_responses_matched = 0, ty_late_responses = 0,
     ty_request_timeouts = 0, ty_queue_wait_timeouts = 0, ty_host_block_queue_drops = 0, ty_host_event_queue_drops = 0,
     ty_stale_blocks_discarded = 0, ty_boundary_blocks_discarded = 0, ty_protocol_failures = 0, ty_disconnects = 0,
     ty_readinto_calls = 0, ty_maximum_read_bytes = 0, ty_pending_request_high_water = 0, ty_block_queue_high_water = 0,
     ty_event_queue_high_water = 0, ty_loss_report_queue_drops = 0\<rparr>"

text \<open>The constructor; \<open>first_request_id\<close> is 1 or a random word, \<open>timeouts\<close> are its four durations.\<close>

definition BackgroundReader :: "int \<Rightarrow> int \<Rightarrow> int \<Rightarrow> int \<Rightarrow> int list \<Rightarrow> int \<Rightarrow> reader_error + 'f reader" where
  "BackgroundReader read_size max_pending_requests max_queued_blocks max_queued_events timeouts first_request_id =
     require (list_all (\<lambda>v. 0 < v) [read_size, max_pending_requests, max_queued_blocks, max_queued_events]) ReaderValueError (
     require (list_all (\<lambda>v. 0 < v) timeouts) ReaderValueError (
     Inr \<lparr>rd_max_pending_requests = nat max_pending_requests, rd_max_queued_blocks = nat max_queued_blocks,
       rd_max_queued_events = nat max_queued_events, rd_max_stream_reports = max 2 (nat max_queued_events),
       rd_requests = [], rd_pending = [], rd_blocks = [], rd_stream_reports = [], rd_events = [],
       rd_next_request_id = first_request_id, rd_active_run_id = 0, rd_active_checksum_algorithm = ADLER32,
       rd_active_configuration = None, rd_active_v3_settings = None, rd_selected_wire_version = None,
       rd_stream_active = False, rd_thread_alive = False, rd_started = False, rd_closed = False, rd_stop = False,
       rd_terminal_error = None, rd_current = Idle, rd_tally = no_tally, rd_adc = no_stream_tally, rd_gpio = no_stream_tally\<rparr>))"

text \<open>The counter snapshot.\<close>

record ReaderCounters =
  rc_bytes_read :: int
  rc_read_calls :: int
  rc_frames_received :: int
  rc_responses_matched :: int
  rc_late_responses :: int
  rc_request_timeouts :: int
  rc_queue_wait_timeouts :: int
  rc_host_block_queue_drops :: int
  rc_host_event_queue_drops :: int
  rc_stale_blocks_discarded :: int
  rc_boundary_blocks_discarded :: int
  rc_protocol_failures :: int
  rc_disconnects :: int
  rc_pending_requests :: int
  rc_queued_blocks :: int
  rc_queued_events :: int
  rc_readinto_calls :: int
  rc_maximum_read_bytes :: int
  rc_pending_request_high_water :: int
  rc_block_queue_high_water :: int
  rc_event_queue_high_water :: int
  rc_adc_frames_received :: int
  rc_gpio_frames_received :: int
  rc_adc_block_queue_drops :: int
  rc_gpio_block_queue_drops :: int
  rc_adc_stale_blocks_discarded :: int
  rc_gpio_stale_blocks_discarded :: int
  rc_adc_boundary_blocks_discarded :: int
  rc_gpio_boundary_blocks_discarded :: int
  rc_adc_item_queue_drops :: int
  rc_gpio_item_queue_drops :: int
  rc_queued_loss_reports :: int
  rc_loss_report_queue_drops :: int
  rc_adc_items_received :: int
  rc_gpio_items_received :: int
  rc_adc_decoded_bytes_received :: int
  rc_gpio_decoded_bytes_received :: int
  rc_adc_wire_bytes_received :: int
  rc_gpio_wire_bytes_received :: int

definition reader_counters :: "'f reader \<Rightarrow> ReaderCounters" where
  "reader_counters r = (let t = rd_tally r; a = rd_adc r; g = rd_gpio r in
     \<lparr>rc_bytes_read = ty_bytes_read t, rc_read_calls = ty_read_calls t, rc_frames_received = ty_frames_received t,
      rc_responses_matched = ty_responses_matched t, rc_late_responses = ty_late_responses t,
      rc_request_timeouts = ty_request_timeouts t, rc_queue_wait_timeouts = ty_queue_wait_timeouts t,
      rc_host_block_queue_drops = ty_host_block_queue_drops t, rc_host_event_queue_drops = ty_host_event_queue_drops t,
      rc_stale_blocks_discarded = ty_stale_blocks_discarded t, rc_boundary_blocks_discarded = ty_boundary_blocks_discarded t,
      rc_protocol_failures = ty_protocol_failures t, rc_disconnects = ty_disconnects t,
      rc_pending_requests = int (length (rd_pending r)), rc_queued_blocks = int (length (rd_blocks r)),
      rc_queued_events = int (length (rd_events r)), rc_readinto_calls = ty_readinto_calls t,
      rc_maximum_read_bytes = ty_maximum_read_bytes t, rc_pending_request_high_water = ty_pending_request_high_water t,
      rc_block_queue_high_water = ty_block_queue_high_water t, rc_event_queue_high_water = ty_event_queue_high_water t,
      rc_adc_frames_received = sy_frames_received a, rc_gpio_frames_received = sy_frames_received g,
      rc_adc_block_queue_drops = sy_block_queue_drops a, rc_gpio_block_queue_drops = sy_block_queue_drops g,
      rc_adc_stale_blocks_discarded = sy_stale_blocks_discarded a, rc_gpio_stale_blocks_discarded = sy_stale_blocks_discarded g,
      rc_adc_boundary_blocks_discarded = sy_boundary_blocks_discarded a, rc_gpio_boundary_blocks_discarded = sy_boundary_blocks_discarded g,
      rc_adc_item_queue_drops = sy_item_queue_drops a, rc_gpio_item_queue_drops = sy_item_queue_drops g,
      rc_queued_loss_reports = int (length (rd_stream_reports r)), rc_loss_report_queue_drops = ty_loss_report_queue_drops t,
      rc_adc_items_received = sy_items_received a, rc_gpio_items_received = sy_items_received g,
      rc_adc_decoded_bytes_received = sy_decoded_bytes_received a, rc_gpio_decoded_bytes_received = sy_decoded_bytes_received g,
      rc_adc_wire_bytes_received = sy_wire_bytes_received a, rc_gpio_wire_bytes_received = sy_wire_bytes_received g\<rparr>)"

section \<open>Requests\<close>

definition require_live :: "'f reader \<Rightarrow> reader_error + unit" where
  "require_live r = require (\<not> rd_closed r) ReaderClosedError (
     case rd_terminal_error r of Some e \<Rightarrow> Inl e | None \<Rightarrow> require (rd_started r) ReaderNotStartedError (Inr ()))"

fun allocate_request_id :: "nat \<Rightarrow> 'f reader \<Rightarrow> 'f reader \<times> int option" where
  "allocate_request_id 0 r = (r, None)"
| "allocate_request_id (Suc attempts) r =
     (let request_id = rd_next_request_id r; following = (request_id + 1) AND UINT32_MAX;
          r1 = r\<lparr>rd_next_request_id := (if following = 0 then 1 else following)\<rparr> in
      if request_id \<notin> fst ` set (rd_pending r1) then (r1, Some request_id) else allocate_request_id attempts r1)"

definition request_response_kind :: "int \<Rightarrow> int \<Rightarrow> int option" where
  "request_response_kind protocol_version kind =
     (if protocol_version = 3 then map_of V3_REQUEST_RESPONSE_KIND kind
      else if protocol_version = 2 \<and> kind \<notin> fst ` set V1_REQUEST_RESPONSE_KIND then map_of V2_REQUEST_RESPONSE_KIND kind
      else map_of V1_REQUEST_RESPONSE_KIND kind)"

text \<open>\<^verbatim>\<open>request\<close> up to the write: the index of the new pending request and the bytes to send.\<close>

definition begin_request :: "'f legacy_codec \<Rightarrow> int \<Rightarrow> bytes \<Rightarrow> int \<Rightarrow> int \<Rightarrow> int \<Rightarrow> bool \<Rightarrow> 'f reader \<Rightarrow>
    'f reader \<times> (reader_error + nat \<times> bytes)" where
  "begin_request codec kind payload timeout now protocol_version negotiating r =
     (case request_response_kind protocol_version kind of
        None \<Rightarrow> (r, Inl ReaderValueError)
      | Some expected_kind \<Rightarrow>
          if protocol_version \<notin> {1, 2, 3} \<or> timeout \<le> 0 then (r, Inl ReaderValueError)
          else case require_live r of
            Inl e \<Rightarrow> (r, Inl e)
          | Inr _ \<Rightarrow>
              if rd_max_pending_requests r \<le> length (rd_pending r) then (r, Inl PendingRequestLimitError)
              else case allocate_request_id (rd_max_pending_requests r + 1) r of
                (r1, None) \<Rightarrow> (r1, Inl PendingRequestLimitError)
              | (r1, Some request_id) \<Rightarrow>
                  let pending = \<lparr>pr_kind = kind, pr_expected_kind = expected_kind, pr_request_id = request_id,
                        pr_deadline = now + timeout, pr_completed = False, pr_response = None,
                        pr_protocol_version = protocol_version, pr_error = None, pr_negotiating = negotiating\<rparr>;
                      encoded = (if protocol_version = 3 then map_sum (\<lambda>_. ()) id (encode_v3_frame kind payload 0 0 0 request_id 0 0)
                        else lc_encode codec protocol_version kind payload request_id) in
                  case encoded of
                    Inl _ \<Rightarrow> (r1, Inl ReaderValueError)
                  | Inr wire \<Rightarrow>
                      let r2 = r1\<lparr>rd_requests := rd_requests r1 @ [pending], rd_pending := rd_pending r1 @ [(request_id, length (rd_requests r1))]\<rparr> in
                      (count (\<lambda>t. t\<lparr>ty_pending_request_high_water := max (ty_pending_request_high_water t) (int (length (rd_pending r2)))\<rparr>) r2,
                       Inr (length (rd_requests r1), wire)))"

definition unresolved :: "PendingRequest \<Rightarrow> bool" where
  "unresolved p \<longleftrightarrow> pr_response p = None \<and> pr_error p = None"

definition set_request :: "nat \<Rightarrow> (PendingRequest \<Rightarrow> PendingRequest) \<Rightarrow> 'f reader \<Rightarrow> 'f reader" where
  "set_request i f r = r\<lparr>rd_requests := (rd_requests r)[i := f (rd_requests r ! i)]\<rparr>"

definition complete_with_error :: "nat \<Rightarrow> reader_error \<Rightarrow> bool \<Rightarrow> 'f reader \<Rightarrow> 'f reader" where
  "complete_with_error i error timeout r =
     (if \<not> unresolved (rd_requests r ! i) then r
      else let r1 = r\<lparr>rd_pending := filter (\<lambda>p. p \<noteq> (pr_request_id (rd_requests r ! i), i)) (rd_pending r)\<rparr>;
               r2 = set_request i (\<lambda>p. p\<lparr>pr_error := Some error, pr_completed := True\<rparr>) r1 in
           if timeout then count (\<lambda>t. t\<lparr>ty_request_timeouts := ty_request_timeouts t + 1\<rparr>) r2 else r2)"

text \<open>One expired entry of \<^verbatim>\<open>_expire_pending_requests\<close>, then all of them.\<close>

definition expire_request :: "nat \<Rightarrow> 'f reader \<Rightarrow> 'f reader" where
  "expire_request i r =
     (let r1 = r\<lparr>rd_pending := filter (\<lambda>p. fst p \<noteq> pr_request_id (rd_requests r ! i)) (rd_pending r)\<rparr> in
      if unresolved (rd_requests r ! i)
      then count (\<lambda>t. t\<lparr>ty_request_timeouts := ty_request_timeouts t + 1\<rparr>)
        (set_request i (\<lambda>p. p\<lparr>pr_error := Some RequestTimeoutError, pr_completed := True\<rparr>) r1)
      else r1)"

definition expire_pending_requests :: "int \<Rightarrow> 'f reader \<Rightarrow> 'f reader" where
  "expire_pending_requests now r = fold expire_request (map snd (filter (\<lambda>p. pr_deadline (rd_requests r ! snd p) \<le> now) (rd_pending r))) r"

definition fail_request :: "reader_error \<Rightarrow> nat \<Rightarrow> 'f reader \<Rightarrow> 'f reader" where
  "fail_request error i r =
     (if unresolved (rd_requests r ! i) then set_request i (\<lambda>p. p\<lparr>pr_error := Some error, pr_completed := True\<rparr>) r else r)"

definition fail_all_pending :: "reader_error \<Rightarrow> 'f reader \<Rightarrow> 'f reader" where
  "fail_all_pending error r = fold (fail_request error) (map snd (rd_pending r)) (r\<lparr>rd_pending := []\<rparr>)"

definition terminate :: "reader_error \<Rightarrow> bool \<Rightarrow> bool \<Rightarrow> 'f reader \<Rightarrow> 'f reader" where
  "terminate error protocol_failure disconnected r =
     (let r1 = (if rd_terminal_error r = None \<and> \<not> rd_closed r
        then fail_all_pending error (count (\<lambda>t. t\<lparr>ty_protocol_failures := ty_protocol_failures t + of_bool protocol_failure,
            ty_disconnects := ty_disconnects t + of_bool disconnected\<rparr>) (r\<lparr>rd_terminal_error := Some error\<rparr>))
        else r) in
      r1\<lparr>rd_stream_active := False, rd_stop := True\<rparr>)"

text \<open>How the write of a request can end, and the end of \<^verbatim>\<open>request\<close> once its event is set or its deadline has passed.\<close>

datatype write_failure = WriteTimeout | WriteTransportError | WriteCancelled

definition write_failed :: "nat \<Rightarrow> write_failure \<Rightarrow> 'f reader \<Rightarrow> 'f reader" where
  "write_failed i failure r = (case failure of
       WriteTimeout \<Rightarrow> complete_with_error i RequestTimeoutError True r
     | WriteTransportError \<Rightarrow> terminate DeviceDisconnectedError False True r
     | WriteCancelled \<Rightarrow> complete_with_error i
         (case rd_terminal_error r of Some e \<Rightarrow> e | None \<Rightarrow> if rd_closed r then ReaderClosedError else ReaderCancelled) False r)"

definition finish_request :: "nat \<Rightarrow> 'f reader \<Rightarrow> 'f reader \<times> (reader_error + reader_response)" where
  "finish_request i r =
     (let r1 = (if pr_completed (rd_requests r ! i) then r else complete_with_error i RequestTimeoutError True r);
          p = rd_requests r1 ! i in
      case pr_error p of
        Some e \<Rightarrow> (r1, Inl e)
      | None \<Rightarrow> (case pr_response p of
           None \<Rightarrow> (terminate ReaderProtocolError True False r1, Inl ReaderProtocolError)
         | Some response \<Rightarrow> (r1, Inr response)))"

section \<open>Runs\<close>

definition record_boundary_blocks :: "'f reader \<Rightarrow> 'f reader" where
  "record_boundary_blocks r =
     fold (\<lambda>b. count_stream b (\<lambda>s. s\<lparr>sy_boundary_blocks_discarded := sy_boundary_blocks_discarded s + 1\<rparr>)) (rd_blocks r)
       (count (\<lambda>t. t\<lparr>ty_boundary_blocks_discarded := ty_boundary_blocks_discarded t + int (length (rd_blocks r))\<rparr>) r)"

definition activate_run_locked :: "int \<Rightarrow> ChecksumAlgorithm \<Rightarrow> DAQConfiguration option \<Rightarrow> 'f reader \<Rightarrow> 'f reader \<times> (reader_error + unit)" where
  "activate_run_locked run_id checksum_algorithm configuration r =
     (if run_id = 0 \<or> checksum_algorithm \<notin> SUPPORTED_CHECKSUM_ALGORITHMS then (r, Inl ReaderProtocolError)
      else ((record_boundary_blocks r)\<lparr>rd_blocks := [], rd_stream_reports := [], rd_active_run_id := run_id,
        rd_active_checksum_algorithm := checksum_algorithm, rd_active_configuration := configuration, rd_stream_active := True\<rparr>, Inr ()))"

definition deactivate_stream_locked :: "'f reader \<Rightarrow> 'f reader" where
  "deactivate_stream_locked r = (record_boundary_blocks r)\<lparr>rd_blocks := [], rd_stream_reports := [], rd_stream_active := False,
     rd_active_checksum_algorithm := ADLER32\<rparr>"

definition deactivate_stream :: "'f reader \<Rightarrow> 'f reader \<times> (reader_error + unit)" where
  "deactivate_stream r = (case require_live r of Inl e \<Rightarrow> (r, Inl e) | Inr _ \<Rightarrow> (deactivate_stream_locked r, Inr ()))"

definition activate_run :: "int \<Rightarrow> ChecksumAlgorithm \<Rightarrow> DAQConfiguration option \<Rightarrow> int option \<Rightarrow> 'f reader \<Rightarrow> 'f reader \<times> (reader_error + unit)" where
  "activate_run run_id checksum_algorithm configuration protocol_version r =
     (if \<not> (0 < run_id \<and> run_id \<le> UINT32_MAX) \<or> checksum_algorithm \<notin> SUPPORTED_CHECKSUM_ALGORITHMS then (r, Inl ReaderValueError)
      else case require_live r of Inl e \<Rightarrow> (r, Inl e) | Inr _ \<Rightarrow>
        let selected = (case protocol_version of Some v \<Rightarrow> v
              | None \<Rightarrow> (case configuration of Some c \<Rightarrow> configuration_protocol_version c | None \<Rightarrow> 1)) in
        if selected \<notin> {1, 2} then (r, Inl ReaderValueError)
        else activate_run_locked run_id checksum_algorithm configuration (r\<lparr>rd_selected_wire_version := Some selected, rd_active_v3_settings := None\<rparr>))"

text \<open>Version 3 has one checksum algorithm, Adler-32.\<close>

definition activate_v3_run :: "int \<Rightarrow> V3Settings \<Rightarrow> 'f reader \<Rightarrow> 'f reader \<times> (reader_error + unit)" where
  "activate_v3_run run_id settings r =
     (case require_live r of Inl e \<Rightarrow> (r, Inl e) | Inr _ \<Rightarrow>
        activate_run_locked run_id ADLER32 None (r\<lparr>rd_active_v3_settings := Some settings, rd_selected_wire_version := Some 3\<rparr>))"

section \<open>Dispatching decoded messages\<close>

text \<open>An explicit rejection of the wire version by an INFO exchange that negotiates.\<close>

definition version_rejected :: "PendingRequest \<Rightarrow> reader_response \<Rightarrow> int \<Rightarrow> bool" where
  "version_rejected pending response wire_version \<longleftrightarrow>
     pr_negotiating pending \<and> pr_kind pending = KIND_INFO_REQUEST \<and> \<not> response_is_ok response \<and>
     response_error_code response = CODE_UNSUPPORTED_VERSION \<and>
     (response_kind response = pr_expected_kind pending \<and> wire_version = pr_protocol_version pending \<or>
      (case response of
         LegacyResponse c \<Rightarrow> cr_kind c = KIND_ERROR_RESPONSE \<and> cr_rejected_kind c = Some (pr_kind pending) \<and>
           cr_rejected_version c = Some (pr_protocol_version pending)
       | V3Reply v \<Rightarrow> wire_version = pr_protocol_version pending \<and> rp_kind v = FK_ERROR_RESPONSE \<and>
           rp_rejected_kind v = Some (pr_kind pending)))"

text \<open>
  The accepted branch of \<^verbatim>\<open>_dispatch_response\<close>: the effect of a successful CONFIGURE, START or STOP. \<open>Inr\<close> is the
  protocol error recorded in the request; \<open>Inl\<close> is an exception that leaves the block at once.
\<close>

definition start_stream :: "reader_response \<Rightarrow> 'f reader \<Rightarrow> 'f reader \<times> (reader_error + reader_error option)" where
  "start_stream response r = (case response of
       V3Reply v \<Rightarrow> (case rp_value v of
         Some (AppliedValue a) \<Rightarrow>
           (case activate_run_locked (rp_run_id v) ADLER32 None (r\<lparr>rd_active_v3_settings := Some (ap_settings a)\<rparr>) of
              (r1, Inl e) \<Rightarrow> (r1, Inl e) | (r1, Inr _) \<Rightarrow> (r1, Inr None))
       | _ \<Rightarrow> (r, Inr (Some ReaderProtocolError)))
     | LegacyResponse c \<Rightarrow> (case cr_configuration c of
         None \<Rightarrow> (r, Inr (Some ReaderProtocolError))
       | Some configuration \<Rightarrow>
           (case activate_run_locked (cr_run_id c) (dc_data_checksum_algorithm configuration) (Some configuration)
               (r\<lparr>rd_active_v3_settings := None\<rparr>) of
              (r1, Inl e) \<Rightarrow> (r1, Inl e) | (r1, Inr _) \<Rightarrow> (r1, Inr None))))"

definition accept_response :: "nat \<Rightarrow> reader_response \<Rightarrow> int \<Rightarrow> 'f reader \<Rightarrow> 'f reader \<times> (reader_error + reader_error option)" where
  "accept_response i response wire_version r =
     (let kind = response_kind response; ok = response_is_ok response;
          r1 = count (\<lambda>t. t\<lparr>ty_responses_matched := ty_responses_matched t + 1\<rparr>) (set_request i (\<lambda>p. p\<lparr>pr_response := Some response\<rparr>) r);
          r2 = (if ok \<and> kind \<in> {KIND_CONFIGURE_RESPONSE, KIND_START_RESPONSE} then r1\<lparr>rd_selected_wire_version := Some wire_version\<rparr> else r1) in
      if ok \<and> kind = KIND_START_RESPONSE then start_stream response r2
      else if ok \<and> kind = KIND_STOP_RESPONSE then (deactivate_stream_locked r2, Inr None)
      else (r2, Inr None))"

definition late_response :: "reader_response \<Rightarrow> int \<Rightarrow> 'f reader \<Rightarrow> 'f reader" where
  "late_response response wire_version r =
     (let r1 = count (\<lambda>t. t\<lparr>ty_late_responses := ty_late_responses t + 1\<rparr>) r in
      if response_is_ok response \<and> response_kind response = KIND_STOP_RESPONSE \<and> response_run_id response = rd_active_run_id r1 \<and>
         Some wire_version = rd_selected_wire_version r1 then deactivate_stream_locked r1 else r1)"

definition complete_response :: "nat \<Rightarrow> reader_error option \<Rightarrow> 'f reader \<Rightarrow> 'f reader" where
  "complete_response i error r = set_request i (\<lambda>p. p\<lparr>pr_error := (if error = None then pr_error p else error), pr_completed := True\<rparr>) r"

definition dispatch_response :: "reader_response \<Rightarrow> int \<Rightarrow> 'f reader \<Rightarrow> 'f reader \<times> (reader_error + unit)" where
  "dispatch_response response wire_version r =
     (case map_of (rd_pending r) (response_request_id response) of
        None \<Rightarrow> (late_response response wire_version r, Inr ())
      | Some i \<Rightarrow>
          let pending = rd_requests r ! i;
              r1 = r\<lparr>rd_pending := filter (\<lambda>p. fst p \<noteq> response_request_id response) (rd_pending r)\<rparr> in
          if version_rejected pending response wire_version then
            (complete_response i (Some ProtocolVersionRejected) (count (\<lambda>t. t\<lparr>ty_responses_matched := ty_responses_matched t + 1\<rparr>) r1), Inr ())
          else if wire_version \<noteq> pr_protocol_version pending \<or> response_kind response \<notin> {pr_expected_kind pending, KIND_ERROR_RESPONSE} then
            (complete_response i (Some ReaderProtocolError) r1, Inl ReaderProtocolError)
          else case accept_response i response wire_version r1 of
            (r2, Inl e) \<Rightarrow> (r2, Inl e)
          | (r2, Inr error) \<Rightarrow> (complete_response i error r2, case error of None \<Rightarrow> Inr () | Some e \<Rightarrow> Inl e))"

text \<open>\<^verbatim>\<open>_enqueue_stream_report_locked\<close>: coalesce from the newest entry on, or append within the bound.\<close>

definition same_loss_key :: "HostQueueLoss \<Rightarrow> HostQueueLoss \<Rightarrow> bool" where
  "same_loss_key a b \<longleftrightarrow> hq_kind a = hq_kind b \<and> hq_source a = hq_source b \<and> hq_run_id a = hq_run_id b"

fun coalesce_report :: "ReaderStreamReport \<Rightarrow> ReaderStreamReport list \<Rightarrow> block_error + ReaderStreamReport list option" where
  "coalesce_report report [] = Inr None"
| "coalesce_report report (existing # rest) =
     (let later = map_sum id (map_option ((#) existing)) (coalesce_report report rest) in
      case (existing, report) of
        (HostLossReport a, HostLossReport b) \<Rightarrow>
          if same_loss_key a b then map_sum id (\<lambda>l. Some (HostLossReport l # rest)) (loss_aggregated_with a b) else later
      | (StaleReport a, StaleReport b) \<Rightarrow>
          (case anomaly_merged_with a b of Inr c \<Rightarrow> Inr (Some (StaleReport c # rest)) | Inl _ \<Rightarrow> later)
      | _ \<Rightarrow> later)"

fun is_stale_report :: "ReaderStreamReport \<Rightarrow> bool" where
  "is_stale_report (StaleReport _) = True"
| "is_stale_report (HostLossReport _) = False"

fun drop_first :: "('a \<Rightarrow> bool) \<Rightarrow> 'a list \<Rightarrow> 'a list" where
  "drop_first P [] = []"
| "drop_first P (x # xs) = (if P x then xs else x # drop_first P xs)"

definition enqueue_stream_report :: "ReaderStreamReport \<Rightarrow> 'f reader \<Rightarrow> 'f reader \<times> (block_error + unit)" where
  "enqueue_stream_report report r =
     (case coalesce_report report (rev (rd_stream_reports r)) of
        Inl e \<Rightarrow> (r, Inl e)
      | Inr (Some reports) \<Rightarrow> (r\<lparr>rd_stream_reports := rev reports\<rparr>, Inr ())
      | Inr None \<Rightarrow>
          if rd_max_stream_reports r \<le> length (rd_stream_reports r) then
            let r1 = count (\<lambda>t. t\<lparr>ty_loss_report_queue_drops := ty_loss_report_queue_drops t + 1\<rparr>) r in
            if list_ex is_stale_report (rd_stream_reports r)
            then (r1\<lparr>rd_stream_reports := drop_first is_stale_report (rd_stream_reports r) @ [report]\<rparr>, Inr ())
            else (r1, Inr ())
          else (r\<lparr>rd_stream_reports := rd_stream_reports r @ [report]\<rparr>, Inr ()))"

fun block_checksum_algorithm :: "data_block \<Rightarrow> ChecksumAlgorithm" where
  "block_checksum_algorithm (AsADC b) = ab_checksum_algorithm b"
| "block_checksum_algorithm (AsGPIO b) = gb_checksum_algorithm b"

definition count_received :: "data_block \<Rightarrow> 'f reader \<Rightarrow> 'f reader" where
  "count_received b = count_stream b (\<lambda>s. s\<lparr>sy_frames_received := sy_frames_received s + 1,
     sy_items_received := sy_items_received s + block_item_count b,
     sy_decoded_bytes_received := sy_decoded_bytes_received s + int (length (block_payload b)),
     sy_wire_bytes_received := sy_wire_bytes_received s + int (block_wire_bytes b)\<rparr>)"

definition discard_stale_block :: "data_block \<Rightarrow> 'f reader \<Rightarrow> 'f reader \<times> (reader_error + unit)" where
  "discard_stale_block b r =
     (let r1 = count_stream b (\<lambda>s. s\<lparr>sy_stale_blocks_discarded := sy_stale_blocks_discarded s + 1\<rparr>)
           (count (\<lambda>t. t\<lparr>ty_stale_blocks_discarded := ty_stale_blocks_discarded t + 1\<rparr>) r) in
      if rd_stream_active r1
      then (case anomaly_stale_run b (rd_active_run_id r1) of
          Inl _ \<Rightarrow> (r1, Inl ReaderValueError)
        | Inr a \<Rightarrow> (case enqueue_stream_report (StaleReport a) r1 of (r2, res) \<Rightarrow> (r2, map_sum (\<lambda>_. ReaderValueError) id res)))
      else (r1, Inr ()))"

text \<open>Eviction of the oldest block from a full queue; its report comes before the counters.\<close>

definition evict_oldest :: "'f reader \<Rightarrow> 'f reader \<times> (reader_error + unit)" where
  "evict_oldest r =
     (if rd_max_queued_blocks r \<le> length (rd_blocks r) then
        let dropped = hd (rd_blocks r); r1 = r\<lparr>rd_blocks := tl (rd_blocks r)\<rparr> in
        case loss_from_block dropped of
          Inl _ \<Rightarrow> (r1, Inl ReaderValueError)
        | Inr l \<Rightarrow>
            (case enqueue_stream_report (HostLossReport l) r1 of
               (r2, Inl _) \<Rightarrow> (r2, Inl ReaderValueError)
             | (r2, Inr _) \<Rightarrow>
                 (count_stream dropped (\<lambda>s. s\<lparr>sy_block_queue_drops := sy_block_queue_drops s + 1,
                    sy_item_queue_drops := sy_item_queue_drops s + block_item_count dropped\<rparr>)
                  (count (\<lambda>t. t\<lparr>ty_host_block_queue_drops := ty_host_block_queue_drops t + 1\<rparr>) r2), Inr ()))
      else (r, Inr ()))"

definition dispatch_block :: "data_block \<Rightarrow> 'f reader \<Rightarrow> 'f reader \<times> (reader_error + unit)" where
  "dispatch_block b r =
     (let r1 = count_received b r in
      if \<not> rd_stream_active r1 \<or> block_run_id b \<noteq> rd_active_run_id r1 then discard_stale_block b r1
      else if block_checksum_algorithm b \<noteq> rd_active_checksum_algorithm r1 then (r1, Inl ReaderProtocolError)
      else case evict_oldest r1 of
        (r2, Inl e) \<Rightarrow> (r2, Inl e)
      | (r2, Inr _) \<Rightarrow>
          let r3 = r2\<lparr>rd_blocks := rd_blocks r2 @ [b]\<rparr> in
          (count (\<lambda>t. t\<lparr>ty_block_queue_high_water := max (ty_block_queue_high_water t) (int (length (rd_blocks r3)))\<rparr>) r3, Inr ()))"

definition dispatch_event :: "'f \<Rightarrow> 'f reader \<Rightarrow> 'f reader" where
  "dispatch_event event r =
     (let r1 = (if rd_max_queued_events r \<le> length (rd_events r)
         then count (\<lambda>t. t\<lparr>ty_host_event_queue_drops := ty_host_event_queue_drops t + 1\<rparr>) (r\<lparr>rd_events := tl (rd_events r)\<rparr>) else r);
          r2 = r1\<lparr>rd_events := rd_events r1 @ [event]\<rparr> in
      count (\<lambda>t. t\<lparr>ty_event_queue_high_water := max (ty_event_queue_high_water t) (int (length (rd_events r2)))\<rparr>) r2)"

section \<open>The reader thread\<close>

definition record_read :: "nat \<Rightarrow> bool \<Rightarrow> 'f reader \<Rightarrow> 'f reader" where
  "record_read received used_readinto = count (\<lambda>t. t\<lparr>ty_read_calls := ty_read_calls t + 1, ty_bytes_read := ty_bytes_read t + int received,
     ty_maximum_read_bytes := max (ty_maximum_read_bytes t) (int received), ty_readinto_calls := ty_readinto_calls t + of_bool used_readinto\<rparr>)"

fun frame_version :: "'f legacy_codec \<Rightarrow> 'f wire_frame \<Rightarrow> int" where
  "frame_version codec (WireV3 f) = 3"
| "frame_version codec (WireLegacy f) = lc_version codec f"

fun frame_kind :: "'f legacy_codec \<Rightarrow> 'f wire_frame \<Rightarrow> int" where
  "frame_kind codec (WireV3 f) = FrameKind_value (hdr_kind (fr_header f))"
| "frame_kind codec (WireLegacy f) = lc_kind codec f"

text \<open>
  One frame up to its dispatch. A version-3 data frame without known settings is only counted; an
  exception leaves the thread in the state \<open>Failed\<close>, on its way to \<^verbatim>\<open>_terminate\<close>.
\<close>

definition take_frame :: "'f legacy_codec \<Rightarrow> 'f wire_frame \<Rightarrow> 'f reader \<Rightarrow> 'f reader" where
  "take_frame codec frame r =
     (let decoded = (\<lambda>m. case m of Inl _ \<Rightarrow> r\<lparr>rd_current := Failed\<rparr>
            | Inr message \<Rightarrow> (count (\<lambda>t. t\<lparr>ty_frames_received := ty_frames_received t + 1\<rparr>) r)\<lparr>rd_current := Decoded message\<rparr>) in
      if rd_stop r then r\<lparr>rd_thread_alive := False\<rparr>
      else if frame_kind codec frame \<in> {1, 2} \<and> rd_selected_wire_version r \<noteq> None \<and>
        rd_selected_wire_version r \<noteq> Some (frame_version codec frame) then r\<lparr>rd_current := Failed\<rparr>
      else case frame of
        WireV3 f \<Rightarrow>
          if is_data_kind (hdr_kind (fr_header f)) then
            (case rd_active_v3_settings r of
               None \<Rightarrow> count (\<lambda>t. t\<lparr>ty_stale_blocks_discarded := ty_stale_blocks_discarded t + 1\<rparr>) r
             | Some settings \<Rightarrow> decoded (map_sum (\<lambda>_. ()) BlockMessage (decode_v3_block f settings)))
          else decoded (map_sum (\<lambda>_. ()) (\<lambda>v. ResponseMessage (V3Reply v) 3) (decode_v3_response f))
      | WireLegacy f \<Rightarrow> decoded (map_sum id (\<lambda>m. case m of LegacyReply c \<Rightarrow> ResponseMessage (LegacyResponse c) (lc_version codec f)
          | LegacyBlock b \<Rightarrow> BlockMessage b | LegacyEvent e \<Rightarrow> EventMessage e) (lc_decode codec (rd_active_configuration r) f)))"

definition dispatch_current :: "'f reader \<Rightarrow> 'f reader" where
  "dispatch_current r = (case rd_current r of
       Decoded (ResponseMessage response version) \<Rightarrow>
         (case dispatch_response response version r of (r1, res) \<Rightarrow> r1\<lparr>rd_current := (case res of Inl _ \<Rightarrow> Failed | Inr _ \<Rightarrow> Idle)\<rparr>)
     | Decoded (BlockMessage b) \<Rightarrow>
         (case dispatch_block b r of (r1, res) \<Rightarrow> r1\<lparr>rd_current := (case res of Inl _ \<Rightarrow> Failed | Inr _ \<Rightarrow> Idle)\<rparr>)
     | Decoded (EventMessage event) \<Rightarrow> (dispatch_event event r)\<lparr>rd_current := Idle\<rparr>
     | Failed \<Rightarrow> (terminate ReaderProtocolError True False r)\<lparr>rd_current := Idle, rd_thread_alive := False\<rparr>
     | Idle \<Rightarrow> r)"

text \<open>The other ends of the loop: a transport that fails or closes, a parser that raises, a stop request.\<close>

definition transport_lost :: "'f reader \<Rightarrow> 'f reader" where
  "transport_lost r = (if rd_stop r then r else terminate DeviceDisconnectedError False True r)\<lparr>rd_thread_alive := False\<rparr>"

definition parser_failed :: "'f reader \<Rightarrow> 'f reader" where
  "parser_failed r = (terminate ReaderProtocolError True False r)\<lparr>rd_thread_alive := False\<rparr>"

section \<open>The callers' side\<close>

definition start_reader :: "bool \<Rightarrow> 'f reader \<Rightarrow> 'f reader \<times> (reader_error + unit)" where
  "start_reader transport_open r =
     (if rd_closed r then (r, Inl ReaderClosedError)
      else case rd_terminal_error r of Some e \<Rightarrow> (r, Inl e)
      | None \<Rightarrow> if rd_started r then (r, Inr ())
          else if \<not> transport_open then (r, Inl DeviceDisconnectedError)
          else (r\<lparr>rd_started := True, rd_thread_alive := True\<rparr>, Inr ()))"

definition close_reader :: "'f reader \<Rightarrow> 'f reader" where
  "close_reader r =
     (if rd_closed r then r
      else (fail_all_pending ReaderClosedError (r\<lparr>rd_closed := True, rd_stop := True\<rparr>))\<lparr>rd_blocks := [], rd_stream_reports := [],
        rd_events := [], rd_stream_active := False\<rparr>)"

text \<open>
  The waiting loops. \<open>woken\<close>: the thread comes back from a wait that was notified; \<open>expired\<close>: its deadline has passed.
  \<open>Waiting\<close>: it waits for the next notification. A wait that runs out of time ends in \<open>wait_timed_out\<close>, whatever
  the state is by then, and the caller gets \<open>QueueWaitTimeoutError\<close>.
\<close>

datatype 'a poll = Ready 'a | Raises reader_error | Waiting

definition wait_timed_out :: "'f reader \<Rightarrow> 'f reader" where
  "wait_timed_out = count (\<lambda>t. t\<lparr>ty_queue_wait_timeouts := ty_queue_wait_timeouts t + 1\<rparr>)"

definition wait_step :: "bool \<Rightarrow> bool \<Rightarrow> 'f reader \<Rightarrow> 'f reader \<times> 'a poll" where
  "wait_step needs_stream expired r = (case rd_terminal_error r of
       Some e \<Rightarrow> (r, Raises e)
     | None \<Rightarrow>
         if needs_stream \<and> \<not> rd_stream_active r then (r, Raises StreamStoppedError)
         else if expired then (wait_timed_out r, Raises QueueWaitTimeoutError)
         else (r, Waiting))"

definition await_block :: "bool \<Rightarrow> bool \<Rightarrow> 'f reader \<Rightarrow> 'f reader \<times> data_block poll" where
  "await_block woken expired r =
     (if woken \<and> rd_closed r then (r, Raises ReaderClosedError)
      else case rd_blocks r of b # bs \<Rightarrow> (r\<lparr>rd_blocks := bs\<rparr>, Ready b) | [] \<Rightarrow> wait_step True expired r)"

definition await_stream_item :: "bool \<Rightarrow> bool \<Rightarrow> 'f reader \<Rightarrow> 'f reader \<times> ReaderStreamItem poll" where
  "await_stream_item woken expired r =
     (if woken \<and> rd_closed r then (r, Raises ReaderClosedError)
      else case rd_stream_reports r of
        report # reports \<Rightarrow> (r\<lparr>rd_stream_reports := reports\<rparr>, Ready (ReportItem report))
      | [] \<Rightarrow> (case rd_blocks r of b # bs \<Rightarrow> (r\<lparr>rd_blocks := bs\<rparr>, Ready (DataItem b)) | [] \<Rightarrow> wait_step True expired r))"

definition await_event :: "bool \<Rightarrow> bool \<Rightarrow> 'f reader \<Rightarrow> 'f reader \<times> 'f poll" where
  "await_event woken expired r =
     (if woken \<and> rd_closed r then (r, Raises ReaderClosedError)
      else case rd_events r of event # events \<Rightarrow> (r\<lparr>rd_events := events\<rparr>, Ready event) | [] \<Rightarrow> wait_step False expired r)"

text \<open>\<open>refused\<close>: a simulated transport rejected the request for the next frame.\<close>

definition get_block :: "bool \<Rightarrow> bool \<Rightarrow> 'f reader \<Rightarrow> 'f reader \<times> data_block poll" where
  "get_block refused expired r = (case require_live r of Inl e \<Rightarrow> (r, Raises e)
     | Inr _ \<Rightarrow> if rd_blocks r = [] \<and> rd_stream_active r \<and> refused then (r, Raises DeviceDisconnectedError) else await_block False expired r)"

definition get_stream_item :: "bool \<Rightarrow> bool \<Rightarrow> 'f reader \<Rightarrow> 'f reader \<times> ReaderStreamItem poll" where
  "get_stream_item refused expired r = (case require_live r of Inl e \<Rightarrow> (r, Raises e)
     | Inr _ \<Rightarrow> if rd_stream_reports r = [] \<and> rd_blocks r = [] \<and> rd_stream_active r \<and> refused then (r, Raises DeviceDisconnectedError)
         else await_stream_item False expired r)"

definition get_event :: "bool \<Rightarrow> 'f reader \<Rightarrow> 'f reader \<times> 'f poll" where
  "get_event expired r = (case require_live r of Inl e \<Rightarrow> (r, Raises e) | Inr _ \<Rightarrow> await_event False expired r)"

end
