(* ===== verification/Stream_Validator.thy ===== *)
theory Stream_Validator
  imports Reader
begin

text \<open>
  The synthetic-stream validator and the counter reconciliation of \<^verbatim>\<open>streaming.py\<close>. A failed
  check is \<^verbatim>\<open>UnexpectedStreamValidationError\<close> with its category; the message texts are dropped. The timed
  driver around them (\<^verbatim>\<open>run_synthetic_soak\<close>) reads clocks and a serial port and is not modelled.
\<close>

datatype validation_error = UnexpectedStreamValidationError string | ValidatorValueError

text \<open>The attributes of a version-1 status that the validator reads.\<close>

datatype V1DeviceState = V1_BOOT | V1_IDLE | V1_CONFIGURED | V1_RUNNING

record V1Status =
  s1_device_state :: V1DeviceState
  s1_stream_mask :: int
  s1_source :: Source
  s1_adc_frames_emitted :: int
  s1_gpio_frames_emitted :: int
  s1_adc_items_dropped :: int
  s1_gpio_items_dropped :: int
  s1_parser_errors :: int
  s1_transport_errors :: int
  s1_stats_generation :: int

datatype any_status = StatusV1 V1Status | StatusV3 V3Status

datatype StreamItem = BlockItem data_block | GapReport StreamGap | QueueLossReport HostQueueLoss | AnomalyReport StreamAnomaly

section \<open>The validator\<close>

record validator =
  va_run_id :: int
  va_stream_mask :: int
  va_reader_baseline :: ReaderCounters
  va_parser_baseline :: ParserCounters
  va_expected_sequence :: "FrameKind \<rightharpoonup> int"
  va_expected_ticks :: "FrameKind \<rightharpoonup> int"
  va_adc_frames_validated :: int
  va_gpio_frames_validated :: int
  va_stats_generation :: "int option"

definition SyntheticStreamValidator :: "int \<Rightarrow> int \<Rightarrow> ReaderCounters \<Rightarrow> ParserCounters \<Rightarrow> validation_error + validator" where
  "SyntheticStreamValidator run_id stream_mask reader_baseline parser_baseline =
     require (0 < run_id) ValidatorValueError (
     let selected = int_flag 3 stream_mask in
     require (selected \<noteq> 0 \<and> selected AND NOT (STREAM_ADC OR STREAM_GPIO) = 0) ValidatorValueError (
     let expected = (\<lambda>kind. if kind = FK_ADC_DATA \<and> selected AND STREAM_ADC \<noteq> 0 \<or> kind = FK_GPIO_DATA \<and> selected AND STREAM_GPIO \<noteq> 0
       then Some 0 else None) in
     Inr \<lparr>va_run_id = run_id, va_stream_mask = selected, va_reader_baseline = reader_baseline, va_parser_baseline = parser_baseline,
       va_expected_sequence = expected, va_expected_ticks = expected, va_adc_frames_validated = 0, va_gpio_frames_validated = 0,
       va_stats_generation = None\<rparr>))"

abbreviation "fail category \<equiv> UnexpectedStreamValidationError category"

definition validate_block :: "validator \<Rightarrow> data_block \<Rightarrow> validation_error + validator" where
  "validate_block v b = (let kind = block_kind b in
     bind_res (res_of_option (fail ''disabled_stream'') (va_expected_sequence v kind)) (\<lambda>expected_sequence.
     require (block_run_id b = va_run_id v) (fail ''run_id'') (
     require (block_flags b AND (FLAG_GAP_BEFORE OR FLAG_OVERRUN_BEFORE) = 0) (fail ''firmware_gap_flag'') (
     require (block_sequence b = expected_sequence) (fail ''sequence'') (
     require (Some (block_ticks b) = va_expected_ticks v kind) (fail ''timestamp'') (
     bind_res (map_sum (\<lambda>_. fail ''synthetic_pattern'') id (validate_synthetic_block b COUNTER)) (\<lambda>_.
     let v1 = v\<lparr>va_expected_sequence := (va_expected_sequence v)(kind \<mapsto> (block_sequence b + 1) AND UINT32_MAX),
                va_expected_ticks := (va_expected_ticks v)(kind \<mapsto> block_end_tick_exclusive b)\<rparr> in
     Inr (case b of AsADC _ \<Rightarrow> v1\<lparr>va_adc_frames_validated := va_adc_frames_validated v1 + 1\<rparr>
       | AsGPIO _ \<Rightarrow> v1\<lparr>va_gpio_frames_validated := va_gpio_frames_validated v1 + 1\<rparr>))))))))"

definition validate :: "validator \<Rightarrow> StreamItem \<Rightarrow> validation_error + validator \<times> data_block" where
  "validate v item = (case item of
     GapReport _ \<Rightarrow> Inl (fail ''stream_gap'')
   | QueueLossReport _ \<Rightarrow> Inl (fail ''host_queue_loss'')
   | AnomalyReport _ \<Rightarrow> Inl (fail ''stream_anomaly'')
   | BlockItem b \<Rightarrow> bind_res (validate_block v b) (\<lambda>v1. Inr (v1, b)))"

text \<open>\<^verbatim>\<open>_delta\<close>; \<^verbatim>\<open>_reader_delta\<close> is the same function.\<close>

definition delta :: "int \<Rightarrow> int \<Rightarrow> validation_error + int" where
  "delta current baseline = require (baseline \<le> current) (fail ''counter_regression'') (Inr (current - baseline))"

definition no_delta :: "int \<Rightarrow> int \<Rightarrow> string \<Rightarrow> validation_error + unit" where
  "no_delta current baseline category = bind_res (delta current baseline) (\<lambda>d. require (d = 0) (fail category) (Inr ()))"

definition validate_host_health :: "validator \<Rightarrow> ReaderCounters \<Rightarrow> ParserCounters \<Rightarrow> bool \<Rightarrow> validation_error + unit" where
  "validate_host_health v reader parser after_stop =
     bind_res (no_delta (int (c_corruption_events parser)) (int (c_corruption_events (va_parser_baseline v))) ''parser_errors'') (\<lambda>_.
     bind_res (no_delta (rc_host_block_queue_drops reader) (rc_host_block_queue_drops (va_reader_baseline v)) ''host_queue_drops'') (\<lambda>_.
     bind_res (no_delta (rc_host_event_queue_drops reader) (rc_host_event_queue_drops (va_reader_baseline v)) ''host_event_queue_drops'') (\<lambda>_.
     if after_stop then Inr ()
     else no_delta (rc_stale_blocks_discarded reader) (rc_stale_blocks_discarded (va_reader_baseline v)) ''stale_blocks'')))"

fun available_frames :: "any_status \<Rightarrow> int \<times> int" where
  "available_frames (StatusV3 s) = (ss_adc_frames_produced s - ss_adc_frames_dropped s, ss_gpio_frames_produced s - ss_gpio_frames_dropped s)"
| "available_frames (StatusV1 s) = (s1_adc_frames_emitted s, s1_gpio_frames_emitted s)"

definition validate_v3_status :: "validator \<Rightarrow> V3Status \<Rightarrow> bool \<Rightarrow> validation_error + unit" where
  "validate_v3_status v s final =
     require (sp_run_id (ss_stop s) = va_run_id v \<and> sp_state (ss_stop s) = (if final then DS_STOPPED else DS_RUNNING)) (fail ''status_state'') (
     require (ss_adc_items_dropped s = 0 \<and> ss_gpio_items_dropped s = 0) (fail ''firmware_drops'') (
     require (final \<longrightarrow> sp_pending_frames (ss_stop s) = 0) (fail ''status_state'') (
     let (adc_frames, gpio_frames) = available_frames (StatusV3 s) in
     require (va_adc_frames_validated v \<le> adc_frames \<and> va_gpio_frames_validated v \<le> gpio_frames) (fail ''frame_counter'') (
     Inr ()))))"

text \<open>The generation is recorded before the later checks, so the state is returned beside the result.\<close>

definition validate_v1_status :: "validator \<Rightarrow> V1Status \<Rightarrow> bool \<Rightarrow> validator \<times> (validation_error + unit)" where
  "validate_v1_status v s final =
     (if s1_device_state s \<noteq> (if final then V1_IDLE else V1_RUNNING) then (v, Inl (fail ''status_state''))
      else if \<not> final \<and> (s1_stream_mask s \<noteq> va_stream_mask v \<or> s1_source s \<noteq> SRC_SYNTHETIC) then (v, Inl (fail ''status_configuration''))
      else if va_stats_generation v \<noteq> None \<and> va_stats_generation v \<noteq> Some (s1_stats_generation s) then (v, Inl (fail ''stats_generation''))
      else (v\<lparr>va_stats_generation := Some (s1_stats_generation s)\<rparr>,
        require (s1_adc_items_dropped s = 0 \<and> s1_gpio_items_dropped s = 0) (fail ''firmware_drops'') (
        require (s1_parser_errors s = 0) (fail ''firmware_parser_errors'') (
        require (s1_transport_errors s = 0) (fail ''firmware_transport_errors'') (
        require (va_adc_frames_validated v \<le> s1_adc_frames_emitted s) (fail ''adc_counter'') (
        require (va_gpio_frames_validated v \<le> s1_gpio_frames_emitted s) (fail ''gpio_counter'') (Inr ())))))))"

definition validate_status :: "validator \<Rightarrow> any_status \<Rightarrow> int \<Rightarrow> bool \<Rightarrow> validator \<times> (validation_error + unit)" where
  "validate_status v s status_run_id final =
     (if status_run_id \<noteq> va_run_id v then (v, Inl (fail ''status_run_id''))
      else (case s of StatusV3 s3 \<Rightarrow> (v, validate_v3_status v s3 final) | StatusV1 s1 \<Rightarrow> validate_v1_status v s1 final))"

section \<open>Reconciliation\<close>

datatype reconcile_issue = AdcDelivery | GpioDelivery | AdcConservation | GpioConservation | ItemsDropped | FirmwareParserErrors
  | FirmwareTransportErrors | HostParserErrors | HostQueueDrops | HostEventDrops

record CounterReconciliation =
  re_adc_firmware_frames_emitted :: "int option"
  re_gpio_firmware_frames_emitted :: "int option"
  re_adc_wire_frames_received :: int
  re_gpio_wire_frames_received :: int
  re_adc_validated_frames :: int
  re_gpio_validated_frames :: int
  re_adc_host_queue_drops :: int
  re_gpio_host_queue_drops :: int
  re_adc_boundary_discards :: int
  re_gpio_boundary_discards :: int
  re_adc_stale_discards :: int
  re_gpio_stale_discards :: int
  re_firmware_adc_items_dropped :: int
  re_firmware_gpio_items_dropped :: int
  re_firmware_parser_errors :: "int option"
  re_firmware_transport_errors :: "int option"
  re_host_parser_errors :: int
  re_host_event_queue_drops :: int
  re_issues :: "reconcile_issue list"

fun status_items_dropped :: "any_status \<Rightarrow> int \<times> int" where
  "status_items_dropped (StatusV3 s) = (ss_adc_items_dropped s, ss_gpio_items_dropped s)"
| "status_items_dropped (StatusV1 s) = (s1_adc_items_dropped s, s1_gpio_items_dropped s)"

definition when_issue :: "bool \<Rightarrow> reconcile_issue \<Rightarrow> reconcile_issue list" where
  "when_issue c i = (if c then [i] else [])"

definition reconcile :: "any_status \<Rightarrow> ReaderCounters \<Rightarrow> ReaderCounters \<Rightarrow> ParserCounters \<Rightarrow> ParserCounters \<Rightarrow> validator \<Rightarrow>
    validation_error + CounterReconciliation" where
  "reconcile status baseline_reader final_reader baseline_parser final_parser v =
     (let d = (\<lambda>field. delta (field final_reader) (field baseline_reader)) in
     bind_res (d rc_adc_frames_received) (\<lambda>adc_wire.
     bind_res (d rc_gpio_frames_received) (\<lambda>gpio_wire.
     bind_res (d rc_adc_block_queue_drops) (\<lambda>adc_queue_drops.
     bind_res (d rc_gpio_block_queue_drops) (\<lambda>gpio_queue_drops.
     bind_res (d rc_adc_boundary_blocks_discarded) (\<lambda>adc_boundary.
     bind_res (d rc_gpio_boundary_blocks_discarded) (\<lambda>gpio_boundary.
     bind_res (d rc_adc_stale_blocks_discarded) (\<lambda>adc_stale.
     bind_res (d rc_gpio_stale_blocks_discarded) (\<lambda>gpio_stale.
     bind_res (delta (int (c_corruption_events final_parser)) (int (c_corruption_events baseline_parser))) (\<lambda>parser_errors.
     bind_res (d rc_host_event_queue_drops) (\<lambda>event_drops.
     let (adc_expected, gpio_expected) = available_frames status;
         (adc_dropped, gpio_dropped) = status_items_dropped status;
         fw_parser = (case status of StatusV1 s \<Rightarrow> Some (s1_parser_errors s) | StatusV3 _ \<Rightarrow> None);
         fw_transport = (case status of StatusV1 s \<Rightarrow> Some (s1_transport_errors s) | StatusV3 _ \<Rightarrow> None);
         adc_accounted = va_adc_frames_validated v + adc_queue_drops + adc_boundary + adc_stale;
         gpio_accounted = va_gpio_frames_validated v + gpio_queue_drops + gpio_boundary + gpio_stale;
         issues = when_issue (adc_expected \<noteq> adc_wire) AdcDelivery @ when_issue (gpio_expected \<noteq> gpio_wire) GpioDelivery @
           when_issue (adc_wire \<noteq> adc_accounted) AdcConservation @ when_issue (gpio_wire \<noteq> gpio_accounted) GpioConservation @
           when_issue (adc_dropped \<noteq> 0 \<or> gpio_dropped \<noteq> 0) ItemsDropped @
           when_issue (fw_parser \<noteq> None \<and> fw_parser \<noteq> Some 0) FirmwareParserErrors @
           when_issue (fw_transport \<noteq> None \<and> fw_transport \<noteq> Some 0) FirmwareTransportErrors @
           when_issue (parser_errors \<noteq> 0) HostParserErrors @
           when_issue (adc_queue_drops \<noteq> 0 \<or> gpio_queue_drops \<noteq> 0) HostQueueDrops @ when_issue (event_drops \<noteq> 0) HostEventDrops;
         emitted = (\<lambda>n. case status of StatusV1 _ \<Rightarrow> Some n | StatusV3 _ \<Rightarrow> None) in
     Inr \<lparr>re_adc_firmware_frames_emitted = emitted adc_expected, re_gpio_firmware_frames_emitted = emitted gpio_expected,
       re_adc_wire_frames_received = adc_wire, re_gpio_wire_frames_received = gpio_wire,
       re_adc_validated_frames = va_adc_frames_validated v, re_gpio_validated_frames = va_gpio_frames_validated v,
       re_adc_host_queue_drops = adc_queue_drops, re_gpio_host_queue_drops = gpio_queue_drops,
       re_adc_boundary_discards = adc_boundary, re_gpio_boundary_discards = gpio_boundary,
       re_adc_stale_discards = adc_stale, re_gpio_stale_discards = gpio_stale,
       re_firmware_adc_items_dropped = adc_dropped, re_firmware_gpio_items_dropped = gpio_dropped,
       re_firmware_parser_errors = fw_parser, re_firmware_transport_errors = fw_transport,
       re_host_parser_errors = parser_errors, re_host_event_queue_drops = event_drops, re_issues = issues\<rparr>)))))))))))"

definition require_exact :: "CounterReconciliation \<Rightarrow> validation_error + unit" where
  "require_exact r = require (re_issues r = []) (fail ''counter_reconciliation'') (Inr ())"

end
