(* ===== verification/Data_Path.thy ===== *)
theory Data_Path
  imports Stream_Validator
begin

text \<open>
  The data path from the simulated device to the validator: its frames decode to blocks that the
  validator accepts.
\<close>

section \<open>From frames to blocks\<close>

lemma map_sum_Inr_right: "map_sum f id m = Inr x \<longleftrightarrow> m = Inr x"
  by (cases m) auto

lemma v3_metadata: "\<exists>m. metadata_for_rate_profile RP_ADC_1MHZ_GPIO_1MHZ src = Inr m \<and> md_source m = src \<and> md_pair_rate_hz m = 1000000 \<and>
    md_pair_period_ticks m = 8 \<and> md_adc1_phase_ticks m = 4 \<and> md_code_min m = 0 \<and> md_code_max m = 4095"
  by (simp add: metadata_for_rate_profile_def AdcBlockMetadata_post_init_def Let_def V2_RATE_PROFILES_def check_unsigned_def
      DEFAULT_ADC_CONFIGURATION_FLAGS_def)

lemma v3_adc_source:
  "length (synthetic_v3_adc_payload first n) = 4 * n" "adc_payload_codes_valid (synthetic_v3_adc_payload first n)"
proof -
  let ?ps = "map (\<lambda>i. v3_source_pair (first + i)) [0..<n]"
  have src: "synthetic_v3_adc_payload first n = concat (map adc_raw_pair ?ps)" unfolding v3_adc_payload_pairs map_map comp_def ..
  show "length (synthetic_v3_adc_payload first n) = 4 * n"
    unfolding src by (subst length_concat_chunks [where n = 4]) (auto simp: adc_raw_pair_def split: prod.splits)
  have "adc_code_ok p" if m: "p \<in> set ?ps" for p
  proof -
    obtain i where "p = v3_source_pair (first + i)" using m unfolding set_map by blast
    then show ?thesis using v3_source_pair_range [of "first + i" "fst p" "snd p"] by (simp add: adc_code_ok_def split_beta)
  qed
  then show "adc_payload_codes_valid (synthetic_v3_adc_payload first n)" unfolding src by (rule codes_valid_raw_pairs)
qed

lemma gpio_source_length: "length (synthetic_gpio_payload first n mode pattern) = gpio_item_bytes mode * n"
  unfolding synthetic_gpio_payload_items by (subst length_concat_chunks [where n = "gpio_item_bytes mode"]) auto

text \<open>What a block built from a header and its samples looks like.\<close>

definition frame_view :: "V3Settings \<Rightarrow> V3Frame \<Rightarrow> V3DecodedData \<Rightarrow> data_block \<Rightarrow> bool" where
  "frame_view s f dd b \<longleftrightarrow> block_kind b = hdr_kind (fr_header f) \<and> block_run_id b = hdr_run_id (fr_header f) \<and>
     block_sequence b = hdr_sequence (fr_header f) \<and> block_ticks b = hdr_first_sample_ticks (fr_header f) \<and>
     block_flags b = hdr_flags (fr_header f) \<and> block_payload b = dd_payload dd \<and> block_protocol_version b = 3 \<and>
     block_aux_bank_mode b = st_aux_bank_mode s \<and> block_period_ticks b = 8 \<and> block_item_count b = hdr_item_count (fr_header f) \<and> block_gap b = None"

definition header_fits :: "V3FrameHeader \<Rightarrow> bool" where
  "header_fits h \<longleftrightarrow> 0 < hdr_run_id h \<and> hdr_run_id h < 2 ^ 32 \<and> 0 \<le> hdr_sequence h \<and> hdr_sequence h < 2 ^ 32 \<and>
     0 \<le> hdr_first_sample_ticks h \<and> hdr_first_sample_ticks h mod 8 = 0 \<and> hdr_first_sample_ticks h + hdr_item_count h * 8 \<le> UINT64_MAX \<and>
     0 \<le> hdr_flags h \<and> hdr_flags h AND NOT 15 = 0 \<and> (hdr_flags h AND 8 \<noteq> 0 \<longrightarrow> hdr_flags h AND 2 \<noteq> 0) \<and> 0 < hdr_item_count h"

lemma header_checks_ok:
  assumes "header_fits h"
  shows "block_header_checks (hdr_run_id h) (hdr_sequence h) (hdr_first_sample_ticks h) (FrameFlag (hdr_flags h)) ADLER32 mode profile 3 = Inr (hdr_flags h)"
proof -
  have "0 < hdr_item_count h * 8" using assms by (simp add: header_fits_def)
  then have "hdr_first_sample_ticks h < 2 ^ 64" using assms by (simp add: header_fits_def UINT64_MAX_def)
  then show ?thesis using assms by (simp add: block_header_checks_eq_Inr header_fits_def)
qed

lemma adc_frame_block:
  assumes h: "header_fits (fr_header f)" "hdr_kind (fr_header f) = FK_ADC_DATA" and w: "decode_v3_frame w = Inr f"
    and dd: "decode_data_payload FK_ADC_DATA (fr_payload f) (hdr_item_count (fr_header f)) = Inr dd"
    and p: "dd_payload dd = synthetic_v3_adc_payload first n" "hdr_item_count (fr_header f) = int n" "n \<le> 1012"
    and s: "settings_to_bytes s = Inr sb" "st_stream_mask s AND STREAM_ADC \<noteq> 0" "stream_encoding_ok s 0 dd"
    and src: "(hdr_flags (fr_header f) AND FLAG_SYNTHETIC \<noteq> 0) = (st_source s = SRC_SYNTHETIC)"
  shows "\<exists>b. decode_v3_block f s = Inr b \<and> frame_view s f dd b"
proof -
  let ?h = "fr_header f"
  obtain m where m: "metadata_for_rate_profile RP_ADC_1MHZ_GPIO_1MHZ (st_source s) = Inr m" "md_source m = st_source s"
    "md_pair_rate_hz m = 1000000" "md_pair_period_ticks m = 8" "md_adc1_phase_ticks m = 4" "md_code_min m = 0" "md_code_max m = 4095"
    using v3_metadata by blast
  let ?b = "\<lparr>ab_run_id = hdr_run_id ?h, ab_sequence = hdr_sequence ?h, ab_first_sample_ticks = hdr_first_sample_ticks ?h, ab_payload = dd_payload dd,
    ab_flags = FrameFlag (hdr_flags ?h), ab_checksum_algorithm = ADLER32, ab_metadata = m, ab_aux_bank_mode = st_aux_bank_mode s,
    ab_rate_profile = RP_ADC_1MHZ_GPIO_1MHZ, ab_protocol_version = 3, ab_gap = None, ab_encoded_payload = Some (fr_payload f)\<rparr>"
  have len: "length (dd_payload dd) = 4 * n" "length (dd_payload dd) div 4 = n" using p(1) v3_adc_source(1) by simp_all
  have n: "0 < n" using h(1) p(2) by (simp add: header_fits_def)
  have ib: "dd_item_bytes dd = 4" using dd by (simp add: decode_data_payload_eq_Inr)
  have pay: "validate_v3_block_payload (dd_payload dd) (Some (fr_payload f)) FK_ADC_DATA 4 RP_ADC_1MHZ_GPIO_1MHZ (hdr_first_sample_ticks ?h) ADLER32 = Inr ()"
    using h(1) dd p(2,3) len n ib by (simp add: v3_payload_eq_Inr header_fits_def)
  have codes: "adc_payload_codes_valid (dd_payload dd)" using p(1) v3_adc_source(2) by simp
  have wire_source: "(if hdr_flags ?h AND 1 \<noteq> 0 then SRC_SYNTHETIC else SRC_HARDWARE) = st_source s"
    using src by (cases "st_source s") auto
  have post: "ADCBlock_post_init ?b = Inr (?b\<lparr>ab_flags := hdr_flags ?h\<rparr>)"
    unfolding ADCBlock_post_init_def
    using header_checks_ok [OF h(1)] pay codes m wire_source by (simp add: Let_def)
  have "decode_v3_block f s = Inr (AsADC (?b\<lparr>ab_flags := hdr_flags ?h\<rparr>))"
    using post v3_decode_encode(2) [OF w] w dd s src m(1) h(2)
    by (cases "st_rate_profile s") (simp add: decode_v3_block_def Let_def stream_encoding_ok_def)
  moreover have "frame_view s f dd (AsADC (?b\<lparr>ab_flags := hdr_flags ?h\<rparr>))"
    using h(2) m(4) len p(2) by (simp add: frame_view_def block_item_count_def)
  ultimately show ?thesis by blast
qed

lemma gpio_frame_block:
  assumes h: "header_fits (fr_header f)" "hdr_kind (fr_header f) = FK_GPIO_DATA" and w: "decode_v3_frame w = Inr f"
    and dd: "decode_data_payload FK_GPIO_DATA (fr_payload f) (hdr_item_count (fr_header f)) = Inr dd"
    and p: "dd_payload dd = synthetic_gpio_payload first n (st_aux_bank_mode s) pattern" "hdr_item_count (fr_header f) = int n"
      "n * gpio_item_bytes (st_aux_bank_mode s) \<le> 4048"
    and s: "settings_to_bytes s = Inr sb" "st_stream_mask s AND STREAM_GPIO \<noteq> 0" "stream_encoding_ok s 1 dd"
    and src: "(hdr_flags (fr_header f) AND FLAG_SYNTHETIC \<noteq> 0) = (st_source s = SRC_SYNTHETIC)"
  shows "\<exists>b. decode_v3_block f s = Inr b \<and> frame_view s f dd b"
proof -
  let ?h = "fr_header f" and ?w = "gpio_item_bytes (st_aux_bank_mode s)"
  let ?b = "\<lparr>gb_run_id = hdr_run_id ?h, gb_sequence = hdr_sequence ?h, gb_first_sample_ticks = hdr_first_sample_ticks ?h, gb_payload = dd_payload dd,
    gb_flags = FrameFlag (hdr_flags ?h), gb_checksum_algorithm = ADLER32, gb_aux_bank_mode = st_aux_bank_mode s,
    gb_rate_profile = RP_ADC_1MHZ_GPIO_1MHZ, gb_protocol_version = 3, gb_encoded_payload = Some (fr_payload f)\<rparr>"
  have w0: "0 < ?w" "ly_item_bytes (layout_from_mode (st_aux_bank_mode s)) = ?w" by (cases "st_aux_bank_mode s"; simp add: gpio_item_bytes_def)+
  have len: "length (dd_payload dd) = n * ?w" "length (dd_payload dd) div ?w = n" using p(1) gpio_source_length w0(1) by simp_all
  have n: "0 < n" using h(1) p(2) by (simp add: header_fits_def)
  have ib: "dd_item_bytes dd = int ?w"
    using s(3) settings_shape(1) [OF s(1)] by (auto simp: stream_encoding_ok_def gpio_item_bytes_def)
  have pay: "validate_v3_block_payload (dd_payload dd) (Some (fr_payload f)) FK_GPIO_DATA ?w RP_ADC_1MHZ_GPIO_1MHZ (hdr_first_sample_ticks ?h) ADLER32 = Inr ()"
    using h(1) dd p(2,3) len n ib w0(1) by (simp add: v3_payload_eq_Inr header_fits_def)
  have post: "GPIOBlock_post_init ?b = Inr (?b\<lparr>gb_flags := hdr_flags ?h\<rparr>)"
    unfolding GPIOBlock_post_init_def using header_checks_ok [OF h(1)] pay w0(2) by (simp add: Let_def)
  have "decode_v3_block f s = Inr (AsGPIO (?b\<lparr>gb_flags := hdr_flags ?h\<rparr>))"
    using post v3_decode_encode(2) [OF w] w dd s src h(2)
    by (cases "st_rate_profile s") (simp add: decode_v3_block_def Let_def stream_encoding_ok_def)
  moreover have "frame_view s f dd (AsGPIO (?b\<lparr>gb_flags := hdr_flags ?h\<rparr>))"
    using h(2) len p(2) w0(2) by (simp add: frame_view_def block_item_count_def)
  ultimately show ?thesis by blast
qed

lemma stream_mask_enabled:
  assumes "i \<in> set (stream_list s)"
  shows "st_stream_mask s AND (if i = 0 then STREAM_ADC else STREAM_GPIO) \<noteq> 0"
  using assms by (auto simp: stream_list_def split: if_splits)

lemma next_stream_in: "sim_inv d \<Longrightarrow> next_stream d \<in> set (stream_list (sim_settings d))"
  using next_stream_less(2) [of d] by (simp add: next_stream_def)

text \<open>The frame the device produces next, as the host sees it.\<close>

definition next_block :: "sim_state \<Rightarrow> data_block \<Rightarrow> bool" where
  "next_block d b \<longleftrightarrow> block_kind b = stream_kind (next_stream d) \<and> block_run_id b = sim_run_id d \<and>
     block_sequence b = int (sim_frames d ! next_stream d) mod 2 ^ 32 \<and> block_ticks b = int (sim_items d ! next_stream d) * 8 \<and>
     block_flags b = data_flags d (next_stream d) \<and> block_item_count b = int (stream_count (sim_settings d) (next_stream d)) \<and>
     block_payload b = source_bytes (sim_settings d) (next_stream d) (sim_items d ! next_stream d) (sim_frames d ! next_stream d)
       (stream_count (sim_settings d) (next_stream d)) \<and>
     block_protocol_version b = 3 \<and> block_aux_bank_mode b = st_aux_bank_mode (sim_settings d) \<and> block_period_ticks b = 8"

lemma device_block:
  assumes inv: "sim_inv d" and run: "sim_device_state d = DS_RUNNING" "\<not> sim_pending d"
    and room: "(sim_items d ! next_stream d + stream_count (sim_settings d) (next_stream d)) * 8 \<le> U64_MAX"
  obtains wire f b where "next_data_frame d = (after_frame d, Inr (Some wire))" "decode_v3_frame wire = Inr f"
    "decode_v3_block f (sim_settings d) = Inr b" "next_block d b"
proof -
  let ?i = "next_stream d" and ?s = "sim_settings d"
  obtain wire f dd where f: "next_data_frame d = (after_frame d, Inr (Some wire))" "decode_v3_frame wire = Inr f"
    "hdr_kind (fr_header f) = stream_kind ?i" "hdr_run_id (fr_header f) = sim_run_id d"
    "hdr_sequence (fr_header f) = int (sim_frames d ! ?i) mod 2 ^ 32" "hdr_first_sample_ticks (fr_header f) = int (sim_items d ! ?i) * 8"
    "hdr_item_count (fr_header f) = int (stream_count ?s ?i)" "hdr_flags (fr_header f) = data_flags d ?i"
    "decode_data_payload (hdr_kind (fr_header f)) (fr_payload f) (hdr_item_count (fr_header f)) = Inr dd"
    "dd_payload dd = source_bytes ?s ?i (sim_items d ! ?i) (sim_frames d ! ?i) (stream_count ?s ?i)" "stream_encoding_ok ?s ?i dd"
    by (rule next_data_frame_ok [OF inv run room])
  obtain sb where sb: "settings_to_bytes ?s = Inr sb" using sim_inv_settings [OF inv] by blast
  have "0 < stream_count ?s ?i" by (simp add: stream_count_def)
  moreover have "int (sim_items d ! ?i) * 8 + int (stream_count ?s ?i) * 8 \<le> UINT64_MAX"
  proof -
    have "int ((sim_items d ! ?i + stream_count ?s ?i) * 8) \<le> int U64_MAX" using room by (simp only: of_nat_le_iff)
    then show ?thesis by (simp add: UINT64_MAX_def algebra_simps)
  qed
  moreover have "0 < sim_run_id d" "sim_run_id d < 2 ^ 32" using inv run(1) by (auto simp: sim_inv_def lifecycle_inv_def)
  ultimately have fits: "header_fits (fr_header f)" using f(4-8) data_flags_valid [of d ?i] by (simp add: header_fits_def)
  have src: "(hdr_flags (fr_header f) AND FLAG_SYNTHETIC \<noteq> 0) = (st_source ?s = SRC_SYNTHETIC)" using f(8) by (simp add: data_flags_def)
  note en = stream_mask_enabled [OF next_stream_in [OF inv]]
  have "\<exists>b. decode_v3_block f ?s = Inr b \<and> frame_view ?s f dd b"
  proof (cases "?i = 0")
    case True
    then show ?thesis using adc_frame_block [OF fits _ f(2), of dd] f sb en src
      by (simp add: stream_kind_def source_bytes_def stream_count_def)
  next
    case False
    then have i: "?i = 1" using next_stream_less(1) [OF inv] by simp
    have "stream_count ?s ?i * gpio_item_bytes (st_aux_bank_mode ?s) \<le> 4048"
      using settings_shape(1) [OF sb] i by (auto simp: stream_count_def gpio_item_bytes_def)
    then show ?thesis using gpio_frame_block [OF fits _ f(2), of dd] f sb en src i by (simp add: stream_kind_def source_bytes_def)
  qed
  then obtain b where b: "decode_v3_block f ?s = Inr b" "frame_view ?s f dd b" by blast
  have "next_block d b" using b(2) f by (simp add: frame_view_def next_block_def)
  with that f(1,2) b(1) show ?thesis by blast
qed

section \<open>Lock step\<close>

text \<open>
  A producer and a consumer run in lock step when a relation between their states survives each
  item; then the consumer accepts whatever the producer emits.
\<close>

fun emitted :: "('d \<Rightarrow> ('d \<times> 'x) option) \<Rightarrow> nat \<Rightarrow> 'd \<Rightarrow> 'd \<times> 'x list" where
  "emitted produce 0 d = (d, [])"
| "emitted produce (Suc n) d = (case produce d of None \<Rightarrow> (d, []) | Some (d1, x) \<Rightarrow> apsnd (Cons x) (emitted produce n d1))"

fun accept_all :: "('v \<Rightarrow> 'x \<Rightarrow> 'e + 'v) \<Rightarrow> 'v \<Rightarrow> 'x list \<Rightarrow> 'e + 'v" where
  "accept_all accept v [] = Inr v"
| "accept_all accept v (x # xs) = bind_res (accept v x) (\<lambda>v1. accept_all accept v1 xs)"

locale lock_step =
  fixes produce :: "'d \<Rightarrow> ('d \<times> 'x) option"
    and view :: "'x \<Rightarrow> 'y \<Rightarrow> bool"
    and accept :: "'v \<Rightarrow> 'y \<Rightarrow> 'e + 'v"
    and rel :: "'d \<Rightarrow> 'v \<Rightarrow> bool"
  assumes step: "rel d v \<Longrightarrow> produce d = Some (d1, x) \<Longrightarrow> \<exists>y v1. view x y \<and> accept v y = Inr v1 \<and> rel d1 v1"
begin

lemma run:
  assumes "rel d v" "emitted produce n d = (d1, xs)"
  shows "\<exists>ys v1. list_all2 view xs ys \<and> accept_all accept v ys = Inr v1 \<and> rel d1 v1"
  using assms
proof (induction n arbitrary: d v xs)
  case (Suc n)
  show ?case
  proof (cases "produce d")
    case None
    with Suc.prems show ?thesis by (intro exI [of _ "[]"]) auto
  next
    case (Some p)
    then obtain d' x where p: "produce d = Some (d', x)" by (cases p) auto
    then obtain rest where xs: "xs = x # rest" "emitted produce n d' = (d1, rest)" using Suc.prems(2) by (auto simp: apsnd_def map_prod_def split: prod.splits)
    obtain y v' where y: "view x y" "accept v y = Inr v'" "rel d' v'" using step [OF Suc.prems(1) p] by blast
    obtain ys v1 where "list_all2 view rest ys" "accept_all accept v' ys = Inr v1" "rel d1 v1" using Suc.IH [OF y(3) xs(2)] by blast
    with xs y show ?thesis by (intro exI [of _ "y # ys"]) simp
  qed
qed simp

end

section \<open>The device feeds the validator\<close>

text \<open>A caller that takes one whole frame at a time.\<close>

definition emit_frame :: "sim_state \<Rightarrow> (sim_state \<times> bytes) option" where
  "emit_frame d = (case next_data_frame d of (d1, Inr (Some wire)) \<Rightarrow> Some (d1, wire) | _ \<Rightarrow> None)"

definition wire_block :: "V3Settings \<Rightarrow> bytes \<Rightarrow> data_block \<Rightarrow> bool" where
  "wire_block s wire b \<longleftrightarrow> (\<exists>f. decode_v3_frame wire = Inr f \<and> decode_v3_block f s = Inr b)"

text \<open>A run that has lost nothing, and a validator that expects exactly what comes next.\<close>

definition lossless :: "sim_state \<Rightarrow> bool" where
  "lossless d \<longleftrightarrow> sim_device_state d = DS_RUNNING \<and> \<not> sim_pending d \<and> st_source (sim_settings d) = SRC_SYNTHETIC \<and>
     sim_gap_before d = [False, False] \<and> sim_frames_dropped d = [0, 0] \<and> sim_items_dropped d = [0, 0]"

definition in_step :: "V3Settings \<Rightarrow> sim_state \<Rightarrow> validator \<Rightarrow> bool" where
  "in_step s d v \<longleftrightarrow> sim_inv d \<and> sim_settings d = s \<and> lossless d \<and> va_run_id v = sim_run_id d \<and>
     (\<forall>i \<in> set (stream_list s). va_expected_sequence v (stream_kind i) = Some (int (sim_frames d ! i) mod 2 ^ 32) \<and>
        va_expected_ticks v (stream_kind i) = Some (int (sim_items d ! i) * 8)) \<and>
     va_adc_frames_validated v = int (sim_frames d ! 0) \<and> va_gpio_frames_validated v = int (sim_frames d ! 1)"

lemma source_block_valid:
  assumes b: "next_block d b" and i: "next_stream d < 2" and src: "st_source (sim_settings d) = SRC_SYNTHETIC"
  shows "validate_synthetic_block b COUNTER = Inr ()"
proof -
  have fl: "block_flags b AND 1 \<noteq> 0" using b src by (simp add: next_block_def data_flags_def)
  have ix: "nat (block_first_index b) = sim_items d ! next_stream d" "nat (block_item_count b) = stream_count (sim_settings d) (next_stream d)"
    using b by (simp_all add: next_block_def block_first_index_def)
  have "int (sim_frames d ! next_stream d) mod 2 ^ 32 mod 2 = int (sim_frames d ! next_stream d) mod 2" by (simp add: mod_mod_cancel)
  then have par: "(block_sequence b mod 2 = 0) = (sim_frames d ! next_stream d mod 2 = 0)"
    using b by (simp add: next_block_def) presburger
  show ?thesis using b fl ix par i
    by (cases b) (auto simp: validate_synthetic_block_def next_block_def Let_def source_bytes_def stream_kind_def split: if_splits)
qed

lemma stream_kind_inj: "i < 2 \<Longrightarrow> j < 2 \<Longrightarrow> stream_kind i = stream_kind j \<longleftrightarrow> i = j"
  by (auto simp: stream_kind_def less_2_cases_iff)

lemma after_frame_fields:
  "sim_settings (after_frame d) = sim_settings d" "sim_run_id (after_frame d) = sim_run_id d"
  "sim_frames (after_frame d) = (sim_frames d)[next_stream d := sim_frames d ! next_stream d + 1]"
  "sim_items (after_frame d) = (sim_items d)[next_stream d := sim_items d ! next_stream d + stream_count (sim_settings d) (next_stream d)]"
  by (simp_all add: after_frame_def Let_def)

lemma lossless_after_frame: "lossless d \<Longrightarrow> next_stream d < 2 \<Longrightarrow> lossless (after_frame d)"
  by (auto simp: lossless_def after_frame_def Let_def less_2_cases_iff)

lemma next_block_end:
  assumes b: "next_block d b" and room: "(sim_items d ! next_stream d + stream_count (sim_settings d) (next_stream d)) * 8 \<le> U64_MAX"
  shows "block_end_tick_exclusive b = int (sim_items d ! next_stream d + stream_count (sim_settings d) (next_stream d)) * 8"
    "(block_sequence b + 1) AND UINT32_MAX = int (sim_frames d ! next_stream d + 1) mod 2 ^ 32"
proof -
  have "int ((sim_items d ! next_stream d + stream_count (sim_settings d) (next_stream d)) * 8) \<le> int U64_MAX" using room by (simp only: of_nat_le_iff)
  then show "block_end_tick_exclusive b = int (sim_items d ! next_stream d + stream_count (sim_settings d) (next_stream d)) * 8"
    using b by (simp add: block_end_tick_exclusive_def next_block_def and_UINT_MAX algebra_simps)
  show "(block_sequence b + 1) AND UINT32_MAX = int (sim_frames d ! next_stream d + 1) mod 2 ^ 32"
    using b by (simp add: next_block_def and_UINT_MAX mod_simps algebra_simps)
qed

lemma validate_next_block:
  assumes r: "in_step s d v" and b: "next_block d b" and room: "(sim_items d ! next_stream d + stream_count s (next_stream d)) * 8 \<le> U64_MAX"
  shows "\<exists>v1. validate_block v b = Inr v1 \<and> in_step s (after_frame d) v1"
proof -
  let ?i = "next_stream d"
  have inv: "sim_inv d" "sim_settings d = s" "lossless d" and run: "va_run_id v = sim_run_id d" using r by (simp_all add: in_step_def)
  have i: "?i < 2" "?i \<in> set (stream_list s)" using next_stream_less(1) [OF inv(1)] next_stream_in [OF inv(1)] inv(2) by simp_all
  have ll: "length (sim_frames d) = 2" "length (sim_items d) = 2" using inv(1) by (simp_all add: sim_inv_def counters_inv_def)
  have ex: "va_expected_sequence v (block_kind b) = Some (block_sequence b)" "va_expected_ticks v (block_kind b) = Some (block_ticks b)"
    using r i(2) b by (simp_all add: in_step_def next_block_def)
  have fl: "block_flags b AND (FLAG_GAP_BEFORE OR FLAG_OVERRUN_BEFORE) = 0"
    using b inv(3) i(1) by (auto simp: next_block_def data_flags_def lossless_def less_2_cases_iff)
  have syn: "validate_synthetic_block b COUNTER = Inr ()" using source_block_valid [OF b i(1)] inv(3) by (simp add: lossless_def)
  note e = next_block_end [OF b, unfolded inv(2), OF room]
  let ?v1 = "v\<lparr>va_expected_sequence := (va_expected_sequence v)(block_kind b \<mapsto> int (sim_frames d ! ?i + 1) mod 2 ^ 32),
    va_expected_ticks := (va_expected_ticks v)(block_kind b \<mapsto> int (sim_items d ! ?i + stream_count s ?i) * 8)\<rparr>"
  let ?v2 = "case b of AsADC _ \<Rightarrow> ?v1\<lparr>va_adc_frames_validated := va_adc_frames_validated v + 1\<rparr>
    | AsGPIO _ \<Rightarrow> ?v1\<lparr>va_gpio_frames_validated := va_gpio_frames_validated v + 1\<rparr>"
  have "validate_block v b = Inr ?v2"
    unfolding validate_block_def Let_def using ex fl syn e run b by (cases b) (simp_all add: next_block_def)
  moreover have "in_step s (after_frame d) ?v2"
  proof -
    have "sim_inv (after_frame d)" using after_frame_inv(1) [OF inv(1)] inv(2,3) room by (simp add: lossless_def)
    moreover have "lossless (after_frame d)" by (rule lossless_after_frame [OF inv(3) i(1)])
    moreover have "set (stream_list s) \<subseteq> {0, 1}" by (auto simp: stream_list_def split: if_splits)
    moreover have "block_kind b = stream_kind ?i" using b by (simp add: next_block_def)
    ultimately show ?thesis using r inv(2) i ll
      by (cases b) (auto simp: in_step_def after_frame_fields stream_kind_def less_2_cases_iff split: if_splits)
  qed
  ultimately show ?thesis by blast
qed

lemma emit_frame_step:
  assumes r: "in_step s d v" and e: "emit_frame d = Some (d1, wire)"
  shows "\<exists>b v1. wire_block s wire b \<and> validate_block v b = Inr v1 \<and> in_step s d1 v1"
proof -
  have inv: "sim_inv d" "sim_settings d = s" "sim_device_state d = DS_RUNNING" "\<not> sim_pending d" using r by (simp_all add: in_step_def lossless_def)
  from next_data_frame_cases [OF inv(1)] e
  have room: "(sim_items d ! next_stream d + stream_count s (next_stream d)) * 8 \<le> U64_MAX"
    by cases (simp_all add: emit_frame_def inv)
  obtain w f b where w: "next_data_frame d = (after_frame d, Inr (Some w))" "decode_v3_frame w = Inr f" "decode_v3_block f s = Inr b" "next_block d b"
    using device_block [OF inv(1,3,4)] room inv(2) by metis
  then have "d1 = after_frame d" "wire = w" using e by (simp_all add: emit_frame_def)
  with validate_next_block [OF r w(4) room] w(2,3) show ?thesis unfolding wire_block_def by blast
qed

interpretation device_validator: lock_step emit_frame "wire_block s" validate_block "in_step s" for s
  by unfold_locales (rule emit_frame_step)

text \<open>The state right after START of a synthetic run.\<close>

definition fresh_run :: "sim_state \<Rightarrow> bool" where
  "fresh_run d \<longleftrightarrow> lossless d \<and> sim_frames d = [0, 0] \<and> sim_items d = [0, 0]"

lemma validator_in_step:
  assumes "sim_inv d" "fresh_run d" "SyntheticStreamValidator (sim_run_id d) (st_stream_mask (sim_settings d)) rb pb = Inr v"
  shows "in_step (sim_settings d) d v"
proof -
  obtain sb where "settings_to_bytes (sim_settings d) = Inr sb" using sim_inv_settings [OF assms(1)] by blast
  then have "1 \<le> st_stream_mask (sim_settings d)" by (rule settings_shape)
  then have m: "int_flag 3 (st_stream_mask (sim_settings d)) = st_stream_mask (sim_settings d)" by (simp add: int_flag_def)
  have "va_expected_sequence v (stream_kind i) = Some 0 \<and> va_expected_ticks v (stream_kind i) = Some 0" if "i \<in> set (stream_list (sim_settings d))" for i
    using assms(3) stream_mask_enabled [OF that] that
    by (auto simp: SyntheticStreamValidator_def Let_def res_simps m stream_kind_def stream_list_def split: if_splits)
  moreover have "va_run_id v = sim_run_id d" "va_adc_frames_validated v = 0" "va_gpio_frames_validated v = 0"
    using assms(3) by (auto simp: SyntheticStreamValidator_def Let_def res_simps)
  moreover have "set (stream_list (sim_settings d)) \<subseteq> {0, 1}" by (auto simp: stream_list_def split: if_splits)
  ultimately show ?thesis using assms(1,2) by (auto simp: in_step_def fresh_run_def)
qed

lemma emitted_length:
  "in_step s d v \<Longrightarrow> \<forall>i < 2. (sim_items d ! i + n * 4048) * 8 \<le> U64_MAX \<Longrightarrow> length (snd (emitted emit_frame n d)) = n"
proof (induction n arbitrary: d v)
  case (Suc n)
  have inv: "sim_inv d" "sim_settings d = s" "sim_device_state d = DS_RUNNING" "\<not> sim_pending d"
    using Suc.prems(1) by (simp_all add: in_step_def lossless_def)
  have i: "next_stream d < 2" by (rule next_stream_less(1) [OF inv(1)])
  have c: "stream_count s (next_stream d) \<le> 4048" by (simp add: stream_count_def)
  have room: "(sim_items d ! next_stream d + stream_count (sim_settings d) (next_stream d)) * 8 \<le> U64_MAX"
    using Suc.prems(2) i c inv(2) by fastforce
  obtain w where w: "next_data_frame d = (after_frame d, Inr (Some w))" using device_block [OF inv(1,3,4) room] by metis
  then have e: "emit_frame d = Some (after_frame d, w)" by (simp add: emit_frame_def)
  obtain v1 where v1: "in_step s (after_frame d) v1" using emit_frame_step [OF Suc.prems(1) e] by blast
  have "length (sim_items d) = 2" using inv(1) by (simp add: sim_inv_def counters_inv_def)
  then have "sim_items (after_frame d) ! j + n * 4048 \<le> sim_items d ! j + Suc n * 4048" if "j < 2" for j
    using that i c inv(2) by (cases "j = next_stream d") (simp_all add: after_frame_fields)
  then have "\<forall>j < 2. (sim_items (after_frame d) ! j + n * 4048) * 8 \<le> U64_MAX"
    using Suc.prems(2) by (meson le_trans mult_le_mono1)
  with Suc.IH [OF v1] e show ?case by (simp add: split_beta)
qed simp

lemma wire_blocks_decode:
  "list_all2 (wire_block s) ws bs \<Longrightarrow> \<exists>fs. list_all2 (\<lambda>w f. decode_v3_frame w = Inr f) ws fs \<and> map_res (\<lambda>f. decode_v3_block f s) fs = Inr bs"
proof (induction rule: list_all2_induct)
  case (Cons w ws b bs)
  then obtain f fs where "decode_v3_frame w = Inr f" "decode_v3_block f s = Inr b" "list_all2 (\<lambda>w f. decode_v3_frame w = Inr f) ws fs"
    "map_res (\<lambda>f. decode_v3_block f s) fs = Inr bs" by (auto simp: wire_block_def)
  then show ?case by (intro exI [of _ "f # fs"]) simp
qed simp

lemma in_step_status:
  assumes "in_step s d v"
  shows "snd (validate_status v (StatusV3 (sim_status d)) (sim_run_id d) False) = Inr ()"
  using assms by (simp add: in_step_def lossless_def validate_status_def validate_v3_status_def sim_status_def)

text \<open>Such a state is reached by a CONFIGURE and a START of a new device.\<close>

lemma fresh_run_reachable: "\<exists>d. sim_reachable d \<and> fresh_run d"
proof -
  obtain d where d: "SimulatedV3Device ''thingdaq-simulator-v3'' 2048 8 = Inr d" using default_device by blast
  note i = device_initial [OF d] and fr = device_fresh [OF d]
  obtain s w where s: "settings_to_bytes s = Inr synthetic_row" "st_source s = SRC_SYNTHETIC" "st_cpu_profile s = CPU_600MHZ"
    and w: "command_to_bytes \<lparr>cm_kind = CK_CONFIGURE, cm_request_id = 2, cm_settings = Some s\<rparr> = Inr w" "length w = 68"
    using synthetic_row_settings by blast
  let ?c = "\<lparr>cm_kind = CK_CONFIGURE, cm_request_id = 2, cm_settings = Some s\<rparr>"
  have ok: "command_refusal (d\<lparr>sim_parser := p\<rparr>) ?c = EC_OK" for p
    using device_supports [OF d s(1,3)] i(2) by (simp add: command_refusal_def)
  obtain d1 reply p where d1: "receive d w = Some (d1, Inr [reply])" "sim_inv d1" "d1 = after_command (d\<lparr>sim_parser := p\<rparr>) ?c"
      "pending_header (sim_parser d1) = None" "unread (sim_parser d1) = []"
    using exchange [OF i(1) w(1) _ fr(1,2)] fr(3,4) i(4) w(2) by fastforce
  note f1 = after_command_fields [of "d\<lparr>sim_parser := p\<rparr>" ?c, folded d1(3)]
  have r1: "sim_reachable d1" by (rule sim_reachable.step [OF sim_reachable.start [OF d] sim_step.request [OF d1(1)]])
  obtain v where v: "command_to_bytes start_command = Inr v" "length v = 48" using start_command_wire by blast
  have rec: "3 \<notin> set (sim_recent d1)" using fr(3) by (simp add: f1 remember_def)
  obtain d2 reply' p' where d2: "receive d1 v = Some (d2, Inr [reply'])" "d2 = after_command (d1\<lparr>sim_parser := p'\<rparr>) start_command"
    using exchange [OF d1(2) v(1) _ d1(4,5)] rec i(4) fr(4) v(2) by (fastforce simp: f1)
  have "fresh_run d2" using i(2) fr(5) ok s(2)
    by (simp add: d2(2) fresh_run_def lossless_def after_command_def command_state_def command_refusal_def f1 reset_epoch_def Let_def)
  then show ?thesis using sim_reachable.step [OF r1 sim_step.request [OF d2(1)]] by blast
qed

section \<open>What the validator accepts\<close>

text \<open>
  The reference: a block continues the blocks \<open>pre\<close> before it when it carries the next sequence number and
  tick of its stream and the samples of the deterministic source from there.
\<close>

definition stream_of :: "FrameKind \<Rightarrow> data_block list \<Rightarrow> data_block list" where
  "stream_of k bs = filter (\<lambda>b. block_kind b = k) bs"

definition items_of :: "FrameKind \<Rightarrow> data_block list \<Rightarrow> nat" where
  "items_of k bs = (\<Sum>b\<leftarrow>stream_of k bs. nat (block_item_count b))"

definition selected_kind :: "int \<Rightarrow> FrameKind \<Rightarrow> bool" where
  "selected_kind streams k \<longleftrightarrow> k = FK_ADC_DATA \<and> streams AND STREAM_ADC \<noteq> 0 \<or> k = FK_GPIO_DATA \<and> streams AND STREAM_GPIO \<noteq> 0"

definition source_from :: "data_block \<Rightarrow> nat \<Rightarrow> nat \<Rightarrow> bytes" where
  "source_from b frames first = (case b of AsADC _ \<Rightarrow> synthetic_v3_adc_payload first (nat (block_item_count b))
     | AsGPIO _ \<Rightarrow> synthetic_gpio_payload first (nat (block_item_count b)) (block_aux_bank_mode b) (if even frames then ALL_ZERO else HIGH_TRANSITION))"

definition continues :: "int \<Rightarrow> int \<Rightarrow> data_block list \<Rightarrow> data_block \<Rightarrow> bool" where
  "continues run streams pre b \<longleftrightarrow> (let k = block_kind b; frames = length (stream_of k pre); first = items_of k pre in
     selected_kind streams k \<and> block_run_id b = run \<and> block_flags b AND FLAG_SYNTHETIC \<noteq> 0 \<and>
     block_flags b AND (FLAG_GAP_BEFORE OR FLAG_OVERRUN_BEFORE) = 0 \<and> block_sequence b = int frames mod 2 ^ 32 \<and>
     block_ticks b = 8 * int first \<and> block_payload b = source_from b frames first)"

definition tracks :: "int \<Rightarrow> int \<Rightarrow> data_block list \<Rightarrow> validator \<Rightarrow> bool" where
  "tracks run streams pre v \<longleftrightarrow> va_run_id v = run \<and>
     va_expected_sequence v = (\<lambda>k. if selected_kind streams k then Some (int (length (stream_of k pre)) mod 2 ^ 32) else None) \<and>
     va_expected_ticks v = (\<lambda>k. if selected_kind streams k then Some (8 * int (items_of k pre)) else None) \<and>
     va_adc_frames_validated v = int (length (stream_of FK_ADC_DATA pre)) \<and> va_gpio_frames_validated v = int (length (stream_of FK_GPIO_DATA pre))"

lemma stream_of_snoc [simp]:
  "stream_of k (pre @ [b]) = (if block_kind b = k then stream_of k pre @ [b] else stream_of k pre)"
  "items_of k (pre @ [b]) = (if block_kind b = k then items_of k pre + nat (block_item_count b) else items_of k pre)"
  "stream_of k [] = []" "items_of k [] = 0"
  by (simp_all add: stream_of_def items_of_def)

lemma valid_v3_block:
  assumes "block_valid b" "block_protocol_version b = 3"
  shows "block_period_ticks b = 8" "0 < block_item_count b" "block_ticks b + block_item_count b * 8 \<le> UINT64_MAX" "0 \<le> block_ticks b"
proof -
  note v = block_valid_facts [OF assms(1), unfolded block_facts_def] and r = block_validD [OF assms(1)]
  show "0 < block_item_count b" "0 \<le> block_ticks b" by (rule r)+
  show "block_period_ticks b = 8" using v r(11) [OF assms(2)] by (cases b) auto
  show "block_ticks b + block_item_count b * 8 \<le> UINT64_MAX"
    using v assms(2) by (cases b) (auto simp: v3_payload_eq_Inr block_item_count_def)
qed

lemma validate_block_exact:
  assumes t: "tracks run streams pre v" and b: "block_valid b" "block_protocol_version b = 3"
  shows "(\<exists>v1. validate_block v b = Inr v1) \<longleftrightarrow> continues run streams pre b"
    "validate_block v b = Inr v1 \<Longrightarrow> tracks run streams (pre @ [b]) v1"
proof -
  note v = valid_v3_block [OF b]
  let ?k = "block_kind b"
  have ix: "nat (block_first_index b) = items_of ?k pre" if "block_ticks b = 8 * int (items_of ?k pre)"
    using that v(1) by (simp add: block_first_index_def)
  have par: "(block_sequence b mod 2 = 0) = even (length (stream_of ?k pre))" if "block_sequence b = int (length (stream_of ?k pre)) mod 2 ^ 32"
    using that by (simp add: mod_mod_cancel) presburger
  have syn: "validate_synthetic_block b COUNTER = Inr () \<longleftrightarrow>
      block_flags b AND FLAG_SYNTHETIC \<noteq> 0 \<and> block_payload b = source_from b (length (stream_of ?k pre)) (items_of ?k pre)"
    if "block_ticks b = 8 * int (items_of ?k pre)" "block_sequence b = int (length (stream_of ?k pre)) mod 2 ^ 32"
    using ix [OF that(1)] par [OF that(2)] b(2)
    by (cases b) (simp_all add: validate_synthetic_block_def source_from_def require_eq_Inr)
  have e: "validate_block v b = Inr v1 \<longleftrightarrow> continues run streams pre b \<and>
     v1 = (let u = v\<lparr>va_expected_sequence := (va_expected_sequence v)(?k \<mapsto> (block_sequence b + 1) AND UINT32_MAX),
                va_expected_ticks := (va_expected_ticks v)(?k \<mapsto> block_end_tick_exclusive b)\<rparr> in
       (case b of AsADC _ \<Rightarrow> u\<lparr>va_adc_frames_validated := va_adc_frames_validated u + 1\<rparr>
         | AsGPIO _ \<Rightarrow> u\<lparr>va_gpio_frames_validated := va_gpio_frames_validated u + 1\<rparr>))" for v1
    unfolding validate_block_def Let_def bind_res_eq_Inr require_eq_Inr map_sum_Inr_right continues_def
    using t syn by (auto simp: tracks_def res_of_option_def split: if_splits)
  show "(\<exists>v1. validate_block v b = Inr v1) \<longleftrightarrow> continues run streams pre b" using e by blast
  assume "validate_block v b = Inr v1"
  then have c: "continues run streams pre b" and v1: "v1 = (let u = v\<lparr>va_expected_sequence := (va_expected_sequence v)(?k \<mapsto> (block_sequence b + 1) AND UINT32_MAX),
                va_expected_ticks := (va_expected_ticks v)(?k \<mapsto> block_end_tick_exclusive b)\<rparr> in
       (case b of AsADC _ \<Rightarrow> u\<lparr>va_adc_frames_validated := va_adc_frames_validated u + 1\<rparr>
         | AsGPIO _ \<Rightarrow> u\<lparr>va_gpio_frames_validated := va_gpio_frames_validated u + 1\<rparr>))" using e by simp_all
  have sq: "(block_sequence b + 1) AND UINT32_MAX = (1 + int (length (stream_of ?k pre))) mod 2 ^ 32"
    using c by (simp add: continues_def Let_def and_UINT_MAX mod_simps add.commute)
  have "block_ticks b + block_item_count b * 8 < 2 ^ 64" using v(3) by (simp add: UINT64_MAX_def)
  then have tk: "block_end_tick_exclusive b = 8 * int (items_of ?k pre + nat (block_item_count b))"
    using c v(1,2,4) by (simp add: continues_def Let_def block_end_tick_exclusive_def and_UINT_MAX)
  have "selected_kind streams ?k" using c by (simp add: continues_def Let_def)
  then show "tracks run streams (pre @ [b]) v1"
    using t unfolding v1 sq tk by (cases b) (auto simp: tracks_def Let_def fun_eq_iff add.commute)
qed

lemma accept_all_snoc: "accept_all f v (xs @ [x]) = bind_res (accept_all f v xs) (\<lambda>u. f u x)"
proof (induction xs arbitrary: v)
  case Nil
  show ?case by (cases "f v x") simp_all
next
  case (Cons y ys)
  then show ?case by (cases "f v y") simp_all
qed

lemma fresh_validator_tracks:
  "SyntheticStreamValidator run streams rb pb = Inr v \<Longrightarrow> tracks run (int_flag 3 streams) [] v"
  by (auto simp: SyntheticStreamValidator_def Let_def res_simps tracks_def selected_kind_def)

lemma accept_all_exact:
  assumes "SyntheticStreamValidator run streams rb pb = Inr v" "\<forall>b \<in> set bs. block_valid b \<and> block_protocol_version b = 3"
  shows "((\<exists>v1. accept_all validate_block v bs = Inr v1) \<longleftrightarrow> (\<forall>i < length bs. continues run (int_flag 3 streams) (take i bs) (bs ! i))) \<and>
    (\<forall>v1. accept_all validate_block v bs = Inr v1 \<longrightarrow> tracks run (int_flag 3 streams) bs v1)"
  using assms(2)
proof (induction bs rule: rev_induct)
  case (snoc b bs)
  have b: "block_valid b" "block_protocol_version b = 3" using snoc.prems by simp_all
  have all: "(\<forall>i < length (bs @ [b]). continues r m (take i (bs @ [b])) ((bs @ [b]) ! i)) \<longleftrightarrow>
      (\<forall>i < length bs. continues r m (take i bs) (bs ! i)) \<and> continues r m bs b" for r m
    by (auto simp: less_Suc_eq nth_append)
  show ?case
  proof (cases "accept_all validate_block v bs")
    case (Inl e)
    then show ?thesis using snoc unfolding accept_all_snoc all by simp
  next
    case (Inr u)
    then have "tracks run (int_flag 3 streams) bs u" using snoc by simp
    note e = validate_block_exact [OF this b]
    show ?thesis using snoc Inr e unfolding accept_all_snoc all by simp
  qed
qed (simp add: fresh_validator_tracks [OF assms(1)])

lemma v3_adc_payload_append: "synthetic_v3_adc_payload s (m + n) = synthetic_v3_adc_payload s m @ synthetic_v3_adc_payload (s + m) n"
proof -
  have "[0..<m + n] = [0..<m] @ map (\<lambda>i. m + i) [0..<n]"
    using upt_add_eq_append [of 0 m n] map_add_upt [of m n] by (simp add: add.commute)
  then show ?thesis by (simp add: v3_adc_payload_pairs comp_def add.assoc)
qed

lemma adc_samples:
  "\<forall>i < length bs. continues run streams (take i bs) (bs ! i) \<Longrightarrow>
     concat (map block_payload (stream_of FK_ADC_DATA bs)) = synthetic_v3_adc_payload 0 (items_of FK_ADC_DATA bs)"
proof (induction bs rule: rev_induct)
  case Nil
  show ?case by (simp add: v3_adc_payload_pairs)
next
  case (snoc b bs)
  have "continues run streams (take i bs) (bs ! i)" if "i < length bs" for i using snoc.prems that by (fastforce simp: nth_append dest: spec [of _ i])
  moreover have "continues run streams bs b" using snoc.prems [THEN spec, of "length bs"] by simp
  ultimately show ?case using snoc.IH
    by (cases b) (auto simp: v3_adc_payload_append continues_def Let_def source_from_def)
qed

section \<open>Decoded blocks are valid\<close>

text \<open>A constructed block passes its own checks again.\<close>

lemma int_flag_nonneg: "0 \<le> all_bits \<Longrightarrow> 0 \<le> int_flag all_bits v"
proof -
  have "- v \<le> 2 ^ floorlog 2 (nat (- v))" if "v < 0"
  proof -
    have "nat (- v) < 2 ^ floorlog 2 (nat (- v))" using floorlog_bounds [of "nat (- v)" 2] that by simp
    then have "int (nat (- v)) < int (2 ^ floorlog 2 (nat (- v)))" by (simp only: of_nat_less_iff)
    then show ?thesis using that by simp
  qed
  then show ?thesis by (auto simp: int_flag_def)
qed

lemma int_flag_idem: "0 \<le> all_bits \<Longrightarrow> int_flag all_bits (int_flag all_bits v) = int_flag all_bits v"
  using int_flag_nonneg [of all_bits v] by (subst int_flag_def) simp

lemma block_header_checks_again:
  assumes "block_header_checks run sq ticks flags checksum mode profile version = Inr f"
  shows "block_header_checks run sq ticks f checksum mode profile version = Inr f"
proof -
  have "FrameFlag f = f" using assms int_flag_idem [of 65535 flags] by (simp add: block_header_checks_eq_Inr FrameFlag_def)
  then show ?thesis using assms unfolding block_header_checks_eq_Inr by auto
qed

lemma GPIOBlock_post_init_again: "GPIOBlock_post_init b = Inr b' \<Longrightarrow> GPIOBlock_post_init b' = Inr b'"
  by (auto simp: GPIOBlock_post_init_def Let_def bind_res_eq_Inr dest: block_header_checks_again)

lemma require_iff: "c \<Longrightarrow> require c e k = k"
  by (simp add: require_def)

lemma ADCBlock_post_init_again:
  assumes "ADCBlock_post_init b = Inr b'"
  shows "ADCBlock_post_init b' = Inr b'"
proof -
  let ?m = "ab_metadata b"
  let ?src = "\<lambda>f. if f AND FLAG_SYNTHETIC \<noteq> 0 then SRC_SYNTHETIC else SRC_HARDWARE"
  let ?codes = "\<lambda>m. if md_code_min m = 0 \<and> md_code_max m = 4095 then adc_payload_codes_valid (ab_payload b)
       else list_all (\<lambda>(adc0, adc1). md_code_min m \<le> adc0 \<and> adc0 \<le> md_code_max m \<and>
         md_code_min m \<le> adc1 \<and> adc1 \<le> md_code_max m) (iter_unpack_pairs (ab_payload b))"
  obtain f m u where f: "block_header_checks (ab_run_id b) (ab_sequence b) (ab_first_sample_ticks b) (ab_flags b) (ab_checksum_algorithm b)
      (ab_aux_bank_mode b) (ab_rate_profile b) (ab_protocol_version b) = Inr f"
    and p: "(if ab_protocol_version b = 3 then validate_v3_block_payload (ab_payload b) (ab_encoded_payload b) FK_ADC_DATA 4 (ab_rate_profile b)
         (ab_first_sample_ticks b) (ab_checksum_algorithm b) else require (ab_encoded_payload b = None) BlockValueError (
         require (length (ab_payload b) = ly_adc_payload_bytes (layout_from_mode (ab_aux_bank_mode b))) BlockValueError (Inr ()))) = Inr u"
    and t: "md_pair_rate_hz ?m = tm_adc_pair_rate_hz (timing_from_profile (ab_rate_profile b)) \<and>
       md_pair_period_ticks ?m = tm_adc_pair_period_ticks (timing_from_profile (ab_rate_profile b)) \<and>
       md_adc1_phase_ticks ?m = tm_adc1_phase_ticks (timing_from_profile (ab_rate_profile b))"
    and m: "(if md_source ?m \<noteq> ?src f then AdcBlockMetadata_post_init (?m\<lparr>md_source := ?src f\<rparr>) else Inr ?m) = Inr m"
    and c: "?codes m"
    and g: "case ab_gap b of None \<Rightarrow> True | Some g \<Rightarrow> gp_kind g = FK_ADC_DATA \<and> gp_run_id g = ab_run_id b \<and>
       gp_observed_sequence g = ab_sequence b \<and> gp_observed_first_sample_ticks g = ab_first_sample_ticks b"
    and b': "b' = b\<lparr>ab_flags := f, ab_metadata := m\<rparr>"
    using assms unfolding ADCBlock_post_init_def Let_def bind_res_eq_Inr require_eq_Inr by blast
  have meta: "m = ?m\<lparr>md_source := ?src f\<rparr>" using m metadata_post_init_id by (auto split: if_splits)
  have fields: "md_source m = ?src f" "md_pair_rate_hz m = md_pair_rate_hz ?m" "md_pair_period_ticks m = md_pair_period_ticks ?m"
    "md_adc1_phase_ticks m = md_adc1_phase_ticks ?m" by (simp_all add: meta)
  have sel: "ab_run_id b' = ab_run_id b" "ab_sequence b' = ab_sequence b" "ab_first_sample_ticks b' = ab_first_sample_ticks b"
    "ab_payload b' = ab_payload b" "ab_flags b' = f" "ab_checksum_algorithm b' = ab_checksum_algorithm b" "ab_metadata b' = m"
    "ab_aux_bank_mode b' = ab_aux_bank_mode b" "ab_rate_profile b' = ab_rate_profile b" "ab_protocol_version b' = ab_protocol_version b"
    "ab_gap b' = ab_gap b" "ab_encoded_payload b' = ab_encoded_payload b" "b'\<lparr>ab_flags := f, ab_metadata := m\<rparr> = b'" by (simp_all add: b')
  show ?thesis
    unfolding ADCBlock_post_init_def Let_def sel block_header_checks_again [OF f] bind_res_simps p fields(2,3,4) require_iff [OF t]
      if_not_P [OF not_not [THEN iffD2, OF fields(1)]] require_iff [OF c] require_iff [OF g] ..
qed

lemma post_init_valid:
  assumes "block_post_init b0 = Inr b"
  shows "block_valid b"
proof (cases b0)
  case (AsADC a)
  then obtain a' where "ADCBlock_post_init a = Inr a'" "b = AsADC a'" using assms by (cases "ADCBlock_post_init a") auto
  then show ?thesis using ADCBlock_post_init_again by (simp add: block_valid_def)
next
  case (AsGPIO g)
  then obtain g' where "GPIOBlock_post_init g = Inr g'" "b = AsGPIO g'" using assms by (cases "GPIOBlock_post_init g") auto
  then show ?thesis using GPIOBlock_post_init_again by (simp add: block_valid_def)
qed

lemma decoded_block_valid: "decode_v3_block f s = Inr b \<Longrightarrow> block_valid b"
  unfolding decode_v3_block_def Let_def
  by (auto simp: bind_res_eq_Inr require_eq_Inr simp del: block_post_init.simps dest: post_init_valid split: if_splits)

section \<open>Properties\<close>

text \<open>
  Property C29. The data path end to end. From a device that has just started a synthetic run, take any
  number of frames and deliver their bytes in any chunks. The host's parser recovers the frames without
  counting corruption, every frame becomes a block under the device's settings, the validator of
  that run accepts all of them, its counts and the device's status report agree, and no frame is
  missing before the 64-bit tick range is exhausted.
\<close>

theorem simulated_run_validates:
  assumes "sim_reachable d" "fresh_run d" "SyntheticStreamValidator (sim_run_id d) (st_stream_mask (sim_settings d)) rb pb = Inr v"
    and "emitted emit_frame n d = (d1, ws)" "concat cs = concat ws" "cs \<noteq> []"
  shows "\<exists>p fs bs v1. feed_all v3_parser empty_parser_state cs = Some (Inr (p, fs)) \<and> corruption_events p = 0 \<and>
    map_res (\<lambda>f. decode_v3_block f (sim_settings d)) fs = Inr bs \<and> accept_all validate_block v bs = Inr v1 \<and>
    snd (validate_status v1 (StatusV3 (sim_status d1)) (sim_run_id d1) False) = Inr () \<and>
    va_adc_frames_validated v1 = int (sim_frames d1 ! 0) \<and> va_gpio_frames_validated v1 = int (sim_frames d1 ! 1) \<and>
    (n * 32384 < 2 ^ 64 \<longrightarrow> length bs = n)"
proof -
  have r: "in_step (sim_settings d) d v" by (rule validator_in_step [OF sim_reachable_inv [OF assms(1)] assms(2,3)])
  obtain bs v1 where b: "list_all2 (wire_block (sim_settings d)) ws bs" "accept_all validate_block v bs = Inr v1" "in_step (sim_settings d) d1 v1"
    using device_validator.run [OF r assms(4)] by blast
  obtain fs where f: "list_all2 (\<lambda>w f. decode_v3_frame w = Inr f) ws fs" "map_res (\<lambda>f. decode_v3_block f (sim_settings d)) fs = Inr bs"
    using wire_blocks_decode [OF b(1)] by blast
  obtain p where "feed_all v3_parser empty_parser_state cs = Some (Inr (p, fs))" "corruption_events p = 0"
    using v3_stream_frames [OF f(1) assms(5,6)] by blast
  moreover have "length bs = n" if "n * 32384 < 2 ^ 64"
  proof -
    have "\<forall>i < 2. (sim_items d ! i + n * 4048) * 8 \<le> U64_MAX" using assms(2) that by (auto simp: fresh_run_def less_2_cases_iff)
    from emitted_length [OF r this] show ?thesis using assms(4) list_all2_lengthD [OF b(1)] by simp
  qed
  ultimately show ?thesis using f(2) b(2) in_step_status [OF b(3)] b(3) by (auto simp: in_step_def)
qed

lemma run_validator:
  assumes "sim_inv d" "fresh_run d"
  shows "\<exists>v. SyntheticStreamValidator (sim_run_id d) (st_stream_mask (sim_settings d)) rb pb = Inr v"
proof -
  obtain sb where sb: "settings_to_bytes (sim_settings d) = Inr sb" using sim_inv_settings [OF assms(1)] by blast
  then have m: "1 \<le> st_stream_mask (sim_settings d)" "st_stream_mask (sim_settings d) \<le> 3" by (rule settings_shape)+
  then have "st_stream_mask (sim_settings d) = 1 \<or> st_stream_mask (sim_settings d) = 2 \<or> st_stream_mask (sim_settings d) = 3" by presburger
  moreover have "0 < sim_run_id d" using assms by (auto simp: sim_inv_def lifecycle_inv_def fresh_run_def lossless_def)
  ultimately show ?thesis by (auto simp: SyntheticStreamValidator_def Let_def require_def int_flag_def)
qed

text \<open>The first block of a new run passes.\<close>

lemma first_block:
  obtains d b v v1 where "fresh_run d" "SyntheticStreamValidator (sim_run_id d) (st_stream_mask (sim_settings d)) rb pb = Inr v"
    "validate_block v b = Inr v1" "block_valid b" "block_protocol_version b = 3"
proof -
  obtain d where d: "sim_reachable d" "fresh_run d" using fresh_run_reachable by blast
  have inv: "sim_inv d" by (rule sim_reachable_inv [OF d(1)])
  obtain v where v: "SyntheticStreamValidator (sim_run_id d) (st_stream_mask (sim_settings d)) rb pb = Inr v"
    using run_validator [OF inv d(2)] by blast
  note r = validator_in_step [OF inv d(2) v]
  have "next_stream d < 2" by (rule next_stream_less(1) [OF inv])
  then have room: "(sim_items d ! next_stream d + stream_count (sim_settings d) (next_stream d)) * 8 \<le> U64_MAX"
    using d(2) by (auto simp: fresh_run_def stream_count_def less_2_cases_iff)
  obtain wire f b where b: "decode_v3_block f (sim_settings d) = Inr b" "next_block d b"
    by (rule device_block [OF inv _ _ room]) (use d(2) in \<open>auto simp: fresh_run_def lossless_def\<close>)
  have "block_valid b" "block_protocol_version b = 3" using decoded_block_valid [OF b(1)] b(2) by (simp_all add: next_block_def)
  moreover obtain v1 where "validate_block v b = Inr v1" using validate_next_block [OF r b(2) room] by blast
  ultimately show thesis using that d(2) v by blast
qed

theorem simulated_run_validates_witness:
  "\<exists>d v d1 ws p fs bs v1. sim_reachable d \<and> fresh_run d \<and> emitted emit_frame 3 d = (d1, ws) \<and>
    feed_all v3_parser empty_parser_state [concat ws] = Some (Inr (p, fs)) \<and>
    map_res (\<lambda>f. decode_v3_block f (sim_settings d)) fs = Inr bs \<and> accept_all validate_block v bs = Inr v1 \<and> length bs = 3"
proof -
  obtain d where d: "sim_reachable d" "fresh_run d" using fresh_run_reachable by blast
  obtain v where v: "SyntheticStreamValidator (sim_run_id d) (st_stream_mask (sim_settings d)) undefined undefined = Inr v"
    using run_validator [OF sim_reachable_inv [OF d(1)] d(2)] by blast
  obtain d1 ws where e: "emitted emit_frame 3 d = (d1, ws)" by fastforce
  have c: "concat [concat ws] = concat ws" "[concat ws] \<noteq> []" "3 * 32384 < (2 :: nat) ^ 64" by simp_all
  from simulated_run_validates [OF d v e c(1,2)] c(3) d e show ?thesis by blast
qed

text \<open>
  Property C30. The validator accepts exactly the deterministic stream. A new validator accepts a list of
  valid version-3 blocks if and only if every block belongs to a selected stream, carries the run, the
  synthetic flag and no gap flag, continues the sequence numbers (modulo \<open>2 ^ 32\<close>) and ticks of its stream from
  zero, and holds the source's samples from that tick on. The accepted ADC payloads joined are one
  unbroken source stream, and the validator's counts are the numbers of blocks of each stream.
\<close>

theorem validated_stream_exact:
  assumes "SyntheticStreamValidator run streams rb pb = Inr v" "\<forall>b \<in> set bs. block_valid b \<and> block_protocol_version b = 3"
  shows "((\<exists>v1. accept_all validate_block v bs = Inr v1) \<longleftrightarrow> (\<forall>i < length bs. continues run (int_flag 3 streams) (take i bs) (bs ! i))) \<and>
    (\<forall>v1. accept_all validate_block v bs = Inr v1 \<longrightarrow>
      concat (map block_payload (stream_of FK_ADC_DATA bs)) = synthetic_v3_adc_payload 0 (items_of FK_ADC_DATA bs) \<and>
      va_adc_frames_validated v1 = int (length (stream_of FK_ADC_DATA bs)) \<and>
      va_gpio_frames_validated v1 = int (length (stream_of FK_GPIO_DATA bs)))"
proof -
  note e = accept_all_exact [OF assms]
  have "concat (map block_payload (stream_of FK_ADC_DATA bs)) = synthetic_v3_adc_payload 0 (items_of FK_ADC_DATA bs)"
    if "accept_all validate_block v bs = Inr v1" for v1
    using e that by (intro adc_samples [of _ run "int_flag 3 streams"]) blast
  then show ?thesis using e unfolding tracks_def by blast
qed

theorem validated_stream_exact_witness:
  "\<exists>d b v v1. fresh_run d \<and> block_valid b \<and> accept_all validate_block v [b] = Inr v1 \<and>
     continues (sim_run_id d) (int_flag 3 (st_stream_mask (sim_settings d))) [] b"
proof -
  obtain d b v v1 where d: "fresh_run d" "SyntheticStreamValidator (sim_run_id d) (st_stream_mask (sim_settings d)) undefined undefined = Inr v"
      "validate_block v b = Inr v1" "block_valid b" "block_protocol_version b = 3"
    by (rule first_block)
  then have acc: "accept_all validate_block v [b] = Inr v1" by simp
  then have "continues (sim_run_id d) (int_flag 3 (st_stream_mask (sim_settings d))) (take 0 [b]) ([b] ! 0)"
    using validated_stream_exact [OF d(2), of "[b]"] d(4,5) by fastforce
  then show ?thesis using d(1,4) acc by auto
qed

end
