(* ===== verification/Reader_Run.thy ===== *)
theory Reader_Run
  imports Reader
begin

text \<open>
  The background reader as a transition system: its threads interleave the critical sections of \<open>Reader\<close> in any
  order. Its invariants, and what they mean for callers: bounded queues, correlated responses, and an account of
  every block.
\<close>

section \<open>Steps\<close>

fun polled :: "('a \<Rightarrow> 'b) \<Rightarrow> 'a poll \<Rightarrow> 'b list" where
  "polled f (Ready x) = [f x]"
| "polled f (Raises e) = []"
| "polled f Waiting = []"

text \<open>\<open>reader_step codec r xs r'\<close>: one critical section, which hands the items \<open>xs\<close> to the application.\<close>

inductive reader_step :: "'f legacy_codec \<Rightarrow> 'f reader \<Rightarrow> ReaderStreamItem list \<Rightarrow> 'f reader \<Rightarrow> bool" for codec where
  request: "begin_request codec kind payload timeout now version negotiating r = (r', res) \<Longrightarrow> reader_step codec r [] r'"
| write_failure: "i < length (rd_requests r) \<Longrightarrow> reader_step codec r [] (write_failed i failure r)"
| finish: "i < length (rd_requests r) \<Longrightarrow> finish_request i r = (r', res) \<Longrightarrow> reader_step codec r [] r'"
| expire: "rd_thread_alive r \<Longrightarrow> rd_current r = Idle \<Longrightarrow> reader_step codec r [] (expire_pending_requests now r)"
| read: "rd_thread_alive r \<Longrightarrow> rd_current r = Idle \<Longrightarrow> reader_step codec r [] (record_read received readinto r)"
| frame: "rd_thread_alive r \<Longrightarrow> rd_current r = Idle \<Longrightarrow> reader_step codec r [] (take_frame codec wire r)"
| dispatch: "rd_thread_alive r \<Longrightarrow> reader_step codec r [] (dispatch_current r)"
| lost: "rd_thread_alive r \<Longrightarrow> rd_current r = Idle \<Longrightarrow> reader_step codec r [] (transport_lost r)"
| parser: "rd_thread_alive r \<Longrightarrow> rd_current r = Idle \<Longrightarrow> reader_step codec r [] (parser_failed r)"
| start: "start_reader transport_open r = (r', res) \<Longrightarrow> reader_step codec r [] r'"
| close: "reader_step codec r [] (close_reader r)"
| activate: "activate_run run checksum configuration version r = (r', res) \<Longrightarrow> reader_step codec r [] r'"
| activate_v3: "activate_v3_run run settings r = (r', res) \<Longrightarrow> reader_step codec r [] r'"
| deactivate: "deactivate_stream r = (r', res) \<Longrightarrow> reader_step codec r [] r'"
| block: "get_block refused expired r = (r', b) \<Longrightarrow> reader_step codec r (polled DataItem b) r'"
| block_wait: "await_block True expired r = (r', b) \<Longrightarrow> reader_step codec r (polled DataItem b) r'"
| stream_item: "get_stream_item refused expired r = (r', x) \<Longrightarrow> reader_step codec r (polled id x) r'"
| item_wait: "await_stream_item True expired r = (r', x) \<Longrightarrow> reader_step codec r (polled id x) r'"
| timed_out: "reader_step codec r [] (wait_timed_out r)"
| event: "get_event expired r = (r', e) \<Longrightarrow> reader_step codec r [] r'"
| event_wait: "await_event True expired r = (r', e) \<Longrightarrow> reader_step codec r [] r'"

inductive reader_reach :: "'f legacy_codec \<Rightarrow> 'f reader \<Rightarrow> ReaderStreamItem list \<Rightarrow> bool" for codec where
  init: "BackgroundReader rsize pending blocks events timeouts first = Inr r \<Longrightarrow> 1 \<le> first \<Longrightarrow> first \<le> UINT32_MAX \<Longrightarrow> reader_reach codec r []"
| step: "reader_reach codec r ds \<Longrightarrow> reader_step codec r xs r' \<Longrightarrow> reader_reach codec r' (ds @ xs)"

section \<open>The account of blocks\<close>

definition tally_of :: "FrameKind \<Rightarrow> 'f reader \<Rightarrow> stream_tally" where
  "tally_of k r = (if k = FK_ADC_DATA then rd_adc r else rd_gpio r)"

definition kind_count :: "FrameKind \<Rightarrow> data_block list \<Rightarrow> int" where
  "kind_count k bs = int (length (filter (\<lambda>b. block_kind b = k) bs))"

fun item_block :: "ReaderStreamItem \<Rightarrow> data_block list" where
  "item_block (DataItem b) = [b]"
| "item_block (ReportItem r) = []"

definition delivered_blocks :: "ReaderStreamItem list \<Rightarrow> data_block list" where
  "delivered_blocks ds = concat (map item_block ds)"

text \<open>No frame has been refused and the reader is open.\<close>

definition healthy :: "'f reader \<Rightarrow> bool" where
  "healthy r \<longleftrightarrow> rd_terminal_error r = None \<and> \<not> rd_closed r \<and> rd_current r \<noteq> Failed"

definition balanced :: "ReaderStreamItem list \<Rightarrow> 'f reader \<Rightarrow> bool" where
  "balanced ds r \<longleftrightarrow> (\<forall>k \<in> {FK_ADC_DATA, FK_GPIO_DATA}. sy_frames_received (tally_of k r) =
     kind_count k (delivered_blocks ds) + kind_count k (rd_blocks r) + sy_block_queue_drops (tally_of k r) +
     sy_boundary_blocks_discarded (tally_of k r) + sy_stale_blocks_discarded (tally_of k r))"

definition totalled :: "'f reader \<Rightarrow> bool" where
  "totalled r \<longleftrightarrow> ty_host_block_queue_drops (rd_tally r) = sy_block_queue_drops (rd_adc r) + sy_block_queue_drops (rd_gpio r) \<and>
     ty_boundary_blocks_discarded (rd_tally r) = sy_boundary_blocks_discarded (rd_adc r) + sy_boundary_blocks_discarded (rd_gpio r) \<and>
     sy_stale_blocks_discarded (rd_adc r) + sy_stale_blocks_discarded (rd_gpio r) \<le> ty_stale_blocks_discarded (rd_tally r)"

definition queues_bounded :: "'f reader \<Rightarrow> bool" where
  "queues_bounded r \<longleftrightarrow> 0 < rd_max_queued_blocks r \<and> 0 < rd_max_queued_events r \<and> 2 \<le> rd_max_stream_reports r \<and>
     length (rd_blocks r) \<le> rd_max_queued_blocks r \<and> length (rd_events r) \<le> rd_max_queued_events r \<and>
     length (rd_stream_reports r) \<le> rd_max_stream_reports r \<and>
     int (length (rd_blocks r)) \<le> ty_block_queue_high_water (rd_tally r) \<and> ty_block_queue_high_water (rd_tally r) \<le> int (rd_max_queued_blocks r) \<and>
     int (length (rd_events r)) \<le> ty_event_queue_high_water (rd_tally r) \<and> ty_event_queue_high_water (rd_tally r) \<le> int (rd_max_queued_events r)"

text \<open>What the account reads of the state; most operations leave it alone.\<close>

definition stream_view :: "'f reader \<Rightarrow> _" where
  "stream_view r = (rd_blocks r, rd_stream_reports r, rd_events r, rd_adc r, rd_gpio r,
     (rd_max_queued_blocks r, rd_max_queued_events r, rd_max_stream_reports r),
     (ty_host_block_queue_drops (rd_tally r), ty_boundary_blocks_discarded (rd_tally r), ty_stale_blocks_discarded (rd_tally r),
      ty_block_queue_high_water (rd_tally r), ty_event_queue_high_water (rd_tally r), ty_host_event_queue_drops (rd_tally r)))"

text \<open>The counters the reconciliation reads never decrease.\<close>

definition tally_grows :: "stream_tally \<Rightarrow> stream_tally \<Rightarrow> bool" where
  "tally_grows a b \<longleftrightarrow> sy_frames_received a \<le> sy_frames_received b \<and> sy_block_queue_drops a \<le> sy_block_queue_drops b \<and>
     sy_stale_blocks_discarded a \<le> sy_stale_blocks_discarded b \<and> sy_boundary_blocks_discarded a \<le> sy_boundary_blocks_discarded b"

definition grows :: "'f reader \<Rightarrow> 'f reader \<Rightarrow> bool" where
  "grows r r' \<longleftrightarrow> tally_grows (rd_adc r) (rd_adc r') \<and> tally_grows (rd_gpio r) (rd_gpio r') \<and>
     ty_host_event_queue_drops (rd_tally r) \<le> ty_host_event_queue_drops (rd_tally r')"

lemma grows_refl [simp]: "grows r r"
  by (simp add: grows_def tally_grows_def)

lemma grows_trans: "grows r s \<Longrightarrow> grows s t \<Longrightarrow> grows r t"
  by (auto simp: grows_def tally_grows_def)

lemma stream_view_cong:
  assumes "stream_view r' = stream_view r"
  shows "balanced ds r' = balanced ds r" "totalled r' = totalled r" "queues_bounded r' = queues_bounded r" "rd_blocks r' = rd_blocks r" "grows s r' = grows s r"
  using assms by (auto simp: stream_view_def balanced_def totalled_def queues_bounded_def tally_of_def grows_def)

lemma kind_count_simps [simp]:
  "kind_count k [] = 0" "kind_count k (b # bs) = of_bool (block_kind b = k) + kind_count k bs" "kind_count k (bs @ cs) = kind_count k bs + kind_count k cs"
  by (simp_all add: kind_count_def)

lemma delivered_blocks_simps [simp]: "delivered_blocks [] = []" "delivered_blocks (ds @ xs) = delivered_blocks ds @ delivered_blocks xs"
    "delivered_blocks [x] = item_block x"
  by (simp_all add: delivered_blocks_def)

section \<open>Operations that leave the streams alone\<close>

lemma set_request_sel [simp]:
  "stream_view (set_request i f r) = stream_view r" "rd_terminal_error (set_request i f r) = rd_terminal_error r"
  "rd_closed (set_request i f r) = rd_closed r" "rd_current (set_request i f r) = rd_current r" "rd_pending (set_request i f r) = rd_pending r"
  "rd_requests (set_request i f r) = (rd_requests r)[i := f (rd_requests r ! i)]" "rd_max_pending_requests (set_request i f r) = rd_max_pending_requests r"
  "rd_next_request_id (set_request i f r) = rd_next_request_id r"
  by (simp_all add: set_request_def stream_view_def)

lemma fold_keeps: "(\<And>x r. x \<in> set xs \<Longrightarrow> P r \<Longrightarrow> P (f x r)) \<Longrightarrow> P r \<Longrightarrow> P (fold f xs r)"
  by (induction xs arbitrary: r) auto

text \<open>The request operations change the requests and nothing else but their own counter.\<close>

definition only_requests :: "'f reader \<Rightarrow> 'f reader \<Rightarrow> bool" where
  "only_requests r r' \<longleftrightarrow> (\<exists>qs ps n. r' = r\<lparr>rd_requests := qs, rd_pending := ps, rd_tally := (rd_tally r)\<lparr>ty_request_timeouts := n\<rparr>\<rparr>)"

lemma only_requestsI: "r' = r\<lparr>rd_requests := qs, rd_pending := ps, rd_tally := (rd_tally r)\<lparr>ty_request_timeouts := n\<rparr>\<rparr> \<Longrightarrow> only_requests r r'"
  unfolding only_requests_def by blast

lemma only_requests_refl: "only_requests r r"
  by (rule only_requestsI [where qs = "rd_requests r" and ps = "rd_pending r" and n = "ty_request_timeouts (rd_tally r)"]) simp

lemma only_requests_trans: "only_requests r s \<Longrightarrow> only_requests s t \<Longrightarrow> only_requests r t"
  unfolding only_requests_def by fastforce

lemma only_requestsD:
  assumes "only_requests r r'"
  shows "stream_view r' = stream_view r" "rd_terminal_error r' = rd_terminal_error r" "rd_closed r' = rd_closed r" "rd_current r' = rd_current r"
    "rd_stop r' = rd_stop r" "rd_stream_active r' = rd_stream_active r" "rd_thread_alive r' = rd_thread_alive r"
  using assms by (auto simp: only_requests_def stream_view_def)

lemma complete_with_error_only: "only_requests r (complete_with_error i e t r)"
proof (cases "unresolved (rd_requests r ! i)")
  case True
  then show ?thesis
    by (intro only_requestsI [where qs = "(rd_requests r)[i := (rd_requests r ! i)\<lparr>pr_error := Some e, pr_completed := True\<rparr>]"
       and ps = "filter (\<lambda>p. p \<noteq> (pr_request_id (rd_requests r ! i), i)) (rd_pending r)" and n = "ty_request_timeouts (rd_tally r) + of_bool t"])
      (simp add: complete_with_error_def set_request_def count_def Let_def)
qed (simp add: complete_with_error_def only_requests_refl)

lemma expire_request_only: "only_requests r (expire_request i r)"
proof -
  let ?ps = "filter (\<lambda>p. fst p \<noteq> pr_request_id (rd_requests r ! i)) (rd_pending r)"
  show ?thesis
  proof (cases "unresolved (rd_requests r ! i)")
    case True
    then show ?thesis
      by (intro only_requestsI [where qs = "(rd_requests r)[i := (rd_requests r ! i)\<lparr>pr_error := Some RequestTimeoutError, pr_completed := True\<rparr>]"
          and ps = ?ps and n = "ty_request_timeouts (rd_tally r) + 1"]) (simp add: expire_request_def set_request_def count_def Let_def)
  next
    case False
    then show ?thesis
      by (intro only_requestsI [where qs = "rd_requests r" and ps = ?ps and n = "ty_request_timeouts (rd_tally r)"]) (simp add: expire_request_def Let_def)
  qed
qed

lemma fail_request_only: "only_requests r (fail_request e i r)"
proof (cases "unresolved (rd_requests r ! i)")
  case True
  then show ?thesis by (intro only_requestsI [where ps = "rd_pending r" and n = "ty_request_timeouts (rd_tally r)"]) (simp add: fail_request_def set_request_def)
qed (simp add: fail_request_def only_requests_refl)

lemma expire_pending_only: "only_requests r (expire_pending_requests now r)"
  unfolding expire_pending_requests_def
  by (rule fold_keeps [where P = "only_requests r"]) (auto intro: only_requests_trans expire_request_only only_requests_refl)

lemma fail_all_only: "only_requests r (fail_all_pending e r)"
  unfolding fail_all_pending_def
proof (rule fold_keeps [where P = "only_requests r"])
  show "only_requests r (r\<lparr>rd_pending := []\<rparr>)"
    by (rule only_requestsI [where qs = "rd_requests r" and ps = "[]" and n = "ty_request_timeouts (rd_tally r)"]) simp
qed (auto intro: only_requests_trans fail_request_only)

lemma terminate_keeps:
  "stream_view (terminate e pf dc r) = stream_view r" "\<not> healthy (terminate e pf dc r)" "rd_blocks (terminate e pf dc r) = rd_blocks r"
  "rd_terminal_error (terminate e pf dc r) = None \<Longrightarrow> rd_closed (terminate e pf dc r)"
proof -
  let ?r = "count (\<lambda>t. t\<lparr>ty_protocol_failures := ty_protocol_failures t + of_bool pf, ty_disconnects := ty_disconnects t + of_bool dc\<rparr>)
    (r\<lparr>rd_terminal_error := Some e\<rparr>)"
  note f = only_requestsD [OF fail_all_only [of ?r e]]
  have v: "stream_view ?r = stream_view r" by (simp add: count_def stream_view_def)
  have w: "stream_view (x\<lparr>rd_stream_active := False, rd_stop := True\<rparr>) = stream_view x" for x :: "'a reader" by (simp add: stream_view_def)
  show "stream_view (terminate e pf dc r) = stream_view r"
    using f(1) v by (cases "rd_terminal_error r = None \<and> \<not> rd_closed r") (simp_all add: terminate_def Let_def w del: not_None_eq)
  then show "rd_blocks (terminate e pf dc r) = rd_blocks r" by (rule stream_view_cong(4))
  have "rd_terminal_error ?r = Some e" by (simp add: count_def)
  then show d: "rd_terminal_error (terminate e pf dc r) = None \<Longrightarrow> rd_closed (terminate e pf dc r)"
    using f(2,3) by (auto simp: terminate_def Let_def split: if_splits)
  then show "\<not> healthy (terminate e pf dc r)" by (auto simp: healthy_def)
qed

lemma allocate_keeps:
  "allocate_request_id n r = (r', res) \<Longrightarrow> \<exists>q. r' = r\<lparr>rd_next_request_id := q\<rparr>"
proof (induction n arbitrary: r)
  case 0
  then show ?case by (intro exI [of _ "rd_next_request_id r"]) simp
next
  case (Suc n)
  then show ?case by (fastforce simp: Let_def split: if_splits)
qed

lemma next_id_same: "r = r\<lparr>rd_next_request_id := rd_next_request_id r\<rparr>"
  by simp

definition registered :: "int \<Rightarrow> PendingRequest \<Rightarrow> 'f reader \<Rightarrow> 'f reader" where
  "registered request_id pending r = count (\<lambda>t. t\<lparr>ty_pending_request_high_water := max (ty_pending_request_high_water t) (int (length (rd_pending r) + 1))\<rparr>)
     (r\<lparr>rd_requests := rd_requests r @ [pending], rd_pending := rd_pending r @ [(request_id, length (rd_requests r))]\<rparr>)"

lemma begin_request_cases:
  assumes b: "begin_request codec kind payload timeout now version negotiating r = (r', res)"
  obtains (refused) e where "res = Inl e" "r' = r \<or> (\<exists>x. allocate_request_id (rd_max_pending_requests r + 1) r = (r', x))"
  | (sent) r1 request_id pending wire where "allocate_request_id (rd_max_pending_requests r + 1) r = (r1, Some request_id)"
      "require_live r = Inr ()" "length (rd_pending r) < rd_max_pending_requests r" "pr_request_id pending = request_id" "unresolved pending"
      "\<not> pr_completed pending" "r' = registered request_id pending r1" "res = Inr (length (rd_requests r1), wire)"
proof (cases "request_response_kind version kind")
  case None
  then show thesis using b refused by (auto simp: begin_request_def)
next
  case (Some expected)
  note b1 = b [unfolded begin_request_def Some option.case]
  show thesis
  proof (cases "version \<notin> {1, 2, 3} \<or> timeout \<le> 0")
    case True
    then show thesis using b1 refused by auto
  next
    case False
    note b2 = b1 [unfolded if_not_P [OF False]]
    show thesis
    proof (cases "require_live r")
      case (Inl e)
      then show thesis using b2 refused by auto
    next
      case live: (Inr u)
      note b3 = b2 [unfolded live sum.case]
      show thesis
      proof (cases "rd_max_pending_requests r \<le> length (rd_pending r)")
        case True
        then show thesis using b3 refused by auto
      next
        case room: False
        note b4 = b3 [unfolded if_not_P [OF room]]
        obtain r1 x where al: "allocate_request_id (rd_max_pending_requests r + 1) r = (r1, x)" by fastforce
        note b5 = b4 [unfolded al prod.case]
        show thesis
        proof (cases x)
          case None
          then show thesis using b5 al refused by auto
        next
          case id: (Some q)
          let ?p = "\<lparr>pr_kind = kind, pr_expected_kind = expected, pr_request_id = q, pr_deadline = now + timeout, pr_completed = False,
             pr_response = None, pr_protocol_version = version, pr_error = None, pr_negotiating = negotiating\<rparr>"
          let ?w = "if version = 3 then map_sum (\<lambda>_. ()) id (encode_v3_frame kind payload 0 0 0 q 0 0) else lc_encode codec version kind payload q"
          note b6 = b5 [unfolded id option.case Let_def]
          show thesis
          proof (cases ?w)
            case (Inl e)
            then show thesis using b6 al refused unfolding Inl by auto
          next
            case (Inr wire)
            have "r' = registered q ?p r1" "res = Inr (length (rd_requests r1), wire)"
              using b6 unfolding Inr by (simp_all add: registered_def)
            then show thesis using sent [of r1 q ?p wire] al id live room by (simp add: unresolved_def)
          qed
        qed
      qed
    qed
  qed
qed

lemma registered_keeps:
  "stream_view (registered q p r) = stream_view r" "rd_terminal_error (registered q p r) = rd_terminal_error r"
  "rd_closed (registered q p r) = rd_closed r" "rd_current (registered q p r) = rd_current r"
  by (simp_all add: registered_def count_def stream_view_def)

lemma next_id_keeps:
  "stream_view (r\<lparr>rd_next_request_id := q\<rparr>) = stream_view r"
  by (simp add: stream_view_def)

lemma begin_request_keeps:
  assumes "begin_request codec kind payload timeout now version negotiating r = (r', res)"
  shows "stream_view r' = stream_view r \<and> rd_terminal_error r' = rd_terminal_error r \<and> rd_closed r' = rd_closed r \<and> rd_current r' = rd_current r"
  using assms
proof (cases rule: begin_request_cases)
  case (refused e)
  then consider "r' = r" | q where "r' = r\<lparr>rd_next_request_id := q\<rparr>" using allocate_keeps by blast
  then show ?thesis by cases (simp_all add: next_id_keeps)
next
  case (sent r1 request_id pending wire)
  then obtain q where "r1 = r\<lparr>rd_next_request_id := q\<rparr>" using allocate_keeps by blast
  then show ?thesis using sent(7) by (simp add: registered_keeps next_id_keeps)
qed

section \<open>Run boundaries\<close>

lemma record_boundary_eq:
  "record_boundary_blocks r = r\<lparr>rd_adc := (rd_adc r)\<lparr>sy_boundary_blocks_discarded := sy_boundary_blocks_discarded (rd_adc r) + kind_count FK_ADC_DATA (rd_blocks r)\<rparr>,
     rd_gpio := (rd_gpio r)\<lparr>sy_boundary_blocks_discarded := sy_boundary_blocks_discarded (rd_gpio r) + kind_count FK_GPIO_DATA (rd_blocks r)\<rparr>,
     rd_tally := (rd_tally r)\<lparr>ty_boundary_blocks_discarded := ty_boundary_blocks_discarded (rd_tally r) + int (length (rd_blocks r))\<rparr>\<rparr>"
proof -
  have "fold (\<lambda>b. count_stream b (\<lambda>s. s\<lparr>sy_boundary_blocks_discarded := sy_boundary_blocks_discarded s + 1\<rparr>)) bs r =
     r\<lparr>rd_adc := (rd_adc r)\<lparr>sy_boundary_blocks_discarded := sy_boundary_blocks_discarded (rd_adc r) + kind_count FK_ADC_DATA bs\<rparr>,
       rd_gpio := (rd_gpio r)\<lparr>sy_boundary_blocks_discarded := sy_boundary_blocks_discarded (rd_gpio r) + kind_count FK_GPIO_DATA bs\<rparr>\<rparr>"
    for bs and r :: "'a reader"
  proof (induction bs arbitrary: r)
    case (Cons b bs)
    then show ?case by (cases b) (simp_all add: count_stream_def algebra_simps)
  qed simp
  then show ?thesis by (simp add: record_boundary_blocks_def count_def)
qed

definition cleared :: "'f reader \<Rightarrow> 'f reader" where
  "cleared r = (record_boundary_blocks r)\<lparr>rd_blocks := [], rd_stream_reports := []\<rparr>"

lemma kind_count_sum: "kind_count FK_ADC_DATA bs + kind_count FK_GPIO_DATA bs = int (length bs)"
proof (induction bs)
  case (Cons b bs)
  then show ?case by (cases b) simp_all
qed simp

lemma cleared_ok: "balanced ds r \<Longrightarrow> balanced ds (cleared r)" "totalled r \<Longrightarrow> totalled (cleared r)" "queues_bounded r \<Longrightarrow> queues_bounded (cleared r)"
    "grows r (cleared r)"
  using kind_count_sum [of "rd_blocks r"]
  by (auto simp: grows_def tally_grows_def kind_count_def cleared_def record_boundary_eq balanced_def totalled_def queues_bounded_def tally_of_def)

text \<open>An operation that may cross a run boundary, and does not touch the life of the reader.\<close>

definition run_effect :: "'f reader \<Rightarrow> 'f reader \<Rightarrow> bool" where
  "run_effect r r' \<longleftrightarrow> (stream_view r' = stream_view r \<or> stream_view r' = stream_view (cleared r)) \<and>
     rd_terminal_error r' = rd_terminal_error r \<and> rd_closed r' = rd_closed r \<and> rd_current r' = rd_current r"

lemma run_effect_ok:
  assumes "run_effect r r'"
  shows "healthy r' = healthy r" "balanced ds r \<Longrightarrow> balanced ds r'" "totalled r \<Longrightarrow> totalled r'" "queues_bounded r \<Longrightarrow> queues_bounded r'" "grows r r'"
  using assms stream_view_cong [of r' r] stream_view_cong [of r' "cleared r"] cleared_ok(1) [of ds r] cleared_ok(2,3,4) [of r]
  by (auto simp: run_effect_def healthy_def)

lemma cleared_cong: "stream_view s = stream_view r \<Longrightarrow> stream_view (cleared s) = stream_view (cleared r)"
  by (simp add: stream_view_def cleared_def record_boundary_eq)

lemma run_effect_after:
  assumes "stream_view s = stream_view r" "rd_terminal_error s = rd_terminal_error r" "rd_closed s = rd_closed r" "rd_current s = rd_current r" "run_effect s r'"
  shows "run_effect r r'"
  using assms cleared_cong [OF assms(1)] by (auto simp: run_effect_def)

lemma run_effect_same:
  "stream_view s = stream_view r \<Longrightarrow> rd_terminal_error s = rd_terminal_error r \<Longrightarrow> rd_closed s = rd_closed r \<Longrightarrow> rd_current s = rd_current r \<Longrightarrow> run_effect r s"
  by (simp add: run_effect_def)

lemma activate_run_locked_effect:
  assumes "activate_run_locked run checksum configuration r = (r', res)"
  shows "run_effect r r'"
proof (cases "run = 0 \<or> checksum \<notin> SUPPORTED_CHECKSUM_ALGORITHMS")
  case True
  then show ?thesis using assms by (auto simp: activate_run_locked_def run_effect_def)
next
  case False
  then have "r' = (record_boundary_blocks r)\<lparr>rd_blocks := [], rd_stream_reports := [], rd_active_run_id := run,
        rd_active_checksum_algorithm := checksum, rd_active_configuration := configuration, rd_stream_active := True\<rparr>"
    using assms by (simp add: activate_run_locked_def)
  then show ?thesis by (simp add: run_effect_def stream_view_def cleared_def record_boundary_eq)
qed

lemma deactivate_effect: "run_effect r (deactivate_stream_locked r)"
  by (simp add: run_effect_def stream_view_def cleared_def record_boundary_eq deactivate_stream_locked_def)

lemma update_effect:
  "run_effect (r\<lparr>rd_active_v3_settings := a\<rparr>) r' \<Longrightarrow> run_effect r r'"
  "run_effect (r\<lparr>rd_selected_wire_version := v\<rparr>) r' \<Longrightarrow> run_effect r r'"
  "run_effect (r\<lparr>rd_pending := ps\<rparr>) r' \<Longrightarrow> run_effect r r'"
  "run_effect (set_request i f r) r' \<Longrightarrow> run_effect r r'"
  by (erule run_effect_after [rotated 4]; simp add: stream_view_def set_request_def)+

lemma count_matched_effect: "run_effect (count (\<lambda>t. t\<lparr>ty_responses_matched := n t\<rparr>) r) r' \<Longrightarrow> run_effect r r'"
  "run_effect (count (\<lambda>t. t\<lparr>ty_late_responses := n t\<rparr>) r) r' \<Longrightarrow> run_effect r r'"
  by (erule run_effect_after [rotated 4]; simp add: stream_view_def count_def)+

lemma run_effect_refl: "run_effect r r"
  by (simp add: run_effect_def)

lemma start_stream_effect:
  assumes "start_stream response r = (r', res)"
  shows "run_effect r r'"
  using assms
  by (auto simp: start_stream_def run_effect_refl dest!: activate_run_locked_effect update_effect(1)
      split: reader_response.splits option.splits V3ResponseValue.splits prod.splits sum.splits)

lemma accept_response_effect:
  assumes "accept_response i response version r = (r', res)"
  shows "run_effect r r'"
proof -
  let ?r1 = "count (\<lambda>t. t\<lparr>ty_responses_matched := ty_responses_matched t + 1\<rparr>) (set_request i (\<lambda>p. p\<lparr>pr_response := Some response\<rparr>) r)"
  define r2 where "r2 = (if response_is_ok response \<and> response_kind response \<in> {145, 146} then ?r1\<lparr>rd_selected_wire_version := Some version\<rparr> else ?r1)"
  have r2: "stream_view r2 = stream_view r" "rd_terminal_error r2 = rd_terminal_error r" "rd_closed r2 = rd_closed r" "rd_current r2 = rd_current r"
    by (simp_all add: r2_def count_def set_request_def stream_view_def)
  have "run_effect r2 r'"
    using assms [unfolded accept_response_def Let_def, folded r2_def] start_stream_effect deactivate_effect run_effect_refl
    by (auto split: if_splits)
  then show ?thesis by (rule run_effect_after [OF r2])
qed

lemma complete_response_effect: "run_effect r s \<Longrightarrow> run_effect r (complete_response i e s)"
  by (simp add: run_effect_def complete_response_def)

lemma late_response_effect: "run_effect r (late_response response version r)"
  unfolding late_response_def Let_def
  by (cases "response_is_ok response") (auto intro!: count_matched_effect(2) [OF deactivate_effect] count_matched_effect(2) [OF run_effect_refl])

lemma dispatch_response_effect:
  assumes "dispatch_response response version r = (r', res)"
  shows "run_effect r r'"
proof (cases "map_of (rd_pending r) (response_request_id response)")
  case None
  then show ?thesis using assms late_response_effect by (auto simp: dispatch_response_def)
next
  case (Some i)
  define r1 where "r1 = r\<lparr>rd_pending := filter (\<lambda>p. fst p \<noteq> response_request_id response) (rd_pending r)\<rparr>"
  have r1: "run_effect r1 r1 \<Longrightarrow> run_effect r r1" "run_effect r1 s \<Longrightarrow> run_effect r s" for s
    unfolding r1_def by (rule update_effect(3), assumption)+
  obtain r2 a where acc: "accept_response i response version r1 = (r2, a)" by fastforce
  have "run_effect r r2" by (rule r1(2) [OF accept_response_effect [OF acc]])
  moreover have "run_effect r r1" by (rule r1(1) [OF run_effect_refl])
  moreover have "run_effect r (count (\<lambda>t. t\<lparr>ty_responses_matched := ty_responses_matched t + 1\<rparr>) r1)"
    by (rule r1(2), rule count_matched_effect(1), rule run_effect_refl)
  ultimately show ?thesis using assms [unfolded dispatch_response_def Some option.case Let_def, folded r1_def] acc
    by (auto intro!: complete_response_effect split: if_splits sum.splits)
qed

section \<open>Blocks and events\<close>

lemma coalesce_length: "coalesce_report report xs = Inr (Some ys) \<Longrightarrow> length ys = length xs"
proof (induction xs arbitrary: ys)
  case (Cons x xs)
  have later: "map_sum id (map_option ((#) x)) (coalesce_report report xs) = Inr (Some ys) \<Longrightarrow> length ys = Suc (length xs)"
    using Cons.IH by (cases "coalesce_report report xs") auto
  show ?case
  proof (cases x)
    case (HostLossReport a)
    with Cons.prems later show ?thesis
      by (cases report; cases "\<exists>b. report = HostLossReport b \<and> same_loss_key a b"; cases "loss_aggregated_with a (case report of HostLossReport b \<Rightarrow> b)") (auto simp: Let_def)
  next
    case (StaleReport a)
    with Cons.prems later show ?thesis
      by (cases report; cases "anomaly_merged_with a (case report of StaleReport b \<Rightarrow> b)") (auto simp: Let_def)
  qed
qed simp

lemma drop_first_length: "list_ex P xs \<Longrightarrow> length (drop_first P xs) = length xs - 1"
proof (induction xs)
  case (Cons x xs)
  then show ?case by (cases xs) auto
qed simp

lemma enqueue_effect:
  assumes "enqueue_stream_report report r = (r', res)"
  shows "\<exists>reports n. r' = r\<lparr>rd_stream_reports := reports, rd_tally := (rd_tally r)\<lparr>ty_loss_report_queue_drops := n\<rparr>\<rparr> \<and>
    (length (rd_stream_reports r) \<le> rd_max_stream_reports r \<longrightarrow> 0 < rd_max_stream_reports r \<longrightarrow> length reports \<le> rd_max_stream_reports r)"
proof -
  let ?xs = "rd_stream_reports r" and ?n = "ty_loss_report_queue_drops (rd_tally r)"
  consider (raise) e where "coalesce_report report (rev ?xs) = Inl e" | (merged) ys where "coalesce_report report (rev ?xs) = Inr (Some ys)"
    | (fresh) "coalesce_report report (rev ?xs) = Inr None" by (metis option.exhaust sum.exhaust)
  then show ?thesis
  proof cases
    case raise
    then show ?thesis using assms by (intro exI [of _ ?xs] exI [of _ ?n]) (simp add: enqueue_stream_report_def)
  next
    case (merged ys)
    then show ?thesis using assms coalesce_length [OF merged] by (intro exI [of _ "rev ys"] exI [of _ ?n]) (auto simp: enqueue_stream_report_def)
  next
    case fresh
    consider "length ?xs < rd_max_stream_reports r" | "rd_max_stream_reports r \<le> length ?xs" "list_ex is_stale_report ?xs"
      | "rd_max_stream_reports r \<le> length ?xs" "\<not> list_ex is_stale_report ?xs" by fastforce
    then show ?thesis
    proof cases
      case 1
      then show ?thesis using assms fresh by (intro exI [of _ "?xs @ [report]"] exI [of _ ?n]) (auto simp: enqueue_stream_report_def)
    next
      case 2
      then show ?thesis using assms fresh drop_first_length [OF 2(2)]
        by (intro exI [of _ "drop_first is_stale_report ?xs @ [report]"] exI [of _ "?n + 1"]) (auto simp: enqueue_stream_report_def count_def Let_def)
    next
      case 3
      then show ?thesis using assms fresh by (intro exI [of _ ?xs] exI [of _ "?n + 1"]) (auto simp: enqueue_stream_report_def count_def Let_def)
    qed
  qed
qed

text \<open>What a dispatched block does to the account.\<close>

definition dispatched :: "data_block \<Rightarrow> 'f reader \<Rightarrow> 'f reader \<Rightarrow> (reader_error + unit) \<Rightarrow> bool" where
  "dispatched b r r' res \<longleftrightarrow> rd_terminal_error r' = rd_terminal_error r \<and> rd_closed r' = rd_closed r \<and> rd_current r' = rd_current r \<and>
     (totalled r \<longrightarrow> totalled r') \<and> (queues_bounded r \<longrightarrow> queues_bounded r') \<and> grows r r' \<and> (\<forall>ds. res = Inr () \<longrightarrow> balanced ds r \<longrightarrow> balanced ds r')"

lemma discard_stale_dispatched:
  assumes "discard_stale_block b (count_received b r) = (r', res)"
  shows "dispatched b r r' res"
proof -
  define r1 where "r1 = count_stream b (\<lambda>s. s\<lparr>sy_stale_blocks_discarded := sy_stale_blocks_discarded s + 1\<rparr>)
           (count (\<lambda>t. t\<lparr>ty_stale_blocks_discarded := ty_stale_blocks_discarded t + 1\<rparr>) (count_received b r))"
  have r1: "dispatched b r r1 (Inr ())"
    by (cases b) (auto simp: dispatched_def r1_def count_stream_def count_def count_received_def totalled_def queues_bounded_def balanced_def tally_of_def grows_def tally_grows_def)
  note d = assms [unfolded discard_stale_block_def Let_def, folded r1_def]
  show ?thesis
  proof (cases "rd_stream_active r1 \<and> (\<exists>a. anomaly_stale_run b (rd_active_run_id r1) = Inr a)")
    case False
    then show ?thesis using d r1 by (auto simp: dispatched_def split: if_splits sum.splits)
  next
    case True
    then obtain a where a: "rd_stream_active r1" "anomaly_stale_run b (rd_active_run_id r1) = Inr a" by blast
    obtain r2 x where q: "enqueue_stream_report (StaleReport a) r1 = (r2, x)" by fastforce
    obtain reports n where r2: "r2 = r1\<lparr>rd_stream_reports := reports, rd_tally := (rd_tally r1)\<lparr>ty_loss_report_queue_drops := n\<rparr>\<rparr>"
      "length (rd_stream_reports r1) \<le> rd_max_stream_reports r1 \<longrightarrow> 0 < rd_max_stream_reports r1 \<longrightarrow> length reports \<le> rd_max_stream_reports r1"
      using enqueue_effect [OF q] by (elim exE conjE)
    have "r' = r2" using d a q by simp
    then show ?thesis using r1 r2 by (auto simp: dispatched_def totalled_def queues_bounded_def balanced_def tally_of_def grows_def)
  qed
qed

definition made_room :: "'f reader \<Rightarrow> 'f reader \<Rightarrow> bool" where
  "made_room r r' \<longleftrightarrow> queues_bounded r' \<and> length (rd_blocks r') < rd_max_queued_blocks r' \<and> rd_terminal_error r' = rd_terminal_error r \<and>
     rd_closed r' = rd_closed r \<and> rd_current r' = rd_current r \<and> grows r r'"

lemma evict_effect:
  assumes "evict_oldest r = (r', res)" "queues_bounded r"
  shows "made_room r r' \<and> (totalled r \<longrightarrow> totalled r') \<and> (\<forall>ds. res = Inr () \<longrightarrow> balanced ds r \<longrightarrow> balanced ds r')"
proof (cases "rd_max_queued_blocks r \<le> length (rd_blocks r)")
  case False
  then have "r' = r" using assms(1) by (simp add: evict_oldest_def)
  then show ?thesis using False assms(2) by (simp add: made_room_def)
next
  case full: True
  then obtain b bs where bs: "rd_blocks r = b # bs" using assms(2) by (cases "rd_blocks r") (auto simp: queues_bounded_def)
  define r1 where "r1 = r\<lparr>rd_blocks := bs\<rparr>"
  have r1: "made_room r r1" "totalled r \<longrightarrow> totalled r1" using assms(2) bs by (simp_all add: made_room_def queues_bounded_def totalled_def r1_def grows_def tally_grows_def)
  note d = assms(1) [unfolded evict_oldest_def if_P [OF full] Let_def, unfolded bs list.sel, folded r1_def]
  show ?thesis
  proof (cases "loss_from_block b")
    case (Inl e)
    then have "r' = r1" "res \<noteq> Inr ()" using d by auto
    then show ?thesis using r1 by simp
  next
    case ll: (Inr ll)
    obtain r2 x where q: "enqueue_stream_report (HostLossReport ll) r1 = (r2, x)" by fastforce
    obtain reports n where r2: "r2 = r1\<lparr>rd_stream_reports := reports, rd_tally := (rd_tally r1)\<lparr>ty_loss_report_queue_drops := n\<rparr>\<rparr>"
        "length (rd_stream_reports r1) \<le> rd_max_stream_reports r1 \<longrightarrow> 0 < rd_max_stream_reports r1 \<longrightarrow> length reports \<le> rd_max_stream_reports r1"
      using enqueue_effect [OF q] by (elim exE conjE)
    have made: "made_room r r2" "totalled r \<longrightarrow> totalled r2" using r1 r2(2) by (auto simp: made_room_def queues_bounded_def totalled_def r2(1) grows_def)
    show ?thesis
    proof (cases x)
      case (Inl e)
      then have "r' = r2" "res \<noteq> Inr ()" using d ll q by auto
      then show ?thesis using made by simp
    next
      case (Inr u)
      have r': "r' = count_stream b (\<lambda>s. s\<lparr>sy_block_queue_drops := sy_block_queue_drops s + 1,
          sy_item_queue_drops := sy_item_queue_drops s + block_item_count b\<rparr>) (count (\<lambda>t. t\<lparr>ty_host_block_queue_drops := ty_host_block_queue_drops t + 1\<rparr>) r2)"
        using d q ll Inr by simp
      have "made_room r r'" using made(1) unfolding r' by (cases b) (simp_all add: made_room_def queues_bounded_def count_stream_def count_def grows_def tally_grows_def)
      moreover have "totalled r \<longrightarrow> totalled r'" using made(2) unfolding r' by (cases b) (auto simp: totalled_def count_stream_def count_def)
      moreover have "balanced ds r \<longrightarrow> balanced ds r'" for ds
        unfolding r' r2(1) r1_def using bs by (cases b) (simp_all add: balanced_def tally_of_def count_stream_def count_def)
      ultimately show ?thesis by blast
    qed
  qed
qed

lemma dispatch_block_dispatched:
  assumes "dispatch_block b r = (r', res)" "queues_bounded r"
  shows "dispatched b r r' res"
proof -
  define r1 where "r1 = count_received b r"
  have r1: "queues_bounded r1" "totalled r \<longrightarrow> totalled r1" "rd_terminal_error r1 = rd_terminal_error r" "rd_closed r1 = rd_closed r" "rd_current r1 = rd_current r" "grows r r1"
    using assms(2) by (cases b; simp add: r1_def count_received_def count_stream_def queues_bounded_def totalled_def grows_def tally_grows_def)+
  note d = assms(1) [unfolded dispatch_block_def Let_def, folded r1_def]
  show ?thesis
  proof (cases "\<not> rd_stream_active r1 \<or> block_run_id b \<noteq> rd_active_run_id r1")
    case True
    then show ?thesis using d discard_stale_dispatched [of b r r' res] by (simp add: r1_def)
  next
    case active: False
    show ?thesis
    proof (cases "block_checksum_algorithm b \<noteq> rd_active_checksum_algorithm r1")
      case True
      then have "r' = r1" "res \<noteq> Inr ()" using d active by auto
      then show ?thesis using r1 by (simp add: dispatched_def)
    next
      case False
      obtain r2 x where ev: "evict_oldest r1 = (r2, x)" by fastforce
      note e = evict_effect [OF ev r1(1)]
      show ?thesis
      proof (cases x)
        case (Inl y)
        then have "r' = r2" "res \<noteq> Inr ()" using d active False ev by auto
        then show ?thesis using e r1 grows_trans [of r r1 r2] by (simp add: dispatched_def made_room_def)
      next
        case (Inr u)
        define r3 where "r3 = r2\<lparr>rd_blocks := rd_blocks r2 @ [b]\<rparr>"
        have r': "r' = count (\<lambda>t. t\<lparr>ty_block_queue_high_water := max (ty_block_queue_high_water t) (int (length (rd_blocks r3)))\<rparr>) r3"
          using d active False ev Inr by (simp add: r3_def)
        have "queues_bounded r'" "totalled r \<longrightarrow> totalled r'" using e r1 by (auto simp: r' r3_def made_room_def queues_bounded_def totalled_def count_def)
        moreover have "balanced ds r'" if "balanced ds r" for ds
        proof -
          have "sy_frames_received (tally_of k r1) = kind_count k (delivered_blocks ds) + kind_count k (rd_blocks r1) +
              sy_block_queue_drops (tally_of k r1) + sy_boundary_blocks_discarded (tally_of k r1) + sy_stale_blocks_discarded (tally_of k r1) + of_bool (block_kind b = k)"
            if "k \<in> {FK_ADC_DATA, FK_GPIO_DATA}" for k
            using \<open>balanced ds r\<close> that by (cases b) (auto simp: balanced_def tally_of_def r1_def count_received_def count_stream_def)
          then have "balanced (ds @ [DataItem b]) r1" by (auto simp: balanced_def)
          then have "balanced (ds @ [DataItem b]) r2" using e Inr by simp
          then show ?thesis by (auto simp: balanced_def r' r3_def count_def tally_of_def)
        qed
        moreover have "grows r r'" using e grows_trans [OF r1(6), of r2] by (simp add: r' r3_def count_def made_room_def grows_def)
        ultimately show ?thesis using e r1 by (simp add: dispatched_def made_room_def r' r3_def count_def)
      qed
    qed
  qed
qed

lemma dispatch_event_keeps:
  assumes "queues_bounded r"
  shows "queues_bounded (dispatch_event x r) \<and> balanced ds (dispatch_event x r) = balanced ds r \<and> totalled (dispatch_event x r) = totalled r \<and>
    rd_terminal_error (dispatch_event x r) = rd_terminal_error r \<and> rd_closed (dispatch_event x r) = rd_closed r \<and> grows r (dispatch_event x r)"
proof (cases "rd_max_queued_events r \<le> length (rd_events r)")
  case True
  then obtain y ys where "rd_events r = y # ys" using assms by (cases "rd_events r") (auto simp: queues_bounded_def)
  then show ?thesis using assms True
    by (auto simp: dispatch_event_def Let_def count_def queues_bounded_def balanced_def totalled_def tally_of_def grows_def tally_grows_def)
next
  case False
  then show ?thesis using assms by (auto simp: dispatch_event_def Let_def count_def queues_bounded_def balanced_def totalled_def tally_of_def grows_def tally_grows_def)
qed

section \<open>The account is an invariant\<close>

text \<open>A step keeps the account when it keeps the reader healthy.\<close>

definition keeps_account :: "'f reader \<Rightarrow> ReaderStreamItem list \<Rightarrow> 'f reader \<Rightarrow> bool" where
  "keeps_account r xs r' \<longleftrightarrow> queues_bounded r' \<and> grows r r' \<and> (totalled r \<longrightarrow> totalled r') \<and>
     (healthy r' \<longrightarrow> healthy r \<and> (\<forall>ds. balanced ds r \<longrightarrow> balanced (ds @ xs) r'))"

lemma keeps_account_run:
  assumes "run_effect r r'" "queues_bounded r"
  shows "keeps_account r [] r'"
  using run_effect_ok [OF assms(1)] assms(2) by (auto simp: keeps_account_def)

lemma keeps_account_same:
  assumes "stream_view r' = stream_view r" "healthy r' \<longrightarrow> healthy r" "queues_bounded r"
  shows "keeps_account r [] r'"
  using stream_view_cong [OF assms(1)] assms(2,3) by (auto simp: keeps_account_def)

lemma only_requests_healthy: "only_requests r r' \<Longrightarrow> healthy r' = healthy r"
  by (simp add: healthy_def only_requestsD)

lemma keeps_account_dead:
  assumes "stream_view r' = stream_view r" "\<not> healthy r'" "queues_bounded r"
  shows "keeps_account r [] r'"
  using stream_view_cong [OF assms(1)] assms(2,3) by (auto simp: keeps_account_def)

lemma terminate_account: "queues_bounded r \<Longrightarrow> keeps_account r [] (terminate e pf dc r)"
  by (rule keeps_account_dead [OF terminate_keeps(1,2)])

lemma complete_account: "queues_bounded r \<Longrightarrow> keeps_account r [] (complete_with_error i e t r)"
  by (simp add: keeps_account_same only_requestsD(1) [OF complete_with_error_only] only_requests_healthy [OF complete_with_error_only])

lemma write_failed_account: "queues_bounded r \<Longrightarrow> keeps_account r [] (write_failed i failure r)"
  by (cases failure) (simp_all add: write_failed_def terminate_account complete_account)

lemma finish_request_account:
  assumes "finish_request i r = (r', res)" "queues_bounded r"
  shows "keeps_account r [] r'"
proof -
  define r1 where "r1 = (if pr_completed (rd_requests r ! i) then r else complete_with_error i RequestTimeoutError True r)"
  have o: "only_requests r r1" by (simp add: r1_def complete_with_error_only only_requests_refl)
  consider "r' = r1" | "r' = terminate ReaderProtocolError True False r1"
    using assms(1) [unfolded finish_request_def Let_def, folded r1_def] by (auto split: option.splits)
  then show ?thesis
  proof cases
    case 1
    then show ?thesis using o assms(2) by (simp add: keeps_account_same only_requestsD(1) only_requests_healthy)
  next
    case 2
    then show ?thesis using terminate_keeps [of ReaderProtocolError True False r1] o assms(2) by (intro keeps_account_dead) (simp_all add: only_requestsD(1))
  qed
qed

lemma take_frame_account:
  assumes "rd_current r = Idle" "queues_bounded r"
  shows "keeps_account r [] (take_frame codec wire r)"
proof -
  define r' where "r' = take_frame codec wire r"
  have cases: "r' = r\<lparr>rd_thread_alive := False\<rparr> \<or> r' = r\<lparr>rd_current := Failed\<rparr> \<or>
      (\<exists>m. r' = (count (\<lambda>t. t\<lparr>ty_frames_received := ty_frames_received t + 1\<rparr>) r)\<lparr>rd_current := Decoded m\<rparr>) \<or>
      r' = count (\<lambda>t. t\<lparr>ty_stale_blocks_discarded := ty_stale_blocks_discarded t + 1\<rparr>) r"
    unfolding r'_def take_frame_def Let_def by (auto split: wire_frame.splits option.splits sum.splits)
  have "keeps_account r [] r'"
    using cases
  proof (elim disjE exE)
    assume r': "r' = count (\<lambda>t. t\<lparr>ty_stale_blocks_discarded := ty_stale_blocks_discarded t + 1\<rparr>) r"
    show ?thesis using assms(2)
      by (auto simp: r' keeps_account_def healthy_def count_def queues_bounded_def totalled_def grows_def tally_grows_def balanced_def tally_of_def)
  qed (use assms in \<open>auto simp: keeps_account_def healthy_def count_def queues_bounded_def totalled_def grows_def tally_grows_def balanced_def tally_of_def\<close>)
  then show ?thesis by (simp add: r'_def)
qed

lemma dispatch_current_account:
  assumes "queues_bounded r"
  shows "keeps_account r [] (dispatch_current r)"
proof (cases "rd_current r")
  case Idle
  then show ?thesis using assms by (simp add: dispatch_current_def keeps_account_def)
next
  case Failed
  then show ?thesis using terminate_keeps [of ReaderProtocolError True False r] assms
    by (intro keeps_account_dead) (auto simp: dispatch_current_def stream_view_def healthy_def simp del: not_None_eq)
next
  case (Decoded m)
  show ?thesis
  proof (cases m)
    case (ResponseMessage response version)
    obtain r1 res where d: "dispatch_response response version r = (r1, res)" by fastforce
    note e = dispatch_response_effect [OF d]
    have "keeps_account r [] r1" by (rule keeps_account_run [OF e assms])
    then show ?thesis using Decoded ResponseMessage d e
      by (auto simp: dispatch_current_def keeps_account_def healthy_def run_effect_def queues_bounded_def totalled_def grows_def tally_grows_def balanced_def tally_of_def split: sum.splits)
  next
    case (BlockMessage b)
    obtain r1 res where d: "dispatch_block b r = (r1, res)" by fastforce
    have e: "dispatched b r r1 res" by (rule dispatch_block_dispatched [OF d assms])
    show ?thesis
    proof (cases res)
      case (Inl y)
      then have "dispatch_current r = r1\<lparr>rd_current := Failed\<rparr>" using Decoded BlockMessage d by (simp add: dispatch_current_def)
      then show ?thesis using e assms by (simp add: keeps_account_def healthy_def dispatched_def queues_bounded_def totalled_def grows_def)
    next
      case (Inr u)
      then have r': "dispatch_current r = r1\<lparr>rd_current := Idle\<rparr>" using Decoded BlockMessage d by (simp add: dispatch_current_def)
      have v: "stream_view (r1\<lparr>rd_current := Idle\<rparr>) = stream_view r1" by (simp add: stream_view_def)
      show ?thesis using e assms Inr Decoded stream_view_cong [OF v] by (simp add: r' keeps_account_def healthy_def dispatched_def)
    qed
  next
    case (EventMessage x)
    have v: "stream_view ((dispatch_event x r)\<lparr>rd_current := Idle\<rparr>) = stream_view (dispatch_event x r)" by (simp add: stream_view_def)
    show ?thesis using Decoded EventMessage dispatch_event_keeps [OF assms, where x = x] stream_view_cong [OF v]
      by (simp add: dispatch_current_def keeps_account_def healthy_def)
  qed
qed

lemma wait_step_account:
  assumes "wait_step needs expired r = (r', x)" "queues_bounded r"
  shows "keeps_account r [] r'" "x \<noteq> Ready y"
proof -
  have "r' = r \<or> r' = wait_timed_out r"
    using assms(1) by (auto simp: wait_step_def split: option.splits if_splits)
  then show "keeps_account r [] r'" using assms(2)
    by (auto intro!: keeps_account_same simp: wait_timed_out_def count_def stream_view_def healthy_def)
  show "x \<noteq> Ready y" using assms(1) by (auto simp: wait_step_def split: option.splits if_splits)
qed

lemma poll_cases: obtains x where "p = Ready x" | "\<forall>f. polled f p = []"
  by (cases p) auto

lemma await_block_account:
  assumes "await_block woken expired r = (r', x)" "queues_bounded r"
  shows "keeps_account r (polled DataItem x) r'"
proof (cases "woken \<and> rd_closed r")
  case True
  then show ?thesis using assms by (auto simp: await_block_def keeps_account_def healthy_def)
next
  case False
  show ?thesis
  proof (cases "rd_blocks r")
    case Nil
    then have "wait_step True expired r = (r', x)" using assms(1) False by (simp add: await_block_def)
    from wait_step_account [OF this assms(2)] show ?thesis by (cases x) auto
  next
    case (Cons b bs)
    then have "r' = r\<lparr>rd_blocks := bs\<rparr>" "x = Ready b" using assms(1) False by (auto simp: await_block_def)
    then show ?thesis using assms(2) Cons by (auto simp: keeps_account_def queues_bounded_def totalled_def grows_def tally_grows_def balanced_def tally_of_def healthy_def)
  qed
qed

lemma await_stream_item_account:
  assumes "await_stream_item woken expired r = (r', x)" "queues_bounded r"
  shows "keeps_account r (polled id x) r'"
proof (cases "woken \<and> rd_closed r")
  case True
  then show ?thesis using assms by (auto simp: await_stream_item_def keeps_account_def healthy_def)
next
  case False
  show ?thesis
  proof (cases "rd_stream_reports r")
    case Nil
    show ?thesis
    proof (cases "rd_blocks r")
      case Nil
      then have "wait_step True expired r = (r', x)" using assms(1) False \<open>rd_stream_reports r = []\<close> by (simp add: await_stream_item_def)
      from wait_step_account [OF this assms(2)] show ?thesis by (cases x) auto
    next
      case (Cons b bs)
      then have "r' = r\<lparr>rd_blocks := bs\<rparr>" "x = Ready (DataItem b)" using assms(1) False Nil by (auto simp: await_stream_item_def)
      then show ?thesis using assms(2) Cons by (auto simp: keeps_account_def queues_bounded_def totalled_def grows_def tally_grows_def balanced_def tally_of_def healthy_def)
    qed
  next
    case (Cons p ps)
    then have "r' = r\<lparr>rd_stream_reports := ps\<rparr>" "x = Ready (ReportItem p)" using assms(1) False by (auto simp: await_stream_item_def)
    then show ?thesis using assms(2) Cons by (auto simp: keeps_account_def queues_bounded_def totalled_def grows_def tally_grows_def balanced_def tally_of_def healthy_def)
  qed
qed

lemma await_event_account:
  assumes "await_event woken expired r = (r', x)" "queues_bounded r"
  shows "keeps_account r [] r'"
proof (cases "woken \<and> rd_closed r \<or> rd_events r = []")
  case True
  then show ?thesis using assms wait_step_account(1) [of False expired r r' x]
    by (auto simp: await_event_def keeps_account_same split: if_splits)
next
  case False
  then obtain y ys where "rd_events r = y # ys" "r' = r\<lparr>rd_events := ys\<rparr>" using assms(1) by (auto simp: await_event_def split: list.splits)
  then show ?thesis using assms(2) by (auto simp: keeps_account_def queues_bounded_def totalled_def grows_def tally_grows_def balanced_def tally_of_def healthy_def)
qed

lemma close_account: "queues_bounded r \<Longrightarrow> keeps_account r [] (close_reader r)"
proof -
  assume b: "queues_bounded r"
  let ?r = "r\<lparr>rd_closed := True, rd_stop := True\<rparr>"
  note f = only_requestsD [OF fail_all_only [of ?r ReaderClosedError]]
  have v: "stream_view ?r = stream_view r" by (simp add: stream_view_def)
  have q: "queues_bounded (fail_all_pending ReaderClosedError ?r)" "totalled (fail_all_pending ReaderClosedError ?r) = totalled r"
      "grows r (fail_all_pending ReaderClosedError ?r)"
    using stream_view_cong [OF f(1) [unfolded v]] b by simp_all
  show ?thesis
  proof (cases "rd_closed r")
    case True
    then show ?thesis using b by (simp add: close_reader_def keeps_account_def healthy_def)
  next
    case False
    define s where "s = fail_all_pending ReaderClosedError ?r"
    have c: "close_reader r = s\<lparr>rd_blocks := [], rd_stream_reports := [], rd_events := [], rd_stream_active := False\<rparr>"
      using False by (simp add: close_reader_def s_def)
    have "queues_bounded (close_reader r)" using q(1) [folded s_def] by (simp add: c queues_bounded_def)
    moreover have "grows r (close_reader r)" using q(3) [folded s_def] by (simp add: c grows_def)
    moreover have "totalled (close_reader r) = totalled r" using q(2) [folded s_def] by (simp add: c totalled_def)
    moreover have "\<not> healthy (close_reader r)" using f(3) [folded s_def] by (simp add: c healthy_def)
    ultimately show ?thesis by (simp add: keeps_account_def)
  qed
qed

lemma reader_step_account:
  assumes "reader_step codec r xs r'" "queues_bounded r"
  shows "keeps_account r xs r'"
  using assms
proof (cases rule: reader_step.cases)
  case (request kind payload timeout now version negotiating res)
  then show ?thesis using begin_request_keeps [OF request(2)] assms(2) by (simp add: keeps_account_same healthy_def)
next
  case (write_failure i failure)
  then show ?thesis using write_failed_account assms(2) by blast
next
  case (finish i res)
  then show ?thesis using finish_request_account assms(2) by blast
next
  case (expire now)
  then show ?thesis using expire_pending_only [of r now] assms(2) by (simp add: keeps_account_same only_requestsD(1) only_requests_healthy)
next
  case (read received readinto)
  then show ?thesis using assms(2) by (auto intro!: keeps_account_same simp: record_read_def count_def stream_view_def healthy_def)
next
  case (frame wire)
  then show ?thesis using take_frame_account assms(2) by blast
next
  case dispatch
  then show ?thesis using dispatch_current_account assms(2) by blast
next
  case lost
  then show ?thesis using assms(2) terminate_keeps [of DeviceDisconnectedError False True r]
    by (cases "rd_stop r") (auto intro!: keeps_account_same simp: transport_lost_def stream_view_def healthy_def)
next
  case parser
  then show ?thesis using assms(2) terminate_keeps [of ReaderProtocolError True False r]
    by (auto intro!: keeps_account_same simp: parser_failed_def stream_view_def healthy_def)
next
  case (start transport_open res)
  then show ?thesis using assms(2)
    by (auto intro!: keeps_account_same simp: start_reader_def stream_view_def healthy_def split: if_splits option.splits)
next
  case close
  then show ?thesis using close_account assms(2) by blast
next
  case (activate run checksum configuration version res)
  then have "run_effect r r'"
    by (auto simp: activate_run_def Let_def run_effect_refl split: if_splits sum.splits
        dest!: activate_run_locked_effect intro: update_effect(1) [OF update_effect(2)] update_effect(2) [OF update_effect(1)])
  then show ?thesis using activate(1) assms(2) by (simp add: keeps_account_run)
next
  case (activate_v3 run settings res)
  then have "run_effect r r'"
    by (auto simp: activate_v3_run_def run_effect_refl split: sum.splits
        dest!: activate_run_locked_effect intro: update_effect(1) [OF update_effect(2)] update_effect(2) [OF update_effect(1)])
  then show ?thesis using activate_v3(1) assms(2) by (simp add: keeps_account_run)
next
  case (deactivate res)
  then have "run_effect r r'" using deactivate_effect by (auto simp: deactivate_stream_def run_effect_refl split: sum.splits)
  then show ?thesis using deactivate(1) assms(2) by (simp add: keeps_account_run)
next
  case (block refused expired b)
  then show ?thesis using await_block_account assms(2)
    by (auto simp: get_block_def keeps_account_same split: sum.splits if_splits)
next
  case (block_wait expired b)
  then show ?thesis using await_block_account assms(2) by blast
next
  case (stream_item refused expired x)
  then show ?thesis using await_stream_item_account assms(2)
    by (auto simp: get_stream_item_def keeps_account_same split: sum.splits if_splits)
next
  case (item_wait expired x)
  then show ?thesis using await_stream_item_account assms(2) by blast
next
  case timed_out
  then show ?thesis using assms(2) by (auto intro!: keeps_account_same simp: wait_timed_out_def count_def stream_view_def healthy_def)
next
  case (event expired e)
  then show ?thesis using await_event_account assms(2) by (auto simp: get_event_def keeps_account_same split: sum.splits)
next
  case (event_wait expired e)
  then show ?thesis using await_event_account assms(2) by blast
qed

lemma reader_reach_account:
  "reader_reach codec r ds \<Longrightarrow> queues_bounded r \<and> totalled r \<and> (healthy r \<longrightarrow> balanced ds r)"
proof (induction rule: reader_reach.induct)
  case (init rsize pending blocks events timeouts first r)
  then show ?case
    by (auto simp: BackgroundReader_def require_eq_Inr queues_bounded_def totalled_def grows_def tally_grows_def balanced_def tally_of_def no_tally_def no_stream_tally_def)
next
  case (step r ds xs r')
  then show ?case using reader_step_account [OF step.hyps(2)] by (auto simp: keeps_account_def)
qed

end
