(* ===== verification/Reader_Requests.thy ===== *)
theory Reader_Requests
  imports Reader_Run
begin

text \<open>
  Request correlation of the background reader: every request is answered by its own response or by an error,
  and none is forgotten.
\<close>

section \<open>The table of pending requests\<close>

text \<open>A response that a frame of protocol version \<open>version\<close> decodes to (for a legacy frame, under some configuration).\<close>

definition decoded_from :: "'f legacy_codec \<Rightarrow> int \<Rightarrow> reader_response \<Rightarrow> bool" where
  "decoded_from codec version response \<longleftrightarrow> (\<exists>wire. frame_version codec wire = version \<and> (case wire of
       WireV3 f \<Rightarrow> \<exists>v. decode_v3_response f = Inr v \<and> response = V3Reply v
     | WireLegacy f \<Rightarrow> \<exists>configuration c. lc_decode codec configuration f = Inr (LegacyReply c) \<and> response = LegacyResponse c))"

definition matches :: "'f legacy_codec \<Rightarrow> PendingRequest \<Rightarrow> reader_response \<Rightarrow> bool" where
  "matches codec p response \<longleftrightarrow> response_request_id response = pr_request_id p \<and>
     (response_kind response = pr_expected_kind p \<or> response_kind response = KIND_ERROR_RESPONSE) \<and>
     decoded_from codec (pr_protocol_version p) response"

definition request_ok :: "'f legacy_codec \<Rightarrow> PendingRequest \<Rightarrow> bool" where
  "request_ok codec p \<longleftrightarrow> (pr_completed p \<longrightarrow> \<not> unresolved p) \<and> (\<forall>response. pr_response p = Some response \<longrightarrow> matches codec p response)"

definition table_ok :: "PendingRequest list \<Rightarrow> (int \<times> nat) list \<Rightarrow> bool" where
  "table_ok qs ps \<longleftrightarrow> distinct (map fst ps) \<and>
     (\<forall>(q, i) \<in> set ps. i < length qs \<and> pr_request_id (qs ! i) = q \<and> unresolved (qs ! i) \<and> 1 \<le> q \<and> q \<le> UINT32_MAX) \<and>
     (\<forall>i < length qs. unresolved (qs ! i) \<longrightarrow> (pr_request_id (qs ! i), i) \<in> set ps)"

definition ended :: "'f reader \<Rightarrow> bool" where
  "ended r \<longleftrightarrow> rd_terminal_error r \<noteq> None \<or> rd_closed r"

definition requests_ok :: "'f legacy_codec \<Rightarrow> 'f reader \<Rightarrow> bool" where
  "requests_ok codec r \<longleftrightarrow> table_ok (rd_requests r) (rd_pending r) \<and> (\<forall>p \<in> set (rd_requests r). request_ok codec p) \<and>
     1 \<le> rd_next_request_id r \<and> rd_next_request_id r \<le> UINT32_MAX \<and> length (rd_pending r) \<le> rd_max_pending_requests r \<and>
     (ended r \<longrightarrow> rd_pending r = [])"

text \<open>A resolved request never changes again.\<close>

definition settled_kept :: "PendingRequest list \<Rightarrow> PendingRequest list \<Rightarrow> bool" where
  "settled_kept qs qs' \<longleftrightarrow> length qs \<le> length qs' \<and> (\<forall>i < length qs. \<not> unresolved (qs ! i) \<longrightarrow> qs' ! i = qs ! i)"

definition keeps_requests :: "'f legacy_codec \<Rightarrow> 'f reader \<Rightarrow> 'f reader \<Rightarrow> bool" where
  "keeps_requests codec r r' \<longleftrightarrow> (requests_ok codec r \<longrightarrow> requests_ok codec r' \<and> settled_kept (rd_requests r) (rd_requests r'))"

definition request_view :: "'f reader \<Rightarrow> _" where
  "request_view r = (rd_requests r, rd_pending r, rd_next_request_id r, rd_max_pending_requests r, ended r)"

lemma request_view_cong: "request_view r' = request_view r \<Longrightarrow> requests_ok codec r' = requests_ok codec r"
  by (auto simp: request_view_def requests_ok_def)

lemma settled_kept_refl [simp]: "settled_kept qs qs"
  by (simp add: settled_kept_def)

lemma settled_kept_trans: "settled_kept a b \<Longrightarrow> settled_kept b c \<Longrightarrow> settled_kept a c"
  unfolding settled_kept_def by (metis le_trans order_less_le_trans)

lemma keeps_requests_trans: "keeps_requests codec r s \<Longrightarrow> keeps_requests codec s t \<Longrightarrow> keeps_requests codec r t"
  by (auto simp: keeps_requests_def intro: settled_kept_trans)

lemma keeps_same: "request_view r' = request_view r \<Longrightarrow> keeps_requests codec r r'"
  using request_view_cong [of r' r] by (auto simp: keeps_requests_def request_view_def)

text \<open>Resolving one pending request and taking it out of the table.\<close>

lemma resolve_table:
  assumes t: "table_ok qs ps" and e: "(q, i) \<in> set ps" and p: "\<not> unresolved p" "pr_request_id p = q"
  shows "table_ok (qs[i := p]) (filter (\<lambda>x. fst x \<noteq> q) ps)" "settled_kept qs (qs[i := p])"
    "filter (\<lambda>x. fst x \<noteq> q) ps = filter (\<lambda>x. x \<noteq> (q, i)) ps"
proof -
  have i: "i < length qs" "pr_request_id (qs ! i) = q" "unresolved (qs ! i)" and d: "distinct (map fst ps)" using t e by (auto simp: table_ok_def)
  have only: "x = (q, i)" if "x \<in> set ps" "fst x = q" for x using d e that by (metis eq_key_imp_eq_value prod.collapse)
  show "filter (\<lambda>x. fst x \<noteq> q) ps = filter (\<lambda>x. x \<noteq> (q, i)) ps" 
  proof (rule filter_cong [OF refl])
    fix x assume "x \<in> set ps"
    then show "(fst x \<noteq> q) = (x \<noteq> (q, i))" using only [of x] by (cases "fst x = q") auto
  qed
  have other: "j \<noteq> i" if "(q', j) \<in> set ps" "q' \<noteq> q" for q' j using t that i(2) by (fastforce simp: table_ok_def)
  have "distinct (map fst (filter (\<lambda>x. fst x \<noteq> q) ps))" using d by (simp add: distinct_map_filter)
  moreover have "\<forall>(q', j) \<in> set (filter (\<lambda>x. fst x \<noteq> q) ps). j < length (qs[i := p]) \<and> pr_request_id (qs[i := p] ! j) = q' \<and>
      unresolved (qs[i := p] ! j) \<and> 1 \<le> q' \<and> q' \<le> UINT32_MAX"
  proof (clarsimp, intro conjI)
    fix q' j assume m: "(q', j) \<in> set ps" "q' \<noteq> q"
    then show "j < length qs" "pr_request_id (qs[i := p] ! j) = q'" "unresolved (qs[i := p] ! j)" "1 \<le> q'" "q' \<le> UINT32_MAX"
      using t other [OF m] by (auto simp: table_ok_def)
  qed
  moreover have "\<forall>j < length (qs[i := p]). unresolved (qs[i := p] ! j) \<longrightarrow> (pr_request_id (qs[i := p] ! j), j) \<in> set (filter (\<lambda>x. fst x \<noteq> q) ps)"
  proof (intro allI impI)
    fix j assume j: "j < length (qs[i := p])" "unresolved (qs[i := p] ! j)"
    then have ne: "j \<noteq> i" using i(1) p(1) by auto
    then have m: "(pr_request_id (qs ! j), j) \<in> set ps" using t j by (auto simp: table_ok_def)
    then have "pr_request_id (qs ! j) \<noteq> q" using only [of "(pr_request_id (qs ! j), j)"] ne by auto
    then show "(pr_request_id (qs[i := p] ! j), j) \<in> set (filter (\<lambda>x. fst x \<noteq> q) ps)" using m ne by simp
  qed
  ultimately show "table_ok (qs[i := p]) (filter (\<lambda>x. fst x \<noteq> q) ps)" unfolding table_ok_def by blast
  show "settled_kept qs (qs[i := p])" 
    unfolding settled_kept_def
  proof (intro conjI allI impI)
    fix j assume "j < length qs" "\<not> unresolved (qs ! j)"
    then show "qs[i := p] ! j = qs ! j" using i(3) by (cases "j = i") auto
  qed simp
qed

lemma resolve_keeps:
  assumes ok: "requests_ok codec r" and e: "(q, i) \<in> set (rd_pending r)" and p: "\<not> unresolved p" "pr_request_id p = q" "request_ok codec p"
    and r': "rd_requests r' = (rd_requests r)[i := p]" "rd_pending r' = filter (\<lambda>x. fst x \<noteq> q) (rd_pending r)"
      "rd_next_request_id r' = rd_next_request_id r" "rd_max_pending_requests r' = rd_max_pending_requests r" "ended r' = ended r"
  shows "requests_ok codec r'" "settled_kept (rd_requests r) (rd_requests r')"
proof -
  have t: "table_ok (rd_requests r) (rd_pending r)" using ok by (simp add: requests_ok_def)
  note k = resolve_table [OF t e p(1,2)]
  have "length (rd_pending r') \<le> length (rd_pending r)" by (simp add: r')
  moreover have "set (rd_requests r') \<subseteq> insert p (set (rd_requests r))" by (simp add: r' set_update_subset_insert)
  moreover have "ended r' \<longrightarrow> rd_pending r' = []" using ok by (simp add: requests_ok_def r')
  ultimately show "requests_ok codec r'" using ok k(1) p(3) unfolding requests_ok_def r'(1,3,4) r'(2) [symmetric] by fastforce
  show "settled_kept (rd_requests r) (rd_requests r')" using k(2) by (simp add: r')
qed

lemma pending_entry:
  "requests_ok codec r \<Longrightarrow> i < length (rd_requests r) \<Longrightarrow> unresolved (rd_requests r ! i) \<Longrightarrow> (pr_request_id (rd_requests r ! i), i) \<in> set (rd_pending r)"
  by (auto simp: requests_ok_def table_ok_def)

lemma error_request_ok: "unresolved p \<Longrightarrow> request_ok codec (p\<lparr>pr_error := Some e, pr_completed := True\<rparr>)" "\<not> unresolved (p\<lparr>pr_error := Some e, pr_completed := True\<rparr>)"
  by (auto simp: request_ok_def unresolved_def)

lemma complete_with_error_keeps:
  assumes "i < length (rd_requests r)"
  shows "keeps_requests codec r (complete_with_error i e t r)"
proof (cases "unresolved (rd_requests r ! i)")
  case False
  then show ?thesis by (simp add: complete_with_error_def keeps_requests_def)
next
  case True
  show ?thesis unfolding keeps_requests_def
  proof (rule impI)
    assume ok: "requests_ok codec r"
    let ?p = "(rd_requests r ! i)\<lparr>pr_error := Some e, pr_completed := True\<rparr>"
    note m = pending_entry [OF ok assms True]
    have t: "table_ok (rd_requests r) (rd_pending r)" using ok by (simp add: requests_ok_def)
    have "\<not> unresolved ?p" "pr_request_id ?p = pr_request_id (rd_requests r ! i)" "request_ok codec ?p" using error_request_ok(1) [OF True, where codec = codec and e = e] error_request_ok(2) by simp_all
    note k = resolve_keeps [OF ok m this] and f = resolve_table(3) [OF t m this(1,2)]
    show "requests_ok codec (complete_with_error i e t r) \<and> settled_kept (rd_requests r) (rd_requests (complete_with_error i e t r))"
      using k [of "complete_with_error i e t r"] True f
      by (simp add: complete_with_error_def set_request_def count_def Let_def ended_def)
  qed
qed

lemma expire_request_keeps:
  assumes ok: "requests_ok codec r" and e: "(q, i) \<in> set (rd_pending r)"
  shows "requests_ok codec (expire_request i r)" "settled_kept (rd_requests r) (rd_requests (expire_request i r))"
    "rd_pending (expire_request i r) = filter (\<lambda>x. fst x \<noteq> q) (rd_pending r)"
proof -
  let ?p = "(rd_requests r ! i)\<lparr>pr_error := Some RequestTimeoutError, pr_completed := True\<rparr>"
  have u: "unresolved (rd_requests r ! i)" "pr_request_id (rd_requests r ! i) = q" using ok e by (auto simp: requests_ok_def table_ok_def)
  have "\<not> unresolved ?p" "pr_request_id ?p = q" "request_ok codec ?p" using error_request_ok(1) [OF u(1)] error_request_ok(2) u(2) by simp_all
  note k = resolve_keeps [OF ok e this]
  show p: "rd_pending (expire_request i r) = filter (\<lambda>x. fst x \<noteq> q) (rd_pending r)"
    using u by (simp add: expire_request_def set_request_def count_def Let_def)
  show "requests_ok codec (expire_request i r)" "settled_kept (rd_requests r) (rd_requests (expire_request i r))"
    by (rule k; use u p in \<open>simp add: expire_request_def set_request_def count_def Let_def ended_def\<close>)+
qed

lemma expire_list_keeps:
  "requests_ok codec r \<Longrightarrow> distinct (map fst es) \<Longrightarrow> set es \<subseteq> set (rd_pending r) \<Longrightarrow>
     requests_ok codec (fold expire_request (map snd es) r) \<and> settled_kept (rd_requests r) (rd_requests (fold expire_request (map snd es) r))"
proof (induction es arbitrary: r)
  case (Cons x es)
  obtain q i where x: "x = (q, i)" by (cases x) auto
  have e: "(q, i) \<in> set (rd_pending r)" using Cons.prems(3) x by simp
  note k = expire_request_keeps [OF Cons.prems(1) e]
  have "set es \<subseteq> set (rd_pending (expire_request i r))" using Cons.prems(2,3) x by (auto simp: k(3) image_iff)
  with Cons.IH [OF k(1)] Cons.prems(2) k(2) show ?case by (auto simp: x intro: settled_kept_trans)
qed simp

lemma expire_pending_keeps: "keeps_requests codec r (expire_pending_requests now r)"
  unfolding keeps_requests_def
proof (rule impI)
  assume ok: "requests_ok codec r"
  then have d: "distinct (map fst (rd_pending r))" by (simp add: requests_ok_def table_ok_def)
  show "requests_ok codec (expire_pending_requests now r) \<and> settled_kept (rd_requests r) (rd_requests (expire_pending_requests now r))"
    unfolding expire_pending_requests_def by (rule expire_list_keeps [OF ok]) (use d in \<open>auto simp: distinct_map_filter\<close>)
qed

section \<open>Ending the session\<close>

lemma fail_fold:
  assumes "i < length (rd_requests r)"
  shows "rd_requests (fold (fail_request e) is r) ! i =
    (if i \<in> set is \<and> unresolved (rd_requests r ! i) then (rd_requests r ! i)\<lparr>pr_error := Some e, pr_completed := True\<rparr> else rd_requests r ! i) \<and>
    length (rd_requests (fold (fail_request e) is r)) = length (rd_requests r)"
  using assms
proof (induction "is" arbitrary: r)
  case (Cons j js)
  let ?r = "fail_request e j r"
  have len: "length (rd_requests ?r) = length (rd_requests r)" by (simp add: fail_request_def)
  have at: "rd_requests ?r ! i = (if i = j \<and> unresolved (rd_requests r ! i) then (rd_requests r ! i)\<lparr>pr_error := Some e, pr_completed := True\<rparr> else rd_requests r ! i)"
    using Cons.prems by (auto simp: fail_request_def)
  show ?case using Cons.IH [of ?r] Cons.prems len at error_request_ok(2) by auto
qed simp

lemma fail_fold_keeps:
  "rd_pending (fold (fail_request e) is r) = rd_pending r \<and> rd_next_request_id (fold (fail_request e) is r) = rd_next_request_id r \<and>
   rd_max_pending_requests (fold (fail_request e) is r) = rd_max_pending_requests r \<and> length (rd_requests (fold (fail_request e) is r)) = length (rd_requests r)"
  by (induction "is" arbitrary: r) (simp_all add: fail_request_def)

lemma fail_all_requests:
  assumes t: "table_ok (rd_requests r) (rd_pending r)" "\<forall>p \<in> set (rd_requests r). request_ok codec p" and r'_def: "r' = fail_all_pending e r"
  shows "table_ok (rd_requests r') (rd_pending r')" "\<forall>p \<in> set (rd_requests r'). request_ok codec p" "rd_pending r' = []"
    "settled_kept (rd_requests r) (rd_requests r')" "rd_next_request_id r' = rd_next_request_id r" "rd_max_pending_requests r' = rd_max_pending_requests r"
proof -
  note k = fail_fold_keeps [of e "map snd (rd_pending r)" "r\<lparr>rd_pending := []\<rparr>", folded fail_all_pending_def, folded r'_def]
  show p: "rd_pending r' = []" "rd_next_request_id r' = rd_next_request_id r" "rd_max_pending_requests r' = rd_max_pending_requests r" using k by simp_all
  have len: "length (rd_requests r') = length (rd_requests r)" using k by simp
  have at: "rd_requests r' ! i = (if unresolved (rd_requests r ! i) then (rd_requests r ! i)\<lparr>pr_error := Some e, pr_completed := True\<rparr> else rd_requests r ! i)"
    if i: "i < length (rd_requests r)" for i
  proof -
    have "i \<in> set (map snd (rd_pending r))" if "unresolved (rd_requests r ! i)"
      using t(1) i that by (force simp: table_ok_def)
    then show ?thesis using fail_fold [of i "r\<lparr>rd_pending := []\<rparr>" e "map snd (rd_pending r)"] i
      by (auto simp: r'_def fail_all_pending_def)
  qed
  have res: "\<not> unresolved (rd_requests r' ! i)" if "i < length (rd_requests r)" for i using at [OF that] error_request_ok(2) by simp
  then show "table_ok (rd_requests r') (rd_pending r')" using len by (simp add: table_ok_def p)
  show "\<forall>p \<in> set (rd_requests r'). request_ok codec p"
    using t(2) at len error_request_ok(1) [where codec = codec] nth_mem [of _ "rd_requests r"] by (auto simp: in_set_conv_nth)
  show "settled_kept (rd_requests r) (rd_requests r')" using at len by (simp add: settled_kept_def)
qed

lemma terminate_requests: "keeps_requests codec r (terminate e pf dc r)"
  unfolding keeps_requests_def
proof (rule impI)
  assume ok: "requests_ok codec r"
  show "requests_ok codec (terminate e pf dc r) \<and> settled_kept (rd_requests r) (rd_requests (terminate e pf dc r))"
  proof (cases "rd_terminal_error r = None \<and> \<not> rd_closed r")
    case False
    then show ?thesis using ok unfolding terminate_def Let_def if_not_P [OF False] by (auto simp: requests_ok_def ended_def)
  next
    case True
    let ?r = "count (\<lambda>t. t\<lparr>ty_protocol_failures := ty_protocol_failures t + of_bool pf, ty_disconnects := ty_disconnects t + of_bool dc\<rparr>)
      (r\<lparr>rd_terminal_error := Some e\<rparr>)"
    have r: "rd_requests ?r = rd_requests r" "rd_pending ?r = rd_pending r" "rd_next_request_id ?r = rd_next_request_id r"
      "rd_max_pending_requests ?r = rd_max_pending_requests r" by (simp_all add: count_def)
    have "table_ok (rd_requests ?r) (rd_pending ?r)" "\<forall>p \<in> set (rd_requests ?r). request_ok codec p" using ok unfolding r by (simp_all add: requests_ok_def)
    note k = fail_all_requests [OF this, of "fail_all_pending e ?r" e, OF refl]
    have t: "terminate e pf dc r = (fail_all_pending e ?r)\<lparr>rd_stream_active := False, rd_stop := True\<rparr>" using True by (simp add: terminate_def Let_def)
    show ?thesis using ok k unfolding t by (simp add: requests_ok_def r)
  qed
qed

lemma close_requests: "keeps_requests codec r (close_reader r)"
  unfolding keeps_requests_def
proof (rule impI)
  assume ok: "requests_ok codec r"
  let ?r = "r\<lparr>rd_closed := True, rd_stop := True\<rparr>"
  have "table_ok (rd_requests ?r) (rd_pending ?r)" "\<forall>p \<in> set (rd_requests ?r). request_ok codec p" using ok by (simp_all add: requests_ok_def)
  note k = fail_all_requests [OF this, of "fail_all_pending ReaderClosedError ?r" ReaderClosedError, OF refl]
  show "requests_ok codec (close_reader r) \<and> settled_kept (rd_requests r) (rd_requests (close_reader r))"
    using ok k by (cases "rd_closed r") (simp_all add: close_reader_def requests_ok_def)
qed

section \<open>New requests\<close>

lemma allocate_ok:
  assumes "allocate_request_id n r = (r1, x)" "1 \<le> rd_next_request_id r" "rd_next_request_id r \<le> UINT32_MAX"
  shows "1 \<le> rd_next_request_id r1 \<and> rd_next_request_id r1 \<le> UINT32_MAX \<and>
    (\<forall>q. x = Some q \<longrightarrow> 1 \<le> q \<and> q \<le> UINT32_MAX \<and> q \<notin> fst ` set (rd_pending r))"
  using assms
proof (induction n arbitrary: r)
  case (Suc n)
  let ?f = "(rd_next_request_id r + 1) AND UINT32_MAX"
  let ?r = "r\<lparr>rd_next_request_id := (if ?f = 0 then 1 else ?f)\<rparr>"
  have f: "0 \<le> ?f" "?f \<le> UINT32_MAX" by (simp_all add: and_UINT_MAX UINT32_MAX_def)
  have "1 \<le> ?f" if "?f \<noteq> 0" using f(1) that by linarith
  then have b: "1 \<le> rd_next_request_id ?r" "rd_next_request_id ?r \<le> UINT32_MAX" using f(2) by (auto simp: UINT32_MAX_def)
  show ?case
  proof (cases "rd_next_request_id r \<in> fst ` set (rd_pending r)")
    case True
    then have "allocate_request_id n ?r = (r1, x)" using Suc.prems(1) by (simp add: Let_def)
    from Suc.IH [OF this b] show ?thesis by simp
  next
    case False
    then have "r1 = ?r" "x = Some (rd_next_request_id r)" using Suc.prems(1) by (auto simp: Let_def split: if_splits)
    then show ?thesis using b Suc.prems(2,3) False by simp
  qed
qed simp

lemma register_table:
  assumes t: "table_ok qs ps" and q: "q \<notin> fst ` set ps" "1 \<le> q" "q \<le> UINT32_MAX" and p: "pr_request_id p = q" "unresolved p"
  shows "table_ok (qs @ [p]) (ps @ [(q, length qs)])" "settled_kept qs (qs @ [p])"
proof -
  have "distinct (map fst (ps @ [(q, length qs)]))" using t q(1) by (auto simp: table_ok_def)
  moreover have "\<forall>(q', i) \<in> set (ps @ [(q, length qs)]). i < length (qs @ [p]) \<and> pr_request_id ((qs @ [p]) ! i) = q' \<and>
      unresolved ((qs @ [p]) ! i) \<and> 1 \<le> q' \<and> q' \<le> UINT32_MAX"
    using t q p by (auto simp: table_ok_def nth_append)
  moreover have "\<forall>i < length (qs @ [p]). unresolved ((qs @ [p]) ! i) \<longrightarrow> (pr_request_id ((qs @ [p]) ! i), i) \<in> set (ps @ [(q, length qs)])"
    using t p by (auto simp: table_ok_def nth_append less_Suc_eq)
  ultimately show "table_ok (qs @ [p]) (ps @ [(q, length qs)])" unfolding table_ok_def by blast
  show "settled_kept qs (qs @ [p])" by (simp add: settled_kept_def nth_append)
qed

lemma begin_request_requests:
  assumes "begin_request codec kind payload timeout now version negotiating r = (r', res)"
  shows "keeps_requests codec r r'"
  unfolding keeps_requests_def
proof (rule impI)
  assume ok: "requests_ok codec r"
  then have n: "1 \<le> rd_next_request_id r" "rd_next_request_id r \<le> UINT32_MAX" by (simp_all add: requests_ok_def)
  from assms show "requests_ok codec r' \<and> settled_kept (rd_requests r) (rd_requests r')"
  proof (cases rule: begin_request_cases)
    case (refused e)
    then show ?thesis
    proof (elim disjE exE)
      fix x assume a: "allocate_request_id (rd_max_pending_requests r + 1) r = (r', x)"
      obtain q where "r' = r\<lparr>rd_next_request_id := q\<rparr>" using allocate_keeps [OF a] by blast
      then show ?thesis using ok allocate_ok [OF a n] by (simp add: requests_ok_def ended_def)
    qed (use ok in simp)
  next
    case (sent r1 q p wire)
    obtain k where r1: "r1 = r\<lparr>rd_next_request_id := k\<rparr>" using allocate_keeps [OF sent(1)] by blast
    note a = allocate_ok [OF sent(1) n]
    have "table_ok (rd_requests r) (rd_pending r)" using ok by (simp add: requests_ok_def)
    note t = register_table [OF this _ _ _ sent(4,5)]
    have live: "\<not> ended r" using sent(2) by (auto simp: require_live_def require_eq_Inr ended_def split: option.splits)
    have "request_ok codec p" using sent(5,6) by (simp add: request_ok_def unresolved_def)
    then show ?thesis using ok t a sent(3,7) live r1
      by (simp add: registered_def count_def requests_ok_def ended_def)
  qed
qed

section \<open>Responses\<close>

lemma run_locked_view:
  "activate_run_locked run checksum configuration r = (r', res) \<Longrightarrow> request_view r' = request_view r"
  "request_view (deactivate_stream_locked r) = request_view r"
  by (auto simp: activate_run_locked_def deactivate_stream_locked_def record_boundary_eq request_view_def ended_def split: if_splits)

lemma view_updates [simp]:
  "request_view (r\<lparr>rd_active_v3_settings := a\<rparr>) = request_view r" "request_view (r\<lparr>rd_selected_wire_version := v\<rparr>) = request_view r"
  "request_view (count f r) = request_view r" "request_view (r\<lparr>rd_current := c\<rparr>) = request_view r" "request_view (r\<lparr>rd_thread_alive := b\<rparr>) = request_view r"
  by (simp_all add: request_view_def ended_def count_def)

lemma start_stream_view: "start_stream response r = (r', res) \<Longrightarrow> request_view r' = request_view r"
  by (auto simp: start_stream_def dest!: run_locked_view(1)
      split: reader_response.splits option.splits V3ResponseValue.splits prod.splits sum.splits)

lemma accept_response_view:
  "accept_response i response version r = (r', res) \<Longrightarrow> request_view r' = request_view (set_request i (\<lambda>p. p\<lparr>pr_response := Some response\<rparr>) r)"
  by (auto simp: accept_response_def Let_def run_locked_view(2) dest!: start_stream_view split: if_splits)

lemma late_response_view: "request_view (late_response response version r) = request_view r"
  by (simp add: late_response_def Let_def run_locked_view(2))

definition answered :: "reader_response option \<Rightarrow> reader_error option \<Rightarrow> bool \<Rightarrow> PendingRequest \<Rightarrow> PendingRequest" where
  "answered response error done p = p\<lparr>pr_response := response, pr_error := error, pr_completed := done\<rparr>"

lemma answered_intro:
  "pr_response p = None \<Longrightarrow> p\<lparr>pr_error := e, pr_completed := d\<rparr> = answered None e d p"
  "pr_error p = None \<Longrightarrow> p\<lparr>pr_response := x\<rparr> = answered x None (pr_completed p) p"
  "(answered x y d p)\<lparr>pr_error := e, pr_completed := d'\<rparr> = answered x e d' p"
  by (cases p; simp add: answered_def)+

lemma answered_sel [simp]:
  "pr_error (answered x e d p) = e" "pr_response (answered x e d p) = x" "pr_request_id (answered x e d p) = pr_request_id p"
  by (simp_all add: answered_def)

text \<open>Every way out of \<^verbatim>\<open>_dispatch_response\<close> with a pending request gives it an answer.\<close>

lemma dispatch_response_answers:
  assumes d: "dispatch_response response version r = (r', res)" and i: "map_of (rd_pending r) (response_request_id response) = Some i"
    and u: "unresolved (rd_requests r ! i)"
  shows "\<exists>x e done. request_view r' = request_view ((set_request i (answered x e done) r)\<lparr>rd_pending := filter (\<lambda>p. fst p \<noteq> response_request_id response) (rd_pending r)\<rparr>) \<and>
    (x \<noteq> None \<or> e \<noteq> None) \<and> (x = None \<or> x = Some response \<and> version = pr_protocol_version (rd_requests r ! i) \<and>
      (response_kind response = pr_expected_kind (rd_requests r ! i) \<or> response_kind response = KIND_ERROR_RESPONSE))"
proof -
  let ?p = "rd_requests r ! i"
  define r1 where "r1 = r\<lparr>rd_pending := filter (\<lambda>p. fst p \<noteq> response_request_id response) (rd_pending r)\<rparr>"
  have none: "pr_response ?p = None" "pr_error ?p = None" using u by (simp_all add: unresolved_def)
  note d' = d [unfolded dispatch_response_def i option.case Let_def, folded r1_def]
  have goal: "(set_request i (answered x e done) r)\<lparr>rd_pending := filter (\<lambda>p. fst p \<noteq> response_request_id response) (rd_pending r)\<rparr> = set_request i (answered x e done) r1" for x e "done"
    by (simp add: r1_def set_request_def)
  have cr: "request_view (complete_response i (Some e) s) = request_view (set_request i (answered None (Some e) True) r1)"
    if "request_view s = request_view r1" for e and s :: "'a reader"
    using that none by (simp add: complete_response_def request_view_def set_request_def answered_intro r1_def ended_def)
  show ?thesis
  proof (cases "version_rejected ?p response version")
    case True
    then have "r' = complete_response i (Some ProtocolVersionRejected) (count (\<lambda>t. t\<lparr>ty_responses_matched := ty_responses_matched t + 1\<rparr>) r1)"
      using d' by simp
    then show ?thesis using cr unfolding goal by (intro exI [of _ "None :: reader_response option"] exI [of _ "Some ProtocolVersionRejected"] exI [of _ True]) simp
  next
    case nr: False
    show ?thesis
    proof (cases "version \<noteq> pr_protocol_version ?p \<or> response_kind response \<notin> {pr_expected_kind ?p, KIND_ERROR_RESPONSE}")
      case True
      then have "r' = complete_response i (Some ReaderProtocolError) r1" using d' nr by auto
      then show ?thesis using cr unfolding goal by (intro exI [of _ "None :: reader_response option"] exI [of _ "Some ReaderProtocolError"] exI [of _ True]) simp
    next
      case ok: False
      obtain r2 a where acc: "accept_response i response version r1 = (r2, a)" by fastforce
      note v = accept_response_view [OF acc]
      have r2: "request_view r2 = request_view (set_request i (answered (Some response) None (pr_completed ?p)) r1)"
        using v none by (simp add: request_view_def set_request_def answered_intro r1_def ended_def)
      show ?thesis
      proof (cases a)
        case (Inl e)
        then have "r' = r2" using d' nr ok acc by auto
        then show ?thesis using r2 ok unfolding goal by (intro exI [of _ "Some response"] exI [of _ "None :: reader_error option"] exI [of _ "pr_completed ?p"]) simp
      next
        case (Inr e)
        then have "r' = complete_response i e r2" using d' nr ok acc by auto
        then have "request_view r' = request_view (set_request i (answered (Some response) e True) r1)"
          using r2 none by (cases "i < length (rd_requests r)")
            (auto simp: complete_response_def request_view_def set_request_def answered_intro r1_def ended_def list_update_beyond)
        then show ?thesis using ok unfolding goal by (intro exI [of _ "Some response"] exI [of _ e] exI [of _ True]) simp
      qed
    qed
  qed
qed

definition current_ok :: "'f legacy_codec \<Rightarrow> 'f reader \<Rightarrow> bool" where
  "current_ok codec r \<longleftrightarrow> (\<forall>response version. rd_current r = Decoded (ResponseMessage response version) \<longrightarrow> decoded_from codec version response)"

lemma dispatch_response_requests:
  assumes d: "dispatch_response response version r = (r', res)" and v3: "decoded_from codec version response"
  shows "keeps_requests codec r r'"
proof (cases "map_of (rd_pending r) (response_request_id response)")
  case None
  then have "r' = late_response response version r" using d by (simp add: dispatch_response_def)
  then show ?thesis by (simp add: keeps_same late_response_view)
next
  case (Some i)
  show ?thesis unfolding keeps_requests_def
  proof (rule impI)
    assume ok: "requests_ok codec r"
    let ?p = "rd_requests r ! i" and ?q = "response_request_id response"
    have e: "(?q, i) \<in> set (rd_pending r)" using Some by (rule map_of_SomeD)
    then have p: "i < length (rd_requests r)" "pr_request_id ?p = ?q" "unresolved ?p" using ok by (auto simp: requests_ok_def table_ok_def)
    obtain x er dn where a: "request_view r' = request_view ((set_request i (answered x er dn) r)\<lparr>rd_pending := filter (\<lambda>p. fst p \<noteq> ?q) (rd_pending r)\<rparr>)"
      "x \<noteq> None \<or> er \<noteq> None" "x = None \<or> x = Some response \<and> version = pr_protocol_version ?p \<and>
      (response_kind response = pr_expected_kind ?p \<or> response_kind response = KIND_ERROR_RESPONSE)"
      using dispatch_response_answers [OF d Some p(3)] by (elim exE conjE)
    have res: "\<not> unresolved (answered x er dn ?p)" "pr_request_id (answered x er dn ?p) = ?q"
      using a(2) p(2) by (auto simp: unresolved_def answered_def)
    have rok: "request_ok codec (answered x er dn ?p)"
      using a(2,3) p(2) v3 by (auto simp: request_ok_def answered_def unresolved_def matches_def)
    have "rd_requests r' = (rd_requests r)[i := answered x er dn ?p]" "rd_pending r' = filter (\<lambda>p. fst p \<noteq> ?q) (rd_pending r)"
      "rd_next_request_id r' = rd_next_request_id r" "rd_max_pending_requests r' = rd_max_pending_requests r" "ended r' = ended r"
      using a(1) by (simp_all add: request_view_def set_request_def ended_def)
    from resolve_keeps [OF ok e res rok this] show "requests_ok codec r' \<and> settled_kept (rd_requests r) (rd_requests r')" by simp
  qed
qed

section \<open>Every step keeps the table\<close>

lemma view_more [simp]:
  "request_view (r\<lparr>rd_blocks := bs\<rparr>) = request_view r" "request_view (r\<lparr>rd_stream_reports := rs\<rparr>) = request_view r"
  "request_view (r\<lparr>rd_events := es\<rparr>) = request_view r" "request_view (count_stream b g r) = request_view r"
  "request_view (r\<lparr>rd_started := s\<rparr>) = request_view r" "request_view (wait_timed_out r) = request_view r"
  by (cases b; simp add: wait_timed_out_def count_def request_view_def ended_def count_stream_def)+

lemma enqueue_view: "enqueue_stream_report report r = (r', res) \<Longrightarrow> request_view r' = request_view r"
  by (auto dest!: enqueue_effect simp: request_view_def ended_def)

lemma evict_view: "evict_oldest r = (r', res) \<Longrightarrow> request_view r' = request_view r"
  by (auto simp: evict_oldest_def Let_def dest!: enqueue_view split: if_splits sum.splits prod.splits)

lemma discard_stale_view: "discard_stale_block b r = (r', res) \<Longrightarrow> request_view r' = request_view r"
  by (auto simp: discard_stale_block_def Let_def dest!: enqueue_view split: if_splits sum.splits prod.splits)

lemma dispatch_block_view: "dispatch_block b r = (r', res) \<Longrightarrow> request_view r' = request_view r"
  by (auto simp: dispatch_block_def Let_def count_received_def dest!: evict_view discard_stale_view split: if_splits sum.splits prod.splits)

lemma dispatch_event_view: "request_view (dispatch_event e r) = request_view r"
  by (simp add: dispatch_event_def Let_def)

lemma take_frame_view: "request_view (take_frame codec wire r) = request_view r"
  by (auto simp: take_frame_def Let_def split: wire_frame.splits option.splits sum.splits)

lemma await_view:
  "wait_step needs expired r = (r', x) \<Longrightarrow> request_view r' = request_view r"
  "await_block woken expired r = (r', b) \<Longrightarrow> request_view r' = request_view r"
  "await_stream_item woken expired r = (r', y) \<Longrightarrow> request_view r' = request_view r"
  "await_event woken expired r = (r', e) \<Longrightarrow> request_view r' = request_view r"
proof -
  show w: "wait_step needs expired r = (r', x) \<Longrightarrow> request_view r' = request_view r" for needs expired and r r' :: "'a reader" and x :: "'x poll"
    by (auto simp: wait_step_def split: option.splits if_splits)
  show "await_block woken expired r = (r', b) \<Longrightarrow> request_view r' = request_view r"
    by (auto simp: await_block_def wait_step_def split: if_splits list.splits option.splits)
  show "await_stream_item woken expired r = (r', y) \<Longrightarrow> request_view r' = request_view r"
    by (auto simp: await_stream_item_def wait_step_def split: if_splits list.splits option.splits)
  show "await_event woken expired r = (r', e) \<Longrightarrow> request_view r' = request_view r"
    by (auto simp: await_event_def wait_step_def split: if_splits list.splits option.splits)
qed

lemma run_view:
  "activate_run run checksum configuration version r = (r', res) \<Longrightarrow> request_view r' = request_view r"
  "activate_v3_run run settings r = (r', res) \<Longrightarrow> request_view r' = request_view r"
  "deactivate_stream r = (r', res) \<Longrightarrow> request_view r' = request_view r"
  by (auto simp: activate_run_def activate_v3_run_def deactivate_stream_def Let_def run_locked_view(2)
      dest!: run_locked_view(1) split: if_splits sum.splits)

lemma keeps_requests_view: "keeps_requests codec r r' \<Longrightarrow> request_view s = request_view r' \<Longrightarrow> keeps_requests codec r s"
  using keeps_requests_trans keeps_same by blast

lemma dispatch_current_requests:
  assumes c: "current_ok codec r"
  shows "keeps_requests codec r (dispatch_current r)"
proof (cases "rd_current r")
  case Idle
  then show ?thesis by (simp add: dispatch_current_def keeps_same)
next
  case Failed
  then show ?thesis using keeps_requests_view [OF terminate_requests [of _ r ReaderProtocolError True False]]
    by (simp add: dispatch_current_def request_view_def ended_def)
next
  case (Decoded m)
  show ?thesis
  proof (cases m)
    case (ResponseMessage response version)
    obtain r1 res where d: "dispatch_response response version r = (r1, res)" by fastforce
    have "keeps_requests codec r r1" using c Decoded ResponseMessage by (intro dispatch_response_requests [OF d]) (auto simp: current_ok_def)
    from keeps_requests_view [OF this] show ?thesis using Decoded ResponseMessage d by (simp add: dispatch_current_def)
  next
    case (BlockMessage b)
    obtain r1 res where d: "dispatch_block b r = (r1, res)" by fastforce
    then show ?thesis using Decoded BlockMessage dispatch_block_view [OF d] by (simp add: dispatch_current_def keeps_same)
  next
    case (EventMessage e)
    then show ?thesis using Decoded dispatch_event_view [of e r] by (simp add: dispatch_current_def keeps_same)
  qed
qed

lemma finish_request_requests:
  assumes "finish_request i r = (r', res)" "i < length (rd_requests r)"
  shows "keeps_requests codec r r'"
proof -
  define r1 where "r1 = (if pr_completed (rd_requests r ! i) then r else complete_with_error i RequestTimeoutError True r)"
  have k: "keeps_requests codec r r1" using complete_with_error_keeps [OF assms(2)] by (simp add: r1_def keeps_same)
  have "r' = r1 \<or> r' = terminate ReaderProtocolError True False r1"
    using assms(1) [unfolded finish_request_def Let_def, folded r1_def] by (auto split: option.splits)
  then show ?thesis using k terminate_requests keeps_requests_trans by blast
qed

lemma write_failed_requests: "i < length (rd_requests r) \<Longrightarrow> keeps_requests codec r (write_failed i failure r)"
  by (cases failure) (simp_all add: write_failed_def terminate_requests complete_with_error_keeps)

lemma lost_requests: "keeps_requests codec r (transport_lost r)" "keeps_requests codec r (parser_failed r)"
proof -
  have v: "request_view (x\<lparr>rd_thread_alive := False\<rparr>) = request_view x" for x :: "'a reader" by simp
  show "keeps_requests codec r (transport_lost r)" unfolding transport_lost_def
    by (rule keeps_requests_view [OF _ v]) (simp add: terminate_requests keeps_same)
  show "keeps_requests codec r (parser_failed r)" unfolding parser_failed_def
    by (rule keeps_requests_view [OF terminate_requests v])
qed

lemma get_view:
  "get_block refused expired r = (r', b) \<Longrightarrow> request_view r' = request_view r"
  "get_stream_item refused expired r = (r', y) \<Longrightarrow> request_view r' = request_view r"
  "get_event expired r = (r', e) \<Longrightarrow> request_view r' = request_view r"
  using await_view(2) [of False expired r r' b] await_view(3) [of False expired r r' y] await_view(4) [of False expired r r' e]
  by (auto simp: get_block_def get_stream_item_def get_event_def split: sum.splits if_splits)

lemma reader_step_requests:
  assumes "reader_step codec r xs r'" "current_ok codec r"
  shows "keeps_requests codec r r'"
  using assms
proof (cases rule: reader_step.cases)
  case (start transport_open res)
  then show ?thesis by (intro keeps_same) (auto simp: start_reader_def split: if_splits option.splits)
next
  case timed_out
  then show ?thesis by (simp add: keeps_same)
next
  case (read received readinto)
  then show ?thesis by (simp add: keeps_same record_read_def)
qed (use assms(2) in \<open>blast intro: begin_request_requests write_failed_requests finish_request_requests expire_pending_keeps
    keeps_same [OF take_frame_view] dispatch_current_requests lost_requests close_requests keeps_same [OF run_view(1)]
    keeps_same [OF run_view(2)] keeps_same [OF run_view(3)] keeps_same [OF get_view(1)] keeps_same [OF get_view(2)]
    keeps_same [OF get_view(3)] keeps_same [OF await_view(2)] keeps_same [OF await_view(3)] keeps_same [OF await_view(4)]\<close>)+

text \<open>What is dispatched as a response of some version was decoded from a frame of that version.\<close>

lemma terminate_current [simp]: "rd_current (terminate e pf dc r) = rd_current r"
  by (simp add: terminate_def Let_def count_def only_requestsD(4) [OF fail_all_only])

lemma map_sum_Inr_ex: "map_sum f g x = Inr y \<longleftrightarrow> (\<exists>z. x = Inr z \<and> y = g z)"
  by (cases x) auto

lemma decoded_fromI:
  "decode_v3_response f = Inr v \<Longrightarrow> decoded_from codec 3 (V3Reply v)"
  "lc_decode codec configuration g = Inr (LegacyReply c) \<Longrightarrow> decoded_from codec (lc_version codec g) (LegacyResponse c)"
  unfolding decoded_from_def by (rule exI [of _ "WireV3 f"], simp) (rule exI [of _ "WireLegacy g"], auto)

lemma take_frame_current:
  assumes "current_ok codec r"
  shows "current_ok codec (take_frame codec wire r)"
proof (cases wire)
  case (WireV3 f)
  then show ?thesis using assms
    by (auto simp: take_frame_def Let_def current_ok_def count_def map_sum_Inr_ex intro: decoded_fromI split: option.splits sum.splits if_splits)
next
  case (WireLegacy f)
  show ?thesis
  proof (cases "lc_decode codec (rd_active_configuration r) f")
    case (Inl e)
    then show ?thesis using WireLegacy assms by (auto simp: take_frame_def Let_def current_ok_def)
  next
    case (Inr m)
    then show ?thesis using WireLegacy assms by (cases m) (auto simp: take_frame_def Let_def current_ok_def count_def intro: decoded_fromI)
  qed
qed

lemma current_kept:
  "begin_request codec kind payload timeout now version negotiating r = (r', res) \<Longrightarrow> rd_current r' = rd_current r"
  "rd_current (write_failed i failure r) = rd_current r" "finish_request i r = (r', res') \<Longrightarrow> rd_current r' = rd_current r"
  "rd_current (transport_lost r) = rd_current r" "rd_current (parser_failed r) = rd_current r" "rd_current (close_reader r) = rd_current r"
  "start_reader transport_open r = (r', res'') \<Longrightarrow> rd_current r' = rd_current r" "rd_current (record_read n b r) = rd_current r"
  "rd_current (wait_timed_out r) = rd_current r"
proof -
  note c = only_requestsD(4) [OF complete_with_error_only]
  show "begin_request codec kind payload timeout now version negotiating r = (r', res) \<Longrightarrow> rd_current r' = rd_current r"
    using begin_request_keeps by blast
  show "rd_current (write_failed i failure r) = rd_current r" by (cases failure) (simp_all add: write_failed_def c)
  show "finish_request i r = (r', res') \<Longrightarrow> rd_current r' = rd_current r"
    by (auto simp: finish_request_def Let_def c split: if_splits option.splits)
  show "rd_current (transport_lost r) = rd_current r" "rd_current (parser_failed r) = rd_current r" by (simp_all add: transport_lost_def parser_failed_def)
  show "rd_current (close_reader r) = rd_current r" by (simp add: close_reader_def only_requestsD(4) [OF fail_all_only])
  show "start_reader transport_open r = (r', res'') \<Longrightarrow> rd_current r' = rd_current r" by (auto simp: start_reader_def split: if_splits option.splits)
  show "rd_current (record_read n b r) = rd_current r" "rd_current (wait_timed_out r) = rd_current r" by (simp_all add: record_read_def wait_timed_out_def count_def)
qed

lemma current_kept_run:
  "activate_run run checksum configuration version r = (r', res) \<Longrightarrow> rd_current r' = rd_current r"
  "activate_v3_run run settings r = (r', res) \<Longrightarrow> rd_current r' = rd_current r" "deactivate_stream r = (r', res) \<Longrightarrow> rd_current r' = rd_current r"
  using deactivate_effect [of r]
  by (auto simp: activate_run_def activate_v3_run_def deactivate_stream_def Let_def run_effect_def
      dest!: activate_run_locked_effect split: if_splits sum.splits)

lemma current_kept_wait:
  "wait_step needs expired r = (r', x) \<Longrightarrow> rd_current r' = rd_current r"
  "await_block woken expired r = (r', b) \<Longrightarrow> rd_current r' = rd_current r" "await_stream_item woken expired r = (r', y) \<Longrightarrow> rd_current r' = rd_current r"
  "await_event woken expired r = (r', e) \<Longrightarrow> rd_current r' = rd_current r" "get_block refused expired r = (r', b) \<Longrightarrow> rd_current r' = rd_current r"
  "get_stream_item refused expired r = (r', y) \<Longrightarrow> rd_current r' = rd_current r" "get_event expired r = (r', e) \<Longrightarrow> rd_current r' = rd_current r"
  by (auto simp: get_block_def get_stream_item_def get_event_def await_block_def await_stream_item_def await_event_def wait_step_def wait_timed_out_def count_def
      split: sum.splits if_splits list.splits option.splits)

lemma reader_step_current:
  assumes "reader_step codec r xs r'" "current_ok codec r"
  shows "current_ok codec r'"
  using assms
proof (cases rule: reader_step.cases)
  case (frame wire)
  then show ?thesis using take_frame_current assms(2) by blast
next
  case dispatch
  then show ?thesis using assms(2)
    by (auto simp: dispatch_current_def current_ok_def split: current.splits message.splits prod.splits sum.splits)
next
  case (expire now)
  then show ?thesis using assms(2) by (simp add: current_ok_def only_requestsD(4) [OF expire_pending_only])
qed (use assms(2) in \<open>simp add: current_ok_def current_kept current_kept_run current_kept_wait\<close>)+

lemma reader_reach_requests: "reader_reach codec r ds \<Longrightarrow> requests_ok codec r \<and> current_ok codec r"
proof (induction rule: reader_reach.induct)
  case (init rsize pending blocks events timeouts first r)
  then show ?case
    by (auto simp: BackgroundReader_def require_eq_Inr requests_ok_def table_ok_def current_ok_def ended_def)
next
  case (step r ds xs r')
  then show ?case using reader_step_requests [OF step.hyps(2)] reader_step_current [OF step.hyps(2)] by (auto simp: keeps_requests_def)
qed

section \<open>Where an answer comes from\<close>

text \<open>The answer of no request changes.\<close>

definition silent :: "'f reader \<Rightarrow> 'f reader \<Rightarrow> bool" where
  "silent r r' \<longleftrightarrow> length (rd_requests r) \<le> length (rd_requests r') \<and>
     (\<forall>i < length (rd_requests r). pr_response (rd_requests r' ! i) = pr_response (rd_requests r ! i))"

lemma silent_same: "rd_requests r' = rd_requests r \<Longrightarrow> silent r r'"
  by (simp add: silent_def)

lemma silent_view: "request_view r' = request_view r \<Longrightarrow> silent r r'"
  by (simp add: silent_def request_view_def)

lemma silent_trans: "silent r s \<Longrightarrow> silent s t \<Longrightarrow> silent r t"
  by (simp add: silent_def)

lemma silent_set: "(\<And>p. pr_response (f p) = pr_response p) \<Longrightarrow> silent r (set_request i f r)"
  unfolding silent_def set_request_def
proof (intro conjI allI impI)
  fix j assume "\<And>p. pr_response (f p) = pr_response p" "j < length (rd_requests r)"
  then show "pr_response (rd_requests (r\<lparr>rd_requests := (rd_requests r)[i := f (rd_requests r ! i)]\<rparr>) ! j) = pr_response (rd_requests r ! j)" by (cases "j = i") simp_all
qed simp

lemma silent_fold: "(\<And>x r. silent r (f x r)) \<Longrightarrow> silent r (fold f xs r)"
  by (induction xs arbitrary: r) (auto intro: silent_same silent_trans)

lemma silent_errors:
  "silent r (complete_with_error i e t r)" "silent r (expire_pending_requests now r)" "silent r (fail_all_pending e r)" "silent r (terminate e pf dc r)"
proof -
  have set_error: "silent r (s\<lparr>rd_tally := t\<rparr>)" if "s = set_request i (\<lambda>p. p\<lparr>pr_error := Some e, pr_completed := True\<rparr>) (r\<lparr>rd_pending := ps\<rparr>)"
    for r s :: "'a reader" and t i e ps
    using silent_trans [OF silent_same silent_set, of "r\<lparr>rd_pending := ps\<rparr>" r "\<lambda>p. p\<lparr>pr_error := Some e, pr_completed := True\<rparr>" i] that
    by (simp add: silent_def)
  show "silent r (complete_with_error i e t r)"
    using set_error [OF refl] silent_trans [OF silent_same silent_set, of _ r "\<lambda>p. p\<lparr>pr_error := Some e, pr_completed := True\<rparr>" i]
    by (simp add: complete_with_error_def Let_def count_def silent_same)
  have x: "silent r (expire_request i r)" for i and r :: "'a reader"
    using set_error [OF refl] by (simp add: expire_request_def Let_def count_def silent_same)
  show "silent r (expire_pending_requests now r)" unfolding expire_pending_requests_def by (rule silent_fold) (rule x)
  have f: "silent r (fail_request e i r)" for i and r :: "'a reader" by (simp add: fail_request_def silent_same silent_set)
  show a: "silent r (fail_all_pending e r)" for r :: "'a reader"
    unfolding fail_all_pending_def by (rule silent_trans [OF silent_same silent_fold]) (simp_all add: f)
  have "silent r (count g (r\<lparr>rd_terminal_error := Some e\<rparr>))" for g by (simp add: silent_def count_def)
  from silent_trans [OF this a] show "silent r (terminate e pf dc r)"
    by (auto simp: terminate_def Let_def silent_def)
qed

lemma silent_steps:
  "begin_request codec kind payload timeout now version negotiating r = (r', res) \<Longrightarrow> silent r r'"
  "silent r (write_failed i failure r)" "finish_request i r = (r', res') \<Longrightarrow> silent r r'" "silent r (transport_lost r)" "silent r (parser_failed r)"
  "silent r (close_reader r)"
proof -
  show "silent r r'" if "begin_request codec kind payload timeout now version negotiating r = (r', res)"
    using that
  proof (cases rule: begin_request_cases)
    case (refused e)
    then show ?thesis by (auto intro: silent_same dest!: allocate_keeps simp del: allocate_request_id.simps)
  next
    case (sent r1 q p wire)
    then show ?thesis by (auto simp: silent_def registered_def count_def nth_append dest!: allocate_keeps simp del: allocate_request_id.simps)
  qed
  show "silent r (write_failed i failure r)" by (cases failure) (simp_all add: write_failed_def silent_errors)
  show "silent r r'" if "finish_request i r = (r', res')"
    using that silent_trans [OF silent_errors(1) silent_errors(4)] silent_errors by (auto simp: finish_request_def Let_def silent_same split: if_splits option.splits)
  show "silent r (transport_lost r)" "silent r (parser_failed r)"
    using silent_errors(4) [of r] by (simp_all add: transport_lost_def parser_failed_def silent_def)
  have "silent r (r\<lparr>rd_closed := True, rd_stop := True\<rparr>)" by (rule silent_same) simp
  from silent_trans [OF this silent_errors(3)] show "silent r (close_reader r)" by (simp add: close_reader_def silent_def)
qed

text \<open>A request is answered by the dispatch of that response, in the version of the request, and by nothing else.\<close>

definition answers_current :: "'f reader \<Rightarrow> 'f reader \<Rightarrow> bool" where
  "answers_current r r' \<longleftrightarrow> (\<forall>i < length (rd_requests r). \<forall>response.
     pr_response (rd_requests r ! i) = None \<and> pr_response (rd_requests r' ! i) = Some response \<longrightarrow>
     rd_current r = Decoded (ResponseMessage response (pr_protocol_version (rd_requests r ! i))))"

lemma answers_silent: "silent r r' \<Longrightarrow> answers_current r r'"
  by (auto simp: silent_def answers_current_def)

lemma dispatch_current_answers:
  assumes ok: "requests_ok codec r"
  shows "answers_current r (dispatch_current r)"
proof (cases "\<exists>response version. rd_current r = Decoded (ResponseMessage response version)")
  case False
  have "rd_requests (dispatch_event x r) = rd_requests r" for x using dispatch_event_view [of x r] by (simp add: request_view_def)
  with False have "silent r (dispatch_current r)" using silent_errors(4) [of r]
    by (auto simp: dispatch_current_def silent_def request_view_def split: current.splits message.splits prod.splits dest!: dispatch_block_view)
  then show ?thesis by (rule answers_silent)
next
  case True
  then obtain response version where c: "rd_current r = Decoded (ResponseMessage response version)" by blast
  obtain r1 res where d: "dispatch_response response version r = (r1, res)" by fastforce
  have r': "rd_requests (dispatch_current r) = rd_requests r1" by (simp add: dispatch_current_def c d)
  show ?thesis
  proof (cases "map_of (rd_pending r) (response_request_id response)")
    case None
    then have "rd_requests r1 = rd_requests r" using d late_response_view [of response version r] by (simp add: dispatch_response_def request_view_def)
    then show ?thesis using r' by (simp add: answers_silent silent_same)
  next
    case (Some i)
    then have "unresolved (rd_requests r ! i)" using ok map_of_SomeD [OF Some] by (auto simp: requests_ok_def table_ok_def)
    from dispatch_response_answers [OF d Some this] obtain x e dn where
      "request_view r1 = request_view ((set_request i (answered x e dn) r)\<lparr>rd_pending := filter (\<lambda>p. fst p \<noteq> response_request_id response) (rd_pending r)\<rparr>)"
      and x: "x = None \<or> x = Some response \<and> version = pr_protocol_version (rd_requests r ! i)" by blast
    then have "rd_requests r1 = (rd_requests r)[i := answered x e dn (rd_requests r ! i)]" by (simp add: request_view_def set_request_def)
    then have n: "rd_requests (dispatch_current r) ! j = (if j = i then answered x e dn (rd_requests r ! i) else rd_requests r ! j)"
      if "j < length (rd_requests r)" for j using that r' by (cases "j = i") simp_all
    show ?thesis unfolding answers_current_def
    proof (intro allI impI, elim conjE)
      fix j y assume j: "j < length (rd_requests r)" "pr_response (rd_requests r ! j) = None" "pr_response (rd_requests (dispatch_current r) ! j) = Some y"
      then show "rd_current r = Decoded (ResponseMessage y (pr_protocol_version (rd_requests r ! j)))" using n [OF j(1)] x c by (cases "j = i") auto
    qed
  qed
qed

lemma reader_step_answers:
  assumes "reader_step codec r xs r'" "requests_ok codec r"
  shows "answers_current r r'"
  using assms
proof (cases rule: reader_step.cases)
  case (start transport_open res)
  then show ?thesis by (intro answers_silent silent_same) (auto simp: start_reader_def split: if_splits option.splits)
next
  case dispatch
  then show ?thesis using dispatch_current_answers [OF assms(2)] by simp
qed (auto intro!: answers_silent simp: silent_steps silent_errors silent_view [OF take_frame_view] record_read_def wait_timed_out_def count_def silent_def [of r "r\<lparr>rd_tally := _\<rparr>"]
    intro: silent_steps silent_view [OF run_view(1)] silent_view [OF run_view(2)] silent_view [OF run_view(3)] silent_view [OF get_view(1)]
    silent_view [OF get_view(2)] silent_view [OF get_view(3)] silent_view [OF await_view(2)] silent_view [OF await_view(3)] silent_view [OF await_view(4)])

section \<open>Properties\<close>

lemma finish_request_response:
  assumes "finish_request i r = (r', Inr response)" "requests_ok codec r" "i < length (rd_requests r)"
  shows "r' = r \<and> pr_response (rd_requests r ! i) = Some response \<and> matches codec (rd_requests r ! i) response"
proof -
  let ?p = "rd_requests r ! i"
  have same: "(if pr_completed ?p then r else complete_with_error i RequestTimeoutError True r) = r"
  proof (rule ccontr)
    assume "\<not> ?thesis"
    then have "\<not> pr_completed ?p" "unresolved ?p" by (auto simp: complete_with_error_def split: if_splits)
    then show False using assms(1,3) by (simp add: finish_request_def complete_with_error_def count_def Let_def)
  qed
  have "r' = r \<and> pr_response ?p = Some response"
    using assms(1) unfolding finish_request_def Let_def same by (auto split: option.splits)
  moreover have "request_ok codec ?p" using assms(2,3) by (simp add: requests_ok_def)
  ultimately show ?thesis by (simp add: request_ok_def)
qed

text \<open>
  Property C32. Request correlation. In every reachable state of the reader the ids of the pending requests are
  distinct and non-zero 32-bit numbers, no more requests are pending than configured, and the table
  holds exactly the requests without answer or error; after a failure or \<^verbatim>\<open>close\<close> none is left
  waiting. A caller only ever receives a response with the id of its request, of the expected kind or
  an error response, and decoded from a frame of the protocol version of the request, legacy or version 3; the step that answers a request is the
  dispatch of this very response with this version. Once a request has been answered, no later step of any thread changes
  the answer.
\<close>

theorem reader_correlates_responses:
  assumes "reader_reach codec r ds"
  shows "distinct (map fst (rd_pending r)) \<and> length (rd_pending r) \<le> rd_max_pending_requests r \<and>
    (\<forall>(q, i) \<in> set (rd_pending r). 0 < q \<and> q < 2 ^ 32 \<and> i < length (rd_requests r)) \<and>
    (\<forall>i < length (rd_requests r). unresolved (rd_requests r ! i) \<longleftrightarrow> (pr_request_id (rd_requests r ! i), i) \<in> set (rd_pending r)) \<and>
    (rd_terminal_error r \<noteq> None \<or> rd_closed r \<longrightarrow> rd_pending r = []) \<and>
    (\<forall>i r' response. i < length (rd_requests r) \<and> finish_request i r = (r', Inr response) \<longrightarrow> matches codec (rd_requests r ! i) response) \<and>
    (\<forall>xs r'. reader_step codec r xs r' \<longrightarrow> settled_kept (rd_requests r) (rd_requests r') \<and> answers_current r r')"
proof -
  have ok: "requests_ok codec r" "current_ok codec r" using reader_reach_requests [OF assms] by simp_all
  have t: "distinct (map fst (rd_pending r)) \<and> length (rd_pending r) \<le> rd_max_pending_requests r \<and>
    (rd_terminal_error r \<noteq> None \<or> rd_closed r \<longrightarrow> rd_pending r = [])"
    "\<forall>(q, i) \<in> set (rd_pending r). 0 < q \<and> q < 2 ^ 32 \<and> i < length (rd_requests r)"
    "\<forall>i < length (rd_requests r). unresolved (rd_requests r ! i) \<longleftrightarrow> (pr_request_id (rd_requests r ! i), i) \<in> set (rd_pending r)"
    using ok(1) by (auto simp: requests_ok_def table_ok_def ended_def UINT32_MAX_def)
  moreover have "matches codec (rd_requests r ! i) response" if "i < length (rd_requests r)" "finish_request i r = (r', Inr response)" for i r' response
    using finish_request_response [OF that(2) ok(1) that(1)] by simp
  moreover have "settled_kept (rd_requests r) (rd_requests r') \<and> answers_current r r'" if "reader_step codec r xs r'" for xs r'
    using reader_step_requests [OF that ok(2)] reader_step_answers [OF that ok(1)] ok(1) by (simp add: keeps_requests_def)
  ultimately show ?thesis by blast
qed

text \<open>A codec whose frames are the messages themselves, for concrete runs.\<close>

definition plain_codec :: "(CommandResponse + data_block) legacy_codec" where
  "plain_codec = \<lparr>lc_version = (\<lambda>_. 1), lc_kind = (\<lambda>f. case f of Inl c \<Rightarrow> cr_kind c | Inr b \<Rightarrow> FrameKind_value (block_kind b)),
     lc_decode = (\<lambda>_ f. Inr (case f of Inl c \<Rightarrow> LegacyReply c | Inr b \<Rightarrow> LegacyBlock b)), lc_encode = (\<lambda>_ _ _ _. Inr [])\<rparr>"

definition info_response :: CommandResponse where
  "info_response = \<lparr>cr_kind = 144, cr_request_id = 1, cr_run_id = 0, cr_ok = True, cr_error_code = 0, cr_configuration = None,
     cr_rejected_kind = None, cr_rejected_version = None\<rparr>"

definition started_reader :: "'f reader" where
  "started_reader = (case BackgroundReader 1 1 1 1 [] 1 of Inr r \<Rightarrow> fst (start_reader True r) | Inl _ \<Rightarrow> undefined)"

lemma started_reader_reach: "reader_reach codec started_reader []"
proof -
  obtain r where r: "BackgroundReader 1 1 1 1 [] 1 = (Inr r :: reader_error + 'a reader)" by (simp add: BackgroundReader_def require_def)
  have "reader_reach codec r []" by (rule reader_reach.init [OF r]) (simp_all add: UINT32_MAX_def)
  then have "reader_reach codec (fst (start_reader True r)) ([] @ [])" by (rule reader_reach.step) (rule reader_step.start, rule prod.collapse [symmetric])
  then show ?thesis by (simp add: started_reader_def r)
qed

lemma started_reader_eq:
  "started_reader = \<lparr>rd_max_pending_requests = 1, rd_max_queued_blocks = 1, rd_max_queued_events = 1, rd_max_stream_reports = 2,
     rd_requests = [], rd_pending = [], rd_blocks = [], rd_stream_reports = [], rd_events = [], rd_next_request_id = 1, rd_active_run_id = 0,
     rd_active_checksum_algorithm = ADLER32, rd_active_configuration = None, rd_active_v3_settings = None, rd_selected_wire_version = None,
     rd_stream_active = False, rd_thread_alive = True, rd_started = True, rd_closed = False, rd_stop = False,
     rd_terminal_error = None, rd_current = Idle, rd_tally = no_tally, rd_adc = no_stream_tally, rd_gpio = no_stream_tally\<rparr>"
  by (simp add: started_reader_def BackgroundReader_def require_def start_reader_def)

lemma info_exchange:
  "\<exists>r ds. reader_reach plain_codec r ds \<and> length (rd_requests r) = 1 \<and> finish_request 0 r = (r, Inr (LegacyResponse info_response))"
proof -
  define r1 where "r1 = fst (begin_request plain_codec 16 [] 1 0 1 False started_reader)"
  define r2 where "r2 = take_frame plain_codec (WireLegacy (Inl info_response)) r1"
  have b: "begin_request plain_codec 16 [] 1 0 1 False started_reader = (r1, snd (begin_request plain_codec 16 [] 1 0 1 False started_reader))"
    by (simp add: r1_def)
  have r1: "reader_reach plain_codec r1 ([] @ [])"
    by (rule reader_reach.step [OF started_reader_reach reader_step.request [OF b]])
  have e1: "r1 = started_reader\<lparr>rd_next_request_id := 2, rd_pending := [(1, 0)], rd_requests := [\<lparr>pr_kind = 16, pr_expected_kind = 144, pr_request_id = 1,
      pr_deadline = 1, pr_completed = False, pr_response = None, pr_protocol_version = 1, pr_error = None, pr_negotiating = False\<rparr>],
      rd_tally := no_tally\<lparr>ty_pending_request_high_water := 1\<rparr>\<rparr>"
    by (simp add: r1_def begin_request_def request_response_kind_def V1_REQUEST_RESPONSE_KIND_def require_live_def require_def started_reader_eq
        plain_codec_def count_def no_tally_def numeral_2_eq_2 UINT32_MAX_def)
  have "rd_thread_alive r1" "rd_current r1 = Idle" by (simp_all add: e1 started_reader_eq)
  from reader_reach.step [OF r1 reader_step.frame [OF this]] have r2: "reader_reach plain_codec r2 ([] @ [] @ [])" by (simp add: r2_def)
  have e2: "r2 = r1\<lparr>rd_current := Decoded (ResponseMessage (LegacyResponse info_response) 1), rd_tally := (rd_tally r1)\<lparr>ty_frames_received := 1\<rparr>\<rparr>"
    by (simp add: r2_def take_frame_def plain_codec_def info_response_def e1 started_reader_eq count_def no_tally_def)
  have "rd_thread_alive r2" by (simp add: e2 e1 started_reader_eq)
  from reader_reach.step [OF r2 reader_step.dispatch [OF this]] have r3: "reader_reach plain_codec (dispatch_current r2) ([] @ [] @ [] @ [])" by simp
  have "length (rd_requests (dispatch_current r2)) = 1" "finish_request 0 (dispatch_current r2) = (dispatch_current r2, Inr (LegacyResponse info_response))"
    by (simp_all add: e2 e1 started_reader_eq dispatch_current_def dispatch_response_def info_response_def version_rejected_def accept_response_def
        complete_response_def set_request_def count_def finish_request_def)
  with r3 show ?thesis by blast
qed

theorem reader_correlates_responses_witness:
  "\<exists>r ds. reader_reach plain_codec r ds \<and> length (rd_requests r) = 1 \<and> finish_request 0 r = (r, Inr (LegacyResponse info_response)) \<and>
     matches plain_codec (rd_requests r ! 0) (LegacyResponse info_response)"
proof -
  obtain r ds where r: "reader_reach plain_codec r ds" "length (rd_requests r) = 1" "finish_request 0 r = (r, Inr (LegacyResponse info_response))"
    using info_exchange by blast
  from reader_correlates_responses [OF r(1)] r(2,3) have "matches plain_codec (rd_requests r ! 0) (LegacyResponse info_response)" by auto
  with r show ?thesis by blast
qed

end
