(* ===== verification/Reader_Flow.thy ===== *)
theory Reader_Flow
  imports Reader_Requests "HOL-Library.Sublist"
begin

text \<open>
  The stream of blocks through the background reader: a bounded queue that keeps the order of arrival, and
  counts every block it does not hand on.
\<close>

section \<open>Runs of the reader\<close>

text \<open>The block whose dispatch a step completes.\<close>

definition arrived :: "'f reader \<Rightarrow> 'f reader \<Rightarrow> data_block list" where
  "arrived r r' = (case rd_current r of
       Decoded m \<Rightarrow> (case m of BlockMessage b \<Rightarrow> (case rd_current r' of Decoded _ \<Rightarrow> [] | _ \<Rightarrow> [b]) | _ \<Rightarrow> [])
     | _ \<Rightarrow> [])"

text \<open>\<open>reader_run codec r bs ds r'\<close>: steps from \<open>r\<close> to \<open>r'\<close>, in which the blocks \<open>bs\<close> arrive and the items \<open>ds\<close> are delivered.\<close>

inductive reader_run :: "'f legacy_codec \<Rightarrow> 'f reader \<Rightarrow> data_block list \<Rightarrow> ReaderStreamItem list \<Rightarrow> 'f reader \<Rightarrow> bool" for codec r0 where
  nothing: "reader_run codec r0 [] [] r0"
| step: "reader_run codec r0 bs ds r \<Longrightarrow> reader_step codec r xs r' \<Longrightarrow> reader_run codec r0 (bs @ arrived r r') (ds @ xs) r'"

lemma reader_run_reach: "reader_run codec r0 bs ds r \<Longrightarrow> reader_reach codec r0 ds0 \<Longrightarrow> reader_reach codec r (ds0 @ ds)"
proof (induction rule: reader_run.induct)
  case (step bs ds r xs r')
  from reader_reach.step [OF step.IH [OF step.prems] step.hyps(2)] show ?case by simp
qed simp

definition flows :: "'f reader \<Rightarrow> data_block list \<Rightarrow> ReaderStreamItem list \<Rightarrow> 'f reader \<Rightarrow> bool" where
  "flows r bs ds r' \<longleftrightarrow> subseq (delivered_blocks ds @ rd_blocks r') (rd_blocks r @ bs) \<and>
     (\<forall>k \<in> {FK_ADC_DATA, FK_GPIO_DATA}. sy_frames_received (tally_of k r') = sy_frames_received (tally_of k r) + kind_count k bs)"

lemma flows_trans:
  assumes "flows r as ds s" "flows s bs es t"
  shows "flows r (as @ bs) (ds @ es) t"
proof -
  have "subseq (delivered_blocks ds @ (delivered_blocks es @ rd_blocks t)) (delivered_blocks ds @ (rd_blocks s @ bs))"
    using assms(2) by (simp add: flows_def subseq_append')
  moreover have "subseq ((delivered_blocks ds @ rd_blocks s) @ bs) ((rd_blocks r @ as) @ bs)" using assms(1) unfolding subseq_append by (simp add: flows_def)
  ultimately have "subseq (delivered_blocks (ds @ es) @ rd_blocks t) (rd_blocks r @ as @ bs)" by (simp add: subseq_order.trans)
  then show ?thesis using assms by (simp add: flows_def)
qed

lemma flows_same: "stream_view r' = stream_view r \<Longrightarrow> flows r [] [] r'"
  by (simp add: flows_def stream_view_def tally_of_def)

lemma flows_emptied: "rd_blocks r' = [] \<Longrightarrow> rd_adc r' = rd_adc r \<Longrightarrow> rd_gpio r' = rd_gpio r \<Longrightarrow> flows r [] [] r'"
  by (simp add: flows_def tally_of_def)

lemma flows_run: "run_effect r r' \<Longrightarrow> flows r [] [] r'"
  by (auto simp: run_effect_def stream_view_def cleared_def record_boundary_eq flows_def tally_of_def)

section \<open>Steps\<close>

lemma enqueue_blocks: "enqueue_stream_report report r = (r', res) \<Longrightarrow> rd_blocks r' = rd_blocks r \<and> rd_adc r' = rd_adc r \<and> rd_gpio r' = rd_gpio r"
  by (auto dest!: enqueue_effect)

lemma evict_blocks_tail:
  assumes "evict_oldest r = (r', res)"
  shows "subseq (rd_blocks r') (rd_blocks r) \<and> sy_frames_received (rd_adc r') = sy_frames_received (rd_adc r) \<and>
    sy_frames_received (rd_gpio r') = sy_frames_received (rd_gpio r)"
proof (cases "rd_blocks r")
  case Nil
  with assms show ?thesis
    by (cases "hd ([] :: data_block list)") (auto simp: evict_oldest_def Let_def count_stream_def count_def dest!: enqueue_blocks split: if_splits sum.splits prod.splits)
next
  case (Cons b bs)
  with assms show ?thesis
    by (cases b) (auto simp: evict_oldest_def Let_def count_stream_def count_def dest!: enqueue_blocks split: if_splits sum.splits prod.splits)
qed

lemma dispatch_block_flows:
  assumes "dispatch_block b r = (r', res)"
  shows "flows r [b] [] r'"
proof -
  define r1 where "r1 = count_received b r"
  have r1: "rd_blocks r1 = rd_blocks r" "\<forall>k \<in> {FK_ADC_DATA, FK_GPIO_DATA}. sy_frames_received (tally_of k r1) = sy_frames_received (tally_of k r) + kind_count k [b]"
    by (cases b; simp add: r1_def count_received_def count_stream_def tally_of_def)+
  have keep: "flows r [b] [] r'" if "subseq (rd_blocks r') (rd_blocks r @ [b])" "sy_frames_received (rd_adc r') = sy_frames_received (rd_adc r1)"
      "sy_frames_received (rd_gpio r') = sy_frames_received (rd_gpio r1)"
    using that r1(2) by (simp add: flows_def tally_of_def)
  note d = assms [unfolded dispatch_block_def Let_def, folded r1_def]
  show ?thesis
  proof (cases "\<not> rd_stream_active r1 \<or> block_run_id b \<noteq> rd_active_run_id r1")
    case True
    then have s: "discard_stale_block b r1 = (r', res)" using d by simp
    have "rd_blocks r' = rd_blocks r \<and> sy_frames_received (rd_adc r') = sy_frames_received (rd_adc r1) \<and> sy_frames_received (rd_gpio r') = sy_frames_received (rd_gpio r1)"
      using s r1(1) by (cases b) (auto simp: discard_stale_block_def Let_def count_stream_def count_def dest!: enqueue_blocks split: if_splits sum.splits prod.splits)
    then show ?thesis by (intro keep) auto
  next
    case active: False
    show ?thesis
    proof (cases "block_checksum_algorithm b \<noteq> rd_active_checksum_algorithm r1")
      case True
      then have "r' = r1" using d active by auto
      then show ?thesis using r1(1) by (intro keep) auto
    next
      case False
      obtain r2 x where ev: "evict_oldest r1 = (r2, x)" by fastforce
      note e = evict_blocks_tail [OF ev]
      have "rd_blocks r' = rd_blocks r2 \<or> rd_blocks r' = rd_blocks r2 @ [b]" "rd_adc r' = rd_adc r2" "rd_gpio r' = rd_gpio r2"
        using d active False ev by (auto simp: count_def split: sum.splits)
      then show ?thesis using e r1(1) by (intro keep) (auto intro: list_emb_append2 simp: subseq_rev_drop_many)
    qed
  qed
qed

lemma await_flows:
  "await_block woken expired r = (r', x) \<Longrightarrow> flows r [] (polled DataItem x) r'"
  "await_stream_item woken expired r = (r', y) \<Longrightarrow> flows r [] (polled id y) r'"
  "await_event woken expired r = (r', e) \<Longrightarrow> flows r [] [] r'"
  by (auto simp: await_block_def await_stream_item_def await_event_def wait_step_def wait_timed_out_def count_def flows_def tally_of_def
      split: if_splits list.splits option.splits)

lemma get_flows:
  "get_block refused expired r = (r', x) \<Longrightarrow> flows r [] (polled DataItem x) r'"
  "get_stream_item refused expired r = (r', y) \<Longrightarrow> flows r [] (polled id y) r'"
  "get_event expired r = (r', e) \<Longrightarrow> flows r [] [] r'"
  using await_flows(1) [of False expired r r' x] await_flows(2) [of False expired r r' y] await_flows(3) [of False expired r r' e]
  by (auto simp: get_block_def get_stream_item_def get_event_def flows_same split: sum.splits if_splits)

lemma flows_view: "flows r bs ds r' \<Longrightarrow> stream_view s = stream_view r' \<Longrightarrow> flows r bs ds s"
  by (simp add: flows_def stream_view_def tally_of_def)

lemma dispatch_current_flows: "flows r (arrived r (dispatch_current r)) [] (dispatch_current r)"
proof (cases "rd_current r")
  case Idle
  then show ?thesis by (simp add: dispatch_current_def arrived_def flows_same)
next
  case Failed
  then show ?thesis using terminate_keeps(1) [of ReaderProtocolError True False r]
    by (simp add: dispatch_current_def arrived_def) (simp add: flows_def stream_view_def tally_of_def)
next
  case (Decoded m)
  have v: "stream_view (s\<lparr>rd_current := c\<rparr>) = stream_view s" for s :: "'a reader" and c by (simp add: stream_view_def)
  show ?thesis
  proof (cases m)
    case (ResponseMessage response version)
    obtain r1 res where d: "dispatch_response response version r = (r1, res)" by fastforce
    from flows_view [OF flows_run [OF dispatch_response_effect [OF d]] v] show ?thesis using Decoded ResponseMessage d
      by (simp add: dispatch_current_def arrived_def)
  next
    case (BlockMessage b)
    obtain r1 res where d: "dispatch_block b r = (r1, res)" by fastforce
    from flows_view [OF dispatch_block_flows [OF d] v] show ?thesis using Decoded BlockMessage d
      by (cases res) (simp_all add: dispatch_current_def arrived_def)
  next
    case (EventMessage e)
    then show ?thesis using Decoded by (simp add: dispatch_current_def arrived_def dispatch_event_def Let_def flows_def count_def tally_of_def)
  qed
qed

text \<open>Every other step leaves the message alone that is being dispatched.\<close>

lemma arrived_same: "rd_current r' = rd_current r \<Longrightarrow> arrived r r' = []" "rd_current r = Idle \<Longrightarrow> arrived r r' = []"
  by (auto simp: arrived_def split: current.splits message.splits)

lemma flows_kept: "flows r [] xs r' \<Longrightarrow> rd_current r' = rd_current r \<or> rd_current r = Idle \<Longrightarrow> flows r (arrived r r') xs r'"
  using arrived_same by fastforce

lemma only_requests_flows: "only_requests r r' \<Longrightarrow> flows r [] [] r'"
  by (rule flows_same [OF only_requestsD(1)])

lemma take_frame_flows: "flows r [] [] (take_frame codec wire r)"
  by (auto simp: take_frame_def Let_def count_def flows_def tally_of_def split: wire_frame.splits option.splits sum.splits)

lemma run_flows:
  "activate_run run checksum configuration version r = (r', res) \<Longrightarrow> flows r [] [] r'"
  "activate_v3_run run settings r = (r', res) \<Longrightarrow> flows r [] [] r'" "deactivate_stream r = (r', res) \<Longrightarrow> flows r [] [] r'"
proof -
  show "flows r [] [] r'" if a: "activate_run run checksum configuration version r = (r', res)"
    using a by (intro flows_run) (auto simp: activate_run_def Let_def run_effect_refl split: if_splits sum.splits
        dest!: activate_run_locked_effect intro: update_effect(1) [OF update_effect(2)] update_effect(2) [OF update_effect(1)])
  show "flows r [] [] r'" if a: "activate_v3_run run settings r = (r', res)"
    using a by (intro flows_run) (auto simp: activate_v3_run_def run_effect_refl split: sum.splits
        dest!: activate_run_locked_effect intro: update_effect(1) [OF update_effect(2)] update_effect(2) [OF update_effect(1)])
  show "flows r [] [] r'" if a: "deactivate_stream r = (r', res)"
    using a deactivate_effect by (intro flows_run) (auto simp: deactivate_stream_def run_effect_refl split: sum.splits)
qed

lemma ended_flows: "flows r [] [] (write_failed i failure r)" "finish_request i r = (r', res) \<Longrightarrow> flows r [] [] r'"
  "flows r [] [] (transport_lost r)" "flows r [] [] (parser_failed r)" "flows r [] [] (close_reader r)"
proof -
  have t: "stream_view (s\<lparr>rd_thread_alive := False\<rparr>) = stream_view s" for s :: "'a reader" by (simp add: stream_view_def)
  note c = only_requestsD(1) [OF complete_with_error_only]
  show "flows r [] [] (write_failed i failure r)" by (rule flows_same, cases failure) (simp_all add: write_failed_def c terminate_keeps(1))
  show "flows r [] [] r'" if "finish_request i r = (r', res)"
    using that by (intro flows_same) (auto simp: finish_request_def Let_def c terminate_keeps(1) split: if_splits option.splits)
  show "flows r [] [] (transport_lost r)" "flows r [] [] (parser_failed r)"
    by (rule flows_same, simp add: transport_lost_def parser_failed_def t terminate_keeps(1))+
  have "stream_view (fail_all_pending ReaderClosedError (r\<lparr>rd_closed := True, rd_stop := True\<rparr>)) = stream_view r"
    unfolding only_requestsD(1) [OF fail_all_only] by (simp add: stream_view_def)
  then show "flows r [] [] (close_reader r)"
    by (cases "rd_closed r") (simp_all add: close_reader_def flows_same flows_emptied stream_view_def)
qed

lemma reader_step_flows:
  assumes "reader_step codec r xs r'"
  shows "flows r (arrived r r') xs r'"
  using assms
proof (cases rule: reader_step.cases)
  case (request kind payload timeout now version negotiating res)
  then show ?thesis using begin_request_keeps [OF request(2)] by (simp add: flows_kept flows_same)
next
  case (start transport_open res)
  then show ?thesis by (intro flows_kept) (auto simp: start_reader_def flows_def tally_of_def split: if_splits option.splits)
next
  case timed_out
  then show ?thesis by (intro flows_kept) (simp_all add: wait_timed_out_def count_def flows_def tally_of_def)
next
  case (read received readinto)
  then show ?thesis by (intro flows_kept) (simp_all add: record_read_def count_def flows_def tally_of_def)
next
  case dispatch
  then show ?thesis using dispatch_current_flows by simp
next
  case (expire now)
  then show ?thesis by (simp add: flows_kept only_requests_flows [OF expire_pending_only])
qed (auto intro!: flows_kept simp: take_frame_flows current_kept current_kept_run current_kept_wait ended_flows
    intro: run_flows get_flows await_flows)

lemma reader_run_flows: "reader_run codec r0 bs ds r \<Longrightarrow> flows r0 bs ds r"
proof (induction rule: reader_run.induct)
  case nothing
  show ?case by (simp add: flows_same)
next
  case (step bs ds r xs r')
  from flows_trans [OF step.IH reader_step_flows [OF step.hyps(2)]] show ?case .
qed

text \<open>A run of the reader keeps the account.\<close>

lemma keeps_account_trans: "keeps_account r xs s \<Longrightarrow> keeps_account s ys t \<Longrightarrow> keeps_account r (xs @ ys) t"
  using grows_trans by (auto simp: keeps_account_def)

lemma reader_run_account: "reader_run codec r0 bs ds r \<Longrightarrow> queues_bounded r0 \<Longrightarrow> keeps_account r0 ds r"
proof (induction rule: reader_run.induct)
  case nothing
  then show ?case by (simp add: keeps_account_def)
next
  case (step bs ds r xs r')
  then have k: "keeps_account r0 ds r" by blast
  then have "queues_bounded r" by (simp add: keeps_account_def)
  from keeps_account_trans [OF k reader_step_account [OF step.hyps(2) this]] show ?case .
qed

section \<open>Properties\<close>

definition discarded :: "FrameKind \<Rightarrow> 'f reader \<Rightarrow> int" where
  "discarded k r = sy_block_queue_drops (tally_of k r) + sy_boundary_blocks_discarded (tally_of k r) + sy_stale_blocks_discarded (tally_of k r)"

lemma balanced_eq: "balanced ds r \<longleftrightarrow> (\<forall>k \<in> {FK_ADC_DATA, FK_GPIO_DATA}. sy_frames_received (tally_of k r) =
    kind_count k (delivered_blocks ds) + kind_count k (rd_blocks r) + discarded k r)"
  by (simp add: balanced_def discarded_def algebra_simps)

lemma new_reader:
  assumes "BackgroundReader rsize pending blocks events timeouts first = Inr r"
  shows "rd_blocks r = []" "sy_frames_received (tally_of k r) = 0" "discarded k r = 0"
  using assms by (auto simp: BackgroundReader_def require_eq_Inr tally_of_def discarded_def no_stream_tally_def)

text \<open>
  Property C31. The block channel of the reader. Whatever the threads do, in any order: the block, event and
  report queues keep their bounds; the blocks handed to the application followed by those still queued are a
  subsequence of the blocks that arrived, in order; the frame counters count the arrivals; the totals of
  queue drops and of boundary discards are the sums over the two streams, and the total of stale discards is at least that sum (a version-3 data frame
  that arrives without active settings is counted in the total only). While the reader is open and has refused no frame, every
  arrival of each stream is delivered, queued or counted as a queue, boundary or stale discard; if
  nothing was discarded, delivered and queued blocks are exactly the arrivals.
\<close>

theorem reader_accounts_blocks:
  assumes "BackgroundReader rsize pending blocks events timeouts first = Inr r0" "1 \<le> first" "first \<le> UINT32_MAX"
    and "reader_run codec r0 bs ds r"
  shows "length (rd_blocks r) \<le> rd_max_queued_blocks r \<and> length (rd_events r) \<le> rd_max_queued_events r \<and>
    length (rd_stream_reports r) \<le> rd_max_stream_reports r \<and>
    subseq (delivered_blocks ds @ rd_blocks r) bs \<and> totalled r \<and>
    (\<forall>k \<in> {FK_ADC_DATA, FK_GPIO_DATA}. sy_frames_received (tally_of k r) = kind_count k bs \<and>
      (healthy r \<longrightarrow> kind_count k bs = kind_count k (delivered_blocks ds) + kind_count k (rd_blocks r) + discarded k r)) \<and>
    (healthy r \<and> discarded FK_ADC_DATA r = 0 \<and> discarded FK_GPIO_DATA r = 0 \<longrightarrow> delivered_blocks ds @ rd_blocks r = bs)"
proof -
  have "reader_reach codec r0 []" using assms(1-3) by (rule reader_reach.init)
  from reader_reach_account [OF reader_run_reach [OF assms(4) this]]
  have a: "queues_bounded r" "totalled r" "healthy r \<longrightarrow> balanced ds r" by simp_all
  have f: "subseq (delivered_blocks ds @ rd_blocks r) bs" "\<forall>k \<in> {FK_ADC_DATA, FK_GPIO_DATA}. sy_frames_received (tally_of k r) = kind_count k bs"
    using reader_run_flows [OF assms(4)] new_reader [OF assms(1)] by (simp_all add: flows_def)
  have all: "delivered_blocks ds @ rd_blocks r = bs" if h: "healthy r" "discarded FK_ADC_DATA r = 0" "discarded FK_GPIO_DATA r = 0"
  proof (rule subseq_same_length [OF f(1)])
    have "int (length bs) = kind_count FK_ADC_DATA (delivered_blocks ds @ rd_blocks r) + kind_count FK_GPIO_DATA (delivered_blocks ds @ rd_blocks r)"
      using f(2) a(3) h kind_count_sum [of bs] by (simp add: balanced_eq)
    then show "length (delivered_blocks ds @ rd_blocks r) = length bs" unfolding kind_count_sum by simp
  qed
  show ?thesis using a f all by (auto simp: queues_bounded_def balanced_eq)
qed

text \<open>One block through an active reader.\<close>

definition active_reader :: "int \<Rightarrow> 'f reader" where
  "active_reader run = fst (activate_run run ADLER32 None (Some 1) started_reader)"

lemma active_reader_eq:
  assumes "0 < run" "run \<le> UINT32_MAX"
  shows "active_reader run = started_reader\<lparr>rd_active_run_id := run, rd_stream_active := True, rd_selected_wire_version := Some 1\<rparr>"
  using assms by (simp add: active_reader_def activate_run_def activate_run_locked_def SUPPORTED_CHECKSUM_ALGORITHMS_def require_live_def require_def
      started_reader_eq record_boundary_eq no_tally_def no_stream_tally_def)

lemma one_block_run:
  assumes "0 < block_run_id b" "block_run_id b \<le> UINT32_MAX" "block_checksum_algorithm b = ADLER32" "block_kind b \<in> {FK_ADC_DATA, FK_GPIO_DATA}"
  shows "\<exists>r. reader_run plain_codec (active_reader (block_run_id b)) [b] [DataItem b] r \<and> healthy r \<and> rd_blocks r = [] \<and>
    discarded FK_ADC_DATA r = 0 \<and> discarded FK_GPIO_DATA r = 0 \<and> ty_host_event_queue_drops (rd_tally r) = 0 \<and>
    ty_host_block_queue_drops (rd_tally r) = 0 \<and> ty_loss_report_queue_drops (rd_tally r) = 0"
proof -
  define r0 :: "(CommandResponse + data_block) reader" where "r0 = active_reader (block_run_id b)"
  have "r0 = started_reader\<lparr>rd_active_run_id := block_run_id b, rd_stream_active := True, rd_selected_wire_version := Some 1\<rparr>"
    unfolding r0_def by (rule active_reader_eq [OF assms(1,2)])
  note e0 = this [unfolded started_reader_eq]
  define r1 where "r1 = take_frame plain_codec (WireLegacy (Inr b)) r0"
  have e1: "r1 = r0\<lparr>rd_current := Decoded (BlockMessage b), rd_tally := no_tally\<lparr>ty_frames_received := 1\<rparr>\<rparr>"
    by (simp add: r1_def take_frame_def plain_codec_def e0 count_def no_tally_def)
  have "reader_run plain_codec r0 ([] @ arrived r0 r1) ([] @ []) r1" unfolding r1_def
    by (rule reader_run.step [OF reader_run.nothing reader_step.frame]) (simp_all add: e0)
  then have s1: "reader_run plain_codec r0 [] [] r1" by (simp add: arrived_def e0)
  define r2 where "r2 = dispatch_current r1"
  have r2: "rd_current r2 = Idle" "rd_blocks r2 = [b]" "rd_closed r2 = False" "rd_started r2 = True" "rd_terminal_error r2 = None"
      "discarded FK_ADC_DATA r2 = 0" "discarded FK_GPIO_DATA r2 = 0" "ty_host_event_queue_drops (rd_tally r2) = 0" "ty_host_block_queue_drops (rd_tally r2) = 0"
      "ty_loss_report_queue_drops (rd_tally r2) = 0"
    using assms(3) by (cases b; simp add: r2_def e1 e0 dispatch_current_def dispatch_block_def count_received_def count_stream_def evict_oldest_def count_def
        discarded_def tally_of_def no_stream_tally_def no_tally_def)+
  have "reader_run plain_codec r0 ([] @ arrived r1 r2) ([] @ []) r2" unfolding r2_def
    by (rule reader_run.step [OF s1 reader_step.dispatch]) (simp add: e1 e0)
  then have s2: "reader_run plain_codec r0 [b] [] r2" using r2(1) by (simp add: arrived_def e1)
  have g: "get_block False False r2 = (r2\<lparr>rd_blocks := []\<rparr>, Ready b)" using r2 by (simp add: get_block_def require_live_def require_def await_block_def)
  from reader_run.step [OF s2 reader_step.block [OF g]] have s3: "reader_run plain_codec r0 [b] [DataItem b] (r2\<lparr>rd_blocks := []\<rparr>)"
    using r2(1) by (simp add: arrived_def)
  show ?thesis unfolding r0_def [symmetric] by (rule exI, rule conjI, rule s3) (use r2 in \<open>simp add: healthy_def discarded_def tally_of_def\<close>)
qed

lemma active_reader_run:
  assumes "0 < run" "run \<le> UINT32_MAX"
  shows "\<exists>r. BackgroundReader 1 1 1 1 [] 1 = Inr r \<and> reader_run codec r [] [] (active_reader run)"
proof -
  obtain r where r: "BackgroundReader 1 1 1 1 [] 1 = (Inr r :: reader_error + 'a reader)" by (simp add: BackgroundReader_def require_def)
  have c: "rd_current r = Idle" using r by (auto simp: BackgroundReader_def require_def)
  have "reader_run codec r ([] @ arrived r (fst (start_reader True r))) ([] @ []) (fst (start_reader True r))"
    by (rule reader_run.step [OF reader_run.nothing reader_step.start]) (rule prod.collapse [symmetric])
  then have s: "reader_run codec r [] [] started_reader" using c by (simp add: arrived_def started_reader_def r)
  have "reader_run codec r ([] @ arrived (started_reader :: 'a reader) (active_reader run)) ([] @ []) (active_reader run)" unfolding active_reader_def
    by (rule reader_run.step [OF s reader_step.activate]) (rule prod.collapse [symmetric])
  then have "reader_run codec r [] [] (active_reader run)" by (simp add: arrived_def started_reader_eq)
  with r show ?thesis by blast
qed

lemma reader_run_append: "reader_run codec s cs es t \<Longrightarrow> reader_run codec r bs ds s \<Longrightarrow> reader_run codec r (bs @ cs) (ds @ es) t"
proof (induction rule: reader_run.induct)
  case (step cs es t xs t')
  from reader_run.step [OF step.IH [OF step.prems] step.hyps(2)] show ?case by simp
qed simp

theorem reader_accounts_blocks_witness:
  "\<exists>r0 r b. BackgroundReader 1 1 1 1 [] 1 = Inr r0 \<and> reader_run plain_codec r0 [b] [DataItem b] r \<and> healthy r \<and>
     block_kind b = FK_GPIO_DATA \<and> sy_frames_received (tally_of FK_GPIO_DATA r) = 1 \<and> discarded FK_GPIO_DATA r = 0"
proof -
  let ?b = "zero_gpio_block 0 0"
  have b: "0 < block_run_id ?b" "block_run_id ?b \<le> UINT32_MAX" "block_checksum_algorithm ?b = ADLER32" "block_kind ?b = FK_GPIO_DATA"
    by (simp_all add: zero_gpio_block_def UINT32_MAX_def)
  obtain r where r: "reader_run plain_codec (active_reader (block_run_id ?b)) [?b] [DataItem ?b] r" "healthy r" "discarded FK_GPIO_DATA r = 0"
    using one_block_run [of ?b] b by auto
  obtain r0 where r0: "BackgroundReader 1 1 1 1 [] 1 = Inr r0" "reader_run plain_codec r0 [] [] (active_reader (block_run_id ?b))"
    using active_reader_run [OF b(1,2)] by blast
  have run: "reader_run plain_codec r0 [?b] [DataItem ?b] r" using reader_run_append [OF r(1) r0(2)] by simp
  from reader_accounts_blocks [OF r0(1) _ _ run] have "sy_frames_received (tally_of FK_GPIO_DATA r) = kind_count FK_GPIO_DATA [?b]" by (simp add: UINT32_MAX_def)
  then show ?thesis using r0(1) run r(2,3) b(4) by (intro exI [of _ r0] exI [of _ r] exI [of _ ?b]) simp
qed

end
