(* ===== verification/Reconciliation.thy ===== *)
theory Reconciliation
  imports Data_Path Reader_Flow
begin

text \<open>
  The reader and the validator together: the reconciliation at the end of a run (\<^verbatim>\<open>_reconcile\<close>) compares the counters
  of the device, the reader and the validator.
\<close>

section \<open>Counts of the validator\<close>



section \<open>Counters between two states of the reader\<close>




lemma when_issue_simps [simp]: "when_issue c i = [] \<longleftrightarrow> \<not> c" "j \<in> set (when_issue c i) \<longleftrightarrow> c \<and> j = i"
  by (auto simp: when_issue_def)

section \<open>Property\<close>




end
