(* ===== verification/V3_Session.thy ===== *)
theory V3_Session
  imports Reader_Flow
begin

text \<open>
  The version-3 control session of \<^verbatim>\<open>session_v3.py\<close> and the version negotiation of \<^verbatim>\<open>negotiation.py\<close>. Both talk to the
  device through \<^verbatim>\<open>BackgroundReader.request\<close>, which is the argument \<open>request\<close>: it maps a state of the link,
  a command kind, a payload and a timeout to the next state of the link and a reader error or a
  response. An operation of the session maps the pair of session and link to the next pair and its result.
  The locale \<open>device_link\<close> states what a link to a correct device promises; the session is verified against it.
\<close>

section \<open>The session\<close>

datatype session_error = CommandTimeoutError | DeviceCommandError CommandKind ErrorCode int | DeviceIdentityMismatchError
  | UnexpectedMessageError | SessionReaderError reader_error | SessionValueError | SessionAssertionError

record session =
  ses_timeout :: int
  ses_capabilities :: "V3Capabilities option"
  ses_applied :: "V3AppliedSettings option"
  ses_identity :: "V3Info option"
  ses_state :: DeviceState
  ses_run_id :: int
  ses_last_status :: "V3Status option"

definition V3Session :: "int \<Rightarrow> session" where
  "V3Session timeout = \<lparr>ses_timeout = timeout, ses_capabilities = None, ses_applied = None, ses_identity = None,
     ses_state = DS_STOPPED, ses_run_id = 0, ses_last_status = None\<rparr>"

type_synonym 'w v3_request = "'w \<Rightarrow> CommandKind \<Rightarrow> bytes \<Rightarrow> int \<Rightarrow> 'w \<times> (reader_error + V3Response)"

type_synonym ('w, 'a) session_result = "(session \<times> 'w) \<times> (session_error + 'a)"

definition then_do :: "('w, 'a) session_result \<Rightarrow> ('a \<Rightarrow> session \<times> 'w \<Rightarrow> ('w, 'b) session_result) \<Rightarrow> ('w, 'b) session_result" where
  "then_do m f = (case m of (s, Inl e) \<Rightarrow> (s, Inl e) | (s, Inr x) \<Rightarrow> f x s)"

definition session_command :: "'w v3_request \<Rightarrow> CommandKind \<Rightarrow> bytes \<Rightarrow> int option \<Rightarrow> session \<times> 'w \<Rightarrow> ('w, V3Response) session_result" where
  "session_command request kind payload timeout s =
     (case request (snd s) kind payload (case timeout of None \<Rightarrow> ses_timeout (fst s) | Some t \<Rightarrow> t) of
        (w, Inl e) \<Rightarrow> ((fst s, w), Inl (if e = RequestTimeoutError then CommandTimeoutError else SessionReaderError e))
      | (w, Inr response) \<Rightarrow> ((fst s, w),
          if \<not> response_ok response then Inl (DeviceCommandError kind (rp_error_code response) (rp_request_id response))
          else if rp_kind response \<noteq> COMMAND_RESPONSE_KINDS kind then Inl SessionValueError
          else Inr response))"

definition identity_key :: "V3Info \<Rightarrow> BoardId \<times> McuId \<times> bool \<times> string \<times> string \<times> string" where
  "identity_key i = (in_board_id i, in_mcu_id i, in_simulated i, in_hardware_serial i, in_firmware_version i, in_build_id i)"

definition session_info :: "'w v3_request \<Rightarrow> session \<times> 'w \<Rightarrow> ('w, V3Info) session_result" where
  "session_info request s = then_do (session_command request CK_INFO [] None s) (\<lambda>response (ses, w).
     case rp_value response of
       Some (InfoValue value) \<Rightarrow>
         if (case ses_identity ses of None \<Rightarrow> False | Some i \<Rightarrow> identity_key value \<noteq> identity_key i) then ((ses, w), Inl DeviceIdentityMismatchError)
         else ((ses\<lparr>ses_identity := Some value\<rparr>, w), Inr value)
     | _ \<Rightarrow> ((ses, w), Inl SessionAssertionError))"

definition session_get_capabilities :: "'w v3_request \<Rightarrow> session \<times> 'w \<Rightarrow> ('w, V3Capabilities) session_result" where
  "session_get_capabilities request s = then_do (session_command request CK_GET_CAPABILITIES [] None s) (\<lambda>response (ses, w).
     case rp_value response of
       Some (CapabilitiesValue value) \<Rightarrow> ((ses\<lparr>ses_capabilities := Some value\<rparr>, w), Inr value)
     | _ \<Rightarrow> ((ses, w), Inl SessionAssertionError))"

text \<open>\<^verbatim>\<open>next\<close> without a matching profile raises \<^verbatim>\<open>StopIteration\<close>.\<close>

definition validate_applied :: "'w v3_request \<Rightarrow> V3AppliedSettings \<Rightarrow> bool \<Rightarrow> session \<times> 'w \<Rightarrow> ('w, unit) session_result" where
  "validate_applied request value refresh_info s = (case ses_capabilities (fst s) of
       None \<Rightarrow> (s, Inl SessionAssertionError)
     | Some caps \<Rightarrow> (case require_supported caps (ap_settings value) of
         Inl _ \<Rightarrow> (s, Inl SessionValueError)
       | Inr _ \<Rightarrow> (case List.find (\<lambda>k. cl_cpu_profile k = st_cpu_profile (ap_settings value)) (cap_cpu_profiles caps) of
           None \<Rightarrow> (s, Inl SessionValueError)
         | Some clocks \<Rightarrow>
             if ap_clocks value \<noteq> clocks then (s, Inl UnexpectedMessageError)
             else then_do (if refresh_info then (case session_info request s of (s1, Inl e) \<Rightarrow> (s1, Inl e) | (s1, Inr i) \<Rightarrow> (s1, Inr (Some i)))
                 else (s, Inr (ses_identity (fst s)))) (\<lambda>info s1.
               case info of
                 Some i \<Rightarrow> if in_clocks i = ap_clocks value then (s1, Inr ()) else (s1, Inl UnexpectedMessageError)
               | None \<Rightarrow> (s1, Inl UnexpectedMessageError)))))"

definition session_get_settings :: "'w v3_request \<Rightarrow> session \<times> 'w \<Rightarrow> ('w, V3AppliedSettings) session_result" where
  "session_get_settings request s = then_do (session_command request CK_GET_SETTINGS [] None s) (\<lambda>response s1.
     case rp_value response of
       Some (AppliedValue value) \<Rightarrow>
         then_do (validate_applied request value (ses_applied (fst s1) \<noteq> None) s1) (\<lambda>_ (ses, w).
           if ses_state ses \<noteq> DS_STOPPED \<and> ses_applied ses \<noteq> Some value then ((ses, w), Inl UnexpectedMessageError)
           else ((ses\<lparr>ses_applied := Some value\<rparr>, w), Inr value))
     | _ \<Rightarrow> (s1, Inl SessionAssertionError))"

definition session_configure :: "'w v3_request \<Rightarrow> V3Settings \<Rightarrow> session \<times> 'w \<Rightarrow> ('w, V3AppliedSettings) session_result" where
  "session_configure request settings s = (case ses_capabilities (fst s) of
       None \<Rightarrow> (s, Inl SessionAssertionError)
     | Some caps \<Rightarrow> (case bind_res (require_supported caps settings) (\<lambda>_. settings_to_bytes settings) of
         Inl _ \<Rightarrow> (s, Inl SessionValueError)
       | Inr payload \<Rightarrow>
           then_do (session_command request CK_CONFIGURE payload None s) (\<lambda>response s1.
             case rp_value response of
               Some (AppliedValue value) \<Rightarrow>
                 if ap_settings value \<noteq> settings then (s1, Inl UnexpectedMessageError)
                 else then_do (session_command request CK_GET_SETTINGS [] None s1) (\<lambda>readback s2.
                   if rp_value readback \<noteq> Some (AppliedValue value) then (s2, Inl UnexpectedMessageError)
                   else then_do (validate_applied request value True s2) (\<lambda>_ (ses, w).
                     ((ses\<lparr>ses_applied := Some value, ses_run_id := rp_run_id response\<rparr>, w), Inr value)))
             | _ \<Rightarrow> (s1, Inl UnexpectedMessageError))))"

definition session_start :: "'w v3_request \<Rightarrow> session \<times> 'w \<Rightarrow> ('w, int) session_result" where
  "session_start request s =
     (let requested = ses_applied (fst s) in
      then_do (session_get_settings request s) (\<lambda>settings s1.
        if Some settings \<noteq> requested then (s1, Inl UnexpectedMessageError)
        else then_do (session_command request CK_START [] None s1) (\<lambda>response (ses, w).
          let s2 = (ses\<lparr>ses_state := DS_RUNNING, ses_run_id := rp_run_id response, ses_last_status := None\<rparr>, w) in
          if rp_run_id response = 0 \<or> rp_value response \<noteq> map_option AppliedValue requested then (s2, Inl UnexpectedMessageError)
          else (s2, Inr (rp_run_id response)))))"

definition session_status :: "'w v3_request \<Rightarrow> int option \<Rightarrow> session \<times> 'w \<Rightarrow> ('w, V3Status) session_result" where
  "session_status request timeout s = then_do (session_command request CK_GET_STATUS [] timeout s) (\<lambda>response (ses, w).
     case rp_value response of
       Some (StatusValue value) \<Rightarrow> ((ses\<lparr>ses_state := sp_state (ss_stop value), ses_run_id := sp_run_id (ss_stop value),
           ses_last_status := Some value\<rparr>, w), Inr value)
     | _ \<Rightarrow> ((ses, w), Inl SessionAssertionError))"

text \<open>
  The drain loop of \<^verbatim>\<open>stop\<close>. \<open>pause\<close> is what happens to the link while the host sleeps; \<open>remaining\<close> has, for each
  round, the two readings of \<^verbatim>\<open>deadline - monotonic()\<close>; after the last one the deadline has passed. Times are in microseconds, so \<^verbatim>\<open>0.000001\<close> is 1.
\<close>

fun await_stopped :: "'w v3_request \<Rightarrow> ('w \<Rightarrow> 'w) \<Rightarrow> (int \<times> int) list \<Rightarrow> session \<times> 'w \<Rightarrow> ('w, DeviceState) session_result" where
  "await_stopped request pause remaining (ses, w) =
     (if ses_state ses = DS_DRAINING then
        (case remaining of
           [] \<Rightarrow> ((ses, w), Inl UnexpectedMessageError)
         | (first, second) # rest \<Rightarrow>
             if first \<le> 0 then ((ses, w), Inl UnexpectedMessageError)
             else then_do (session_status request (Some (max 1 second)) (ses, pause w)) (\<lambda>_. await_stopped request pause rest))
      else if ses_state ses \<noteq> DS_STOPPED then ((ses, w), Inl UnexpectedMessageError)
      else ((ses, w), Inr DS_STOPPED))"

definition session_stop :: "'w v3_request \<Rightarrow> ('w \<Rightarrow> 'w) \<Rightarrow> (int \<times> int) list \<Rightarrow> session \<times> 'w \<Rightarrow> ('w, DeviceState) session_result" where
  "session_stop request pause remaining s = then_do (session_command request CK_STOP [] None s) (\<lambda>response (ses, w).
     case rp_value response of
       Some (StopValue value) \<Rightarrow>
         await_stopped request pause remaining (ses\<lparr>ses_state := sp_state value, ses_run_id := sp_run_id value\<rparr>, w)
     | _ \<Rightarrow> ((ses, w), Inl SessionAssertionError))"

section \<open>Negotiation\<close>

text \<open>
  \<^verbatim>\<open>InfoNegotiation\<close>: the current version and the versions its iterator still holds. The request gets the version,
  the remaining time and the link; \<open>clock\<close> reads the time of a link.
\<close>

record negotiation =
  ng_version :: int
  ng_versions :: "int list"

definition InfoNegotiation :: negotiation where
  "InfoNegotiation = \<lparr>ng_version = 3, ng_versions = [1, 2]\<rparr>"

fun probe_until :: "(int \<Rightarrow> int \<Rightarrow> 'w \<Rightarrow> 'w \<times> (reader_error + 'a)) \<Rightarrow> ('w \<Rightarrow> int) \<Rightarrow> int \<Rightarrow> int \<Rightarrow> int list \<Rightarrow> 'w \<Rightarrow>
    (negotiation \<times> 'w) \<times> (reader_error + 'a)" where
  "probe_until request clock deadline version versions w =
     (let here = (\<lambda>w. (\<lparr>ng_version = version, ng_versions = versions\<rparr>, w)) in
      if deadline - clock w \<le> 0 then (here w, Inl RequestTimeoutError)
      else (case request version (deadline - clock w) w of
        (w1, Inr response) \<Rightarrow> (here w1, Inr response)
      | (w1, Inl e) \<Rightarrow>
          if e = ProtocolVersionRejected
          then (case versions of [] \<Rightarrow> (here w1, Inl e) | v # vs \<Rightarrow> probe_until request clock deadline v vs w1)
          else (here w1, Inl e)))"

definition probe :: "(int \<Rightarrow> int \<Rightarrow> 'w \<Rightarrow> 'w \<times> (reader_error + 'a)) \<Rightarrow> ('w \<Rightarrow> int) \<Rightarrow> int \<Rightarrow> negotiation \<times> 'w \<Rightarrow>
    (negotiation \<times> 'w) \<times> (reader_error + 'a)" where
  "probe request clock timeout s = probe_until request clock (clock (snd s) + timeout) (ng_version (fst s)) (ng_versions (fst s)) (snd s)"

section \<open>Operations and their outcomes\<close>

text \<open>The reads with which \<^verbatim>\<open>ThingDAQ.synchronize\<close> opens a session, once INFO has been read.\<close>

definition session_open :: "'w v3_request \<Rightarrow> session \<times> 'w \<Rightarrow> ('w, V3Status) session_result" where
  "session_open request s = then_do (session_get_capabilities request s) (\<lambda>_ s1.
     then_do (session_get_settings request s1) (\<lambda>_ s2. session_status request None s2))"

text \<open>The calls a user of the session can make, and what each returns.\<close>

datatype session_op = OpInfo | OpSettings | OpStatus | OpConfigure V3Settings | OpStart | OpStop "(int \<times> int) list"

datatype session_outcome = OutIdentity "BoardId \<times> McuId \<times> bool \<times> string \<times> string \<times> string" | OutSettings V3Settings
  | OutStatus DeviceState int | OutRun int | OutStopped | OutRefused CommandKind | OutUnsupported | OutError session_error

fun failure :: "session_error \<Rightarrow> session_outcome" where
  "failure (DeviceCommandError kind _ _) = OutRefused kind"
| "failure SessionValueError = OutUnsupported"
| "failure e = OutError e"

definition outcome :: "('a \<Rightarrow> session_outcome) \<Rightarrow> ('w, 'a) session_result \<Rightarrow> (session \<times> 'w) \<times> session_outcome" where
  "outcome f m = (fst m, case snd m of Inl e \<Rightarrow> failure e | Inr x \<Rightarrow> f x)"

definition run_op :: "'w v3_request \<Rightarrow> ('w \<Rightarrow> 'w) \<Rightarrow> session_op \<Rightarrow> session \<times> 'w \<Rightarrow> (session \<times> 'w) \<times> session_outcome" where
  "run_op request pause operation s = (case operation of
       OpInfo \<Rightarrow> outcome (\<lambda>i. OutIdentity (identity_key i)) (session_info request s)
     | OpSettings \<Rightarrow> outcome (\<lambda>a. OutSettings (ap_settings a)) (session_get_settings request s)
     | OpStatus \<Rightarrow> outcome (\<lambda>x. OutStatus (sp_state (ss_stop x)) (sp_run_id (ss_stop x))) (session_status request None s)
     | OpConfigure settings \<Rightarrow> outcome (\<lambda>a. OutSettings (ap_settings a)) (session_configure request settings s)
     | OpStart \<Rightarrow> outcome OutRun (session_start request s)
     | OpStop remaining \<Rightarrow> outcome (\<lambda>_. OutStopped) (session_stop request pause remaining s))"

fun run_ops :: "'w v3_request \<Rightarrow> ('w \<Rightarrow> 'w) \<Rightarrow> session_op list \<Rightarrow> session \<times> 'w \<Rightarrow> (session \<times> 'w) \<times> session_outcome list" where
  "run_ops request pause [] s = (s, [])"
| "run_ops request pause (operation # operations) s =
     (case run_op request pause operation s of (s1, out) \<Rightarrow>
        (case run_ops request pause operations s1 of (s2, outs) \<Rightarrow> (s2, out # outs)))"

section \<open>What a device promises\<close>

text \<open>The abstract device: what a host can know of it, and how the commands change it.\<close>

record device_view =
  dv_capabilities :: V3Capabilities
  dv_identity :: "BoardId \<times> McuId \<times> bool \<times> string \<times> string \<times> string"
  dv_settings :: V3Settings
  dv_run_id :: int
  dv_state :: DeviceState
  dv_pending :: bool

definition view_refuses :: "CommandKind \<Rightarrow> V3Settings \<Rightarrow> device_view \<Rightarrow> bool" where
  "view_refuses ck s v \<longleftrightarrow> ck \<in> {CK_CONFIGURE, CK_START} \<and> dv_state v \<noteq> DS_STOPPED \<or> ck = CK_CONFIGURE \<and> s \<notin> set (cap_configurations (dv_capabilities v))"

definition view_step :: "CommandKind \<Rightarrow> V3Settings \<Rightarrow> device_view \<Rightarrow> device_view" where
  "view_step ck s v = (case ck of
       CK_CONFIGURE \<Rightarrow> v\<lparr>dv_settings := s\<rparr>
     | CK_START \<Rightarrow> v\<lparr>dv_run_id := next_run_id (dv_run_id v), dv_state := DS_RUNNING\<rparr>
     | CK_STOP \<Rightarrow> v\<lparr>dv_state := (if dv_pending v then DS_DRAINING else DS_STOPPED)\<rparr>
     | _ \<Rightarrow> v)"

definition view_reports :: "CommandKind \<Rightarrow> device_view \<Rightarrow> V3ResponseValue \<Rightarrow> bool" where
  "view_reports ck v x = (let clocks = clocks_for_profile (st_cpu_profile (dv_settings v)) in case ck of
       CK_INFO \<Rightarrow> \<exists>i. x = InfoValue i \<and> identity_key i = dv_identity v \<and> clocks = Inr (in_clocks i)
     | CK_GET_CAPABILITIES \<Rightarrow> x = CapabilitiesValue (dv_capabilities v)
     | CK_GET_STATUS \<Rightarrow> \<exists>s. x = StatusValue s \<and> sp_state (ss_stop s) = dv_state v \<and> sp_run_id (ss_stop s) = dv_run_id v
     | CK_STOP \<Rightarrow> \<exists>s. x = StopValue s \<and> sp_state s = dv_state v \<and> sp_run_id s = dv_run_id v
     | _ \<Rightarrow> \<exists>a. x = AppliedValue a \<and> ap_settings a = dv_settings v \<and> clocks = Inr (ap_clocks a))"

definition view_delivered :: "device_view \<Rightarrow> device_view" where
  "view_delivered v = v\<lparr>dv_pending := False, dv_state := (if dv_state v = DS_DRAINING then DS_STOPPED else dv_state v)\<rparr>"

definition command_payload :: "CommandKind \<Rightarrow> V3Settings \<Rightarrow> bytes \<Rightarrow> bool" where
  "command_payload ck s p \<longleftrightarrow> (if ck = CK_CONFIGURE then settings_to_bytes s = Inr p else p = [])"

text \<open>The same calls on the abstract device.\<close>

definition view_op :: "session_op \<Rightarrow> device_view \<Rightarrow> device_view \<times> session_outcome" where
  "view_op operation v = (case operation of
       OpInfo \<Rightarrow> (v, OutIdentity (dv_identity v))
     | OpSettings \<Rightarrow> (v, OutSettings (dv_settings v))
     | OpStatus \<Rightarrow> (v, OutStatus (dv_state v) (dv_run_id v))
     | OpConfigure s \<Rightarrow>
         if s \<notin> set (cap_configurations (dv_capabilities v)) then (v, OutUnsupported)
         else if dv_state v \<noteq> DS_STOPPED then (v, OutRefused CK_CONFIGURE)
         else (v\<lparr>dv_settings := s\<rparr>, OutSettings s)
     | OpStart \<Rightarrow>
         if dv_state v \<noteq> DS_STOPPED then (v, OutRefused CK_START)
         else (v\<lparr>dv_run_id := next_run_id (dv_run_id v), dv_state := DS_RUNNING\<rparr>, OutRun (next_run_id (dv_run_id v)))
     | OpStop _ \<Rightarrow> (v\<lparr>dv_state := DS_STOPPED, dv_pending := False\<rparr>, OutStopped))"

fun view_ops :: "session_op list \<Rightarrow> device_view \<Rightarrow> device_view \<times> session_outcome list" where
  "view_ops [] v = (v, [])"
| "view_ops (operation # operations) v =
     (case view_op operation v of (v1, out) \<Rightarrow> (case view_ops operations v1 of (v2, outs) \<Rightarrow> (v2, out # outs)))"

text \<open>The host waits long enough for a drain: more rounds before its deadline than the transport needs.\<close>

definition patient :: "nat \<Rightarrow> session_op \<Rightarrow> bool" where
  "patient n operation \<longleftrightarrow> (case operation of OpStop remaining \<Rightarrow> n < length remaining \<and> list_all (\<lambda>t. 0 < fst t) remaining | _ \<Rightarrow> True)"

text \<open>The session knows the device: what it has stored is what the device has.\<close>

definition applied_as :: "device_view \<Rightarrow> V3AppliedSettings \<Rightarrow> bool" where
  "applied_as v a \<longleftrightarrow> ap_settings a = dv_settings v \<and> clocks_for_profile (st_cpu_profile (dv_settings v)) = Inr (ap_clocks a)"

definition introduced :: "session \<Rightarrow> device_view \<Rightarrow> bool" where
  "introduced ses v \<longleftrightarrow> 0 < ses_timeout ses \<and> ses_capabilities ses = Some (dv_capabilities v) \<and>
     (\<exists>i. ses_identity ses = Some i \<and> identity_key i = dv_identity v)"

definition knows :: "session \<Rightarrow> device_view \<Rightarrow> bool" where
  "knows ses v \<longleftrightarrow> introduced ses v \<and> (\<exists>a. ses_applied ses = Some a \<and> applied_as v a)"

definition in_step :: "session \<Rightarrow> device_view \<Rightarrow> bool" where
  "in_step ses v \<longleftrightarrow> knows ses v \<and> ses_state ses = dv_state v \<and> ses_run_id ses = dv_run_id v"

lemma then_do_simps [simp]: "then_do (s, Inr x) f = f x s" "then_do (s, Inl e) f = (s, Inl e)"
  by (simp_all add: then_do_def)

text \<open>How an operation ends, and the rule for one operation after another.\<close>

definition ends :: "('w, 'a) session_result \<Rightarrow> (session \<Rightarrow> 'w \<Rightarrow> session_error + 'a \<Rightarrow> bool) \<Rightarrow> bool" where
  "ends m Q = (case m of ((ses, w), r) \<Rightarrow> Q ses w r)"

lemma ends_simps [simp]: "ends ((ses, w), r) Q = Q ses w r"
  by (simp add: ends_def)

lemma ends_then: "ends (then_do m f) Q = ends m (\<lambda>ses w r. case r of Inl e \<Rightarrow> Q ses w (Inl e) | Inr x \<Rightarrow> ends (f x (ses, w)) Q)"
  by (cases m) (auto simp: then_do_def ends_def split: sum.splits prod.splits)

lemma ends_mono: "ends m Q \<Longrightarrow> (\<And>ses w r. Q ses w r \<Longrightarrow> Q' ses w r) \<Longrightarrow> ends m Q'"
  by (auto simp: ends_def split: prod.splits)

lemma clocks_of_record:
  assumes "clocks_to_bytes k = Inr b"
  shows "clocks_for_profile (cl_cpu_profile k) = Inr k"
proof -
  have "list_all (\<lambda>b. case clocks_from_bytes b of Inr k \<Rightarrow> clocks_for_profile (cl_cpu_profile k) = Inr k | Inl e \<Rightarrow> True) CPU_PROFILES" by code_simp
  moreover have "b \<in> set CPU_PROFILES" using assms by (auto simp: clocks_to_bytes_def bind_res_eq_Inr require_eq_Inr)
  ultimately show ?thesis using clocks_codec.dec_enc [OF assms] by (auto simp: list_all_iff split: sum.splits)
qed

lemma advertised_clocks:
  assumes "capabilities_to_payload c = Inr p" "s \<in> set (cap_configurations c)"
  shows "\<exists>k. List.find (\<lambda>k. cl_cpu_profile k = st_cpu_profile s) (cap_cpu_profiles c) = Some k \<and> clocks_for_profile (st_cpu_profile s) = Inr k"
proof -
  obtain cpus where "map_res clocks_to_bytes (cap_cpu_profiles c) = Inr cpus" and con: "caps_consistent c"
    using assms(1) by (auto simp: capabilities_to_payload_eq_Inr caps_wire_def)
  then have all: "clocks_for_profile (cl_cpu_profile k) = Inr k" if "k \<in> set (cap_cpu_profiles c)" for k
    using that clocks_of_record by (auto simp: map_res_eq_Inr in_set_conv_nth)
  from con assms(2) obtain k where "k \<in> set (cap_cpu_profiles c)" "cl_cpu_profile k = st_cpu_profile s"
    by (auto simp: caps_consistent_def list_all_iff)
  then obtain k where "List.find (\<lambda>k. cl_cpu_profile k = st_cpu_profile s) (cap_cpu_profiles c) = Some k"
    by (cases "List.find (\<lambda>k. cl_cpu_profile k = st_cpu_profile s) (cap_cpu_profiles c)") (auto simp: find_None_iff)
  moreover from this have "k \<in> set (cap_cpu_profiles c)" "cl_cpu_profile k = st_cpu_profile s" by (auto simp: find_Some_iff)
  ultimately show ?thesis using all by metis
qed

locale device_link =
  fixes request :: "'w v3_request" and good :: "'w \<Rightarrow> bool" and view :: "'w \<Rightarrow> device_view" and pause :: "'w \<Rightarrow> 'w"
    and waits :: "'w \<Rightarrow> nat"
  assumes capabilities: "good w \<Longrightarrow> \<exists>p. capabilities_to_payload (dv_capabilities (view w)) = Inr p"
    and settings: "good w \<Longrightarrow> dv_settings (view w) \<in> set (cap_configurations (dv_capabilities (view w)))"
    and run: "good w \<Longrightarrow> 0 \<le> dv_run_id (view w)"
    and draining: "good w \<Longrightarrow> dv_state (view w) = DS_DRAINING \<Longrightarrow> dv_pending (view w)"
    and exchange: "good w \<Longrightarrow> 0 < t \<Longrightarrow> command_payload ck s p \<Longrightarrow>
      \<exists>w' r. request w ck p t = (w', Inr r) \<and> good w' \<and> waits w' = waits w \<and> rp_kind r = COMMAND_RESPONSE_KINDS ck \<and> rp_run_id r = dv_run_id (view w') \<and>
        (if view_refuses ck s (view w) then \<not> response_ok r \<and> view w' = view w
         else response_ok r \<and> view w' = view_step ck s (view w) \<and> (\<exists>x. rp_value r = Some x \<and> view_reports ck (view w') x))"
    and paused: "good w \<Longrightarrow> good (pause w)"
    and waited: "good w \<Longrightarrow> 0 < waits w \<Longrightarrow> view (pause w) = view w \<and> waits (pause w) = waits w - 1"
    and delivered: "good w \<Longrightarrow> waits w = 0 \<Longrightarrow> view (pause w) = view_delivered (view w) \<and> waits (pause w) = 0"
begin

lemma accepted:
  assumes "good w" "0 < ses_timeout ses" "command_payload ck s p" "\<not> view_refuses ck s (view w)" "t = None \<or> (\<exists>x > 0. t = Some x)"
    and "\<And>w' r x. good w' \<Longrightarrow> waits w' = waits w \<Longrightarrow> view w' = view_step ck s (view w) \<Longrightarrow> rp_run_id r = dv_run_id (view w') \<Longrightarrow> rp_value r = Some x \<Longrightarrow>
      view_reports ck (view w') x \<Longrightarrow> Q ses w' (Inr r)"
  shows "ends (session_command request ck p t (ses, w)) Q"
proof -
  let ?t = "case t of None \<Rightarrow> ses_timeout ses | Some x \<Rightarrow> x"
  have "0 < ?t" using assms(2,5) by auto
  from exchange [OF assms(1) this assms(3)] assms(4) obtain w' r x where "request w ck p ?t = (w', Inr r)" "good w'" "waits w' = waits w" "rp_kind r = COMMAND_RESPONSE_KINDS ck"
    "rp_run_id r = dv_run_id (view w')" "response_ok r" "view w' = view_step ck s (view w)" "rp_value r = Some x" "view_reports ck (view w') x" by auto
  then show ?thesis using assms(6) [of w' r x] by (cases t) (simp_all add: session_command_def)
qed

lemma refused:
  assumes "good w" "0 < ses_timeout ses" "command_payload ck s p" "view_refuses ck s (view w)"
    and "\<And>w' code q. good w' \<Longrightarrow> waits w' = waits w \<Longrightarrow> view w' = view w \<Longrightarrow> Q ses w' (Inl (DeviceCommandError ck code q))"
  shows "ends (session_command request ck p None (ses, w)) Q"
proof -
  from exchange [OF assms(1-3)] assms(4) obtain w' r where "request w ck p (ses_timeout ses) = (w', Inr r)" "good w'" "waits w' = waits w" "\<not> response_ok r" "view w' = view w" by auto
  then show ?thesis using assms(5) by (simp add: session_command_def)
qed

lemma command_simps [simp]:
  "command_payload ck s [] = (ck \<noteq> CK_CONFIGURE \<or> settings_to_bytes s = Inr [])" "command_payload CK_CONFIGURE s p = (settings_to_bytes s = Inr p)"
  "view_refuses CK_INFO s v = False" "view_refuses CK_GET_CAPABILITIES s v = False" "view_refuses CK_GET_SETTINGS s v = False"
  "view_refuses CK_GET_STATUS s v = False" "view_refuses CK_STOP s v = False"
  by (simp_all add: command_payload_def view_refuses_def)

lemma query:
  assumes "good w" "0 < ses_timeout ses" "ck \<in> {CK_INFO, CK_GET_CAPABILITIES, CK_GET_SETTINGS, CK_GET_STATUS}" "t = None \<or> (\<exists>x > 0. t = Some x)"
    and "\<And>w' r x. good w' \<Longrightarrow> waits w' = waits w \<Longrightarrow> view w' = view w \<Longrightarrow> rp_value r = Some x \<Longrightarrow> view_reports ck (view w) x \<Longrightarrow> Q ses w' (Inr r)"
  shows "ends (session_command request ck [] t (ses, w)) Q"
proof (rule accepted [OF assms(1,2) _ _ assms(4), where s = undefined])
  show "command_payload ck undefined []" "\<not> view_refuses ck undefined (view w)" using assms(3) by auto
  fix w' x and r :: V3Response
  assume "good w'" "waits w' = waits w" "view w' = view_step ck undefined (view w)" "rp_run_id r = dv_run_id (view w')" "rp_value r = Some x" "view_reports ck (view w') x"
  moreover have "view_step ck undefined (view w) = view w" using assms(3) by (auto simp: view_step_def)
  ultimately show "Q ses w' (Inr r)" using assms(5) by metis
qed

lemma info_ok:
  assumes "good w" "0 < ses_timeout ses" "ses_identity ses = None \<or> (\<exists>i. ses_identity ses = Some i \<and> identity_key i = dv_identity (view w))"
    and "\<And>w' i. good w' \<Longrightarrow> waits w' = waits w \<Longrightarrow> view w' = view w \<Longrightarrow> identity_key i = dv_identity (view w) \<Longrightarrow>
      clocks_for_profile (st_cpu_profile (dv_settings (view w))) = Inr (in_clocks i) \<Longrightarrow> Q (ses\<lparr>ses_identity := Some i\<rparr>) w' (Inr i)"
  shows "ends (session_info request (ses, w)) Q"
  unfolding session_info_def ends_then
  using assms(3) by (intro query [OF assms(1,2)]) (auto simp: view_reports_def assms(4))

lemma validate_ok:
  assumes "good w" "introduced ses (view w)" "applied_as (view w) a"
    and "\<And>w' i. good w' \<Longrightarrow> waits w' = waits w \<Longrightarrow> view w' = view w \<Longrightarrow> identity_key i = dv_identity (view w) \<Longrightarrow> Q (ses\<lparr>ses_identity := Some i\<rparr>) w' (Inr ())"
    and "\<not> refresh \<Longrightarrow> \<exists>i. ses_identity ses = Some i \<and> clocks_for_profile (st_cpu_profile (dv_settings (view w))) = Inr (in_clocks i)"
  shows "ends (validate_applied request a refresh (ses, w)) Q"
proof -
  let ?caps = "dv_capabilities (view w)" and ?s = "dv_settings (view w)"
  obtain p where caps: "capabilities_to_payload ?caps = Inr p" using capabilities [OF assms(1)] by blast
  note adv = settings [OF assms(1)]
  obtain b where "settings_to_bytes ?s = Inr b" using configurations_encode [OF caps adv] by blast
  then have sup: "require_supported ?caps ?s = Inr ()" using caps adv by (simp add: require_supported_def require_def)
  obtain i where i: "0 < ses_timeout ses" "ses_capabilities ses = Some ?caps" "ses_identity ses = Some i" "identity_key i = dv_identity (view w)"
    using assms(2) by (auto simp: introduced_def)
  have "List.find (\<lambda>k. cl_cpu_profile k = st_cpu_profile ?s) (cap_cpu_profiles ?caps) = Some (ap_clocks a)"
    using advertised_clocks [OF caps adv] assms(3) by (auto simp: applied_as_def)
  then have eq: "validate_applied request a refresh (ses, w) = then_do (if refresh then
      (case session_info request (ses, w) of (s1, Inl e) \<Rightarrow> (s1, Inl e) | (s1, Inr i) \<Rightarrow> (s1, Inr (Some i))) else ((ses, w), Inr (Some i)))
      (\<lambda>info s1. case info of Some i \<Rightarrow> if in_clocks i = ap_clocks a then (s1, Inr ()) else (s1, Inl UnexpectedMessageError)
         | None \<Rightarrow> (s1, Inl UnexpectedMessageError))"
    using assms(3) i sup by (simp add: validate_applied_def applied_as_def)
  show ?thesis
  proof (cases refresh)
    case False
    have "ses\<lparr>ses_identity := Some i\<rparr> = ses" using i(3) by (cases ses) simp
    then have "Q ses w (Inr ())" using assms(4) [of w i] assms(1) i(4) by metis
    then show ?thesis using False assms(3,5) i(3) unfolding eq by (auto simp: then_do_def applied_as_def)
  next
    case True
    have "ends (session_info request (ses, w)) (\<lambda>ses' w' r. \<exists>i. r = Inr i \<and> in_clocks i = ap_clocks a \<and> Q ses' w' (Inr ()))"
      using i assms(3,4) by (intro info_ok [OF assms(1)]) (auto simp: applied_as_def)
    then show ?thesis unfolding eq using True by (auto simp: ends_def then_do_def split: prod.splits sum.splits)
  qed
qed

text \<open>Each operation of the session on a device it knows.\<close>

lemma applied_unique: "applied_as v a \<Longrightarrow> applied_as v b \<Longrightarrow> a = b"
  by (cases a; cases b) (simp add: applied_as_def)

lemma get_settings_ok:
  assumes "good w" "introduced ses (view w)" "ses_applied ses \<noteq> None \<Longrightarrow> knows ses (view w)"
    and "ses_applied ses = None \<Longrightarrow> ses_state ses = DS_STOPPED \<and>
      (\<exists>i. ses_identity ses = Some i \<and> clocks_for_profile (st_cpu_profile (dv_settings (view w))) = Inr (in_clocks i))"
    and "\<And>w' i a. good w' \<Longrightarrow> waits w' = waits w \<Longrightarrow> view w' = view w \<Longrightarrow> identity_key i = dv_identity (view w) \<Longrightarrow> applied_as (view w) a \<Longrightarrow>
      Q (ses\<lparr>ses_identity := Some i, ses_applied := Some a\<rparr>) w' (Inr a)"
  shows "ends (session_get_settings request (ses, w)) Q"
  unfolding session_get_settings_def ends_then
proof (rule query [OF assms(1)], goal_cases)
  case (4 w' r x)
  note w' = 4(1-3) and r = 4(4,5)
  then obtain a where x: "x = AppliedValue a" "applied_as (view w) a" by (auto simp: view_reports_def applied_as_def)
  have "knows ses (view w) \<Longrightarrow> ses_applied ses = Some a" using applied_unique [OF x(2)] by (auto simp: knows_def)
  then show ?case using assms(2-5) x w' r(1) by (simp add: ends_then cong: sum.case_cong) (intro validate_ok; auto)
qed (use assms(2) in \<open>simp_all add: introduced_def\<close>)

lemma status_ok:
  assumes "good w" "0 < ses_timeout ses" "t = None \<or> (\<exists>x > 0. t = Some x)"
    and "\<And>w' s. good w' \<Longrightarrow> waits w' = waits w \<Longrightarrow> view w' = view w \<Longrightarrow> sp_state (ss_stop s) = dv_state (view w) \<Longrightarrow> sp_run_id (ss_stop s) = dv_run_id (view w) \<Longrightarrow>
      Q (ses\<lparr>ses_state := dv_state (view w), ses_run_id := dv_run_id (view w), ses_last_status := Some s\<rparr>) w' (Inr s)"
  shows "ends (session_status request t (ses, w)) Q"
  unfolding session_status_def ends_then
  by (intro query [OF assms(1,2) _ assms(3)]) (auto simp: view_reports_def intro: assms(4))

lemma view_accepts:
  "view_refuses CK_CONFIGURE s v = (dv_state v \<noteq> DS_STOPPED \<or> s \<notin> set (cap_configurations (dv_capabilities v)))"
  "view_refuses CK_START s v = (dv_state v \<noteq> DS_STOPPED)"
  by (simp_all add: view_refuses_def)

lemma configure_unadvertised:
  assumes "good w" "introduced ses (view w)" "s \<notin> set (cap_configurations (dv_capabilities (view w)))"
  shows "session_configure request s (ses, w) = ((ses, w), Inl SessionValueError)"
proof -
  have "\<exists>e. bind_res (require_supported (dv_capabilities (view w)) s) (\<lambda>_. settings_to_bytes s) = Inl e"
    using assms(3) by (cases "bind_res (require_supported (dv_capabilities (view w)) s) (\<lambda>_. settings_to_bytes s)")
      (auto simp: require_supported_def bind_res_eq_Inr require_eq_Inr)
  then show ?thesis using assms(2) by (auto simp: session_configure_def introduced_def)
qed

lemma configure_payload:
  assumes "good w" "introduced ses (view w)" "s \<in> set (cap_configurations (dv_capabilities (view w)))"
  obtains p where "settings_to_bytes s = Inr p" "ses_capabilities ses = Some (dv_capabilities (view w))"
    "bind_res (require_supported (dv_capabilities (view w)) s) (\<lambda>_. settings_to_bytes s) = Inr p"
proof -
  obtain c where c: "capabilities_to_payload (dv_capabilities (view w)) = Inr c" using capabilities [OF assms(1)] by blast
  obtain p where "settings_to_bytes s = Inr p" using configurations_encode [OF c assms(3)] by blast
  then show thesis using that assms(2,3) c by (auto simp: introduced_def require_supported_def require_def)
qed

lemma configure_refused:
  assumes "good w" "introduced ses (view w)" "s \<in> set (cap_configurations (dv_capabilities (view w)))" "dv_state (view w) \<noteq> DS_STOPPED"
    and "\<And>w' code q. good w' \<Longrightarrow> waits w' = waits w \<Longrightarrow> view w' = view w \<Longrightarrow> Q ses w' (Inl (DeviceCommandError CK_CONFIGURE code q))"
  shows "ends (session_configure request s (ses, w)) Q"
proof -
  obtain p where p: "settings_to_bytes s = Inr p" "ses_capabilities ses = Some (dv_capabilities (view w))"
    "bind_res (require_supported (dv_capabilities (view w)) s) (\<lambda>_. settings_to_bytes s) = Inr p" by (rule configure_payload [OF assms(1-3)])
  show ?thesis unfolding session_configure_def fst_conv p(2,3) option.case sum.case ends_then
    using assms(2,4,5) p(1) by (intro refused [OF assms(1), where s = s]) (auto simp: introduced_def view_accepts)
qed

lemma configure_ok:
  assumes "good w" "introduced ses (view w)" "s \<in> set (cap_configurations (dv_capabilities (view w)))" "dv_state (view w) = DS_STOPPED"
    and "\<And>w' i a. good w' \<Longrightarrow> waits w' = waits w \<Longrightarrow> view w' = (view w)\<lparr>dv_settings := s\<rparr> \<Longrightarrow> identity_key i = dv_identity (view w) \<Longrightarrow> applied_as (view w') a \<Longrightarrow>
      Q (ses\<lparr>ses_identity := Some i, ses_applied := Some a, ses_run_id := dv_run_id (view w)\<rparr>) w' (Inr a)"
  shows "ends (session_configure request s (ses, w)) Q"
proof -
  obtain p where p: "settings_to_bytes s = Inr p" "ses_capabilities ses = Some (dv_capabilities (view w))"
    "bind_res (require_supported (dv_capabilities (view w)) s) (\<lambda>_. settings_to_bytes s) = Inr p" by (rule configure_payload [OF assms(1-3)])
  have t: "0 < ses_timeout ses" using assms(2) by (simp add: introduced_def)
  show ?thesis unfolding session_configure_def fst_conv p(2,3) option.case sum.case ends_then
  proof (rule accepted [OF assms(1) t, where s = s], goal_cases)
    case (4 w' r x)
    let ?v = "(view w)\<lparr>dv_settings := s\<rparr>"
    have v: "view w' = ?v" using 4(3) by (simp add: view_step_def)
    then obtain a where x: "x = AppliedValue a" "applied_as ?v a" using 4(6) by (auto simp: view_reports_def applied_as_def)
    have a: "ap_settings a = s" using x(2) by (simp add: applied_as_def)
    have "ends (session_command request CK_GET_SETTINGS [] None (ses, w')) (\<lambda>ses2 w2 r2. ses2 = ses \<and> good w2 \<and> waits w2 = waits w \<and> view w2 = ?v \<and>
        (\<exists>rb. r2 = Inr rb \<and> rp_value rb = Some (AppliedValue a)))"
      using v 4(2) applied_unique [OF x(2)] by (intro query [OF 4(1) t]) (auto simp: view_reports_def applied_as_def)
    then obtain w2 rb where rb: "session_command request CK_GET_SETTINGS [] None (ses, w') = ((ses, w2), Inr rb)" "good w2" "view w2 = ?v"
      "rp_value rb = Some (AppliedValue a)" "waits w2 = waits w" by (auto simp: ends_def split: prod.splits)
    have "introduced ses (view w2)" using assms(2) rb(3) by (simp add: introduced_def)
    then have "ends (validate_applied request a True (ses, w2)) (\<lambda>ses' w3 r. \<exists>i. r = Inr () \<and> good w3 \<and> waits w3 = waits w \<and> view w3 = ?v \<and>
        identity_key i = dv_identity (view w) \<and> ses' = ses\<lparr>ses_identity := Some i\<rparr>)"
      using rb x(2) by (intro validate_ok) auto
    then obtain w3 i where va: "validate_applied request a True (ses, w2) = ((ses\<lparr>ses_identity := Some i\<rparr>, w3), Inr ())" "good w3" "view w3 = ?v"
      "identity_key i = dv_identity (view w)" "waits w3 = waits w" by (auto simp: ends_def split: prod.splits)
    have "rp_run_id r = dv_run_id (view w)" using 4(4) v by simp
    with 4(5) x a rb va assms(5) [of w3 i a] show ?case by (simp add: then_do_def)
  qed (use p(1) assms(3,4) in \<open>simp_all add: view_accepts\<close>)
qed

lemma next_run_id_pos: "good w \<Longrightarrow> next_run_id (dv_run_id (view w)) \<noteq> 0"
  using next_run_id_range [OF run] by force

lemma start_reads_settings:
  assumes "good w" "knows ses (view w)"
  obtains a w' i where "ses_applied ses = Some a" "applied_as (view w) a" "0 < ses_timeout ses" "good w'" "waits w' = waits w" "view w' = view w" "identity_key i = dv_identity (view w)"
    "session_start request (ses, w) = then_do (session_command request CK_START [] None (ses\<lparr>ses_identity := Some i\<rparr>, w'))
      (\<lambda>response (ses, w). let s2 = (ses\<lparr>ses_state := DS_RUNNING, ses_run_id := rp_run_id response, ses_last_status := None\<rparr>, w) in
          if rp_run_id response = 0 \<or> rp_value response \<noteq> map_option AppliedValue (Some a) then (s2, Inl UnexpectedMessageError)
          else (s2, Inr (rp_run_id response)))"
proof -
  obtain a where a: "ses_applied ses = Some a" "applied_as (view w) a" and t: "0 < ses_timeout ses" using assms(2) by (auto simp: knows_def introduced_def)
  have same: "ses\<lparr>ses_identity := i, ses_applied := Some a\<rparr> = ses\<lparr>ses_identity := i\<rparr>" for i using a(1) by (cases ses) simp
  have "ends (session_get_settings request (ses, w)) (\<lambda>ses' w1 r. \<exists>i. r = Inr a \<and> good w1 \<and> waits w1 = waits w \<and> view w1 = view w \<and>
      identity_key i = dv_identity (view w) \<and> ses' = ses\<lparr>ses_identity := Some i\<rparr>)"
  proof (rule get_settings_ok [OF assms(1)])
    fix w' i b
    assume "good w'" "waits w' = waits w" "view w' = view w" "identity_key i = dv_identity (view w)" "applied_as (view w) b"
    moreover from this(5) have "b = a" using applied_unique [OF a(2)] by simp
    ultimately show "\<exists>j. Inr b = (Inr a :: session_error + V3AppliedSettings) \<and> good w' \<and> waits w' = waits w \<and> view w' = view w \<and> identity_key j = dv_identity (view w) \<and>
      ses\<lparr>ses_identity := Some i, ses_applied := Some b\<rparr> = ses\<lparr>ses_identity := Some j\<rparr>" using same by blast
  qed (use assms(2) a in \<open>auto simp: knows_def\<close>)
  then obtain w1 i where g: "session_get_settings request (ses, w) = ((ses\<lparr>ses_identity := Some i\<rparr>, w1), Inr a)" "good w1" "waits w1 = waits w" "view w1 = view w"
    "identity_key i = dv_identity (view w)" by (auto simp: ends_def split: prod.splits)
  show thesis by (rule that [OF a t g(2-5)]) (simp add: session_start_def g(1) a(1))
qed

lemma start_ok:
  assumes "good w" "knows ses (view w)" "dv_state (view w) = DS_STOPPED"
    and "\<And>w' i. good w' \<Longrightarrow> waits w' = waits w \<Longrightarrow> view w' = (view w)\<lparr>dv_run_id := next_run_id (dv_run_id (view w)), dv_state := DS_RUNNING\<rparr> \<Longrightarrow>
      identity_key i = dv_identity (view w) \<Longrightarrow>
      Q (ses\<lparr>ses_identity := Some i, ses_state := DS_RUNNING, ses_run_id := next_run_id (dv_run_id (view w)), ses_last_status := None\<rparr>) w'
        (Inr (next_run_id (dv_run_id (view w))))"
  shows "ends (session_start request (ses, w)) Q"
proof (rule start_reads_settings [OF assms(1,2)])
  fix a w1 i
  assume a: "ses_applied ses = Some a" "applied_as (view w) a" and t: "0 < ses_timeout ses"
    and g: "good w1" "waits w1 = waits w" "view w1 = view w" "identity_key i = dv_identity (view w)"
    and eq: "session_start request (ses, w) = then_do (session_command request CK_START [] None (ses\<lparr>ses_identity := Some i\<rparr>, w1))
      (\<lambda>response (ses, w). let s2 = (ses\<lparr>ses_state := DS_RUNNING, ses_run_id := rp_run_id response, ses_last_status := None\<rparr>, w) in
          if rp_run_id response = 0 \<or> rp_value response \<noteq> map_option AppliedValue (Some a) then (s2, Inl UnexpectedMessageError)
          else (s2, Inr (rp_run_id response)))"
  show ?thesis unfolding eq ends_then
  proof (rule accepted [OF g(1), where s = undefined], goal_cases)
    case (5 w' r x)
    have v: "view w' = (view w)\<lparr>dv_run_id := next_run_id (dv_run_id (view w)), dv_state := DS_RUNNING\<rparr>" using 5(3) g(3) by (simp add: view_step_def)
    have "x = AppliedValue a" using 5(6) v a(2) applied_unique [of "view w'" _ a] by (auto simp: view_reports_def applied_as_def)
    moreover have "rp_run_id r = next_run_id (dv_run_id (view w))" using 5(4) v by simp
    ultimately show ?case using 5(1,2,5) v g assms(4) [of w' i] next_run_id_pos [OF assms(1)] by (simp add: Let_def)
  qed (use t assms(3) g in \<open>auto simp: view_accepts\<close>)
qed

lemma start_refused:
  assumes "good w" "knows ses (view w)" "dv_state (view w) \<noteq> DS_STOPPED"
    and "\<And>w' i code q. good w' \<Longrightarrow> waits w' = waits w \<Longrightarrow> view w' = view w \<Longrightarrow> identity_key i = dv_identity (view w) \<Longrightarrow>
      Q (ses\<lparr>ses_identity := Some i\<rparr>) w' (Inl (DeviceCommandError CK_START code q))"
  shows "ends (session_start request (ses, w)) Q"
proof (rule start_reads_settings [OF assms(1,2)])
  fix a w1 i
  assume t: "0 < ses_timeout ses" and g: "good w1" "waits w1 = waits w" "view w1 = view w" "identity_key i = dv_identity (view w)"
    and eq: "session_start request (ses, w) = then_do (session_command request CK_START [] None (ses\<lparr>ses_identity := Some i\<rparr>, w1))
      (\<lambda>response (ses, w). let s2 = (ses\<lparr>ses_state := DS_RUNNING, ses_run_id := rp_run_id response, ses_last_status := None\<rparr>, w) in
          if rp_run_id response = 0 \<or> rp_value response \<noteq> map_option AppliedValue (Some a) then (s2, Inl UnexpectedMessageError)
          else (s2, Inr (rp_run_id response)))"
  show ?thesis unfolding eq ends_then
    using t g assms(3,4) by (intro refused [OF g(1), where s = undefined]) (auto simp: view_accepts)
qed

text \<open>The drain of STOP ends once the transport has delivered what is pending.\<close>

lemma pause_state:
  assumes "good w" "dv_state (view w) = DS_DRAINING"
  shows "view (pause w) = (if waits w = 0 then view_delivered (view w) else view w)" "waits w \<noteq> 0 \<Longrightarrow> waits (pause w) = waits w - 1"
  using waited [OF assms(1)] delivered [OF assms(1)] by auto

lemma pause_waits: "good w \<Longrightarrow> waits (pause w) \<le> waits w"
  using waited [of w] delivered [of w] by (cases "waits w = 0") auto

lemma await_ok:
  assumes "good w" "in_step ses (view w)" "dv_state (view w) \<in> {DS_DRAINING, DS_STOPPED}"
    and "dv_state (view w) = DS_DRAINING \<Longrightarrow> waits w < length remaining" "\<forall>(first, second) \<in> set remaining. 0 < first"
    and "\<And>ses' w'. good w' \<Longrightarrow> waits w' \<le> waits w \<Longrightarrow> view w' = (if dv_state (view w) = DS_DRAINING then view_delivered (view w) else view w) \<Longrightarrow>
      in_step ses' (view w') \<Longrightarrow> Q ses' w' (Inr DS_STOPPED)"
  shows "ends (await_stopped request pause remaining (ses, w)) Q"
  using assms
proof (induction remaining arbitrary: ses w)
  case Nil
  then show ?case by (auto simp: in_step_def)
next
  case (Cons t remaining)
  obtain first second where t: "t = (first, second)" by (cases t)
  show ?case
  proof (cases "dv_state (view w) = DS_DRAINING")
    case False
    then show ?thesis using Cons.prems by (auto simp: in_step_def)
  next
    case True
    have s: "ses_state ses = DS_DRAINING" using Cons.prems(2) True by (simp add: in_step_def)
    have first: "0 < first" using Cons.prems(5) t by simp
    have k: "knows ses (view w)" "0 < ses_timeout ses" using Cons.prems(2) by (simp_all add: in_step_def knows_def introduced_def)
    note p = pause_state [OF Cons.prems(1) True]
    have "ends (session_status request (Some (max 1 second)) (ses, pause w)) (\<lambda>ses' w' r. case r of Inl e \<Rightarrow> Q ses' w' (Inl e)
      | Inr x \<Rightarrow> ends (await_stopped request pause remaining (ses', w')) Q)"
    proof (rule status_ok [OF paused [OF Cons.prems(1)] k(2)], goal_cases)
      case (2 w' st)
      let ?ses = "ses\<lparr>ses_state := dv_state (view (pause w)), ses_run_id := dv_run_id (view (pause w)), ses_last_status := Some st\<rparr>"
      have "knows ?ses (view w')" using k(1) 2(3) p(1) by (simp add: knows_def introduced_def applied_as_def view_delivered_def)
      then have "in_step ?ses (view w')" using 2(3) by (simp add: in_step_def)
      then have "ends (await_stopped request pause remaining (?ses, w')) Q"
      proof (intro Cons.IH)
        show "dv_state (view w') \<in> {DS_DRAINING, DS_STOPPED}" using 2(3) p(1) True by (simp add: view_delivered_def)
        show "waits w' < length remaining" if "dv_state (view w') = DS_DRAINING"
          using that 2(2,3) p True Cons.prems(4) by (cases "waits w = 0") (auto simp: view_delivered_def)
        show "Q ses' w'' (Inr DS_STOPPED)" if "good w''" "waits w'' \<le> waits w'" "in_step ses' (view w'')"
          "view w'' = (if dv_state (view w') = DS_DRAINING then view_delivered (view w') else view w')" for ses' w''
          using that 2(2,3) p True Cons.prems(6) [of w'' ses'] pause_waits [OF Cons.prems(1)] by (cases "waits w = 0") (simp_all add: view_delivered_def)
      qed (use 2(1) Cons.prems(5) in simp_all)
      then show ?case by simp
    qed simp
    then show ?thesis using s first t by (simp add: ends_then)
  qed
qed

lemma stop_ok:
  assumes "good w" "knows ses (view w)" "dv_pending (view w) \<Longrightarrow> waits w < length remaining" "\<forall>(first, second) \<in> set remaining. 0 < first"
    and "\<And>ses' w'. good w' \<Longrightarrow> waits w' \<le> waits w \<Longrightarrow> view w' = (view w)\<lparr>dv_state := DS_STOPPED, dv_pending := False\<rparr> \<Longrightarrow> in_step ses' (view w') \<Longrightarrow> Q ses' w' (Inr DS_STOPPED)"
  shows "ends (session_stop request pause remaining (ses, w)) Q"
  unfolding session_stop_def ends_then
proof (rule accepted [OF assms(1), where s = undefined], goal_cases)
  case (5 w' r x)
  let ?v = "(view w)\<lparr>dv_state := (if dv_pending (view w) then DS_DRAINING else DS_STOPPED)\<rparr>"
  have v: "view w' = ?v" using 5(3) by (simp add: view_step_def)
  obtain st where x: "x = StopValue st" "sp_state st = dv_state ?v" "sp_run_id st = dv_run_id ?v" using 5(6) v by (auto simp: view_reports_def)
  have "in_step (ses\<lparr>ses_state := sp_state st, ses_run_id := sp_run_id st\<rparr>) (view w')"
    using assms(2) x v by (simp add: in_step_def knows_def introduced_def applied_as_def)
  then have "ends (await_stopped request pause remaining (ses\<lparr>ses_state := sp_state st, ses_run_id := sp_run_id st\<rparr>, w')) Q"
  proof (rule await_ok [OF 5(1)])
    show "dv_state (view w') \<in> {DS_DRAINING, DS_STOPPED}" using v by simp
    show "waits w' < length remaining" if "dv_state (view w') = DS_DRAINING" using that v 5(2) assms(3) by (simp split: if_splits)
    show "Q ses' w'' (Inr DS_STOPPED)" if "good w''" "waits w'' \<le> waits w'" "view w'' = (if dv_state (view w') = DS_DRAINING then view_delivered (view w') else view w')"
      "in_step ses' (view w'')" for ses' w''
      using that v 5(2) assms(5) [of w'' ses'] by (cases "dv_pending (view w)"; cases "view w") (simp_all add: view_delivered_def)
  qed (use assms(4) in simp)
  then show ?case using 5(5) x(1) by simp
qed (use assms(2) in \<open>simp_all add: knows_def introduced_def\<close>)

text \<open>The session refines the abstract device.\<close>

lemma in_stepD: "in_step ses v \<Longrightarrow> knows ses v \<and> introduced ses v \<and> 0 < ses_timeout ses \<and> ses_applied ses \<noteq> None \<and> ses_state ses = dv_state v \<and>
    ses_run_id ses = dv_run_id v \<and> (\<exists>i. ses_identity ses = Some i \<and> identity_key i = dv_identity v)"
  by (auto simp: in_step_def knows_def introduced_def)

lemmas step_defs = in_step_def knows_def introduced_def applied_as_def

definition refines :: "session_op \<Rightarrow> 'w \<Rightarrow> session \<times> 'w \<Rightarrow> session_outcome \<Rightarrow> bool" where
  "refines operation w s out \<longleftrightarrow> good (snd s) \<and> waits (snd s) \<le> waits w \<and> in_step (fst s) (view (snd s)) \<and>
     (view (snd s), out) = view_op operation (view w)"

lemma outcome_ends: "ends m (\<lambda>ses w r. Q (ses, w) (case r of Inl e \<Rightarrow> failure e | Inr x \<Rightarrow> f x)) \<Longrightarrow> outcome f m = (s, out) \<Longrightarrow> Q s out"
  by (cases m) (auto simp: ends_def outcome_def split: prod.splits)

lemma op_refines:
  assumes "good w" "in_step ses (view w)" "patient (waits w) operation" "run_op request pause operation (ses, w) = (s, out)"
  shows "refines operation w s out"
proof (cases operation)
  case OpInfo
  then have "outcome (\<lambda>i. OutIdentity (identity_key i)) (session_info request (ses, w)) = (s, out)" using assms(4) by (simp add: run_op_def)
  then show ?thesis
    using in_stepD [OF assms(2)] assms(2) OpInfo
    by (elim outcome_ends [rotated]) (intro info_ok [OF assms(1)]; auto simp: refines_def view_op_def step_defs)
next
  case OpSettings
  then have "outcome (\<lambda>a. OutSettings (ap_settings a)) (session_get_settings request (ses, w)) = (s, out)" using assms(4) by (simp add: run_op_def)
  then show ?thesis
    using in_stepD [OF assms(2)] assms(2) OpSettings
    by (elim outcome_ends [rotated]) (intro get_settings_ok [OF assms(1)]; auto simp: refines_def view_op_def step_defs)
next
  case OpStatus
  then have "outcome (\<lambda>x. OutStatus (sp_state (ss_stop x)) (sp_run_id (ss_stop x))) (session_status request None (ses, w)) = (s, out)"
    using assms(4) by (simp add: run_op_def)
  then show ?thesis
    using in_stepD [OF assms(2)] assms(2) OpStatus
    by (elim outcome_ends [rotated]) (intro status_ok [OF assms(1)]; auto simp: refines_def view_op_def step_defs)
next
  case (OpConfigure x)
  then have o: "outcome (\<lambda>a. OutSettings (ap_settings a)) (session_configure request x (ses, w)) = (s, out)" using assms(4) by (simp add: run_op_def)
  note k = in_stepD [OF assms(2)]
  show ?thesis
  proof (cases "x \<in> set (cap_configurations (dv_capabilities (view w)))")
    case False
    then have "s = (ses, w)" "out = OutUnsupported" using configure_unadvertised [OF assms(1), of ses x] k o by (auto simp: outcome_def)
    then show ?thesis using False assms(1,2) OpConfigure by (simp add: refines_def view_op_def)
  next
    case adv: True
    show ?thesis
    proof (cases "dv_state (view w) = DS_STOPPED")
      case True
      show ?thesis using o
        by (rule outcome_ends [rotated]) (use k assms(2) OpConfigure adv True in
          \<open>intro configure_ok [OF assms(1)]; auto simp: refines_def view_op_def step_defs\<close>)
    next
      case False
      show ?thesis using o
        by (rule outcome_ends [rotated]) (use k assms(2) OpConfigure adv False in
          \<open>intro configure_refused [OF assms(1)]; auto simp: refines_def view_op_def\<close>)
    qed
  qed
next
  case OpStart
  then have o: "outcome OutRun (session_start request (ses, w)) = (s, out)" using assms(4) by (simp add: run_op_def)
  note k = in_stepD [OF assms(2)]
  show ?thesis
  proof (cases "dv_state (view w) = DS_STOPPED")
    case True
    show ?thesis using o
      by (rule outcome_ends [rotated]) (use k assms(2) OpStart True in
        \<open>intro start_ok [OF assms(1)]; auto simp: refines_def view_op_def step_defs\<close>)
  next
    case False
    show ?thesis using o
      by (rule outcome_ends [rotated]) (use k assms(2) OpStart False in
        \<open>intro start_refused [OF assms(1)]; auto simp: refines_def view_op_def step_defs\<close>)
  qed
next
  case (OpStop remaining)
  then have o: "outcome (\<lambda>_. OutStopped) (session_stop request pause remaining (ses, w)) = (s, out)" using assms(4) by (simp add: run_op_def)
  show ?thesis using o
    by (rule outcome_ends [rotated]) (use in_stepD [OF assms(2)] assms(3) OpStop in
      \<open>intro stop_ok [OF assms(1)]; auto simp: refines_def view_op_def patient_def list_all_iff\<close>)
qed

lemma ops_refine:
  assumes "good w" "in_step ses (view w)" "list_all (patient (waits w)) operations"
  shows "\<exists>ses' w' outs. run_ops request pause operations (ses, w) = ((ses', w'), outs) \<and> good w' \<and> in_step ses' (view w') \<and>
    (view w', outs) = view_ops operations (view w)"
  using assms
proof (induction operations arbitrary: ses w)
  case (Cons operation operations)
  obtain ses1 w1 out where o: "run_op request pause operation (ses, w) = ((ses1, w1), out)" by (metis surj_pair)
  have r: "good w1" "waits w1 \<le> waits w" "in_step ses1 (view w1)" "view_op operation (view w) = (view w1, out)"
    using op_refines [OF Cons.prems(1,2) _ o] Cons.prems(3) by (simp_all add: refines_def)
  have "patient m y" if "patient n y" "m \<le> n" for m n y using that by (cases y) (auto simp: patient_def)
  then have "list_all (patient (waits w1)) operations" using Cons.prems(3) r(2) by (auto simp: list_all_iff)
  from Cons.IH [OF r(1,3) this] obtain ses' w' outs where "run_ops request pause operations (ses1, w1) = ((ses', w'), outs)" "good w'"
    "in_step ses' (view w')" "(view w', outs) = view_ops operations (view w1)" by auto
  then show ?case using o r(4) by (auto split: prod.splits)
qed simp

lemma open_ok:
  assumes "good w" "0 < timeout" "identity_key i = dv_identity (view w)" "clocks_for_profile (st_cpu_profile (dv_settings (view w))) = Inr (in_clocks i)"
  shows "ends (session_open request ((V3Session timeout)\<lparr>ses_identity := Some i\<rparr>, w)) (\<lambda>ses' w' r. good w' \<and> waits w' = waits w \<and> view w' = view w \<and>
    in_step ses' (view w) \<and> (\<exists>s. r = Inr s \<and> sp_state (ss_stop s) = dv_state (view w)))"
proof -
  let ?ses = "(V3Session timeout)\<lparr>ses_identity := Some i, ses_capabilities := Some (dv_capabilities (view w))\<rparr>"
  have intro: "introduced ?ses (view w)" using assms(2,3) by (simp add: introduced_def V3Session_def)
  show ?thesis unfolding session_open_def session_get_capabilities_def ends_then
  proof (rule query [OF assms(1)], goal_cases)
    case (4 w' r x)
    have x: "x = CapabilitiesValue (dv_capabilities (view w))" using 4(5) by (simp add: view_reports_def)
    have "ends (session_get_settings request (?ses, w')) (\<lambda>ses2 w2 r2. \<exists>j a. r2 = Inr a \<and> good w2 \<and> waits w2 = waits w \<and> view w2 = view w \<and>
        identity_key j = dv_identity (view w) \<and> applied_as (view w) a \<and> ses2 = ?ses\<lparr>ses_identity := Some j, ses_applied := Some a\<rparr>)"
      using intro assms(4) 4(2,3) by (intro get_settings_ok [OF 4(1)]) (auto simp: V3Session_def)
    then obtain w2 j a where g: "session_get_settings request (?ses, w') = ((?ses\<lparr>ses_identity := Some j, ses_applied := Some a\<rparr>, w2), Inr a)"
      "good w2" "waits w2 = waits w" "view w2 = view w" "identity_key j = dv_identity (view w)" "applied_as (view w) a" by (auto simp: ends_def split: prod.splits)
    have "ends (session_status request None (?ses\<lparr>ses_identity := Some j, ses_applied := Some a\<rparr>, w2)) (\<lambda>ses' w' r. good w' \<and> waits w' = waits w \<and>
        view w' = view w \<and> in_step ses' (view w) \<and> (\<exists>s. r = Inr s \<and> sp_state (ss_stop s) = dv_state (view w)))"
      using g(3-6) assms(2) by (intro status_ok [OF g(2)]) (auto simp: V3Session_def step_defs)
    then show ?case using 4(4) x g(1) by simp
  qed (use assms(2) in \<open>simp_all add: V3Session_def\<close>)
qed

end

section \<open>Negotiation keeps its order\<close>

text \<open>A request that records what it was asked and how it ended: version, timeout, the time before it, the result.\<close>

definition logged :: "(int \<Rightarrow> int \<Rightarrow> 'w \<Rightarrow> 'w \<times> (reader_error + 'a)) \<Rightarrow> ('w \<Rightarrow> int) \<Rightarrow> int \<Rightarrow> int \<Rightarrow>
    'w \<times> (int \<times> int \<times> int \<times> (reader_error + 'a)) list \<Rightarrow> ('w \<times> (int \<times> int \<times> int \<times> (reader_error + 'a)) list) \<times> (reader_error + 'a)" where
  "logged request clock version timeout s = (case request version timeout (fst s) of
     (w, r) \<Rightarrow> ((w, snd s @ [(version, timeout, clock (fst s), r)]), r))"

definition rejections :: "(int \<times> int \<times> int \<times> (reader_error + 'a)) list \<Rightarrow> nat" where
  "rejections trace = length (filter (\<lambda>(_, _, _, r). r = Inl ProtocolVersionRejected) trace)"

text \<open>
  \<open>negotiated deadline n trace now n' res\<close>: the requests \<open>trace\<close> of a probe from \<open>n\<close>, the time at its end, the negotiation after it and its result.
\<close>

definition negotiated :: "int \<Rightarrow> negotiation \<Rightarrow> (int \<times> int \<times> int \<times> (reader_error + 'a)) list \<Rightarrow> int \<Rightarrow> negotiation \<Rightarrow> reader_error + 'a \<Rightarrow> bool" where
  "negotiated deadline n trace now n' res \<longleftrightarrow>
     (let versions = ng_version n # ng_versions n in
      prefix (map fst trace) versions \<and>
      ng_version n' # ng_versions n' = drop (min (rejections trace) (length (ng_versions n))) versions \<and>
      list_all (\<lambda>(_, timeout, time, _). 0 < timeout \<and> time + timeout = deadline) trace \<and>
      list_all (\<lambda>(_, _, _, r). r = Inl ProtocolVersionRejected) (butlast trace) \<and>
      (if trace \<noteq> [] \<and> (snd (snd (snd (last trace))) \<noteq> Inl ProtocolVersionRejected \<or> length trace = length versions)
       then res = snd (snd (snd (last trace)))
       else res = Inl RequestTimeoutError \<and> deadline \<le> now) \<and>
      (res = Inl ProtocolVersionRejected \<longleftrightarrow> map fst trace = versions \<and> rejections trace = length trace))"

lemma negotiated_timeout: "deadline \<le> now \<Longrightarrow> negotiated deadline n [] now n (Inl RequestTimeoutError)"
  by (simp add: negotiated_def rejections_def)

lemma negotiated_answer:
  assumes "r \<noteq> Inl ProtocolVersionRejected \<or> ng_versions n = []" "0 < deadline - c"
  shows "negotiated deadline n [(ng_version n, deadline - c, c, r)] now n r"
  using assms by (cases "r = Inl ProtocolVersionRejected") (auto simp: negotiated_def rejections_def)

lemma negotiated_rejection:
  assumes "negotiated deadline \<lparr>ng_version = v, ng_versions = vs\<rparr> trace now n' res" "0 < deadline - c"
  shows "negotiated deadline \<lparr>ng_version = version, ng_versions = v # vs\<rparr> ((version, deadline - c, c, Inl ProtocolVersionRejected) # trace) now n' res"
  using assms by (cases trace) (auto simp: negotiated_def rejections_def Let_def)

lemma probe_until_negotiated:
  "\<exists>trace n' w' res. probe_until (logged request clock) (\<lambda>s. clock (fst s)) deadline version versions (w, earlier) = ((n', w', earlier @ trace), res) \<and>
     negotiated deadline \<lparr>ng_version = version, ng_versions = versions\<rparr> trace (clock w') n' res"
proof (induction versions arbitrary: version w earlier)
  case Nil
  obtain w1 r where r: "request version (deadline - clock w) w = (w1, r)" by fastforce
  let ?n = "\<lparr>ng_version = version, ng_versions = []\<rparr>"
  show ?case
  proof (cases "0 < deadline - clock w")
    case True
    then have "probe_until (logged request clock) (\<lambda>s. clock (fst s)) deadline version [] (w, earlier) =
        ((?n, w1, earlier @ [(version, deadline - clock w, clock w, r)]), r)"
      using r by (cases r) (auto simp: logged_def Let_def)
    then show ?thesis using negotiated_answer [of r ?n deadline "clock w"] True by auto
  next
    case False
    then show ?thesis using negotiated_timeout [of deadline "clock w" ?n] by auto
  qed
next
  case (Cons v vs)
  obtain w1 r where r: "request version (deadline - clock w) w = (w1, r)" by fastforce
  let ?n = "\<lparr>ng_version = version, ng_versions = v # vs\<rparr>" and ?e = "(version, deadline - clock w, clock w, r)"
  show ?case
  proof (cases "0 < deadline - clock w")
    case t: True
    show ?thesis
    proof (cases "r = Inl ProtocolVersionRejected")
      case True
      then have "probe_until (logged request clock) (\<lambda>s. clock (fst s)) deadline version (v # vs) (w, earlier) =
          probe_until (logged request clock) (\<lambda>s. clock (fst s)) deadline v vs (w1, earlier @ [?e])"
        using r t by (simp add: logged_def Let_def)
      then show ?thesis using Cons.IH [of v w1 "earlier @ [?e]"] negotiated_rejection [OF _ t, of v vs _ _ _ _ version] True by fastforce
    next
      case False
      then have "probe_until (logged request clock) (\<lambda>s. clock (fst s)) deadline version (v # vs) (w, earlier) = ((?n, w1, earlier @ [?e]), r)"
        using r t by (cases r) (auto simp: logged_def Let_def)
      then show ?thesis using negotiated_answer [of r ?n deadline "clock w"] t False by auto
    qed
  next
    case False
    then show ?thesis using negotiated_timeout [of deadline "clock w" ?n] by auto
  qed
qed

text \<open>
  Property C36. Version negotiation. Starting from any state of the negotiation, the requests of one probe go through the remaining versions in
  order (3, 1, 2 for a new negotiation, so at most three requests); every request but the last one of the probe was answered by an explicit rejection
  of its version, and only such answers advance the negotiation, so a retry after any other error continues with the version
  that failed. Each request gets the positive time that is left of one overall deadline. The probe returns the answer of its last
  request, unless that is a rejection and a version remains (or no request was sent): then it raises a timeout, and the deadline has passed. It ends with a rejection exactly when every remaining version was rejected.
\<close>

theorem negotiation_ordered:
  "case probe (logged request clock) (\<lambda>s. clock (fst s)) timeout (n, w, []) of
     ((n', w', trace), res) \<Rightarrow> negotiated (clock w + timeout) n trace (clock w') n' res \<and>
       ng_version InfoNegotiation # ng_versions InfoNegotiation = [3, 1, 2]"
proof -
  obtain trace n' w' res where "probe (logged request clock) (\<lambda>s. clock (fst s)) timeout (n, w, []) = ((n', w', trace), res)"
    "negotiated (clock w + timeout) \<lparr>ng_version = ng_version n, ng_versions = ng_versions n\<rparr> trace (clock w') n' res"
    using probe_until_negotiated [of request clock "clock w + timeout" "ng_version n" "ng_versions n" w "[]"] by (auto simp: probe_def)
  then show ?thesis by (auto simp: negotiated_def InfoNegotiation_def Let_def)
qed

end
