(* ===== verification/Session_Link.thy ===== *)
theory Session_Link
  imports V3_Session V3_Device
begin

text \<open>
  The session on the modelled reader and the modelled device: a link that carries each request of the reader
  to the simulated device and each answer back. It provides what the locale \<open>device_link\<close> asks for.
\<close>

section \<open>The reader answers a request\<close>

definition reader_idle :: "'f reader \<Rightarrow> bool" where
  "reader_idle r \<longleftrightarrow> \<not> rd_closed r \<and> rd_terminal_error r = None \<and> rd_started r \<and> \<not> rd_stop r \<and> rd_pending r = [] \<and>
     0 < rd_max_pending_requests r \<and> rd_current r = Idle \<and> 1 \<le> rd_next_request_id r \<and> rd_next_request_id r \<le> UINT32_MAX"

definition following_id :: "int \<Rightarrow> int" where
  "following_id q = (let f = (q + 1) AND UINT32_MAX in if f = 0 then 1 else f)"

definition v3_pending :: "CommandKind \<Rightarrow> int \<Rightarrow> int \<Rightarrow> PendingRequest" where
  "v3_pending ck q deadline = \<lparr>pr_kind = CommandKind_value ck, pr_expected_kind = FrameKind_value (COMMAND_RESPONSE_KINDS ck), pr_request_id = q,
     pr_deadline = deadline, pr_completed = False, pr_response = None, pr_protocol_version = 3, pr_error = None, pr_negotiating = False\<rparr>"

lemma v3_expected_kind: "request_response_kind 3 (CommandKind_value ck) = Some (FrameKind_value (COMMAND_RESPONSE_KINDS ck))"
  by (cases ck) (simp_all add: request_response_kind_def V3_REQUEST_RESPONSE_KIND_def)

lemma idle_request:
  assumes "reader_idle r" "0 < t" "encode_v3_frame (CommandKind_value ck) p 0 0 0 (rd_next_request_id r) 0 0 = Inr wire"
  shows "begin_request codec (CommandKind_value ck) p t now 3 False r =
    (registered (rd_next_request_id r) (v3_pending ck (rd_next_request_id r) (now + t)) (r\<lparr>rd_next_request_id := following_id (rd_next_request_id r)\<rparr>),
     Inr (length (rd_requests r), wire))"
proof -
  have "require_live r = Inr ()" using assms(1) by (simp add: reader_idle_def require_live_def require_def)
  moreover have "allocate_request_id (rd_max_pending_requests r + 1) r =
      (r\<lparr>rd_next_request_id := following_id (rd_next_request_id r)\<rparr>, Some (rd_next_request_id r))"
    using assms(1) by (simp add: reader_idle_def following_id_def Let_def)
  ultimately show ?thesis using assms
    by (simp add: begin_request_def v3_expected_kind registered_def v3_pending_def reader_idle_def)
qed

lemma take_reply:
  assumes "decode_v3_response f = Inr v" "\<not> rd_stop r"
  shows "take_frame codec (WireV3 f) r = (count (\<lambda>t. t\<lparr>ty_frames_received := ty_frames_received t + 1\<rparr>) r)\<lparr>rd_current := Decoded (ResponseMessage (V3Reply v) 3)\<rparr>"
proof -
  have "\<not> is_data_kind (hdr_kind (fr_header f))" "FrameKind_value (hdr_kind (fr_header f)) \<notin> {1, 2}" 
    using assms(1) by (cases "hdr_kind (fr_header f)"; auto simp: decode_v3_response_def is_response_kind_def Let_def require_def)+
  then show ?thesis using assms by (simp add: take_frame_def)
qed

definition run_started :: "V3Response \<Rightarrow> bool" where
  "run_started v \<longleftrightarrow> rp_run_id v \<noteq> 0 \<and> (\<exists>a. rp_value v = Some (AppliedValue a))"

text \<open>What an exchange of the idle reader depends on.\<close>

definition link_view :: "'f reader \<Rightarrow> _" where
  "link_view r = (rd_closed r, rd_terminal_error r, rd_started r, rd_stop r, rd_pending r, rd_max_pending_requests r, rd_current r, rd_next_request_id r)"

lemma link_view_idle: "link_view r' = link_view r \<Longrightarrow> reader_idle r' = reader_idle r"
  by (simp add: link_view_def reader_idle_def)

lemma accept_v3:
  assumes "response_ok v \<Longrightarrow> rp_kind v = FK_START_RESPONSE \<Longrightarrow> run_started v"
  shows "snd (accept_response i (V3Reply v) 3 r) = Inr None \<and> link_view (fst (accept_response i (V3Reply v) 3 r)) = link_view r \<and>
    rd_requests (fst (accept_response i (V3Reply v) 3 r)) = (rd_requests r)[i := (rd_requests r ! i)\<lparr>pr_response := Some (V3Reply v)\<rparr>]"
proof (cases "response_ok v \<and> rp_kind v = FK_START_RESPONSE")
  case True
  then obtain a where a: "rp_run_id v \<noteq> 0" "rp_value v = Some (AppliedValue a)" using assms by (auto simp: run_started_def)
  then show ?thesis using True
    by (simp add: accept_response_def Let_def start_stream_def activate_run_locked_def SUPPORTED_CHECKSUM_ALGORITHMS_def
        link_view_def record_boundary_eq count_def set_request_def)
next
  case False
  have "FrameKind_value (rp_kind v) = 146 \<longleftrightarrow> rp_kind v = FK_START_RESPONSE" by (cases "rp_kind v") simp_all
  then show ?thesis using False
    by (auto simp: accept_response_def Let_def link_view_def record_boundary_eq count_def set_request_def deactivate_stream_locked_def)
qed

lemma reader_answers:
  fixes r :: "'f reader"
  assumes idle: "reader_idle r" and p: "pr_protocol_version p = 3" "pr_expected_kind p = FrameKind_value (rp_kind v)" "unresolved p" "\<not> pr_negotiating p"
    and v: "decode_v3_response f = Inr v" "response_ok v \<Longrightarrow> rp_kind v = FK_START_RESPONSE \<Longrightarrow> run_started v"
  shows "\<exists>r'. finish_request (length (rd_requests r)) (dispatch_current (take_frame codec (WireV3 f) (registered (rp_request_id v) p r))) = (r', Inr (V3Reply v)) \<and>
    link_view r' = link_view r"
proof -
  let ?i = "length (rd_requests r)" and ?r1 = "registered (rp_request_id v) p r"
  have nostop: "\<not> rd_stop ?r1" using idle by (simp add: reader_idle_def registered_def count_def)
  define r2 where "r2 = take_frame codec (WireV3 f) ?r1"
  have r2: "rd_pending r2 = [(rp_request_id v, ?i)]" "rd_requests r2 = rd_requests r @ [p]" "rd_current r2 = Decoded (ResponseMessage (V3Reply v) 3)"
    "link_view (r2\<lparr>rd_pending := [], rd_current := Idle\<rparr>) = link_view r"
    using idle unfolding r2_def take_reply [OF v(1) nostop] by (simp_all add: registered_def count_def reader_idle_def link_view_def)
  define r3 where "r3 = fst (accept_response ?i (V3Reply v) 3 (r2\<lparr>rd_pending := []\<rparr>))"
  have acc: "accept_response ?i (V3Reply v) 3 (r2\<lparr>rd_pending := []\<rparr>) = (r3, Inr None)" "link_view r3 = link_view (r2\<lparr>rd_pending := []\<rparr>)"
    "rd_requests r3 = rd_requests r @ [p\<lparr>pr_response := Some (V3Reply v)\<rparr>]"
    using accept_v3 [OF v(2), of ?i "r2\<lparr>rd_pending := []\<rparr>"] r2(2) by (auto simp: r3_def prod_eq_iff)
  have "dispatch_response (V3Reply v) 3 r2 = (complete_response ?i None r3, Inr ())"
    using r2 acc p by (simp add: dispatch_response_def version_rejected_def nth_append)
  then have d: "dispatch_current r2 = (complete_response ?i None r3)\<lparr>rd_current := Idle\<rparr>" by (simp add: dispatch_current_def r2(3))
  have e: "pr_error p = None" using p(3) by (simp add: unresolved_def)
  have "rd_requests (dispatch_current r2) ! ?i = p\<lparr>pr_response := Some (V3Reply v), pr_completed := True\<rparr>"
    using acc(3) e by (simp add: d complete_response_def set_request_def nth_append)
  then have "finish_request ?i (dispatch_current r2) = (dispatch_current r2, Inr (V3Reply v))" using e by (simp add: finish_request_def)
  moreover have "link_view (dispatch_current r2) = link_view r"
    using acc(2) r2(4) by (simp add: d link_view_def complete_response_def set_request_def)
  ultimately show ?thesis by (simp add: r2_def)
qed

section \<open>Requests the device accepts\<close>

lemma command_encodes:
  assumes "command_payload ck s p" "1 \<le> q" "q \<le> UINT32_MAX"
  obtains wire where "encode_v3_frame (CommandKind_value ck) p 0 0 0 q 0 0 = Inr wire" "length wire \<le> 68"
    "command_to_bytes \<lparr>cm_kind = ck, cm_request_id = q, cm_settings = (if ck = CK_CONFIGURE then Some s else None)\<rparr> = Inr wire"
proof -
  define k where "k = (case ck of CK_INFO \<Rightarrow> FK_INFO_REQUEST | CK_CONFIGURE \<Rightarrow> FK_CONFIGURE_REQUEST | CK_START \<Rightarrow> FK_START_REQUEST
    | CK_GET_STATUS \<Rightarrow> FK_GET_STATUS_REQUEST | CK_STOP \<Rightarrow> FK_STOP_REQUEST | CK_GET_CAPABILITIES \<Rightarrow> FK_GET_CAPABILITIES_REQUEST
    | CK_GET_SETTINGS \<Rightarrow> FK_GET_SETTINGS_REQUEST)"
  have k: "FrameKind_value k = CommandKind_value ck" "is_request_kind k" "\<not> is_data_kind k" "(k = FK_CONFIGURE_REQUEST) = (ck = CK_CONFIGURE)"
    by (cases ck; simp add: k_def is_request_kind_def CommandKind_of_int_def)+
  have len: "length p = (if ck = CK_CONFIGURE then 20 else 0)" using assms(1) record_lengths(1) by (auto simp: command_payload_def split: if_splits)
  then have len4: "length p \<le> 4060" by simp
  let ?h = "V3FrameHeader k 0 (48 + int (length p)) (int (length p)) 0 0 q 0 0"
  have "header_valid ?h" using k len assms(2)
    by (auto simp: header_valid_def check_control_header_def check_request_header_def request_payload_size_def require_def)
  moreover have "fields_in_range HEADER_FORMAT (header_fields ?h)"
    using assms(2,3) len FrameKind_value_range [of k] by (auto simp: HEADER_FORMAT_def header_fields_def UINT32_MAX_def)
  moreover have "validate_payload \<lparr>fr_header = ?h, fr_payload = p, fr_checksum = 0\<rparr> = Inr ()"
    using k assms(1) settings_from_bytes_iff [of p s] by (auto simp: validate_payload_def command_payload_def)
  ultimately obtain wire where w: "encode_v3_frame (FrameKind_value k) p 0 0 0 q 0 0 = Inr wire"
    using encode_v3_frame_total [OF refl, of 0 p k 0 0 q 0 0] len4 by auto
  moreover have "length wire \<le> 68" using v3_encode_decode [OF w] len by auto
  ultimately show thesis using that assms(1) k(1)
    by (auto simp: command_to_bytes_def command_payload_def require_def split: if_splits)
qed

section \<open>Identifiers\<close>

definition ids_before :: "int \<Rightarrow> int list \<Rightarrow> bool" where
  "ids_before q qs \<longleftrightarrow> length qs \<le> 16 \<and> (\<forall>j < length qs. (q - qs ! j) mod UINT32_MAX = int (length qs - j))"

lemma ids_before_fresh: "ids_before q qs \<Longrightarrow> q \<notin> set qs"
  by (auto simp: ids_before_def in_set_conv_nth)

lemma following_id_mod:
  assumes "1 \<le> q" "q \<le> UINT32_MAX"
  shows "1 \<le> following_id q" "following_id q \<le> UINT32_MAX" "(following_id q - x) mod UINT32_MAX = (q - x + 1) mod UINT32_MAX"
proof -
  have "following_id q = q + 1 \<and> q + 1 \<le> UINT32_MAX \<or> following_id q = 1 \<and> q = UINT32_MAX"
  proof (cases "q = UINT32_MAX")
    case False
    then have "(q + 1) mod 4294967296 = q + 1" using assms by (simp add: UINT32_MAX_def)
    then show ?thesis using assms False by (simp add: following_id_def and_UINT_MAX Let_def)
  qed (simp add: following_id_def UINT32_MAX_def)
  then show "1 \<le> following_id q" "following_id q \<le> UINT32_MAX" "(following_id q - x) mod UINT32_MAX = (q - x + 1) mod UINT32_MAX"
    using assms mod_add_self1 [of UINT32_MAX "1 - x"] by (auto simp: algebra_simps UINT32_MAX_def)
qed

lemma ids_before_remember:
  assumes "ids_before q qs" "1 \<le> q" "q \<le> UINT32_MAX"
  shows "ids_before (following_id q) (drop (length (qs @ [q]) - 16) (qs @ [q]))"
proof -
  let ?ids = "qs @ [q]"
  have *: "(following_id q - ?ids ! j) mod UINT32_MAX = int (length ?ids - j)" if "j < length ?ids" for j
  proof (cases "j = length qs")
    case True
    then show ?thesis using following_id_mod(3) [OF assms(2,3), of q] by (simp add: UINT32_MAX_def)
  next
    case False
    then have j: "j < length qs" using that by simp
    then have "(q - qs ! j) mod UINT32_MAX = int (length qs - j)" "length qs \<le> 16" using assms(1) by (auto simp: ids_before_def)
    then have "(q - qs ! j + 1) mod UINT32_MAX = (int (length qs - j) + 1) mod UINT32_MAX" by (metis mod_add_left_eq)
    also have "\<dots> = int (length ?ids - j)" using j \<open>length qs \<le> 16\<close> by (simp add: UINT32_MAX_def)
    finally show ?thesis using j by (simp add: following_id_mod(3) [OF assms(2,3)] nth_append)
  qed
  have "(following_id q - drop (length ?ids - 16) ?ids ! j) mod UINT32_MAX = int (length (drop (length ?ids - 16) ?ids) - j)"
    if "j < length (drop (length ?ids - 16) ?ids)" for j
    using that * [of "length ?ids - 16 + j"] by (simp add: nth_drop del: drop_append append_assoc)
  then show ?thesis unfolding ids_before_def using assms(1) by (simp add: ids_before_def)
qed

section \<open>The link\<close>

text \<open>
  \<open>lk_waits\<close> is the number of pauses of the host after which the transport has delivered the frame the device has
  queued. An exchange hands the request to \<open>receive\<close> and the replies, in order, to the reader's thread.
\<close>

record 'f link =
  lk_reader :: "'f reader"
  lk_device :: sim_state
  lk_waits :: nat

definition hear :: "'f legacy_codec \<Rightarrow> bytes \<Rightarrow> 'f reader \<Rightarrow> 'f reader" where
  "hear codec reply r = (case decode_v3_frame reply of Inl _ \<Rightarrow> parser_failed r | Inr f \<Rightarrow> dispatch_current (take_frame codec (WireV3 f) r))"

definition link_request :: "'f legacy_codec \<Rightarrow> int \<Rightarrow> 'f link v3_request" where
  "link_request codec now w ck payload timeout =
     (case begin_request codec (CommandKind_value ck) payload timeout now 3 False (lk_reader w) of
        (r1, Inl e) \<Rightarrow> (w\<lparr>lk_reader := r1\<rparr>, Inl e)
      | (r1, Inr (i, wire)) \<Rightarrow> (case receive (lk_device w) wire of
          Some (d, Inr replies) \<Rightarrow>
            (case finish_request i (fold (hear codec) replies r1) of
               (r2, Inr (V3Reply v)) \<Rightarrow> (w\<lparr>lk_reader := r2, lk_device := d\<rparr>, Inr v)
             | (r2, Inr (LegacyResponse _)) \<Rightarrow> (w\<lparr>lk_reader := r2, lk_device := d\<rparr>, Inl ReaderProtocolError)
             | (r2, Inl e) \<Rightarrow> (w\<lparr>lk_reader := r2, lk_device := d\<rparr>, Inl e))
        | _ \<Rightarrow> (w\<lparr>lk_reader := transport_lost r1\<rparr>, Inl DeviceDisconnectedError)))"

definition link_pause :: "'f link \<Rightarrow> 'f link" where
  "link_pause w = (if lk_waits w = 0 then w\<lparr>lk_device := set_transport_pending_data False (lk_device w)\<rparr> else w\<lparr>lk_waits := lk_waits w - 1\<rparr>)"

definition device_state_view :: "sim_state \<Rightarrow> device_view" where
  "device_state_view d = \<lparr>dv_capabilities = sim_capabilities d,
     dv_identity = (BOARD_TEENSY_40, MCU_IMXRT1062, True, ''SIM-TEENSY40-V3'', ''0.3.0-sim'', sim_build_id d),
     dv_settings = sim_settings d, dv_run_id = sim_run_id d, dv_state = sim_device_state d, dv_pending = sim_pending d\<rparr>"

definition link_good :: "'f link \<Rightarrow> bool" where
  "link_good w \<longleftrightarrow> reader_idle (lk_reader w) \<and> sim_inv (lk_device w) \<and> pending_header (sim_parser (lk_device w)) = None \<and>
     unread (sim_parser (lk_device w)) = [] \<and> 68 \<le> sim_max_receive_bytes (lk_device w) \<and> 0 < sim_max_requests (lk_device w) \<and>
     ids_before (rd_next_request_id (lk_reader w)) (sim_recent (lk_device w))"

lemma command_refusal_view:
  assumes "sim_inv d"
  shows "command_refusal d \<lparr>cm_kind = ck, cm_request_id = q, cm_settings = (if ck = CK_CONFIGURE then Some s else None)\<rparr> \<noteq> EC_OK \<longleftrightarrow>
    view_refuses ck s (device_state_view d)"
  by (cases "sim_device_state d") (auto simp: command_refusal_def view_refuses_def device_state_view_def)

lemma after_command_view:
  "device_state_view (after_command d \<lparr>cm_kind = ck, cm_request_id = q, cm_settings = (if ck = CK_CONFIGURE then Some s else None)\<rparr>) =
   (if command_refusal d \<lparr>cm_kind = ck, cm_request_id = q, cm_settings = (if ck = CK_CONFIGURE then Some s else None)\<rparr> = EC_OK
    then view_step ck s (device_state_view d) else device_state_view d)"
  by (cases ck) (auto simp: device_state_view_def after_command_fields view_step_def command_refusal_def)

lemma reported_view: "reported d ck x \<Longrightarrow> view_reports ck (device_state_view d) x"
  by (cases ck) (auto simp: reported_def view_reports_def device_state_view_def sim_info_def sim_status_def identity_key_def bind_res_eq_Inr)

lemma response_ok_code: "decode_v3_response f = Inr v \<Longrightarrow> response_ok v \<longleftrightarrow> rp_error_code v = EC_OK"
  unfolding decode_v3_response_def Let_def response_ok_def by (auto simp: bind_res_eq_Inr require_eq_Inr split: prod.splits)

lemma link_exchange:
  fixes w :: "'f link"
  assumes good: "link_good w" and t: "0 < t" and p: "command_payload ck s p"
  shows "\<exists>w' r. link_request codec now w ck p t = (w', Inr r) \<and> link_good w' \<and> lk_waits w' = lk_waits w \<and> rp_kind r = COMMAND_RESPONSE_KINDS ck \<and>
    rp_run_id r = dv_run_id (device_state_view (lk_device w')) \<and>
    (if view_refuses ck s (device_state_view (lk_device w)) then \<not> response_ok r \<and> device_state_view (lk_device w') = device_state_view (lk_device w)
     else response_ok r \<and> device_state_view (lk_device w') = view_step ck s (device_state_view (lk_device w)) \<and>
       (\<exists>x. rp_value r = Some x \<and> view_reports ck (device_state_view (lk_device w')) x))"
proof -
  let ?r = "lk_reader w" and ?d = "lk_device w" let ?q = "rd_next_request_id ?r"
  let ?c = "\<lparr>cm_kind = ck, cm_request_id = ?q, cm_settings = (if ck = CK_CONFIGURE then Some s else None)\<rparr>"
  have idle: "reader_idle ?r" and inv: "sim_inv ?d" and q: "1 \<le> ?q" "?q \<le> UINT32_MAX" and ids: "ids_before ?q (sim_recent ?d)"
    using good by (simp_all add: link_good_def reader_idle_def)
  obtain wire where wire: "encode_v3_frame (CommandKind_value ck) p 0 0 0 ?q 0 0 = Inr wire" "length wire \<le> 68" "command_to_bytes ?c = Inr wire"
    by (rule command_encodes [OF p q])
  obtain d' reply f v ps where ex: "receive ?d wire = Some (d', Inr [reply])" "decode_v3_frame reply = Inr f" "decode_v3_response f = Inr v"
    "validate_for v ?c = Inr ()" "rp_error_code v = command_refusal ?d ?c" "rp_run_id v = sim_run_id d'" "sim_inv d'"
    "d' = after_command (?d\<lparr>sim_parser := ps\<rparr>) ?c" "sim_parser d' = ps" "pending_header ps = None" "unread ps = []"
    "command_refusal ?d ?c = EC_OK \<longrightarrow> (\<exists>x. rp_value v = Some x \<and> reported d' ck x)"
    using exchange [OF inv wire(3)] good wire(2) ids_before_fresh [OF ids] by (auto simp: link_good_def)
  have ref: "command_refusal (?d\<lparr>sim_parser := ps\<rparr>) ?c = command_refusal ?d ?c" by (simp add: command_refusal_def)
  have vw: "device_state_view d' = (if command_refusal ?d ?c = EC_OK then view_step ck s (device_state_view ?d) else device_state_view ?d)"
    using after_command_view [of "?d\<lparr>sim_parser := ps\<rparr>" ck ?q s] unfolding ex(8) [symmetric] ref by (simp add: device_state_view_def)
  have kind: "rp_kind v = COMMAND_RESPONSE_KINDS ck" "rp_request_id v = ?q" using ex(4) by (auto simp: validate_for_def require_eq_Inr)
  have ok: "response_ok v \<longleftrightarrow> command_refusal ?d ?c = EC_OK" using response_ok_code [OF ex(3)] ex(5) by simp
  have run: "run_started v" if o: "response_ok v" and k: "rp_kind v = FK_START_RESPONSE"
  proof -
    have ck: "ck = CK_START" using k kind(1) by (cases ck) simp_all
    have "dv_state (device_state_view d') = DS_RUNNING" using vw o ok ck by (simp add: view_step_def)
    then have "sim_run_id d' \<noteq> 0" using ex(7) by (auto simp: sim_inv_def lifecycle_inv_def device_state_view_def)
    then show ?thesis using ex(6,12) o ok ck by (auto simp: run_started_def reported_def)
  qed
  let ?r0 = "?r\<lparr>rd_next_request_id := following_id ?q\<rparr>" and ?p = "v3_pending ck ?q (now + t)"
  have idle0: "reader_idle ?r0" using idle following_id_mod(1,2) [OF q] by (simp add: reader_idle_def)
  obtain r' where fin: "finish_request (length (rd_requests ?r)) (hear codec reply (registered ?q ?p ?r0)) = (r', Inr (V3Reply v))" "link_view r' = link_view ?r0"
    using reader_answers [OF idle0 _ _ _ _ ex(3) run, where p = ?p and codec = codec] kind
    by (auto simp: hear_def ex(2) v3_pending_def unresolved_def)
  define w' where "w' = w\<lparr>lk_reader := r', lk_device := d'\<rparr>"
  have req: "link_request codec now w ck p t = (w', Inr v)"
    using idle_request [OF idle t wire(1)] ex(1) fin(1) by (simp add: link_request_def w'_def)
  have "sim_recent d' = sim_recent (remember ?q ?d)" using ex(8) by (simp add: after_command_fields remember_def Let_def)
  then have "ids_before (following_id ?q) (sim_recent d')" using ids_before_remember [OF ids q] by (simp add: remember_def Let_def)
  moreover have "rd_next_request_id r' = following_id ?q" "reader_idle r'" using fin(2) idle0 link_view_idle [OF fin(2)] by (auto simp: link_view_def)
  moreover have "sim_max_receive_bytes d' = sim_max_receive_bytes ?d" "sim_max_requests d' = sim_max_requests ?d"
    using ex(8) by (simp_all add: after_command_fields)
  ultimately have "link_good w'" using good ex(7,9-11) by (simp add: link_good_def w'_def)
  moreover have rep: "command_refusal ?d ?c = EC_OK \<longrightarrow> (\<exists>x. rp_value v = Some x \<and> view_reports ck (device_state_view d') x)"
    using ex(12) reported_view by blast
  moreover have "if view_refuses ck s (device_state_view ?d) then \<not> response_ok v \<and> device_state_view d' = device_state_view ?d
     else response_ok v \<and> device_state_view d' = view_step ck s (device_state_view ?d) \<and> (\<exists>x. rp_value v = Some x \<and> view_reports ck (device_state_view d') x)"
    using command_refusal_view [OF inv, of ck ?q s] ok vw rep by (cases "command_refusal ?d ?c = EC_OK") simp_all
  moreover have "dv_run_id (device_state_view d') = rp_run_id v" using ex(6) by (simp add: device_state_view_def)
  moreover have dev: "lk_device w' = d'" "lk_waits w' = lk_waits w" by (simp_all add: w'_def)
  ultimately show ?thesis using req kind(1) by (intro exI [of _ w'] exI [of _ v] conjI) (simp_all only: dev)
qed

lemma set_pending_keeps [simp]:
  "sim_parser (set_transport_pending_data b d) = sim_parser d" "sim_recent (set_transport_pending_data b d) = sim_recent d"
  "sim_max_receive_bytes (set_transport_pending_data b d) = sim_max_receive_bytes d" "sim_max_requests (set_transport_pending_data b d) = sim_max_requests d"
  by (simp_all add: set_transport_pending_data_def Let_def)

lemma link_pause_good: "link_good w \<Longrightarrow> link_good (link_pause w)"
  by (simp add: link_good_def link_pause_def set_pending_False_inv)

interpretation sim_link: device_link "link_request codec now" link_good "\<lambda>w. device_state_view (lk_device w)" link_pause lk_waits
proof (unfold_locales, goal_cases)
  case (5 w t ck s p)
  then show ?case by (rule link_exchange)
qed (auto simp: link_pause_good, auto simp: link_good_def device_state_view_def sim_inv_def config_inv_def lifecycle_inv_def link_pause_def
    set_transport_pending_data_def view_delivered_def Let_def)

section \<open>A new link\<close>

lemma new_link_good:
  assumes "SimulatedV3Device build mr mq = Inr d" "68 \<le> mr" "reader_idle r"
  shows "link_good \<lparr>lk_reader = r, lk_device = d, lk_waits = n\<rparr>"
proof -
  note i = device_initial [OF assms(1)] and f = device_fresh [OF assms(1)]
  have "68 \<le> sim_max_receive_bytes d" using i(4) assms(2) by simp
  then show ?thesis using i(1) f assms(3) by (simp add: link_good_def ids_before_def)
qed

lemma started_reader_idle: "reader_idle started_reader"
  by (simp add: reader_idle_def started_reader_eq UINT32_MAX_def)

lemma device_reports_info:
  assumes "link_good w"
  shows "\<exists>i. sim_info (lk_device w) = Inr i \<and> view_reports CK_INFO (device_state_view (lk_device w)) (InfoValue i)"
proof -
  obtain b where "ascii_encode (sim_build_id (lk_device w)) 48 = Inr b" using assms by (auto simp: link_good_def sim_inv_def config_inv_def)
  then obtain i where "sim_info (lk_device w) = Inr i" using sim_info_total by blast
  then show ?thesis using reported_view [of "lk_device w" CK_INFO] by (auto simp: reported_def)
qed

section \<open>Properties\<close>

text \<open>
  Property C33. The host session refines the abstract device. On a link of the modelled reader and the simulated
  device, opening a session with the INFO record of the device succeeds, and from then on every sequence of
  INFO, GET_SETTINGS, GET_STATUS, CONFIGURE, START and STOP calls has exactly the outcomes of the abstract device: settings that are not
  advertised are refused without an exchange, CONFIGURE and START are refused while the device is not stopped, START returns the next run id,
  STOP returns after the drain as long as the host waits longer than the transport needs. After every sequence what the session has
  stored (capabilities, settings and clocks, identity, state, run id) is what the device has.
\<close>

theorem session_refines_device:
  fixes w :: "'f link"
  assumes "link_good w" "0 < timeout" "view_reports CK_INFO (device_state_view (lk_device w)) (InfoValue i)"
    and "list_all (patient (lk_waits w)) operations"
  shows "\<exists>ses1 w1 status ses' w' outs.
    session_open (link_request codec now) ((V3Session timeout)\<lparr>ses_identity := Some i\<rparr>, w) = ((ses1, w1), Inr status) \<and>
    run_ops (link_request codec now) link_pause operations (ses1, w1) = ((ses', w'), outs) \<and>
    (device_state_view (lk_device w'), outs) = view_ops operations (device_state_view (lk_device w)) \<and>
    link_good w' \<and> in_step ses' (device_state_view (lk_device w'))"
proof -
  have i: "identity_key i = dv_identity (device_state_view (lk_device w))"
    "clocks_for_profile (st_cpu_profile (dv_settings (device_state_view (lk_device w)))) = Inr (in_clocks i)"
    using assms(3) by (simp_all add: view_reports_def)
  from sim_link.open_ok [OF assms(1,2) i, of codec now] obtain ses1 w1 status where
    o: "session_open (link_request codec now) ((V3Session timeout)\<lparr>ses_identity := Some i\<rparr>, w) = ((ses1, w1), Inr status)" "link_good w1"
      "lk_waits w1 = lk_waits w" "device_state_view (lk_device w1) = device_state_view (lk_device w)" "in_step ses1 (device_state_view (lk_device w1))"
    by (auto simp: ends_def split: prod.splits)
  from sim_link.ops_refine [OF o(2,5), of operations codec now] assms(4) o(3,4) obtain ses' w' outs where
    "run_ops (link_request codec now) link_pause operations (ses1, w1) = ((ses', w'), outs)" "link_good w'"
    "in_step ses' (device_state_view (lk_device w'))" "(device_state_view (lk_device w'), outs) = view_ops operations (device_state_view (lk_device w))"
    by auto
  with o(1) show ?thesis by blast
qed

theorem session_refines_device_witness:
  "\<exists>(w :: (CommandResponse + data_block) link) i ses1 w1 status ses' w'.
     session_open (link_request plain_codec 0) ((V3Session 5)\<lparr>ses_identity := Some i\<rparr>, w) = ((ses1, w1), Inr status) \<and>
     run_ops (link_request plain_codec 0) link_pause [OpStart, OpStart, OpStatus, OpStop [(4, 3)], OpStart] (ses1, w1) =
       ((ses', w'), [OutRun 1, OutRefused CK_START, OutStatus DS_RUNNING 1, OutStopped, OutRun 2])"
proof -
  obtain d where d: "SimulatedV3Device ''thingdaq-simulator-v3'' 2048 8 = Inr d" using default_device by blast
  let ?w = "\<lparr>lk_reader = started_reader, lk_device = d, lk_waits = 0\<rparr> :: (CommandResponse + data_block) link"
  have g: "link_good ?w" using new_link_good [OF d _ started_reader_idle] by simp
  obtain i where i: "view_reports CK_INFO (device_state_view (lk_device ?w)) (InfoValue i)" using device_reports_info [OF g] by blast
  have "dv_state (device_state_view d) = DS_STOPPED" "dv_run_id (device_state_view d) = 0"
    using device_initial [OF d] by (simp_all add: device_state_view_def)
  then have "snd (view_ops [OpStart, OpStart, OpStatus, OpStop [(4, 3)], OpStart] (device_state_view d)) =
      [OutRun 1, OutRefused CK_START, OutStatus DS_RUNNING 1, OutStopped, OutRun 2]"
    by (simp add: view_op_def next_run_id_def)
  moreover have "list_all (patient (lk_waits ?w)) [OpStart, OpStart, OpStatus, OpStop [(4, 3)], OpStart]" by (simp add: patient_def)
  ultimately show ?thesis using session_refines_device [OF g _ i, of 5 _ plain_codec 0] by (fastforce simp: prod_eq_iff)
qed

end
