(* ===== verification/Client_Stream.thy ===== *)
theory Client_Stream
  imports V3_Session Stream_Validator
begin

text \<open>
  The facade \<^verbatim>\<open>ThingDAQ\<close> of \<^verbatim>\<open>client.py\<close> in a synchronised version-3 session: it controls the device through the session,
  follows each stream by its expected sequence number and timestamp, reports gaps, host queue losses and anomalies, and compares
  what it has inferred with the loss counters of the device. An operation maps the facade and the link to their next
  states and the result. The counters of reader and parser that an operation reads are its arguments; that the
  reader runs and the transport is open is not tracked (a request over a lost link fails in the reader).
  Telemetry messages are kept, since the facade counts distinct ones; the text of a nested exception in them is left out.
\<close>

section \<open>State\<close>

datatype client_error = ClientUnexpectedMessage | ClientKeyError | GapRaised StreamGap data_block | LossRaised HostQueueLoss
  | AnomalyRaised StreamAnomaly "data_block option" | ValidationRaised string | ClientValueError | ClientSessionError session_error
  | DAQClosedError | DAQStateError | DeviceCapabilityError | BlockTimeoutError | ClientReaderError reader_error | DAQShutdownError
  | ClientAssertionError

record HostCounters =
  hc_parser_corruption_events :: int
  hc_parser_resynchronizations :: int
  hc_host_block_queue_drops :: int
  hc_host_event_queue_drops :: int
  hc_stale_blocks_discarded :: int
  hc_boundary_blocks_discarded :: int
  hc_late_responses :: int
  hc_request_timeouts :: int
  hc_protocol_failures :: int
  hc_disconnects :: int
  hc_adc_block_queue_drops :: int
  hc_gpio_block_queue_drops :: int
  hc_adc_item_queue_drops :: int
  hc_gpio_item_queue_drops :: int
  hc_loss_report_queue_drops :: int

definition host_counters :: "ReaderCounters \<Rightarrow> ParserCounters \<Rightarrow> HostCounters" where
  "host_counters reader parser =
     \<lparr>hc_parser_corruption_events = int (c_corruption_events parser), hc_parser_resynchronizations = int (c_resynchronizations parser),
      hc_host_block_queue_drops = rc_host_block_queue_drops reader, hc_host_event_queue_drops = rc_host_event_queue_drops reader,
      hc_stale_blocks_discarded = rc_stale_blocks_discarded reader, hc_boundary_blocks_discarded = rc_boundary_blocks_discarded reader,
      hc_late_responses = rc_late_responses reader, hc_request_timeouts = rc_request_timeouts reader,
      hc_protocol_failures = rc_protocol_failures reader, hc_disconnects = rc_disconnects reader,
      hc_adc_block_queue_drops = rc_adc_block_queue_drops reader, hc_gpio_block_queue_drops = rc_gpio_block_queue_drops reader,
      hc_adc_item_queue_drops = rc_adc_item_queue_drops reader, hc_gpio_item_queue_drops = rc_gpio_item_queue_drops reader,
      hc_loss_report_queue_drops = rc_loss_report_queue_drops reader\<rparr>"

text \<open>The counters of \<^verbatim>\<open>FirmwareCounters\<close> that a version-3 session fills; the others keep their default 0.\<close>

record FirmwareCounters =
  fc_stats_generation :: int
  fc_adc_frames_dropped :: int
  fc_adc_items_dropped :: int
  fc_adc_payload_bytes_dropped :: int
  fc_gpio_frames_dropped :: int
  fc_gpio_items_dropped :: int
  fc_gpio_payload_bytes_dropped :: int

definition FirmwareCounters_post_init :: "FirmwareCounters \<Rightarrow> block_error + FirmwareCounters" where
  "FirmwareCounters_post_init f =
     check_unsigned (fc_adc_items_dropped f) 64 (
     check_unsigned (fc_gpio_items_dropped f) 64 (
     check_unsigned (fc_adc_frames_dropped f) 64 (
     check_unsigned (fc_gpio_frames_dropped f) 64 (
     check_unsigned (fc_adc_payload_bytes_dropped f) 64 (
     check_unsigned (fc_gpio_payload_bytes_dropped f) 64 (
     check_unsigned (fc_stats_generation f) 32 (
     require (fc_stats_generation f \<noteq> 0) BlockValueError (Inr f))))))))"

text \<open>The host's counters start at 0 and only grow, so that the checks for negative values in the constructors of
  \<^verbatim>\<open>HostCounters\<close> and \<^verbatim>\<open>LossCounters\<close> have no branch here.\<close>

record LossCounters =
  lc_firmware :: FirmwareCounters
  lc_host :: HostCounters
  lc_observed_stream_gaps :: int
  lc_observed_host_queue_losses :: int
  lc_observed_stream_anomalies :: int
  lc_protocol_telemetry_errors :: int
  lc_telemetry_errors :: "string set"

record client =
  tk_strict :: bool
  tk_gpio_pattern :: SyntheticGPIOPattern
  tk_session :: session
  tk_closed :: bool
  tk_state :: "V1DeviceState option"
  tk_run_id :: int
  tk_configuration :: "DAQConfiguration option"
  tk_pending_items :: "StreamItem list"
  tk_expected_sequence :: "FrameKind \<rightharpoonup> int"
  tk_expected_ticks :: "FrameKind \<rightharpoonup> int"
  tk_previous_sequence :: "FrameKind \<rightharpoonup> int"
  tk_unanchored_streams :: "FrameKind set"
  tk_inferred_missing_frames :: "FrameKind \<rightharpoonup> int"
  tk_inferred_missing_items :: "FrameKind \<rightharpoonup> int"
  tk_loss_stats_generation :: "int option"
  tk_observed_stream_gaps :: int
  tk_observed_host_queue_losses :: int
  tk_observed_stream_anomalies :: int
  tk_protocol_telemetry_errors :: int
  tk_telemetry_error_messages :: "string set"
  tk_host_loss_baseline :: HostCounters
  tk_stream_parser_error_baseline :: int
  tk_stream_host_drop_baseline :: int
  tk_stream_loss_report_drop_baseline :: int

text \<open>The constructor; the session is the one that the first INFO of version 3 creates.\<close>

definition no_host_counters :: HostCounters where
  "no_host_counters = \<lparr>hc_parser_corruption_events = 0, hc_parser_resynchronizations = 0, hc_host_block_queue_drops = 0, hc_host_event_queue_drops = 0,
     hc_stale_blocks_discarded = 0, hc_boundary_blocks_discarded = 0, hc_late_responses = 0, hc_request_timeouts = 0, hc_protocol_failures = 0,
     hc_disconnects = 0, hc_adc_block_queue_drops = 0, hc_gpio_block_queue_drops = 0, hc_adc_item_queue_drops = 0, hc_gpio_item_queue_drops = 0,
     hc_loss_report_queue_drops = 0\<rparr>"

definition new_client :: "bool \<Rightarrow> SyntheticGPIOPattern \<Rightarrow> session \<Rightarrow> client" where
  "new_client strict pattern session =
     \<lparr>tk_strict = strict, tk_gpio_pattern = pattern, tk_session = session, tk_closed = False, tk_state = None, tk_run_id = 0, tk_configuration = None,
      tk_pending_items = [], tk_expected_sequence = Map.empty, tk_expected_ticks = Map.empty, tk_previous_sequence = Map.empty,
      tk_unanchored_streams = {}, tk_inferred_missing_frames = Map.empty, tk_inferred_missing_items = Map.empty, tk_loss_stats_generation = None,
      tk_observed_stream_gaps = 0, tk_observed_host_queue_losses = 0, tk_observed_stream_anomalies = 0, tk_protocol_telemetry_errors = 0,
      tk_telemetry_error_messages = {}, tk_host_loss_baseline = no_host_counters, tk_stream_parser_error_baseline = 0,
      tk_stream_host_drop_baseline = 0, tk_stream_loss_report_drop_baseline = 0\<rparr>"

type_synonym ('w, 'a) client_result = "(client \<times> 'w) \<times> (client_error + 'a)"

section \<open>Messages\<close>

fun digits :: "nat \<Rightarrow> string" where
  "digits n = (if n < 10 then [char_of (48 + n)] else digits (n div 10) @ [char_of (48 + n mod 10)])"

definition decimal :: "int \<Rightarrow> string" where
  "decimal v = (if v < 0 then ''-'' @ digits (nat (- v)) else digits (nat v))"

definition kind_name :: "FrameKind \<Rightarrow> string" where
  "kind_name kind = (if kind = FK_ADC_DATA then ''ADC_DATA'' else ''GPIO_DATA'')"

fun reason_value :: "StreamAnomalyReason \<Rightarrow> string" where
  "reason_value DUPLICATE = ''duplicate''"
| "reason_value REORDERED = ''reordered''"
| "reason_value STALE_RUN = ''stale_run''"
| "reason_value TIMESTAMP_INCONSISTENT = ''timestamp_inconsistent''"
| "reason_value FIRMWARE_EVIDENCE_MISMATCH = ''firmware_evidence_mismatch''"
| "reason_value HOST_QUEUE_RANGE_INCONSISTENT = ''host_queue_range_inconsistent''"

definition anomaly_message :: "StreamAnomaly \<Rightarrow> string" where
  "anomaly_message a = kind_name (an_kind a) @ '' '' @ reason_value (an_reason a) @ '' at run/sequence '' @
     decimal (an_observed_run_id a) @ ''/'' @ decimal (an_observed_sequence a)"

definition slashed :: "int \<Rightarrow> int \<Rightarrow> int \<Rightarrow> string" where
  "slashed frames items bytes = decimal frames @ ''/'' @ decimal items @ ''/'' @ decimal bytes"

definition disagreement_message :: "FrameKind \<Rightarrow> int \<times> int \<times> int \<Rightarrow> int \<times> int \<times> int \<Rightarrow> string" where
  "disagreement_message kind inferred observed = (case (inferred, observed) of ((f, i, b), (f', i', b')) \<Rightarrow>
     kind_name kind @ '' cumulative loss counters disagree: host inferred frames/items/bytes='' @ slashed f i b @
     '', firmware reported '' @ slashed f' i' b')"

definition generation_message :: "int \<Rightarrow> int \<Rightarrow> string" where
  "generation_message expected observed = ''firmware statistics generation changed within the active run: expected '' @
     decimal expected @ '', observed '' @ decimal observed"

section \<open>Expectations\<close>

definition clear_stream_expectations :: "bool \<Rightarrow> client \<Rightarrow> client" where
  "clear_stream_expectations preserve_inferred c =
     (let c1 = c\<lparr>tk_expected_sequence := Map.empty, tk_expected_ticks := Map.empty, tk_previous_sequence := Map.empty, tk_unanchored_streams := {}\<rparr> in
      if preserve_inferred then c1 else c1\<lparr>tk_inferred_missing_frames := Map.empty, tk_inferred_missing_items := Map.empty\<rparr>)"

definition expect_stream :: "FrameKind \<Rightarrow> bool \<Rightarrow> client \<Rightarrow> client" where
  "expect_stream kind epoch_start c =
     c\<lparr>tk_expected_sequence := (tk_expected_sequence c)(kind \<mapsto> 0), tk_expected_ticks := (tk_expected_ticks c)(kind \<mapsto> 0),
       tk_inferred_missing_frames := (tk_inferred_missing_frames c)(kind \<mapsto> 0), tk_inferred_missing_items := (tk_inferred_missing_items c)(kind \<mapsto> 0),
       tk_unanchored_streams := (if epoch_start then tk_unanchored_streams c else insert kind (tk_unanchored_streams c))\<rparr>"

definition initialize_stream_expectations :: "DAQConfiguration \<Rightarrow> bool \<Rightarrow> client \<Rightarrow> client" where
  "initialize_stream_expectations configuration epoch_start c =
     (let c0 = clear_stream_expectations False c;
          c1 = (if dc_stream_mask configuration AND STREAM_ADC \<noteq> 0 then expect_stream FK_ADC_DATA epoch_start c0 else c0) in
      if dc_stream_mask configuration AND STREAM_GPIO \<noteq> 0 then expect_stream FK_GPIO_DATA epoch_start c1 else c1)"

definition advance_expectation :: "FrameKind \<Rightarrow> data_block \<Rightarrow> client \<Rightarrow> client" where
  "advance_expectation kind b c = c\<lparr>tk_previous_sequence := (tk_previous_sequence c)(kind \<mapsto> block_sequence b),
     tk_expected_sequence := (tk_expected_sequence c)(kind \<mapsto> (block_sequence b + 1) AND UINT32_MAX),
     tk_expected_ticks := (tk_expected_ticks c)(kind \<mapsto> block_end_tick_exclusive b)\<rparr>"

text \<open>\<^verbatim>\<open>_validate_clean_block\<close>; \<open>corruption\<close> is the parser's count of corruption events.\<close>

definition validate_clean_block :: "int \<Rightarrow> data_block \<Rightarrow> client \<Rightarrow> client_error + unit" where
  "validate_clean_block corruption b c =
     (if \<not> tk_strict c then Inr ()
      else require (corruption - tk_stream_parser_error_baseline c = 0) (ValidationRaised ''parser_errors'') (
        if (case tk_configuration c of Some configuration \<Rightarrow> dc_source configuration = SRC_SYNTHETIC | None \<Rightarrow> False)
        then map_sum (\<lambda>_. ValidationRaised ''synthetic_pattern'') id (validate_synthetic_block b (tk_gpio_pattern c))
        else Inr ()))"

section \<open>Loss evidence\<close>

definition observe_loss_stats_generation :: "int \<Rightarrow> client \<Rightarrow> client \<times> string option" where
  "observe_loss_stats_generation observed c = (case tk_loss_stats_generation c of
       None \<Rightarrow> (c\<lparr>tk_loss_stats_generation := Some observed\<rparr>, None)
     | Some expected \<Rightarrow> (c, if expected = observed then None else Some (generation_message expected observed)))"

definition client_gpio_item_bytes :: "client \<Rightarrow> int option" where
  "client_gpio_item_bytes c = map_option (\<lambda>configuration. int (ly_item_bytes (layout_from_mode (dc_aux_bank_mode configuration)))) (tk_configuration c)"

definition v3_counters :: "client \<Rightarrow> V3Status \<Rightarrow> client_error + FirmwareCounters" where
  "v3_counters c status = (case ses_applied (tk_session c) of
       None \<Rightarrow> Inl ClientAssertionError
     | Some applied \<Rightarrow>
        map_sum (\<lambda>_. ClientValueError) id (let width = (case client_gpio_item_bytes c of Some n \<Rightarrow> n | None \<Rightarrow> st_gpio_width_bits (ap_settings applied) div 8);
             run = sp_run_id (ss_stop status) in
         FirmwareCounters_post_init \<lparr>fc_stats_generation = (if run = 0 then 1 else run),
           fc_adc_frames_dropped = ss_adc_frames_dropped status, fc_adc_items_dropped = ss_adc_items_dropped status,
           fc_adc_payload_bytes_dropped = ss_adc_items_dropped status * 4,
           fc_gpio_frames_dropped = ss_gpio_frames_dropped status, fc_gpio_items_dropped = ss_gpio_items_dropped status,
           fc_gpio_payload_bytes_dropped = ss_gpio_items_dropped status * width\<rparr>))"

definition client_status :: "'w v3_request \<Rightarrow> client \<times> 'w \<Rightarrow> ('w, V3Status) client_result" where
  "client_status request s = (case s of (c, w) \<Rightarrow>
     if tk_closed c then (s, Inl DAQClosedError)
     else (case session_status request None (tk_session c, w) of
       ((ses, w1), Inl e) \<Rightarrow> ((c\<lparr>tk_session := ses\<rparr>, w1), Inl (ClientSessionError e))
     | ((ses, w1), Inr snapshot) \<Rightarrow>
         ((c\<lparr>tk_session := ses, tk_run_id := sp_run_id (ss_stop snapshot),
            tk_state := Some (if sp_state (ss_stop snapshot) = DS_RUNNING then V1_RUNNING else V1_CONFIGURED)\<rparr>, w1), Inr snapshot)))"

text \<open>What the device has dropped of one stream: frames, items, bytes; and the bytes of the items the host has inferred.\<close>

definition dropped_of :: "FrameKind \<Rightarrow> FirmwareCounters \<Rightarrow> int \<times> int \<times> int" where
  "dropped_of kind f = (if kind = FK_ADC_DATA then (fc_adc_frames_dropped f, fc_adc_items_dropped f, fc_adc_payload_bytes_dropped f)
     else (fc_gpio_frames_dropped f, fc_gpio_items_dropped f, fc_gpio_payload_bytes_dropped f))"

definition stream_item_bytes :: "FrameKind \<Rightarrow> client \<Rightarrow> int" where
  "stream_item_bytes kind c = (if kind = FK_ADC_DATA then 4 else case client_gpio_item_bytes c of Some n \<Rightarrow> n | None \<Rightarrow> 1)"

text \<open>The errors that \<^verbatim>\<open>_firmware_evidence\<close> turns into a note.\<close>

fun status_unavailable :: "client_error \<Rightarrow> bool" where
  "status_unavailable (ClientSessionError CommandTimeoutError) = True"
| "status_unavailable (ClientSessionError (DeviceCommandError _ _ _)) = True"
| "status_unavailable (ClientSessionError UnexpectedMessageError) = True"
| "status_unavailable _ = False"

definition compared_evidence :: "FrameKind \<Rightarrow> FirmwareLossEvidence \<Rightarrow> FirmwareCounters \<Rightarrow> client \<Rightarrow> client \<times> FirmwareLossEvidence" where
  "compared_evidence kind e counters c =
     (case observe_loss_stats_generation (fc_stats_generation counters) c of (c1, generation_error) \<Rightarrow>
        let errors = ev_errors e @ (case generation_error of None \<Rightarrow> [] | Some m \<Rightarrow> [m]);
            frames = ev_expected_cumulative_frames e; items = ev_expected_cumulative_items e;
            expected_bytes = items * stream_item_bytes kind c1 in
        case dropped_of kind counters of (dropped_frames, dropped_items, dropped_bytes) \<Rightarrow>
        let units = (dropped_bytes = dropped_items * stream_item_bytes kind c1);
            verdict = (if dropped_frames = frames \<and> dropped_items = items \<and> dropped_bytes = expected_bytes \<and> units then Some True
              else if frames \<le> dropped_frames \<and> items \<le> dropped_items \<and> expected_bytes \<le> dropped_bytes \<and> units then None else Some False) in
        (c1, e\<lparr>ev_stats_generation := Some (fc_stats_generation counters), ev_cumulative_dropped_frames := Some dropped_frames,
           ev_cumulative_dropped_items := Some dropped_items, ev_cumulative_dropped_bytes := Some dropped_bytes, ev_counters_match := verdict,
           ev_errors := errors @ (if verdict = Some False then [disagreement_message kind (frames, items, expected_bytes) (dropped_frames, dropped_items, dropped_bytes)] else [])\<rparr>))"

definition firmware_evidence :: "'w v3_request \<Rightarrow> FrameKind \<Rightarrow> Source \<Rightarrow> FirmwareLossEvidence option \<Rightarrow> client \<times> 'w \<Rightarrow>
    ('w, FirmwareLossEvidence) client_result" where
  "firmware_evidence request kind source base s =
     (let c0 = fst s;
          inferred = (\<lambda>m. case m kind of Some n \<Rightarrow> n | None \<Rightarrow> 0);
          e = \<lparr>ev_source = source, ev_gap_before = (case base of None \<Rightarrow> False | Some b \<Rightarrow> ev_gap_before b),
               ev_overrun_before = (case base of None \<Rightarrow> False | Some b \<Rightarrow> ev_overrun_before b), ev_stats_generation = None,
               ev_cumulative_dropped_frames = None, ev_cumulative_dropped_items = None, ev_cumulative_dropped_bytes = None,
               ev_expected_cumulative_frames = inferred (tk_inferred_missing_frames c0),
               ev_expected_cumulative_items = inferred (tk_inferred_missing_items c0),
               ev_flags_match = (case base of None \<Rightarrow> True | Some b \<Rightarrow> ev_flags_match b), ev_counters_match = None,
               ev_errors = (case base of None \<Rightarrow> [] | Some b \<Rightarrow> ev_errors b)\<rparr>;
          built = (\<lambda>s e. (s, map_sum (\<lambda>_. ClientValueError) id (FirmwareLossEvidence_post_init e))) in
      case client_status request s of
        (s1, Inl error) \<Rightarrow> if status_unavailable error then built s1 (e\<lparr>ev_errors := ev_errors e @ [''firmware loss counters unavailable'']\<rparr>)
          else (s1, Inl error)
      | ((c1, w1), Inr status) \<Rightarrow> (case v3_counters c1 status of
          Inl error \<Rightarrow> ((c1, w1), Inl error)
        | Inr counters \<Rightarrow> (case compared_evidence kind e counters c1 of (c2, e2) \<Rightarrow> built (c2, w1) e2)))"

section \<open>Blocks and reports\<close>

definition retained :: "StreamAnomaly \<Rightarrow> bool" where
  "retained a \<longleftrightarrow> an_reason a \<notin> {DUPLICATE, REORDERED, STALE_RUN}"

definition process_anomaly :: "'w v3_request \<Rightarrow> data_block \<Rightarrow> StreamAnomaly \<Rightarrow> client \<times> 'w \<Rightarrow> ('w, StreamItem) client_result" where
  "process_anomaly request b a s =
     (case firmware_evidence request (an_kind a) (an_source a) (an_firmware_evidence a) s of
        (s1, Inl e) \<Rightarrow> (s1, Inl e)
      | ((c1, w1), Inr evidence) \<Rightarrow>
          (case StreamAnomaly_post_init (a\<lparr>an_firmware_evidence := Some evidence\<rparr>) of
             Inl _ \<Rightarrow> ((c1, w1), Inl ClientValueError)
           | Inr anomaly \<Rightarrow>
               (let c2 = c1\<lparr>tk_observed_stream_anomalies := tk_observed_stream_anomalies c1 + an_occurrences anomaly,
                      tk_protocol_telemetry_errors := tk_protocol_telemetry_errors c1 + an_occurrences anomaly,
                      tk_telemetry_error_messages := insert (anomaly_message anomaly) (tk_telemetry_error_messages c1)\<rparr>;
                    c3 = (if retained anomaly then advance_expectation (block_kind b) b c2 else c2) in
                if tk_strict c3 then ((c3, w1), Inl (AnomalyRaised anomaly (Some b)))
                else ((if retained anomaly then c3\<lparr>tk_pending_items := tk_pending_items c3 @ [BlockItem b]\<rparr> else c3, w1), Inr (AnomalyReport anomaly)))))"

fun with_gap :: "StreamGap \<Rightarrow> data_block \<Rightarrow> block_error + data_block" where
  "with_gap gap (AsADC b) = map_sum id AsADC (ADCBlock_post_init (b\<lparr>ab_gap := Some gap\<rparr>))"
| "with_gap gap (AsGPIO b) = Inr (AsGPIO b)"

definition process_gap :: "'w v3_request \<Rightarrow> data_block \<Rightarrow> StreamGap \<Rightarrow> client \<times> 'w \<Rightarrow> ('w, StreamItem) client_result" where
  "process_gap request b g s = (case s of (c, w) \<Rightarrow> let kind = block_kind b in
     case (tk_inferred_missing_frames c kind, tk_inferred_missing_items c kind) of
       (Some frames, Some items) \<Rightarrow>
         (case firmware_evidence request (gp_kind g) (gp_source g) (gp_firmware_evidence g)
             (c\<lparr>tk_inferred_missing_frames := (tk_inferred_missing_frames c)(kind \<mapsto> frames + gp_missing_frames g),
                tk_inferred_missing_items := (tk_inferred_missing_items c)(kind \<mapsto> items + gp_missing_items g)\<rparr>, w) of
            (s1, Inl e) \<Rightarrow> (s1, Inl e)
          | ((c1, w1), Inr evidence) \<Rightarrow>
              (case StreamGap_post_init (g\<lparr>gp_firmware_evidence := Some evidence\<rparr>) of
                 Inl _ \<Rightarrow> ((c1, w1), Inl ClientValueError)
               | Inr gap \<Rightarrow> let c2 = advance_expectation kind b c1 in
                 (case with_gap gap b of
                    Inl _ \<Rightarrow> ((c2, w1), Inl ClientValueError)
                  | Inr block \<Rightarrow>
                      let c3 = c2\<lparr>tk_observed_stream_gaps := tk_observed_stream_gaps c2 + 1\<rparr>;
                          c4 = (if evidence_consistent evidence then c3
                            else c3\<lparr>tk_protocol_telemetry_errors := tk_protocol_telemetry_errors c3 + 1,
                              tk_telemetry_error_messages := tk_telemetry_error_messages c3 \<union> set (ev_errors evidence)\<rparr>) in
                      if tk_strict c4 then ((c4, w1), Inl (GapRaised gap block))
                      else ((c4\<lparr>tk_pending_items := tk_pending_items c4 @ [BlockItem block]\<rparr>, w1), Inr (GapReport gap)))))
     | _ \<Rightarrow> (s, Inl ClientKeyError))"

definition process_block :: "'w v3_request \<Rightarrow> int \<Rightarrow> data_block \<Rightarrow> client \<times> 'w \<Rightarrow> ('w, StreamItem) client_result" where
  "process_block request corruption b s = (case s of (c, w) \<Rightarrow>
     let kind = block_kind b;
         clean = (\<lambda>c1. ((c1, w), map_sum id (\<lambda>_. BlockItem b) (validate_clean_block corruption b c1))) in
     case tk_expected_sequence c kind of
       None \<Rightarrow> (s, Inl ClientUnexpectedMessage)
     | Some expected_sequence \<Rightarrow>
       (case tk_configuration c of
          None \<Rightarrow> (s, Inl ClientUnexpectedMessage)
        | Some configuration \<Rightarrow>
            if block_source b \<noteq> dc_source configuration then (s, Inl ClientUnexpectedMessage)
            else if kind \<in> tk_unanchored_streams c
            then clean (advance_expectation kind b (c\<lparr>tk_unanchored_streams := tk_unanchored_streams c - {kind}\<rparr>))
            else (case tk_expected_ticks c kind of
              None \<Rightarrow> (s, Inl ClientKeyError)
            | Some expected_ticks \<Rightarrow>
                (case analyze_stream_continuity b expected_sequence expected_ticks (tk_run_id c) (tk_previous_sequence c kind) of
                   Inl _ \<Rightarrow> (s, Inl ClientValueError)
                 | Inr Continuous \<Rightarrow> clean (advance_expectation kind b c)
                 | Inr (Anomaly a) \<Rightarrow> process_anomaly request b a s
                 | Inr (Gap g) \<Rightarrow> process_gap request b g s))))"

definition advance_past_loss :: "HostQueueLoss \<Rightarrow> client \<Rightarrow> client" where
  "advance_past_loss l c = c\<lparr>tk_previous_sequence := (tk_previous_sequence c)(hq_kind l \<mapsto> hq_last_sequence l),
     tk_expected_sequence := (tk_expected_sequence c)(hq_kind l \<mapsto> (hq_last_sequence l + 1) AND UINT32_MAX),
     tk_expected_ticks := (tk_expected_ticks c)(hq_kind l \<mapsto> hq_end_sample_ticks l)\<rparr>"

definition loss_range_valid :: "HostQueueLoss \<Rightarrow> client \<Rightarrow> bool" where
  "loss_range_valid l c \<longleftrightarrow> (case tk_configuration c of None \<Rightarrow> False | Some configuration \<Rightarrow>
     tk_expected_sequence c (hq_kind l) \<noteq> None \<and> hq_run_id l = tk_run_id c \<and> hq_source l = dc_source configuration \<and> hq_contiguous l \<and>
     tk_expected_sequence c (hq_kind l) = Some (hq_first_sequence l) \<and> tk_expected_ticks c (hq_kind l) = Some (hq_first_sample_ticks l))"

definition process_host_queue_loss :: "HostQueueLoss \<Rightarrow> client \<Rightarrow> client \<times> (client_error + StreamItem)" where
  "process_host_queue_loss l c =
     (if \<not> loss_range_valid l c then
        (case StreamAnomaly_post_init \<lparr>an_reason = HOST_QUEUE_RANGE_INCONSISTENT, an_kind = hq_kind l, an_source = hq_source l,
            an_active_run_id = tk_run_id c, an_observed_run_id = hq_run_id l, an_observed_sequence = hq_first_sequence l,
            an_observed_first_sample_ticks = hq_first_sample_ticks l, an_expected_sequence = tk_expected_sequence c (hq_kind l),
            an_expected_first_sample_ticks = tk_expected_ticks c (hq_kind l), an_sequence_inferred_items = None,
            an_timestamp_inferred_items = None, an_firmware_evidence = None, an_occurrences = 1\<rparr> of
           Inl _ \<Rightarrow> (c, Inl ClientValueError)
         | Inr anomaly \<Rightarrow>
             (let c1 = c\<lparr>tk_observed_stream_anomalies := tk_observed_stream_anomalies c + 1,
                    tk_protocol_telemetry_errors := tk_protocol_telemetry_errors c + 1,
                    tk_telemetry_error_messages := insert (kind_name (hq_kind l) @
                      '' host queue range is inconsistent with the application continuity baseline'') (tk_telemetry_error_messages c),
                    tk_observed_host_queue_losses := tk_observed_host_queue_losses c + 1\<rparr>;
                  c2 = (if tk_expected_sequence c1 (hq_kind l) \<noteq> None \<and> hq_run_id l = tk_run_id c1 then advance_past_loss l c1 else c1) in
              if tk_strict c2 then (c2, Inl (AnomalyRaised anomaly None))
              else (c2\<lparr>tk_pending_items := tk_pending_items c2 @ [QueueLossReport l]\<rparr>, Inr (AnomalyReport anomaly))))
      else
        let c1 = advance_past_loss l c; c2 = c1\<lparr>tk_observed_host_queue_losses := tk_observed_host_queue_losses c1 + 1\<rparr> in
        if tk_strict c2 then (c2, Inl (LossRaised l)) else (c2, Inr (QueueLossReport l)))"

definition process_reader_anomaly :: "StreamAnomaly \<Rightarrow> client \<Rightarrow> client \<times> (client_error + StreamItem)" where
  "process_reader_anomaly anomaly c =
     (let c1 = c\<lparr>tk_observed_stream_anomalies := tk_observed_stream_anomalies c + an_occurrences anomaly,
            tk_protocol_telemetry_errors := tk_protocol_telemetry_errors c + an_occurrences anomaly,
            tk_telemetry_error_messages := insert (anomaly_message anomaly) (tk_telemetry_error_messages c)\<rparr> in
      if tk_strict c1 then (c1, Inl (AnomalyRaised anomaly None)) else (c1, Inr (AnomalyReport anomaly)))"

text \<open>
  \<^verbatim>\<open>read_block\<close> in its two critical sections: a deferred item is returned at once, otherwise the item the reader delivers is processed.
  \<open>active_run_id\<close> is the reader's.
\<close>

definition read_deferred :: "int \<Rightarrow> client \<Rightarrow> client \<times> (client_error + StreamItem option)" where
  "read_deferred active_run_id c =
     (if tk_closed c then (c, Inl DAQClosedError)
      else if tk_state c \<noteq> Some V1_RUNNING then (c, Inl DAQStateError)
      else if active_run_id \<noteq> tk_run_id c then (c, Inl ClientUnexpectedMessage)
      else case tk_pending_items c of [] \<Rightarrow> (c, Inr None) | item # items \<Rightarrow> (c\<lparr>tk_pending_items := items\<rparr>, Inr (Some item)))"

definition read_item :: "'w v3_request \<Rightarrow> int \<Rightarrow> reader_error + ReaderStreamItem \<Rightarrow> client \<times> 'w \<Rightarrow> ('w, StreamItem) client_result" where
  "read_item request corruption item s = (case item of
       Inl e \<Rightarrow> (s, Inl (if e = QueueWaitTimeoutError then BlockTimeoutError
         else if e = StreamStoppedError then ClientUnexpectedMessage else ClientReaderError e))
     | Inr x \<Rightarrow>
         if tk_closed (fst s) then (s, Inl DAQClosedError)
         else (case x of
           ReportItem (HostLossReport l) \<Rightarrow> (case process_host_queue_loss l (fst s) of (c, r) \<Rightarrow> ((c, snd s), r))
         | ReportItem (StaleReport a) \<Rightarrow> (case process_reader_anomaly a (fst s) of (c, r) \<Rightarrow> ((c, snd s), r))
         | DataItem b \<Rightarrow> process_block request corruption b s))"

section \<open>Reconciliation with the device\<close>

text \<open>\<^verbatim>\<open>_counter_reconciliation_errors\<close>; the dictionary has its entries in the order ADC, GPIO.\<close>

definition counter_reconciliation_errors :: "FirmwareCounters \<Rightarrow> client \<Rightarrow> client \<times> string list" where
  "counter_reconciliation_errors firmware c =
     (case observe_loss_stats_generation (fc_stats_generation firmware) c of (c1, generation_error) \<Rightarrow>
        (c1, (case generation_error of None \<Rightarrow> [] | Some m \<Rightarrow> [m]) @
          concat (map (\<lambda>kind. case tk_inferred_missing_items c1 kind of
               None \<Rightarrow> []
             | Some items \<Rightarrow>
                 (let inferred = (the (tk_inferred_missing_frames c1 kind), items, items * stream_item_bytes kind c1) in
                  if dropped_of kind firmware \<noteq> inferred then [disagreement_message kind inferred (dropped_of kind firmware)] else []))
            [FK_ADC_DATA, FK_GPIO_DATA])))"

definition host_delta :: "HostCounters \<Rightarrow> HostCounters \<Rightarrow> client_error + HostCounters" where
  "host_delta current baseline =
     (let d = (\<lambda>f. f current - f baseline) in
      if list_all (\<lambda>f. f baseline \<le> f current) [hc_parser_corruption_events, hc_parser_resynchronizations, hc_host_block_queue_drops,
        hc_host_event_queue_drops, hc_stale_blocks_discarded, hc_boundary_blocks_discarded, hc_late_responses, hc_request_timeouts,
        hc_protocol_failures, hc_disconnects, hc_adc_block_queue_drops, hc_gpio_block_queue_drops, hc_adc_item_queue_drops,
        hc_gpio_item_queue_drops, hc_loss_report_queue_drops]
      then Inr \<lparr>hc_parser_corruption_events = d hc_parser_corruption_events, hc_parser_resynchronizations = d hc_parser_resynchronizations,
        hc_host_block_queue_drops = d hc_host_block_queue_drops, hc_host_event_queue_drops = d hc_host_event_queue_drops,
        hc_stale_blocks_discarded = d hc_stale_blocks_discarded, hc_boundary_blocks_discarded = d hc_boundary_blocks_discarded,
        hc_late_responses = d hc_late_responses, hc_request_timeouts = d hc_request_timeouts,
        hc_protocol_failures = d hc_protocol_failures, hc_disconnects = d hc_disconnects,
        hc_adc_block_queue_drops = d hc_adc_block_queue_drops, hc_gpio_block_queue_drops = d hc_gpio_block_queue_drops,
        hc_adc_item_queue_drops = d hc_adc_item_queue_drops, hc_gpio_item_queue_drops = d hc_gpio_item_queue_drops,
        hc_loss_report_queue_drops = d hc_loss_report_queue_drops\<rparr>
      else Inl (ClientReaderError ReaderProtocolError))"

definition no_firmware_counters :: FirmwareCounters where
  "no_firmware_counters = \<lparr>fc_stats_generation = 1, fc_adc_frames_dropped = 0, fc_adc_items_dropped = 0, fc_adc_payload_bytes_dropped = 0,
     fc_gpio_frames_dropped = 0, fc_gpio_items_dropped = 0, fc_gpio_payload_bytes_dropped = 0\<rparr>"

definition report_losses :: "HostCounters \<Rightarrow> FirmwareCounters option \<Rightarrow> client \<Rightarrow> client \<times> (client_error + LossCounters)" where
  "report_losses current observed c =
     (case (case observed of None \<Rightarrow> (c, []) | Some firmware \<Rightarrow> counter_reconciliation_errors firmware c) of (c1, errors) \<Rightarrow>
        let new_errors = filter (\<lambda>e. e \<notin> tk_telemetry_error_messages c1) errors;
            c2 = c1\<lparr>tk_telemetry_error_messages := tk_telemetry_error_messages c1 \<union> set new_errors,
              tk_protocol_telemetry_errors := tk_protocol_telemetry_errors c1 + int (length new_errors)\<rparr> in
        if tk_strict c2 \<and> errors \<noteq> [] then (c2, Inl (ValidationRaised ''protocol_telemetry''))
        else (c2, bind_res (host_delta current (tk_host_loss_baseline c2)) (\<lambda>host.
          Inr \<lparr>lc_firmware = (case observed of None \<Rightarrow> no_firmware_counters | Some f \<Rightarrow> f), lc_host = host,
            lc_observed_stream_gaps = tk_observed_stream_gaps c2, lc_observed_host_queue_losses = tk_observed_host_queue_losses c2,
            lc_observed_stream_anomalies = tk_observed_stream_anomalies c2, lc_protocol_telemetry_errors = tk_protocol_telemetry_errors c2,
            lc_telemetry_errors = tk_telemetry_error_messages c2\<rparr>)))"

definition loss_counters :: "'w v3_request \<Rightarrow> bool \<Rightarrow> HostCounters \<Rightarrow> client \<times> 'w \<Rightarrow> ('w, LossCounters) client_result" where
  "loss_counters request refresh current s =
     (let counted = (\<lambda>status (c, w). case v3_counters c status of
            Inl e \<Rightarrow> ((c, w), Inl e)
          | Inr firmware \<Rightarrow> (case report_losses current (Some firmware) c of (c1, r) \<Rightarrow> ((c1, w), r))) in
      if refresh then (case client_status request s of (s1, Inl e) \<Rightarrow> (s1, Inl e) | (s1, Inr status) \<Rightarrow> counted status s1)
      else (case ses_last_status (tk_session (fst s)) of
          Some status \<Rightarrow> counted status s
        | None \<Rightarrow> (case report_losses current None (fst s) of (c1, r) \<Rightarrow> ((c1, snd s), r))))"

text \<open>The nonzero fields of \<^verbatim>\<open>_FAULT_FIELDS\<close> and of the codec counters that a version-3 status has, in the order of the table.\<close>

record FirmwareFault =
  ff_counter :: string
  ff_value :: int
  ff_unit :: string
  ff_category :: string

definition diagnostic :: "V3Status \<Rightarrow> nat \<Rightarrow> int option" where
  "diagnostic status i = (if i < length (ss_diagnostics status) then ss_diagnostics status ! i else None)"

definition fault_fields :: "V3Status \<Rightarrow> (string \<times> string \<times> string \<times> int option) list" where
  "fault_fields status =
     [(''adc_items_dropped'', ''ADC pairs'', ''loss'', Some (ss_adc_items_dropped status)),
      (''gpio_items_dropped'', ''GPIO sample instants'', ''loss'', Some (ss_gpio_items_dropped status)),
      (''adc_frames_dropped'', ''ADC frames'', ''loss'', Some (ss_adc_frames_dropped status)),
      (''gpio_frames_dropped'', ''GPIO frames'', ''loss'', Some (ss_gpio_frames_dropped status)),
      (''adc_etc_error_events'', ''events'', ''adc'', diagnostic status 31), (''adc_dma_error_events'', ''events'', ''dma'', diagnostic status 30),
      (''adc_raw_invariant_errors'', ''events'', ''ownership'', diagnostic status 33), (''gpio_hardware_errors'', ''events'', ''dma'', diagnostic status 32),
      (''gpio_raw_invariant_errors'', ''events'', ''ownership'', diagnostic status 34),
      (''packet_invalid_operations'', ''events'', ''packet'', diagnostic status 35), (''packet_encoding_rejections'', ''frames'', ''packet'', diagnostic status 36),
      (''parser_errors'', ''candidates'', ''parser'', diagnostic status 26), (''transport_errors'', ''events'', ''usb'', diagnostic status 27),
      (''adc_codec_deadline_drops'', ''frames'', ''codec'', diagnostic status 2), (''adc_codec_resource_drops'', ''frames'', ''codec'', diagnostic status 3),
      (''gpio_codec_deadline_drops'', ''frames'', ''codec'', diagnostic status 9), (''gpio_codec_resource_drops'', ''frames'', ''codec'', diagnostic status 10)]"

definition snapshot_firmware_faults :: "V3Status \<Rightarrow> FirmwareFault list" where
  "snapshot_firmware_faults status = concat (map (\<lambda>(counter, unit, category, observed). case observed of
       None \<Rightarrow> []
     | Some v \<Rightarrow> if v = 0 then [] else [\<lparr>ff_counter = counter, ff_value = v, ff_unit = unit, ff_category = category\<rparr>]) (fault_fields status))"

text \<open>\<^verbatim>\<open>validate_stream_health\<close>; \<open>reader\<close> and \<open>corruption\<close> are the counters of reader and parser at the time of the call.\<close>

definition health_categories :: "ReaderCounters \<Rightarrow> int \<Rightarrow> V3Status \<Rightarrow> client \<Rightarrow> (string \<times> int) list" where
  "health_categories reader corruption status c =
     [(''parser_errors'', corruption - tk_stream_parser_error_baseline c),
      (''host_queue_drops'', rc_host_block_queue_drops reader - tk_stream_host_drop_baseline c),
      (''loss_report_queue_drops'', rc_loss_report_queue_drops reader - tk_stream_loss_report_drop_baseline c),
      (''protocol_telemetry'', tk_protocol_telemetry_errors c), (''firmware_drops'', ss_adc_items_dropped status + ss_gpio_items_dropped status)]"

definition check_health :: "ReaderCounters \<Rightarrow> int \<Rightarrow> V3Status \<Rightarrow> client \<Rightarrow> client \<times> (client_error + V3Status)" where
  "check_health reader corruption status c = (case v3_counters c status of
       Inl e \<Rightarrow> (c, Inl e)
     | Inr firmware \<Rightarrow> (case counter_reconciliation_errors firmware c of (c1, errors) \<Rightarrow>
         (c1, if errors \<noteq> [] then Inl (ValidationRaised ''protocol_telemetry'')
           else (case filter (\<lambda>(_, n). n \<noteq> 0) (health_categories reader corruption status c1) of
             (category, _) # _ \<Rightarrow> Inl (ValidationRaised category)
           | [] \<Rightarrow> (case snapshot_firmware_faults status of
               fault # _ \<Rightarrow> Inl (ValidationRaised (ff_counter fault))
             | [] \<Rightarrow> Inr status)))))"

definition validate_stream_health :: "'w v3_request \<Rightarrow> ReaderCounters \<Rightarrow> int \<Rightarrow> V3Status option \<Rightarrow> client \<times> 'w \<Rightarrow> ('w, V3Status) client_result" where
  "validate_stream_health request reader corruption status s =
     (if tk_closed (fst s) then (s, Inl DAQClosedError)
      else case (case status of None \<Rightarrow> client_status request s | Some snapshot \<Rightarrow> (s, Inr snapshot)) of
        (s1, Inl e) \<Rightarrow> (s1, Inl e)
      | ((c1, w1), Inr snapshot) \<Rightarrow> (case check_health reader corruption snapshot c1 of (c2, r) \<Rightarrow> ((c2, w1), r)))"

section \<open>Runs\<close>

definition reset_loss_observations :: "HostCounters \<Rightarrow> client \<Rightarrow> client" where
  "reset_loss_observations host c = c\<lparr>tk_observed_stream_gaps := 0, tk_observed_host_queue_losses := 0, tk_observed_stream_anomalies := 0,
     tk_protocol_telemetry_errors := 0, tk_telemetry_error_messages := {}, tk_host_loss_baseline := host,
     tk_stream_host_drop_baseline := hc_host_block_queue_drops host, tk_stream_loss_report_drop_baseline := hc_loss_report_queue_drops host\<rparr>"

definition v3_stream_configuration :: "V3Settings \<Rightarrow> block_error + DAQConfiguration" where
  "v3_stream_configuration s = DAQConfiguration_post_init
     \<lparr>dc_stream_mask = st_stream_mask s, dc_source = st_source s, dc_data_checksum_algorithm = ADLER32, dc_data_frame_bytes = 4096,
      dc_aux_bank_mode = (if st_stream_mask s AND STREAM_GPIO \<noteq> 0 then st_aux_bank_mode s else AUX_DISABLED),
      dc_rate_profile = v2_rate_profile (st_rate_profile s)\<rparr>"

definition client_configure :: "'w v3_request \<Rightarrow> V3Settings option \<Rightarrow> v3_selection \<Rightarrow> client \<times> 'w \<Rightarrow> ('w, V3AppliedSettings) client_result" where
  "client_configure request configuration options s = (case s of (c, w) \<Rightarrow>
     if tk_closed c then (s, Inl DAQClosedError)
     else case ses_capabilities (tk_session c) of
       None \<Rightarrow> (s, Inl ClientAssertionError)
     | Some capabilities \<Rightarrow>
         if configuration \<noteq> None \<and> options \<noteq> no_selection then (s, Inl ClientValueError)
         else case (case configuration of Some settings \<Rightarrow> Inr settings | None \<Rightarrow> select_settings capabilities options) of
           Inl _ \<Rightarrow> (s, Inl DeviceCapabilityError)
         | Inr settings \<Rightarrow> (case session_configure request settings (tk_session c, w) of
             ((ses, w1), Inl e) \<Rightarrow> ((c\<lparr>tk_session := ses\<rparr>, w1), Inl (ClientSessionError e))
           | ((ses, w1), Inr applied) \<Rightarrow>
               ((c\<lparr>tk_session := ses, tk_state := Some V1_CONFIGURED, tk_run_id := ses_run_id ses\<rparr>, w1), Inr applied)))"

text \<open>\<open>host\<close> and \<open>corruption\<close> are read before START; the second snapshot of the host counters is overwritten by the first.\<close>

definition client_start :: "'w v3_request \<Rightarrow> HostCounters \<Rightarrow> int \<Rightarrow> client \<times> 'w \<Rightarrow> ('w, int) client_result" where
  "client_start request host corruption s = (case s of (c, w) \<Rightarrow>
     if tk_closed c then (s, Inl DAQClosedError)
     else case session_start request (tk_session c, w) of ((ses, w1), r) \<Rightarrow>
       let c1 = c\<lparr>tk_session := ses, tk_run_id := (case r of Inr run \<Rightarrow> run | Inl _ \<Rightarrow> tk_run_id c),
             tk_state := (if ses_state ses = DS_RUNNING then Some V1_RUNNING else tk_state c)\<rparr> in
       case r of
         Inl e \<Rightarrow> ((c1, w1), Inl (ClientSessionError e))
       | Inr run \<Rightarrow> (case ses_applied ses of
           None \<Rightarrow> ((c1, w1), Inl ClientAssertionError)
         | Some applied \<Rightarrow> (case v3_stream_configuration (ap_settings applied) of
             Inl _ \<Rightarrow> ((c1, w1), Inl ClientValueError)
           | Inr configuration \<Rightarrow>
               (((reset_loss_observations host (initialize_stream_expectations configuration True
                    (c1\<lparr>tk_configuration := Some configuration, tk_pending_items := []\<rparr>)))
                 \<lparr>tk_loss_stats_generation := None, tk_stream_parser_error_baseline := corruption\<rparr>, w1), Inr run))))"

definition client_stop :: "'w v3_request \<Rightarrow> ('w \<Rightarrow> 'w) \<Rightarrow> (int \<times> int) list \<Rightarrow> client \<times> 'w \<Rightarrow> ('w, DeviceState) client_result" where
  "client_stop request pause remaining s = (case s of (c, w) \<Rightarrow>
     if tk_closed c then (s, Inl DAQClosedError)
     else case session_stop request pause remaining (tk_session c, w) of
       ((ses, w1), Inl e) \<Rightarrow> ((c\<lparr>tk_session := ses\<rparr>, w1), Inl (ClientSessionError e))
     | ((ses, w1), Inr state) \<Rightarrow>
         (((clear_stream_expectations True (c\<lparr>tk_session := ses, tk_state := Some V1_CONFIGURED\<rparr>))\<lparr>tk_pending_items := []\<rparr>, w1), Inr state))"

text \<open>
  What \<^verbatim>\<open>synchronize\<close> does with a version-3 device once two INFO responses agree: it reads the session's records and, when the device
  is not stopped, either stops it or attaches to the run that is going on. \<open>activate\<close> is the reader's \<^verbatim>\<open>activate_v3_run\<close>.
\<close>

datatype SessionRecoveryPolicy = PolicyAdopt | PolicyStop

definition client_attach :: "'w v3_request \<Rightarrow> ('w \<Rightarrow> 'w) \<Rightarrow> (int \<times> int) list \<Rightarrow> (int \<Rightarrow> V3Settings \<Rightarrow> 'w \<Rightarrow> 'w) \<Rightarrow> HostCounters \<Rightarrow>
    SessionRecoveryPolicy \<Rightarrow> client \<times> 'w \<Rightarrow> ('w, unit) client_result" where
  "client_attach request pause remaining activate host policy s = (case s of (c, w) \<Rightarrow>
     case session_open request (tk_session c, w) of
       ((ses, w1), Inl e) \<Rightarrow> ((c\<lparr>tk_session := ses\<rparr>, w1), Inl (ClientSessionError e))
     | ((ses, w1), Inr snapshot) \<Rightarrow>
         (let run = sp_run_id (ss_stop snapshot); state = sp_state (ss_stop snapshot);
              c1 = c\<lparr>tk_session := ses, tk_run_id := run, tk_state := Some V1_CONFIGURED\<rparr> in
          if state = DS_STOPPED then ((c1, w1), Inr ())
          else if policy = PolicyStop then (case client_stop request pause remaining (c1, w1) of (s2, r) \<Rightarrow> (s2, map_sum id (\<lambda>_. ()) r))
          else if state \<noteq> DS_RUNNING then ((c1, w1), Inr ())
          else case ses_applied ses of
            None \<Rightarrow> ((c1, w1), Inl ClientAssertionError)
          | Some applied \<Rightarrow>
              let w2 = activate run (ap_settings applied) w1 in
              case v3_stream_configuration (ap_settings applied) of
                Inl _ \<Rightarrow> ((c1, w2), Inl ClientValueError)
              | Inr configuration \<Rightarrow>
                  (((reset_loss_observations host (initialize_stream_expectations configuration False (c1\<lparr>tk_configuration := Some configuration\<rparr>)))
                      \<lparr>tk_state := Some V1_RUNNING\<rparr>, w2), Inr ())))"

text \<open>\<^verbatim>\<open>close\<close>; \<open>reader_running\<close> and \<open>reader_fails\<close> are what the reader reports before and during its own close.\<close>

definition client_close :: "'w v3_request \<Rightarrow> ('w \<Rightarrow> 'w) \<Rightarrow> (int \<times> int) list \<Rightarrow> bool \<Rightarrow> bool \<Rightarrow> bool \<Rightarrow> client \<times> 'w \<Rightarrow> ('w, unit) client_result" where
  "client_close request pause remaining stop reader_running reader_fails s =
     (if tk_closed (fst s) then (s, Inr ())
      else case (if stop \<and> reader_running \<and> tk_state (fst s) \<in> {Some V1_CONFIGURED, Some V1_RUNNING}
          then (case client_stop request pause remaining s of (s1, Inl e) \<Rightarrow> (s1, True) | (s1, Inr _) \<Rightarrow> (s1, False))
          else (s, False)) of
        ((c1, w1), stop_failed) \<Rightarrow>
          (((clear_stream_expectations False (c1\<lparr>tk_closed := True, tk_pending_items := []\<rparr>), w1)),
           if stop_failed \<or> reader_fails then Inl DAQShutdownError else Inr ()))"

end
