(* ===== verification/Client_Account.thy ===== *)
theory Client_Account
  imports Client_Stream Session_Link
begin

text \<open>
  What the application of the facade can rely on: the items it has been given account for the position in every
  stream, and the loss counters of the device are compared with exactly the gaps that were reported.
\<close>

section \<open>The account of an item\<close>

fun covered_frames :: "FrameKind \<Rightarrow> StreamItem \<Rightarrow> int" where
  "covered_frames kind (BlockItem b) = of_bool (block_kind b = kind)"
| "covered_frames kind (GapReport g) = (if gp_kind g = kind then gp_missing_frames g else 0)"
| "covered_frames kind (QueueLossReport l) = (if hq_kind l = kind then hq_dropped_blocks l else 0)"
| "covered_frames kind (AnomalyReport a) = 0"

fun covered_items :: "FrameKind \<Rightarrow> StreamItem \<Rightarrow> int" where
  "covered_items kind (BlockItem b) = (if block_kind b = kind then block_item_count b else 0)"
| "covered_items kind (GapReport g) = (if gp_kind g = kind then gp_missing_items g else 0)"
| "covered_items kind (QueueLossReport l) = (if hq_kind l = kind then hq_dropped_items l else 0)"
| "covered_items kind (AnomalyReport a) = 0"

fun missed_frames :: "FrameKind \<Rightarrow> StreamItem \<Rightarrow> int" where
  "missed_frames kind (GapReport g) = (if gp_kind g = kind then gp_missing_frames g else 0)"
| "missed_frames kind _ = 0"

fun missed_items :: "FrameKind \<Rightarrow> StreamItem \<Rightarrow> int" where
  "missed_items kind (GapReport g) = (if gp_kind g = kind then gp_missing_items g else 0)"
| "missed_items kind _ = 0"

definition total_of :: "(StreamItem \<Rightarrow> int) \<Rightarrow> StreamItem list \<Rightarrow> int" where
  "total_of f xs = sum_list (map f xs)"

lemma total_of_simps [simp]: "total_of f [] = 0" "total_of f (x # xs) = f x + total_of f xs" "total_of f (xs @ ys) = total_of f xs + total_of f ys"
  by (simp_all add: total_of_def)

definition positioned :: "client \<Rightarrow> StreamItem list \<Rightarrow> FrameKind \<Rightarrow> bool" where
  "positioned c xs kind \<longleftrightarrow> (case tk_expected_sequence c kind of
     None \<Rightarrow> tk_inferred_missing_frames c kind = None \<and> tk_inferred_missing_items c kind = None \<and>
       total_of (covered_frames kind) xs = 0 \<and> total_of (missed_items kind) xs = 0
   | Some es \<Rightarrow> es = total_of (covered_frames kind) xs mod 2 ^ 32 \<and>
       tk_expected_ticks c kind = Some (total_of (covered_items kind) xs * 8 mod 2 ^ 64) \<and>
       tk_inferred_missing_frames c kind = Some (total_of (missed_frames kind) xs) \<and>
       tk_inferred_missing_items c kind = Some (total_of (missed_items kind) xs) \<and>
       (case tk_previous_sequence c kind of None \<Rightarrow> True | Some p \<Rightarrow> 0 \<le> p \<and> p < 2 ^ 32 \<and> es = (p + 1) mod 2 ^ 32))"

text \<open>A block is where the items before it end.\<close>

definition located :: "StreamItem list \<Rightarrow> data_block \<Rightarrow> bool" where
  "located ys b \<longleftrightarrow> block_sequence b = total_of (covered_frames (block_kind b)) ys mod 2 ^ 32 \<and>
     block_ticks b = total_of (covered_items (block_kind b)) ys * 8 mod 2 ^ 64"

definition placed :: "StreamItem list \<Rightarrow> bool" where
  "placed xs \<longleftrightarrow> (\<forall>ys b zs. xs = ys @ BlockItem b # zs \<longrightarrow> located ys b)"

lemma placed_Nil [simp]: "placed []"
  by (simp add: placed_def)

lemma placed_snoc: "placed (xs @ [x]) \<longleftrightarrow> placed xs \<and> (\<forall>b. x = BlockItem b \<longrightarrow> located xs b)"
proof
  assume p: "placed (xs @ [x])"
  have "located ys b" if "xs = ys @ BlockItem b # zs" for ys b zs
    using p [unfolded placed_def, rule_format, of ys b "zs @ [x]"] that by simp
  moreover have "located xs b" if "x = BlockItem b" for b
    using p [unfolded placed_def, rule_format, of xs b "[]"] that by simp
  ultimately show "placed xs \<and> (\<forall>b. x = BlockItem b \<longrightarrow> located xs b)" by (auto simp: placed_def)
next
  assume p: "placed xs \<and> (\<forall>b. x = BlockItem b \<longrightarrow> located xs b)"
  have "located ys b" if s: "xs @ [x] = ys @ BlockItem b # zs" for ys b zs
  proof (cases zs rule: rev_cases)
    case Nil
    then show ?thesis using s p by simp
  next
    case (snoc zs' z)
    then have "xs = ys @ BlockItem b # zs'" using s by simp
    then show ?thesis using p by (simp add: placed_def)
  qed
  then show "placed (xs @ [x])" by (auto simp: placed_def)
qed

definition tracked :: "client \<Rightarrow> StreamItem list \<Rightarrow> bool" where
  "tracked c xs \<longleftrightarrow> tk_unanchored_streams c = {} \<and> (\<forall>kind. positioned c xs kind) \<and> placed xs"

text \<open>What an exchange with the device leaves alone.\<close>

definition track_view :: "client \<Rightarrow> _" where
  "track_view c = (tk_strict c, tk_pending_items c, tk_expected_sequence c, tk_expected_ticks c, tk_previous_sequence c, tk_unanchored_streams c,
     tk_inferred_missing_frames c, tk_inferred_missing_items c, tk_observed_stream_anomalies c, tk_configuration c)"

definition baselines :: "client \<Rightarrow> int \<times> int \<times> int" where
  "baselines c = (tk_stream_parser_error_baseline c, tk_stream_host_drop_baseline c, tk_stream_loss_report_drop_baseline c)"

definition exchange_view :: "client \<Rightarrow> _" where
  "exchange_view c = (track_view c, tk_protocol_telemetry_errors c, baselines c)"

lemmas view_defs = track_view_def baselines_def exchange_view_def

lemma tracked_cong: "track_view c = track_view c' \<Longrightarrow> tracked c xs = tracked c' xs"
  by (simp add: track_view_def tracked_def positioned_def cong: option.case_cong)

lemma client_status_view: "client_status request (c, w) = ((c', w'), r) \<Longrightarrow> exchange_view c' = exchange_view c"
  by (auto simp: client_status_def view_defs split: if_splits prod.splits sum.splits)

lemma compared_evidence_view: "compared_evidence kind e counters c = (c', e') \<Longrightarrow> exchange_view c' = exchange_view c"
  by (auto simp: compared_evidence_def observe_loss_stats_generation_def view_defs Let_def split: option.splits prod.splits)

lemma firmware_evidence_exchange:
  assumes "firmware_evidence request kind source base (c, w) = ((c', w'), r)"
  shows "exchange_view c' = exchange_view c"
proof -
  obtain c1 w1 x where st: "client_status request (c, w) = ((c1, w1), x)" by (metis surj_pair)
  note v = client_status_view [OF st]
  show ?thesis
  proof (cases x)
    case (Inl e)
    then show ?thesis using assms v st by (auto simp: firmware_evidence_def Let_def split: if_splits)
  next
    case (Inr status)
    show ?thesis
    proof (cases "v3_counters c1 status")
      case (Inl e)
      then show ?thesis using assms v st Inr by (auto simp: firmware_evidence_def Let_def)
    next
      case f: (Inr f)
      show ?thesis using assms v st Inr f
        by (auto simp: firmware_evidence_def Let_def dest!: compared_evidence_view split: prod.splits)
    qed
  qed
qed

lemma firmware_evidence_view: "firmware_evidence request kind source base (c, w) = ((c', w'), r) \<Longrightarrow> track_view c' = track_view c"
  by (drule firmware_evidence_exchange) (simp add: exchange_view_def)

section \<open>Blocks\<close>

lemma v3_period:
  assumes "block_valid b" "block_protocol_version b = 3"
  shows "block_period_ticks b = 8"
  using block_valid_facts [OF assms(1), unfolded block_facts_def] assms(2) by (cases b) auto

lemma gap_post_init_keeps:
  "StreamGap_post_init g = Inr g' \<Longrightarrow> gp_kind g' = gp_kind g \<and> gp_missing_frames g' = gp_missing_frames g \<and> gp_missing_items g' = gp_missing_items g"
  by (auto simp: StreamGap_post_init_def Let_def require_eq_Inr check_unsigned_eq_Inr check_nonnegative_eq_Inr)

lemma anomaly_post_init_id: "StreamAnomaly_post_init a = Inr a' \<Longrightarrow> a' = a"
  by (auto simp: StreamAnomaly_post_init_def require_eq_Inr check_unsigned_eq_Inr)

lemma gap_kind: "gap_from_expected b es et drops = Inr (Some g) \<Longrightarrow> gp_kind g = block_kind b"
  by (auto simp: gap_from_expected_def Let_def require_eq_Inr check_unsigned_eq_Inr check_nonnegative_eq_Inr bind_res_eq_Inr map_sum_Inr_ex
      dest!: gap_post_init_keeps split: if_splits)

text \<open>What every result of a computation satisfies.\<close>

definition yields :: "('a \<Rightarrow> bool) \<Rightarrow> 'e + 'a \<Rightarrow> bool" where
  "yields Q m \<longleftrightarrow> (\<forall>x. m = Inr x \<longrightarrow> Q x)"

lemma yields_rules:
  "yields Q k \<Longrightarrow> yields Q (check_unsigned v n k)" "(\<And>x. m = Inr x \<Longrightarrow> yields Q (f x)) \<Longrightarrow> yields Q (bind_res m f)"
  "yields Q m1 \<Longrightarrow> yields Q m2 \<Longrightarrow> yields Q (if c then m1 else m2)" "Q x \<Longrightarrow> yields Q (Inr x)"
  by (auto simp: yields_def check_unsigned_eq_Inr bind_res_eq_Inr)

definition classified :: "data_block \<Rightarrow> int \<Rightarrow> int \<Rightarrow> continuity \<Rightarrow> bool" where
  "classified b es et r = (case r of Continuous \<Rightarrow> True | Gap g \<Rightarrow> gap_from_expected b es et 0 = Inr (Some g) | Anomaly a \<Rightarrow> an_occurrences a = 1)"

lemma anomaly_classified: "an_occurrences a = 1 \<Longrightarrow> yields (classified b es et) (map_sum id Anomaly (StreamAnomaly_post_init a))"
  by (auto simp: yields_def classified_def map_sum_Inr_ex dest!: anomaly_post_init_id)

lemma stale_classified: "yields (classified b es et) (map_sum id Anomaly (anomaly_stale_run b run))"
  by (auto simp: yields_def classified_def map_sum_Inr_ex anomaly_stale_run_def bind_res_eq_Inr dest!: anomaly_post_init_id)

lemma analyze_classified: "yields (classified b es et) (analyze_stream_continuity b es et run prev)"
  unfolding analyze_stream_continuity_def Let_def
  by (intro yields_rules anomaly_classified stale_classified) (auto simp: classified_def split: option.splits)

lemma analyze_gap_kind: "analyze_stream_continuity b es et run prev = Inr (Gap g) \<Longrightarrow> gp_kind g = block_kind b"
  using analyze_classified [of b es et run prev] by (auto simp: yields_def classified_def dest!: gap_kind)

lemma analyze_anomaly_once: "analyze_stream_continuity b es et run prev = Inr (Anomaly a) \<Longrightarrow> an_occurrences a = 1"
  using analyze_classified [of b es et run prev] by (auto simp: yields_def classified_def)

lemma analyze_run: "analyze_stream_continuity b es et run prev = Inr r \<Longrightarrow> \<forall>a. r \<noteq> Anomaly a \<Longrightarrow> block_run_id b = run"
  by (auto simp: analyze_stream_continuity_def Let_def check_unsigned_eq_Inr bind_res_eq_Inr map_sum_Inr_ex split: if_splits)

section \<open>A step of the account\<close>

text \<open>The position after an item that starts where the stream is expected to go on.\<close>

lemma tracked_advance:
  assumes t: "tracked c xs" and es: "tk_expected_sequence c kind = Some es"
    and v: "tk_unanchored_streams c' = {}" "tk_inferred_missing_frames c' = (tk_inferred_missing_frames c)(kind \<mapsto> total_of (missed_frames kind) (xs @ ys))"
      "tk_inferred_missing_items c' = (tk_inferred_missing_items c)(kind \<mapsto> total_of (missed_items kind) (xs @ ys))"
      "tk_previous_sequence c' = (tk_previous_sequence c)(kind \<mapsto> p)" "tk_expected_sequence c' = (tk_expected_sequence c)(kind \<mapsto> (p + 1) mod 2 ^ 32)"
      "tk_expected_ticks c' = (tk_expected_ticks c)(kind \<mapsto> ticks)"
    and other: "\<And>k. k \<noteq> kind \<Longrightarrow> total_of (covered_frames k) ys = 0 \<and> total_of (covered_items k) ys = 0 \<and> total_of (missed_frames k) ys = 0 \<and> total_of (missed_items k) ys = 0"
    and p: "0 \<le> p" "p < 2 ^ 32" "(p + 1) mod 2 ^ 32 = (es + total_of (covered_frames kind) ys) mod 2 ^ 32"
    and ticks: "ticks = (the (tk_expected_ticks c kind) + total_of (covered_items kind) ys * 8) mod 2 ^ 64"
    and placed: "placed (xs @ ys)"
  shows "tracked c' (xs @ ys)"
  unfolding tracked_def
proof (intro conjI allI)
  fix k
  have k: "positioned c xs k" "positioned c xs kind" using t by (simp_all add: tracked_def)
  show "positioned c' (xs @ ys) k"
  proof (cases "k = kind")
    case False
    then show ?thesis using k(1) v other [OF False] by (simp add: positioned_def cong: option.case_cong)
  next
    case True
    have e: "es = total_of (covered_frames kind) xs mod 2 ^ 32" "the (tk_expected_ticks c kind) = total_of (covered_items kind) xs * 8 mod 2 ^ 64"
      using k(2) es by (simp_all add: positioned_def)
    have "(p + 1) mod 2 ^ 32 = total_of (covered_frames kind) (xs @ ys) mod 2 ^ 32" using p(3) unfolding e(1) by (simp add: mod_simps)
    moreover have "ticks = total_of (covered_items kind) (xs @ ys) * 8 mod 2 ^ 64" using ticks unfolding e(2) by (simp add: mod_simps algebra_simps)
    ultimately show ?thesis using True v p(1,2) by (simp add: positioned_def)
  qed
qed (rule v(1), rule placed)

lemma inferred_same:
  assumes "tracked c xs" "tk_expected_sequence c kind = Some es" "total_of (missed_frames kind) ys = 0" "total_of (missed_items kind) ys = 0"
  shows "(tk_inferred_missing_frames c)(kind \<mapsto> total_of (missed_frames kind) (xs @ ys)) = tk_inferred_missing_frames c"
    "(tk_inferred_missing_items c)(kind \<mapsto> total_of (missed_items kind) (xs @ ys)) = tk_inferred_missing_items c"
proof -
  have "positioned c xs kind" using assms(1) by (simp add: tracked_def)
  then show "(tk_inferred_missing_frames c)(kind \<mapsto> total_of (missed_frames kind) (xs @ ys)) = tk_inferred_missing_frames c"
    "(tk_inferred_missing_items c)(kind \<mapsto> total_of (missed_items kind) (xs @ ys)) = tk_inferred_missing_items c"
    using assms(2-4) by (auto simp: positioned_def fun_upd_idem_iff)
qed

lemma loss_facts:
  assumes "HostQueueLoss_post_init l = Inr l" "hq_contiguous l" "hq_period_ticks l = Some 8"
  shows "0 \<le> hq_last_sequence l" "hq_last_sequence l < 2 ^ 32" "hq_last_sequence l = (hq_first_sequence l + hq_dropped_blocks l - 1) mod 2 ^ 32"
    "hq_end_sample_ticks l = (hq_first_sample_ticks l + hq_dropped_items l * 8) mod 2 ^ 64"
  using assms by (auto simp: HostQueueLoss_post_init_def Let_def require_eq_Inr check_unsigned_eq_Inr check_nonnegative_eq_Inr and_UINT_MAX)

lemma loss_step:
  assumes t: "tracked c xs" and l: "loss_range_valid l c" "HostQueueLoss_post_init l = Inr l" "hq_period_ticks l = Some 8"
  shows "tracked (advance_past_loss l c) (xs @ [QueueLossReport l])"
proof -
  have e: "tk_expected_sequence c (hq_kind l) = Some (hq_first_sequence l)" "tk_expected_ticks c (hq_kind l) = Some (hq_first_sample_ticks l)" "hq_contiguous l"
    using l(1) by (auto simp: loss_range_valid_def split: option.splits)
  note f = loss_facts [OF l(2) e(3) l(3)]
  have "tk_unanchored_streams c = {}" "placed (xs @ [QueueLossReport l])" using t by (simp_all add: tracked_def placed_snoc)
  moreover have "(hq_last_sequence l + 1) mod 2 ^ 32 = (hq_first_sequence l + hq_dropped_blocks l) mod 2 ^ 32"
    unfolding f(3) by (simp add: mod_simps)
  ultimately show ?thesis using e f inferred_same [OF t e(1), of "[QueueLossReport l]"]
    by (intro tracked_advance [OF t e(1), where p = "hq_last_sequence l" and ticks = "hq_end_sample_ticks l"])
      (simp_all add: advance_past_loss_def and_UINT_MAX)
qed

lemma end_ticks:
  assumes "block_valid b" "block_protocol_version b = 3"
  shows "block_end_tick_exclusive b = (block_ticks b + block_item_count b * 8) mod 2 ^ 64"
  by (simp add: block_end_tick_exclusive_def and_UINT_MAX v3_period [OF assms])

lemma clean_step:
  assumes t: "tracked c xs" and b: "block_valid b" "block_protocol_version b = 3"
    and e: "tk_expected_sequence c (block_kind b) = Some (block_sequence b)" "tk_expected_ticks c (block_kind b) = Some (block_ticks b)"
  shows "tracked (advance_expectation (block_kind b) b c) (xs @ [BlockItem b])"
proof -
  have "tk_unanchored_streams c = {}" "positioned c xs (block_kind b)" "placed xs" using t by (simp_all add: tracked_def)
  moreover from this have "placed (xs @ [BlockItem b])" using e by (simp add: placed_snoc located_def positioned_def)
  ultimately show ?thesis using e block_validD(3,4) [OF b(1)] end_ticks [OF b] inferred_same [OF t e(1), of "[BlockItem b]"]
    by (intro tracked_advance [OF t e(1), where p = "block_sequence b" and ticks = "block_end_tick_exclusive b"])
      (simp_all add: advance_expectation_def and_UINT_MAX)
qed

lemma with_gap_keeps: "with_gap gap b = Inr b' \<Longrightarrow> block_kind b' = block_kind b \<and> block_item_count b' = block_item_count b \<and>
    block_sequence b' = block_sequence b \<and> block_ticks b' = block_ticks b"
proof (cases b)
  case (AsADC a)
  assume "with_gap gap b = Inr b'"
  then obtain a' where a': "ADCBlock_post_init (a\<lparr>ab_gap := Some gap\<rparr>) = Inr a'" "b' = AsADC a'" using AsADC by (auto simp: map_sum_Inr_ex)
  have "ab_payload a' = ab_payload a" by (subst ADCBlock_post_init_eq_Inr(5) [OF a'(1)]) simp
  moreover have "ab_sequence a' = ab_sequence a" by (subst ADCBlock_post_init_eq_Inr(5) [OF a'(1)]) simp
  moreover have "ab_first_sample_ticks a' = ab_first_sample_ticks a" by (subst ADCBlock_post_init_eq_Inr(5) [OF a'(1)]) simp
  ultimately show ?thesis using AsADC a'(2) by (simp add: block_item_count_def)
qed simp

lemma gap_step:
  assumes t: "tracked c xs" and b: "block_valid b" "block_protocol_version b = 3"
    and e: "tk_expected_sequence c (block_kind b) = Some es" "tk_expected_ticks c (block_kind b) = Some et"
    and g: "block_sequence b = (es + gp_missing_frames g) mod 2 ^ 32" "block_ticks b = (et + gp_missing_items g * 8) mod 2 ^ 64" "gp_kind g = block_kind b"
    and inf: "tk_inferred_missing_frames c (block_kind b) = Some frames" "tk_inferred_missing_items c (block_kind b) = Some items"
    and c1: "track_view c1 = track_view (c\<lparr>tk_inferred_missing_frames := (tk_inferred_missing_frames c)(block_kind b \<mapsto> frames + gp_missing_frames g),
       tk_inferred_missing_items := (tk_inferred_missing_items c)(block_kind b \<mapsto> items + gp_missing_items g)\<rparr>)"
    and gap: "gp_kind gap = gp_kind g" "gp_missing_frames gap = gp_missing_frames g" "gp_missing_items gap = gp_missing_items g"
    and block: "block_kind block = block_kind b" "block_item_count block = block_item_count b" "block_sequence block = block_sequence b" "block_ticks block = block_ticks b"
  shows "tracked (advance_expectation (block_kind b) b c1) (xs @ [GapReport gap, BlockItem block])"
proof -
  let ?k = "block_kind b"
  have pos: "positioned c xs ?k" "tk_unanchored_streams c = {}" "placed xs" using t by (simp_all add: tracked_def)
  have ee: "es = total_of (covered_frames ?k) xs mod 2 ^ 32" "et = total_of (covered_items ?k) xs * 8 mod 2 ^ 64" using pos(1) e by (simp_all add: positioned_def)
  have "placed ((xs @ [GapReport gap]) @ [BlockItem block])"
    using pos(3) unfolding placed_snoc located_def
    by (simp add: block gap g(3) g(1) [unfolded ee(1)] g(2) [unfolded ee(2)] mod_simps algebra_simps)
  then have "placed (xs @ [GapReport gap, BlockItem block])" by simp
  moreover from pos have "frames = total_of (missed_frames ?k) xs" "items = total_of (missed_items ?k) xs" "tk_unanchored_streams c1 = {}"
    using e inf c1 by (simp_all add: positioned_def track_view_def)
  moreover have "(block_sequence b + 1) mod 2 ^ 32 = (es + (gp_missing_frames g + 1)) mod 2 ^ 32" unfolding g(1) by (simp add: mod_simps algebra_simps)
  moreover have "block_end_tick_exclusive b = (et + (gp_missing_items g + block_item_count b) * 8) mod 2 ^ 64"
    unfolding end_ticks [OF b] g(2) by (simp add: mod_simps algebra_simps)
  ultimately show ?thesis using e block_validD(3,4) [OF b(1)] c1 g(3) gap block
    by (intro tracked_advance [OF t e(1), where p = "block_sequence b" and ticks = "block_end_tick_exclusive b"])
      (simp_all add: advance_expectation_def and_UINT_MAX track_view_def)
qed

fun plain_item :: "StreamItem \<Rightarrow> bool" where
  "plain_item (GapReport g) = (0 < gp_missing_items g \<and> gp_kind g \<in> {FK_ADC_DATA, FK_GPIO_DATA})"
| "plain_item (AnomalyReport a) = False"
| "plain_item (BlockItem b) = True"
| "plain_item (QueueLossReport l) = True"

text \<open>What is deferred after an item was read: the block behind a gap.\<close>

definition deferred_behind :: "StreamItem \<Rightarrow> StreamItem list \<Rightarrow> bool" where
  "deferred_behind item pending \<longleftrightarrow> pending = [] \<or> (\<exists>g b. item = GapReport g \<and> block_kind b = gp_kind g \<and> pending = [BlockItem b])"

text \<open>Either an anomaly has been counted, or the item and what it deferred extend the account.\<close>

definition continues_account :: "client \<Rightarrow> StreamItem list \<Rightarrow> client \<Rightarrow> StreamItem \<Rightarrow> bool" where
  "continues_account c xs c' item \<longleftrightarrow> tk_observed_stream_anomalies c < tk_observed_stream_anomalies c' \<or>
     tk_observed_stream_anomalies c' = tk_observed_stream_anomalies c \<and> tracked c' (xs @ item # tk_pending_items c') \<and>
       (\<forall>x \<in> set (item # tk_pending_items c'). plain_item x) \<and> deferred_behind item (tk_pending_items c')"

lemma process_anomaly_account:
  assumes "process_anomaly request b a (c, w) = ((c', w'), Inr item)" "an_occurrences a = 1"
  shows "continues_account c xs c' item"
proof -
  obtain c1 w1 x where e: "firmware_evidence request (an_kind a) (an_source a) (an_firmware_evidence a) (c, w) = ((c1, w1), x)" by (metis surj_pair)
  have "tk_observed_stream_anomalies c1 = tk_observed_stream_anomalies c" using firmware_evidence_view [OF e] by (simp add: track_view_def)
  then show ?thesis using assms
    by (auto simp: process_anomaly_def e Let_def continues_account_def advance_expectation_def dest!: anomaly_post_init_id split: sum.splits if_splits)
qed

lemma tracked_same: "track_view c = track_view c' \<Longrightarrow> tracked c' xs \<Longrightarrow> tracked c xs"
  using tracked_cong by blast

lemma process_gap_account:
  assumes p: "process_gap request b g (c, w) = ((c', w'), Inr item)" and t: "tracked c xs" "tk_pending_items c = []"
    and b: "block_valid b" "block_protocol_version b = 3" and e: "tk_expected_sequence c (block_kind b) = Some es" "tk_expected_ticks c (block_kind b) = Some et"
    and g: "block_sequence b = (es + gp_missing_frames g) mod 2 ^ 32" "block_ticks b = (et + gp_missing_items g * 8) mod 2 ^ 64" "gp_kind g = block_kind b" "0 < gp_missing_items g"
  shows "continues_account c xs c' item"
proof -
  let ?k = "block_kind b"
  have "positioned c xs ?k" using t(1) by (simp add: tracked_def)
  then obtain frames items where inf: "tk_inferred_missing_frames c ?k = Some frames" "tk_inferred_missing_items c ?k = Some items"
    using e by (simp add: positioned_def)
  let ?c0 = "c\<lparr>tk_inferred_missing_frames := (tk_inferred_missing_frames c)(?k \<mapsto> frames + gp_missing_frames g),
      tk_inferred_missing_items := (tk_inferred_missing_items c)(?k \<mapsto> items + gp_missing_items g)\<rparr>"
  obtain c1 w1 x where ev: "firmware_evidence request (gp_kind g) (gp_source g) (gp_firmware_evidence g) (?c0, w) = ((c1, w1), x)" by (metis surj_pair)
  note v = firmware_evidence_view [OF ev]
  from p inf ev obtain evidence gap block where x: "x = Inr evidence" and gap: "StreamGap_post_init (g\<lparr>gp_firmware_evidence := Some evidence\<rparr>) = Inr gap"
    and bl: "with_gap gap b = Inr block" and item: "item = GapReport gap" and st: "\<not> tk_strict c1"
    by (auto simp: process_gap_def Let_def advance_expectation_def split: sum.splits if_splits)
  let ?c2 = "advance_expectation ?k b c1"
  have pend: "tk_pending_items c1 = []" using v t(2) by (simp add: track_view_def)
  have c': "track_view c' = track_view (?c2\<lparr>tk_pending_items := [BlockItem block]\<rparr>)"
    using p inf ev x gap bl st pend by (auto simp: process_gap_def Let_def advance_expectation_def track_view_def split: if_splits)
  have "tracked ?c2 (xs @ [GapReport gap, BlockItem block])"
    using gap_step [OF t(1) b e g(1-3) inf v, of gap block] gap_post_init_keeps [OF gap] with_gap_keeps [OF bl] by simp
  then have "tracked (?c2\<lparr>tk_pending_items := [BlockItem block]\<rparr>) (xs @ [GapReport gap, BlockItem block])"
    by (simp add: tracked_def positioned_def cong: option.case_cong)
  then have "tracked c' (xs @ [GapReport gap, BlockItem block])" by (rule tracked_same [OF c'])
  moreover have "tk_pending_items c' = [BlockItem block]" "tk_observed_stream_anomalies c' = tk_observed_stream_anomalies c"
    using c' v by (simp_all add: track_view_def advance_expectation_def)
  moreover have "plain_item item" using item g(3,4) gap_post_init_keeps [OF gap] by (cases b) auto
  moreover have "deferred_behind item [BlockItem block]"
    using item g(3) gap_post_init_keeps [OF gap] with_gap_keeps [OF bl] by (simp add: deferred_behind_def)
  ultimately show ?thesis using item by (simp add: continues_account_def)
qed

lemma process_block_account:
  assumes p: "process_block request corruption b (c, w) = ((c', w'), Inr item)" and t: "tracked c xs" "tk_pending_items c = []"
    and b: "block_valid b" "block_protocol_version b = 3"
  shows "continues_account c xs c' item"
proof -
  let ?k = "block_kind b"
  have un: "tk_unanchored_streams c = {}" and pos: "positioned c xs ?k" using t(1) by (simp_all add: tracked_def)
  obtain es where es: "tk_expected_sequence c ?k = Some es" using p by (auto simp: process_block_def Let_def split: option.splits)
  obtain et where et: "tk_expected_ticks c ?k = Some et" and er: "0 \<le> es" "es < 2 ^ 32" "0 \<le> et" "et < 2 ^ 64"
    and prev: "case tk_previous_sequence c ?k of None \<Rightarrow> True | Some p \<Rightarrow> 0 \<le> p \<and> p < 2 ^ 32 \<and> es = (p + 1) mod 2 ^ 32"
    using pos es by (auto simp: positioned_def)
  obtain cfg where cfg: "tk_configuration c = Some cfg" "block_source b = dc_source cfg"
    using p es by (auto simp: process_block_def Let_def split: option.splits if_splits)
  obtain r where r: "analyze_stream_continuity b es et (tk_run_id c) (tk_previous_sequence c ?k) = Inr r"
    using p es et cfg un by (auto simp: process_block_def Let_def split: sum.splits)
  note p' = p [unfolded process_block_def Let_def prod.case es option.case cfg(1) et r sum.case, simplified un cfg(2)]
  have holds: "continuity_holds b es et (tk_run_id c) (tk_previous_sequence c ?k) r" if "\<forall>a. r \<noteq> Anomaly a"
  proof -
    have "0 < tk_run_id c" "tk_run_id c < 2 ^ 32" using analyze_run [OF r that] block_validD(1,2) [OF b(1)] by simp_all
    then show ?thesis using analyze_classifies [OF b(1) er _ _ prev] r by fastforce
  qed
  show ?thesis
  proof (cases r)
    case Continuous
    then have "block_sequence b = es" "block_ticks b = et" using holds by (simp_all add: continuity_holds_def)
    then have "tracked (advance_expectation ?k b c) (xs @ [BlockItem b])" using clean_step [OF t(1) b] es et by simp
    moreover have "c' = advance_expectation ?k b c" "item = BlockItem b" using p' Continuous by (auto simp: map_sum_Inr_ex)
    ultimately show ?thesis using t(2) by (simp add: continues_account_def deferred_behind_def advance_expectation_def)
  next
    case (Gap g)
    then have "block_sequence b = (es + gp_missing_frames g) mod 2 ^ 32" "block_ticks b = (et + gp_missing_items g * 8) mod 2 ^ 64" "0 < gp_missing_items g"
      using holds v3_period [OF b] b(2) by (simp_all add: continuity_holds_def)
    moreover have "process_gap request b g (c, w) = ((c', w'), Inr item)" using p' Gap by simp
    moreover have "gp_kind g = block_kind b" by (rule analyze_gap_kind [OF r [unfolded Gap]])
    ultimately show ?thesis by (intro process_gap_account [OF _ t b es et])
  next
    case (Anomaly a)
    then have "process_anomaly request b a (c, w) = ((c', w'), Inr item)" using p' by simp
    then show ?thesis by (rule process_anomaly_account) (rule analyze_anomaly_once [OF r [unfolded Anomaly]])
  qed
qed

fun item_valid :: "ReaderStreamItem \<Rightarrow> bool" where
  "item_valid (DataItem b) = (block_valid b \<and> block_protocol_version b = 3)"
| "item_valid (ReportItem (HostLossReport l)) = (HostQueueLoss_post_init l = Inr l \<and> hq_period_ticks l = Some 8)"
| "item_valid (ReportItem (StaleReport a)) = (0 < an_occurrences a)"

lemma process_loss_account:
  assumes "process_host_queue_loss l c = (c', Inr item)" "tracked c xs" "tk_pending_items c = []" "HostQueueLoss_post_init l = Inr l" "hq_period_ticks l = Some 8"
  shows "continues_account c xs c' item"
proof (cases "loss_range_valid l c")
  case True
  have "tracked (advance_past_loss l c) (xs @ [QueueLossReport l])" by (rule loss_step [OF assms(2) True assms(4,5)])
  moreover have "track_view c' = track_view (advance_past_loss l c)" "item = QueueLossReport l"
    using assms(1) True by (auto simp: process_host_queue_loss_def Let_def track_view_def split: if_splits)
  ultimately have "tracked c' (xs @ [QueueLossReport l])" using tracked_same by blast
  then show ?thesis using \<open>track_view c' = _\<close> \<open>item = _\<close> assms(3) by (simp add: continues_account_def deferred_behind_def track_view_def advance_past_loss_def)
next
  case False
  then show ?thesis using assms(1)
    by (auto simp: process_host_queue_loss_def Let_def continues_account_def advance_past_loss_def split: sum.splits if_splits)
qed

lemma read_item_account:
  assumes r: "read_item request corruption (Inr x) (c, w) = ((c', w'), Inr item)" and t: "tracked c xs" "tk_pending_items c = []" and x: "item_valid x"
  shows "continues_account c xs c' item"
  using x
proof (cases x rule: item_valid.cases)
  case (1 b)
  then show ?thesis using r x process_block_account [OF _ t] by (auto simp: read_item_def split: if_splits)
next
  case (2 l)
  then show ?thesis using r x process_loss_account [OF _ t] by (auto simp: read_item_def split: if_splits prod.splits)
next
  case (3 a)
  then show ?thesis using r x by (auto simp: read_item_def process_reader_anomaly_def continues_account_def Let_def split: if_splits)
qed

section \<open>Reading a run\<close>

text \<open>
  Successful calls of \<^verbatim>\<open>read_block\<close>: a deferred item, or an item of the reader when nothing is deferred. \<open>client_reads request s0 items out s\<close>: the
  calls take \<open>items\<close> from the reader and return \<open>out\<close>. The reader's active run and the parser's counter are arbitrary.
\<close>

inductive client_reads :: "'w v3_request \<Rightarrow> client \<times> 'w \<Rightarrow> ReaderStreamItem list \<Rightarrow> StreamItem list \<Rightarrow> client \<times> 'w \<Rightarrow> bool" for request s0 where
  none: "client_reads request s0 [] [] s0"
| deferred: "client_reads request s0 items out (c, w) \<Longrightarrow> read_deferred active c = (c', Inr (Some item)) \<Longrightarrow>
    client_reads request s0 items (out @ [item]) (c', w)"
| fresh: "client_reads request s0 items out (c, w) \<Longrightarrow> read_deferred active c = (c, Inr None) \<Longrightarrow> item_valid x \<Longrightarrow>
    read_item request corruption (Inr x) (c, w) = (s', Inr item) \<Longrightarrow> client_reads request s0 (items @ [x]) (out @ [item]) s'"

lemma read_deferred_Some:
  "read_deferred active c = (c', Inr (Some item)) \<Longrightarrow> \<exists>rest. tk_pending_items c = item # rest \<and> c' = c\<lparr>tk_pending_items := rest\<rparr>"
  by (auto simp: read_deferred_def split: if_splits list.splits)

lemma read_deferred_None: "read_deferred active c = (c', Inr None) \<Longrightarrow> tk_pending_items c = []"
  by (auto simp: read_deferred_def split: if_splits list.splits)

lemma advance_anomalies [simp]: "tk_observed_stream_anomalies (advance_expectation k b c) = tk_observed_stream_anomalies c"
  by (simp add: advance_expectation_def)

text \<open>An anomaly is also a telemetry error, and the baselines of the run stay.\<close>

definition steady :: "client \<Rightarrow> client \<Rightarrow> bool" where
  "steady c c' \<longleftrightarrow> baselines c' = baselines c \<and> tk_observed_stream_anomalies c \<le> tk_observed_stream_anomalies c' \<and>
     tk_observed_stream_anomalies c' - tk_observed_stream_anomalies c \<le> tk_protocol_telemetry_errors c' - tk_protocol_telemetry_errors c"

lemma steady_refl [simp]: "steady c c"
  by (simp add: steady_def)

lemma steady_trans: "steady c c' \<Longrightarrow> steady c' c'' \<Longrightarrow> steady c c''"
  by (simp add: steady_def)

lemma steady_advance [simp]: "steady c (advance_expectation k b c') = steady c c'"
  by (simp add: steady_def advance_expectation_def baselines_def)

lemma process_anomaly_steady:
  assumes "process_anomaly request b a (c, w) = ((c', w'), r)" "an_occurrences a = 1"
  shows "steady c c'"
proof -
  obtain c1 w1 x where e: "firmware_evidence request (an_kind a) (an_source a) (an_firmware_evidence a) (c, w) = ((c1, w1), x)" by (metis surj_pair)
  have "exchange_view c1 = exchange_view c" by (rule firmware_evidence_exchange [OF e])
  then show ?thesis using assms
    by (auto simp: process_anomaly_def e Let_def steady_def view_defs advance_expectation_def dest!: anomaly_post_init_id split: sum.splits if_splits)
qed

lemma process_gap_steady:
  assumes "process_gap request b g (c, w) = ((c', w'), r)"
  shows "steady c c'"
proof (cases "tk_inferred_missing_frames c (block_kind b) = None \<or> tk_inferred_missing_items c (block_kind b) = None")
  case True
  then show ?thesis using assms by (auto simp: process_gap_def Let_def split: option.splits)
next
  case False
  then obtain frames items where inf: "tk_inferred_missing_frames c (block_kind b) = Some frames" "tk_inferred_missing_items c (block_kind b) = Some items" by auto
  let ?c0 = "c\<lparr>tk_inferred_missing_frames := (tk_inferred_missing_frames c)(block_kind b \<mapsto> frames + gp_missing_frames g),
      tk_inferred_missing_items := (tk_inferred_missing_items c)(block_kind b \<mapsto> items + gp_missing_items g)\<rparr>"
  obtain c1 w1 x where ev: "firmware_evidence request (gp_kind g) (gp_source g) (gp_firmware_evidence g) (?c0, w) = ((c1, w1), x)" by (metis surj_pair)
  have "exchange_view c1 = exchange_view ?c0" by (rule firmware_evidence_exchange [OF ev])
  then show ?thesis using assms inf ev
    by (auto simp: process_gap_def Let_def steady_def view_defs advance_expectation_def split: sum.splits if_splits)
qed

lemma process_block_steady:
  assumes "process_block request corruption b (c, w) = ((c', w'), r)"
  shows "steady c c'"
proof -
  have "steady c c'"
    if "process_anomaly request b a (c, w) = ((c', w'), r)" "analyze_stream_continuity b es et run prev = Inr (Anomaly a)" for a es et run prev
    by (rule process_anomaly_steady [OF that(1) analyze_anomaly_once [OF that(2)]])
  moreover have "steady c (c\<lparr>tk_unanchored_streams := u\<rparr>)" for u by (simp add: steady_def baselines_def)
  ultimately show ?thesis using assms
    by (auto simp: process_block_def Let_def dest!: process_gap_steady split: option.splits sum.splits continuity.splits if_splits)
qed

lemma read_item_steady:
  assumes "read_item request corruption (Inr x) (c, w) = ((c', w'), r)" "item_valid x"
  shows "steady c c'"
  using assms(2)
proof (cases x rule: item_valid.cases)
  case (1 b)
  then show ?thesis using assms(1) by (auto simp: read_item_def dest!: process_block_steady split: if_splits)
next
  case (2 l)
  then show ?thesis using assms(1)
    by (auto simp: read_item_def process_host_queue_loss_def advance_past_loss_def steady_def baselines_def Let_def split: if_splits sum.splits prod.splits)
next
  case (3 a)
  then show ?thesis using assms by (auto simp: read_item_def process_reader_anomaly_def steady_def baselines_def Let_def split: if_splits)
qed

lemma reads_steady:
  assumes "client_reads request s0 items out s"
  shows "steady (fst s0) (fst s)"
  using assms
proof (induction rule: client_reads.induct)
  case (deferred items out c w active c' item)
  then have "steady c c'" by (auto simp: steady_def baselines_def dest!: read_deferred_Some)
  then show ?case using steady_trans [OF deferred.IH, of c'] by simp
next
  case (fresh items out c w active x corruption s' item)
  then have "steady c (fst s')" using read_item_steady [of request corruption x c w "fst s'" "snd s'"] by simp
  then show ?case using steady_trans [OF fresh.IH, of "fst s'"] by simp
qed simp

lemma reads_account:
  assumes "client_reads request s0 items out s" "tracked (fst s0) (tk_pending_items (fst s0))" "tk_observed_stream_anomalies (fst s0) = 0"
    "tk_pending_items (fst s0) = []"
  shows "tk_observed_stream_anomalies (fst s) = 0 \<longrightarrow> tracked (fst s) (out @ tk_pending_items (fst s)) \<and> (\<forall>x \<in> set (out @ tk_pending_items (fst s)). plain_item x) \<and>
    (tk_pending_items (fst s) = [] \<or> out \<noteq> [] \<and> deferred_behind (last out) (tk_pending_items (fst s)))"
  using assms
proof (induction rule: client_reads.induct)
  case (deferred items out c w active c' item)
  from read_deferred_Some [OF deferred.hyps(2)] obtain rest where r: "tk_pending_items c = item # rest" "c' = c\<lparr>tk_pending_items := rest\<rparr>" by blast
  have "tracked c' xs = tracked c xs" for xs unfolding r(2) by (simp add: tracked_def positioned_def cong: option.case_cong)
  then show ?case using deferred.IH deferred.prems r by (auto simp: deferred_behind_def)
next
  case (fresh items out c w active x corruption s' item)
  obtain c' w' where s': "s' = (c', w')" by (cases s')
  have pend: "tk_pending_items c = []" by (rule read_deferred_None [OF fresh.hyps(2)])
  note read = fresh.hyps(4) [unfolded s']
  have mono: "0 \<le> tk_observed_stream_anomalies c" "tk_observed_stream_anomalies c \<le> tk_observed_stream_anomalies c'"
    using reads_steady [OF fresh.hyps(1)] read_item_steady [OF read fresh.hyps(3)] fresh.prems by (simp_all add: steady_def)
  have ih: "tk_observed_stream_anomalies c = 0 \<Longrightarrow> tracked c out \<and> (\<forall>x \<in> set out. plain_item x)" using fresh.IH fresh.prems pend by auto
  show ?case
  proof (cases "tk_observed_stream_anomalies c = 0")
    case True
    then have "continues_account c out c' item" using read_item_account [OF read _ pend fresh.hyps(3)] ih by simp
    then show ?thesis using True s' ih by (auto simp: continues_account_def)
  next
    case False
    then show ?thesis using s' mono by simp
  qed
qed simp

lemma start_tracked:
  assumes "client_start request host corruption s = ((c, w), Inr run)"
  shows "tracked c []" "tk_pending_items c = []" "tk_observed_stream_anomalies c = 0" "tk_run_id c = run" "tk_loss_stats_generation c = None"
    "baselines c = (corruption, hc_host_block_queue_drops host, hc_loss_report_queue_drops host)" "tk_protocol_telemetry_errors c = 0"
proof -
  obtain c0 cfg where c: "c = (reset_loss_observations host (initialize_stream_expectations cfg True (c0\<lparr>tk_configuration := Some cfg, tk_pending_items := []\<rparr>)))
      \<lparr>tk_loss_stats_generation := None, tk_stream_parser_error_baseline := corruption\<rparr>" "tk_run_id c0 = run"
    using assms by (auto simp: client_start_def Let_def split: prod.splits if_splits sum.splits option.splits)
  show "tracked c []" "tk_pending_items c = []" "tk_observed_stream_anomalies c = 0" "tk_run_id c = run" "tk_loss_stats_generation c = None"
    "baselines c = (corruption, hc_host_block_queue_drops host, hc_loss_report_queue_drops host)" "tk_protocol_telemetry_errors c = 0"
    using c(2) unfolding c(1)
    by (auto simp: tracked_def positioned_def baselines_def reset_loss_observations_def initialize_stream_expectations_def clear_stream_expectations_def expect_stream_def Let_def)
qed

section \<open>Strict reading\<close>

lemma process_anomaly_strict:
  assumes "process_anomaly request b a (c, w) = (s', Inr item)"
  shows "\<not> tk_strict c"
proof -
  obtain c1 w1 x where e: "firmware_evidence request (an_kind a) (an_source a) (an_firmware_evidence a) (c, w) = ((c1, w1), x)" by (metis surj_pair)
  have "tk_strict c1 = tk_strict c" using firmware_evidence_view [OF e] by (simp add: track_view_def)
  then show ?thesis using assms by (auto simp: process_anomaly_def e Let_def advance_expectation_def split: sum.splits if_splits)
qed

lemma process_gap_strict:
  assumes "process_gap request b g (c, w) = (s', Inr item)"
  shows "\<not> tk_strict c"
proof -
  obtain frames items where inf: "tk_inferred_missing_frames c (block_kind b) = Some frames" "tk_inferred_missing_items c (block_kind b) = Some items"
    using assms by (auto simp: process_gap_def Let_def split: option.splits)
  let ?c0 = "c\<lparr>tk_inferred_missing_frames := (tk_inferred_missing_frames c)(block_kind b \<mapsto> frames + gp_missing_frames g),
      tk_inferred_missing_items := (tk_inferred_missing_items c)(block_kind b \<mapsto> items + gp_missing_items g)\<rparr>"
  obtain c1 w1 x where ev: "firmware_evidence request (gp_kind g) (gp_source g) (gp_firmware_evidence g) (?c0, w) = ((c1, w1), x)" by (metis surj_pair)
  have "tk_strict c1 = tk_strict c" using firmware_evidence_view [OF ev] by (simp add: track_view_def)
  then show ?thesis using assms inf ev by (auto simp: process_gap_def Let_def advance_expectation_def split: sum.splits if_splits)
qed

lemma read_item_strict:
  assumes "read_item request corruption (Inr x) (c, w) = ((c', w'), Inr item)" "tk_strict c"
  shows "(\<exists>b. item = BlockItem b) \<and> tk_strict c' \<and> tk_pending_items c' = tk_pending_items c"
proof (cases x rule: item_valid.cases)
  case (1 b)
  then have "process_block request corruption b (c, w) = ((c', w'), Inr item)" using assms(1) by (auto simp: read_item_def split: if_splits)
  then show ?thesis using assms(2)
    by (auto simp: process_block_def Let_def map_sum_Inr_ex advance_expectation_def dest!: process_anomaly_strict process_gap_strict
        split: option.splits sum.splits continuity.splits if_splits)
next
  case (2 l)
  then show ?thesis using assms
    by (auto simp: read_item_def process_host_queue_loss_def advance_past_loss_def Let_def split: if_splits sum.splits prod.splits)
next
  case (3 a)
  then show ?thesis using assms by (auto simp: read_item_def process_reader_anomaly_def Let_def split: if_splits)
qed

lemma reads_strict:
  assumes "client_reads request s0 items out s" "tk_strict (fst s0)" "tk_pending_items (fst s0) = []"
  shows "tk_strict (fst s) \<and> tk_pending_items (fst s) = [] \<and> (\<forall>x \<in> set out. \<exists>b. x = BlockItem b)"
  using assms
proof (induction rule: client_reads.induct)
  case (deferred items out c w active c' item)
  from read_deferred_Some [OF deferred.hyps(2)] deferred.IH deferred.prems show ?case by auto
next
  case (fresh items out c w active x corruption s' item)
  then show ?case using read_item_strict [of request corruption x c w "fst s'" "snd s'" item] by (cases s') auto
qed simp

section \<open>Starting over the link\<close>

lemma stream_bits [simp]: "(3::int) AND NOT 3 = 0" "(2::int) AND NOT 3 = 0" "(1::int) AND NOT 3 = 0"
  by code_simp+

lemma v3_stream_configuration_ok:
  assumes "settings_to_bytes s = Inr p"
  obtains cfg where "v3_stream_configuration s = Inr cfg" "dc_stream_mask cfg = st_stream_mask s" "dc_source cfg = st_source s"
proof -
  note shape = settings_shape [OF assms]
  have m: "st_stream_mask s \<in> {1, 2, 3}" using shape(2,3) by auto
  let ?c = "\<lparr>dc_stream_mask = st_stream_mask s, dc_source = st_source s, dc_data_checksum_algorithm = ADLER32, dc_data_frame_bytes = 4096,
      dc_aux_bank_mode = (if st_stream_mask s AND STREAM_GPIO \<noteq> 0 then st_aux_bank_mode s else AUX_DISABLED),
      dc_rate_profile = v2_rate_profile (st_rate_profile s)\<rparr>"
  have "v3_stream_configuration s = Inr ?c"
    using m by (auto simp: v3_stream_configuration_def DAQConfiguration_post_init_def int_flag_def require_def)
  then show thesis by (rule that) simp_all
qed

lemma client_start_ok:
  fixes w :: "'f link"
  assumes "link_good w" "in_step (tk_session c) (device_state_view (lk_device w))" "dv_state (device_state_view (lk_device w)) = DS_STOPPED" "\<not> tk_closed c"
    and c': "\<And>w' ses cfg. dc_stream_mask cfg = st_stream_mask (dv_settings (device_state_view (lk_device w))) \<Longrightarrow>
       dc_source cfg = st_source (dv_settings (device_state_view (lk_device w))) \<Longrightarrow>
       client_start (link_request codec now) host corruption (c, w) = ((reset_loss_observations host (initialize_stream_expectations cfg True
          (c\<lparr>tk_session := ses, tk_run_id := next_run_id (dv_run_id (device_state_view (lk_device w))), tk_state := Some V1_RUNNING,
             tk_configuration := Some cfg, tk_pending_items := []\<rparr>))\<lparr>tk_loss_stats_generation := None, tk_stream_parser_error_baseline := corruption\<rparr>, w'),
          Inr (next_run_id (dv_run_id (device_state_view (lk_device w))))) \<Longrightarrow> link_good w' \<Longrightarrow> thesis"
  shows thesis
proof -
  let ?v = "device_state_view (lk_device w)"
  have k: "knows (tk_session c) ?v" using assms(2) by (simp add: in_step_def)
  then obtain a where a: "ses_applied (tk_session c) = Some a" "ap_settings a = dv_settings ?v" by (auto simp: knows_def applied_as_def)
  have "introduced (tk_session c) ?v" using k by (simp add: knows_def)
  then have "\<exists>p. settings_to_bytes (dv_settings ?v) = Inr p"
    using sim_link.configure_payload [OF assms(1) _ sim_link.settings [OF assms(1)]] by blast
  then obtain cfg where cfg: "v3_stream_configuration (dv_settings ?v) = Inr cfg" "dc_stream_mask cfg = st_stream_mask (dv_settings ?v)" "dc_source cfg = st_source (dv_settings ?v)"
    using v3_stream_configuration_ok by metis
  obtain ses w' where s: "session_start (link_request codec now) (tk_session c, w) = ((ses, w'), Inr (next_run_id (dv_run_id ?v)))" "link_good w'"
     "ses_state ses = DS_RUNNING" "ses_applied ses = Some a"
    using sim_link.start_ok [OF assms(1) k assms(3), of "\<lambda>ses w' r. link_good w' \<and> r = Inr (next_run_id (dv_run_id ?v)) \<and> ses_state ses = DS_RUNNING \<and> ses_applied ses = Some a" codec now] a
    by (auto simp: ends_def split: prod.splits)
  show thesis by (rule c' [OF cfg(2,3) _ s(2), of ses]) (simp add: client_start_def assms(4) s a cfg)
qed

lemma client_attach_ok:
  fixes w :: "'f link"
  assumes "link_good w" "0 < timeout" "view_reports CK_INFO (device_state_view (lk_device w)) (InfoValue i)" "dv_state (device_state_view (lk_device w)) = DS_STOPPED"
    and c: "\<And>w' ses run. client_attach (link_request codec now) pause remaining activate host policy
         (new_client strict pattern ((V3Session timeout)\<lparr>ses_identity := Some i\<rparr>), w) =
        (((new_client strict pattern ses)\<lparr>tk_run_id := run, tk_state := Some V1_CONFIGURED\<rparr>, w'), Inr ()) \<Longrightarrow>
       link_good w' \<Longrightarrow> device_state_view (lk_device w') = device_state_view (lk_device w) \<Longrightarrow> in_step ses (device_state_view (lk_device w')) \<Longrightarrow> thesis"
  shows thesis
proof -
  have i: "identity_key i = dv_identity (device_state_view (lk_device w))"
    "clocks_for_profile (st_cpu_profile (dv_settings (device_state_view (lk_device w)))) = Inr (in_clocks i)"
    using assms(3) by (simp_all add: view_reports_def)
  from sim_link.open_ok [OF assms(1,2) i, of codec now] obtain ses w' status where
    o: "session_open (link_request codec now) ((V3Session timeout)\<lparr>ses_identity := Some i\<rparr>, w) = ((ses, w'), Inr status)" "link_good w'"
      "device_state_view (lk_device w') = device_state_view (lk_device w)" "in_step ses (device_state_view (lk_device w'))" "sp_state (ss_stop status) = DS_STOPPED"
    using assms(4) by (auto simp: ends_def split: prod.splits)
  show thesis
    by (rule c [OF _ o(2-4), of "sp_run_id (ss_stop status)"]) (simp add: client_attach_def o new_client_def Let_def)
qed

text \<open>A new simulated device has both streams enabled, from the hardware source.\<close>

lemma new_device_settings:
  assumes "SimulatedV3Device build mr mq = Inr d"
  shows "st_stream_mask (sim_settings d) = 3" "st_source (sim_settings d) = SRC_HARDWARE"
proof -
  obtain c where c: "canonical_capabilities = Inr c" using canonical_capabilities_wire by blast
  obtain s where s: "default_settings = Inr s" using default_settings_profile by blast
  have "case default_settings of Inl e \<Rightarrow> False | Inr s \<Rightarrow> st_stream_mask s = 3 \<and> st_source s = SRC_HARDWARE" by code_simp
  moreover have "cap_defaults c = s" using c by (auto simp: s canonical_capabilities_def res_simps capabilities_of_fields)
  moreover have "sim_settings d = cap_defaults (sim_restrict c)"
    using assms by (auto simp: c SimulatedV3Device_def require_def bind_res_eq_Inr Let_def reboot_def reset_epoch_def sim_allocate_def split: if_splits)
  ultimately show "st_stream_mask (sim_settings d) = 3" "st_source (sim_settings d) = SRC_HARDWARE" by (simp_all add: s sim_restrict_def Let_def)
qed

text \<open>A facade on a new simulated device, attached and started.\<close>

lemma new_client_starts:
  obtains s :: "client \<times> (CommandResponse + data_block) link" and c w cfg kind where
    "client_start (link_request plain_codec 0) no_host_counters 0 s = ((c, w), Inr 1)" "tk_configuration c = Some cfg" "tk_run_id c = 1"
    "\<not> tk_closed c" "\<not> tk_strict c" "tk_state c = Some V1_RUNNING" "kind \<in> {FK_ADC_DATA, FK_GPIO_DATA}"
    "tk_expected_sequence c kind = Some 0" "tk_expected_ticks c kind = Some 0" "kind = FK_GPIO_DATA" "dc_source cfg = SRC_HARDWARE" "tk_previous_sequence c = Map.empty"
proof -
  obtain d where d: "SimulatedV3Device ''thingdaq-simulator-v3'' 2048 8 = Inr d" using default_device by blast
  let ?w = "\<lparr>lk_reader = started_reader, lk_device = d, lk_waits = 0\<rparr> :: (CommandResponse + data_block) link"
  let ?v = "device_state_view (lk_device ?w)"
  have g: "link_good ?w" using new_link_good [OF d _ started_reader_idle] by simp
  obtain i where i: "view_reports CK_INFO ?v (InfoValue i)" using device_reports_info [OF g] by blast
  have v: "dv_state ?v = DS_STOPPED" "dv_run_id ?v = 0" using device_initial [OF d] by (simp_all add: device_state_view_def)
  obtain w1 :: "(CommandResponse + data_block) link" and ses where
    a: "link_good w1" "device_state_view (lk_device w1) = ?v" "in_step ses (device_state_view (lk_device w1))"
    by (rule client_attach_ok [OF g _ i v(1), where timeout = 5 and codec = plain_codec and now = 0]) simp_all
  let ?c = "new_client False COUNTER ses"
  obtain w2 ses2 cfg where cfg: "dc_stream_mask cfg = st_stream_mask (dv_settings ?v)" "dc_source cfg = st_source (dv_settings ?v)"
    and s: "client_start (link_request plain_codec 0) no_host_counters 0 (?c, w1) = ((reset_loss_observations no_host_counters (initialize_stream_expectations cfg True
        (?c\<lparr>tk_session := ses2, tk_run_id := next_run_id (dv_run_id ?v), tk_state := Some V1_RUNNING, tk_configuration := Some cfg, tk_pending_items := []\<rparr>))
          \<lparr>tk_loss_stats_generation := None, tk_stream_parser_error_baseline := 0\<rparr>, w2), Inr (next_run_id (dv_run_id ?v)))"
    by (rule client_start_ok [OF a(1), where c = ?c and codec = plain_codec and now = 0 and host = no_host_counters and corruption = 0])
      (use a v(1) in \<open>simp_all add: new_client_def\<close>)
  have r: "next_run_id (dv_run_id ?v) = 1" unfolding v(2) by (simp add: next_run_id_def)
  have m: "dc_stream_mask cfg = 3" "dc_source cfg = SRC_HARDWARE" using cfg new_device_settings [OF d] by (simp_all add: device_state_view_def)
  show thesis
    by (rule that [OF s [unfolded r], where kind = FK_GPIO_DATA])
      (use m in \<open>simp_all add: reset_loss_observations_def initialize_stream_expectations_def clear_stream_expectations_def expect_stream_def new_client_def\<close>)
qed

section \<open>Properties\<close>

definition enabled :: "client \<Rightarrow> FrameKind \<Rightarrow> bool" where
  "enabled c kind \<longleftrightarrow> tk_expected_sequence c kind \<noteq> None"

lemma reconciliation_exact:
  assumes "tracked c xs"
  shows "snd (counter_reconciliation_errors firmware c) = [] \<longleftrightarrow> tk_loss_stats_generation c \<in> {None, Some (fc_stats_generation firmware)} \<and>
    (\<forall>kind \<in> {FK_ADC_DATA, FK_GPIO_DATA}. enabled c kind \<longrightarrow> dropped_of kind firmware =
       (total_of (missed_frames kind) xs, total_of (missed_items kind) xs, total_of (missed_items kind) xs * stream_item_bytes kind c))"
proof -
  obtain c1 g where o: "observe_loss_stats_generation (fc_stats_generation firmware) c = (c1, g)" by fastforce
  have g: "g = None \<longleftrightarrow> tk_loss_stats_generation c \<in> {None, Some (fc_stats_generation firmware)}"
    and c1: "tk_inferred_missing_items c1 = tk_inferred_missing_items c" "tk_inferred_missing_frames c1 = tk_inferred_missing_frames c"
      "stream_item_bytes kind c1 = stream_item_bytes kind c" for kind
    using o by (auto simp: observe_loss_stats_generation_def stream_item_bytes_def client_gpio_item_bytes_def split: option.splits if_splits)
  have m: "disagreement_message kind x y \<noteq> []" for kind x y by (simp add: disagreement_message_def kind_name_def split: prod.splits)
  have p: "positioned c xs kind" for kind using assms by (simp add: tracked_def)
  have "(case tk_inferred_missing_items c kind of None \<Rightarrow> [] | Some items \<Rightarrow>
        (let inferred = (the (tk_inferred_missing_frames c kind), items, items * stream_item_bytes kind c) in
         if dropped_of kind firmware \<noteq> inferred then [disagreement_message kind inferred (dropped_of kind firmware)] else [])) = [] \<longleftrightarrow>
      (enabled c kind \<longrightarrow> dropped_of kind firmware =
       (total_of (missed_frames kind) xs, total_of (missed_items kind) xs, total_of (missed_items kind) xs * stream_item_bytes kind c))" for kind
    using p [of kind] by (cases "tk_expected_sequence c kind") (auto simp: positioned_def enabled_def Let_def)
  then show ?thesis using g unfolding counter_reconciliation_errors_def o prod.case snd_conv c1
    by (cases g) simp_all
qed

lemma tracked_position:
  assumes "tracked c xs" "enabled c kind"
  shows "tk_expected_sequence c kind = Some (total_of (covered_frames kind) xs mod 2 ^ 32) \<and>
    tk_expected_ticks c kind = Some (total_of (covered_items kind) xs * 8 mod 2 ^ 64)"
proof -
  have "positioned c xs kind" using assms(1) by (simp add: tracked_def)
  then show ?thesis using assms(2) by (auto simp: positioned_def enabled_def)
qed

lemma start_applied: "client_start request host corruption s = ((c, w), Inr run) \<Longrightarrow> ses_applied (tk_session c) \<noteq> None"
  by (auto simp: client_start_def Let_def reset_loss_observations_def initialize_stream_expectations_def clear_stream_expectations_def expect_stream_def
      split: prod.splits if_splits sum.splits option.splits)

text \<open>A run in which the host's queue has overflowed once.\<close>

lemma overflowed_run:
  obtains s c0 c l and w :: "(CommandResponse + data_block) link" where
    "client_start (link_request plain_codec 0) no_host_counters 0 s = ((c0, w), Inr 1)"
    "client_reads (link_request plain_codec 0) (c0, w) [ReportItem (HostLossReport l)] [QueueLossReport l] (c, w)" "enabled c (hq_kind l)" "hq_dropped_blocks l = 3"
    "\<not> tk_closed c" "tk_pending_items c = []" "tk_observed_stream_anomalies c = 0" "tk_protocol_telemetry_errors c = 0" "baselines c = (0, 0, 0)"
    "tk_loss_stats_generation c = None" "ses_applied (tk_session c) \<noteq> None"
proof -
  obtain s :: "client \<times> (CommandResponse + data_block) link" and c w cfg kind where
    s: "client_start (link_request plain_codec 0) no_host_counters 0 s = ((c, w), Inr 1)" and f: "tk_configuration c = Some cfg" "tk_run_id c = 1"
    "\<not> tk_closed c" "\<not> tk_strict c" "tk_state c = Some V1_RUNNING" "kind \<in> {FK_ADC_DATA, FK_GPIO_DATA}"
    "tk_expected_sequence c kind = Some 0" "tk_expected_ticks c kind = Some 0" by (rule new_client_starts)
  note t = start_tracked [OF s] start_applied [OF s]
  define l where "l = \<lparr>hq_kind = kind, hq_source = dc_source cfg, hq_run_id = 1, hq_first_sequence = 0, hq_last_sequence = 2, hq_first_sample_ticks = 0,
     hq_end_sample_ticks = 240, hq_dropped_blocks = 3, hq_dropped_items = 30, hq_firmware_gap_blocks = 0, hq_firmware_overrun_blocks = 0,
     hq_contiguous = True, hq_period_ticks = Some 8, hq_frame_item_count = Some 10, hq_variable_frame_items = False\<rparr>"
  have ok: "item_valid (ReportItem (HostLossReport l))"
    using f(6) by (auto simp: l_def HostQueueLoss_post_init_def require_def check_unsigned_def check_nonnegative_def and_UINT_MAX)
  have lv: "hq_kind l = kind" "hq_dropped_blocks l = 3" "loss_range_valid l c" using f by (simp_all add: l_def loss_range_valid_def)
  let ?c = "(advance_past_loss l c)\<lparr>tk_observed_host_queue_losses := tk_observed_host_queue_losses c + 1\<rparr>"
  have i: "read_item (link_request plain_codec 0) 0 (Inr (ReportItem (HostLossReport l))) (c, w) = ((?c, w), Inr (QueueLossReport l))"
    using f(3,4) lv(3) by (simp add: read_item_def process_host_queue_loss_def Let_def advance_past_loss_def)
  have d: "read_deferred 1 c = (c, Inr None)" using f t by (simp add: read_deferred_def)
  have r: "client_reads (link_request plain_codec 0) (c, w) [ReportItem (HostLossReport l)] [QueueLossReport l] (?c, w)"
    using client_reads.fresh [OF client_reads.none d ok i] by simp
  show thesis by (rule that [OF s r]) (use t lv f(3,7) in \<open>simp_all add: advance_past_loss_def enabled_def baselines_def no_host_counters_def\<close>)
qed

text \<open>
  Property C34. The facade accounts for its streams. After START, whatever blocks, host queue losses and stale reports the reader delivers and
  whatever the device answers, as long as the reads succeed and no anomaly has been counted: the items that the application has been given
  and the one block that waits when the last of them was a gap report (the block behind that gap) account for the position. For each enabled stream
  the next expected sequence number is the number of frames they account for (blocks, frames missing in gap
  reports, blocks of queue losses) and the next expected timestamp is the time their items cover, modulo the counter widths; and every block among them
  has the sequence number and timestamp at which the items before it end. The comparison with the device's loss counters
  finds no error exactly when these count the frames, items and bytes of the gap reports (and the run is
  the one first observed). In strict mode the application is given nothing but blocks.
\<close>

theorem client_accounts_stream:
  assumes "client_start request host corruption s = (s0, Inr run)" "client_reads request s0 items out (c, w)" "tk_observed_stream_anomalies c = 0"
  shows "(tk_pending_items c = [] \<or> (\<exists>g b. out \<noteq> [] \<and> last out = GapReport g \<and> block_kind b = gp_kind g \<and> tk_pending_items c = [BlockItem b])) \<and>
    (\<forall>kind. enabled c kind \<longrightarrow>
      tk_expected_sequence c kind = Some (total_of (covered_frames kind) (out @ tk_pending_items c) mod 2 ^ 32) \<and>
      tk_expected_ticks c kind = Some (total_of (covered_items kind) (out @ tk_pending_items c) * 8 mod 2 ^ 64)) \<and>
    (\<forall>ys b zs. out @ tk_pending_items c = ys @ BlockItem b # zs \<longrightarrow>
      block_sequence b = total_of (covered_frames (block_kind b)) ys mod 2 ^ 32 \<and>
      block_ticks b = total_of (covered_items (block_kind b)) ys * 8 mod 2 ^ 64) \<and>
    (\<forall>firmware. snd (counter_reconciliation_errors firmware c) = [] \<longleftrightarrow>
      tk_loss_stats_generation c \<in> {None, Some (fc_stats_generation firmware)} \<and>
      (\<forall>kind \<in> {FK_ADC_DATA, FK_GPIO_DATA}. enabled c kind \<longrightarrow> dropped_of kind firmware =
        (total_of (missed_frames kind) out, total_of (missed_items kind) out, total_of (missed_items kind) out * stream_item_bytes kind c))) \<and>
    (tk_strict (fst s0) \<longrightarrow> (\<forall>x \<in> set out. \<exists>b. x = BlockItem b))"
proof -
  obtain c0 w0 where s0: "s0 = (c0, w0)" by (cases s0)
  note st = start_tracked [OF assms(1) [unfolded s0]]
  have "tracked c (out @ tk_pending_items c) \<and> (tk_pending_items c = [] \<or> out \<noteq> [] \<and> deferred_behind (last out) (tk_pending_items c))"
    using reads_account [OF assms(2)] assms(3) s0 st(1-3) by simp
  then have t: "tracked c (out @ tk_pending_items c)"
    and p: "tk_pending_items c = [] \<or> (\<exists>g b. out \<noteq> [] \<and> last out = GapReport g \<and> block_kind b = gp_kind g \<and> tk_pending_items c = [BlockItem b])"
    by (auto simp: deferred_behind_def)
  have pl: "placed (out @ tk_pending_items c)" using t by (simp add: tracked_def)
  have m: "total_of (missed_frames kind) (out @ tk_pending_items c) = total_of (missed_frames kind) out"
    "total_of (missed_items kind) (out @ tk_pending_items c) = total_of (missed_items kind) out" for kind using p by auto
  have d: "tk_strict (fst s0) \<longrightarrow> (\<forall>x \<in> set out. \<exists>b. x = BlockItem b)" using reads_strict [OF assms(2)] s0 st(2) by simp
  show ?thesis
    by (intro conjI allI p d reconciliation_exact [OF t, unfolded m]) (use tracked_position [OF t] pl in \<open>auto simp: placed_def located_def\<close>)
qed

theorem client_accounts_stream_witness:
  "\<exists>(s :: client \<times> (CommandResponse + data_block) link) s0 l c w.
     client_start (link_request plain_codec 0) no_host_counters 0 s = (s0, Inr 1) \<and>
     client_reads (link_request plain_codec 0) s0 [ReportItem (HostLossReport l)] [QueueLossReport l] (c, w) \<and> tk_observed_stream_anomalies c = 0 \<and>
     hq_dropped_blocks l = 3 \<and> tk_expected_sequence c (hq_kind l) = Some 3"
proof (rule overflowed_run)
  fix s c0 c l and w :: "(CommandResponse + data_block) link"
  assume s: "client_start (link_request plain_codec 0) no_host_counters 0 s = ((c0, w), Inr 1)"
    and r: "client_reads (link_request plain_codec 0) (c0, w) [ReportItem (HostLossReport l)] [QueueLossReport l] (c, w)" and e: "enabled c (hq_kind l)" "hq_dropped_blocks l = 3"
    and n: "tk_pending_items c = []" "tk_observed_stream_anomalies c = 0"
  have "tk_expected_sequence c (hq_kind l) = Some 3" using client_accounts_stream [OF s r n(2)] n(1) e by simp
  then show ?thesis using s r n(2) e(2) by blast
qed

end
