(* ===== verification/Reader_Losses.thy ===== *)
theory Reader_Losses
  imports Reader_Flow
begin

text \<open>
  Loss reports and the counter of evicted blocks: the reader queues and delivers a loss report only after it has
  counted an eviction.
\<close>

fun loss_report :: "ReaderStreamReport \<Rightarrow> bool" where
  "loss_report (HostLossReport l) = True"
| "loss_report (StaleReport a) = False"

fun loss_item :: "ReaderStreamItem \<Rightarrow> bool" where
  "loss_item (ReportItem report) = loss_report report"
| "loss_item (DataItem b) = False"

definition no_loss_waiting :: "'f reader \<Rightarrow> bool" where
  "no_loss_waiting r \<longleftrightarrow> (\<forall>report \<in> set (rd_stream_reports r). \<not> loss_report report)"

definition evicted :: "'f reader \<Rightarrow> int" where
  "evicted r = ty_host_block_queue_drops (rd_tally r)"

text \<open>\<open>reports_evictions r xs r'\<close>: from \<open>r\<close> to \<open>r'\<close>, which deliver \<open>xs\<close>, loss reports appear only when evictions are counted.\<close>

definition reports_evictions :: "'f reader \<Rightarrow> ReaderStreamItem list \<Rightarrow> 'f reader \<Rightarrow> bool" where
  "reports_evictions r xs r' \<longleftrightarrow> evicted r \<le> evicted r' \<and>
     (evicted r' = evicted r \<and> no_loss_waiting r \<longrightarrow> no_loss_waiting r' \<and> (\<forall>x \<in> set xs. \<not> loss_item x))"

lemmas eviction_defs = reports_evictions_def no_loss_waiting_def evicted_def

lemma evictions_trans: "reports_evictions r xs s \<Longrightarrow> reports_evictions s ys t \<Longrightarrow> reports_evictions r (xs @ ys) t"
  by (auto simp: reports_evictions_def)

lemma evictions_same: "rd_stream_reports r' = rd_stream_reports r \<Longrightarrow> evicted r' = evicted r \<Longrightarrow> reports_evictions r [] r'"
  by (simp add: reports_evictions_def no_loss_waiting_def)

lemma evictions_view: "stream_view r' = stream_view r \<Longrightarrow> reports_evictions r [] r'"
  by (rule evictions_same) (simp_all add: stream_view_def evicted_def)

lemma evictions_cong: "reports_evictions r xs r' \<Longrightarrow> stream_view s = stream_view r' \<Longrightarrow> reports_evictions r xs s"
  by (simp add: eviction_defs stream_view_def)

lemma evictions_run: "run_effect r r' \<Longrightarrow> reports_evictions r [] r'"
  by (auto simp: run_effect_def stream_view_def cleared_def record_boundary_eq eviction_defs)

section \<open>Dispatching a block\<close>

lemma coalesce_stale:
  "coalesce_report (StaleReport a) xs = Inr (Some ys) \<Longrightarrow> \<forall>x \<in> set xs. \<not> loss_report x \<Longrightarrow> \<forall>y \<in> set ys. \<not> loss_report y"
proof (induction xs arbitrary: ys)
  case (Cons x xs)
  have "coalesce_report (StaleReport a) xs = Inr (Some zs) \<Longrightarrow> \<forall>y \<in> set zs. \<not> loss_report y" for zs using Cons.IH Cons.prems(2) by simp
  then show ?case using Cons.prems by (cases x) (auto simp: Let_def map_sum_Inr_ex map_option_case split: sum.splits option.splits)
qed simp

lemma drop_first_subset: "set (drop_first P xs) \<subseteq> set xs"
  by (induction xs) auto

lemma enqueue_stale:
  assumes "enqueue_stream_report (StaleReport a) r = (r', res)"
  shows "reports_evictions r [] r'"
  using assms drop_first_subset [of is_stale_report "rd_stream_reports r"] coalesce_stale [of a "rev (rd_stream_reports r)"]
  by (auto 4 4 simp: enqueue_stream_report_def Let_def count_def eviction_defs split: sum.splits option.splits if_splits)

lemma enqueue_counts: "enqueue_stream_report report r = (r', res) \<Longrightarrow> evicted r' = evicted r"
  by (auto simp: evicted_def dest!: enqueue_effect)

lemma enqueue_raises: "enqueue_stream_report report r = (r', Inl e) \<Longrightarrow> r' = r"
  by (auto simp: enqueue_stream_report_def Let_def split: sum.splits option.splits if_splits)

lemma evicted_counts [simp]:
  "evicted (count_stream b f r) = evicted r" "no_loss_waiting (count_stream b f r) = no_loss_waiting r" "evicted (r\<lparr>rd_blocks := bs\<rparr>) = evicted r"
  by (cases b; simp add: count_stream_def evicted_def no_loss_waiting_def)+

lemma evict_oldest_reports:
  assumes "evict_oldest r = (r', res)"
  shows "reports_evictions r [] r'"
proof (cases "rd_max_queued_blocks r \<le> length (rd_blocks r)")
  case False
  then show ?thesis using assms by (simp add: evict_oldest_def evictions_view)
next
  case full: True
  let ?r = "r\<lparr>rd_blocks := tl (rd_blocks r)\<rparr>"
  show ?thesis
  proof (cases "loss_from_block (hd (rd_blocks r))")
    case (Inl e)
    then show ?thesis using assms full by (auto simp: evict_oldest_def Let_def intro: evictions_same)
  next
    case (Inr l)
    obtain r2 x where q: "enqueue_stream_report (HostLossReport l) ?r = (r2, x)" by fastforce
    show ?thesis
    proof (cases x)
      case (Inl e)
      then have "r' = ?r" using assms full Inr q enqueue_raises by (auto simp: evict_oldest_def Let_def)
      then show ?thesis by (simp add: evictions_same)
    next
      case x: (Inr u)
      have "evicted r2 = evicted r" using enqueue_counts [OF q] by simp
      then have "evicted r' = evicted r + 1" using assms full Inr q x by (auto simp: evict_oldest_def Let_def) (simp add: evicted_def count_def)
      then show ?thesis by (simp add: reports_evictions_def)
    qed
  qed
qed

lemma discard_stale_reports:
  assumes "discard_stale_block b r = (r', res)"
  shows "reports_evictions r [] r'"
proof -
  define r1 where "r1 = count_stream b (\<lambda>s. s\<lparr>sy_stale_blocks_discarded := sy_stale_blocks_discarded s + 1\<rparr>)
           (count (\<lambda>t. t\<lparr>ty_stale_blocks_discarded := ty_stale_blocks_discarded t + 1\<rparr>) r)"
  have r1: "reports_evictions r [] r1" by (simp add: r1_def reports_evictions_def) (simp add: count_def evicted_def no_loss_waiting_def)
  have "r' = r1 \<or> (\<exists>a x. enqueue_stream_report (StaleReport a) r1 = (r', x))"
    using assms [unfolded discard_stale_block_def Let_def, folded r1_def] by (auto split: if_splits sum.splits prod.splits)
  then show ?thesis using r1 evictions_trans [OF r1] enqueue_stale by fastforce
qed

lemma dispatch_block_reports:
  assumes "dispatch_block b r = (r', res)"
  shows "reports_evictions r [] r'"
proof -
  define r1 where "r1 = count_received b r"
  have r1: "reports_evictions r [] r1" by (simp add: r1_def count_received_def reports_evictions_def)
  note d = assms [unfolded dispatch_block_def Let_def, folded r1_def]
  have "reports_evictions r1 [] r'"
  proof (cases "\<not> rd_stream_active r1 \<or> block_run_id b \<noteq> rd_active_run_id r1")
    case True
    then show ?thesis using d discard_stale_reports by (simp split: if_splits)
  next
    case False
    obtain r2 x where e: "evict_oldest r1 = (r2, x)" by fastforce
    have "r' = r1 \<or> (rd_stream_reports r' = rd_stream_reports r2 \<and> evicted r' = evicted r2)"
      using d False e by (auto simp: count_def evicted_def split: if_splits sum.splits)
    then show ?thesis using evictions_trans [OF evict_oldest_reports [OF e] evictions_same, of r'] evictions_view [of r1 r1] by auto
  qed
  from evictions_trans [OF r1 this] show ?thesis by simp
qed

section \<open>Every step\<close>

lemma dispatch_current_reports: "reports_evictions r [] (dispatch_current r)"
proof (cases "rd_current r")
  case Idle
  then show ?thesis by (simp add: dispatch_current_def evictions_view)
next
  case Failed
  then show ?thesis using terminate_keeps(1) [of ReaderProtocolError True False r]
    by (intro evictions_view) (simp add: dispatch_current_def, simp add: stream_view_def)
next
  case (Decoded m)
  have v: "stream_view (s\<lparr>rd_current := c\<rparr>) = stream_view s" for s :: "'a reader" and c by (simp add: stream_view_def)
  show ?thesis
  proof (cases m)
    case (ResponseMessage response version)
    obtain r1 res where d: "dispatch_response response version r = (r1, res)" by fastforce
    from evictions_cong [OF evictions_run [OF dispatch_response_effect [OF d]] v] show ?thesis using Decoded ResponseMessage d by (simp add: dispatch_current_def)
  next
    case (BlockMessage b)
    obtain r1 res where d: "dispatch_block b r = (r1, res)" by fastforce
    from evictions_cong [OF dispatch_block_reports [OF d] v] show ?thesis using Decoded BlockMessage d by (simp add: dispatch_current_def)
  next
    case (EventMessage e)
    then show ?thesis using Decoded by (intro evictions_same) (simp_all add: dispatch_current_def dispatch_event_def Let_def count_def evicted_def)
  qed
qed

lemma await_reports:
  "await_block woken expired r = (r', x) \<Longrightarrow> reports_evictions r (polled DataItem x) r'"
  "await_stream_item woken expired r = (r', y) \<Longrightarrow> reports_evictions r (polled id y) r'"
  "await_event woken expired r = (r', e) \<Longrightarrow> reports_evictions r [] r'"
  by (auto simp: await_block_def await_stream_item_def await_event_def wait_step_def wait_timed_out_def count_def eviction_defs
      split: if_splits list.splits option.splits)

lemma get_reports:
  "get_block refused expired r = (r', x) \<Longrightarrow> reports_evictions r (polled DataItem x) r'"
  "get_stream_item refused expired r = (r', y) \<Longrightarrow> reports_evictions r (polled id y) r'"
  "get_event expired r = (r', e) \<Longrightarrow> reports_evictions r [] r'"
  using await_reports(1) [of False expired r r' x] await_reports(2) [of False expired r r' y] await_reports(3) [of False expired r r' e]
  by (auto simp: get_block_def get_stream_item_def get_event_def evictions_view split: sum.splits if_splits)

lemma run_reports:
  "activate_run run checksum configuration version r = (r', res) \<Longrightarrow> reports_evictions r [] r'"
  "activate_v3_run run settings r = (r', res) \<Longrightarrow> reports_evictions r [] r'" "deactivate_stream r = (r', res) \<Longrightarrow> reports_evictions r [] r'"
proof -
  show "reports_evictions r [] r'" if a: "activate_run run checksum configuration version r = (r', res)"
    using a by (intro evictions_run) (auto simp: activate_run_def Let_def run_effect_refl split: if_splits sum.splits
        dest!: activate_run_locked_effect intro: update_effect(1) [OF update_effect(2)] update_effect(2) [OF update_effect(1)])
  show "reports_evictions r [] r'" if a: "activate_v3_run run settings r = (r', res)"
    using a by (intro evictions_run) (auto simp: activate_v3_run_def run_effect_refl split: sum.splits
        dest!: activate_run_locked_effect intro: update_effect(1) [OF update_effect(2)] update_effect(2) [OF update_effect(1)])
  show "reports_evictions r [] r'" if a: "deactivate_stream r = (r', res)"
    using a deactivate_effect by (intro evictions_run) (auto simp: deactivate_stream_def run_effect_refl split: sum.splits)
qed

lemma ended_reports: "reports_evictions r [] (write_failed i failure r)" "finish_request i r = (r', res) \<Longrightarrow> reports_evictions r [] r'"
  "reports_evictions r [] (transport_lost r)" "reports_evictions r [] (parser_failed r)" "reports_evictions r [] (close_reader r)"
proof -
  have t: "stream_view (s\<lparr>rd_thread_alive := False\<rparr>) = stream_view s" for s :: "'a reader" by (simp add: stream_view_def)
  note c = only_requestsD(1) [OF complete_with_error_only]
  show "reports_evictions r [] (write_failed i failure r)" by (rule evictions_view, cases failure) (simp_all add: write_failed_def c terminate_keeps(1))
  show "reports_evictions r [] r'" if "finish_request i r = (r', res)"
    using that by (intro evictions_view) (auto simp: finish_request_def Let_def c terminate_keeps(1) split: if_splits option.splits)
  show "reports_evictions r [] (transport_lost r)" "reports_evictions r [] (parser_failed r)"
    by (rule evictions_view, simp add: transport_lost_def parser_failed_def t terminate_keeps(1))+
  have "stream_view (fail_all_pending ReaderClosedError (r\<lparr>rd_closed := True, rd_stop := True\<rparr>)) = stream_view r"
    unfolding only_requestsD(1) [OF fail_all_only] by (simp add: stream_view_def)
  then show "reports_evictions r [] (close_reader r)"
    by (cases "rd_closed r") (simp_all add: close_reader_def evictions_view, simp add: eviction_defs stream_view_def)
qed

lemma take_frame_reports: "reports_evictions r [] (take_frame codec wire r)"
  by (rule evictions_same) (auto simp: take_frame_def Let_def count_def evicted_def split: wire_frame.splits option.splits sum.splits)

lemma reader_step_reports:
  assumes "reader_step codec r xs r'"
  shows "reports_evictions r xs r'"
  using assms
proof (cases rule: reader_step.cases)
  case (request kind payload timeout now version negotiating res)
  then show ?thesis using begin_request_keeps [OF request(2)] by (simp add: evictions_view)
next
  case (start transport_open res)
  then show ?thesis by (auto intro!: evictions_same simp: start_reader_def evicted_def split: if_splits option.splits)
next
  case timed_out
  then show ?thesis by (auto intro!: evictions_same simp: wait_timed_out_def count_def evicted_def)
next
  case (read received readinto)
  then show ?thesis by (auto intro!: evictions_same simp: record_read_def count_def evicted_def)
next
  case (expire now)
  then show ?thesis by (simp add: evictions_view only_requestsD(1) [OF expire_pending_only])
qed (auto simp: take_frame_reports dispatch_current_reports ended_reports intro: ended_reports run_reports get_reports await_reports)

lemma reader_run_reports: "reader_run codec r0 bs ds r \<Longrightarrow> reports_evictions r0 ds r"
proof (induction rule: reader_run.induct)
  case nothing
  show ?case by (simp add: evictions_view)
next
  case (step bs ds r xs r')
  from evictions_trans [OF step.IH reader_step_reports [OF step.hyps(2)]] show ?case .
qed

end
