(* ===== verification/Client_Health.thy ===== *)
theory Client_Health
  imports Client_Account Reader_Losses
begin

text \<open>
  The health check of the facade, tied to the reader whose counters it reads: a run that it accepts has lost
  nothing between the device and the application.
\<close>

section \<open>What the check accepts\<close>

lemma no_gap_reports:
  assumes "\<forall>x \<in> set xs. plain_item x" "\<forall>kind \<in> {FK_ADC_DATA, FK_GPIO_DATA}. total_of (missed_items kind) xs = 0"
  shows "GapReport g \<notin> set xs"
proof
  assume g: "GapReport g \<in> set xs"
  have "0 \<le> missed_items kind x" if "x \<in> set xs" for x kind using assms(1) that by (cases x) auto
  moreover have "plain_item (GapReport g)" using assms(1) g by blast
  then have "total_of (missed_items (gp_kind g)) xs = 0" using assms(2) by (metis plain_item.simps(1))
  then have "\<forall>v \<in> set (map (missed_items (gp_kind g)) xs). v = 0"
    using calculation by (subst (asm) total_of_def, subst (asm) sum_list_nonneg_eq_0_iff) auto
  then have "missed_items (gp_kind g) (GapReport g) = 0" using g by (auto simp del: missed_items.simps)
  then show False using \<open>plain_item (GapReport g)\<close> by simp
qed

lemma check_health_accepts:
  assumes "check_health reader corruption status c = (c', Inr snapshot)" "tk_observed_stream_anomalies c = 0 \<Longrightarrow> tracked c xs"
    "tk_observed_stream_anomalies c = 0 \<or> 0 < tk_protocol_telemetry_errors c"
  shows "snapshot = status" "snapshot_firmware_faults status = []" "tk_observed_stream_anomalies c = 0"
    "baselines c = (corruption, rc_host_block_queue_drops reader, rc_loss_report_queue_drops reader)"
    "\<forall>kind \<in> {FK_ADC_DATA, FK_GPIO_DATA}. total_of (missed_items kind) xs = 0"
proof -
  obtain f where f: "v3_counters c status = Inr f" using assms(1) by (auto simp: check_health_def split: sum.splits)
  obtain c1 errors where e: "counter_reconciliation_errors f c = (c1, errors)" by fastforce
  have c1: "baselines c1 = baselines c" "tk_protocol_telemetry_errors c1 = tk_protocol_telemetry_errors c"
    using e by (auto simp: counter_reconciliation_errors_def observe_loss_stats_generation_def baselines_def split: option.splits prod.splits)
  have ok: "errors = []" "filter (\<lambda>(_, n). n \<noteq> 0) (health_categories reader corruption status c1) = []" "snapshot_firmware_faults status = []" "snapshot = status"
    using assms(1) f e by (auto simp: check_health_def split: if_splits list.splits)
  then show "snapshot = status" "snapshot_firmware_faults status = []" by simp_all
  show "baselines c = (corruption, rc_host_block_queue_drops reader, rc_loss_report_queue_drops reader)"
    using ok(2) c1(1) by (auto simp: health_categories_def baselines_def split: if_splits)
  show a: "tk_observed_stream_anomalies c = 0" using ok(2) c1(2) assms(3) by (auto simp: health_categories_def split: if_splits)
  have z: "ss_adc_items_dropped status = 0" "ss_gpio_items_dropped status = 0"
    using ok(3) by (simp_all add: snapshot_firmware_faults_def fault_fields_def split: if_splits)
  have d: "fst (snd (dropped_of kind f)) = 0" for kind
    using f z by (auto simp: v3_counters_def FirmwareCounters_post_init_def map_sum_Inr_ex check_unsigned_eq_Inr require_eq_Inr dropped_of_def Let_def split: option.splits)
  have t: "tracked c xs" by (rule assms(2) [OF a])
  have "\<forall>kind \<in> {FK_ADC_DATA, FK_GPIO_DATA}. enabled c kind \<longrightarrow> fst (snd (dropped_of kind f)) = total_of (missed_items kind) xs"
    using reconciliation_exact [OF t, of f] e ok(1) by auto
  moreover have "total_of (missed_items kind) xs = 0" if "\<not> enabled c kind" for kind
  proof -
    have "positioned c xs kind" using t by (simp add: tracked_def)
    then show ?thesis using that by (simp add: positioned_def enabled_def)
  qed
  ultimately show "\<forall>kind \<in> {FK_ADC_DATA, FK_GPIO_DATA}. total_of (missed_items kind) xs = 0" using d by (metis (no_types))
qed

lemma validate_health_checks:
  assumes "validate_stream_health request reader corruption status (c, w) = (s', Inr snapshot)"
  obtains c1 where "check_health reader corruption snapshot c1 = (fst s', Inr snapshot)" "exchange_view c1 = exchange_view c"
proof (cases status)
  case None
  obtain c1 w1 r where r: "client_status request (c, w) = ((c1, w1), r)" by (metis surj_pair)
  then obtain x where x: "r = Inr x" "check_health reader corruption x c1 = (fst s', Inr snapshot)"
    using assms None by (auto simp: validate_stream_health_def split: if_splits sum.splits prod.splits)
  then have "snapshot = x" by (auto simp: check_health_def split: sum.splits prod.splits if_splits list.splits)
  then show thesis using that x(2) client_status_view [OF r] by blast
next
  case (Some x)
  then have x: "check_health reader corruption x c = (fst s', Inr snapshot)"
    using assms by (auto simp: validate_stream_health_def split: if_splits prod.splits)
  then have "snapshot = x" by (auto simp: check_health_def split: sum.splits prod.splits if_splits list.splits)
  then show thesis using that x by blast
qed

lemma accepted_reads:
  assumes "client_start request host corruption s = (s0, Inr run)" "client_reads request s0 items out (c, w)"
    and "validate_stream_health request reader corruption' status (c, w) = (s', Inr snapshot)"
  shows "tk_observed_stream_anomalies c = 0" "tracked c (out @ tk_pending_items c)" "GapReport g \<notin> set (out @ tk_pending_items c)"
    "snapshot_firmware_faults snapshot = []" "rc_host_block_queue_drops reader = hc_host_block_queue_drops host"
    "rc_loss_report_queue_drops reader = hc_loss_report_queue_drops host" "corruption' = corruption"
proof -
  obtain c0 w0 where s0: "s0 = (c0, w0)" by (cases s0)
  note st = start_tracked [OF assms(1) [unfolded s0]]
  have sd: "steady c0 c" using reads_steady [OF assms(2)] s0 by simp
  obtain c1 where c1: "check_health reader corruption' snapshot c1 = (fst s', Inr snapshot)" "exchange_view c1 = exchange_view c"
    by (rule validate_health_checks [OF assms(3)])
  have b: "baselines c1 = (corruption, hc_host_block_queue_drops host, hc_loss_report_queue_drops host)"
    and n: "tk_observed_stream_anomalies c1 = tk_observed_stream_anomalies c" "0 \<le> tk_observed_stream_anomalies c1"
      "tk_observed_stream_anomalies c1 \<le> tk_protocol_telemetry_errors c1"
    using sd c1(2) st(3,6,7) by (auto simp: steady_def view_defs)
  have t: "tracked c (out @ tk_pending_items c)" "\<forall>x \<in> set (out @ tk_pending_items c). plain_item x" if "tk_observed_stream_anomalies c = 0"
    using reads_account [OF assms(2)] that s0 st(1-3) by simp_all
  have "tracked c1 (out @ tk_pending_items c)" if "tk_observed_stream_anomalies c1 = 0"
    using t(1) that n(1) tracked_same [of c1 c] c1(2) by (simp add: exchange_view_def)
  moreover have "tk_observed_stream_anomalies c1 = 0 \<or> 0 < tk_protocol_telemetry_errors c1" using n(2,3) by linarith
  ultimately have h: "snapshot_firmware_faults snapshot = []" "tk_observed_stream_anomalies c1 = 0"
    "baselines c1 = (corruption', rc_host_block_queue_drops reader, rc_loss_report_queue_drops reader)"
    "\<forall>kind \<in> {FK_ADC_DATA, FK_GPIO_DATA}. total_of (missed_items kind) (out @ tk_pending_items c) = 0"
    using check_health_accepts [OF c1(1), of "out @ tk_pending_items c"] by blast+
  show z: "tk_observed_stream_anomalies c = 0" using h(2) n(1) by simp
  show "tracked c (out @ tk_pending_items c)" by (rule t(1) [OF z])
  show "GapReport g \<notin> set (out @ tk_pending_items c)" by (rule no_gap_reports [OF t(2) [OF z] h(4)])
  show "snapshot_firmware_faults snapshot = []" "rc_host_block_queue_drops reader = hc_host_block_queue_drops host"
    "rc_loss_report_queue_drops reader = hc_loss_report_queue_drops host" "corruption' = corruption" using h(1,3) b by simp_all
qed

section \<open>Reading without losses\<close>

text \<open>Without an anomaly, a gap and a loss report, a read hands on the block that the reader delivered.\<close>

lemma process_anomaly_counts:
  assumes "process_anomaly request b a (c, w) = ((c', w'), Inr item)" "an_occurrences a = 1"
  shows "tk_observed_stream_anomalies c' = tk_observed_stream_anomalies c + 1"
proof -
  obtain c1 w1 x where e: "firmware_evidence request (an_kind a) (an_source a) (an_firmware_evidence a) (c, w) = ((c1, w1), x)" by (metis surj_pair)
  have "tk_observed_stream_anomalies c1 = tk_observed_stream_anomalies c" using firmware_evidence_view [OF e] by (simp add: track_view_def)
  then show ?thesis using assms
    by (auto simp: process_anomaly_def e Let_def advance_expectation_def dest!: anomaly_post_init_id split: sum.splits if_splits)
qed

lemma process_gap_item: "process_gap request b g s = (s', Inr item) \<Longrightarrow> \<exists>g. item = GapReport g"
  by (auto simp: process_gap_def Let_def split: prod.splits option.splits sum.splits if_splits)

lemma process_block_clean:
  assumes "process_block request corruption b (c, w) = ((c', w'), Inr item)" "tk_observed_stream_anomalies c' = tk_observed_stream_anomalies c" "\<And>g. item \<noteq> GapReport g"
  shows "item = BlockItem b \<and> tk_pending_items c' = tk_pending_items c"
proof -
  have an: "False" if "process_anomaly request b a (c, w) = ((c', w'), Inr item)" "analyze_stream_continuity b es et run prev = Inr (Anomaly a)" for a es et run prev
    using process_anomaly_counts [OF that(1) analyze_anomaly_once [OF that(2)]] assms(2) by simp
  have gp: "False" if "process_gap request b g (c, w) = ((c', w'), Inr item)" for g using process_gap_item [OF that] assms(3) by blast
  show ?thesis using assms(1)
    by (auto simp: process_block_def Let_def map_sum_Inr_ex advance_expectation_def dest: an gp split: option.splits sum.splits continuity.splits if_splits)
qed

lemma read_item_clean:
  assumes "read_item request corruption (Inr x) (c, w) = ((c', w'), Inr item)" "item_valid x" "\<not> loss_item x"
    "tk_observed_stream_anomalies c' = tk_observed_stream_anomalies c" "\<And>g. item \<noteq> GapReport g"
  shows "\<exists>b. x = DataItem b \<and> item = BlockItem b \<and> tk_pending_items c' = tk_pending_items c"
proof (cases x rule: item_valid.cases)
  case (1 b)
  then have "process_block request corruption b (c, w) = ((c', w'), Inr item)" using assms(1) by (auto simp: read_item_def split: if_splits)
  from process_block_clean [OF this assms(4,5)] 1 show ?thesis by simp
next
  case (2 l)
  then show ?thesis using assms(3) by simp
next
  case (3 a)
  then show ?thesis using assms(1,2,4) by (auto simp: read_item_def process_reader_anomaly_def Let_def split: if_splits)
qed

lemma reads_clean:
  assumes "client_reads request s0 items out s" "tk_observed_stream_anomalies (fst s0) = 0" "tk_pending_items (fst s0) = []"
  shows "tk_observed_stream_anomalies (fst s) = 0 \<and> (\<forall>g. GapReport g \<notin> set out) \<and> (\<forall>x \<in> set items. \<not> loss_item x) \<longrightarrow>
    tk_pending_items (fst s) = [] \<and> (\<exists>blocks. items = map DataItem blocks \<and> out = map BlockItem blocks)"
  using assms
proof (induction rule: client_reads.induct)
  case (deferred items out c w active c' item)
  from read_deferred_Some [OF deferred.hyps(2)] deferred.IH deferred.prems show ?case by auto
next
  case (fresh items out c w active x corruption s' item)
  obtain c' w' where s': "s' = (c', w')" by (cases s')
  note read = fresh.hyps(4) [unfolded s']
  have mono: "0 \<le> tk_observed_stream_anomalies c" "tk_observed_stream_anomalies c \<le> tk_observed_stream_anomalies c'"
    using reads_steady [OF fresh.hyps(1)] read_item_steady [OF read fresh.hyps(3)] fresh.prems by (simp_all add: steady_def)
  show ?case
  proof (rule impI)
    assume q: "tk_observed_stream_anomalies (fst s') = 0 \<and> (\<forall>g. GapReport g \<notin> set (out @ [item])) \<and> (\<forall>x \<in> set (items @ [x]). \<not> loss_item x)"
    then have z: "tk_observed_stream_anomalies c = 0" "tk_observed_stream_anomalies c' = tk_observed_stream_anomalies c" using mono s' by simp_all
    obtain blocks where ih: "tk_pending_items c = []" "items = map DataItem blocks" "out = map BlockItem blocks"
      using fresh.IH fresh.prems q z(1) by auto
    have "\<not> loss_item x" "item \<noteq> GapReport g" for g using q by auto
    from read_item_clean [OF read fresh.hyps(3) this(1) z(2) this(2)] obtain b where
      "x = DataItem b" "item = BlockItem b" "tk_pending_items c' = []" using ih(1) by auto
    then show "tk_pending_items (fst s') = [] \<and> (\<exists>blocks. items @ [x] = map DataItem blocks \<and> out @ [item] = map BlockItem blocks)"
      using s' ih by (intro conjI exI [of _ "blocks @ [b]"]) simp_all
  qed
qed auto

text \<open>The number of items of one kind in a list of blocks.\<close>

definition kind_items :: "FrameKind \<Rightarrow> data_block list \<Rightarrow> int" where
  "kind_items kind blocks = sum_list (map block_item_count (filter (\<lambda>b. block_kind b = kind) blocks))"

lemma covered_blocks: "total_of (covered_frames kind) (map BlockItem blocks) = kind_count kind blocks"
  "total_of (covered_items kind) (map BlockItem blocks) = kind_items kind blocks"
  by (induction blocks) (simp_all add: kind_items_def)

lemma placed_blocks:
  assumes "placed (map BlockItem blocks)" "i < length blocks"
  shows "block_sequence (blocks ! i) = kind_count (block_kind (blocks ! i)) (take i blocks) mod 2 ^ 32"
    "block_ticks (blocks ! i) = kind_items (block_kind (blocks ! i)) (take i blocks) * 8 mod 2 ^ 64"
proof -
  have "map BlockItem blocks = map BlockItem (take i blocks) @ BlockItem (blocks ! i) # map BlockItem (drop (Suc i) blocks)"
    using id_take_nth_drop [OF assms(2)] by (metis list.simps(9) map_append)
  then have "located (map BlockItem (take i blocks)) (blocks ! i)" using assms(1) by (simp add: placed_def)
  then show "block_sequence (blocks ! i) = kind_count (block_kind (blocks ! i)) (take i blocks) mod 2 ^ 32"
    "block_ticks (blocks ! i) = kind_items (block_kind (blocks ! i)) (take i blocks) * 8 mod 2 ^ 64"
    by (simp_all add: located_def covered_blocks)
qed

section \<open>The reader behind an accepted run\<close>

lemma delivered_data [simp]: "delivered_blocks (map DataItem blocks) = blocks"
  by (induction blocks) (simp_all add: delivered_blocks_def)

lemma reader_counters_drops [simp]:
  "rc_host_block_queue_drops (reader_counters r) = evicted r" "rc_loss_report_queue_drops (reader_counters r) = ty_loss_report_queue_drops (rd_tally r)"
  by (simp_all add: reader_counters_def evicted_def Let_def)

text \<open>What arrives in a run without evictions is delivered, waits, or is counted as a discard at a boundary or of another run.\<close>

lemma run_without_evictions:
  assumes reach: "reader_reach codec r1 ds1" and run: "reader_run codec r1 bs ds r" and same: "evicted r = evicted r1" and healthy: "healthy r"
    and k: "k \<in> {FK_ADC_DATA, FK_GPIO_DATA}"
  shows "kind_count k bs = kind_count k (delivered_blocks ds) + kind_count k (rd_blocks r) - kind_count k (rd_blocks r1) +
    (sy_boundary_blocks_discarded (tally_of k r) - sy_boundary_blocks_discarded (tally_of k r1)) +
    (sy_stale_blocks_discarded (tally_of k r) - sy_stale_blocks_discarded (tally_of k r1))"
proof -
  have r1: "queues_bounded r1" "totalled r1" "healthy r1 \<longrightarrow> balanced ds1 r1" using reader_reach_account [OF reach] by simp_all
  have a: "grows r1 r" "totalled r" "healthy r1" "balanced ds1 r1" "balanced (ds1 @ ds) r"
    using reader_run_account [OF run r1(1)] r1(2,3) healthy by (auto simp: keeps_account_def)
  have "sy_block_queue_drops (rd_adc r) = sy_block_queue_drops (rd_adc r1)" "sy_block_queue_drops (rd_gpio r) = sy_block_queue_drops (rd_gpio r1)"
    using a(1,2) r1(2) same unfolding totalled_def grows_def tally_grows_def evicted_def by linarith+
  then have "sy_block_queue_drops (tally_of k r) = sy_block_queue_drops (tally_of k r1)" by (simp add: tally_of_def)
  moreover have "sy_frames_received (tally_of k r) = sy_frames_received (tally_of k r1) + kind_count k bs"
    using reader_run_flows [OF run] k by (auto simp: flows_def)
  ultimately show ?thesis using a(4,5) k by (auto simp: balanced_def)
qed

section \<open>A run with one block\<close>

text \<open>A status without losses.\<close>

definition quiet_status :: V3Status where
  "quiet_status = \<lparr>ss_stop = \<lparr>sp_state = DS_RUNNING, sp_run_id = 1, sp_pending_frames = 0\<rparr>, ss_adc_frames_produced = 5, ss_adc_frames_dropped = 0,
     ss_adc_items_produced = 50, ss_adc_items_dropped = 0, ss_gpio_frames_produced = 5, ss_gpio_frames_dropped = 0, ss_gpio_items_produced = 50,
     ss_gpio_items_dropped = 0, ss_diagnostics = replicate 37 None\<rparr>"

lemma quiet_faults: "snapshot_firmware_faults quiet_status = []"
  by code_simp

lemma quiet_health:
  assumes t: "tracked c xs" and m: "\<forall>kind. total_of (missed_frames kind) xs = 0 \<and> total_of (missed_items kind) xs = 0"
    and c: "\<not> tk_closed c" "tk_protocol_telemetry_errors c = 0" "baselines c = (0, 0, 0)" "tk_loss_stats_generation c = None" "ses_applied (tk_session c) \<noteq> None"
    and counters: "rc_host_block_queue_drops counters = 0" "rc_loss_report_queue_drops counters = 0"
  shows "\<exists>c'. validate_stream_health request counters 0 (Some quiet_status) (c, w) = ((c', w), Inr quiet_status)"
proof -
  obtain f where f: "v3_counters c quiet_status = Inr f" "\<forall>kind. dropped_of kind f = (0, 0, 0)"
    using c(5) by (auto simp: v3_counters_def FirmwareCounters_post_init_def quiet_status_def dropped_of_def Let_def check_unsigned_def require_def)
  obtain c1 errors where e: "counter_reconciliation_errors f c = (c1, errors)" by fastforce
  have "errors = []" using reconciliation_exact [OF t, of f] e f(2) m c(4) by simp
  moreover have "baselines c1 = baselines c" "tk_protocol_telemetry_errors c1 = tk_protocol_telemetry_errors c"
    using e by (auto simp: counter_reconciliation_errors_def observe_loss_stats_generation_def baselines_def split: option.splits prod.splits)
  ultimately show ?thesis using f(1) e c(1-3) counters quiet_faults
    by (simp add: validate_stream_health_def check_health_def health_categories_def baselines_def quiet_status_def)
qed

text \<open>The first block of a run of a new device: one sample of the GPIO stream.\<close>

definition first_block :: data_block where
  "first_block = AsGPIO \<lparr>gb_run_id = 1, gb_sequence = 0, gb_first_sample_ticks = 0, gb_payload = [0], gb_flags = 0, gb_checksum_algorithm = ADLER32,
     gb_aux_bank_mode = AUX_DISABLED, gb_rate_profile = RP_ADC_1MHZ_GPIO_1MHZ, gb_protocol_version = 3,
     gb_encoded_payload = Some (data_prefix ENC_RAW 1 1 0 @ [0])\<rparr>"

lemma first_block_fields: "block_kind first_block = FK_GPIO_DATA" "block_run_id first_block = 1" "block_sequence first_block = 0" "block_ticks first_block = 0"
  "block_source first_block = SRC_HARDWARE" "block_protocol_version first_block = 3" "block_checksum_algorithm first_block = ADLER32" "block_period_ticks first_block = 8"
  by (simp_all add: first_block_def)

lemma first_block_valid: "block_valid first_block"
  unfolding block_valid_def by code_simp

lemma first_block_continuous: "analyze_stream_continuity first_block 0 0 1 None = Inr Continuous"
proof -
  have "\<not> ev_gap_before (block_evidence first_block)" by (simp add: block_evidence_def flag_set_def first_block_def)
  moreover have "FirmwareLossEvidence_post_init (block_evidence first_block) = Inr (block_evidence first_block)" by (rule block_evidence_ok(1) [OF first_block_valid])
  ultimately show ?thesis by (simp add: analyze_stream_continuity_def first_block_fields Let_def check_unsigned_def UINT32_MAX_def UINT64_MAX_def)
qed

text \<open>The counters of a new parser.\<close>

definition fresh_counters :: ParserCounters where
  "fresh_counters = parser_counters (empty_parser_state :: unit parser_state)"

text \<open>A run in which this block is read.\<close>

lemma quiet_run:
  assumes "rc_host_block_queue_drops counters = 0" "rc_loss_report_queue_drops counters = 0"
  obtains s c0 c c' and w :: "(CommandResponse + data_block) link" where
    "client_start (link_request plain_codec 0) no_host_counters 0 s = ((c0, w), Inr 1)"
    "client_reads (link_request plain_codec 0) (c0, w) [DataItem first_block] [BlockItem first_block] (c, w)" "enabled c FK_GPIO_DATA"
    "validate_stream_health (link_request plain_codec 0) counters 0 (Some quiet_status) (c, w) = ((c', w), Inr quiet_status)"
proof -
  obtain s :: "client \<times> (CommandResponse + data_block) link" and c w cfg kind where
    s: "client_start (link_request plain_codec 0) no_host_counters 0 s = ((c, w), Inr 1)" and f: "tk_configuration c = Some cfg" "tk_run_id c = 1"
    "\<not> tk_closed c" "\<not> tk_strict c" "tk_state c = Some V1_RUNNING" "kind \<in> {FK_ADC_DATA, FK_GPIO_DATA}"
    "tk_expected_sequence c kind = Some 0" "tk_expected_ticks c kind = Some 0" "kind = FK_GPIO_DATA" "dc_source cfg = SRC_HARDWARE" "tk_previous_sequence c = Map.empty"
    by (rule new_client_starts)
  note t = start_tracked [OF s] start_applied [OF s]
  let ?c = "advance_expectation FK_GPIO_DATA first_block c"
  have "tk_unanchored_streams c = {}" using t(1) by (simp add: tracked_def)
  then have i: "read_item (link_request plain_codec 0) 0 (Inr (DataItem first_block)) (c, w) = ((?c, w), Inr (BlockItem first_block))"
    using f by (simp add: read_item_def process_block_def first_block_fields first_block_continuous validate_clean_block_def advance_expectation_def)
  have d: "read_deferred 1 c = (c, Inr None)" using f t by (simp add: read_deferred_def)
  have ok: "item_valid (DataItem first_block)" by (simp add: first_block_valid first_block_fields)
  have r: "client_reads (link_request plain_codec 0) (c, w) [DataItem first_block] [BlockItem first_block] (?c, w)"
    using client_reads.fresh [OF client_reads.none d ok i] by simp
  have "tracked ?c [BlockItem first_block]"
    using clean_step [OF t(1) first_block_valid] f by (simp add: first_block_fields)
  from quiet_health [OF this, of counters "link_request plain_codec 0" w] obtain c' where
    "validate_stream_health (link_request plain_codec 0) counters 0 (Some quiet_status) (?c, w) = ((c', w), Inr quiet_status)"
    using t f assms by (auto simp: advance_expectation_def baselines_def no_host_counters_def)
  then show thesis by (rule that [OF s r, rotated]) (simp add: enabled_def advance_expectation_def)
qed

section \<open>Properties\<close>

text \<open>
  Property C35. A run that the health check accepts has lost nothing on the way. START takes the counters of the reader and the parser as
  baselines; when the run is activated the reader's queues are empty; from then on the application takes all that the reader delivers, in any interleaving with
  the reader's threads, and its reads succeed; the check, on the counters of that reader, accepts. Then the reader has delivered nothing but blocks
  and the application has been given exactly these, in order, with none deferred: no gap, no host queue loss, no anomaly. They are consecutive from START: the
  sequence number of each is the number of blocks of its kind before it and its timestamp the time that their items cover, modulo the counter widths, and
  the next expected sequence number of an enabled stream is the number of its blocks. Delivered and queued blocks are, in order, among those that arrived, and while the reader
  is healthy every other arrival is counted as discarded at a run boundary or as stale: none was evicted. The reader has evicted no block and dropped no
  report and the parser has met no corruption since START, and the device reports no fault.
\<close>

theorem healthy_run_complete:
  assumes "reader_reach codec r0 before"
    and "client_start request (host_counters (reader_counters r0) parser) (int (c_corruption_events parser)) s = (s0, Inr run)"
    and "reader_run codec r0 bs0 ds0 r1" "rd_blocks r1 = []" "rd_stream_reports r1 = []"
    and "reader_run codec r1 bs ds r" "client_reads request s0 ds out (c, w)"
    and "validate_stream_health request (reader_counters r) (int (c_corruption_events parser')) status (c, w) = (s', Inr snapshot)"
  shows "tk_pending_items c = [] \<and>
    (\<exists>blocks. ds = map DataItem blocks \<and> out = map BlockItem blocks \<and>
      (\<forall>i < length blocks. block_sequence (blocks ! i) = kind_count (block_kind (blocks ! i)) (take i blocks) mod 2 ^ 32 \<and>
        block_ticks (blocks ! i) = kind_items (block_kind (blocks ! i)) (take i blocks) * 8 mod 2 ^ 64) \<and>
      (\<forall>kind. enabled c kind \<longrightarrow> tk_expected_sequence c kind = Some (kind_count kind blocks mod 2 ^ 32)) \<and>
      subseq (blocks @ rd_blocks r) bs \<and>
      (healthy r \<longrightarrow> (\<forall>k \<in> {FK_ADC_DATA, FK_GPIO_DATA}. kind_count k bs = kind_count k blocks + kind_count k (rd_blocks r) +
        (sy_boundary_blocks_discarded (tally_of k r) - sy_boundary_blocks_discarded (tally_of k r1)) +
        (sy_stale_blocks_discarded (tally_of k r) - sy_stale_blocks_discarded (tally_of k r1))))) \<and>
    evicted r = evicted r0 \<and> ty_loss_report_queue_drops (rd_tally r) = ty_loss_report_queue_drops (rd_tally r0) \<and>
    c_corruption_events parser' = c_corruption_events parser \<and> snapshot_firmware_faults snapshot = []"
proof -
  obtain c0 w0 where s0: "s0 = (c0, w0)" by (cases s0)
  note st = start_tracked [OF assms(2) [unfolded s0]]
  from accepted_reads [OF assms(2) assms(7) assms(8)]
  have h: "tk_observed_stream_anomalies c = 0" "tracked c (out @ tk_pending_items c)" "\<And>g. GapReport g \<notin> set (out @ tk_pending_items c)"
    "snapshot_firmware_faults snapshot = []" "evicted r = evicted r0" "ty_loss_report_queue_drops (rd_tally r) = ty_loss_report_queue_drops (rd_tally r0)"
    "c_corruption_events parser' = c_corruption_events parser" by (simp_all add: host_counters_def)
  have "evicted r0 \<le> evicted r1" "evicted r1 \<le> evicted r"
    using reader_run_reports [OF assms(3)] reader_run_reports [OF assms(6)] by (simp_all add: reports_evictions_def)
  then have e: "evicted r = evicted r1" using h(5) by simp
  have "no_loss_waiting r1" using assms(5) by (simp add: no_loss_waiting_def)
  then have l: "\<forall>x \<in> set ds. \<not> loss_item x" using reader_run_reports [OF assms(6)] e by (simp add: reports_evictions_def)
  have p: "tk_pending_items c = []" "\<exists>blocks. ds = map DataItem blocks \<and> out = map BlockItem blocks"
    using reads_clean [OF assms(7)] s0 st(2,3) h(1,3) l by auto
  then obtain blocks where b: "ds = map DataItem blocks" "out = map BlockItem blocks" by blast
  have t: "tracked c (map BlockItem blocks)" using h(2) p(1) b(2) by simp
  have "subseq (blocks @ rd_blocks r) bs" using reader_run_flows [OF assms(6)] assms(4) b(1) by (simp add: flows_def)
  moreover have "tk_expected_sequence c kind = Some (kind_count kind blocks mod 2 ^ 32)" if "enabled c kind" for kind
    using tracked_position [OF t that] by (simp add: covered_blocks)
  ultimately show ?thesis
    using p(1) b h(4-7) run_without_evictions [OF reader_run_reach [OF assms(3,1)] assms(6) e] assms(4) placed_blocks [of blocks] t
    by (intro conjI exI [of _ blocks]) (simp_all add: tracked_def)
qed

theorem healthy_run_complete_witness:
  "\<exists>(r0 :: (CommandResponse + data_block) reader) r s s0 c w s'. reader_reach plain_codec r0 [] \<and>
     client_start (link_request plain_codec 0) (host_counters (reader_counters r0) fresh_counters) 0 s = (s0, Inr 1) \<and>
     reader_run plain_codec r0 [] [] (active_reader 1) \<and> reader_run plain_codec (active_reader 1) [first_block] [DataItem first_block] r \<and>
     client_reads (link_request plain_codec 0) s0 [DataItem first_block] [BlockItem first_block] (c, w) \<and>
     validate_stream_health (link_request plain_codec 0) (reader_counters r) 0 (Some quiet_status) (c, w) = (s', Inr quiet_status) \<and>
     tk_expected_sequence c FK_GPIO_DATA = Some 1 \<and> evicted r = evicted r0"
proof -
  obtain r where r: "reader_run plain_codec (active_reader 1) [first_block] [DataItem first_block] r" "evicted r = 0" "ty_loss_report_queue_drops (rd_tally r) = 0"
    using one_block_run [of first_block] by (auto simp: first_block_fields UINT32_MAX_def evicted_def)
  obtain r0 where r0: "BackgroundReader 1 1 1 1 [] 1 = Inr r0" "reader_run plain_codec r0 [] [] (active_reader 1)"
    using active_reader_run [of 1 plain_codec] by (auto simp: UINT32_MAX_def)
  have reach: "reader_reach plain_codec r0 []" by (rule reader_reach.init [OF r0(1)]) (simp_all add: UINT32_MAX_def)
  have host: "host_counters (reader_counters r0) fresh_counters = no_host_counters"
    using r0(1) by (auto simp: BackgroundReader_def require_def host_counters_def reader_counters_def no_host_counters_def no_tally_def no_stream_tally_def
        fresh_counters_def parser_counters_def empty_parser_state_def Let_def)
  have q: "rd_blocks (active_reader 1 :: (CommandResponse + data_block) reader) = []" "rd_stream_reports (active_reader 1 :: (CommandResponse + data_block) reader) = []"
    by (simp_all add: active_reader_eq UINT32_MAX_def started_reader_eq)
  obtain s c0 c c' and w :: "(CommandResponse + data_block) link" where
    c: "client_start (link_request plain_codec 0) no_host_counters 0 s = ((c0, w), Inr 1)"
    "client_reads (link_request plain_codec 0) (c0, w) [DataItem first_block] [BlockItem first_block] (c, w)" "enabled c FK_GPIO_DATA"
    "validate_stream_health (link_request plain_codec 0) (reader_counters r) 0 (Some quiet_status) (c, w) = ((c', w), Inr quiet_status)"
    by (rule quiet_run [of "reader_counters r"]) (simp_all add: r)
  have z: "int (c_corruption_events fresh_counters) = 0" by (simp add: fresh_counters_def parser_counters_def empty_parser_state_def)
  have start: "client_start (link_request plain_codec 0) (host_counters (reader_counters r0) fresh_counters) (int (c_corruption_events fresh_counters)) s = ((c0, w), Inr 1)"
    and health: "validate_stream_health (link_request plain_codec 0) (reader_counters r) (int (c_corruption_events fresh_counters)) (Some quiet_status) (c, w) =
      ((c', w), Inr quiet_status)" using c(1,4) host z by simp_all
  have "tk_expected_sequence c FK_GPIO_DATA = Some 1 \<and> evicted r = evicted r0"
    using healthy_run_complete [OF reach start r0(2) q r(1) c(2) health] c(3) by (auto simp: first_block_fields)
  then show ?thesis using reach c r0(2) r(1) host by metis
qed

end
