(* ===== verification/Spec2Isabelle.thy ===== *)
theory Spec2Isabelle
  imports Checksum Incremental V3_Frame Synthetic V3_Device Aligner Reconciliation Session_Link Client_Health
begin

text \<open>
  A verification of the ThingDAQ host SDK (Python sources under
  \<^verbatim>\<open>src/daq_api/src/thingdone_daq/\<close>).

  \<^bold>\<open>The program.\<close> A Teensy device streams 12-bit ADC pairs and GPIO samples over USB serial in
  checksummed binary frames; the host sends commands and receives correlated responses on the same
  link. The SDK computes checksums (\<^verbatim>\<open>checksum.py\<close>), scans the byte stream for frames with bounded
  memory and resynchronises after corruption (\<^verbatim>\<open>_incremental.py\<close>), encodes and decodes version-3 frames
  and sample payloads (\<^verbatim>\<open>protocol_v3.py\<close>), typed control records (\<^verbatim>\<open>models_v3.py\<close>) and generates the
  deterministic sample patterns used by simulators and soak tests (\<^verbatim>\<open>synthetic.py\<close>). A simulated
  device (\<^verbatim>\<open>simulator_v3.py\<close>) answers commands and produces data frames with the same codecs. On the host,
  decoded frames become blocks whose gaps are classified and whose losses are counted (\<^verbatim>\<open>models.py\<close>), and an
  aligner pairs the ADC and GPIO blocks of one interval (\<^verbatim>\<open>alignment.py\<close>). A background thread reads the link,
  hands responses to the requests that wait for them and queues blocks and events for the application
  (\<^verbatim>\<open>reader.py\<close>). A session negotiates the protocol version (\<^verbatim>\<open>negotiation.py\<close>) and controls the device through
  the reader (\<^verbatim>\<open>session_v3.py\<close>). The facade \<^verbatim>\<open>ThingDAQ\<close> (\<^verbatim>\<open>client.py\<close>) offers control and streams to the
  application, follows the position in each stream and compares it with the loss counters of the device. A soak run checks every block
  of a synthetic stream and reconciles the counters of device and host (\<^verbatim>\<open>streaming.py\<close>).

  \<^bold>\<open>Conventions.\<close> Python integers are \<open>int\<close>, byte strings are lists of 8-bit words, exceptions are the
  left summand of a sum type (messages are dropped, error classes and codes are kept), \<^verbatim>\<open>struct\<close> formats
  are lists of field widths. A block under the reader's lock is one function on its state record; threads interleave
  such blocks. Clock readings are integers of any unit. Dynamic type checks (a \<^verbatim>\<open>bool\<close> passed for an \<^verbatim>\<open>int\<close>) hold by typing.

  \<^bold>\<open>Theories.\<close>
  \<^item> \<open>DAQ_Prelude\<close>: result combinators, little-endian integers, \<^verbatim>\<open>struct\<close> packing, slices.
  \<^item> \<open>Checksum\<close>: the pure and accelerated backends and the dispatch tables.
  \<^item> \<open>Incremental\<close>: the scanner as a state record and step functions; the loop is partial and its
    termination is a theorem of the locale \<open>framing\<close>, which names what the callbacks must satisfy.
  \<^item> \<open>V3_Constants\<close>, \<open>V3_Header\<close>, \<open>V3_Codec\<close>, \<open>V3_Records\<close>, \<open>V3_Control\<close>, \<open>V3_Frame\<close>: the version-3
    wire format from the generated tables up to frames, commands and responses. The locale
    \<open>wire_codec\<close> states the two round-trip laws of a record codec and is interpreted for every record;
    the locale \<open>framing\<close> is interpreted for the version-3 parser.
  \<^item> \<open>Synthetic\<close>: the sample generators and validators.
  \<^item> \<open>V3_Simulator\<close>: the operations of the simulated device on its state record, and their invariant;
    its request parser is a second interpretation of \<open>framing\<close>. \<open>V3_Device\<close>: the device as a step
    relation and the properties of its reachable states.
  \<^item> \<open>Stream_Blocks\<close>: blocks, their metadata and gap evidence with the checks of their constructors, and the
    decoding of a data frame to a block. \<open>Continuity\<close>: gap computation, the classification of a block
    against its predecessor, and the accounting of blocks evicted from a host queue. \<open>Configuration\<close>: the
    stream configuration of versions 1 and 2 and its codec.
  \<^item> \<open>Alignment\<close>: the timestamp aligner, a state record with its operations; the two loops are partial.
    \<open>Aligner\<close>: its invariant and properties; the locale \<open>align_loop\<close> states what a step of a loop promises,
    proves that the loop ends, and is interpreted for the drain and for the flush.
  \<^item> \<open>Reader\<close>: the critical sections of the background reader. The version-1 and version-2 frames and their
    codec are a parameter (\<open>legacy_codec\<close>); nothing is assumed of it. \<open>Reader_Run\<close>: the step relation \<open>reader_step\<close> of all its
    threads, in any order, and the account of blocks. \<open>Reader_Requests\<close>: the table of pending requests.
    \<open>Reader_Flow\<close>: the order of blocks. \<open>Reader_Losses\<close>: loss reports appear only when evictions are counted.
  \<^item> \<open>Stream_Validator\<close>: the validator of a synthetic run, the status and health checks and the counter
    reconciliation (\<^verbatim>\<open>_reconcile\<close>). \<open>Data_Path\<close>: what the device sends is what the validator expects. The locale \<open>lock_step\<close>
    states that a producer and an acceptor stay related, and is interpreted for the simulated device and the
    validator; the reference of the validator is \<open>continues\<close>, the next block of the deterministic stream.
    \<open>Reconciliation\<close>: reader and validator together.
  \<^item> \<open>V3_Session\<close>: the operations of the control session and the version negotiation over an arbitrary link; the locale
    \<open>device_link\<close> states what a link to a device promises, in terms of an abstract device (\<open>device_view\<close>), and the session is
    verified inside it. \<open>Session_Link\<close> interprets it on the modelled reader and the simulated device. The time readings of the drain loop are a list, so
    the loop is structural.
  \<^item> \<open>Client_Stream\<close>: the operations of the facade in a version-3 session, on its state record and an arbitrary link; what it reads of the
    counters of reader and parser are arguments. \<open>Client_Account\<close>: the account of the items it has handed out (\<open>tracked\<close>), kept by every
    successful read (\<open>client_reads\<close>), and attaching and starting over the link of \<open>Session_Link\<close>. \<open>Client_Health\<close>: the health check, on the counters of the reader
    whose deliveries the facade has read.

  \<^bold>\<open>What is shown.\<close> Frames, payloads, control records, commands and responses round-trip in both
  directions; the parser terminates on every input within a fixed memory bound, accounts for every byte,
  does not depend on how the stream is cut into reads, returns every valid frame and recovers after
  noise; single-byte corruption is detected; the optimised checksum, unpacking and generator routines
  equal their reference definitions. The simulated device answers every request once, with a response the
  host accepts; settings and runs change only as the lifecycle allows; replays are refused; every data
  frame carries exactly the samples, sequence number and timestamp its counters announce. Every block is
  classified as contiguous, gap or anomaly by its position alone, and loss reports count exactly what was
  evicted. The aligner always returns, buffers no more intervals than configured, hands out every block
  exactly once, and its output accounts for the whole time line of a run; blocks of the equal-rate profile, the one of version 3, are refused. The frames of a synthetic run of
  the device, however cut into reads, decode to blocks that the validator accepts; and the validator accepts
  nothing but the deterministic stream. The reader keeps its queues bounded, delivers blocks in order, accounts for every
  block it does not deliver, answers each request at most once and only with its own response, and leaves no
  request waiting after a failure; the reconciliation of a run therefore never reports a conservation issue.
  The control session refines an abstract device: every sequence of its calls has the outcomes of that device, and what the session has
  stored is what the device has. The negotiation tries its versions in order and advances only on an explicit rejection.
  The items the facade hands out account for the position in every stream, its comparison with the device is exact, and a run that the health
  check accepts has lost nothing on the way: the application was given exactly the blocks the reader delivered, consecutive from START, and
  the reader has evicted none.
  After \<^verbatim>\<open>close\<close> or a refused frame the account may miss blocks: \<^verbatim>\<open>close\<close> clears the queue without counting it.

  \<^bold>\<open>Not modelled.\<close> Serial I/O, the partial writes of a request, starting and joining threads, the codecs, simulator and
  remaining control records of versions 1 and 2, the legacy branches of the facade with its discovery, identity checks and retries, the command line, plotting and NumPy adapters, floating-point
  calibration and the soak drivers: they wrap the modelled functions with operating-system effects.
\<close>

end
